(* ===== verification/Prelude.thy ===== *)
theory Prelude
  imports Main "HOL-Library.Word" "HOL-Library.Monad_Syntax"
begin

text \<open>
  Shared vocabulary of the development: 32-bit addresses with \<open>NULL = 0\<close>, the check that
  a dereferenced pointer is not \<open>NULL\<close>, and generic lemmas on the option monad, on
  lists and on words that the component theories use.

  Every operation of the C program that can loop, halt the system or dereference a pointer
  returns an \<open>option\<close>: \<open>None\<close> is \<^emph>\<open>the call does not return\<close> (an endless
  loop, the error hook that never returns, or a NULL dereference).  A theorem that an
  operation is \<open>Some\<close> is therefore a statement of termination and of memory safety.
\<close>

unbundle bit_operations_syntax

type_synonym addr = "32 word"
type_synonym u8 = "8 word"
type_synonym u16 = "16 word"
type_synonym u32 = "32 word"
type_synonym u64 = "64 word"

abbreviation NULL :: addr where "NULL \<equiv> 0"

definition deref :: "addr \<Rightarrow> unit option" where
  "deref p = (if p = NULL then None else Some ())"

lemma deref_nonnull [simp]: "p \<noteq> NULL \<Longrightarrow> deref p = Some ()"
  by (simp add: deref_def)

lemma deref_null [simp]: "deref NULL = None"
  by (simp add: deref_def)

named_theorems rtx_defs "definitions of the kernel operations"

section \<open>Lists\<close>

text \<open>The element after a prefix, \<open>NULL\<close> at the end of the list.\<close>

definition hd0 :: "addr list \<Rightarrow> addr" where
  "hd0 xs = (case xs of [] \<Rightarrow> NULL | x # _ \<Rightarrow> x)"

lemma hd0_simps [simp]: "hd0 [] = NULL" "hd0 (x # xs) = x"
  by (simp_all add: hd0_def)

lemma hd0_eq_NULL: "NULL \<notin> set xs \<Longrightarrow> hd0 xs = NULL \<longleftrightarrow> xs = []"
  by (cases xs) auto

lemma hd0_in_set: "xs \<noteq> [] \<Longrightarrow> hd0 xs \<in> set xs"
  by (cases xs) auto

lemma last_eq_NULL: "NULL \<notin> set xs \<Longrightarrow> last (NULL # xs) = NULL \<longleftrightarrow> xs = []"
  by (cases xs rule: rev_cases) auto

text \<open>Insertion of an element before the first one that fails \<open>P\<close>.\<close>

definition ins_after :: "('a \<Rightarrow> bool) \<Rightarrow> 'a \<Rightarrow> 'a list \<Rightarrow> 'a list" where
  "ins_after P t xs = takeWhile P xs @ t # dropWhile P xs"

lemma set_ins_after [simp]: "set (ins_after P t xs) = insert t (set xs)"
proof -
  have "set (ins_after P t xs) = insert t (set (takeWhile P xs @ dropWhile P xs))"
    by (simp add: ins_after_def del: takeWhile_dropWhile_id)
  then show ?thesis by (simp only: takeWhile_dropWhile_id)
qed

lemma distinct_ins_after: "distinct xs \<Longrightarrow> t \<notin> set xs \<Longrightarrow> distinct (ins_after P t xs)"
  using distinct_append [of "takeWhile P xs" "dropWhile P xs"]
  by (auto simp: ins_after_def dest: set_takeWhileD set_dropWhileD)

lemma length_ins_after [simp]: "length (ins_after P t xs) = Suc (length xs)"
proof -
  have "length (ins_after P t xs) = Suc (length (takeWhile P xs @ dropWhile P xs))"
    by (simp only: ins_after_def length_append list.size)
  then show ?thesis by simp
qed

lemma ins_after_Nil [simp]: "ins_after P t [] = [t]"
  by (simp add: ins_after_def)

lemma ins_after_Cons:
  "ins_after P t (x # xs) = (if P x then x # ins_after P t xs else t # x # xs)"
  by (simp add: ins_after_def)

lemma ins_after_cong: "(\<And>x. x \<in> set xs \<Longrightarrow> P x = Q x) \<Longrightarrow> ins_after P t xs = ins_after Q t xs"
  by (simp add: ins_after_def cong: takeWhile_cong dropWhile_cong)

lemma remove1_middle: "t \<notin> set xs \<Longrightarrow> remove1 t (xs @ t # ys) = xs @ ys"
  by (simp add: remove1_append)

lemma sorted_wrt_remove1: "sorted_wrt R xs \<Longrightarrow> sorted_wrt R (remove1 t xs)"
  by (induction xs) (auto dest: set_remove1_subset [THEN subsetD])

lemma sorted_wrt_ins_after:
  assumes "sorted_wrt R xs" "\<And>x. x \<in> set xs \<Longrightarrow> P x \<Longrightarrow> R x t"
    and "\<And>x. x \<in> set xs \<Longrightarrow> \<not> P x \<Longrightarrow> R t x"
    and "\<And>x y z. R x y \<Longrightarrow> R y z \<Longrightarrow> R x z"
  shows "sorted_wrt R (ins_after P t xs)"
  using assms(1-3)
proof (induction xs)
  case Nil
  then show ?case by simp
next
  case (Cons x xs)
  then have ih: "sorted_wrt R (ins_after P t xs)" by auto
  show ?case
  proof (cases "P x")
    case True
    with ih Cons.prems show ?thesis by (auto simp: ins_after_Cons)
  next
    case False
    with Cons.prems have "R t x" "\<forall>y\<in>set xs. R t y" by (auto intro: assms(4))
    with False Cons.prems show ?thesis by (auto simp: ins_after_Cons)
  qed
qed

section \<open>Words\<close>

lemma unat_dec: "x \<noteq> 0 \<Longrightarrow> unat (x - 1 :: 'a::len word) = unat x - 1"
  by (simp add: unat_minus_one)

lemma unat_sub_le: "b \<le> a \<Longrightarrow> unat (a - b :: 'a::len word) = unat a - unat b"
  by (simp add: unat_sub)

lemma unat_add_lt: "unat a + unat b < 2 ^ LENGTH('a) \<Longrightarrow> unat (a + b :: 'a::len word) = unat a + unat b"
  by (simp add: unat_word_ariths)

end
