(* ===== verification/Dll.thy ===== *)
theory Dll
  imports Prelude
begin

text \<open>
  Doubly linked lists in a field-split heap: \<open>nx\<close> and \<open>pv\<close> are the two link fields as
  functions of the address.  \<open>dseg nx pv p c xs\<close>: starting at pointer \<open>c\<close>, whose
  predecessor is \<open>p\<close>, the list of nodes up to \<open>NULL\<close> is \<open>xs\<close>.  \<open>chain nx pv r xs\<close>
  is the list rooted in the node \<open>r\<close> itself: the kernel's object lists, where the
  \<open>thread_list\<close> field of the object has the offset of the \<open>thread_next\<close> field of a
  thread.  A list rooted in a variable with value \<open>c\<close> (delay list, timer list) is
  \<open>dseg nx pv NULL c xs\<close>, which is a chain of the heap \<open>nx(NULL := c)\<close>, so that the
  lemmas on chains serve both.
\<close>

fun dseg :: "(addr \<Rightarrow> addr) \<Rightarrow> (addr \<Rightarrow> addr) \<Rightarrow> addr \<Rightarrow> addr \<Rightarrow> addr list \<Rightarrow> bool" where
  "dseg nx pv p c [] \<longleftrightarrow> c = NULL"
| "dseg nx pv p c (t # ts) \<longleftrightarrow> c = t \<and> t \<noteq> NULL \<and> pv t = p \<and> dseg nx pv t (nx t) ts"

definition chain :: "(addr \<Rightarrow> addr) \<Rightarrow> (addr \<Rightarrow> addr) \<Rightarrow> addr \<Rightarrow> addr list \<Rightarrow> bool" where
  "chain nx pv r xs = dseg nx pv r (nx r) xs"

lemma chain_Nil [simp]: "chain nx pv r [] \<longleftrightarrow> nx r = NULL"
  by (simp add: chain_def)

lemma chain_Cons [simp]:
  "chain nx pv r (t # ts) \<longleftrightarrow> nx r = t \<and> t \<noteq> NULL \<and> pv t = r \<and> chain nx pv t ts"
  by (simp add: chain_def)

lemma chain_nonnull: "chain nx pv r xs \<Longrightarrow> NULL \<notin> set xs"
  by (induction xs arbitrary: r) auto

lemma chain_root: "chain nx pv r xs \<Longrightarrow> nx r = hd0 xs"
  by (cases xs) auto

lemma chain_frame:
  assumes "\<And>x. x \<in> insert r (set xs) \<Longrightarrow> nx' x = nx x" and "\<And>x. x \<in> set xs \<Longrightarrow> pv' x = pv x"
  shows "chain nx' pv' r xs = chain nx pv r xs"
  using assms by (induction xs arbitrary: r) auto

lemma chain_frame_nx [simp]:
  "a \<noteq> r \<Longrightarrow> a \<notin> set xs \<Longrightarrow> chain (nx(a := v)) pv r xs = chain nx pv r xs"
  by (rule chain_frame) auto

lemma chain_frame_pv [simp]:
  "a \<notin> set xs \<Longrightarrow> chain nx (pv(a := v)) r xs = chain nx pv r xs"
  by (rule chain_frame) auto

lemma chain_append:
  "chain nx pv r (xs @ ys) \<Longrightarrow> chain nx pv (last (r # xs)) ys"
  by (induction xs arbitrary: r) auto

lemma chain_middle:
  assumes "chain nx pv r (xs @ t # ys)"
  shows "pv t = last (r # xs)" "nx t = hd0 ys" "nx (last (r # xs)) = t" "t \<noteq> NULL"
proof -
  from chain_append [OF assms] have "chain nx pv (last (r # xs)) (t # ys)" .
  then show "pv t = last (r # xs)" "nx t = hd0 ys" "nx (last (r # xs)) = t" "t \<noteq> NULL"
    by (auto dest: chain_root)
qed

text \<open>Following the forward links from the root visits the nodes in order.\<close>

lemma chain_nx_last: "chain nx pv r (xs @ ys) \<Longrightarrow> nx (last (r # xs)) = hd0 ys"
  by (drule chain_append, drule chain_root)

section \<open>Insertion and removal\<close>

lemma chain_insert:
  assumes "chain nx pv r (xs @ ys)" "distinct (r # t # xs @ ys)" "t \<noteq> NULL"
    and "q = last (r # xs)" "n = hd0 ys"
    and "\<And>x. x \<in> set (r # t # xs @ ys) \<Longrightarrow> nx' x = (if x = q then t else if x = t then n else nx x)"
    and "\<And>x. x \<in> set (t # xs @ ys) \<Longrightarrow> pv' x = (if x = n then t else if x = t then q else pv x)"
  shows "chain nx' pv' r (xs @ t # ys)"
  using assms
proof (induction xs arbitrary: r)
  case Nil
  have nn: "NULL \<notin> set ys" using chain_nonnull [OF Nil.prems(1)] by simp
  show ?case
  proof (cases ys)
    case Nil
    with Nil.prems show ?thesis by simp
  next
    case (Cons y ys')
    have "chain nx' pv' y ys' = chain nx pv y ys'"
      by (rule chain_frame) (use Nil.prems Cons in auto)
    then show ?thesis using Nil.prems Cons by auto
  qed
next
  case (Cons x xs)
  then have q: "q = last (x # xs)" by simp
  have ih: "chain nx' pv' x (xs @ t # ys)"
    using Cons.prems by (intro Cons.IH) auto
  have "q \<in> set (x # xs)" unfolding q by (rule last_in_set) simp
  then have "r \<noteq> q" "r \<noteq> t" "x \<noteq> t" using Cons.prems by auto
  moreover have "x \<noteq> n" using Cons.prems by (cases ys) auto
  ultimately show ?case using ih Cons.prems by simp
qed

lemma chain_remove:
  assumes "chain nx pv r (xs @ t # ys)" "distinct (r # xs @ t # ys)"
    and "q = last (r # xs)" "n = hd0 ys"
    and "\<And>x. x \<in> set (r # xs @ ys) \<Longrightarrow> nx' x = (if x = q then n else nx x)"
    and "\<And>x. x \<in> set (xs @ ys) \<Longrightarrow> pv' x = (if x = n then q else pv x)"
  shows "chain nx' pv' r (xs @ ys)"
  using assms
proof (induction xs arbitrary: r)
  case Nil
  show ?case
  proof (cases ys)
    case Nil
    with Nil.prems show ?thesis by simp
  next
    case (Cons y ys')
    have "chain nx' pv' y ys' = chain nx pv y ys'"
      by (rule chain_frame) (use Nil.prems Cons in auto)
    then show ?thesis using Nil.prems Cons by auto
  qed
next
  case (Cons x xs)
  then have q: "q = last (x # xs)" by simp
  have ih: "chain nx' pv' x (xs @ ys)"
    using Cons.prems by (intro Cons.IH) auto
  have "q \<in> set (x # xs)" unfolding q by (rule last_in_set) simp
  then have "r \<noteq> q" using Cons.prems by auto
  moreover have "x \<noteq> n" using Cons.prems by (cases ys) auto
  ultimately show ?case using ih Cons.prems by simp
qed

section \<open>Lists rooted in a variable\<close>

lemma dseg_chain:
  "NULL \<notin> set xs \<Longrightarrow> dseg nx pv NULL c xs = chain (nx(NULL := c)) pv NULL xs"
proof (cases xs)
  case (Cons x ys)
  assume "NULL \<notin> set xs"
  moreover have "NULL \<notin> set zs \<Longrightarrow> a \<noteq> NULL \<Longrightarrow> dseg nx pv a (nx a) zs = chain (nx(NULL := c)) pv a zs" for a zs
    by (simp add: chain_def [symmetric])
  ultimately show ?thesis using Cons by auto
qed simp

lemma dseg_nonnull: "dseg nx pv p c xs \<Longrightarrow> NULL \<notin> set xs"
  by (induction xs arbitrary: p c) auto

lemma dseg_root: "dseg nx pv p c xs \<Longrightarrow> c = hd0 xs"
  by (cases xs) auto

lemma dseg_frame:
  assumes "\<And>x. x \<in> set xs \<Longrightarrow> nx' x = nx x" and "\<And>x. x \<in> set xs \<Longrightarrow> pv' x = pv x"
  shows "dseg nx' pv' p c xs = dseg nx pv p c xs"
  using assms by (induction xs arbitrary: p c) auto

lemma dseg_middle:
  assumes "dseg nx pv NULL c (xs @ t # ys)"
  shows "pv t = last (NULL # xs)" "nx t = hd0 ys" "t \<noteq> NULL"
    "xs = [] \<Longrightarrow> c = t" "xs \<noteq> [] \<Longrightarrow> nx (last xs) = t"
proof -
  have nn: "NULL \<notin> set (xs @ t # ys)" by (rule dseg_nonnull [OF assms])
  have ch: "chain (nx(NULL := c)) pv NULL (xs @ t # ys)"
    using assms dseg_chain [OF nn] by simp
  show "pv t = last (NULL # xs)" by (rule chain_middle(1) [OF ch])
  show tn: "t \<noteq> NULL" by (rule chain_middle(4) [OF ch])
  then show "nx t = hd0 ys" using chain_middle(2) [OF ch] by simp
  show "xs = [] \<Longrightarrow> c = t" using chain_middle(3) [OF ch] by simp
  assume "xs \<noteq> []"
  then have "last xs \<noteq> NULL" using nn by (metis UnCI last_in_set set_append)
  then show "nx (last xs) = t" using chain_middle(3) [OF ch] \<open>xs \<noteq> []\<close> by simp
qed

text \<open>
  Insertion after the prefix \<open>xs\<close>, with the root in a variable: the new first node, the
  forward and the backward links.
\<close>

lemma dseg_insert:
  assumes ds: "dseg nx pv NULL c (xs @ ys)" and d: "distinct (t # xs @ ys)" and t: "t \<noteq> NULL"
    and n: "n = hd0 ys" and q: "q = last (NULL # xs)"
    and nx': "\<And>x. x \<noteq> NULL \<Longrightarrow> nx' x = (if x = q then t else if x = t then n else nx x)"
    and pv': "\<And>x. x \<noteq> NULL \<Longrightarrow> pv' x = (if x = n then t else if x = t then q else pv x)"
    and c': "c' = (if xs = [] then t else c)"
  shows "dseg nx' pv' NULL c' (xs @ t # ys)"
proof -
  have nn: "NULL \<notin> set (xs @ ys)" by (rule dseg_nonnull [OF ds])
  have ch: "chain (nx(NULL := c)) pv NULL (xs @ ys)"
    using ds dseg_chain [OF nn] by simp
  have d': "distinct (NULL # t # xs @ ys)" using d t nn by auto
  have qn: "xs \<noteq> [] \<Longrightarrow> q \<noteq> NULL" using q nn by (metis UnCI last_ConsR last_in_set set_append)
  have "chain (nx'(NULL := c')) pv' NULL (xs @ t # ys)"
  proof (rule chain_insert [OF ch d' t q n])
    fix x
    show "(nx'(NULL := c')) x = (if x = q then t else if x = t then n else (nx(NULL := c)) x)"
      using nx' c' q qn t by (cases "xs = []") auto
    assume "x \<in> set (t # xs @ ys)"
    then have "x \<noteq> NULL" using nn t by auto
    then show "pv' x = (if x = n then t else if x = t then q else pv x)" by (rule pv')
  qed
  then show ?thesis using dseg_chain [of "xs @ t # ys"] nn t by auto
qed

lemma dseg_remove:
  assumes ds: "dseg nx pv NULL c (xs @ t # ys)" and d: "distinct (xs @ t # ys)"
    and n: "n = hd0 ys" and q: "q = last (NULL # xs)"
    and nx': "\<And>x. x \<noteq> NULL \<Longrightarrow> x \<noteq> t \<Longrightarrow> nx' x = (if x = q then n else nx x)"
    and pv': "\<And>x. x \<noteq> NULL \<Longrightarrow> x \<noteq> t \<Longrightarrow> pv' x = (if x = n then q else pv x)"
    and c': "c' = (if xs = [] then n else c)"
  shows "dseg nx' pv' NULL c' (xs @ ys)"
proof -
  have nn: "NULL \<notin> set (xs @ t # ys)" by (rule dseg_nonnull [OF ds])
  have ch: "chain (nx(NULL := c)) pv NULL (xs @ t # ys)"
    using ds dseg_chain [OF nn] by simp
  have d': "distinct (NULL # xs @ t # ys)" using d nn by auto
  have qn: "xs \<noteq> [] \<Longrightarrow> q \<noteq> NULL" using q nn by (metis UnCI last_ConsR last_in_set set_append)
  have "chain (nx'(NULL := c')) pv' NULL (xs @ ys)"
  proof (rule chain_remove [OF ch d' q n])
    fix x assume "x \<in> set (NULL # xs @ ys)"
    then have "x \<noteq> t" using d' by auto
    then show "(nx'(NULL := c')) x = (if x = q then n else (nx(NULL := c)) x)"
      using nx' c' q qn by (cases "xs = []") auto
  next
    fix x assume "x \<in> set (xs @ ys)"
    then have "x \<noteq> NULL" "x \<noteq> t" using nn d by auto
    then show "pv' x = (if x = n then q else pv x)" by (rule pv')
  qed
  then show ?thesis using dseg_chain [of "xs @ ys"] nn by auto
qed

end
