(* ===== verification/Delta.thy ===== *)
theory Delta
  imports Dll
begin

text \<open>
  Delta queues: a list of nodes in which every node keeps the number of ticks after its
  predecessor's expiry.  The kernel has two, the delay list of the threads and the timer
  list.  \<open>delta_abs d acc ts\<close> is what such a list means: each node with the number of
  ticks left until it expires.
\<close>

fun delta_abs :: "(addr \<Rightarrow> u32) \<Rightarrow> nat \<Rightarrow> addr list \<Rightarrow> (addr \<times> nat) list" where
  "delta_abs d acc [] = []"
| "delta_abs d acc (t # ts) = (t, acc + unat (d t)) # delta_abs d (acc + unat (d t)) ts"

definition delta_sum :: "(addr \<Rightarrow> u32) \<Rightarrow> addr list \<Rightarrow> nat" where
  "delta_sum d ts = sum_list (map (\<lambda>t. unat (d t)) ts)"

lemma delta_sum_simps [simp]:
  "delta_sum d [] = 0" "delta_sum d (t # ts) = unat (d t) + delta_sum d ts"
  "delta_sum d (xs @ ys) = delta_sum d xs + delta_sum d ys"
  by (simp_all add: delta_sum_def)

lemma delta_sum_cong: "(\<And>x. x \<in> set ts \<Longrightarrow> d x = d' x) \<Longrightarrow> delta_sum d ts = delta_sum d' ts"
  by (induction ts) auto

lemma delta_sum_member: "t \<in> set ts \<Longrightarrow> unat (d t) \<le> delta_sum d ts"
  by (induction ts) auto

lemma delta_abs_cong: "(\<And>x. x \<in> set ts \<Longrightarrow> d x = d' x) \<Longrightarrow> delta_abs d acc ts = delta_abs d' acc ts"
  by (induction ts arbitrary: acc) auto

lemma delta_abs_append:
  "delta_abs d acc (xs @ ys) = delta_abs d acc xs @ delta_abs d (acc + delta_sum d xs) ys"
  by (induction xs arbitrary: acc) (auto simp: add.assoc)

lemma map_fst_delta_abs [simp]: "map fst (delta_abs d acc ts) = ts"
  by (induction ts arbitrary: acc) auto

lemma delta_abs_ge: "(t, n) \<in> set (delta_abs d acc ts) \<Longrightarrow> acc \<le> n"
  by (induction ts arbitrary: acc) force+

lemma delta_abs_le: "(t, n) \<in> set (delta_abs d acc ts) \<Longrightarrow> n \<le> acc + delta_sum d ts"
  by (induction ts arbitrary: acc) force+

lemma delta_abs_shift: "delta_abs d (acc + k) ts = map (map_prod id (\<lambda>n. n + k)) (delta_abs d acc ts)"
proof (induction ts arbitrary: acc)
  case (Cons t ts)
  have "acc + k + unat (d t) = acc + unat (d t) + k" by simp
  then show ?case using Cons [of "acc + unat (d t)"] by (simp only: delta_abs.simps) simp
qed simp

text \<open>
  Insertion: the walk passes every node that expires no later and subtracts its ticks;
  the node behind the new one gives up the ticks of the new one.
\<close>

fun delta_split :: "(addr \<Rightarrow> u32) \<Rightarrow> u32 \<Rightarrow> addr list \<Rightarrow> addr list \<times> addr list \<times> u32" where
  "delta_split d v [] = ([], [], v)"
| "delta_split d v (t # ts) =
     (if d t \<le> v then (let (xs, ys, w) = delta_split d (v - d t) ts in (t # xs, ys, w)) else ([], t # ts, v))"

lemma delta_split:
  assumes "delta_split d v ts = (xs, ys, w)"
  shows "ts = xs @ ys" "unat w + delta_sum d xs = unat v" "ys \<noteq> [] \<Longrightarrow> w < d (hd ys)"
proof -
  have "ts = xs @ ys \<and> unat w + delta_sum d xs = unat v \<and> (ys \<noteq> [] \<longrightarrow> w < d (hd ys))"
    using assms
  proof (induction ts arbitrary: v xs)
    case Nil
    then show ?case by auto
  next
    case (Cons t ts)
    show ?case
    proof (cases "d t \<le> v")
      case True
      then obtain xs' where x: "xs = t # xs'" "delta_split d (v - d t) ts = (xs', ys, w)"
        using Cons.prems by (auto split: prod.splits)
      have "unat (v - d t) = unat v - unat (d t)" "unat (d t) \<le> unat v"
        using True by (simp_all add: unat_sub_le word_le_nat_alt)
      then show ?thesis using x Cons.IH [OF x(2)] by auto
    next
      case False
      then show ?thesis using Cons.prems by auto
    qed
  qed
  then show "ts = xs @ ys" "unat w + delta_sum d xs = unat v" "ys \<noteq> [] \<Longrightarrow> w < d (hd ys)" by auto
qed

lemma delta_insert_abs:
  assumes "delta_split d v ts = (xs, ys, w)" "distinct (t # ts)" "d' t = w"
    and "\<And>x. x \<in> set xs \<Longrightarrow> d' x = d x"
    and "\<And>y zs. ys = y # zs \<Longrightarrow> d' y = d y - w \<and> (\<forall>x\<in>set zs. d' x = d x)"
  shows "delta_abs d' acc (xs @ t # ys)
    = ins_after (\<lambda>(x, n). n \<le> acc + unat v) (t, acc + unat v) (delta_abs d acc ts)"
  using assms
proof (induction ts arbitrary: v xs acc)
  case Nil
  then show ?case by auto
next
  case (Cons u ts)
  show ?case
  proof (cases "d u \<le> v")
    case True
    then obtain xs' where x: "xs = u # xs'" "delta_split d (v - d u) ts = (xs', ys, w)"
      using Cons.prems(1) by (auto split: prod.splits)
    have v: "unat (v - d u) = unat v - unat (d u)" "unat (d u) \<le> unat v"
      using True by (simp_all add: unat_sub_le word_le_nat_alt)
    have "delta_abs d' (acc + unat (d u)) (xs' @ t # ys)
      = ins_after (\<lambda>(x, n). n \<le> acc + unat (d u) + unat (v - d u)) (t, acc + unat (d u) + unat (v - d u))
          (delta_abs d (acc + unat (d u)) ts)"
      by (rule Cons.IH [OF x(2)]) (use Cons.prems x in auto)
    then show ?thesis using x(1) v Cons.prems(4) [of u] by (simp add: ins_after_Cons)
  next
    case False
    then have e: "xs = []" "ys = u # ts" "w = v" using Cons.prems(1) by auto
    have lt: "unat v < unat (d u)" using False by (simp add: word_less_nat_alt [symmetric])
    have du: "unat (d' u) = unat (d u) - unat v"
      using Cons.prems(5) [OF e(2)] e(3) False by (simp add: unat_sub_le)
    have "delta_abs d' (acc + unat (d u)) ts = delta_abs d (acc + unat (d u)) ts"
      by (rule delta_abs_cong) (use Cons.prems(5) [OF e(2)] in auto)
    then show ?thesis using e lt du Cons.prems(3) by (simp add: ins_after_Cons)
  qed
qed

text \<open>Removal: the node behind the removed one takes over its ticks.\<close>

lemma delta_remove_abs:
  assumes "distinct (xs @ t # ys)" "delta_sum d (xs @ t # ys) < 2 ^ 32"
    and "\<And>x. x \<in> set xs \<Longrightarrow> d' x = d x"
    and "\<And>y zs. ys = y # zs \<Longrightarrow> d' y = d y + d t \<and> (\<forall>x\<in>set zs. d' x = d x)"
  shows "delta_abs d' acc (xs @ ys) = filter (\<lambda>(x, n). x \<noteq> t) (delta_abs d acc (xs @ t # ys))"
proof -
  have keep: "filter (\<lambda>(x, n). x \<noteq> t) (delta_abs d a zs) = delta_abs d a zs" if "t \<notin> set zs" for a zs
    using that by (induction zs arbitrary: a) auto
  have "delta_abs d' acc xs = delta_abs d acc xs" "delta_sum d' xs = delta_sum d xs"
    using assms(3) by (auto intro: delta_abs_cong delta_sum_cong)
  moreover have "delta_abs d' a ys = delta_abs d (a + unat (d t)) ys" for a
  proof (cases ys)
    case (Cons y zs)
    note s = assms(4) [OF Cons]
    have "unat (d' y) = unat (d y) + unat (d t)"
      using s assms(2) Cons by (simp add: unat_add_lt)
    moreover have "delta_abs d' b zs = delta_abs d b zs" for b
      by (rule delta_abs_cong) (use s in auto)
    ultimately show ?thesis using Cons by (simp add: ac_simps)
  qed simp
  ultimately show ?thesis using keep [of xs] keep [of ys] assms(1) by (simp add: delta_abs_append)
qed

lemma delta_remove_sum:
  assumes "delta_sum d (xs @ t # ys) < 2 ^ 32"
    and "\<And>x. x \<in> set xs \<Longrightarrow> d' x = d x"
    and "\<And>y zs. ys = y # zs \<Longrightarrow> d' y = d y + d t \<and> (\<forall>x\<in>set zs. d' x = d x)"
  shows "delta_sum d' (xs @ ys) \<le> delta_sum d (xs @ t # ys)"
proof (cases ys)
  case Nil
  then show ?thesis using delta_sum_cong [of xs d' d] assms(2) by simp
next
  case (Cons y zs)
  note s = assms(3) [OF Cons]
  have "unat (d' y) = unat (d y) + unat (d t)" using s assms(1) Cons by (simp add: unat_add_lt)
  moreover have "delta_sum d' zs = delta_sum d zs" "delta_sum d' xs = delta_sum d xs"
    using s assms(2) by (auto intro: delta_sum_cong)
  ultimately show ?thesis using Cons by simp
qed

lemma delta_insert_sum:
  assumes "delta_split d v ts = (xs, ys, w)" "d' t = w"
    and "\<And>x. x \<in> set xs \<Longrightarrow> d' x = d x"
    and "\<And>y zs. ys = y # zs \<Longrightarrow> d' y = d y - w \<and> (\<forall>x\<in>set zs. d' x = d x)"
  shows "delta_sum d' (xs @ t # ys) = max (unat v) (delta_sum d ts)"
proof -
  note sp = delta_split [OF assms(1)]
  have x: "delta_sum d' xs = delta_sum d xs" using assms(3) by (auto intro: delta_sum_cong)
  show ?thesis
  proof (cases ys)
    case Nil
    then show ?thesis using sp x assms(2) by simp
  next
    case (Cons y zs)
    note s = assms(4) [OF Cons]
    have lt: "unat w < unat (d y)" using sp(3) Cons by (simp add: word_less_nat_alt [symmetric])
    then have "w \<le> d y" by (simp add: word_le_nat_alt)
    then have "unat (d' y) = unat (d y) - unat w" using s by (simp add: unat_sub_le)
    moreover have "delta_sum d' zs = delta_sum d zs" using s by (auto intro: delta_sum_cong)
    ultimately show ?thesis using Cons sp x assms(2) lt by simp
  qed
qed

text \<open>One tick: every node is one tick closer, and those at zero are a prefix of the list.\<close>

lemma delta_tick_abs:
  assumes "distinct (t # ts)" "d t \<noteq> 0" "d' t = d t - 1" "\<And>x. x \<in> set ts \<Longrightarrow> d' x = d x"
  shows "delta_abs d' 0 (t # ts) = map (map_prod id (\<lambda>n. n - 1)) (delta_abs d 0 (t # ts))"
proof -
  have u: "unat (d' t) + 1 = unat (d t)" using assms(2,3) by (simp add: unat_dec unat_gt_0)
  have "delta_abs d (unat (d t)) ts = map (map_prod id (\<lambda>n. n + 1)) (delta_abs d (unat (d' t)) ts)"
    using delta_abs_shift [of d "unat (d' t)" 1 ts] u by simp
  moreover have "delta_abs d' (unat (d' t)) ts = delta_abs d (unat (d' t)) ts"
    by (rule delta_abs_cong) (rule assms(4))
  ultimately show ?thesis using u by (auto simp: comp_def map_prod_def split_beta)
qed

lemma delta_zeros:
  assumes "delta_abs d 0 ts = xs"
  shows "takeWhile (\<lambda>t. d t = 0) ts = map fst (filter (\<lambda>(x, n). n = 0) xs)"
    and "delta_abs d 0 (dropWhile (\<lambda>t. d t = 0) ts) = filter (\<lambda>(x, n). n \<noteq> 0) xs"
proof -
  have none: "filter (\<lambda>(x, n). n = 0) (delta_abs d (Suc a) zs) = []"
    "filter (\<lambda>(x, n). n \<noteq> 0) (delta_abs d (Suc a) zs) = delta_abs d (Suc a) zs" for a zs
    using delta_abs_ge [of _ _ d "Suc a" zs] by (fastforce simp: filter_empty_conv filter_id_conv)+
  have "takeWhile (\<lambda>t. d t = 0) ts = map fst (filter (\<lambda>(x, n). n = 0) (delta_abs d 0 ts))
    \<and> delta_abs d 0 (dropWhile (\<lambda>t. d t = 0) ts) = filter (\<lambda>(x, n). n \<noteq> 0) (delta_abs d 0 ts)"
  proof (induction ts)
    case (Cons t ts)
    show ?case
    proof (cases "d t = 0")
      case True
      then show ?thesis using Cons by simp
    next
      case False
      then obtain a where "unat (d t) = Suc a" by (metis not0_implies_Suc unat_eq_zero)
      then show ?thesis using False none by simp
    qed
  qed simp
  then show "takeWhile (\<lambda>t. d t = 0) ts = map fst (filter (\<lambda>(x, n). n = 0) xs)"
    "delta_abs d 0 (dropWhile (\<lambda>t. d t = 0) ts) = filter (\<lambda>(x, n). n \<noteq> 0) xs"
    using assms by auto
qed

end
