(* ===== verification/RtxTypes.thy ===== *)
theory RtxTypes
  imports Prelude
begin

text \<open>
  The data of the RTX5 kernel (\<open>rtx_os.h\<close>, \<open>cmsis_os2.h\<close>): the constants and the state.

  The state is the record \<open>rtx\<close>: one field per member of \<open>osRtxInfo\<close>, and one function of
  the address per member of the control blocks (a field-split heap).  Control blocks of
  different types share the functions of the members they have at the same offset and that
  the code accesses through casts: \<open>o_id\<close>, \<open>o_state\<close>, \<open>o_flags\<close>, \<open>o_attr\<close>, \<open>o_name\<close> and
  \<open>thread_next\<close>, which is \<open>thread_next\<close> of a thread and \<open>thread_list\<close> of every other
  object (\<open>osRtxThreadObject\<close> casts one into the other).  \<open>mem32\<close> is raw memory by words: thread
  stacks, the block headers of the allocator and the links of the free pool blocks; \<open>mem8\<close> is the
  memory the kernel copies bytes from and to: message buffers, and the callbacks of timers.
\<close>

section \<open>Constants\<close>

text \<open>Object identifiers.\<close>

abbreviation (input) osRtxIdInvalid :: u8 where "osRtxIdInvalid \<equiv> 0x00"
abbreviation (input) osRtxIdThread :: u8 where "osRtxIdThread \<equiv> 0x01"
abbreviation (input) osRtxIdTimer :: u8 where "osRtxIdTimer \<equiv> 0x02"
abbreviation (input) osRtxIdEventFlags :: u8 where "osRtxIdEventFlags \<equiv> 0x03"
abbreviation (input) osRtxIdMutex :: u8 where "osRtxIdMutex \<equiv> 0x04"
abbreviation (input) osRtxIdSemaphore :: u8 where "osRtxIdSemaphore \<equiv> 0x05"
abbreviation (input) osRtxIdMemoryPool :: u8 where "osRtxIdMemoryPool \<equiv> 0x06"
abbreviation (input) osRtxIdMessage :: u8 where "osRtxIdMessage \<equiv> 0x07"
abbreviation (input) osRtxIdMessageQueue :: u8 where "osRtxIdMessageQueue \<equiv> 0x08"

abbreviation (input) osRtxFlagSystemObject :: u8 where "osRtxFlagSystemObject \<equiv> 0x01"
abbreviation (input) osRtxFlagSystemMemory :: u8 where "osRtxFlagSystemMemory \<equiv> 0x02"
abbreviation (input) osRtxThreadFlagDefStack :: u8 where "osRtxThreadFlagDefStack \<equiv> 0x10"

text \<open>Kernel states.\<close>

abbreviation (input) osRtxKernelInactive :: u8 where "osRtxKernelInactive \<equiv> 0"
abbreviation (input) osRtxKernelReady :: u8 where "osRtxKernelReady \<equiv> 1"
abbreviation (input) osRtxKernelRunning :: u8 where "osRtxKernelRunning \<equiv> 2"
abbreviation (input) osRtxKernelLocked :: u8 where "osRtxKernelLocked \<equiv> 3"
abbreviation (input) osRtxKernelSuspended :: u8 where "osRtxKernelSuspended \<equiv> 4"

text \<open>Thread states: the low four bits are the CMSIS state, the high four bits say what a
  blocked thread waits for.\<close>

abbreviation (input) osRtxThreadStateMask :: u8 where "osRtxThreadStateMask \<equiv> 0x0F"
abbreviation (input) osRtxThreadInactive :: u8 where "osRtxThreadInactive \<equiv> 0"
abbreviation (input) osRtxThreadReady :: u8 where "osRtxThreadReady \<equiv> 1"
abbreviation (input) osRtxThreadRunning :: u8 where "osRtxThreadRunning \<equiv> 2"
abbreviation (input) osRtxThreadBlocked :: u8 where "osRtxThreadBlocked \<equiv> 3"
abbreviation (input) osRtxThreadTerminated :: u8 where "osRtxThreadTerminated \<equiv> 4"
abbreviation (input) osRtxThreadWaitingDelay :: u8 where "osRtxThreadWaitingDelay \<equiv> 0x13"
abbreviation (input) osRtxThreadWaitingJoin :: u8 where "osRtxThreadWaitingJoin \<equiv> 0x23"
abbreviation (input) osRtxThreadWaitingThreadFlags :: u8 where "osRtxThreadWaitingThreadFlags \<equiv> 0x33"
abbreviation (input) osRtxThreadWaitingEventFlags :: u8 where "osRtxThreadWaitingEventFlags \<equiv> 0x43"
abbreviation (input) osRtxThreadWaitingMutex :: u8 where "osRtxThreadWaitingMutex \<equiv> 0x53"
abbreviation (input) osRtxThreadWaitingSemaphore :: u8 where "osRtxThreadWaitingSemaphore \<equiv> 0x63"
abbreviation (input) osRtxThreadWaitingMemoryPool :: u8 where "osRtxThreadWaitingMemoryPool \<equiv> 0x73"
abbreviation (input) osRtxThreadWaitingMessageGet :: u8 where "osRtxThreadWaitingMessageGet \<equiv> 0x83"
abbreviation (input) osRtxThreadWaitingMessagePut :: u8 where "osRtxThreadWaitingMessagePut \<equiv> 0x93"

abbreviation (input) osRtxTimerInactive :: u8 where "osRtxTimerInactive \<equiv> 0"
abbreviation (input) osRtxTimerStopped :: u8 where "osRtxTimerStopped \<equiv> 1"
abbreviation (input) osRtxTimerRunning :: u8 where "osRtxTimerRunning \<equiv> 2"
abbreviation (input) osTimerOnce :: u8 where "osTimerOnce \<equiv> 0"
abbreviation (input) osTimerPeriodic :: u8 where "osTimerPeriodic \<equiv> 1"

text \<open>Status codes (negative enumerators, as the 32-bit values the calls return).\<close>

abbreviation (input) osOK :: u32 where "osOK \<equiv> 0"
abbreviation (input) osError :: u32 where "osError \<equiv> 0xFFFFFFFF"
abbreviation (input) osErrorTimeout :: u32 where "osErrorTimeout \<equiv> 0xFFFFFFFE"
abbreviation (input) osErrorResource :: u32 where "osErrorResource \<equiv> 0xFFFFFFFD"
abbreviation (input) osErrorParameter :: u32 where "osErrorParameter \<equiv> 0xFFFFFFFC"
abbreviation (input) osErrorNoMemory :: u32 where "osErrorNoMemory \<equiv> 0xFFFFFFFB"
abbreviation (input) osErrorISR :: u32 where "osErrorISR \<equiv> 0xFFFFFFFA"

abbreviation (input) osWaitForever :: u32 where "osWaitForever \<equiv> 0xFFFFFFFF"
abbreviation (input) osFlagsWaitAll :: u32 where "osFlagsWaitAll \<equiv> 1"
abbreviation (input) osFlagsNoClear :: u32 where "osFlagsNoClear \<equiv> 2"
abbreviation (input) osMutexRecursive :: u8 where "osMutexRecursive \<equiv> 1"
abbreviation (input) osMutexPrioInherit :: u8 where "osMutexPrioInherit \<equiv> 2"
abbreviation (input) osMutexRobust :: u8 where "osMutexRobust \<equiv> 8"
abbreviation (input) osThreadJoinable :: u8 where "osThreadJoinable \<equiv> 1"
abbreviation (input) osPriorityNone :: int where "osPriorityNone \<equiv> 0"
abbreviation (input) osPriorityIdle :: int where "osPriorityIdle \<equiv> 1"
abbreviation (input) osPriorityNormal :: int where "osPriorityNormal \<equiv> 24"
abbreviation (input) osPriorityISR :: int where "osPriorityISR \<equiv> 56"
abbreviation (input) osPriorityError :: int where "osPriorityError \<equiv> -1"

abbreviation (input) osRtxMutexLockLimit :: u8 where "osRtxMutexLockLimit \<equiv> 255"
abbreviation (input) osRtxSemaphoreTokenLimit :: u32 where "osRtxSemaphoreTokenLimit \<equiv> 65535"
abbreviation (input) osRtxStackMagicWord :: u32 where "osRtxStackMagicWord \<equiv> 0xE25A2EA5"
abbreviation (input) osRtxStackFillPattern :: u32 where "osRtxStackFillPattern \<equiv> 0xCCCCCCCC"

text \<open>The codes of \<open>osRtxErrorNotify\<close>.\<close>

abbreviation (input) osRtxErrorStackUnderflow :: u32 where "osRtxErrorStackUnderflow \<equiv> 1"
abbreviation (input) osRtxErrorISRQueueOverflow :: u32 where "osRtxErrorISRQueueOverflow \<equiv> 2"
abbreviation (input) osRtxErrorTimerQueueOverflow :: u32 where "osRtxErrorTimerQueueOverflow \<equiv> 3"

section \<open>State\<close>

record rtx =
  \<comment> \<open>members shared by the control blocks of all objects\<close>
  o_id :: "addr \<Rightarrow> u8"
  o_state :: "addr \<Rightarrow> u8"
  o_flags :: "addr \<Rightarrow> u8"
  o_attr :: "addr \<Rightarrow> u8"
  o_name :: "addr \<Rightarrow> addr"
  \<comment> \<open>osRtxThread_t; thread_next is also the thread_list of an object\<close>
  thread_next :: "addr \<Rightarrow> addr"
  thread_prev :: "addr \<Rightarrow> addr"
  delay_next :: "addr \<Rightarrow> addr"
  delay_prev :: "addr \<Rightarrow> addr"
  thread_join :: "addr \<Rightarrow> addr"
  t_delay :: "addr \<Rightarrow> u32"
  t_priority :: "addr \<Rightarrow> int"
  t_priority_base :: "addr \<Rightarrow> int"
  t_stack_frame :: "addr \<Rightarrow> u8"
  t_flags_options :: "addr \<Rightarrow> u8"
  t_wait_flags :: "addr \<Rightarrow> u32"
  t_thread_flags :: "addr \<Rightarrow> u32"
  t_mutex_list :: "addr \<Rightarrow> addr"
  t_stack_mem :: "addr \<Rightarrow> addr"
  t_stack_size :: "addr \<Rightarrow> u32"
  t_sp :: "addr \<Rightarrow> addr"
  t_thread_addr :: "addr \<Rightarrow> addr"
  \<comment> \<open>osRtxTimer_t\<close>
  tm_type :: "addr \<Rightarrow> u8"
  tm_prev :: "addr \<Rightarrow> addr"
  tm_next :: "addr \<Rightarrow> addr"
  tm_tick :: "addr \<Rightarrow> u32"
  tm_load :: "addr \<Rightarrow> u32"
  \<comment> \<open>osRtxEventFlags_t, osRtxMutex_t, osRtxSemaphore_t\<close>
  e_event_flags :: "addr \<Rightarrow> u32"
  m_owner_thread :: "addr \<Rightarrow> addr"
  m_owner_prev :: "addr \<Rightarrow> addr"
  m_owner_next :: "addr \<Rightarrow> addr"
  m_lock :: "addr \<Rightarrow> u8"
  s_tokens :: "addr \<Rightarrow> u16"
  s_max_tokens :: "addr \<Rightarrow> u16"
  \<comment> \<open>osRtxMpInfo_t, by the address of the structure\<close>
  mp_max_blocks :: "addr \<Rightarrow> u32"
  mp_used_blocks :: "addr \<Rightarrow> u32"
  mp_block_size :: "addr \<Rightarrow> u32"
  mp_block_base :: "addr \<Rightarrow> addr"
  mp_block_lim :: "addr \<Rightarrow> addr"
  mp_block_free :: "addr \<Rightarrow> addr"
  \<comment> \<open>osRtxMessage_t, osRtxMessageQueue_t\<close>
  msg_priority :: "addr \<Rightarrow> u8"
  msg_prev :: "addr \<Rightarrow> addr"
  msg_next :: "addr \<Rightarrow> addr"
  mq_msg_size :: "addr \<Rightarrow> u32"
  mq_msg_count :: "addr \<Rightarrow> u32"
  mq_msg_first :: "addr \<Rightarrow> addr"
  mq_msg_last :: "addr \<Rightarrow> addr"
  \<comment> \<open>osRtxInfo.kernel\<close>
  k_state :: u8
  k_blocked :: u8
  k_pendSV :: u8
  k_tick :: u32
  tick_irqn :: int
  \<comment> \<open>osRtxInfo.thread; ready_obj is the address of osRtxInfo.thread.ready\<close>
  run_curr :: addr
  run_next :: addr
  ready_obj :: addr
  idle_thread :: addr
  delay_list :: addr
  wait_list :: addr
  terminate_list :: addr
  robin_thread :: addr
  robin_tick :: u32
  robin_timeout :: u32
  \<comment> \<open>osRtxInfo.timer; timer_tick_on says whether the function pointer tick is set\<close>
  timer_list :: addr
  timer_thread :: addr
  timer_mq :: addr
  timer_tick_on :: bool
  \<comment> \<open>osRtxInfo.isr_queue; isr_data is the array data\<close>
  isr_max :: u16
  isr_cnt :: u16
  isr_in :: u16
  isr_out :: u16
  isr_data :: "addr list"
  \<comment> \<open>osRtxInfo.mem and osRtxInfo.mpi\<close>
  mem_stack :: addr
  mem_mp_data :: addr
  mem_mq_data :: addr
  mem_common :: addr
  mpi_stack :: addr
  mpi_thread :: addr
  mpi_timer :: addr
  mpi_event_flags :: addr
  mpi_mutex :: addr
  mpi_semaphore :: addr
  mpi_memory_pool :: addr
  mpi_message_queue :: addr
  \<comment> \<open>raw memory by words and by bytes, the value of __get_PSP(), the pending flag of the
     emulated PendSV, and whether the tick is enabled\<close>
  mem32 :: "addr \<Rightarrow> u32"
  mem8 :: "addr \<Rightarrow> u8"
  psp :: addr
  IRQ_PendSV :: bool
  tick_enabled :: bool

text \<open>
  A state to start concrete runs from: the kernel is running, the address of the ready
  list is \<open>rdy\<close>, and no object exists.
\<close>

definition rtx0 :: "addr \<Rightarrow> rtx" where
  "rtx0 rdy = \<lparr>o_id = (\<lambda>_. 0), o_state = (\<lambda>_. 0), o_flags = (\<lambda>_. 0), o_attr = (\<lambda>_. 0), o_name = (\<lambda>_. 0),
     thread_next = (\<lambda>_. 0), thread_prev = (\<lambda>_. 0), delay_next = (\<lambda>_. 0), delay_prev = (\<lambda>_. 0),
     thread_join = (\<lambda>_. 0), t_delay = (\<lambda>_. 0), t_priority = (\<lambda>_. 0), t_priority_base = (\<lambda>_. 0),
     t_stack_frame = (\<lambda>_. 0), t_flags_options = (\<lambda>_. 0), t_wait_flags = (\<lambda>_. 0), t_thread_flags = (\<lambda>_. 0),
     t_mutex_list = (\<lambda>_. 0), t_stack_mem = (\<lambda>_. 0), t_stack_size = (\<lambda>_. 0), t_sp = (\<lambda>_. 0),
     t_thread_addr = (\<lambda>_. 0), tm_type = (\<lambda>_. 0), tm_prev = (\<lambda>_. 0), tm_next = (\<lambda>_. 0), tm_tick = (\<lambda>_. 0),
     tm_load = (\<lambda>_. 0), e_event_flags = (\<lambda>_. 0),
     m_owner_thread = (\<lambda>_. 0), m_owner_prev = (\<lambda>_. 0), m_owner_next = (\<lambda>_. 0), m_lock = (\<lambda>_. 0),
     s_tokens = (\<lambda>_. 0), s_max_tokens = (\<lambda>_. 0), mp_max_blocks = (\<lambda>_. 0), mp_used_blocks = (\<lambda>_. 0),
     mp_block_size = (\<lambda>_. 0), mp_block_base = (\<lambda>_. 0), mp_block_lim = (\<lambda>_. 0), mp_block_free = (\<lambda>_. 0),
     msg_priority = (\<lambda>_. 0), msg_prev = (\<lambda>_. 0), msg_next = (\<lambda>_. 0), mq_msg_size = (\<lambda>_. 0),
     mq_msg_count = (\<lambda>_. 0), mq_msg_first = (\<lambda>_. 0), mq_msg_last = (\<lambda>_. 0),
     k_state = osRtxKernelRunning, k_blocked = 0, k_pendSV = 0, k_tick = 0, tick_irqn = 0,
     run_curr = 0, run_next = 0, ready_obj = rdy, idle_thread = 0, delay_list = 0, wait_list = 0,
     terminate_list = 0, robin_thread = 0, robin_tick = 0, robin_timeout = 0,
     timer_list = 0, timer_thread = 0, timer_mq = 0, timer_tick_on = False,
     isr_max = 0, isr_cnt = 0, isr_in = 0, isr_out = 0, isr_data = [],
     mem_stack = 0, mem_mp_data = 0, mem_mq_data = 0, mem_common = 0,
     mpi_stack = 0, mpi_thread = 0, mpi_timer = 0, mpi_event_flags = 0, mpi_mutex = 0,
     mpi_semaphore = 0, mpi_memory_pool = 0, mpi_message_queue = 0,
     mem32 = (\<lambda>_. 0), mem8 = (\<lambda>_. 0), psp = 0, IRQ_PendSV = False, tick_enabled = True\<rparr>"

text \<open>
  \<open>osRtxErrorNotify\<close> (\<open>mbed_rtx_handlers.c\<close>) reports a fatal error and never returns.
\<close>

definition osRtxErrorNotify :: "u32 \<Rightarrow> addr \<Rightarrow> rtx option" where
  "osRtxErrorNotify code object_id = None"

end
