(* ===== verification/ThreadList.thy ===== *)
theory ThreadList
  imports Dll RtxTypes
begin

text \<open>
  The priority-ordered thread lists of the kernel (\<open>rtx_thread.c\<close>, \<open>osRtxThreadList*\<close>):
  the ready list and the list of waiting threads of every object.  The operations walk and
  relink the pointers as the code does; \<open>tl_inv\<close> says which abstract lists the pointers
  represent, and each operation is shown to be a list operation on them.
\<close>

section \<open>Operations\<close>

text \<open>The search loop of \<open>osRtxThreadListPut\<close>: past every thread of at least this priority.\<close>

partial_function (option) thread_list_search :: "rtx \<Rightarrow> int \<Rightarrow> addr \<Rightarrow> addr \<Rightarrow> (addr \<times> addr) option" where
  "thread_list_search s priority prev next =
     (if next \<noteq> NULL \<and> t_priority s next \<ge> priority
      then thread_list_search s priority next (thread_next s next)
      else Some (prev, next))"

text \<open>The four link assignments that end \<open>osRtxThreadListPut\<close> and \<open>osRtxThreadBlock\<close>.\<close>

definition thread_list_link :: "addr \<Rightarrow> addr \<Rightarrow> addr \<Rightarrow> rtx \<Rightarrow> rtx" where
  "thread_list_link thread prev next s =
     (let s = s\<lparr>thread_prev := (thread_prev s)(thread := prev)\<rparr>;
          s = s\<lparr>thread_next := (thread_next s)(thread := next)\<rparr>;
          s = s\<lparr>thread_next := (thread_next s)(prev := thread)\<rparr>
      in if next \<noteq> NULL then s\<lparr>thread_prev := (thread_prev s)(next := thread)\<rparr> else s)"

definition osRtxThreadListPut :: "addr \<Rightarrow> addr \<Rightarrow> rtx \<Rightarrow> rtx option" where
  "osRtxThreadListPut object thread s =
     (if thread = NULL then Some s
      else do {
        deref object;
        (prev, next) \<leftarrow> thread_list_search s (t_priority s thread) object (thread_next s object);
        Some (thread_list_link thread prev next s)
      })"

definition osRtxThreadListGet :: "addr \<Rightarrow> rtx \<Rightarrow> (addr \<times> rtx) option" where
  "osRtxThreadListGet object s =
     do {
       deref object;
       let thread = thread_next s object;
       if thread \<noteq> NULL then do {
         let s = s\<lparr>thread_next := (thread_next s)(object := thread_next s thread)\<rparr>;
         let s = (if thread_next s thread \<noteq> NULL
                  then s\<lparr>thread_prev := (thread_prev s)(thread_next s thread := object)\<rparr> else s);
         Some (thread, s\<lparr>thread_prev := (thread_prev s)(thread := NULL)\<rparr>)
       } else Some (thread, s)
     }"

text \<open>The search for the object at the root of the list a thread is in (also \<open>osRtxThreadListRoot\<close>).\<close>

partial_function (option) thread_list_root :: "rtx \<Rightarrow> addr \<Rightarrow> addr option" where
  "thread_list_root s thread0 =
     (if thread0 \<noteq> NULL \<and> o_id s thread0 = osRtxIdThread
      then thread_list_root s (thread_prev s thread0) else Some thread0)"

definition osRtxThreadListRemove :: "addr \<Rightarrow> rtx \<Rightarrow> rtx option" where
  "osRtxThreadListRemove thread s =
     do {
       deref thread;
       if thread_prev s thread \<noteq> NULL then do {
         let s = s\<lparr>thread_next := (thread_next s)(thread_prev s thread := thread_next s thread)\<rparr>;
         let s = (if thread_next s thread \<noteq> NULL
                  then s\<lparr>thread_prev := (thread_prev s)(thread_next s thread := thread_prev s thread)\<rparr> else s);
         Some (s\<lparr>thread_prev := (thread_prev s)(thread := NULL)\<rparr>)
       } else Some s
     }"

definition osRtxThreadListSort :: "addr \<Rightarrow> rtx \<Rightarrow> rtx option" where
  "osRtxThreadListSort thread s =
     do {
       object \<leftarrow> thread_list_root s thread;
       if object \<noteq> NULL then do {
         s \<leftarrow> osRtxThreadListRemove thread s;
         osRtxThreadListPut object thread s
       } else Some s
     }"

text \<open>\<open>thread_list\<close> is the value of the list variable; the result is its new value.\<close>

definition osRtxThreadListUnlink :: "addr \<Rightarrow> addr \<Rightarrow> rtx \<Rightarrow> (addr \<times> rtx) option" where
  "osRtxThreadListUnlink thread_list thread s =
     do {
       deref thread;
       let s = (if thread_next s thread \<noteq> NULL
                then s\<lparr>thread_prev := (thread_prev s)(thread_next s thread := thread_prev s thread)\<rparr> else s);
       if thread_prev s thread \<noteq> NULL then do {
         let s = s\<lparr>thread_next := (thread_next s)(thread_prev s thread := thread_next s thread)\<rparr>;
         Some (thread_list, s\<lparr>thread_prev := (thread_prev s)(thread := NULL)\<rparr>)
       } else Some (thread_next s thread, s)
     }"

section \<open>The abstract lists\<close>

text \<open>
  \<open>tl_inv nx pv objs T L\<close>: for the objects \<open>objs\<close> and the threads \<open>T\<close>, the thread list of
  the object \<open>ob\<close> is \<open>L ob\<close>; a thread is in one list at most, once, and a thread in no list
  has a NULL back link (which is how \<open>osRtxThreadListRemove\<close> recognises it).
\<close>

definition tl_inv :: "(addr \<Rightarrow> addr) \<Rightarrow> (addr \<Rightarrow> addr) \<Rightarrow> addr set \<Rightarrow> addr set \<Rightarrow> (addr \<Rightarrow> addr list) \<Rightarrow> bool" where
  "tl_inv nx pv objs T L \<longleftrightarrow>
     NULL \<notin> objs \<and> NULL \<notin> T \<and> objs \<inter> T = {} \<and>
     (\<forall>ob\<in>objs. chain nx pv ob (L ob) \<and> distinct (L ob) \<and> set (L ob) \<subseteq> T) \<and>
     (\<forall>ob. ob \<notin> objs \<longrightarrow> L ob = []) \<and>
     (\<forall>a b t. t \<in> set (L a) \<longrightarrow> t \<in> set (L b) \<longrightarrow> a = b) \<and>
     (\<forall>t\<in>T. (\<forall>ob. t \<notin> set (L ob)) \<longrightarrow> pv t = NULL)"

lemma tl_invD:
  assumes "tl_inv nx pv objs T L"
  shows "ob \<in> objs \<Longrightarrow> chain nx pv ob (L ob)" "distinct (L ob)" "set (L ob) \<subseteq> T"
    "t \<in> set (L a) \<Longrightarrow> t \<in> set (L b) \<Longrightarrow> a = b"
    "t \<in> set (L a) \<Longrightarrow> a \<in> objs" "t \<in> set (L a) \<Longrightarrow> t \<in> T"
    "t \<in> T \<Longrightarrow> (\<And>ob. t \<notin> set (L ob)) \<Longrightarrow> pv t = NULL"
    "ob \<in> objs \<Longrightarrow> ob \<noteq> NULL" "t \<in> T \<Longrightarrow> t \<noteq> NULL" "ob \<in> objs \<Longrightarrow> ob \<notin> T"
    "NULL \<notin> set (L ob)"
proof -
  note a = assms [unfolded tl_inv_def]
  show "ob \<in> objs \<Longrightarrow> chain nx pv ob (L ob)" using a by blast
  show "distinct (L ob)" using a by (cases "ob \<in> objs") auto
  show s: "set (L ob) \<subseteq> T" for ob using a by (cases "ob \<in> objs") auto
  show "t \<in> set (L a) \<Longrightarrow> t \<in> set (L b) \<Longrightarrow> a = b" using a by blast
  show "t \<in> set (L a) \<Longrightarrow> a \<in> objs" using a by (cases "a \<in> objs") auto
  show "t \<in> set (L a) \<Longrightarrow> t \<in> T" using s by blast
  show "t \<in> T \<Longrightarrow> (\<And>ob. t \<notin> set (L ob)) \<Longrightarrow> pv t = NULL" using a by blast
  show "ob \<in> objs \<Longrightarrow> ob \<noteq> NULL" "t \<in> T \<Longrightarrow> t \<noteq> NULL" "ob \<in> objs \<Longrightarrow> ob \<notin> T" using a by blast+
  show "NULL \<notin> set (L ob)" using s a by blast
qed

lemma tl_invI:
  assumes "NULL \<notin> objs" "NULL \<notin> T" "objs \<inter> T = {}"
    and "\<And>ob. ob \<in> objs \<Longrightarrow> chain nx pv ob (L ob)" "\<And>ob. distinct (L ob)" "\<And>ob. set (L ob) \<subseteq> T"
    and "\<And>ob. ob \<notin> objs \<Longrightarrow> L ob = []" "\<And>a b t. t \<in> set (L a) \<Longrightarrow> t \<in> set (L b) \<Longrightarrow> a = b"
    and "\<And>t. t \<in> T \<Longrightarrow> (\<And>ob. t \<notin> set (L ob)) \<Longrightarrow> pv t = NULL"
  shows "tl_inv nx pv objs T L"
  using assms(1-3) unfolding tl_inv_def
  by (intro conjI ballI allI impI) (use assms in \<open>simp_all\<close>)

text \<open>An operation on the lists leaves the link fields of all other addresses alone.\<close>

definition tl_same :: "addr set \<Rightarrow> addr set \<Rightarrow> rtx \<Rightarrow> (addr \<Rightarrow> addr) \<Rightarrow> (addr \<Rightarrow> addr) \<Rightarrow> bool" where
  "tl_same objs T s nx pv \<longleftrightarrow> (\<forall>x. x \<notin> objs \<longrightarrow> x \<notin> T \<longrightarrow> nx x = thread_next s x \<and> pv x = thread_prev s x)"

lemma tl_inv_ends:
  assumes "tl_inv nx pv objs T L" "ob \<in> objs" "L ob = xs @ ys"
  shows "last (ob # xs) \<in> objs \<union> T" "hd0 ys \<noteq> NULL \<Longrightarrow> hd0 ys \<in> T"
proof -
  have s: "set xs \<subseteq> T" "set ys \<subseteq> T" using tl_invD(3) [OF assms(1), of ob] assms(3) by auto
  show "last (ob # xs) \<in> objs \<union> T" using s(1) assms(2) by (cases xs rule: rev_cases) auto
  show "hd0 ys \<in> T" if "hd0 ys \<noteq> NULL" using that s(2) by (cases ys) auto
qed

lemma tl_inv_head: "tl_inv nx pv objs T L \<Longrightarrow> ob \<in> objs \<Longrightarrow> nx ob = hd0 (L ob)"
  by (auto dest: tl_invD(1) chain_root)

lemma tl_inv_empty: "tl_inv nx pv objs T L \<Longrightarrow> ob \<in> objs \<Longrightarrow> nx ob = NULL \<longleftrightarrow> L ob = []"
  using hd0_eq_NULL tl_inv_head tl_invD(11) by metis

text \<open>The order of a priority list: the thread with the highest priority first.\<close>

definition prio_sorted :: "(addr \<Rightarrow> int) \<Rightarrow> addr list \<Rightarrow> bool" where
  "prio_sorted pr xs = sorted_wrt (\<lambda>a b. pr a \<ge> pr b) xs"

text \<open>Insertion behind the threads of the same priority, and (for a preempted thread) before them.\<close>

definition prio_put :: "(addr \<Rightarrow> int) \<Rightarrow> addr \<Rightarrow> addr list \<Rightarrow> addr list" where
  "prio_put pr t = ins_after (\<lambda>x. pr x \<ge> pr t) t"

definition prio_push :: "(addr \<Rightarrow> int) \<Rightarrow> addr \<Rightarrow> addr list \<Rightarrow> addr list" where
  "prio_push pr t = ins_after (\<lambda>x. pr x > pr t) t"

lemma set_prio_put [simp]: "set (prio_put pr t xs) = insert t (set xs)"
  by (simp add: prio_put_def)

lemma set_prio_push [simp]: "set (prio_push pr t xs) = insert t (set xs)"
  by (simp add: prio_push_def)

lemma prio_sorted_put: "prio_sorted pr xs \<Longrightarrow> prio_sorted pr (prio_put pr t xs)"
  unfolding prio_sorted_def prio_put_def by (rule sorted_wrt_ins_after) auto

lemma prio_sorted_push: "prio_sorted pr xs \<Longrightarrow> prio_sorted pr (prio_push pr t xs)"
  unfolding prio_sorted_def prio_push_def by (rule sorted_wrt_ins_after) auto

lemma prio_sorted_remove1: "prio_sorted pr xs \<Longrightarrow> prio_sorted pr (remove1 t xs)"
  unfolding prio_sorted_def by (rule sorted_wrt_remove1)

lemma prio_sorted_Cons: "prio_sorted pr (x # xs) \<longleftrightarrow> (\<forall>y\<in>set xs. pr y \<le> pr x) \<and> prio_sorted pr xs"
  by (simp add: prio_sorted_def)

lemma prio_sorted_Nil [simp]: "prio_sorted pr []"
  by (simp add: prio_sorted_def)

lemma prio_sorted_cong: "(\<And>x. x \<in> set xs \<Longrightarrow> pr x = pr' x) \<Longrightarrow> prio_sorted pr xs = prio_sorted pr' xs"
  by (induction xs) (auto simp: prio_sorted_Cons)

section \<open>Refinement\<close>

lemma thread_list_search_chain:
  assumes "chain (thread_next s) pv r xs"
  shows "thread_list_search s pri r (thread_next s r)
    = Some (last (r # takeWhile (\<lambda>x. t_priority s x \<ge> pri) xs), hd0 (dropWhile (\<lambda>x. t_priority s x \<ge> pri) xs))"
  using assms
proof (induction xs arbitrary: r)
  case Nil
  then show ?case by (simp add: thread_list_search.simps)
next
  case (Cons x xs)
  then have "thread_next s r = x" "x \<noteq> NULL" and ih: "thread_list_search s pri x (thread_next s x)
    = Some (last (x # takeWhile (\<lambda>x. t_priority s x \<ge> pri) xs), hd0 (dropWhile (\<lambda>x. t_priority s x \<ge> pri) xs))"
    by simp_all
  then show ?case by (simp add: thread_list_search.simps [of s pri r x])
qed

lemma tl_inv_insert:
  assumes inv: "tl_inv nx pv objs T L" and ob: "ob \<in> objs" and t: "t \<in> T" "\<And>a. t \<notin> set (L a)"
    and L: "L ob = xs @ ys" and q: "q = last (ob # xs)" and n: "n = hd0 ys"
    and nx': "\<And>x. nx' x = (if x = q then t else if x = t then n else nx x)"
    and pv': "\<And>x. x \<noteq> NULL \<Longrightarrow> pv' x = (if x = n then t else if x = t then q else pv x)"
  shows "tl_inv nx' pv' objs T (L(ob := xs @ t # ys))"
proof -
  note D = tl_invD [OF inv]
  have ch: "chain nx pv ob (xs @ ys)" using D(1) [OF ob] L by simp
  have dist: "distinct (ob # t # xs @ ys)"
    using D(2) [of ob] D(3) [of ob] t(1) t(2) [of ob] D(10) [OF ob] L by auto
  have nn: "NULL \<notin> set (xs @ ys)" "t \<noteq> NULL" using D(11) [of ob] L D(9) t by auto
  have qmem: "q \<in> insert ob (set xs)" unfolding q by (cases "xs = []") auto
  have nmem: "n \<noteq> NULL \<Longrightarrow> n \<in> set ys" unfolding n by (cases ys) auto
  have c1: "chain nx' pv' ob (xs @ t # ys)"
  proof (rule chain_insert [OF ch dist nn(2) q n nx'])
    fix x assume "x \<in> set (t # xs @ ys)"
    then have "x \<noteq> NULL" using nn by auto
    then show "pv' x = (if x = n then t else if x = t then q else pv x)" by (rule pv')
  qed
  have c2: "chain nx' pv' a (L a)" if a: "a \<in> objs" "a \<noteq> ob" for a
  proof -
    have disj: "set (L a) \<inter> set (L ob) = {}" using D(4) a(2) by blast
    have "chain nx' pv' a (L a) = chain nx pv a (L a)"
    proof (rule chain_frame)
      fix x assume x: "x \<in> insert a (set (L a))"
      have "x \<noteq> t" using x t a D(10) by auto
      moreover have "x \<noteq> q"
      proof
        assume "x = q"
        then have "x = ob \<or> x \<in> set (L ob)" using qmem L by auto
        then show False using x a disj D(3) [of a] D(3) [of ob] D(10) ob by auto
      qed
      ultimately show "nx' x = nx x" using nx' by simp
    next
      fix x assume x: "x \<in> set (L a)"
      have "x \<noteq> NULL" using x D(11) by metis
      moreover have "x \<noteq> n" using x nmem disj L \<open>x \<noteq> NULL\<close> by auto
      moreover have "x \<noteq> t" using x t by auto
      ultimately show "pv' x = pv x" using pv' by simp
    qed
    with D(1) a show ?thesis by simp
  qed
  have c3: "pv' u = NULL" if u: "u \<in> T" "\<forall>a. u \<notin> set ((L(ob := xs @ t # ys)) a)" for u
  proof -
    have "u \<notin> set (xs @ t # ys)" using u(2) [rule_format, of ob] by simp
    moreover have "u \<notin> set (L a)" for a using u(2) [rule_format, of a] L calculation by (cases "a = ob") auto
    ultimately have "pv u = NULL" "u \<noteq> t" "u \<noteq> n" "u \<noteq> NULL"
      using D(7,9) u(1) nmem by (auto simp del: hd0_simps)
    then show ?thesis using pv' by simp
  qed
  have c4: "a = b" if "u \<in> set ((L(ob := xs @ t # ys)) a)" "u \<in> set ((L(ob := xs @ t # ys)) b)" for a b u
  proof -
    have "set ((L(ob := xs @ t # ys)) c) \<subseteq> insert t (set (L c))" for c using L by (cases "c = ob") auto
    then have "u = t \<or> u \<in> set (L a) \<and> u \<in> set (L b)" using that by blast
    moreover have "c = ob" if "t \<in> set ((L(ob := xs @ t # ys)) c)" for c using that t(2) by (cases "c = ob") auto
    ultimately show ?thesis using that D(4) by blast
  qed
  have c5: "distinct (xs @ t # ys)" "set (xs @ t # ys) \<subseteq> T" using dist L t(1) D(3) [of ob] by auto
  show ?thesis
  proof (rule tl_invI)
    show "NULL \<notin> objs" "NULL \<notin> T" "objs \<inter> T = {}" using inv by (auto simp: tl_inv_def)
    show "chain nx' pv' a ((L(ob := xs @ t # ys)) a)" if "a \<in> objs" for a
      using c1 c2 [of a] that by (cases "a = ob") simp_all
    show "distinct ((L(ob := xs @ t # ys)) a)" "set ((L(ob := xs @ t # ys)) a) \<subseteq> T" for a
      using c5 D(2,3) [of a] by (cases "a = ob"; simp)+
    show "(L(ob := xs @ t # ys)) a = []" if "a \<notin> objs" for a
      using that ob inv by (auto simp: tl_inv_def)
    show "a = b" if "u \<in> set ((L(ob := xs @ t # ys)) a)" "u \<in> set ((L(ob := xs @ t # ys)) b)" for a b u
      by (rule c4 [OF that])
    show "pv' u = NULL" if "u \<in> T" "\<And>a. u \<notin> set ((L(ob := xs @ t # ys)) a)" for u
      by (rule c3) (use that in auto)
  qed
qed

lemma tl_inv_remove:
  assumes inv: "tl_inv nx pv objs T L" and L: "L ob = xs @ t # ys"
    and q: "q = pv t" and n: "n = nx t"
    and nx': "\<And>x. x \<noteq> t \<Longrightarrow> nx' x = (if x = q then n else nx x)"
    and pv': "\<And>x. x \<noteq> NULL \<Longrightarrow> pv' x = (if x = t then NULL else if x = n then q else pv x)"
  shows "tl_inv nx' pv' objs T (L(ob := xs @ ys))"
proof -
  note D = tl_invD [OF inv]
  have t: "t \<in> set (L ob)" using L by simp
  then have ob: "ob \<in> objs" and tT: "t \<in> T" using D(5,6) by blast+
  have ch: "chain nx pv ob (xs @ t # ys)" using D(1) [OF ob] L by simp
  note m = chain_middle [OF ch]
  have dist: "distinct (ob # xs @ t # ys)"
    using D(2) [of ob] D(3) [of ob] D(10) [OF ob] L by auto
  have qmem: "q \<in> insert ob (set xs)" unfolding q m(1) by (cases "xs = []") auto
  have nmem: "n \<noteq> NULL \<Longrightarrow> n \<in> set ys" unfolding n m(2) by (cases ys) auto
  have nn: "NULL \<notin> set (xs @ t # ys)" using D(11) [of ob] L by simp
  have c1: "chain nx' pv' ob (xs @ ys)"
  proof (rule chain_remove [OF ch dist])
    show "q = last (ob # xs)" "n = hd0 ys" using q n m by simp_all
    fix x assume "x \<in> set (ob # xs @ ys)"
    then have "x \<noteq> t" using dist by auto
    then show "nx' x = (if x = q then n else nx x)" by (rule nx')
  next
    fix x assume "x \<in> set (xs @ ys)"
    then have "x \<noteq> t" "x \<noteq> NULL" using dist nn by auto
    then show "pv' x = (if x = n then q else pv x)" using pv' by simp
  qed
  have c2: "chain nx' pv' a (L a)" if a: "a \<in> objs" "a \<noteq> ob" for a
  proof -
    have disj: "set (L a) \<inter> set (L ob) = {}" using D(4) a(2) by blast
    have "chain nx' pv' a (L a) = chain nx pv a (L a)"
    proof (rule chain_frame)
      fix x assume x: "x \<in> insert a (set (L a))"
      have "x \<noteq> t" using x t tT a disj D(10) by auto
      moreover have "x \<noteq> q"
      proof
        assume "x = q"
        then have "x = ob \<or> x \<in> set (L ob)" using qmem L by auto
        then show False using x a disj D(3) [of a] D(3) [of ob] D(10) ob by auto
      qed
      ultimately show "nx' x = nx x" using nx' by simp
    next
      fix x assume x: "x \<in> set (L a)"
      have "x \<noteq> NULL" using x D(11) by metis
      moreover have "x \<noteq> n" using x nmem disj L \<open>x \<noteq> NULL\<close> by auto
      moreover have "x \<noteq> t" using x t disj by auto
      ultimately show "pv' x = pv x" using pv' by simp
    qed
    with D(1) a show ?thesis by simp
  qed
  have c3: "pv' u = NULL" if u: "u \<in> T" "\<forall>a. u \<notin> set ((L(ob := xs @ ys)) a)" for u
  proof (cases "u = t")
    case True
    then show ?thesis using pv' D(9) tT by simp
  next
    case False
    have "u \<notin> set (xs @ ys)" using u(2) [rule_format, of ob] by simp
    moreover have "u \<notin> set (L a)" for a
      using u(2) [rule_format, of a] L calculation False by (cases "a = ob") auto
    ultimately have "pv u = NULL" "u \<noteq> n" "u \<noteq> NULL"
      using D(7,9) u(1) nmem by (auto simp del: hd0_simps)
    then show ?thesis using pv' False by simp
  qed
  have c4: "a = b" if "u \<in> set ((L(ob := xs @ ys)) a)" "u \<in> set ((L(ob := xs @ ys)) b)" for a b u
  proof -
    have "set ((L(ob := xs @ ys)) c) \<subseteq> set (L c)" for c using L by (cases "c = ob") auto
    then show ?thesis using that D(4) by blast
  qed
  have c5: "distinct (xs @ ys)" "set (xs @ ys) \<subseteq> T" using dist L D(3) [of ob] by auto
  show ?thesis
  proof (rule tl_invI)
    show "NULL \<notin> objs" "NULL \<notin> T" "objs \<inter> T = {}" using inv by (auto simp: tl_inv_def)
    show "chain nx' pv' a ((L(ob := xs @ ys)) a)" if "a \<in> objs" for a
      using c1 c2 [of a] that by (cases "a = ob") simp_all
    show "distinct ((L(ob := xs @ ys)) a)" "set ((L(ob := xs @ ys)) a) \<subseteq> T" for a
      using c5 D(2,3) [of a] by (cases "a = ob"; simp)+
    show "(L(ob := xs @ ys)) a = []" if "a \<notin> objs" for a
      using that ob inv by (auto simp: tl_inv_def)
    show "a = b" if "u \<in> set ((L(ob := xs @ ys)) a)" "u \<in> set ((L(ob := xs @ ys)) b)" for a b u
      by (rule c4 [OF that])
    show "pv' u = NULL" if "u \<in> T" "\<And>a. u \<notin> set ((L(ob := xs @ ys)) a)" for u
      by (rule c3) (use that in auto)
  qed
qed

text \<open>
  The operations on the lists.  Each lemma gives the state the operation returns (only link
  fields change) and the abstract lists it represents.
\<close>

lemma thread_list_link_eq:
  "thread_list_link thread prev next s =
     s\<lparr>thread_next := (thread_next s)(thread := next, prev := thread),
       thread_prev := (if next \<noteq> NULL then (thread_prev s)(thread := prev, next := thread)
                       else (thread_prev s)(thread := prev))\<rparr>"
  by (simp add: thread_list_link_def)

lemma thread_list_link_tl:
  assumes "tl_inv (thread_next s) (thread_prev s) objs T L" "ob \<in> objs" "t \<in> T" "\<And>a. t \<notin> set (L a)"
    and "L ob = xs @ ys"
  shows "\<exists>nx pv. thread_list_link t (last (ob # xs)) (hd0 ys) s = s\<lparr>thread_next := nx, thread_prev := pv\<rparr>
    \<and> tl_same objs T s nx pv \<and> tl_inv nx pv objs T (L(ob := xs @ t # ys))"
proof -
  let ?q = "last (ob # xs)" and ?n = "hd0 ys"
  let ?nx = "(thread_next s)(t := ?n, ?q := t)"
  let ?pv = "if ?n \<noteq> NULL then (thread_prev s)(t := ?q, ?n := t) else (thread_prev s)(t := ?q)"
  note e = tl_inv_ends [OF assms(1,2,5)]
  have "tl_same objs T s ?nx ?pv"
    unfolding tl_same_def
  proof (intro allI impI)
    fix x assume "x \<notin> objs" "x \<notin> T"
    then have "x \<noteq> ?q" "x \<noteq> t" "?n \<noteq> NULL \<Longrightarrow> x \<noteq> ?n" using e assms(3) by blast+
    then show "?nx x = thread_next s x \<and> ?pv x = thread_prev s x"
      by (simp del: last.simps)
  qed
  moreover have "tl_inv ?nx ?pv objs T (L(ob := xs @ t # ys))"
    by (rule tl_inv_insert [OF assms refl refl]) (auto simp del: last.simps)
  ultimately show ?thesis unfolding thread_list_link_eq
    by (intro exI [of _ ?nx] exI [of _ ?pv] conjI refl) assumption+
qed

lemma osRtxThreadListPut_tl:
  assumes inv: "tl_inv (thread_next s) (thread_prev s) objs T L" and ob: "ob \<in> objs"
    and t: "t \<in> T" "\<And>a. t \<notin> set (L a)"
  shows "\<exists>nx pv. osRtxThreadListPut ob t s = Some (s\<lparr>thread_next := nx, thread_prev := pv\<rparr>)
    \<and> tl_same objs T s nx pv \<and> tl_inv nx pv objs T (L(ob := prio_put (t_priority s) t (L ob)))"
proof -
  let ?P = "\<lambda>x. t_priority s x \<ge> t_priority s t"
  have nn: "t \<noteq> NULL" "ob \<noteq> NULL" using tl_invD(8,9) [OF inv] ob t by auto
  have "osRtxThreadListPut ob t s
    = Some (thread_list_link t (last (ob # takeWhile ?P (L ob))) (hd0 (dropWhile ?P (L ob))) s)"
    using thread_list_search_chain [OF tl_invD(1) [OF inv ob]] nn
    by (simp add: osRtxThreadListPut_def)
  moreover have "L ob = takeWhile ?P (L ob) @ dropWhile ?P (L ob)" by simp
  ultimately show ?thesis
    using thread_list_link_tl [OF inv ob t] unfolding prio_put_def ins_after_def by simp
qed

lemma osRtxThreadListGet_Nil:
  assumes "tl_inv (thread_next s) (thread_prev s) objs T L" "ob \<in> objs" "L ob = []"
  shows "osRtxThreadListGet ob s = Some (NULL, s)"
  using tl_inv_head [OF assms(1,2)] tl_invD(8) [OF assms(1,2)] assms(3)
  by (simp add: osRtxThreadListGet_def)

lemma osRtxThreadListGet_Cons:
  assumes inv: "tl_inv (thread_next s) (thread_prev s) objs T L" and ob: "ob \<in> objs" and L: "L ob = t # ts"
  shows "\<exists>nx pv. osRtxThreadListGet ob s = Some (t, s\<lparr>thread_next := nx, thread_prev := pv\<rparr>)
    \<and> tl_same objs T s nx pv \<and> tl_inv nx pv objs T (L(ob := ts))"
proof -
  note D = tl_invD [OF inv]
  have h: "thread_next s ob = t" "thread_prev s t = ob" and tT: "t \<in> T"
    using D(1) [OF ob] D(6) [of t ob] L by auto
  have ne: "t \<noteq> NULL" "ob \<noteq> NULL" "ob \<noteq> t" using D(8,9,10) ob tT by blast+
  let ?n = "thread_next s t"
  have n: "?n \<noteq> t" using D(1) [OF ob] D(2) [of ob] L by (cases ts) auto
  have "osRtxThreadListGet ob s = Some (t, s\<lparr>thread_next := (thread_next s)(ob := ?n),
      thread_prev := (if ?n \<noteq> NULL then (thread_prev s)(?n := ob, t := NULL) else (thread_prev s)(t := NULL))\<rparr>)"
    using h ne by (simp add: osRtxThreadListGet_def)
  moreover have "tl_inv ((thread_next s)(ob := ?n))
      (if ?n \<noteq> NULL then (thread_prev s)(?n := ob, t := NULL) else (thread_prev s)(t := NULL)) objs T (L(ob := [] @ ts))"
    by (rule tl_inv_remove [OF inv, where t = t]) (use L h n ne in auto)
  moreover have "?n \<noteq> NULL \<Longrightarrow> ?n \<in> T"
    using tl_inv_ends(2) [OF inv ob, of "[t]" ts] L D(1) [OF ob] by (auto dest: chain_root)
  then have "tl_same objs T s ((thread_next s)(ob := ?n))
      (if ?n \<noteq> NULL then (thread_prev s)(?n := ob, t := NULL) else (thread_prev s)(t := NULL))"
    using ob tT by (auto simp: tl_same_def)
  ultimately show ?thesis by (intro exI conjI) auto
qed

lemma osRtxThreadListRemove_tl:
  assumes inv: "tl_inv (thread_next s) (thread_prev s) objs T L" and t: "t \<in> set (L ob)"
  shows "\<exists>nx pv. osRtxThreadListRemove t s = Some (s\<lparr>thread_next := nx, thread_prev := pv\<rparr>)
    \<and> tl_same objs T s nx pv \<and> tl_inv nx pv objs T (L(ob := remove1 t (L ob)))"
proof -
  note D = tl_invD [OF inv]
  obtain xs ys where L: "L ob = xs @ t # ys" using t by (meson split_list)
  have ob: "ob \<in> objs" and tT: "t \<in> T" using t D(5,6) by blast+
  have ch: "chain (thread_next s) (thread_prev s) ob (xs @ t # ys)" using D(1) [OF ob] L by simp
  note m = chain_middle [OF ch]
  have dist: "distinct (ob # xs @ t # ys)" using D(2) [of ob] D(3) [of ob] D(10) [OF ob] L by auto
  let ?q = "thread_prev s t" and ?n = "thread_next s t"
  have qmem: "?q \<in> insert ob (set xs)" unfolding m(1) by (cases "xs = []") auto
  then have q: "?q \<noteq> NULL" "?q \<noteq> t" using D(8) [OF ob] D(11) [of ob] L dist by auto
  have n: "?n \<noteq> t" using m(2) dist m(4) by (cases ys) auto
  have c1: "osRtxThreadListRemove t s = Some (s\<lparr>thread_next := (thread_next s)(?q := ?n),
      thread_prev := (if ?n \<noteq> NULL then (thread_prev s)(?n := ?q, t := NULL) else (thread_prev s)(t := NULL))\<rparr>)"
    using q m(4) n by (simp add: osRtxThreadListRemove_def)
  have c2: "tl_inv ((thread_next s)(?q := ?n))
      (if ?n \<noteq> NULL then (thread_prev s)(?n := ?q, t := NULL) else (thread_prev s)(t := NULL)) objs T (L(ob := xs @ ys))"
    by (rule tl_inv_remove [OF inv L refl refl]) (use q n in auto)
  have rmv: "remove1 t (L ob) = xs @ ys" using L dist by (simp add: remove1_middle)
  moreover have "?q \<in> objs \<union> T"
    using tl_inv_ends(1) [OF inv ob L] m(1) by simp
  moreover have "?n \<noteq> NULL \<Longrightarrow> ?n \<in> T"
    using tl_inv_ends(2) [OF inv ob, of "xs @ [t]" ys] L m(2) by simp
  ultimately have "tl_same objs T s ((thread_next s)(?q := ?n))
      (if ?n \<noteq> NULL then (thread_prev s)(?n := ?q, t := NULL) else (thread_prev s)(t := NULL))"
    using tT by (auto simp: tl_same_def)
  then show ?thesis using c1 c2 rmv by (intro exI conjI) auto
qed

lemma osRtxThreadListRemove_none:
  assumes "tl_inv (thread_next s) (thread_prev s) objs T L" "t \<in> T" "\<And>a. t \<notin> set (L a)"
  shows "osRtxThreadListRemove t s = Some s"
  using tl_invD(7,9) [OF assms(1)] assms(2,3) by (simp add: osRtxThreadListRemove_def)

text \<open>The root of the list a thread is in is found through the back links.\<close>

lemma thread_list_root_chain:
  assumes "chain (thread_next s) (thread_prev s) ob (xs @ t # ys)"
    and "\<And>x. x \<in> set (xs @ t # ys) \<Longrightarrow> o_id s x = osRtxIdThread" "o_id s ob \<noteq> osRtxIdThread"
  shows "thread_list_root s t = Some ob"
  using assms(1,2)
proof (induction xs arbitrary: t ys rule: rev_induct)
  case Nil
  then show ?case using assms(3) by (simp add: thread_list_root.simps [of s t] thread_list_root.simps [of s ob])
next
  case (snoc x xs)
  have "thread_list_root s x = Some ob" using snoc by (intro snoc.IH [of x "t # ys"]) auto
  moreover have "thread_prev s t = x" "t \<noteq> NULL" "o_id s t = osRtxIdThread"
    using chain_middle [OF snoc.prems(1)] snoc.prems(2) by auto
  ultimately show ?case by (simp add: thread_list_root.simps [of s t])
qed

lemma osRtxThreadListSort_tl:
  assumes inv: "tl_inv (thread_next s) (thread_prev s) objs T L" and t: "t \<in> set (L ob)"
    and ids: "\<And>x. x \<in> T \<Longrightarrow> o_id s x = osRtxIdThread" "\<And>x. x \<in> objs \<Longrightarrow> o_id s x \<noteq> osRtxIdThread"
  shows "\<exists>nx pv. osRtxThreadListSort t s = Some (s\<lparr>thread_next := nx, thread_prev := pv\<rparr>)
    \<and> tl_same objs T s nx pv \<and> tl_inv nx pv objs T (L(ob := prio_put (t_priority s) t (remove1 t (L ob))))"
proof -
  note D = tl_invD [OF inv]
  obtain xs ys where L: "L ob = xs @ t # ys" using t by (meson split_list)
  have ob: "ob \<in> objs" and tT: "t \<in> T" using t D(5,6) by blast+
  have ch: "chain (thread_next s) (thread_prev s) ob (xs @ t # ys)" using D(1) [OF ob] L by simp
  have root: "thread_list_root s t = Some ob"
    by (rule thread_list_root_chain [OF ch]) (use ids D(3) [of ob] L ob in auto)
  obtain nx pv where rm: "osRtxThreadListRemove t s = Some (s\<lparr>thread_next := nx, thread_prev := pv\<rparr>)"
    and inv1: "tl_inv nx pv objs T (L(ob := remove1 t (L ob)))" and same: "tl_same objs T s nx pv"
    using osRtxThreadListRemove_tl [OF inv t] by blast
  have notin: "t \<notin> set ((L(ob := remove1 t (L ob))) a)" for a
    using D(2) [of ob] D(4) t by (cases "a = ob") auto
  obtain nx' pv' where
    "osRtxThreadListPut ob t (s\<lparr>thread_next := nx, thread_prev := pv\<rparr>) = Some (s\<lparr>thread_next := nx', thread_prev := pv'\<rparr>)"
    "tl_same objs T (s\<lparr>thread_next := nx, thread_prev := pv\<rparr>) nx' pv'"
    "tl_inv nx' pv' objs T ((L(ob := remove1 t (L ob)))(ob := prio_put (t_priority s) t (remove1 t (L ob))))"
    using osRtxThreadListPut_tl [of "s\<lparr>thread_next := nx, thread_prev := pv\<rparr>" objs T "L(ob := remove1 t (L ob))" ob t]
      inv1 ob tT notin by auto
  moreover from this have "osRtxThreadListSort t s = Some (s\<lparr>thread_next := nx', thread_prev := pv'\<rparr>)"
    using root rm D(8) [OF ob] by (simp add: osRtxThreadListSort_def)
  ultimately show ?thesis using same by (intro exI conjI) (auto simp: tl_same_def)
qed

lemma osRtxThreadListSort_none:
  assumes "tl_inv (thread_next s) (thread_prev s) objs T L" "t \<in> T" "\<And>a. t \<notin> set (L a)"
    and "o_id s t = osRtxIdThread"
  shows "osRtxThreadListSort t s = Some s"
  using tl_invD(7,9) [OF assms(1)] assms(2-)
  by (simp add: osRtxThreadListSort_def thread_list_root.simps [of s t] thread_list_root.simps [of s NULL])

end
