(* ===== verification/DelayList.thy ===== *)
theory DelayList
  imports Delta ThreadList
begin

text \<open>
  The delay list and the wait list of the kernel (\<open>rtx_thread.c\<close>, \<open>osRtxThreadDelayInsert\<close>
  and \<open>osRtxThreadDelayRemove\<close>): a delta queue of the threads that wait with a timeout, and
  a plain list of the threads that wait forever, both linked through \<open>delay_next\<close> and
  \<open>delay_prev\<close>.
\<close>

section \<open>Operations\<close>

text \<open>The two search loops of \<open>osRtxThreadDelayInsert\<close>.\<close>

partial_function (option) wait_list_end :: "rtx \<Rightarrow> addr \<Rightarrow> addr \<Rightarrow> addr option" where
  "wait_list_end s prev next =
     (if next \<noteq> NULL then wait_list_end s next (delay_next s next) else Some prev)"

partial_function (option) delay_list_search :: "rtx \<Rightarrow> u32 \<Rightarrow> addr \<Rightarrow> addr \<Rightarrow> (addr \<times> addr \<times> u32) option" where
  "delay_list_search s delay prev next =
     (if next \<noteq> NULL \<and> t_delay s next \<le> delay
      then delay_list_search s (delay - t_delay s next) next (delay_next s next)
      else Some (prev, next, delay))"

definition osRtxThreadDelayInsert :: "addr \<Rightarrow> u32 \<Rightarrow> rtx \<Rightarrow> rtx option" where
  "osRtxThreadDelayInsert thread delay s =
     (if delay = osWaitForever then do {
        prev \<leftarrow> wait_list_end s NULL (wait_list s);
        deref thread;
        let s = s\<lparr>t_delay := (t_delay s)(thread := delay)\<rparr>;
        let s = s\<lparr>delay_prev := (delay_prev s)(thread := prev)\<rparr>;
        let s = s\<lparr>delay_next := (delay_next s)(thread := NULL)\<rparr>;
        Some (if prev \<noteq> NULL then s\<lparr>delay_next := (delay_next s)(prev := thread)\<rparr>
              else s\<lparr>wait_list := thread\<rparr>)
      } else do {
        (prev, next, delay) \<leftarrow> delay_list_search s delay NULL (delay_list s);
        deref thread;
        let s = s\<lparr>t_delay := (t_delay s)(thread := delay)\<rparr>;
        let s = s\<lparr>delay_prev := (delay_prev s)(thread := prev)\<rparr>;
        let s = s\<lparr>delay_next := (delay_next s)(thread := next)\<rparr>;
        let s = (if prev \<noteq> NULL then s\<lparr>delay_next := (delay_next s)(prev := thread)\<rparr>
                 else s\<lparr>delay_list := thread\<rparr>);
        Some (if next \<noteq> NULL
              then s\<lparr>t_delay := (t_delay s)(next := t_delay s next - delay),
                     delay_prev := (delay_prev s)(next := thread)\<rparr>
              else s)
      })"

definition osRtxThreadDelayRemove :: "addr \<Rightarrow> rtx \<Rightarrow> rtx option" where
  "osRtxThreadDelayRemove thread s =
     do {
       deref thread;
       Some
        (if t_delay s thread = osWaitForever then
           (if delay_prev s thread \<noteq> NULL \<or> wait_list s = thread then
              (let s = (if delay_next s thread \<noteq> NULL
                        then s\<lparr>delay_prev := (delay_prev s)(delay_next s thread := delay_prev s thread)\<rparr> else s)
               in if delay_prev s thread \<noteq> NULL
                  then (let s = s\<lparr>delay_next := (delay_next s)(delay_prev s thread := delay_next s thread)\<rparr>
                        in s\<lparr>delay_prev := (delay_prev s)(thread := NULL)\<rparr>)
                  else s\<lparr>wait_list := delay_next s thread\<rparr>)
            else s)
         else
           (if delay_prev s thread \<noteq> NULL \<or> delay_list s = thread then
              (let s = (if delay_next s thread \<noteq> NULL
                        then s\<lparr>t_delay := (t_delay s)(delay_next s thread :=
                                   t_delay s (delay_next s thread) + t_delay s thread),
                               delay_prev := (delay_prev s)(delay_next s thread := delay_prev s thread)\<rparr>
                        else s)
               in if delay_prev s thread \<noteq> NULL
                  then (let s = s\<lparr>delay_next := (delay_next s)(delay_prev s thread := delay_next s thread)\<rparr>
                        in s\<lparr>delay_prev := (delay_prev s)(thread := NULL)\<rparr>)
                  else s\<lparr>delay_list := delay_next s thread\<rparr>)
            else s))
     }"

section \<open>The abstract lists\<close>

text \<open>
  \<open>D\<close> is the delay list and \<open>W\<close> the wait list.  Every delayed thread has at least one tick
  left, and no absolute delay reaches \<open>osWaitForever\<close>.
\<close>

definition dl_inv :: "rtx \<Rightarrow> addr list \<Rightarrow> addr list \<Rightarrow> bool" where
  "dl_inv s D W \<longleftrightarrow>
     dseg (delay_next s) (delay_prev s) NULL (delay_list s) D \<and>
     dseg (delay_next s) (delay_prev s) NULL (wait_list s) W \<and>
     distinct (D @ W) \<and> (\<forall>t\<in>set W. t_delay s t = osWaitForever) \<and>
     delta_sum (t_delay s) D < unat osWaitForever \<and> (D \<noteq> [] \<longrightarrow> t_delay s (hd D) \<noteq> 0)"

definition delays :: "rtx \<Rightarrow> addr list \<Rightarrow> (addr \<times> nat) list" where
  "delays s D = delta_abs (t_delay s) 0 D"

lemma dl_inv_cong:
  assumes "delay_next s' = delay_next s" "delay_prev s' = delay_prev s" "t_delay s' = t_delay s"
    and "delay_list s' = delay_list s" "wait_list s' = wait_list s"
  shows "dl_inv s' D W = dl_inv s D W" "delays s' D = delays s D"
  using assms by (simp_all add: dl_inv_def delays_def)

section \<open>Refinement\<close>

lemma wait_list_end_dseg:
  "dseg (delay_next s) (delay_prev s) p c W \<Longrightarrow> wait_list_end s p c = Some (last (p # W))"
proof (induction W arbitrary: p c)
  case Nil
  then show ?case by (simp add: wait_list_end.simps [of s p NULL])
next
  case (Cons t W)
  then show ?case by (simp add: wait_list_end.simps [of s p t])
qed

lemma delay_list_search_dseg:
  "dseg (delay_next s) (delay_prev s) p c D \<Longrightarrow> delta_split (t_delay s) v D = (xs, ys, w)
   \<Longrightarrow> delay_list_search s v p c = Some (last (p # xs), hd0 ys, w)"
proof (induction D arbitrary: p c v xs)
  case Nil
  then show ?case by (auto simp: delay_list_search.simps [of s w p NULL])
next
  case (Cons t D)
  then have c: "c = t" "t \<noteq> NULL" "dseg (delay_next s) (delay_prev s) t (delay_next s t) D" by simp_all
  show ?case
  proof (cases "t_delay s t \<le> v")
    case True
    then obtain xs' where x: "xs = t # xs'" "delta_split (t_delay s) (v - t_delay s t) D = (xs', ys, w)"
      using Cons.prems(2) by (auto split: prod.splits)
    show ?thesis using Cons.IH [OF c(3) x(2)] True c(1,2) x(1)
      by (simp add: delay_list_search.simps [of s v p t])
  next
    case False
    then show ?thesis using Cons.prems(2) c(1,2) by (auto simp: delay_list_search.simps [of s w p t])
  qed
qed

text \<open>Only the delay fields and the two list variables change.\<close>

definition dl_same :: "rtx \<Rightarrow> rtx \<Rightarrow> bool" where
  "dl_same s s' \<longleftrightarrow> (\<exists>dn dp d dl wl. s' = s\<lparr>delay_next := dn, delay_prev := dp, t_delay := d,
     delay_list := dl, wait_list := wl\<rparr>)"

lemma dl_sameI: "dl_same s (s\<lparr>delay_next := dn, delay_prev := dp, t_delay := d, delay_list := dl, wait_list := wl\<rparr>)"
  unfolding dl_same_def by blast

lemma dl_sameI2:
  "s' = s\<lparr>delay_next := delay_next s', delay_prev := delay_prev s', t_delay := t_delay s',
     delay_list := delay_list s', wait_list := wait_list s'\<rparr> \<Longrightarrow> dl_same s s'"
  unfolding dl_same_def by blast

lemma osRtxThreadDelayInsert_forever:
  assumes inv: "dl_inv s D W" and t: "t \<noteq> NULL" "t \<notin> set D" "t \<notin> set W"
  shows "\<exists>s'. osRtxThreadDelayInsert t osWaitForever s = Some s' \<and> dl_same s s' \<and> dl_inv s' D (W @ [t])
    \<and> delays s' D = delays s D"
proof -
  note I = inv [unfolded dl_inv_def]
  let ?q = "last (NULL # W)"
  define s' where "s' = s\<lparr>t_delay := (t_delay s)(t := osWaitForever), delay_prev := (delay_prev s)(t := ?q),
      delay_next := (if ?q \<noteq> NULL then (delay_next s)(t := NULL, ?q := t) else (delay_next s)(t := NULL)),
      wait_list := (if ?q \<noteq> NULL then wait_list s else t)\<rparr>"
  have we: "wait_list_end s NULL (wait_list s) = Some ?q"
    using I by (intro wait_list_end_dseg) blast
  have e: "osRtxThreadDelayInsert t osWaitForever s = Some s'"
    using t(1) by (simp add: osRtxThreadDelayInsert_def we s'_def Let_def del: last.simps)
  have nn: "NULL \<notin> set W" "NULL \<notin> set D" using I dseg_nonnull by blast+
  then have qW: "?q = NULL \<longleftrightarrow> W = []" by (intro last_eq_NULL)
  have qD: "?q \<notin> set D" using I nn by (cases W rule: rev_cases) auto
  have fr: "\<And>x. x \<in> set D \<Longrightarrow> delay_next s' x = delay_next s x \<and> delay_prev s' x = delay_prev s x \<and> t_delay s' x = t_delay s x"
    using t(2) qD by (auto simp: s'_def simp del: last.simps)
  have "dseg (delay_next s') (delay_prev s') NULL (wait_list s') (W @ t # [])"
    by (rule dseg_insert [where nx = "delay_next s" and pv = "delay_prev s" and c = "wait_list s"])
      (use I t qW in \<open>auto simp: s'_def simp del: last.simps\<close>)
  moreover have "dseg (delay_next s') (delay_prev s') NULL (delay_list s') D"
    using dseg_frame [of D "delay_next s'" "delay_next s" "delay_prev s'" "delay_prev s"] fr I
    by (simp add: s'_def)
  moreover have "delta_sum (t_delay s') D = delta_sum (t_delay s) D"
    by (rule delta_sum_cong) (use fr in auto)
  moreover have "delays s' D = delays s D"
    unfolding delays_def by (rule delta_abs_cong) (use fr in auto)
  moreover have "D \<noteq> [] \<Longrightarrow> t_delay s' (hd D) = t_delay s (hd D)" using fr by simp
  moreover have "\<forall>x\<in>set (W @ [t]). t_delay s' x = osWaitForever" using I by (auto simp: s'_def)
  moreover have "distinct (D @ W @ [t])" using I t by auto
  ultimately have "dl_inv s' D (W @ [t])" "delays s' D = delays s D" using I unfolding dl_inv_def by simp_all
  moreover have "dl_same s s'" by (rule dl_sameI2) (simp add: s'_def)
  ultimately show ?thesis using e by blast
qed

lemma osRtxThreadDelayInsert_delay:
  assumes inv: "dl_inv s D W" and t: "t \<noteq> NULL" "t \<notin> set D" "t \<notin> set W"
    and v: "v \<noteq> osWaitForever" "v \<noteq> 0"
  shows "\<exists>s' D'. osRtxThreadDelayInsert t v s = Some s' \<and> dl_same s s' \<and> dl_inv s' D' W \<and> set D' = insert t (set D)
    \<and> delays s' D' = ins_after (\<lambda>(x, n). n \<le> unat v) (t, unat v) (delays s D)"
proof -
  note I = inv [unfolded dl_inv_def]
  obtain xs ys w where sp: "delta_split (t_delay s) v D = (xs, ys, w)" by (cases "delta_split (t_delay s) v D") auto
  note S = delta_split [OF sp]
  let ?q = "last (NULL # xs)" and ?n = "hd0 ys"
  define s' where "s' = s\<lparr>
      t_delay := (if ?n \<noteq> NULL then (t_delay s)(t := w, ?n := t_delay s ?n - w) else (t_delay s)(t := w)),
      delay_prev := (if ?n \<noteq> NULL then (delay_prev s)(t := ?q, ?n := t) else (delay_prev s)(t := ?q)),
      delay_next := (if ?q \<noteq> NULL then (delay_next s)(t := ?n, ?q := t) else (delay_next s)(t := ?n)),
      delay_list := (if ?q \<noteq> NULL then delay_list s else t)\<rparr>"
  have se: "delay_list_search s v NULL (delay_list s) = Some (?q, ?n, w)"
    using I sp by (intro delay_list_search_dseg) blast+
  have nn: "NULL \<notin> set D" "NULL \<notin> set W" using I dseg_nonnull by blast+
  have nt: "?n \<noteq> t" using t S(1) by (cases ys) auto
  have e: "osRtxThreadDelayInsert t v s = Some s'"
    using t(1) v(1) nt by (simp add: osRtxThreadDelayInsert_def se s'_def Let_def del: last.simps)
  have qxs: "?q = NULL \<longleftrightarrow> xs = []" using nn S(1) by (intro last_eq_NULL) auto
  have qm: "?q \<noteq> NULL \<Longrightarrow> ?q \<in> set D" using S(1) by (cases xs rule: rev_cases) auto
  have nm: "?n \<noteq> NULL \<Longrightarrow> ?n \<in> set D" using S(1) by (cases ys) auto
  have disj: "\<And>x. x \<in> set W \<Longrightarrow> x \<notin> set D" using I by auto
  have fr: "\<And>x. x \<in> set W \<Longrightarrow> delay_next s' x = delay_next s x \<and> delay_prev s' x = delay_prev s x \<and> t_delay s' x = t_delay s x"
    using t(3) qm nm disj by (auto simp: s'_def simp del: last.simps hd0_simps)
  have d: "distinct (t # xs @ ys)" using I S(1) t by auto
  have d1: "t_delay s' t = w" using nt by (simp add: s'_def)
  have d2: "\<And>x. x \<in> set xs \<Longrightarrow> t_delay s' x = t_delay s x"
    using d by (cases ys) (auto simp: s'_def)
  have d3: "t_delay s' y = t_delay s y - w \<and> (\<forall>x\<in>set zs. t_delay s' x = t_delay s x)" if "ys = y # zs" for y zs
    using d that nn S(1) by (auto simp: s'_def)
  have "dseg (delay_next s') (delay_prev s') NULL (delay_list s') (xs @ t # ys)"
    by (rule dseg_insert [where nx = "delay_next s" and pv = "delay_prev s" and c = "delay_list s"
          and n = ?n and q = ?q])
      (use I S(1) t d qxs nt in \<open>auto simp: s'_def simp del: last.simps\<close>)
  moreover have "dseg (delay_next s') (delay_prev s') NULL (wait_list s') W"
    using dseg_frame [of W "delay_next s'" "delay_next s" "delay_prev s'" "delay_prev s"] fr I
    by (simp add: s'_def)
  moreover have "delta_sum (t_delay s') (xs @ t # ys) < unat osWaitForever"
  proof -
    have "unat v \<noteq> unat osWaitForever" using v(1) by (simp only: word_unat_eq_iff [symmetric] not_False_eq_True)
    moreover have "unat v < 2 ^ LENGTH(32)" by (rule unsigned_less)
    then have "unat v \<le> unat osWaitForever" by simp
    ultimately show ?thesis using delta_insert_sum [OF sp d1 d2 d3] I by simp
  qed
  moreover have "t_delay s' (hd (xs @ t # ys)) \<noteq> 0"
  proof (cases xs)
    case Nil
    then show ?thesis using S(2) d1 v(2) by (auto simp: unat_eq_0)
  next
    case (Cons x xs')
    then show ?thesis using I S(1) d2 by auto
  qed
  moreover have "\<forall>x\<in>set W. t_delay s' x = osWaitForever" using I fr by auto
  moreover have "distinct ((xs @ t # ys) @ W)" using d I t S(1) by auto
  ultimately have "dl_inv s' (xs @ t # ys) W" unfolding dl_inv_def by simp
  moreover have "delays s' (xs @ t # ys) = ins_after (\<lambda>(x, n). n \<le> unat v) (t, unat v) (delays s D)"
    using delta_insert_abs [OF sp, of t "t_delay s'" 0] d S(1) d1 d2 d3 by (simp add: delays_def)
  moreover have "dl_same s s'" by (rule dl_sameI2) (simp add: s'_def)
  moreover have "set (xs @ t # ys) = insert t (set D)" using S(1) by auto
  ultimately show ?thesis using e by blast
qed

lemma osRtxThreadDelayRemove_wait:
  assumes inv: "dl_inv s D W" and t: "t \<in> set W"
  shows "\<exists>s'. osRtxThreadDelayRemove t s = Some s' \<and> dl_same s s' \<and> dl_inv s' D (remove1 t W)
    \<and> delays s' D = delays s D"
proof -
  note I = inv [unfolded dl_inv_def]
  obtain xs ys where W: "W = xs @ t # ys" using t by (meson split_list)
  have ds: "dseg (delay_next s) (delay_prev s) NULL (wait_list s) (xs @ t # ys)" using I W by simp
  note m = dseg_middle [OF ds]
  let ?q = "last (NULL # xs)" and ?n = "hd0 ys"
  define s' where "s' = s\<lparr>
      delay_prev := (let p = (if ?n \<noteq> NULL then (delay_prev s)(?n := ?q) else delay_prev s)
                     in if ?q \<noteq> NULL then p(t := NULL) else p),
      delay_next := (if ?q \<noteq> NULL then (delay_next s)(?q := ?n) else delay_next s),
      wait_list := (if ?q \<noteq> NULL then wait_list s else ?n)\<rparr>"
  have nn: "NULL \<notin> set W" "NULL \<notin> set D" using I dseg_nonnull by blast+
  have qxs: "?q = NULL \<longleftrightarrow> xs = []" using nn W by (intro last_eq_NULL) auto
  have d: "distinct (xs @ t # ys)" using I W by auto
  have nt: "?n \<noteq> t" using d m(3) by (cases ys) auto
  have qt: "?q \<noteq> t" using d m(3) by (cases xs rule: rev_cases) auto
  have dt: "t_delay s t = osWaitForever" using I t by blast
  have e: "osRtxThreadDelayRemove t s = Some s'"
    using m dt nt qt qxs by (cases "xs = []") (simp_all add: osRtxThreadDelayRemove_def s'_def Let_def)
  have qm: "?q \<noteq> NULL \<Longrightarrow> ?q \<in> set W" using W by (cases xs rule: rev_cases) auto
  have nm: "?n \<noteq> NULL \<Longrightarrow> ?n \<in> set W" using W by (cases ys) auto
  have disj: "\<And>x. x \<in> set D \<Longrightarrow> x \<notin> set W" using I by auto
  have fr: "\<And>x. x \<in> set D \<Longrightarrow> delay_next s' x = delay_next s x \<and> delay_prev s' x = delay_prev s x"
    using t qm nm disj by (auto simp: s'_def Let_def simp del: last.simps hd0_simps)
  have td: "t_delay s' = t_delay s" "delay_list s' = delay_list s" by (simp_all add: s'_def)
  have "dseg (delay_next s') (delay_prev s') NULL (wait_list s') (xs @ ys)"
    by (rule dseg_remove [OF ds d refl refl])
      (use qxs in \<open>auto simp: s'_def Let_def simp del: last.simps hd0_simps\<close>)
  moreover have "dseg (delay_next s') (delay_prev s') NULL (delay_list s') D"
    using dseg_frame [of D "delay_next s'" "delay_next s" "delay_prev s'" "delay_prev s"] fr I td by simp
  moreover have "remove1 t W = xs @ ys" using W d by (simp add: remove1_middle)
  ultimately have "dl_inv s' D (remove1 t W)" using I td W unfolding dl_inv_def by auto
  moreover have "dl_same s s'" by (rule dl_sameI2) (simp add: s'_def)
  ultimately show ?thesis using e td by (auto simp: delays_def)
qed

lemma osRtxThreadDelayRemove_delay:
  assumes inv: "dl_inv s D W" and t: "t \<in> set D"
  shows "\<exists>s'. osRtxThreadDelayRemove t s = Some s' \<and> dl_same s s' \<and> dl_inv s' (remove1 t D) W
    \<and> delays s' (remove1 t D) = filter (\<lambda>(x, n). x \<noteq> t) (delays s D)"
proof -
  note I = inv [unfolded dl_inv_def]
  obtain xs ys where D: "D = xs @ t # ys" using t by (meson split_list)
  have ds: "dseg (delay_next s) (delay_prev s) NULL (delay_list s) (xs @ t # ys)" using I D by simp
  note m = dseg_middle [OF ds]
  let ?q = "last (NULL # xs)" and ?n = "hd0 ys"
  define s' where "s' = s\<lparr>
      t_delay := (if ?n \<noteq> NULL then (t_delay s)(?n := t_delay s ?n + t_delay s t) else t_delay s),
      delay_prev := (let p = (if ?n \<noteq> NULL then (delay_prev s)(?n := ?q) else delay_prev s)
                     in if ?q \<noteq> NULL then p(t := NULL) else p),
      delay_next := (if ?q \<noteq> NULL then (delay_next s)(?q := ?n) else delay_next s),
      delay_list := (if ?q \<noteq> NULL then delay_list s else ?n)\<rparr>"
  have nn: "NULL \<notin> set D" "NULL \<notin> set W" using I dseg_nonnull by blast+
  have qxs: "?q = NULL \<longleftrightarrow> xs = []" using nn D by (intro last_eq_NULL) auto
  have d: "distinct (xs @ t # ys)" using I D by auto
  have nt: "?n \<noteq> t" using d m(3) by (cases ys) auto
  have qt: "?q \<noteq> t" using d m(3) by (cases xs rule: rev_cases) auto
  have "unat (t_delay s t) < unat osWaitForever" using I delta_sum_member [OF t, of "t_delay s"] by linarith
  then have dt: "t_delay s t \<noteq> osWaitForever" by auto
  have e: "osRtxThreadDelayRemove t s = Some s'"
    using m dt nt qt qxs by (cases "xs = []") (simp_all add: osRtxThreadDelayRemove_def s'_def Let_def)
  have qm: "?q \<noteq> NULL \<Longrightarrow> ?q \<in> set D" using D by (cases xs rule: rev_cases) auto
  have nm: "?n \<noteq> NULL \<Longrightarrow> ?n \<in> set D" using D by (cases ys) auto
  have disj: "\<And>x. x \<in> set W \<Longrightarrow> x \<notin> set D" using I by auto
  have fr: "\<And>x. x \<in> set W \<Longrightarrow> delay_next s' x = delay_next s x \<and> delay_prev s' x = delay_prev s x \<and> t_delay s' x = t_delay s x"
    using t qm nm disj by (auto simp: s'_def Let_def simp del: last.simps hd0_simps)
  have d2: "\<And>x. x \<in> set xs \<Longrightarrow> t_delay s' x = t_delay s x"
    using d by (cases ys) (auto simp: s'_def)
  have d3: "t_delay s' y = t_delay s y + t_delay s t \<and> (\<forall>x\<in>set zs. t_delay s' x = t_delay s x)" if "ys = y # zs" for y zs
    using d that nn D by (auto simp: s'_def)
  have sum: "delta_sum (t_delay s) (xs @ t # ys) < 2 ^ 32" using I D by simp
  have "dseg (delay_next s') (delay_prev s') NULL (delay_list s') (xs @ ys)"
    by (rule dseg_remove [OF ds d refl refl])
      (use qxs in \<open>auto simp: s'_def Let_def simp del: last.simps hd0_simps\<close>)
  moreover have "dseg (delay_next s') (delay_prev s') NULL (wait_list s') W"
    using dseg_frame [of W "delay_next s'" "delay_next s" "delay_prev s'" "delay_prev s"] fr I
    by (simp add: s'_def)
  moreover have "delta_sum (t_delay s') (xs @ ys) < unat osWaitForever"
    using delta_remove_sum [of "t_delay s" xs t ys "t_delay s'"] sum d2 d3 I D by simp
  moreover have "t_delay s' (hd (xs @ ys)) \<noteq> 0" if ne: "xs @ ys \<noteq> []"
  proof (cases xs)
    case Nil
    then obtain y zs where y: "ys = y # zs" using ne by (cases ys) simp_all
    have "t_delay s t \<noteq> 0" using I D Nil by simp
    moreover have "unat (t_delay s' y) = unat (t_delay s y) + unat (t_delay s t)"
      using d3 [OF y] sum y by (simp add: unat_add_lt)
    ultimately have "unat (t_delay s' y) \<noteq> 0" by (simp add: unat_eq_0)
    then show ?thesis using Nil y by auto
  next
    case (Cons x xs')
    then show ?thesis using I D d2 by auto
  qed
  moreover have "\<forall>x\<in>set W. t_delay s' x = osWaitForever" using I fr by auto
  moreover have "distinct ((xs @ ys) @ W)" using I D by auto
  ultimately have "dl_inv s' (xs @ ys) W" unfolding dl_inv_def by simp
  moreover have "delays s' (xs @ ys) = filter (\<lambda>(x, n). x \<noteq> t) (delays s (xs @ t # ys))"
    unfolding delays_def by (rule delta_remove_abs [OF d sum d2 d3])
  moreover have "remove1 t D = xs @ ys" using D d by (simp add: remove1_middle)
  moreover have "dl_same s s'" by (rule dl_sameI2) (simp add: s'_def)
  ultimately show ?thesis using e D by auto
qed

end
