(* ===== verification/Sched.thy ===== *)
theory Sched
  imports DelayList
begin

text \<open>
  The scheduler core of \<open>rtx_thread.c\<close>: making a thread ready, blocking and switching,
  dispatching, entering and leaving a wait, the delay tick, and the stack check; with the
  invariant \<open>kinv\<close> that ties the thread states to the lists, and the effect of each
  operation on the abstract lists.
\<close>

section \<open>Operations\<close>

definition osRtxThreadReadyPut :: "addr \<Rightarrow> rtx \<Rightarrow> rtx option" where
  "osRtxThreadReadyPut thread s =
     do {
       deref thread;
       let s = s\<lparr>o_state := (o_state s)(thread := osRtxThreadReady)\<rparr>;
       osRtxThreadListPut (ready_obj s) thread s
     }"

text \<open>\<open>StackOffsetR0\<close> (\<open>rtx_core_ca.h\<close>): NEON, VFP and basic stack frames.\<close>

definition StackOffsetR0 :: "u8 \<Rightarrow> u32" where
  "StackOffsetR0 stack_frame =
     (if stack_frame AND 0x04 \<noteq> 0 then (32 * 8) + (2 * 4) + (8 * 4)
      else if stack_frame AND 0x02 \<noteq> 0 then (16 * 8) + (2 * 4) + (8 * 4)
      else 8 * 4)"

definition osRtxThreadRegPtr :: "addr \<Rightarrow> rtx \<Rightarrow> addr" where
  "osRtxThreadRegPtr thread s = t_sp s thread + StackOffsetR0 (t_stack_frame s thread)"

text \<open>\<open>osRtxThreadBlock\<close>: a preempted thread goes before the threads of its priority.\<close>

partial_function (option) thread_block_search :: "rtx \<Rightarrow> int \<Rightarrow> addr \<Rightarrow> addr \<Rightarrow> (addr \<times> addr) option" where
  "thread_block_search s priority prev next =
     (if next \<noteq> NULL \<and> t_priority s next > priority
      then thread_block_search s priority next (thread_next s next)
      else Some (prev, next))"

definition osRtxThreadBlock :: "addr \<Rightarrow> rtx \<Rightarrow> rtx option" where
  "osRtxThreadBlock thread s =
     do {
       deref thread;
       let s = s\<lparr>o_state := (o_state s)(thread := osRtxThreadReady)\<rparr>;
       let priority = t_priority s thread;
       (prev, next) \<leftarrow> thread_block_search s priority (ready_obj s) (thread_next s (ready_obj s));
       Some (thread_list_link thread prev next s)
     }"

definition osRtxThreadStackCheck :: "rtx \<Rightarrow> rtx option" where
  "osRtxThreadStackCheck s =
     (let thread = run_curr s in
      if thread \<noteq> NULL then
        (if t_sp s thread \<le> t_stack_mem s thread \<or> mem32 s (t_stack_mem s thread) \<noteq> osRtxStackMagicWord
         then osRtxErrorNotify osRtxErrorStackUnderflow thread
         else Some s)
      else Some s)"

definition osRtxThreadSwitch :: "addr \<Rightarrow> rtx \<Rightarrow> rtx option" where
  "osRtxThreadSwitch thread s =
     do {
       deref thread;
       let s = s\<lparr>o_state := (o_state s)(thread := osRtxThreadRunning)\<rparr>;
       let s = s\<lparr>run_next := thread\<rparr>;
       osRtxThreadStackCheck s
     }"

definition osRtxThreadDispatch :: "addr \<Rightarrow> rtx \<Rightarrow> rtx option" where
  "osRtxThreadDispatch thread s =
     (let kernel_state = k_state s; thread_running = run_curr s in
      if thread = NULL then
        (let thread_ready = thread_next s (ready_obj s) in
         if kernel_state = osRtxKernelRunning \<and> thread_running \<noteq> NULL \<and> thread_ready \<noteq> NULL \<and>
            t_priority s thread_ready > t_priority s thread_running
         then do {
           s \<leftarrow> osRtxThreadListRemove thread_ready s;
           s \<leftarrow> osRtxThreadBlock thread_running s;
           osRtxThreadSwitch thread_ready s
         }
         else Some s)
      else
        (if kernel_state = osRtxKernelRunning \<and> thread_running \<noteq> NULL \<and>
            t_priority s thread > t_priority s thread_running
         then do {
           s \<leftarrow> osRtxThreadBlock thread_running s;
           osRtxThreadSwitch thread s
         }
         else osRtxThreadReadyPut thread s))"

definition osRtxThreadWaitExit :: "addr \<Rightarrow> u32 \<Rightarrow> bool \<Rightarrow> rtx \<Rightarrow> rtx option" where
  "osRtxThreadWaitExit thread ret_val dispatch s =
     do {
       deref thread;
       let reg = osRtxThreadRegPtr thread s;
       let s = s\<lparr>mem32 := (mem32 s)(reg := ret_val)\<rparr>;
       s \<leftarrow> osRtxThreadDelayRemove thread s;
       if dispatch then osRtxThreadDispatch thread s else osRtxThreadReadyPut thread s
     }"

definition osRtxThreadWaitEnter :: "u8 \<Rightarrow> u32 \<Rightarrow> rtx \<Rightarrow> (bool \<times> rtx) option" where
  "osRtxThreadWaitEnter state timeout s =
     (if k_state s \<noteq> osRtxKernelRunning then Some (False, s)
      else (let thread = run_curr s in
        if thread = NULL then Some (False, s)
        else if thread_next s (ready_obj s) = NULL then Some (False, s)
        else do {
          let s = s\<lparr>o_state := (o_state s)(thread := state)\<rparr>;
          s \<leftarrow> osRtxThreadDelayInsert thread timeout s;
          (thread, s) \<leftarrow> osRtxThreadListGet (ready_obj s) s;
          s \<leftarrow> osRtxThreadSwitch thread s;
          Some (True, s)
        }))"

text \<open>The loop of \<open>osRtxThreadDelayTick\<close> over the threads whose delay has run out.\<close>

partial_function (option) delay_tick_loop :: "addr \<Rightarrow> rtx \<Rightarrow> (addr \<times> rtx) option" where
  "delay_tick_loop thread s =
     do {
       s \<leftarrow> osRtxThreadListRemove thread s;
       s \<leftarrow> osRtxThreadReadyPut thread s;
       let thread = delay_next s thread;
       if thread \<noteq> NULL \<and> t_delay s thread = 0 then delay_tick_loop thread s else Some (thread, s)
     }"

definition osRtxThreadDelayTick :: "rtx \<Rightarrow> rtx option" where
  "osRtxThreadDelayTick s =
     (let thread = delay_list s in
      if thread = NULL then Some s
      else do {
        let s = s\<lparr>t_delay := (t_delay s)(thread := t_delay s thread - 1)\<rparr>;
        if t_delay s thread = 0 then do {
          (thread, s) \<leftarrow> delay_tick_loop thread s;
          let s = (if thread \<noteq> NULL then s\<lparr>delay_prev := (delay_prev s)(thread := NULL)\<rparr> else s);
          Some (s\<lparr>delay_list := thread\<rparr>)
        } else Some s
      })"

section \<open>The kernel invariant\<close>

text \<open>The objects with a thread list, the live threads, and the blocked ones.\<close>

definition has_thread_list :: "u8 \<Rightarrow> bool" where
  "has_thread_list i \<longleftrightarrow> i \<in> {osRtxIdEventFlags, osRtxIdMutex, osRtxIdSemaphore, osRtxIdMemoryPool, osRtxIdMessageQueue}"

definition objs :: "rtx \<Rightarrow> addr set" where
  "objs s = insert (ready_obj s) {ob. ob \<noteq> NULL \<and> has_thread_list (o_id s ob)}"

definition thrs :: "rtx \<Rightarrow> addr set" where
  "thrs s = {t. t \<noteq> NULL \<and> o_id s t = osRtxIdThread \<and> o_state s t \<noteq> osRtxThreadTerminated}"

definition is_blocked :: "u8 \<Rightarrow> bool" where
  "is_blocked st \<longleftrightarrow> st AND osRtxThreadStateMask = osRtxThreadBlocked"

text \<open>
  \<open>part_ok s L B C\<close>: the live threads are partitioned into the ready list, the blocked
  threads \<open>B\<close>, the threads \<open>C\<close> an operation has in its hands, and the running one; the state of a
  thread says which.
\<close>

definition part_ok :: "rtx \<Rightarrow> (addr \<Rightarrow> addr list) \<Rightarrow> addr set \<Rightarrow> addr set \<Rightarrow> bool" where
  "part_ok s L B C \<longleftrightarrow>
     B \<subseteq> thrs s \<and> C \<subseteq> thrs s \<and> B \<inter> C = {} \<and>
     set (L (ready_obj s)) \<inter> (B \<union> C) = {} \<and>
     (\<forall>ob. ob \<noteq> ready_obj s \<longrightarrow> set (L ob) \<subseteq> B \<union> C) \<and>
     (run_next s \<noteq> NULL \<longrightarrow> run_next s \<in> thrs s - (B \<union> C \<union> set (L (ready_obj s)))) \<and>
     (\<forall>t\<in>thrs s - C. if t \<in> set (L (ready_obj s)) then o_state s t = osRtxThreadReady
        else if t \<in> B then is_blocked (o_state s t)
        else t = run_next s \<and> o_state s t = osRtxThreadRunning)"

text \<open>
  Every live thread has a stack with the magic word at its bottom, and the saved registers
  of a thread are not at the bottom of a stack.
\<close>

definition stacks_ok :: "rtx \<Rightarrow> bool" where
  "stacks_ok s \<longleftrightarrow> (\<forall>t\<in>thrs s. t_stack_mem s t < t_sp s t \<and> mem32 s (t_stack_mem s t) = osRtxStackMagicWord \<and>
     (\<forall>u\<in>thrs s. osRtxThreadRegPtr u s \<noteq> t_stack_mem s t))"

definition kst :: "rtx \<Rightarrow> (addr \<Rightarrow> addr list) \<Rightarrow> addr set \<Rightarrow> addr set \<Rightarrow> bool" where
  "kst s L B C \<longleftrightarrow>
     tl_inv (thread_next s) (thread_prev s) (objs s) (thrs s) L \<and>
     part_ok s L B C \<and> (\<forall>ob. prio_sorted (t_priority s) (L ob)) \<and> stacks_ok s \<and> o_id s (ready_obj s) = osRtxIdInvalid"

definition kinv :: "rtx \<Rightarrow> (addr \<Rightarrow> addr list) \<Rightarrow> addr list \<Rightarrow> addr list \<Rightarrow> bool" where
  "kinv s L D W \<longleftrightarrow> kst s L (set D \<union> set W) {} \<and> dl_inv s D W"

text \<open>
  Between two services the running thread is the one to run next (the context switch has
  been done), and it has the highest priority of the threads that can run.
\<close>

definition stable :: "rtx \<Rightarrow> bool" where
  "stable s \<longleftrightarrow> run_curr s = run_next s"

definition prio_ok :: "rtx \<Rightarrow> (addr \<Rightarrow> addr list) \<Rightarrow> bool" where
  "prio_ok s L \<longleftrightarrow> (run_next s \<noteq> NULL \<longrightarrow> (\<forall>t\<in>set (L (ready_obj s)). t_priority s t \<le> t_priority s (run_next s)))"

text \<open>The switch of contexts at the end of a service (\<open>osRtxContextSwitch\<close> of \<open>irq_ca.S\<close>).\<close>

definition context_switch :: "rtx \<Rightarrow> rtx" where
  "context_switch s = s\<lparr>run_curr := run_next s\<rparr>"

section \<open>Facts about the invariant\<close>

lemma kstD:
  assumes "kst s L B C"
  shows "tl_inv (thread_next s) (thread_prev s) (objs s) (thrs s) L" "part_ok s L B C"
    "prio_sorted (t_priority s) (L ob)" "stacks_ok s" "o_id s (ready_obj s) = osRtxIdInvalid"
  using assms by (auto simp: kst_def)

lemma part_okD:
  assumes "part_ok s L B C"
  shows "t \<in> B \<Longrightarrow> t \<in> thrs s" "t \<in> C \<Longrightarrow> t \<in> thrs s" "t \<in> B \<Longrightarrow> t \<notin> C"
    "t \<in> set (L (ready_obj s)) \<Longrightarrow> t \<notin> B \<and> t \<notin> C"
    "ob \<noteq> ready_obj s \<Longrightarrow> t \<in> set (L ob) \<Longrightarrow> t \<in> B \<or> t \<in> C"
    "run_next s \<noteq> NULL \<Longrightarrow> run_next s \<in> thrs s \<and> run_next s \<notin> B \<and> run_next s \<notin> C \<and> run_next s \<notin> set (L (ready_obj s))"
    "t \<in> thrs s \<Longrightarrow> t \<notin> C \<Longrightarrow> t \<in> set (L (ready_obj s)) \<Longrightarrow> o_state s t = osRtxThreadReady"
    "t \<in> B \<Longrightarrow> is_blocked (o_state s t)"
    "t \<in> thrs s \<Longrightarrow> t \<notin> C \<Longrightarrow> t \<notin> B \<Longrightarrow> t \<notin> set (L (ready_obj s)) \<Longrightarrow> t = run_next s \<and> o_state s t = osRtxThreadRunning"
proof -
  note p = assms [unfolded part_ok_def]
  show B: "t \<in> B \<Longrightarrow> t \<in> thrs s" and "t \<in> C \<Longrightarrow> t \<in> thrs s" and BC: "t \<in> B \<Longrightarrow> t \<notin> C"
    and R: "t \<in> set (L (ready_obj s)) \<Longrightarrow> t \<notin> B \<and> t \<notin> C"
    and "ob \<noteq> ready_obj s \<Longrightarrow> t \<in> set (L ob) \<Longrightarrow> t \<in> B \<or> t \<in> C"
    and "run_next s \<noteq> NULL \<Longrightarrow> run_next s \<in> thrs s \<and> run_next s \<notin> B \<and> run_next s \<notin> C \<and> run_next s \<notin> set (L (ready_obj s))"
    using p by blast+
  have c: "t \<in> thrs s \<Longrightarrow> t \<notin> C \<Longrightarrow> if t \<in> set (L (ready_obj s)) then o_state s t = osRtxThreadReady
        else if t \<in> B then is_blocked (o_state s t) else t = run_next s \<and> o_state s t = osRtxThreadRunning"
    using p by blast
  show "t \<in> thrs s \<Longrightarrow> t \<notin> C \<Longrightarrow> t \<in> set (L (ready_obj s)) \<Longrightarrow> o_state s t = osRtxThreadReady"
    using c by simp
  show "t \<in> B \<Longrightarrow> is_blocked (o_state s t)" using c B BC R by metis
  show "t \<in> thrs s \<Longrightarrow> t \<notin> C \<Longrightarrow> t \<notin> B \<Longrightarrow> t \<notin> set (L (ready_obj s)) \<Longrightarrow> t = run_next s \<and> o_state s t = osRtxThreadRunning"
    using c by (simp only: if_False) auto
qed

lemma part_okI:
  assumes "\<And>t. t \<in> B \<Longrightarrow> t \<in> thrs s \<and> t \<notin> C \<and> is_blocked (o_state s t)" "\<And>t. t \<in> C \<Longrightarrow> t \<in> thrs s"
    and "\<And>t. t \<in> set (L (ready_obj s)) \<Longrightarrow> t \<notin> B \<and> t \<notin> C \<and> o_state s t = osRtxThreadReady"
    and "\<And>ob t. ob \<noteq> ready_obj s \<Longrightarrow> t \<in> set (L ob) \<Longrightarrow> t \<in> B \<or> t \<in> C"
    and "run_next s \<noteq> NULL \<Longrightarrow> run_next s \<in> thrs s \<and> run_next s \<notin> B \<and> run_next s \<notin> C \<and> run_next s \<notin> set (L (ready_obj s))"
    and "\<And>t. t \<in> thrs s \<Longrightarrow> t \<notin> C \<Longrightarrow> t \<notin> B \<Longrightarrow> t \<notin> set (L (ready_obj s)) \<Longrightarrow> t = run_next s \<and> o_state s t = osRtxThreadRunning"
  shows "part_ok s L B C"
  unfolding part_ok_def
proof (intro conjI ballI allI impI)
  show "B \<subseteq> thrs s" "B \<inter> C = {}" using assms(1) by blast+
  show "C \<subseteq> thrs s" using assms(2) by blast
  show "set (L (ready_obj s)) \<inter> (B \<union> C) = {}" using assms(3) by blast
  show "set (L ob) \<subseteq> B \<union> C" if "ob \<noteq> ready_obj s" for ob using assms(4) [OF that] by blast
  show "run_next s \<in> thrs s - (B \<union> C \<union> set (L (ready_obj s)))" if "run_next s \<noteq> NULL" using assms(5) [OF that] by blast
  show "if t \<in> set (L (ready_obj s)) then o_state s t = osRtxThreadReady
        else if t \<in> B then is_blocked (o_state s t)
        else t = run_next s \<and> o_state s t = osRtxThreadRunning" if "t \<in> thrs s - C" for t
    using assms(1,3,6) [of t] that by simp
qed

lemma ready_in_objs [simp]: "ready_obj s \<in> objs s"
  by (simp add: objs_def)

lemma in_thrs: "t \<in> thrs s \<Longrightarrow> t \<noteq> NULL \<and> o_id s t = osRtxIdThread"
  by (simp add: thrs_def)

lemma objs_cong: "o_id s' = o_id s \<Longrightarrow> ready_obj s' = ready_obj s \<Longrightarrow> objs s' = objs s"
  by (simp add: objs_def)

lemma thrs_cong: "o_id s' = o_id s \<Longrightarrow> o_state s' = o_state s \<Longrightarrow> thrs s' = thrs s"
  by (simp add: thrs_def)

lemma thrs_upd:
  "o_id s' = o_id s \<Longrightarrow> o_state s' = (o_state s)(c := st) \<Longrightarrow> c \<in> thrs s \<Longrightarrow> st \<noteq> osRtxThreadTerminated \<Longrightarrow> thrs s' = thrs s"
  by (auto simp: thrs_def)

lemma thrs_upd2:
  "o_id s' = o_id s \<Longrightarrow> o_state s' = (o_state s)(c := st, d := st') \<Longrightarrow> c \<in> thrs s \<Longrightarrow> d \<in> thrs s
   \<Longrightarrow> st \<noteq> osRtxThreadTerminated \<Longrightarrow> st' \<noteq> osRtxThreadTerminated \<Longrightarrow> thrs s' = thrs s"
  by (auto simp: thrs_def)

lemma stacks_ok_cong:
  "thrs s' = thrs s \<Longrightarrow> t_stack_mem s' = t_stack_mem s \<Longrightarrow> t_sp s' = t_sp s \<Longrightarrow> t_stack_frame s' = t_stack_frame s
   \<Longrightarrow> mem32 s' = mem32 s \<Longrightarrow> stacks_ok s' = stacks_ok s"
  by (simp add: stacks_ok_def osRtxThreadRegPtr_def)

lemma objs_thrs_disjoint: "kst s L B C \<Longrightarrow> ob \<in> objs s \<Longrightarrow> ob \<notin> thrs s"
  using tl_invD(10) [OF kstD(1)] by blast

lemma is_blocked_not_terminated: "is_blocked st \<Longrightarrow> st \<noteq> osRtxThreadTerminated"
  by (auto simp: is_blocked_def)

text \<open>The steps of a thread from one class of the partition to another.\<close>

lemma part_ok_to_ready:
  assumes p: "part_ok s L B C" and c: "c \<in> C" "\<And>a. c \<notin> set (L a)"
    and s': "o_state s' = (o_state s)(c := osRtxThreadReady)" "thrs s' = thrs s" "run_next s' = run_next s"
      "ready_obj s' = ready_obj s"
    and L': "set (L' (ready_obj s)) = insert c (set (L (ready_obj s)))" "\<And>ob. ob \<noteq> ready_obj s \<Longrightarrow> L' ob = L ob"
    and R: "set (L (ready_obj s)) \<subseteq> thrs s"
  shows "part_ok s' L' B (C - {c})"
proof (rule part_okI, unfold s' L'(1))
  note P = part_okD [OF p]
  show "t \<in> thrs s \<and> t \<notin> C - {c} \<and> is_blocked (((o_state s)(c := osRtxThreadReady)) t)" if "t \<in> B" for t
    using P(1,3,8) [of t] that c by auto
  show "t \<in> thrs s" if "t \<in> C - {c}" for t using P(2) that by blast
  show "t \<notin> B \<and> t \<notin> C - {c} \<and> ((o_state s)(c := osRtxThreadReady)) t = osRtxThreadReady"
    if "t \<in> insert c (set (L (ready_obj s)))" for t
    using P(3,4,7) [of t] that c R by auto
  show "t \<in> B \<or> t \<in> C - {c}" if "ob \<noteq> ready_obj s" "t \<in> set (L' ob)" for ob t
    using P(5) [of ob t] that c L'(2) by auto
  show "run_next s \<in> thrs s \<and> run_next s \<notin> B \<and> run_next s \<notin> C - {c} \<and> run_next s \<notin> insert c (set (L (ready_obj s)))"
    if "run_next s \<noteq> NULL" using P(6) that c by blast
  show "t = run_next s \<and> ((o_state s)(c := osRtxThreadReady)) t = osRtxThreadRunning"
    if "t \<in> thrs s" "t \<notin> C - {c}" "t \<notin> B" "t \<notin> insert c (set (L (ready_obj s)))" for t
    using P(9) [of t] that by auto
qed

lemma part_ok_preempt:
  assumes p: "part_ok s L B C" and c: "c \<in> C" "\<And>a. c \<notin> set (L a)" and r: "r = run_next s" "r \<noteq> NULL"
    and s': "o_state s' = (o_state s)(r := osRtxThreadReady, c := osRtxThreadRunning)" "thrs s' = thrs s" "run_next s' = c"
      "ready_obj s' = ready_obj s"
    and L': "set (L' (ready_obj s)) = insert r (set (L (ready_obj s)))" "\<And>ob. ob \<noteq> ready_obj s \<Longrightarrow> L' ob = L ob"
    and R: "set (L (ready_obj s)) \<subseteq> thrs s"
  shows "part_ok s' L' B (C - {c})"
proof (rule part_okI, unfold s' L'(1))
  note P = part_okD [OF p]
  have rc: "r \<noteq> c" "r \<in> thrs s" "r \<notin> B" "r \<notin> C" using P(6) r c by auto
  show "t \<in> thrs s \<and> t \<notin> C - {c} \<and> is_blocked (((o_state s)(r := osRtxThreadReady, c := osRtxThreadRunning)) t)"
    if "t \<in> B" for t using P(1,3,8) [of t] that c rc by auto
  show "t \<in> thrs s" if "t \<in> C - {c}" for t using P(2) that by blast
  show "t \<notin> B \<and> t \<notin> C - {c} \<and> ((o_state s)(r := osRtxThreadReady, c := osRtxThreadRunning)) t = osRtxThreadReady"
    if "t \<in> insert r (set (L (ready_obj s)))" for t
    using P(4,7) [of t] that c R rc by auto
  show "t \<in> B \<or> t \<in> C - {c}" if "ob \<noteq> ready_obj s" "t \<in> set (L' ob)" for ob t
    using P(5) [of ob t] that c L'(2) by auto
  show "c \<in> thrs s \<and> c \<notin> B \<and> c \<notin> C - {c} \<and> c \<notin> insert r (set (L (ready_obj s)))"
    using P(2,3,4) [of c] c rc by auto
  show "t = c \<and> ((o_state s)(r := osRtxThreadReady, c := osRtxThreadRunning)) t = osRtxThreadRunning"
    if "t \<in> thrs s" "t \<notin> C - {c}" "t \<notin> B" "t \<notin> insert r (set (L (ready_obj s)))" for t
    using P(9) [of t] that r by auto
qed

lemma part_ok_take_ready:
  assumes p: "part_ok s L B C" and c: "c \<in> set (L (ready_obj s))" and d: "set (L' (ready_obj s)) = set (L (ready_obj s)) - {c}"
    and L': "\<And>ob. ob \<noteq> ready_obj s \<Longrightarrow> L' ob = L ob" and R: "set (L (ready_obj s)) \<subseteq> thrs s"
  shows "part_ok s L' B (insert c C)"
proof (rule part_okI, unfold d)
  note P = part_okD [OF p]
  show "t \<in> thrs s \<and> t \<notin> insert c C \<and> is_blocked (o_state s t)" if "t \<in> B" for t
    using P(1,3,8) [of t] P(4) [OF c] that by auto
  show "t \<in> thrs s" if "t \<in> insert c C" for t using P(2) that c R by blast
  show "t \<notin> B \<and> t \<notin> insert c C \<and> o_state s t = osRtxThreadReady" if "t \<in> set (L (ready_obj s)) - {c}" for t
    using P(4,7) [of t] that R by auto
  show "t \<in> B \<or> t \<in> insert c C" if "ob \<noteq> ready_obj s" "t \<in> set (L' ob)" for ob t
    using P(5) [of ob t] that L' by auto
  show "run_next s \<in> thrs s \<and> run_next s \<notin> B \<and> run_next s \<notin> insert c C \<and> run_next s \<notin> set (L (ready_obj s)) - {c}"
    if "run_next s \<noteq> NULL" using P(6) that c by auto
  show "t = run_next s \<and> o_state s t = osRtxThreadRunning"
    if "t \<in> thrs s" "t \<notin> insert c C" "t \<notin> B" "t \<notin> set (L (ready_obj s)) - {c}" for t
    using P(9) [of t] that by auto
qed

lemma part_ok_take_blocked:
  assumes p: "part_ok s L B C" and c: "c \<in> B" and R: "set (L (ready_obj s)) \<subseteq> thrs s"
  shows "part_ok s L (B - {c}) (insert c C)"
proof (rule part_okI)
  note P = part_okD [OF p]
  show "t \<in> thrs s \<and> t \<notin> insert c C \<and> is_blocked (o_state s t)" if "t \<in> B - {c}" for t
    using P(1,3,8) [of t] that by auto
  show "t \<in> thrs s" if "t \<in> insert c C" for t using P(1,2) that c by blast
  show "t \<notin> B - {c} \<and> t \<notin> insert c C \<and> o_state s t = osRtxThreadReady" if "t \<in> set (L (ready_obj s))" for t
    using P(4) [OF that] P(7) [of t] c that R by auto
  show "t \<in> B - {c} \<or> t \<in> insert c C" if "ob \<noteq> ready_obj s" "t \<in> set (L ob)" for ob t
    using P(5) [of ob t] that by auto
  show "run_next s \<in> thrs s \<and> run_next s \<notin> B - {c} \<and> run_next s \<notin> insert c C \<and> run_next s \<notin> set (L (ready_obj s))"
    if "run_next s \<noteq> NULL" using P(6) that c by auto
  show "t = run_next s \<and> o_state s t = osRtxThreadRunning"
    if "t \<in> thrs s" "t \<notin> insert c C" "t \<notin> B - {c}" "t \<notin> set (L (ready_obj s))" for t
    using P(9) [of t] that by auto
qed

lemma part_ok_cong:
  "o_state s' = o_state s \<Longrightarrow> thrs s' = thrs s \<Longrightarrow> run_next s' = run_next s \<Longrightarrow> ready_obj s' = ready_obj s
   \<Longrightarrow> part_ok s' L B C = part_ok s L B C"
  by (simp add: part_ok_def)

section \<open>Making ready and preempting\<close>

definition ready_put :: "rtx \<Rightarrow> addr \<Rightarrow> (addr \<Rightarrow> addr list) \<Rightarrow> addr \<Rightarrow> addr list" where
  "ready_put s t L = L(ready_obj s := prio_put (t_priority s) t (L (ready_obj s)))"

definition ready_push :: "rtx \<Rightarrow> addr \<Rightarrow> (addr \<Rightarrow> addr list) \<Rightarrow> addr \<Rightarrow> addr list" where
  "ready_push s t L = L(ready_obj s := prio_push (t_priority s) t (L (ready_obj s)))"

lemma kst_list_sub: "kst s L B C \<Longrightarrow> set (L ob) \<subseteq> thrs s"
  using tl_invD(3) [OF kstD(1)] by blast

lemma running_in_no_list: "kst s L B C \<Longrightarrow> run_next s \<noteq> NULL \<Longrightarrow> run_next s \<notin> set (L a)"
  using part_okD(5,6) [OF kstD(2)] by metis

lemma osRtxThreadReadyPut_kst:
  assumes k: "kst s L B C" and c: "c \<in> C" "\<And>a. c \<notin> set (L a)"
  shows "\<exists>nx pv s'. s' = s\<lparr>o_state := (o_state s)(c := osRtxThreadReady), thread_next := nx, thread_prev := pv\<rparr>
    \<and> osRtxThreadReadyPut c s = Some s' \<and> tl_same (objs s) (thrs s) s nx pv \<and> thrs s' = thrs s
    \<and> kst s' (ready_put s c L) B (C - {c})"
proof -
  note K = kstD [OF k]
  have ct: "c \<in> thrs s" using part_okD(2) [OF K(2)] c(1) .
  have cn: "c \<noteq> NULL" using in_thrs [OF ct] by blast
  let ?s1 = "s\<lparr>o_state := (o_state s)(c := osRtxThreadReady)\<rparr>"
  have "tl_inv (thread_next ?s1) (thread_prev ?s1) (objs s) (thrs s) L" using K(1) by simp
  from osRtxThreadListPut_tl [OF this ready_in_objs ct c(2)] obtain nx pv where
    put: "osRtxThreadListPut (ready_obj s) c ?s1 = Some (?s1\<lparr>thread_next := nx, thread_prev := pv\<rparr>)"
    and same: "tl_same (objs s) (thrs s) ?s1 nx pv"
    and inv: "tl_inv nx pv (objs s) (thrs s) (ready_put s c L)"
    by (auto simp: ready_put_def)
  let ?s' = "s\<lparr>o_state := (o_state s)(c := osRtxThreadReady), thread_next := nx, thread_prev := pv\<rparr>"
  have op: "osRtxThreadReadyPut c s = Some ?s'"
    using put cn by (simp add: osRtxThreadReadyPut_def)
  have th: "thrs ?s' = thrs s" by (rule thrs_upd [where c = c and st = osRtxThreadReady]) (simp_all add: ct)
  have ob: "objs ?s' = objs s" by (rule objs_cong) simp_all
  have "part_ok ?s' (ready_put s c L) B (C - {c})"
    by (rule part_ok_to_ready [OF K(2) c]) (simp_all add: th ready_put_def kst_list_sub [OF k])
  moreover have "stacks_ok ?s'" using K(4) stacks_ok_cong [of ?s' s] th by simp
  moreover have "prio_sorted (t_priority s) (ready_put s c L ob)" for ob
    using K(3) by (simp add: ready_put_def prio_sorted_put)
  ultimately have "kst ?s' (ready_put s c L) B (C - {c})"
    using inv K(5) unfolding kst_def ob th by simp
  then show ?thesis using op same th by (intro exI [of _ nx] exI [of _ pv] exI [of _ ?s']) (simp add: tl_same_def)
qed

lemma thread_block_search_chain:
  assumes "chain (thread_next s) pv r xs"
  shows "thread_block_search s pri r (thread_next s r)
    = Some (last (r # takeWhile (\<lambda>x. t_priority s x > pri) xs), hd0 (dropWhile (\<lambda>x. t_priority s x > pri) xs))"
  using assms
proof (induction xs arbitrary: r)
  case Nil
  then show ?case by (simp add: thread_block_search.simps [of s pri r NULL])
next
  case (Cons x xs)
  then have "thread_next s r = x" "x \<noteq> NULL" and ih: "thread_block_search s pri x (thread_next s x)
    = Some (last (x # takeWhile (\<lambda>x. t_priority s x > pri) xs), hd0 (dropWhile (\<lambda>x. t_priority s x > pri) xs))"
    by simp_all
  then show ?case by (simp add: thread_block_search.simps [of s pri r x])
qed

lemma osRtxThreadStackCheck_ok:
  assumes "stacks_ok s" "run_curr s = NULL \<or> run_curr s \<in> thrs s"
  shows "osRtxThreadStackCheck s = Some s"
  using assms by (auto simp: osRtxThreadStackCheck_def stacks_ok_def Let_def not_le)

lemma record_order:
  "s\<lparr>thread_next := nx, thread_prev := pv, o_state := st, run_next := r\<rparr>
     = s\<lparr>o_state := st, thread_next := nx, thread_prev := pv, run_next := r\<rparr>"
  by simp

text \<open>The running thread is put back into the ready list and \<open>c\<close> runs next.\<close>

lemma preempt_kst:
  assumes k: "kst s L B C" and c: "c \<in> C" "\<And>a. c \<notin> set (L a)"
    and r: "r = run_next s" "run_curr s = r" "r \<noteq> NULL"
  shows "\<exists>nx pv s'. s' = s\<lparr>o_state := (o_state s)(r := osRtxThreadReady, c := osRtxThreadRunning),
      thread_next := nx, thread_prev := pv, run_next := c\<rparr>
    \<and> do { s \<leftarrow> osRtxThreadBlock r s; osRtxThreadSwitch c s } = Some s' \<and> tl_same (objs s) (thrs s) s nx pv
    \<and> thrs s' = thrs s \<and> kst s' (ready_push s r L) B (C - {c})"
proof -
  note K = kstD [OF k]
  have ct: "c \<in> thrs s" using part_okD(2) [OF K(2)] c(1) .
  have rt: "r \<in> thrs s" using part_okD(6) [OF K(2)] r by blast
  have rl: "r \<notin> set (L a)" for a using running_in_no_list [OF k] r by simp
  have cn: "c \<noteq> NULL" "c \<noteq> ready_obj s" "r \<noteq> ready_obj s"
    using in_thrs [OF ct] objs_thrs_disjoint [OF k ready_in_objs] ct rt by auto
  let ?s1 = "s\<lparr>o_state := (o_state s)(r := osRtxThreadReady)\<rparr>"
  let ?P = "\<lambda>x. t_priority s x > t_priority s r" and ?R = "L (ready_obj s)"
  have inv1: "tl_inv (thread_next ?s1) (thread_prev ?s1) (objs s) (thrs s) L" using K(1) by simp
  have sp: "?R = takeWhile ?P ?R @ dropWhile ?P ?R" by simp
  from thread_list_link_tl [OF inv1 ready_in_objs rt rl sp] obtain nx pv where
    link: "thread_list_link r (last (ready_obj s # takeWhile ?P ?R)) (hd0 (dropWhile ?P ?R)) ?s1
      = ?s1\<lparr>thread_next := nx, thread_prev := pv\<rparr>"
    and same: "tl_same (objs s) (thrs s) ?s1 nx pv"
    and inv: "tl_inv nx pv (objs s) (thrs s) (ready_push s r L)"
    unfolding ready_push_def prio_push_def ins_after_def by blast
  have "thread_block_search ?s1 (t_priority s r) (ready_obj s) (thread_next ?s1 (ready_obj s))
      = Some (last (ready_obj s # takeWhile ?P ?R), hd0 (dropWhile ?P ?R))"
    using thread_block_search_chain [OF tl_invD(1) [OF inv1 ready_in_objs], of "t_priority s r"] by simp
  then have blk: "osRtxThreadBlock r s = Some (?s1\<lparr>thread_next := nx, thread_prev := pv\<rparr>)"
    using r(3) link by (simp add: osRtxThreadBlock_def del: last.simps)
  let ?s' = "s\<lparr>o_state := (o_state s)(r := osRtxThreadReady, c := osRtxThreadRunning),
      thread_next := nx, thread_prev := pv, run_next := c\<rparr>"
  have th: "thrs ?s' = thrs s"
    by (rule thrs_upd2 [where c = r and st = osRtxThreadReady and d = c and st' = osRtxThreadRunning])
      (simp_all add: ct rt)
  have ob: "objs ?s' = objs s" by (rule objs_cong) simp_all
  have st: "stacks_ok ?s'" using K(4) stacks_ok_cong [of ?s' s] th by simp
  then have "osRtxThreadStackCheck ?s' = Some ?s'"
    by (rule osRtxThreadStackCheck_ok) (unfold th, use rt r in simp)
  then have op: "do { s \<leftarrow> osRtxThreadBlock r s; osRtxThreadSwitch c s } = Some ?s'"
    using blk cn(1) by (simp add: osRtxThreadSwitch_def) (simp add: record_order)
  have "part_ok ?s' (ready_push s r L) B (C - {c})"
    by (rule part_ok_preempt [OF K(2) c r(1,3)]) (simp_all add: th ready_push_def kst_list_sub [OF k])
  moreover have "prio_sorted (t_priority s) (ready_push s r L ob)" for ob
    using K(3) by (simp add: ready_push_def prio_sorted_push)
  ultimately have "kst ?s' (ready_push s r L) B (C - {c})"
    using inv K(5) st unfolding kst_def ob th by simp
  then show ?thesis using op same th by (intro exI [of _ nx] exI [of _ pv] exI [of _ ?s']) (simp add: tl_same_def)
qed

section \<open>What an operation of the scheduler changes\<close>

definition rl_frame :: "rtx \<Rightarrow> rtx \<Rightarrow> bool" where
  "rl_frame s s' \<longleftrightarrow> (\<exists>nx pv st r. s' = s\<lparr>thread_next := nx, thread_prev := pv, o_state := st, run_next := r\<rparr> \<and>
     tl_same (objs s) (thrs s) s nx pv \<and> (\<forall>x. x \<notin> thrs s \<longrightarrow> st x = o_state s x)) \<and> thrs s' = thrs s"

definition sched_frame :: "rtx \<Rightarrow> rtx \<Rightarrow> bool" where
  "sched_frame s s' \<longleftrightarrow> (\<exists>nx pv dn dp d dl wl st m r. s' = s\<lparr>thread_next := nx, thread_prev := pv,
     delay_next := dn, delay_prev := dp, t_delay := d, delay_list := dl, wait_list := wl, o_state := st,
     mem32 := m, run_next := r\<rparr> \<and> tl_same (objs s) (thrs s) s nx pv \<and> (\<forall>x. x \<notin> thrs s \<longrightarrow> st x = o_state s x) \<and>
     (\<forall>a. (\<forall>t\<in>thrs s. a \<noteq> osRtxThreadRegPtr t s) \<longrightarrow> m a = mem32 s a)) \<and> thrs s' = thrs s"

lemma rl_frame_sched: "rl_frame s s' \<Longrightarrow> sched_frame s s'"
proof -
  assume r: "rl_frame s s'"
  then obtain nx pv st r where e: "s' = s\<lparr>thread_next := nx, thread_prev := pv, o_state := st, run_next := r\<rparr>"
    "tl_same (objs s) (thrs s) s nx pv" "\<forall>x. x \<notin> thrs s \<longrightarrow> st x = o_state s x" unfolding rl_frame_def by blast
  have "s' = s\<lparr>thread_next := nx, thread_prev := pv,
     delay_next := delay_next s, delay_prev := delay_prev s, t_delay := t_delay s, delay_list := delay_list s,
     wait_list := wait_list s, o_state := st, mem32 := mem32 s, run_next := r\<rparr>" unfolding e by simp
  with e r show ?thesis unfolding sched_frame_def rl_frame_def by blast
qed

lemma sched_frame_dl:
  assumes "dl_same s s'"
  shows "sched_frame s s'"
proof -
  obtain dn dp d dl wl where e: "s' = s\<lparr>delay_next := dn, delay_prev := dp, t_delay := d, delay_list := dl, wait_list := wl\<rparr>"
    using assms unfolding dl_same_def by blast
  have "s' = s\<lparr>thread_next := thread_next s, thread_prev := thread_prev s, delay_next := dn, delay_prev := dp,
     t_delay := d, delay_list := dl, wait_list := wl, o_state := o_state s, mem32 := mem32 s, run_next := run_next s\<rparr>"
    unfolding e by simp
  moreover have "thrs s' = thrs s" unfolding e by (rule thrs_cong) simp_all
  ultimately show ?thesis unfolding sched_frame_def tl_same_def by blast
qed

lemma sched_frameD:
  assumes "sched_frame s s'"
  shows "o_id s' = o_id s" "o_flags s' = o_flags s" "o_attr s' = o_attr s" "o_name s' = o_name s"
    "thread_join s' = thread_join s" "t_priority s' = t_priority s" "t_priority_base s' = t_priority_base s"
    "t_stack_frame s' = t_stack_frame s" "t_flags_options s' = t_flags_options s" "t_wait_flags s' = t_wait_flags s"
    "t_thread_flags s' = t_thread_flags s" "t_mutex_list s' = t_mutex_list s" "t_stack_mem s' = t_stack_mem s"
    "t_stack_size s' = t_stack_size s" "t_sp s' = t_sp s" "t_thread_addr s' = t_thread_addr s"
    "tm_type s' = tm_type s" "tm_prev s' = tm_prev s" "tm_next s' = tm_next s" "tm_tick s' = tm_tick s"
    "tm_load s' = tm_load s" "e_event_flags s' = e_event_flags s"
    "m_owner_thread s' = m_owner_thread s" "m_owner_prev s' = m_owner_prev s" "m_owner_next s' = m_owner_next s"
    "m_lock s' = m_lock s" "s_tokens s' = s_tokens s" "s_max_tokens s' = s_max_tokens s"
    "mp_max_blocks s' = mp_max_blocks s" "mp_used_blocks s' = mp_used_blocks s" "mp_block_size s' = mp_block_size s"
    "mp_block_base s' = mp_block_base s" "mp_block_lim s' = mp_block_lim s" "mp_block_free s' = mp_block_free s"
    "msg_priority s' = msg_priority s" "msg_prev s' = msg_prev s" "msg_next s' = msg_next s"
    "mq_msg_size s' = mq_msg_size s" "mq_msg_count s' = mq_msg_count s" "mq_msg_first s' = mq_msg_first s"
    "mq_msg_last s' = mq_msg_last s"
    "k_state s' = k_state s" "k_blocked s' = k_blocked s" "k_pendSV s' = k_pendSV s" "k_tick s' = k_tick s" "tick_irqn s' = tick_irqn s"
    "run_curr s' = run_curr s" "ready_obj s' = ready_obj s" "idle_thread s' = idle_thread s"
    "terminate_list s' = terminate_list s" "robin_thread s' = robin_thread s" "robin_tick s' = robin_tick s"
    "robin_timeout s' = robin_timeout s" "timer_list s' = timer_list s" "timer_thread s' = timer_thread s"
    "timer_mq s' = timer_mq s" "timer_tick_on s' = timer_tick_on s"
    "isr_max s' = isr_max s" "isr_cnt s' = isr_cnt s" "isr_in s' = isr_in s" "isr_out s' = isr_out s"
    "isr_data s' = isr_data s" "mem_stack s' = mem_stack s" "mem_mp_data s' = mem_mp_data s"
    "mem_mq_data s' = mem_mq_data s" "mem_common s' = mem_common s" "mpi_stack s' = mpi_stack s"
    "mpi_thread s' = mpi_thread s" "mpi_timer s' = mpi_timer s" "mpi_event_flags s' = mpi_event_flags s"
    "mpi_mutex s' = mpi_mutex s" "mpi_semaphore s' = mpi_semaphore s" "mpi_memory_pool s' = mpi_memory_pool s"
    "mpi_message_queue s' = mpi_message_queue s" "mem8 s' = mem8 s" "psp s' = psp s" "IRQ_PendSV s' = IRQ_PendSV s"
    "tick_enabled s' = tick_enabled s"
  using assms unfolding sched_frame_def by force+

lemma sched_frame_out:
  assumes "sched_frame s s'"
  shows "thrs s' = thrs s" "x \<notin> thrs s \<Longrightarrow> o_state s' x = o_state s x"
    "x \<notin> objs s \<Longrightarrow> x \<notin> thrs s \<Longrightarrow> thread_next s' x = thread_next s x"
    "x \<notin> objs s \<Longrightarrow> x \<notin> thrs s \<Longrightarrow> thread_prev s' x = thread_prev s x"
    "(\<And>t. t \<in> thrs s \<Longrightarrow> a \<noteq> osRtxThreadRegPtr t s) \<Longrightarrow> mem32 s' a = mem32 s a"
  using assms unfolding sched_frame_def tl_same_def by force+

lemma sched_frame_objs: "sched_frame s s' \<Longrightarrow> objs s' = objs s"
  by (rule objs_cong) (simp_all add: sched_frameD)

lemma sched_frame_RegPtr: "sched_frame s s' \<Longrightarrow> osRtxThreadRegPtr t s' = osRtxThreadRegPtr t s"
  by (simp add: osRtxThreadRegPtr_def sched_frameD)

lemma sched_frame_refl: "sched_frame s s"
proof -
  have "s = s\<lparr>thread_next := thread_next s, thread_prev := thread_prev s,
     delay_next := delay_next s, delay_prev := delay_prev s, t_delay := t_delay s, delay_list := delay_list s,
     wait_list := wait_list s, o_state := o_state s, mem32 := mem32 s, run_next := run_next s\<rparr>" by simp
  then show ?thesis unfolding sched_frame_def tl_same_def by blast
qed

lemma sched_frame_trans:
  assumes a: "sched_frame s s'" and b: "sched_frame s' s''"
  shows "sched_frame s s''"
proof -
  obtain nx pv dn dp d dl wl st m r where e: "s' = s\<lparr>thread_next := nx, thread_prev := pv,
     delay_next := dn, delay_prev := dp, t_delay := d, delay_list := dl, wait_list := wl, o_state := st,
     mem32 := m, run_next := r\<rparr>" using a unfolding sched_frame_def by blast
  obtain nx pv dn dp d dl wl st m r where e': "s'' = s'\<lparr>thread_next := nx, thread_prev := pv,
     delay_next := dn, delay_prev := dp, t_delay := d, delay_list := dl, wait_list := wl, o_state := st,
     mem32 := m, run_next := r\<rparr>" using b unfolding sched_frame_def by blast
  have "s'' = s\<lparr>thread_next := nx, thread_prev := pv,
     delay_next := dn, delay_prev := dp, t_delay := d, delay_list := dl, wait_list := wl, o_state := st,
     mem32 := m, run_next := r\<rparr>" unfolding e' unfolding e by simp
  moreover have "tl_same (objs s) (thrs s) s nx pv"
    using sched_frame_out(3,4) [OF a] sched_frame_out(3,4) [OF b] sched_frame_objs [OF a] sched_frame_out(1) [OF a]
    unfolding tl_same_def e' by simp
  moreover have "\<forall>x. x \<notin> thrs s \<longrightarrow> st x = o_state s x"
    using sched_frame_out(2) [OF a] sched_frame_out(2) [OF b] sched_frame_out(1) [OF a] unfolding e' by simp
  moreover have "\<forall>a. (\<forall>t\<in>thrs s. a \<noteq> osRtxThreadRegPtr t s) \<longrightarrow> m a = mem32 s a"
    using sched_frame_out(5) [OF a] sched_frame_out(5) [OF b] sched_frame_out(1) [OF a] sched_frame_RegPtr [OF a]
    unfolding e' by simp
  moreover have "thrs s'' = thrs s" using sched_frame_out(1) [OF a] sched_frame_out(1) [OF b] by simp
  ultimately show ?thesis unfolding sched_frame_def by blast
qed

section \<open>Dispatching\<close>

definition preempts :: "rtx \<Rightarrow> addr \<Rightarrow> bool" where
  "preempts s c \<longleftrightarrow> k_state s = osRtxKernelRunning \<and> run_curr s \<noteq> NULL \<and> t_priority s c > t_priority s (run_curr s)"

definition disp_lists :: "rtx \<Rightarrow> addr \<Rightarrow> (addr \<Rightarrow> addr list) \<Rightarrow> addr \<Rightarrow> addr list" where
  "disp_lists s c L = (if preempts s c then ready_push s (run_curr s) L else ready_put s c L)"

definition disp_run :: "rtx \<Rightarrow> addr \<Rightarrow> addr" where
  "disp_run s c = (if preempts s c then c else run_next s)"

definition redisp :: "rtx \<Rightarrow> (addr \<Rightarrow> addr list) \<Rightarrow> (addr \<Rightarrow> addr list) \<times> addr" where
  "redisp s L = (case L (ready_obj s) of [] \<Rightarrow> (L, run_next s)
     | c # ts \<Rightarrow> if preempts s c then (ready_push s (run_curr s) (L(ready_obj s := ts)), c) else (L, run_next s))"

lemma rl_frameI:
  assumes "s' = s\<lparr>o_state := st, thread_next := nx, thread_prev := pv, run_next := r\<rparr>"
    and "tl_same (objs s) (thrs s) s nx pv" "\<And>x. x \<notin> thrs s \<Longrightarrow> st x = o_state s x" "thrs s' = thrs s"
  shows "rl_frame s s'"
proof -
  have "s' = s\<lparr>thread_next := nx, thread_prev := pv, o_state := st, run_next := r\<rparr>" unfolding assms(1) by simp
  then show ?thesis using assms(2-4) unfolding rl_frame_def by blast
qed

lemma osRtxThreadReadyPut_rl:
  assumes k: "kst s L B C" and c: "c \<in> C" "\<And>a. c \<notin> set (L a)"
  shows "\<exists>s'. osRtxThreadReadyPut c s = Some s' \<and> rl_frame s s' \<and> run_next s' = run_next s
    \<and> kst s' (ready_put s c L) B (C - {c})"
proof -
  obtain nx pv s' where e: "s' = s\<lparr>o_state := (o_state s)(c := osRtxThreadReady), thread_next := nx, thread_prev := pv\<rparr>"
    and r: "osRtxThreadReadyPut c s = Some s'" "tl_same (objs s) (thrs s) s nx pv" "thrs s' = thrs s"
      "kst s' (ready_put s c L) B (C - {c})"
    using osRtxThreadReadyPut_kst [OF assms] by blast
  have ct: "c \<in> thrs s" using part_okD(2) [OF kstD(2) [OF k]] c(1) .
  have "rl_frame s s'"
    by (rule rl_frameI [where r = "run_next s" and st = "(o_state s)(c := osRtxThreadReady)" and nx = nx and pv = pv])
      (use e r ct in \<open>simp_all\<close>, use ct in auto)
  then show ?thesis using r e by auto
qed

lemma osRtxThreadDispatch_put:
  assumes k: "kst s L B C" and c: "c \<in> C" "\<And>a. c \<notin> set (L a)" and st: "stable s"
  shows "\<exists>s'. osRtxThreadDispatch c s = Some s' \<and> rl_frame s s' \<and> run_next s' = disp_run s c
    \<and> kst s' (disp_lists s c L) B (C - {c})"
proof (cases "preempts s c")
  case True
  have ct: "c \<in> thrs s" using part_okD(2) [OF kstD(2) [OF k]] c(1) .
  let ?r = "run_curr s"
  have r: "?r = run_next s" "?r \<noteq> NULL" using st True by (auto simp: stable_def preempts_def)
  have rt: "?r \<in> thrs s" using part_okD(6) [OF kstD(2) [OF k]] r by simp
  obtain nx pv s' where e: "s' = s\<lparr>o_state := (o_state s)(?r := osRtxThreadReady, c := osRtxThreadRunning),
      thread_next := nx, thread_prev := pv, run_next := c\<rparr>"
    and op: "do { s \<leftarrow> osRtxThreadBlock ?r s; osRtxThreadSwitch c s } = Some s'"
    and f: "tl_same (objs s) (thrs s) s nx pv" "thrs s' = thrs s" "kst s' (ready_push s ?r L) B (C - {c})"
    using preempt_kst [OF k c r(1) refl r(2)] by blast
  have "rl_frame s s'" by (rule rl_frameI [OF e f(1)]) (use f ct rt in auto)
  moreover have "osRtxThreadDispatch c s = Some s'"
    using op True in_thrs [OF ct] by (simp add: osRtxThreadDispatch_def preempts_def)
  ultimately show ?thesis using f e True by (auto simp: disp_lists_def disp_run_def)
next
  case False
  have ct: "c \<in> thrs s" using part_okD(2) [OF kstD(2) [OF k]] c(1) .
  have "osRtxThreadDispatch c s = osRtxThreadReadyPut c s"
    using False in_thrs [OF ct] by (auto simp: osRtxThreadDispatch_def preempts_def Let_def)
  then show ?thesis using osRtxThreadReadyPut_rl [OF k c] False by (simp add: disp_lists_def disp_run_def)
qed

lemma tl_inv_distinct_Cons:
  assumes "tl_inv nx pv obs T L" "L ob = c # ts"
  shows "c \<notin> set ((L(ob := ts)) a)"
  using tl_invD(2) [OF assms(1), of ob] tl_invD(4) [OF assms(1), of c ob a] assms(2) by auto

text \<open>Taking the first ready thread out of its list.\<close>

lemma take_ready_kst:
  assumes k: "kst s L B C" and L: "L (ready_obj s) = c # ts"
    and s': "s' = s\<lparr>thread_next := nx, thread_prev := pv\<rparr>"
    and inv: "tl_inv nx pv (objs s) (thrs s) (L(ready_obj s := ts))"
  shows "kst s' (L(ready_obj s := ts)) B (insert c C)"
proof -
  note K = kstD [OF k]
  have th: "thrs s' = thrs s" unfolding s' by (rule thrs_cong) simp_all
  have ob: "objs s' = objs s" unfolding s' by (rule objs_cong) simp_all
  have "part_ok s (L(ready_obj s := ts)) B (insert c C)"
    using tl_invD(2) [OF K(1), of "ready_obj s"] kst_list_sub [OF k, of "ready_obj s"]
    by (intro part_ok_take_ready [OF K(2)]) (auto simp: L)
  then have "part_ok s' (L(ready_obj s := ts)) B (insert c C)"
    using part_ok_cong [of s' s] th by (simp add: s')
  moreover have "prio_sorted (t_priority s) ((L(ready_obj s := ts)) ob)" for ob
    using K(3) [of ob] K(3) [of "ready_obj s"] L by (simp add: prio_sorted_Cons)
  moreover have "stacks_ok s'" using K(4) stacks_ok_cong [of s' s] th by (simp add: s')
  ultimately show ?thesis using inv K(5) unfolding kst_def th ob by (simp add: s')
qed

lemma osRtxThreadDispatch_null:
  assumes k: "kst s L B C" and st: "stable s"
  shows "\<exists>s' L'. osRtxThreadDispatch NULL s = Some s' \<and> rl_frame s s' \<and> redisp s L = (L', run_next s')
    \<and> kst s' L' B C"
proof -
  note K = kstD [OF k]
  have hd: "thread_next s (ready_obj s) = hd0 (L (ready_obj s))" by (rule tl_inv_head [OF K(1) ready_in_objs])
  show ?thesis
  proof (cases "L (ready_obj s) \<noteq> [] \<and> preempts s (hd (L (ready_obj s)))")
    case False
    then have "osRtxThreadDispatch NULL s = Some s" "redisp s L = (L, run_next s)"
      using hd by (cases "L (ready_obj s)"; auto simp: osRtxThreadDispatch_def preempts_def Let_def redisp_def)+
    moreover have "rl_frame s s"
      by (rule rl_frameI [where st = "o_state s" and r = "run_next s" and nx = "thread_next s" and pv = "thread_prev s"])
        (auto simp: tl_same_def)
    ultimately show ?thesis using k by auto
  next
    case True
    then obtain c ts where L: "L (ready_obj s) = c # ts" and p: "preempts s c"
      by (cases "L (ready_obj s)") auto
    let ?r = "run_curr s"
    have r: "?r = run_next s" "?r \<noteq> NULL" using st p by (auto simp: stable_def preempts_def)
    have ct: "c \<in> thrs s" using kst_list_sub [OF k, of "ready_obj s"] L by simp
    have rt: "?r \<in> thrs s" using part_okD(6) [OF K(2)] r by simp
    obtain nx pv where rm: "osRtxThreadListRemove c s = Some (s\<lparr>thread_next := nx, thread_prev := pv\<rparr>)"
      and same: "tl_same (objs s) (thrs s) s nx pv"
      and inv: "tl_inv nx pv (objs s) (thrs s) (L(ready_obj s := ts))"
      using osRtxThreadListRemove_tl [OF K(1), of c "ready_obj s"] L by auto
    let ?s1 = "s\<lparr>thread_next := nx, thread_prev := pv\<rparr>"
    have cC: "c \<notin> C" using part_okD(4) [OF K(2), of c] L by simp
    have k1: "kst ?s1 (L(ready_obj s := ts)) B (insert c C)" by (rule take_ready_kst [OF k L refl inv])
    have f1: "objs ?s1 = objs s" "thrs ?s1 = thrs s" by (simp_all add: objs_def thrs_def)
    obtain nx' pv' s' where e: "s' = ?s1\<lparr>o_state := (o_state ?s1)(?r := osRtxThreadReady, c := osRtxThreadRunning),
        thread_next := nx', thread_prev := pv', run_next := c\<rparr>"
      and op: "do { s \<leftarrow> osRtxThreadBlock ?r ?s1; osRtxThreadSwitch c s } = Some s'"
      and f: "tl_same (objs ?s1) (thrs ?s1) ?s1 nx' pv'" "thrs s' = thrs ?s1"
        "kst s' (ready_push ?s1 ?r (L(ready_obj s := ts))) B (insert c C - {c})"
      using preempt_kst [OF k1, of c ?r] tl_inv_distinct_Cons [OF K(1) L] r by auto
    have e': "s' = s\<lparr>o_state := (o_state s)(?r := osRtxThreadReady, c := osRtxThreadRunning),
        thread_next := nx', thread_prev := pv', run_next := c\<rparr>" unfolding e by simp
    have "rl_frame s s'"
      by (rule rl_frameI [OF e']) (use f f1 same ct rt in \<open>auto simp: tl_same_def\<close>)
    moreover have "osRtxThreadDispatch NULL s = Some s'"
      using op rm p L hd tl_invD(11) [OF K(1), of "ready_obj s"]
      by (auto simp: osRtxThreadDispatch_def preempts_def Let_def)
    moreover have "ready_push ?s1 ?r = ready_push s ?r" by (simp add: ready_push_def fun_eq_iff)
    ultimately show ?thesis using f p L cC by (auto simp: redisp_def e')
  qed
qed

text \<open>Dispatching keeps the priority order of the running thread over the ready ones, or restores it.\<close>

lemma prio_ok_disp:
  assumes "prio_ok s L" "stable s" "k_state s = osRtxKernelRunning" "rl_frame s s'" "run_next s' = disp_run s c"
  shows "prio_ok s' (disp_lists s c L)"
proof -
  have f: "t_priority s' = t_priority s" "ready_obj s' = ready_obj s"
    using sched_frameD [OF rl_frame_sched [OF assms(4)]] by simp_all
  show ?thesis
    using assms unfolding prio_ok_def f
    by (auto simp: disp_run_def disp_lists_def ready_put_def ready_push_def preempts_def stable_def split: if_splits)
qed

lemma prio_ok_redisp:
  assumes "prio_sorted (t_priority s) (L (ready_obj s))" "stable s" "k_state s = osRtxKernelRunning" "rl_frame s s'"
    and "redisp s L = (L', run_next s')"
  shows "prio_ok s' L'"
proof -
  have f: "t_priority s' = t_priority s" "ready_obj s' = ready_obj s"
    using sched_frameD [OF rl_frame_sched [OF assms(4)]] by simp_all
  show ?thesis
    using assms unfolding prio_ok_def f
    by (fastforce simp: redisp_def ready_push_def preempts_def stable_def prio_sorted_Cons
      split: if_splits list.splits)
qed

end
