(* ===== verification/Wait.thy ===== *)
theory Wait
  imports Sched
begin

text \<open>
  Leaving and entering a wait, and the delay tick: the effect of \<open>osRtxThreadWaitExit\<close>,
  \<open>osRtxThreadWaitEnter\<close> and \<open>osRtxThreadDelayTick\<close> on the abstract lists, and that they keep
  the kernel invariant.
\<close>

lemma kst_cong:
  assumes "thread_next s' = thread_next s" "thread_prev s' = thread_prev s" "o_id s' = o_id s" "o_state s' = o_state s"
    and "ready_obj s' = ready_obj s" "run_next s' = run_next s" "t_priority s' = t_priority s"
    and "t_stack_mem s' = t_stack_mem s" "t_sp s' = t_sp s" "t_stack_frame s' = t_stack_frame s" "mem32 s' = mem32 s"
  shows "kst s' L B C = kst s L B C"
proof -
  have "thrs s' = thrs s" "objs s' = objs s" using assms by (simp_all add: thrs_def objs_def)
  then show ?thesis
    using assms part_ok_cong [of s' s] stacks_ok_cong [of s' s] by (simp add: kst_def)
qed

lemma dl_sameD:
  assumes "dl_same s s'"
  shows "thread_next s' = thread_next s" "thread_prev s' = thread_prev s" "o_id s' = o_id s" "o_state s' = o_state s"
    "ready_obj s' = ready_obj s" "run_next s' = run_next s" "run_curr s' = run_curr s" "t_priority s' = t_priority s"
    "t_stack_mem s' = t_stack_mem s" "t_sp s' = t_sp s" "t_stack_frame s' = t_stack_frame s" "mem32 s' = mem32 s"
    "k_state s' = k_state s"
  using assms unfolding dl_same_def by auto

lemma kst_dl: "dl_same s s' \<Longrightarrow> kst s' L B C = kst s L B C"
  by (rule kst_cong) (simp_all add: dl_sameD)

lemma rl_frameD:
  assumes "rl_frame s s'"
  shows "delay_next s' = delay_next s" "delay_prev s' = delay_prev s" "t_delay s' = t_delay s"
    "delay_list s' = delay_list s" "wait_list s' = wait_list s" "mem32 s' = mem32 s" "thrs s' = thrs s"
    "run_curr s' = run_curr s" "k_state s' = k_state s" "ready_obj s' = ready_obj s" "t_priority s' = t_priority s"
  using assms unfolding rl_frame_def by auto

lemma rl_frame_dl:
  assumes "rl_frame s s'"
  shows "dl_inv s' D W = dl_inv s D W" "delays s' D = delays s D"
  by (rule dl_inv_cong; simp add: rl_frameD [OF assms])+

lemma kinvD:
  assumes "kinv s L D W"
  shows "kst s L (set D \<union> set W) {}" "dl_inv s D W" "set D \<inter> set W = {}" "distinct D" "distinct W"
    "t \<in> set D \<or> t \<in> set W \<Longrightarrow> t \<in> thrs s"
  using assms part_okD(1) [OF kstD(2)] by (auto simp: kinv_def dl_inv_def)

section \<open>Leaving a wait\<close>

definition exit_lists :: "rtx \<Rightarrow> addr \<Rightarrow> bool \<Rightarrow> (addr \<Rightarrow> addr list) \<Rightarrow> addr \<Rightarrow> addr list" where
  "exit_lists s t dispatch L = (if dispatch then disp_lists s t L else ready_put s t L)"

definition exit_run :: "rtx \<Rightarrow> addr \<Rightarrow> bool \<Rightarrow> addr" where
  "exit_run s t dispatch = (if dispatch then disp_run s t else run_next s)"

lemma osRtxThreadDelayRemove_dl:
  assumes "dl_inv s D W" "t \<in> set D \<or> t \<in> set W"
  shows "\<exists>s'. osRtxThreadDelayRemove t s = Some s' \<and> dl_same s s' \<and> dl_inv s' (remove1 t D) (remove1 t W)
    \<and> delays s' (remove1 t D) = filter (\<lambda>(x, n). x \<noteq> t) (delays s D)"
proof (cases "t \<in> set D")
  case True
  then have "remove1 t W = W" using assms(1) by (auto simp: dl_inv_def intro: remove1_idem)
  then show ?thesis using osRtxThreadDelayRemove_delay [OF assms(1) True] by simp
next
  case False
  then have t: "t \<in> set W" using assms(2) by simp
  have "filter (\<lambda>(x, n). x \<noteq> t) (delays s D) = delays s D"
    using False by (auto simp: filter_id_conv delays_def dest!: arg_cong [where f = "\<lambda>x. x \<in> set (map fst (delays s D))"])
      (metis False fst_conv image_eqI list.set_map map_fst_delta_abs)
  then show ?thesis using osRtxThreadDelayRemove_wait [OF assms(1) t] False by (simp add: remove1_idem)
qed

lemma osRtxThreadWaitExit_kst:
  assumes k: "kst s L (set D \<union> set W) C" and dl: "dl_inv s D W" and t: "t \<in> set D \<or> t \<in> set W" "\<And>a. t \<notin> set (L a)" and st: "d \<Longrightarrow> stable s"
  shows "\<exists>s'. osRtxThreadWaitExit t v d s = Some s' \<and> sched_frame s s'
    \<and> kst s' (exit_lists s t d L) (set (remove1 t D) \<union> set (remove1 t W)) C \<and> dl_inv s' (remove1 t D) (remove1 t W)
    \<and> run_next s' = exit_run s t d
    \<and> mem32 s' = (mem32 s)(osRtxThreadRegPtr t s := v)
    \<and> delays s' (remove1 t D) = filter (\<lambda>(x, n). x \<noteq> t) (delays s D)"
proof -
  have tt: "t \<in> thrs s" using part_okD(1) [OF kstD(2) [OF k]] t(1) by blast
  have tC: "t \<notin> C" using part_okD(3) [OF kstD(2) [OF k]] t(1) by blast
  have dd: "distinct D" "distinct W" using dl by (simp_all add: dl_inv_def)
  let ?reg = "osRtxThreadRegPtr t s"
  define s1 where "s1 = s\<lparr>mem32 := (mem32 s)(?reg := v)\<rparr>"
  have th1: "thrs s1 = thrs s" "objs s1 = objs s" by (simp_all add: s1_def thrs_def objs_def)
  have reg: "osRtxThreadRegPtr u s1 = osRtxThreadRegPtr u s" for u by (simp add: s1_def osRtxThreadRegPtr_def)
  have regs: "t_stack_mem s u \<noteq> osRtxThreadRegPtr w s" if "u \<in> thrs s" "w \<in> thrs s" for u w
    using kstD(4) [OF k] that unfolding stacks_ok_def by metis
  have "stacks_ok s1"
    unfolding stacks_ok_def th1 reg
  proof (intro ballI conjI)
    fix u assume u: "u \<in> thrs s"
    show "t_stack_mem s1 u < t_sp s1 u" "mem32 s1 (t_stack_mem s1 u) = osRtxStackMagicWord"
      using kstD(4) [OF k] u regs [OF u tt] by (simp_all add: stacks_ok_def s1_def)
    show "osRtxThreadRegPtr w s \<noteq> t_stack_mem s1 u" if "w \<in> thrs s" for w
      using regs [OF u that] by (simp add: s1_def)
  qed
  moreover have "part_ok s1 L B C = part_ok s L B C" for B C by (rule part_ok_cong) (simp_all add: th1, simp_all add: s1_def)
  ultimately have k1: "kst s1 L (set D \<union> set W) C"
    using k unfolding kst_def th1 by (simp add: s1_def)
  have "dl_inv s1 D W" using dl by (simp add: s1_def dl_inv_def)
  from osRtxThreadDelayRemove_dl [OF this t(1)] obtain s2 where
    s2: "osRtxThreadDelayRemove t s1 = Some s2" "dl_same s1 s2" "dl_inv s2 (remove1 t D) (remove1 t W)"
      "delays s2 (remove1 t D) = filter (\<lambda>(x, n). x \<noteq> t) (delays s1 D)" by blast
  let ?B = "set (remove1 t D) \<union> set (remove1 t W)"
  have B: "?B = set D \<union> set W - {t}" using dd by auto
  have k2: "kst s2 L (set D \<union> set W) C" using k1 kst_dl [OF s2(2)] by simp
  have "part_ok s2 L ?B (insert t C)"
    unfolding B using t(1) by (intro part_ok_take_blocked [OF kstD(2) [OF k2]] kst_list_sub [OF k2]) blast
  then have k3: "kst s2 L ?B (insert t C)" using k2 unfolding kst_def by simp
  have fr1: "sched_frame s s1"
  proof -
    have "s1 = s\<lparr>thread_next := thread_next s, thread_prev := thread_prev s, delay_next := delay_next s,
      delay_prev := delay_prev s, t_delay := t_delay s, delay_list := delay_list s, wait_list := wait_list s,
      o_state := o_state s, mem32 := (mem32 s)(?reg := v), run_next := run_next s\<rparr>" by (simp add: s1_def)
    moreover have "\<forall>a. (\<forall>t\<in>thrs s. a \<noteq> osRtxThreadRegPtr t s) \<longrightarrow> ((mem32 s)(?reg := v)) a = mem32 s a"
      using tt by simp
    ultimately show ?thesis using th1(1) unfolding sched_frame_def tl_same_def by blast
  qed
  have fr2: "sched_frame s s2" by (rule sched_frame_trans [OF fr1 sched_frame_dl [OF s2(2)]])
  note F2 = sched_frameD [OF fr2]
  have eqs: "exit_lists s2 t d L = exit_lists s t d L" "exit_run s2 t d = exit_run s t d" "stable s2 = stable s"
    using dl_sameD(6) [OF s2(2)]
    by (simp_all add: exit_lists_def exit_run_def disp_lists_def disp_run_def preempts_def ready_put_def
        ready_push_def F2 stable_def s1_def)
  have "\<exists>s'. (if d then osRtxThreadDispatch t s2 else osRtxThreadReadyPut t s2) = Some s' \<and> rl_frame s2 s'
    \<and> run_next s' = exit_run s2 t d \<and> kst s' (exit_lists s2 t d L) ?B (insert t C - {t})"
  proof (cases d)
    case True
    then have "stable s2" using eqs(3) st by simp
    then show ?thesis using osRtxThreadDispatch_put [OF k3 _ t(2)] True by (simp add: exit_lists_def exit_run_def)
  next
    case False
    then show ?thesis using osRtxThreadReadyPut_rl [OF k3 _ t(2)] by (simp add: exit_lists_def exit_run_def)
  qed
  then obtain s' where s': "(if d then osRtxThreadDispatch t s2 else osRtxThreadReadyPut t s2) = Some s'"
    "rl_frame s2 s'" "run_next s' = exit_run s t d" "kst s' (exit_lists s t d L) ?B (insert t C - {t})"
    unfolding eqs(1,2) by blast
  have "osRtxThreadWaitExit t v d s = Some s'"
    using in_thrs [OF tt] s2(1) s'(1) by (cases d) (simp_all add: osRtxThreadWaitExit_def s1_def)
  moreover have "sched_frame s s'" by (rule sched_frame_trans [OF fr2 rl_frame_sched [OF s'(2)]])
  moreover have "kst s' (exit_lists s t d L) ?B C" "dl_inv s' (remove1 t D) (remove1 t W)"
    using s'(4) s2(3) rl_frame_dl(1) [OF s'(2)] tC by simp_all
  moreover have "mem32 s' = (mem32 s)(?reg := v)"
    using rl_frameD(6) [OF s'(2)] dl_sameD(12) [OF s2(2)] by (simp add: s1_def)
  moreover have "delays s' (remove1 t D) = filter (\<lambda>(x, n). x \<noteq> t) (delays s D)"
    using s2(4) rl_frame_dl(2) [OF s'(2)] by (simp add: s1_def delays_def)
  ultimately show ?thesis using s'(3) by blast
qed

lemma osRtxThreadWaitExit_kinv:
  assumes "kinv s L D W" "t \<in> set D \<or> t \<in> set W" "\<And>a. t \<notin> set (L a)" "d \<Longrightarrow> stable s"
  shows "\<exists>s'. osRtxThreadWaitExit t v d s = Some s' \<and> sched_frame s s'
    \<and> kinv s' (exit_lists s t d L) (remove1 t D) (remove1 t W) \<and> run_next s' = exit_run s t d
    \<and> mem32 s' = (mem32 s)(osRtxThreadRegPtr t s := v)
    \<and> delays s' (remove1 t D) = filter (\<lambda>(x, n). x \<noteq> t) (delays s D)"
  using osRtxThreadWaitExit_kst [OF kinvD(1,2) [OF assms(1)] assms(2-4), where v = v] unfolding kinv_def by blast

section \<open>Entering a wait\<close>

lemma osRtxThreadWaitEnter_fail:
  assumes k: "kinv s L D W" and f: "k_state s \<noteq> osRtxKernelRunning \<or> run_curr s = NULL \<or> L (ready_obj s) = []"
  shows "osRtxThreadWaitEnter st v s = Some (False, s)"
  using f tl_inv_empty [OF kstD(1) [OF kinvD(1) [OF k]] ready_in_objs]
  by (auto simp: osRtxThreadWaitEnter_def Let_def)

text \<open>
  \<open>wait_dl s t v D W s' D' W'\<close>: the thread \<open>t\<close> is queued with the timeout \<open>v\<close>.
\<close>

definition wait_dl :: "rtx \<Rightarrow> addr \<Rightarrow> u32 \<Rightarrow> addr list \<Rightarrow> addr list \<Rightarrow> rtx \<Rightarrow> addr list \<Rightarrow> addr list \<Rightarrow> bool" where
  "wait_dl s t v D W s' D' W' \<longleftrightarrow>
     set D' \<union> set W' = insert t (set D \<union> set W) \<and>
     (if v = osWaitForever then W' = W @ [t] \<and> D' = D \<and> delays s' D' = delays s D
      else W' = W \<and> delays s' D' = ins_after (\<lambda>(x, n). n \<le> unat v) (t, unat v) (delays s D))"

lemma osRtxThreadDelayInsert_dl:
  assumes inv: "dl_inv s D W" and t: "t \<noteq> NULL" "t \<notin> set D" "t \<notin> set W" and v: "v \<noteq> 0"
  shows "\<exists>s' D' W'. osRtxThreadDelayInsert t v s = Some s' \<and> dl_same s s' \<and> dl_inv s' D' W' \<and> wait_dl s t v D W s' D' W'"
proof (cases "v = osWaitForever")
  case True
  obtain s' where "osRtxThreadDelayInsert t v s = Some s'" "dl_same s s'" "dl_inv s' D (W @ [t])" "delays s' D = delays s D"
    using osRtxThreadDelayInsert_forever [OF inv t] True by blast
  then show ?thesis using True unfolding wait_dl_def by (intro exI [of _ s'] exI [of _ D] exI [of _ "W @ [t]"]) simp
next
  case False
  obtain s' D' where "osRtxThreadDelayInsert t v s = Some s'" "dl_same s s'" "dl_inv s' D' W" "set D' = insert t (set D)"
    "delays s' D' = ins_after (\<lambda>(x, n). n \<le> unat v) (t, unat v) (delays s D)"
    using osRtxThreadDelayInsert_delay [OF inv t False v] by blast
  moreover from this have "wait_dl s t v D W s' D' W" using False by (simp add: wait_dl_def)
  ultimately show ?thesis by blast
qed

lemma part_ok_wait:
  assumes p: "part_ok s L B {}" and r: "r = run_next s" "r \<noteq> NULL" and c: "c \<in> set (L (ready_obj s))"
    and d: "set (L' (ready_obj s)) = set (L (ready_obj s)) - {c}" "\<And>ob. ob \<noteq> ready_obj s \<Longrightarrow> L' ob = L ob"
    and R: "set (L (ready_obj s)) \<subseteq> thrs s" and st: "is_blocked st"
    and s': "o_state s' = (o_state s)(r := st, c := osRtxThreadRunning)" "thrs s' = thrs s" "run_next s' = c"
      "ready_obj s' = ready_obj s"
  shows "part_ok s' L' (insert r B) {}"
proof (rule part_okI, unfold s' d(1))
  note P = part_okD [OF p]
  have r': "r \<in> thrs s" "r \<notin> B" "r \<notin> set (L (ready_obj s))" using P(6) r by auto
  have c': "c \<noteq> r" "c \<in> thrs s" "c \<notin> B" using r' c P(4) [OF c] R by auto
  show "t \<in> thrs s \<and> t \<notin> {} \<and> is_blocked (((o_state s)(r := st, c := osRtxThreadRunning)) t)" if "t \<in> insert r B" for t
    using P(1,8) [of t] that r' c' st by auto
  show "t \<notin> insert r B \<and> t \<notin> {} \<and> ((o_state s)(r := st, c := osRtxThreadRunning)) t = osRtxThreadReady"
    if "t \<in> set (L (ready_obj s)) - {c}" for t using P(4,7) [of t] that r' R by auto
  show "t \<in> insert r B \<or> t \<in> {}" if "ob \<noteq> ready_obj s" "t \<in> set (L' ob)" for ob t
    using P(5) [of ob t] that d(2) by auto
  show "c \<in> thrs s \<and> c \<notin> insert r B \<and> c \<notin> {} \<and> c \<notin> set (L (ready_obj s)) - {c}" using c' by auto
  show "t = c \<and> ((o_state s)(r := st, c := osRtxThreadRunning)) t = osRtxThreadRunning"
    if "t \<in> thrs s" "t \<notin> {}" "t \<notin> insert r B" "t \<notin> set (L (ready_obj s)) - {c}" for t
    using P(9) [of t] that r by auto
qed simp

lemma osRtxThreadWaitEnter_kinv:
  assumes k: "kinv s L D W" and stb: "stable s" and run: "k_state s = osRtxKernelRunning" "run_curr s = r" "r \<noteq> NULL"
    and L: "L (ready_obj s) = c # ts" and st: "is_blocked st" and v: "v \<noteq> 0"
  shows "\<exists>s' D' W'. osRtxThreadWaitEnter st v s = Some (True, s') \<and> sched_frame s s' \<and> run_next s' = c
    \<and> kinv s' (L(ready_obj s := ts)) D' W' \<and> wait_dl s r v D W s' D' W' \<and> o_state s' r = st
    \<and> prio_ok s' (L(ready_obj s := ts)) \<and> mem32 s' = mem32 s"
proof -
  note K = kinvD [OF k]
  note KS = kstD [OF K(1)]
  have r: "r = run_next s" using stb run by (simp add: stable_def)
  have rt: "r \<in> thrs s" "r \<notin> set D" "r \<notin> set W" "r \<notin> set (L (ready_obj s))"
    using part_okD(6) [OF KS(2)] r run(3) by auto
  have ct: "c \<in> thrs s" using kst_list_sub [OF K(1), of "ready_obj s"] L by simp
  have cr: "c \<noteq> r" using rt L by auto
  have rn: "ready_obj s \<noteq> NULL" "r \<noteq> ready_obj s"
    using tl_invD(8,10) [OF KS(1) ready_in_objs] rt by auto
  define s1 where "s1 = s\<lparr>o_state := (o_state s)(r := st)\<rparr>"
  have "dl_inv s1 D W" using K(2) by (simp add: s1_def dl_inv_def)
  from osRtxThreadDelayInsert_dl [OF this run(3) rt(2,3) v] obtain s2 D' W' where
    s2: "osRtxThreadDelayInsert r v s1 = Some s2" "dl_same s1 s2" "dl_inv s2 D' W'" "wait_dl s1 r v D W s2 D' W'" by blast
  note S2 = dl_sameD [OF s2(2)]
  have ro2: "ready_obj s2 = ready_obj s" using S2 by (simp add: s1_def)
  have inv2: "tl_inv (thread_next s2) (thread_prev s2) (objs s) (thrs s) L" using KS(1) S2 by (simp add: s1_def)
  from osRtxThreadListGet_Cons [OF inv2 ready_in_objs L] obtain nx pv where
    get: "osRtxThreadListGet (ready_obj s) s2 = Some (c, s2\<lparr>thread_next := nx, thread_prev := pv\<rparr>)"
    and same: "tl_same (objs s) (thrs s) s2 nx pv"
    and inv: "tl_inv nx pv (objs s) (thrs s) (L(ready_obj s := ts))" by blast
  define s' where "s' = s2\<lparr>thread_next := nx, thread_prev := pv, o_state := (o_state s)(r := st, c := osRtxThreadRunning), run_next := c\<rparr>"
  obtain dn dp d dl wl where e2: "s2 = s1\<lparr>delay_next := dn, delay_prev := dp, t_delay := d, delay_list := dl, wait_list := wl\<rparr>"
    using s2(2) unfolding dl_same_def by blast
  have e': "s' = s\<lparr>thread_next := nx, thread_prev := pv, delay_next := dn, delay_prev := dp, t_delay := d,
     delay_list := dl, wait_list := wl, o_state := (o_state s)(r := st, c := osRtxThreadRunning), mem32 := mem32 s, run_next := c\<rparr>"
    by (simp add: s'_def e2 s1_def)
  have th: "thrs s' = thrs s"
    by (rule thrs_upd2 [where c = r and d = c and st = st and st' = osRtxThreadRunning])
      (use rt ct is_blocked_not_terminated [OF st] in \<open>simp_all add: e'\<close>)
  have ob: "objs s' = objs s" by (rule objs_cong) (simp_all add: e')
  have stk: "stacks_ok s'" using KS(4) stacks_ok_cong [of s' s] th by (simp add: e')
  then have chk: "osRtxThreadStackCheck s' = Some s'"
    by (rule osRtxThreadStackCheck_ok) (use rt(1) run(2) in \<open>simp add: th, simp add: e'\<close>)
  have hd: "thread_next s (ready_obj s) \<noteq> NULL" using tl_inv_empty [OF KS(1) ready_in_objs] L by simp
  have "osRtxThreadSwitch c (s2\<lparr>thread_next := nx, thread_prev := pv\<rparr>) = Some s'"
    using in_thrs [OF ct] chk by (simp add: osRtxThreadSwitch_def s'_def S2 s1_def)
  then have op: "osRtxThreadWaitEnter st v s = Some (True, s')"
    using run hd s2(1) get ro2 by (simp add: osRtxThreadWaitEnter_def s1_def)
  have B: "set D' \<union> set W' = insert r (set D \<union> set W)" using s2(4) by (simp add: wait_dl_def)
  have "part_ok s' (L(ready_obj s := ts)) (insert r (set D \<union> set W)) {}"
    by (rule part_ok_wait [OF KS(2) r run(3), where c = c and st = st])
      (use L tl_invD(2) [OF KS(1), of "ready_obj s"] kst_list_sub [OF K(1), of "ready_obj s"] st th in \<open>auto simp: e'\<close>)
  moreover have pr: "prio_sorted (t_priority s) ((L(ready_obj s := ts)) ob)" for ob
    using KS(3) [of ob] KS(3) [of "ready_obj s"] L by (simp add: prio_sorted_Cons)
  ultimately have "kst s' (L(ready_obj s := ts)) (set D' \<union> set W') {}"
    using inv KS(5) stk unfolding kst_def ob th B by (simp add: e')
  moreover have "dl_inv s' D' W'" using s2(3) by (simp add: s'_def dl_inv_def)
  ultimately have ki: "kinv s' (L(ready_obj s := ts)) D' W'" by (simp add: kinv_def)
  have "tl_same (objs s) (thrs s) s nx pv" using same S2 by (simp add: tl_same_def s1_def)
  moreover have "\<forall>x. x \<notin> thrs s \<longrightarrow> ((o_state s)(r := st, c := osRtxThreadRunning)) x = o_state s x"
    using rt(1) ct by auto
  ultimately have fr: "sched_frame s s'"
    unfolding sched_frame_def using e' th by blast
  have "delays s1 D = delays s D" "delays s' D' = delays s2 D'" by (simp_all add: delays_def s'_def s1_def)
  then have "wait_dl s r v D W s' D' W' = wait_dl s1 r v D W s2 D' W'" unfolding wait_dl_def by (simp only: )
  then have "wait_dl s r v D W s' D' W'" using s2(4) by simp
  moreover have "prio_ok s' (L(ready_obj s := ts))"
    using KS(3) [of "ready_obj s"] L by (auto simp: prio_ok_def e' prio_sorted_Cons)
  moreover have "run_next s' = c" "o_state s' r = st" "mem32 s' = mem32 s" using cr by (simp_all add: e')
  ultimately show ?thesis using op fr ki by blast
qed

section \<open>The delay tick\<close>

text \<open>A thread taken out of whatever list it is in, and made ready.\<close>

definition unlist :: "addr \<Rightarrow> (addr \<Rightarrow> addr list) \<Rightarrow> addr \<Rightarrow> addr list" where
  "unlist t L = (\<lambda>ob. remove1 t (L ob))"

definition wake :: "rtx \<Rightarrow> addr \<Rightarrow> (addr \<Rightarrow> addr list) \<Rightarrow> addr \<Rightarrow> addr list" where
  "wake s t L = ready_put s t (unlist t L)"

lemma osRtxThreadListRemove_unlist:
  assumes inv: "tl_inv (thread_next s) (thread_prev s) obs T L" and t: "t \<in> T"
  shows "\<exists>nx pv. osRtxThreadListRemove t s = Some (s\<lparr>thread_next := nx, thread_prev := pv\<rparr>)
    \<and> tl_same obs T s nx pv \<and> tl_inv nx pv obs T (unlist t L)"
proof (cases "\<exists>ob. t \<in> set (L ob)")
  case True
  then obtain ob where ob: "t \<in> set (L ob)" by blast
  have "L(ob := remove1 t (L ob)) = unlist t L"
    using tl_invD(4) [OF inv ob] by (auto simp: unlist_def fun_eq_iff intro: remove1_idem [symmetric])
  then show ?thesis using osRtxThreadListRemove_tl [OF inv ob] by simp
next
  case False
  then have "unlist t L = L" by (auto simp: unlist_def fun_eq_iff intro: remove1_idem)
  moreover have "osRtxThreadListRemove t s = Some s" by (rule osRtxThreadListRemove_none [OF inv t]) (use False in blast)
  moreover have "s = s\<lparr>thread_next := thread_next s, thread_prev := thread_prev s\<rparr>" by simp
  ultimately show ?thesis using inv
    by (intro exI [of _ "thread_next s"] exI [of _ "thread_prev s"]) (simp add: tl_same_def)
qed

lemma part_ok_unlist:
  assumes "part_ok s L B C" "c \<in> B \<or> c \<in> C"
  shows "part_ok s (unlist c L) B C"
proof -
  have "c \<notin> set (L (ready_obj s))" using part_okD(4) [OF assms(1)] assms(2) by blast
  then have e: "unlist c L (ready_obj s) = L (ready_obj s)" by (simp add: unlist_def remove1_idem)
  have sub: "set (unlist c L ob) \<subseteq> set (L ob)" for ob by (simp add: unlist_def set_remove1_subset)
  have "\<forall>ob. ob \<noteq> ready_obj s \<longrightarrow> set (unlist c L ob) \<subseteq> B \<union> C"
    using assms(1) sub unfolding part_ok_def by (meson subset_trans)
  then show ?thesis using assms(1) unfolding part_ok_def e by simp
qed

lemma unlist_kst:
  assumes k: "kst s L B C" and c: "c \<in> B \<or> c \<in> C"
  shows "\<exists>s'. osRtxThreadListRemove c s = Some s' \<and> rl_frame s s' \<and> run_next s' = run_next s \<and> kst s' (unlist c L) B C
    \<and> o_state s' = o_state s"
proof -
  note K = kstD [OF k]
  have ct: "c \<in> thrs s" using part_okD(1,2) [OF K(2)] c by blast
  obtain nx pv where rm: "osRtxThreadListRemove c s = Some (s\<lparr>thread_next := nx, thread_prev := pv\<rparr>)"
    and same: "tl_same (objs s) (thrs s) s nx pv" and inv: "tl_inv nx pv (objs s) (thrs s) (unlist c L)"
    using osRtxThreadListRemove_unlist [OF K(1) ct] by blast
  let ?s' = "s\<lparr>thread_next := nx, thread_prev := pv\<rparr>"
  have th: "thrs ?s' = thrs s" "objs ?s' = objs s" by (simp_all add: thrs_def objs_def)
  have "part_ok ?s' (unlist c L) B C"
    using part_ok_unlist [OF K(2) c] part_ok_cong [of ?s' s] th by simp
  moreover have "prio_sorted (t_priority s) (unlist c L ob)" for ob
    using K(3) by (simp add: unlist_def prio_sorted_remove1)
  moreover have "stacks_ok ?s'" using K(4) stacks_ok_cong [of ?s' s] th by simp
  ultimately have "kst ?s' (unlist c L) B C" using inv K(5) unfolding kst_def th by simp
  moreover have "rl_frame s ?s'"
    by (rule rl_frameI [where st = "o_state s" and r = "run_next s", OF _ same]) (use th in simp_all)
  ultimately show ?thesis using rm by auto
qed

lemma rl_frame_trans: 
  assumes a: "rl_frame s s'" and b: "rl_frame s' s''"
  shows "rl_frame s s''"
proof -
  note F = sched_frame_out [OF sched_frame_trans [OF rl_frame_sched [OF a] rl_frame_sched [OF b]]]
  obtain nx pv st r where e: "s' = s\<lparr>thread_next := nx, thread_prev := pv, o_state := st, run_next := r\<rparr>"
    using a unfolding rl_frame_def by blast
  obtain nx pv st r where e': "s'' = s'\<lparr>thread_next := nx, thread_prev := pv, o_state := st, run_next := r\<rparr>"
    using b unfolding rl_frame_def by blast
  have e'': "s'' = s\<lparr>o_state := st, thread_next := nx, thread_prev := pv, run_next := r\<rparr>" unfolding e' unfolding e by simp
  show ?thesis
    by (rule rl_frameI [OF e'']) (use F in \<open>auto simp: tl_same_def e''\<close>)
qed

lemma ready_put_rl: "rl_frame s s' \<Longrightarrow> ready_put s' = ready_put s"
  by (auto simp: ready_put_def fun_eq_iff rl_frameD)

lemma wake_rl: "rl_frame s s' \<Longrightarrow> wake s' = wake s"
  by (auto simp: wake_def fun_eq_iff ready_put_rl)

lemma wake_kst:
  assumes k: "kst s L B C" and c: "c \<in> C"
  shows "\<exists>s1 s'. osRtxThreadListRemove c s = Some s1 \<and> osRtxThreadReadyPut c s1 = Some s' \<and> rl_frame s s'
    \<and> run_next s' = run_next s \<and> kst s' (wake s c L) B (C - {c})"
proof -
  obtain s1 where s1: "osRtxThreadListRemove c s = Some s1" "rl_frame s s1" "run_next s1 = run_next s"
    "kst s1 (unlist c L) B C" using unlist_kst [OF k] c by blast
  have "c \<notin> set (unlist c L a)" for a using tl_invD(2) [OF kstD(1) [OF k], of a] by (simp add: unlist_def)
  from osRtxThreadReadyPut_rl [OF s1(4) c this] obtain s' where
    s': "osRtxThreadReadyPut c s1 = Some s'" "rl_frame s1 s'" "run_next s' = run_next s1"
      "kst s' (ready_put s1 c (unlist c L)) B (C - {c})" by blast
  show ?thesis using s1 s' rl_frame_trans [OF s1(2) s'(2)] ready_put_rl [OF s1(2)] by (auto simp: wake_def)
qed

lemma delay_tick_loop_kst:
  assumes "kst s L B (set (t # zs))" "distinct (t # zs)"
    and "dseg (delay_next s) dp p t (t # zs @ rest)" "\<And>z. z \<in> set zs \<Longrightarrow> t_delay s z = 0"
    and "rest \<noteq> [] \<Longrightarrow> t_delay s (hd rest) \<noteq> 0"
  shows "\<exists>s'. delay_tick_loop t s = Some (hd0 rest, s') \<and> rl_frame s s' \<and> run_next s' = run_next s
    \<and> kst s' (fold (wake s) (t # zs) L) B {}"
  using assms
proof (induction zs arbitrary: s L t p)
  case Nil
  obtain s1 s' where s': "osRtxThreadListRemove t s = Some s1" "osRtxThreadReadyPut t s1 = Some s'" "rl_frame s s'"
    "run_next s' = run_next s" "kst s' (wake s t L) B {}" using wake_kst [OF Nil.prems(1), of t] by auto
  have "delay_next s t = hd0 rest" "NULL \<notin> set rest"
    using Nil.prems(3) by (auto dest: dseg_root dseg_nonnull)
  moreover from this have "hd0 rest \<noteq> NULL \<Longrightarrow> t_delay s (hd0 rest) \<noteq> 0"
    using Nil.prems(5) by (cases rest) auto
  ultimately show ?case using s' rl_frameD [OF s'(3)]
    by (auto simp: delay_tick_loop.simps [of t s] Let_def)
next
  case (Cons z zs)
  obtain s1 s' where s': "osRtxThreadListRemove t s = Some s1" "osRtxThreadReadyPut t s1 = Some s'" "rl_frame s s'"
    "run_next s' = run_next s" "kst s' (wake s t L) B (set (t # z # zs) - {t})" using wake_kst [OF Cons.prems(1), of t] by auto
  have C: "set (t # z # zs) - {t} = set (z # zs)" using Cons.prems(2) by auto
  have nz: "delay_next s t = z" "z \<noteq> NULL" using Cons.prems(3) by auto
  note F = rl_frameD [OF s'(3)]
  have "\<exists>s''. delay_tick_loop z s' = Some (hd0 rest, s'') \<and> rl_frame s' s'' \<and> run_next s'' = run_next s'
    \<and> kst s'' (fold (wake s') (z # zs) (wake s t L)) B {}"
    by (rule Cons.IH [where p = t]) (use s'(5) C Cons.prems nz F in auto)
  then obtain s'' where s'': "delay_tick_loop z s' = Some (hd0 rest, s'')" "rl_frame s' s''" "run_next s'' = run_next s'"
    "kst s'' (fold (wake s') (z # zs) (wake s t L)) B {}" by blast
  have "delay_tick_loop t s = delay_tick_loop z s'"
    using s'(1,2) nz F Cons.prems(4) [of z] by (simp add: delay_tick_loop.simps [of t s])
  then show ?case
    using s''  s'(4) rl_frame_trans [OF s'(3) s''(2)] wake_rl [OF s'(3)] by auto
qed

text \<open>The delays after one tick, and the threads that wake up.\<close>

definition tick_delays :: "(addr \<times> nat) list \<Rightarrow> (addr \<times> nat) list" where
  "tick_delays xs = filter (\<lambda>(x, n). n \<noteq> 0) (map (map_prod id (\<lambda>n. n - 1)) xs)"

definition tick_woken :: "(addr \<times> nat) list \<Rightarrow> addr list" where
  "tick_woken xs = map fst (filter (\<lambda>(x, n). n = 1) xs)"

lemma part_ok_hand:
  assumes "part_ok s L (Z \<union> B) {}" "Z \<inter> B = {}" "set (L (ready_obj s)) \<subseteq> thrs s"
  shows "part_ok s L B Z"
proof (rule part_okI)
  note P = part_okD [OF assms(1)]
  show "t \<in> thrs s \<and> t \<notin> Z \<and> is_blocked (o_state s t)" if "t \<in> B" for t using P(1,8) [of t] that assms(2) by auto
  show "t \<in> thrs s" if "t \<in> Z" for t using P(1) that by blast
  show "t \<in> B \<or> t \<in> Z" if "ob \<noteq> ready_obj s" "t \<in> set (L ob)" for ob t using P(5) [OF that] by blast
  show "run_next s \<in> thrs s \<and> run_next s \<notin> B \<and> run_next s \<notin> Z \<and> run_next s \<notin> set (L (ready_obj s))"
    if "run_next s \<noteq> NULL" using P(6) [OF that] by blast
  show "t = run_next s \<and> o_state s t = osRtxThreadRunning"
    if "t \<in> thrs s" "t \<notin> Z" "t \<notin> B" "t \<notin> set (L (ready_obj s))" for t using P(9) [of t] that by blast
  show "t \<notin> B \<and> t \<notin> Z \<and> o_state s t = osRtxThreadReady" if "t \<in> set (L (ready_obj s))" for t
    using P(4,7) [of t] that assms(3) by auto
qed

lemma dseg_suffix: "dseg nx pv p c (xs @ ys) \<Longrightarrow> dseg nx pv (last (p # xs)) (hd0 ys) ys"
proof (induction xs arbitrary: p c)
  case Nil
  then show ?case by (auto dest: dseg_root)
qed auto

lemma dseg_new_head:
  assumes "dseg nx pv p c (y # zs)" "y \<notin> set zs"
  shows "dseg nx (pv(y := q)) q c (y # zs)"
proof -
  have "dseg nx (pv(y := q)) a b zs = dseg nx pv a b zs" for a b
    by (rule dseg_frame) (use assms(2) in auto)
  then show ?thesis using assms by auto
qed

lemma tick_delays_woken:
  assumes "\<And>x n. (x, n) \<in> set xs \<Longrightarrow> n \<noteq> 0"
  shows "tick_woken xs = map fst (filter (\<lambda>(x, n). n = 0) (map (map_prod id (\<lambda>n. n - 1)) xs))"
  using assms
proof (induction xs)
  case (Cons p xs)
  obtain x n where p: "p = (x, n)" by (cases p)
  have "n \<noteq> 0" using Cons.prems [of x n] p by simp
  moreover have "tick_woken xs = map fst (filter (\<lambda>(x, n). n = 0) (map (map_prod id (\<lambda>n. n - 1)) xs))"
    using Cons.prems by (intro Cons.IH) auto
  ultimately show ?case by (auto simp: tick_woken_def p id_def)
qed (simp add: tick_woken_def)

lemma osRtxThreadDelayTick_kinv:
  assumes k: "kinv s L D W"
  shows "\<exists>s' D'. osRtxThreadDelayTick s = Some s' \<and> sched_frame s s' \<and> run_next s' = run_next s
    \<and> kinv s' (fold (wake s) (tick_woken (delays s D)) L) D' W \<and> delays s' D' = tick_delays (delays s D)
    \<and> mem32 s' = mem32 s"
proof (cases D)
  case Nil
  then have "delay_list s = NULL" using kinvD(2) [OF k] by (simp add: dl_inv_def)
  then have "osRtxThreadDelayTick s = Some s" by (simp add: osRtxThreadDelayTick_def)
  then show ?thesis using k sched_frame_refl Nil
    by (auto simp: delays_def tick_delays_def tick_woken_def)
next
  case (Cons t ts)
  note K = kinvD [OF k]
  note I = K(2) [unfolded dl_inv_def]
  have t0: "t_delay s t \<noteq> 0" and dl: "delay_list s = t" "t \<noteq> NULL" and dist: "distinct D" using I Cons by auto
  define s1 where "s1 = s\<lparr>t_delay := (t_delay s)(t := t_delay s t - 1)\<rparr>"
  have d1: "delays s1 D = map (map_prod id (\<lambda>n. n - 1)) (delays s D)"
    unfolding delays_def Cons by (rule delta_tick_abs) (use dist Cons t0 in \<open>auto simp: s1_def\<close>)
  have same1: "dl_same s s1" by (rule dl_sameI2) (simp add: s1_def)
  have pos: "n \<noteq> 0" if "(x, n) \<in> set (delays s D)" for x n
    using that delta_abs_ge [of x n "t_delay s" "unat (t_delay s t)" ts] t0 unat_eq_0 [of "t_delay s t"]
    by (auto simp: delays_def Cons)
  have woken: "tick_woken (delays s D) = takeWhile (\<lambda>t. t_delay s1 t = 0) D"
    using tick_delays_woken [of "delays s D", OF pos] delta_zeros(1) [of "t_delay s1" D, OF refl] d1
    unfolding delays_def by simp
  let ?rest = "dropWhile (\<lambda>t. t_delay s1 t = 0) D"
  have rest: "delta_abs (t_delay s1) 0 ?rest = tick_delays (delays s D)"
    unfolding tick_delays_def using delta_zeros(2) [of "t_delay s1" D] d1 by (simp add: delays_def)
  have ds1: "dseg (delay_next s1) (delay_prev s1) NULL (delay_list s1) D"
    "dseg (delay_next s1) (delay_prev s1) NULL (wait_list s1) W" using I by (simp_all add: s1_def)
  have sum1: "delta_sum (t_delay s1) D \<le> delta_sum (t_delay s) D"
  proof -
    have "delta_sum (t_delay s1) ts = delta_sum (t_delay s) ts"
      by (rule delta_sum_cong) (use dist Cons in \<open>auto simp: s1_def\<close>)
    then show ?thesis using t0 by (simp add: Cons s1_def unat_dec)
  qed
  have W1: "\<forall>x\<in>set W. t_delay s1 x = osWaitForever" using I Cons by (auto simp: s1_def)
  have k1: "kst s1 L (set D \<union> set W) {}" using K(1) kst_dl [OF same1] by simp
  show ?thesis
  proof (cases "t_delay s1 t = 0")
    case False
    then have "osRtxThreadDelayTick s = Some s1" using dl by (simp add: osRtxThreadDelayTick_def s1_def)
    moreover have "dl_inv s1 D W" using ds1 sum1 W1 False I Cons unfolding dl_inv_def by auto
    moreover have "tick_woken (delays s D) = []" "delays s1 D = tick_delays (delays s D)"
      using woken rest False Cons by (simp_all add: delays_def)
    ultimately show ?thesis using sched_frame_dl [OF same1] k1 dl_sameD [OF same1]
      by (intro exI [of _ s1] exI [of _ D]) (simp add: kinv_def)
  next
    case True
    then obtain zs where z: "takeWhile (\<lambda>t. t_delay s1 t = 0) D = t # zs" by (simp add: Cons)
    have D: "D = (t # zs) @ ?rest" using takeWhile_dropWhile_id [of "\<lambda>t. t_delay s1 t = 0" D] z by simp
    have dist2: "distinct ((t # zs) @ ?rest)" using dist D by simp
    have zero: "t_delay s1 x = 0" if "x \<in> set zs" for x
      using set_takeWhileD [of x "\<lambda>t. t_delay s1 t = 0" D] that z by simp
    have nz: "?rest \<noteq> [] \<Longrightarrow> t_delay s1 (hd ?rest) \<noteq> 0" by (rule hd_dropWhile)
    let ?B = "set ?rest \<union> set W"
    have setD: "set D = set (t # zs) \<union> set ?rest" using arg_cong [OF D, of set] by simp
    have disj: "set (t # zs) \<inter> ?B = {}" using dist2 K(3) setD by auto
    have un: "set D \<union> set W = set (t # zs) \<union> ?B" using setD by auto
    have "part_ok s1 L ?B (set (t # zs))"
      by (rule part_ok_hand) (use kstD(2) [OF k1] un disj kst_list_sub [OF k1] in simp_all)
    then have k2: "kst s1 L ?B (set (t # zs))" using k1 unfolding kst_def by simp
    have "dseg (delay_next s1) (delay_prev s1) NULL t (t # zs @ ?rest)" using ds1(1) D dl(1) by (simp add: s1_def)
    from delay_tick_loop_kst [OF k2 _ this zero nz] dist2 obtain s2 where
      s2: "delay_tick_loop t s1 = Some (hd0 ?rest, s2)" "rl_frame s1 s2" "run_next s2 = run_next s1"
        "kst s2 (fold (wake s1) (t # zs) L) ?B {}" by auto
    note F = rl_frameD [OF s2(2)]
    define s3 where "s3 = (if hd0 ?rest \<noteq> NULL then s2\<lparr>delay_prev := (delay_prev s2)(hd0 ?rest := NULL)\<rparr> else s2)
      \<lparr>delay_list := hd0 ?rest\<rparr>"
    have op: "osRtxThreadDelayTick s = Some s3"
      using dl True s2(1) by (simp add: osRtxThreadDelayTick_def s3_def s1_def [symmetric] Let_def)
    have same3: "dl_same s2 s3" by (rule dl_sameI2) (simp add: s3_def)
    have nn: "NULL \<notin> set ?rest" using ds1(1) dseg_nonnull setD by blast
    have dn3: "delay_next s3 = delay_next s1" "t_delay s3 = t_delay s1" "wait_list s3 = wait_list s1" "delay_list s3 = hd0 ?rest"
      using F by (simp_all add: s3_def)
    have "dseg (delay_next s3) (delay_prev s3) NULL (delay_list s3) ?rest"
    proof (cases ?rest)
      case Nil
      show ?thesis unfolding dn3 Nil by simp
    next
      case (Cons y ys)
      have "dseg (delay_next s1) (delay_prev s1) (last (NULL # t # zs)) (hd0 ?rest) ?rest"
        by (rule dseg_suffix) (use ds1(1) D in simp)
      then have "dseg (delay_next s1) ((delay_prev s1)(y := NULL)) NULL (hd0 ?rest) ?rest"
        unfolding Cons by (rule dseg_new_head) (use dist2 Cons in auto)
      then show ?thesis using dn3 nn F Cons by (simp add: s3_def)
    qed
    moreover have "dseg (delay_next s3) (delay_prev s3) NULL (wait_list s3) W"
    proof -
      have h: "hd0 ?rest \<noteq> NULL \<Longrightarrow> hd0 ?rest \<in> set ?rest" by (metis hd0_in_set hd0_simps(1))
      have "delay_prev s3 x = delay_prev s1 x" if "x \<in> set W" for x
      proof (cases "hd0 ?rest = NULL")
        case False
        then have "hd0 ?rest \<in> set D" using h setD by blast
        then show ?thesis using K(3) that F by (auto simp: s3_def)
      qed (simp add: s3_def F)
      then show ?thesis using ds1(2) dn3 dseg_frame [of W "delay_next s3" "delay_next s1" "delay_prev s3" "delay_prev s1"] by simp
    qed
    moreover have "distinct (?rest @ W)" using I dist2 setD by auto
    moreover have "delta_sum (t_delay s3) ?rest < unat osWaitForever"
      using sum1 I arg_cong [OF D, of "delta_sum (t_delay s1)"] dn3 by simp
    ultimately have "dl_inv s3 ?rest W" using W1 nz dn3 unfolding dl_inv_def by simp
    moreover have "wake s1 = wake s" by (auto simp: wake_def ready_put_def s1_def fun_eq_iff)
    ultimately have ki: "kinv s3 (fold (wake s) (tick_woken (delays s D)) L) ?rest W"
      using s2(4) kst_dl [OF same3] woken z by (simp add: kinv_def)
    have fr: "sched_frame s s3"
      using sched_frame_trans [OF sched_frame_trans [OF sched_frame_dl [OF same1] rl_frame_sched [OF s2(2)]] sched_frame_dl [OF same3]] .
    have "delays s3 ?rest = tick_delays (delays s D)" using rest dn3 by (simp add: delays_def)
    moreover have "run_next s3 = run_next s" "mem32 s3 = mem32 s"
      using s2(3) F dl_sameD [OF same3] dl_sameD [OF same1] by simp_all
    ultimately show ?thesis using op ki fr by blast
  qed
qed

end
