(* ===== verification/WaitObj.thy ===== *)
theory WaitObj
  imports Wait
begin

text \<open>
  What the kernel objects do with their waiting threads: waking the first one, waking all
  of them (the loop of every \<open>Delete\<close> service), and queueing the running thread.  The loop is
  verified once, in the locale \<open>drain_loop\<close>, for any object whose waiters can be taken off
  one by one, and interpreted on the scheduler's operations.
\<close>

section \<open>Operations\<close>

definition wake_first :: "addr \<Rightarrow> u32 \<Rightarrow> bool \<Rightarrow> rtx \<Rightarrow> (addr \<times> rtx) option" where
  "wake_first object ret_val dispatch s =
     do {
       (thread, s) \<leftarrow> osRtxThreadListGet object s;
       s \<leftarrow> osRtxThreadWaitExit thread ret_val dispatch s;
       Some (thread, s)
     }"

text \<open>The \<open>do ... while\<close> loop of the \<open>Delete\<close> services, and the dispatch after it.\<close>

partial_function (option) wake_all_loop :: "addr \<Rightarrow> u32 \<Rightarrow> rtx \<Rightarrow> rtx option" where
  "wake_all_loop object ret_val s =
     do {
       (thread, s) \<leftarrow> wake_first object ret_val False s;
       if thread_next s object \<noteq> NULL then wake_all_loop object ret_val s else Some s
     }"

definition wake_all :: "addr \<Rightarrow> u32 \<Rightarrow> rtx \<Rightarrow> rtx option" where
  "wake_all object ret_val s =
     (if thread_next s object \<noteq> NULL then do {
        s \<leftarrow> wake_all_loop object ret_val s;
        osRtxThreadDispatch NULL s
      } else Some s)"

text \<open>
  A wait on an object: \<open>if (osRtxThreadWaitEnter(...)) osRtxThreadListPut(object, running)\<close>.
\<close>

definition wait_on :: "addr \<Rightarrow> u8 \<Rightarrow> u32 \<Rightarrow> rtx \<Rightarrow> (bool \<times> rtx) option" where
  "wait_on object state timeout s =
     do {
       (ok, s) \<leftarrow> osRtxThreadWaitEnter state timeout s;
       if ok then do {
         s \<leftarrow> osRtxThreadListPut object (run_curr s) s;
         Some (True, s)
       } else Some (False, s)
     }"

section \<open>Draining a list of waiters\<close>

text \<open>
  \<open>rel s a\<close>: the concrete state \<open>s\<close> represents the abstract state \<open>a\<close>, whose waiters are
  \<open>waiters a\<close>; \<open>step\<close> wakes the first waiter, which is \<open>awake\<close> on the abstract states.
\<close>

locale drain_loop =
  fixes rel :: "'s \<Rightarrow> 'a \<Rightarrow> bool" and waiters :: "'a \<Rightarrow> 't list" and awake :: "'t \<Rightarrow> 'a \<Rightarrow> 'a"
    and step :: "'s \<Rightarrow> ('t \<times> 's) option" and more :: "'s \<Rightarrow> bool" and loop :: "'s \<Rightarrow> 's option"
  assumes step_awake: "rel s a \<Longrightarrow> waiters a = t # ts \<Longrightarrow>
      \<exists>s'. step s = Some (t, s') \<and> rel s' (awake t a) \<and> waiters (awake t a) = ts"
    and more_iff: "rel s a \<Longrightarrow> more s \<longleftrightarrow> waiters a \<noteq> []"
    and loop_eq: "loop s = do { (t, s) \<leftarrow> step s; if more s then loop s else Some s }"
begin

lemma drain:
  "rel s a \<Longrightarrow> waiters a = t # ts \<Longrightarrow>
   \<exists>s'. loop s = Some s' \<and> rel s' (fold awake (t # ts) a) \<and> waiters (fold awake (t # ts) a) = []"
proof (induction ts arbitrary: s a t)
  case Nil
  obtain s1 where s1: "step s = Some (t, s1)" "rel s1 (awake t a)" "waiters (awake t a) = []"
    using step_awake [OF Nil.prems] by blast
  then have "loop s = Some s1" using more_iff [OF s1(2)] by (subst loop_eq) simp
  then show ?case using s1 by simp
next
  case (Cons u ts)
  obtain s1 where s1: "step s = Some (t, s1)" "rel s1 (awake t a)" "waiters (awake t a) = u # ts"
    using step_awake [OF Cons.prems] by blast
  obtain s' where s': "loop s1 = Some s'" "rel s' (fold awake (u # ts) (awake t a))"
    "waiters (fold awake (u # ts) (awake t a)) = []" using Cons.IH [OF s1(2,3)] by blast
  have "loop s = loop s1" using s1 more_iff [OF s1(2)] by (subst loop_eq) simp
  then show ?case using s' by simp
qed

end

text \<open>
  The running thread \<open>r\<close> waits on \<open>ob\<close> and the first ready thread \<open>c\<close> runs next; or nothing
  happens, when no thread is running or ready.
\<close>

definition wait_lists :: "rtx \<Rightarrow> addr \<Rightarrow> addr \<Rightarrow> (addr \<Rightarrow> addr list) \<Rightarrow> addr \<Rightarrow> addr list" where
  "wait_lists s ob r L = (let L1 = L(ready_obj s := tl (L (ready_obj s))) in L1(ob := prio_put (t_priority s) r (L1 ob)))"

section \<open>Updates of other fields\<close>

text \<open>States that agree on everything the scheduler looks at.\<close>

definition core_eq :: "rtx \<Rightarrow> rtx \<Rightarrow> bool" where
  "core_eq s s' \<longleftrightarrow> thread_next s' = thread_next s \<and> thread_prev s' = thread_prev s \<and> o_id s' = o_id s \<and>
     o_state s' = o_state s \<and> ready_obj s' = ready_obj s \<and> run_next s' = run_next s \<and> run_curr s' = run_curr s \<and>
     k_state s' = k_state s \<and> t_priority s' = t_priority s \<and> t_stack_mem s' = t_stack_mem s \<and> t_sp s' = t_sp s \<and>
     t_stack_frame s' = t_stack_frame s \<and> mem32 s' = mem32 s \<and> delay_next s' = delay_next s \<and>
     delay_prev s' = delay_prev s \<and> t_delay s' = t_delay s \<and> delay_list s' = delay_list s \<and> wait_list s' = wait_list s"

lemma core_eqD:
  assumes "core_eq s s'"
  shows "kinv s' L D W = kinv s L D W" "objs s' = objs s" "thrs s' = thrs s" "stable s' = stable s"
    "prio_ok s' L = prio_ok s L" "exit_lists s' = exit_lists s" "exit_run s' = exit_run s"
    "wait_lists s' = wait_lists s" "ready_obj s' = ready_obj s" "run_curr s' = run_curr s" "run_next s' = run_next s"
    "k_state s' = k_state s" "mem32 s' = mem32 s" "o_state s' = o_state s" "thread_next s' = thread_next s"
    "osRtxThreadRegPtr t s' = osRtxThreadRegPtr t s" "delays s' D = delays s D" "t_priority s' = t_priority s"
    "o_id s' = o_id s"
proof -
  note c = assms [unfolded core_eq_def]
  have "kst s' L B C = kst s L B C" for B C by (rule kst_cong) (use c in simp_all)
  moreover have dl: "dl_inv s' D W = dl_inv s D W" "delays s' D = delays s D"
    by (rule dl_inv_cong; use c in simp)+
  ultimately show "kinv s' L D W = kinv s L D W" "delays s' D = delays s D" by (simp_all add: kinv_def)
  have p: "ready_put s' = ready_put s" "ready_push s' = ready_push s" "preempts s' = preempts s"
    by (intro ext, simp add: ready_put_def ready_push_def preempts_def c)+
  show "exit_lists s' = exit_lists s" "exit_run s' = exit_run s" "wait_lists s' = wait_lists s"
    by (intro ext, simp add: exit_lists_def exit_run_def disp_lists_def disp_run_def p wait_lists_def c)+
  show "objs s' = objs s" "thrs s' = thrs s" "stable s' = stable s" "prio_ok s' L = prio_ok s L"
    "ready_obj s' = ready_obj s" "run_curr s' = run_curr s" "run_next s' = run_next s"
    "k_state s' = k_state s" "mem32 s' = mem32 s" "o_state s' = o_state s" "thread_next s' = thread_next s"
    "osRtxThreadRegPtr t s' = osRtxThreadRegPtr t s" "t_priority s' = t_priority s" "o_id s' = o_id s"
    using c by (simp_all add: objs_def thrs_def stable_def prio_ok_def osRtxThreadRegPtr_def)
qed

section \<open>Waking the first waiter\<close>

lemma sched_frame_eqs:
  assumes "sched_frame s s'"
  shows "ready_put s' = ready_put s" "ready_push s' = ready_push s" "preempts s' = preempts s"
  by (simp_all add: ready_put_def ready_push_def preempts_def fun_eq_iff sched_frameD [OF assms])

lemma kinv_waiters:
  assumes "kinv s L D W" "ob \<noteq> ready_obj s" "t \<in> set (L ob)"
  shows "t \<in> set D \<or> t \<in> set W"
  using part_okD(5) [OF kstD(2) [OF kinvD(1) [OF assms(1)]] assms(2,3)] by auto

lemma kinv_head:
  assumes "kinv s L D W" "ob \<in> objs s"
  shows "thread_next s ob = hd0 (L ob)" "thread_next s ob = NULL \<longleftrightarrow> L ob = []"
  using tl_inv_head [OF kstD(1) [OF kinvD(1) [OF assms(1)]] assms(2)]
    tl_inv_empty [OF kstD(1) [OF kinvD(1) [OF assms(1)]] assms(2)] by simp_all

text \<open>Taking the first waiter off its object keeps the invariant: it is blocked, in no list.\<close>

lemma ListGet_kinv:
  assumes k: "kinv s L D W" and ob: "ob \<in> objs s" "ob \<noteq> ready_obj s" and L: "L ob = t # ts"
  shows "\<exists>s'. osRtxThreadListGet ob s = Some (t, s') \<and> rl_frame s s' \<and> run_next s' = run_next s
    \<and> kinv s' (L(ob := ts)) D W \<and> (\<forall>a. t \<notin> set ((L(ob := ts)) a)) \<and> o_state s' = o_state s"
proof -
  note K = kinvD [OF k]
  note KS = kstD [OF K(1)]
  obtain nx pv where get: "osRtxThreadListGet ob s = Some (t, s\<lparr>thread_next := nx, thread_prev := pv\<rparr>)"
    and same: "tl_same (objs s) (thrs s) s nx pv" and inv: "tl_inv nx pv (objs s) (thrs s) (L(ob := ts))"
    using osRtxThreadListGet_Cons [OF KS(1) ob(1) L] by blast
  let ?s' = "s\<lparr>thread_next := nx, thread_prev := pv\<rparr>"
  have un: "L(ob := ts) = unlist t L"
    using tl_invD(2,4) [OF KS(1)] L by (auto simp: unlist_def fun_eq_iff intro: remove1_idem [symmetric])
  have th: "thrs ?s' = thrs s" "objs ?s' = objs s" by (simp_all add: thrs_def objs_def)
  have "t \<in> set D \<union> set W" using kinv_waiters [OF k ob(2), of t] L by simp
  then have "part_ok ?s' (L(ob := ts)) (set D \<union> set W) {}"
    using part_ok_unlist [OF KS(2)] part_ok_cong [of ?s' s] th un by simp
  moreover have "prio_sorted (t_priority s) ((L(ob := ts)) a)" for a
    using KS(3) by (simp add: un unlist_def prio_sorted_remove1)
  moreover have "stacks_ok ?s'" using KS(4) stacks_ok_cong [of ?s' s] th by simp
  ultimately have "kst ?s' (L(ob := ts)) (set D \<union> set W) {}" using inv KS(5) unfolding kst_def th by simp
  moreover have "dl_inv ?s' D W" using K(2) by (simp add: dl_inv_def)
  ultimately have "kinv ?s' (L(ob := ts)) D W" by (simp add: kinv_def)
  moreover have "rl_frame s ?s'"
    by (rule rl_frameI [where st = "o_state s" and r = "run_next s", OF _ same]) (use th in simp_all)
  moreover have "t \<notin> set ((L(ob := ts)) a)" for a by (rule tl_inv_distinct_Cons [OF KS(1) L])
  ultimately show ?thesis using get by auto
qed

lemma wake_first_kinv:
  assumes k: "kinv s L D W" and ob: "ob \<in> objs s" "ob \<noteq> ready_obj s" and L: "L ob = t # ts"
    and st: "d \<Longrightarrow> stable s"
  shows "\<exists>s'. wake_first ob v d s = Some (t, s') \<and> sched_frame s s'
    \<and> kinv s' (exit_lists s t d (L(ob := ts))) (remove1 t D) (remove1 t W) \<and> run_next s' = exit_run s t d
    \<and> mem32 s' = (mem32 s)(osRtxThreadRegPtr t s := v)
    \<and> delays s' (remove1 t D) = filter (\<lambda>(x, n). x \<noteq> t) (delays s D)"
proof -
  obtain s1 where s1: "osRtxThreadListGet ob s = Some (t, s1)" "rl_frame s s1" "run_next s1 = run_next s"
    "kinv s1 (L(ob := ts)) D W" "\<forall>a. t \<notin> set ((L(ob := ts)) a)" using ListGet_kinv [OF k ob L] by blast
  note F = sched_frameD [OF rl_frame_sched [OF s1(2)]]
  have t: "t \<in> set D \<or> t \<in> set W" using kinv_waiters [OF k ob(2), of t] L by simp
  have st1: "d \<Longrightarrow> stable s1" using st s1(3) F by (simp add: stable_def)
  obtain s' where s': "osRtxThreadWaitExit t v d s1 = Some s'" "sched_frame s1 s'"
    "kinv s' (exit_lists s1 t d (L(ob := ts))) (remove1 t D) (remove1 t W)" "run_next s' = exit_run s1 t d"
    "mem32 s' = (mem32 s1)(osRtxThreadRegPtr t s1 := v)"
    "delays s' (remove1 t D) = filter (\<lambda>(x, n). x \<noteq> t) (delays s1 D)"
    using osRtxThreadWaitExit_kinv [OF s1(4) t _ st1] s1(5) by blast
  have e: "exit_lists s1 t d (L(ob := ts)) = exit_lists s t d (L(ob := ts))" "exit_run s1 t d = exit_run s t d"
    "osRtxThreadRegPtr t s1 = osRtxThreadRegPtr t s"
    using s1(3) by (simp_all add: exit_lists_def exit_run_def disp_lists_def disp_run_def preempts_def
        ready_put_def ready_push_def F osRtxThreadRegPtr_def)
  show ?thesis
    using s1(1) s' e sched_frame_trans [OF rl_frame_sched [OF s1(2)] s'(2)] rl_frameD(6) [OF s1(2)]
      rl_frame_dl(2) [OF s1(2)]
    by (simp add: wake_first_def)
qed

section \<open>Waking all waiters\<close>

text \<open>
  The abstract state of the drain: the lists, the delay and wait list, the remaining delays
  and the memory that receives the return values.
\<close>

type_synonym drain_state = "(addr \<Rightarrow> addr list) \<times> addr list \<times> addr list \<times> (addr \<times> nat) list \<times> (addr \<Rightarrow> u32)"

definition drain_rel :: "rtx \<Rightarrow> addr \<Rightarrow> rtx \<Rightarrow> drain_state \<Rightarrow> bool" where
  "drain_rel s0 ob s a = (case a of (L, D, W, X, m) \<Rightarrow> kinv s L D W \<and> sched_frame s0 s \<and> run_next s = run_next s0
     \<and> delays s D = X \<and> mem32 s = m \<and> ob \<in> objs s0 \<and> ob \<noteq> ready_obj s0)"

definition drain_waiters :: "addr \<Rightarrow> drain_state \<Rightarrow> addr list" where
  "drain_waiters ob a = fst a ob"

definition drain_awake :: "rtx \<Rightarrow> addr \<Rightarrow> u32 \<Rightarrow> addr \<Rightarrow> drain_state \<Rightarrow> drain_state" where
  "drain_awake s0 ob v t a = (case a of (L, D, W, X, m) \<Rightarrow>
     (ready_put s0 t (L(ob := tl (L ob))), remove1 t D, remove1 t W, filter (\<lambda>(x, n). x \<noteq> t) X,
      m(osRtxThreadRegPtr t s0 := v)))"

interpretation wake_drain: drain_loop "drain_rel s0 ob" "drain_waiters ob" "drain_awake s0 ob v"
    "wake_first ob v False" "\<lambda>s. thread_next s ob \<noteq> NULL" "wake_all_loop ob v" for s0 ob v
proof
  fix s a t ts
  assume r: "drain_rel s0 ob s a" and w: "drain_waiters ob a = t # ts"
  obtain L D W X m where a: "a = (L, D, W, X, m)" by (cases a)
  note R = r [unfolded a drain_rel_def prod.case]
  then have k: "kinv s L D W" and f: "sched_frame s0 s" and rn: "run_next s = run_next s0" by blast+
  note F = sched_frameD [OF f]
  have ob: "ob \<in> objs s" "ob \<noteq> ready_obj s" using R sched_frame_objs [OF f] F by simp_all
  have L: "L ob = t # ts" using w a by (simp add: drain_waiters_def)
  obtain s' where s': "wake_first ob v False s = Some (t, s')" "sched_frame s s'"
    "kinv s' (exit_lists s t False (L(ob := ts))) (remove1 t D) (remove1 t W)" "run_next s' = exit_run s t False"
    "mem32 s' = (mem32 s)(osRtxThreadRegPtr t s := v)"
    "delays s' (remove1 t D) = filter (\<lambda>(x, n). x \<noteq> t) (delays s D)"
    using wake_first_kinv [OF k ob L, of False v] by blast
  have e: "exit_lists s t False (L(ob := ts)) = ready_put s0 t (L(ob := ts))"
    by (simp add: exit_lists_def ready_put_def F)
  have "drain_rel s0 ob s' (drain_awake s0 ob v t a)"
    using s' R L e rn sched_frame_trans [OF f s'(2)] sched_frame_RegPtr [OF f]
    by (simp add: drain_rel_def drain_awake_def a exit_run_def)
  moreover have "drain_waiters ob (drain_awake s0 ob v t a) = ts"
    using R L by (simp add: drain_waiters_def drain_awake_def a ready_put_def)
  ultimately show "\<exists>s'. wake_first ob v False s = Some (t, s') \<and> drain_rel s0 ob s' (drain_awake s0 ob v t a)
      \<and> drain_waiters ob (drain_awake s0 ob v t a) = ts" using s'(1) by blast
next
  fix s a
  assume "drain_rel s0 ob s a"
  then show "(thread_next s ob \<noteq> NULL) = (drain_waiters ob a \<noteq> [])"
    using kinv_head(2) sched_frame_objs by (auto simp: drain_rel_def drain_waiters_def)
next
  show "wake_all_loop ob v s = do { (t, s) \<leftarrow> wake_first ob v False s;
      if thread_next s ob \<noteq> NULL then wake_all_loop ob v s else Some s }" for s
    by (rule wake_all_loop.simps)
qed

text \<open>The drain in closed form.\<close>

lemma ready_put_upd: "ob \<noteq> ready_obj s \<Longrightarrow> (ready_put s t L)(ob := xs) = ready_put s t (L(ob := xs))"
  by (auto simp: ready_put_def fun_eq_iff)

lemma remove1_filter: "distinct D \<Longrightarrow> remove1 t D = filter (\<lambda>x. x \<noteq> t) D"
  by (simp add: distinct_remove1_removeAll removeAll_filter_not_eq) (metis (no_types) filter_cong)

lemma drain_fold:
  assumes "ob \<noteq> ready_obj s0" "distinct D" "distinct W" "L ob = ts"
  shows "fold (drain_awake s0 ob v) ts (L, D, W, X, m) =
    (fold (ready_put s0) ts (L(ob := [])), filter (\<lambda>x. x \<notin> set ts) D, filter (\<lambda>x. x \<notin> set ts) W,
     filter (\<lambda>(x, n). x \<notin> set ts) X, fold (\<lambda>t m. m(osRtxThreadRegPtr t s0 := v)) ts m)"
  using assms
proof (induction ts arbitrary: L D W X m)
  case Nil
  then have "L(ob := []) = L" by auto
  then show ?case by simp
next
  case (Cons t ts)
  let ?L1 = "ready_put s0 t (L(ob := ts))"
  have l1: "?L1 ob = ts" "?L1(ob := []) = ready_put s0 t (L(ob := []))"
    using Cons.prems(1) by (auto simp: ready_put_def fun_eq_iff)
  have f: "filter (\<lambda>x. x \<notin> set ts) (filter (\<lambda>x. x \<noteq> t) Z) = filter (\<lambda>x. x \<notin> set (t # ts)) Z" for Z
    by (auto intro: filter_cong)
  have g: "filter (\<lambda>(x, n). x \<notin> set ts) (filter (\<lambda>(x, n). x \<noteq> t) Y) = filter (\<lambda>(x, n). x \<notin> set (t # ts)) Y"
    for Y :: "(addr \<times> nat) list" by (auto intro: filter_cong)
  show ?case
    using Cons.IH [of "remove1 t D" "remove1 t W" ?L1] Cons.prems l1 f g
    by (simp add: drain_awake_def remove1_filter del: fun_upd_apply)
qed

definition woken_lists :: "rtx \<Rightarrow> addr \<Rightarrow> (addr \<Rightarrow> addr list) \<Rightarrow> addr \<Rightarrow> addr list" where
  "woken_lists s ob L = fold (ready_put s) (L ob) (L(ob := []))"

lemma wake_all_loop_kinv:
  assumes k: "kinv s L D W" and ob: "ob \<in> objs s" "ob \<noteq> ready_obj s" and ne: "L ob \<noteq> []"
  shows "\<exists>s'. wake_all_loop ob v s = Some s' \<and> sched_frame s s' \<and> run_next s' = run_next s
    \<and> kinv s' (woken_lists s ob L) (filter (\<lambda>x. x \<notin> set (L ob)) D) (filter (\<lambda>x. x \<notin> set (L ob)) W)
    \<and> mem32 s' = fold (\<lambda>t m. m(osRtxThreadRegPtr t s := v)) (L ob) (mem32 s)"
proof -
  obtain t ts where L: "L ob = t # ts" using ne by (cases "L ob") auto
  let ?a = "(L, D, W, delays s D, mem32 s)"
  have r: "drain_rel s ob s ?a" using k ob sched_frame_refl by (simp add: drain_rel_def)
  have w: "drain_waiters ob ?a = t # ts" using L by (simp add: drain_waiters_def)
  obtain s' where "wake_all_loop ob v s = Some s'" "drain_rel s ob s' (fold (drain_awake s ob v) (t # ts) ?a)"
    using wake_drain.drain [OF r w] by blast
  then show ?thesis
    using drain_fold [where L = L and ts = "t # ts" and ob = ob, OF ob(2) kinvD(4,5) [OF k] L] L
    by (auto simp: drain_rel_def woken_lists_def)
qed

lemma wake_all_kinv:
  assumes k: "kinv s L D W" and ob: "ob \<in> objs s" "ob \<noteq> ready_obj s" and st: "stable s"
  shows "\<exists>s' L'. wake_all ob v s = Some s' \<and> sched_frame s s'
    \<and> (L', run_next s') = (if L ob = [] then (L, run_next s) else redisp s (woken_lists s ob L))
    \<and> kinv s' L' (filter (\<lambda>x. x \<notin> set (L ob)) D) (filter (\<lambda>x. x \<notin> set (L ob)) W)
    \<and> mem32 s' = fold (\<lambda>t m. m(osRtxThreadRegPtr t s := v)) (L ob) (mem32 s)
    \<and> (L ob \<noteq> [] \<longrightarrow> k_state s = osRtxKernelRunning \<longrightarrow> prio_ok s' L')"
proof (cases "L ob = []")
  case True
  then show ?thesis using k kinv_head(2) [OF k ob(1)] sched_frame_refl by (auto simp: wake_all_def)
next
  case False
  obtain s1 where s1: "wake_all_loop ob v s = Some s1" "sched_frame s s1" "run_next s1 = run_next s"
    "kinv s1 (woken_lists s ob L) (filter (\<lambda>x. x \<notin> set (L ob)) D) (filter (\<lambda>x. x \<notin> set (L ob)) W)"
    "mem32 s1 = fold (\<lambda>t m. m(osRtxThreadRegPtr t s := v)) (L ob) (mem32 s)"
    using wake_all_loop_kinv [OF k ob False] by blast
  note F = sched_frameD [OF s1(2)]
  have st1: "stable s1" using st s1(3) F by (simp add: stable_def)
  obtain s' L' where s': "osRtxThreadDispatch NULL s1 = Some s'" "rl_frame s1 s'"
    "redisp s1 (woken_lists s ob L) = (L', run_next s')"
    "kst s' L' (set (filter (\<lambda>x. x \<notin> set (L ob)) D) \<union> set (filter (\<lambda>x. x \<notin> set (L ob)) W)) {}"
    using osRtxThreadDispatch_null [OF kinvD(1) [OF s1(4)] st1] by blast
  have "redisp s1 (woken_lists s ob L) = redisp s (woken_lists s ob L)"
    unfolding redisp_def sched_frame_eqs [OF s1(2)] s1(3) F by (rule refl)
  moreover have "kinv s' L' (filter (\<lambda>x. x \<notin> set (L ob)) D) (filter (\<lambda>x. x \<notin> set (L ob)) W)"
    using s'(4) s1(4) rl_frame_dl(1) [OF s'(2)] by (simp add: kinv_def)
  moreover have "prio_ok s' L'" if "k_state s = osRtxKernelRunning"
    by (rule prio_ok_redisp [OF kstD(3) [OF kinvD(1) [OF s1(4)]] st1 _ s'(2,3)]) (use that F in simp)
  ultimately show ?thesis
    using s1 s' False kinv_head(2) [OF k ob(1)] sched_frame_trans [OF s1(2) rl_frame_sched [OF s'(2)]]
      rl_frameD(6) [OF s'(2)]
    by (auto simp: wake_all_def)
qed

section \<open>Queueing the running thread\<close>

lemma ListPut_kinv:
  assumes k: "kinv s L D W" and ob: "ob \<in> objs s" "ob \<noteq> ready_obj s"
    and t: "t \<in> set D \<or> t \<in> set W" "\<And>a. t \<notin> set (L a)"
  shows "\<exists>s'. osRtxThreadListPut ob t s = Some s' \<and> rl_frame s s' \<and> run_next s' = run_next s \<and> o_state s' = o_state s
    \<and> kinv s' (L(ob := prio_put (t_priority s) t (L ob))) D W"
proof -
  note K = kinvD [OF k]
  note KS = kstD [OF K(1)]
  let ?L = "L(ob := prio_put (t_priority s) t (L ob))"
  obtain nx pv where put: "osRtxThreadListPut ob t s = Some (s\<lparr>thread_next := nx, thread_prev := pv\<rparr>)"
    and same: "tl_same (objs s) (thrs s) s nx pv" and inv: "tl_inv nx pv (objs s) (thrs s) ?L"
    using osRtxThreadListPut_tl [OF KS(1) ob(1) K(6) [OF t(1)] t(2)] by blast
  let ?s' = "s\<lparr>thread_next := nx, thread_prev := pv\<rparr>"
  have th: "thrs ?s' = thrs s" "objs ?s' = objs s" by (simp_all add: thrs_def objs_def)
  have "part_ok s ?L (set D \<union> set W) {}"
    using KS(2) t(1) ob(2) unfolding part_ok_def by auto
  then have "part_ok ?s' ?L (set D \<union> set W) {}" using part_ok_cong [of ?s' s] th by simp
  moreover have "prio_sorted (t_priority s) (?L a)" for a using KS(3) by (simp add: prio_sorted_put)
  moreover have "stacks_ok ?s'" using KS(4) stacks_ok_cong [of ?s' s] th by simp
  ultimately have "kst ?s' ?L (set D \<union> set W) {}" using inv KS(5) unfolding kst_def th by simp
  moreover have "dl_inv ?s' D W" using K(2) by (simp add: dl_inv_def)
  ultimately have "kinv ?s' ?L D W" by (simp add: kinv_def)
  moreover have "rl_frame s ?s'"
    by (rule rl_frameI [where st = "o_state s" and r = "run_next s", OF _ same]) (use th in simp_all)
  ultimately show ?thesis using put by auto
qed

lemma wait_on_kinv:
  assumes k: "kinv s L D W" and ob: "ob \<in> objs s" "ob \<noteq> ready_obj s" and stb: "stable s"
    and run: "k_state s = osRtxKernelRunning" "run_curr s = r" "r \<noteq> NULL"
    and L: "L (ready_obj s) \<noteq> []" and st: "is_blocked st" and v: "v \<noteq> 0"
  shows "\<exists>s' D' W'. wait_on ob st v s = Some (True, s') \<and> sched_frame s s' \<and> run_next s' = hd (L (ready_obj s))
    \<and> kinv s' (wait_lists s ob r L) D' W' \<and> wait_dl s r v D W s' D' W' \<and> o_state s' r = st
    \<and> prio_ok s' (wait_lists s ob r L) \<and> mem32 s' = mem32 s"
proof -
  obtain c ts where c: "L (ready_obj s) = c # ts" using L by (cases "L (ready_obj s)") auto
  obtain s1 D' W' where s1: "osRtxThreadWaitEnter st v s = Some (True, s1)" "sched_frame s s1" "run_next s1 = c"
    "kinv s1 (L(ready_obj s := ts)) D' W'" "wait_dl s r v D W s1 D' W'" "o_state s1 r = st"
    "prio_ok s1 (L(ready_obj s := ts))" "mem32 s1 = mem32 s"
    using osRtxThreadWaitEnter_kinv [OF k stb run c st v] by blast
  note F = sched_frameD [OF s1(2)]
  note KS = kstD [OF kinvD(1) [OF k]]
  have rn: "r = run_next s" using stb run by (simp add: stable_def)
  have ob1: "ob \<in> objs s1" "ob \<noteq> ready_obj s1" using ob sched_frame_objs [OF s1(2)] F by simp_all
  have r: "r \<in> set D' \<or> r \<in> set W'" using s1(5) by (auto simp: wait_dl_def)
  have "r \<notin> set (L a)" for a using running_in_no_list [OF kinvD(1) [OF k]] rn run(3) by simp
  then have rl: "r \<notin> set ((L(ready_obj s := ts)) a)" for a using c by (metis fun_upd_apply list.set_intros(2))
  obtain s' where s': "osRtxThreadListPut ob r s1 = Some s'" "rl_frame s1 s'" "run_next s' = run_next s1"
    "o_state s' = o_state s1"
    "kinv s' ((L(ready_obj s := ts))(ob := prio_put (t_priority s1) r ((L(ready_obj s := ts)) ob))) D' W'"
    using ListPut_kinv [OF s1(4) ob1 r rl] by blast
  have wl: "(L(ready_obj s := ts))(ob := prio_put (t_priority s1) r ((L(ready_obj s := ts)) ob)) = wait_lists s ob r L"
    by (simp add: wait_lists_def c F)
  have op: "wait_on ob st v s = Some (True, s')" using s1(1) s'(1) F run by (simp add: wait_on_def)
  have pr: "prio_ok s' (wait_lists s ob r L)"
    using s1(7) s'(3) ob(2) sched_frameD [OF rl_frame_sched [OF s'(2)]] F c
    by (simp add: prio_ok_def wait_lists_def)
  have "wait_dl s r v D W s' D' W' = wait_dl s r v D W s1 D' W'"
    unfolding wait_dl_def rl_frame_dl(2) [OF s'(2)] by (rule refl)
  then show ?thesis
    using op pr s' s1 wl c sched_frame_trans [OF s1(2) rl_frame_sched [OF s'(2)]] rl_frameD(6) [OF s'(2)]
    by auto
qed

lemma wait_on_fail:
  assumes "kinv s L D W" "k_state s \<noteq> osRtxKernelRunning \<or> run_curr s = NULL \<or> L (ready_obj s) = []"
  shows "wait_on ob st v s = Some (False, s)"
  using osRtxThreadWaitEnter_fail [OF assms] by (simp add: wait_on_def)

end
