(* ===== verification/Memory.thy ===== *)
theory Memory
  imports RtxTypes
begin

text \<open>
  The allocators of the kernel: variable-size blocks (\<open>rtx_memory.c\<close>) and the fixed-size
  block lists of memory pools and message queues (\<open>rtx_mempool.c\<close>, \<open>osRtxMemoryPool*\<close>),
  on raw memory \<open>mem32\<close>.

  A pool starts with its size and the used bytes (\<open>mem_head_t\<close>), a block with the address of
  the next block and its info word (\<open>mem_block_t\<close>).
\<close>

section \<open>Variable-size blocks\<close>

abbreviation (input) MB_INFO_LEN_MASK :: u32 where "MB_INFO_LEN_MASK \<equiv> 0xFFFFFFFC"
abbreviation (input) MB_INFO_TYPE_MASK :: u32 where "MB_INFO_TYPE_MASK \<equiv> 0x00000003"
abbreviation (input) sizeof_mem_head_t :: u32 where "sizeof_mem_head_t \<equiv> 8"
abbreviation (input) sizeof_mem_block_t :: u32 where "sizeof_mem_block_t \<equiv> 8"

definition head_size :: "addr \<Rightarrow> rtx \<Rightarrow> u32" where "head_size mem s = mem32 s mem"
definition head_used :: "addr \<Rightarrow> rtx \<Rightarrow> u32" where "head_used mem s = mem32 s (mem + 4)"
definition blk_next :: "addr \<Rightarrow> rtx \<Rightarrow> addr" where "blk_next p s = mem32 s p"
definition blk_info :: "addr \<Rightarrow> rtx \<Rightarrow> u32" where "blk_info p s = mem32 s (p + 4)"
definition set_head_size :: "addr \<Rightarrow> u32 \<Rightarrow> rtx \<Rightarrow> rtx" where
  "set_head_size mem v s = s\<lparr>mem32 := (mem32 s)(mem := v)\<rparr>"
definition set_head_used :: "addr \<Rightarrow> u32 \<Rightarrow> rtx \<Rightarrow> rtx" where
  "set_head_used mem v s = s\<lparr>mem32 := (mem32 s)(mem + 4 := v)\<rparr>"
definition set_blk_next :: "addr \<Rightarrow> addr \<Rightarrow> rtx \<Rightarrow> rtx" where
  "set_blk_next p v s = s\<lparr>mem32 := (mem32 s)(p := v)\<rparr>"
definition set_blk_info :: "addr \<Rightarrow> u32 \<Rightarrow> rtx \<Rightarrow> rtx" where
  "set_blk_info p v s = s\<lparr>mem32 := (mem32 s)(p + 4 := v)\<rparr>"

definition MemBlockPtr :: "addr \<Rightarrow> u32 \<Rightarrow> addr" where
  "MemBlockPtr mem offset = mem + offset"

definition osRtxMemoryInit :: "addr \<Rightarrow> u32 \<Rightarrow> rtx \<Rightarrow> u32 \<times> rtx" where
  "osRtxMemoryInit mem msize s =
     (if mem = NULL \<or> mem AND 7 \<noteq> 0 \<or> msize AND 7 \<noteq> 0 \<or> msize < sizeof_mem_head_t + 2 * sizeof_mem_block_t
      then (0, s)
      else
        (let s = set_head_size mem msize s;
             s = set_head_used mem (sizeof_mem_head_t + sizeof_mem_block_t) s;
             ptr = MemBlockPtr mem sizeof_mem_head_t;
             s = set_blk_next ptr (MemBlockPtr mem (msize - sizeof_mem_block_t)) s;
             s = set_blk_next (blk_next ptr s) NULL s;
             s = set_blk_info (blk_next ptr s) (sizeof_mem_head_t + sizeof_mem_block_t) s;
             s = set_blk_info ptr 0 s
         in (1, s)))"

text \<open>The search loop of \<open>osRtxMemoryAlloc\<close>: the block in front of the first hole big enough.\<close>

partial_function (option) mem_hole_search :: "rtx \<Rightarrow> u32 \<Rightarrow> addr \<Rightarrow> addr option option" where
  "mem_hole_search s block_size p =
     (let hole_size = blk_next p s - p - (blk_info p s AND MB_INFO_LEN_MASK) in
      if hole_size \<ge> block_size then Some (Some p)
      else (let p = blk_next p s in
            if blk_next p s = NULL then Some None else mem_hole_search s block_size p))"

definition osRtxMemoryAlloc :: "addr \<Rightarrow> u32 \<Rightarrow> u32 \<Rightarrow> rtx \<Rightarrow> (addr \<times> rtx) option" where
  "osRtxMemoryAlloc mem msize type s =
     (if mem = NULL \<or> msize = 0 \<or> type AND NOT MB_INFO_TYPE_MASK \<noteq> 0 then Some (NULL, s)
      else do {
        let block_size = msize + sizeof_mem_block_t;
        let block_size = (block_size + 7) AND NOT 7;
        hole \<leftarrow> mem_hole_search s block_size (MemBlockPtr mem sizeof_mem_head_t);
        (case hole of None \<Rightarrow> Some (NULL, s)
         | Some p \<Rightarrow>
             let s = set_head_used mem (head_used mem s + block_size) s;
                 p_new = MemBlockPtr mem (head_size mem s - sizeof_mem_block_t);
                 s = (if blk_info p_new s < head_used mem s then set_blk_info p_new (head_used mem s) s else s)
             in if blk_info p s = 0 then
                  (let s = set_blk_info p (block_size OR type) s
                   in Some (MemBlockPtr p sizeof_mem_block_t, s))
                else
                  (let p_new = MemBlockPtr p (blk_info p s AND MB_INFO_LEN_MASK);
                       s = set_blk_next p_new (blk_next p s) s;
                       s = set_blk_info p_new (block_size OR type) s;
                       s = set_blk_next p p_new s
                   in Some (MemBlockPtr p_new sizeof_mem_block_t, s)))
      })"

text \<open>The search loop of \<open>osRtxMemoryFree\<close>: the predecessor of the block header, if it is found.\<close>

partial_function (option) mem_block_search :: "rtx \<Rightarrow> addr \<Rightarrow> addr \<Rightarrow> addr \<Rightarrow> addr option option" where
  "mem_block_search s ptr p_prev p =
     (if p \<noteq> ptr then
        (let p_prev = p; p = blk_next p s in
         if p = NULL then Some None else mem_block_search s ptr p_prev p)
      else Some (Some p_prev))"

definition osRtxMemoryFree :: "addr \<Rightarrow> addr \<Rightarrow> rtx \<Rightarrow> (u32 \<times> rtx) option" where
  "osRtxMemoryFree mem block s =
     (if mem = NULL \<or> block = NULL then Some (0, s)
      else do {
        let ptr = MemBlockPtr block 0 - sizeof_mem_block_t;
        found \<leftarrow> mem_block_search s ptr NULL (MemBlockPtr mem sizeof_mem_head_t);
        (case found of None \<Rightarrow> Some (0, s)
         | Some p_prev \<Rightarrow>
             let p = ptr;
                 s = set_head_used mem (head_used mem s - (blk_info p s AND MB_INFO_LEN_MASK)) s
             in Some (1, if p_prev = NULL then set_blk_info p 0 s
                         else set_blk_next p_prev (blk_next p s) s))
      })"

section \<open>Fixed-size blocks\<close>

text \<open>The loop of \<open>osRtxMemoryPoolInit\<close> that links the free blocks; \<open>n\<close> is the block count.\<close>

partial_function (option) mp_link_blocks :: "u32 \<Rightarrow> addr \<Rightarrow> u32 \<Rightarrow> rtx \<Rightarrow> (addr \<times> rtx) option" where
  "mp_link_blocks block_size mem n s =
     (let n = n - 1 in
      if n \<noteq> 0 then
        (let block = mem + block_size;
             s = s\<lparr>mem32 := (mem32 s)(mem := block)\<rparr>
         in mp_link_blocks block_size block n s)
      else Some (mem, s))"

definition osRtxMemoryPoolInit :: "addr \<Rightarrow> u32 \<Rightarrow> u32 \<Rightarrow> addr \<Rightarrow> rtx \<Rightarrow> (u32 \<times> rtx) option" where
  "osRtxMemoryPoolInit mp_info block_count block_size block_mem s =
     (if mp_info = NULL \<or> block_count = 0 \<or> block_size = 0 \<or> block_mem = NULL then Some (0, s)
      else do {
        let s = s\<lparr>mp_max_blocks := (mp_max_blocks s)(mp_info := block_count),
                  mp_used_blocks := (mp_used_blocks s)(mp_info := 0),
                  mp_block_size := (mp_block_size s)(mp_info := block_size),
                  mp_block_base := (mp_block_base s)(mp_info := block_mem),
                  mp_block_free := (mp_block_free s)(mp_info := block_mem),
                  mp_block_lim := (mp_block_lim s)(mp_info := block_mem + block_count * block_size)\<rparr>;
        (mem, s) \<leftarrow> mp_link_blocks block_size block_mem block_count s;
        Some (1, s\<lparr>mem32 := (mem32 s)(mem := NULL)\<rparr>)
      })"

text \<open>\<open>atomic_link_get\<close> and \<open>atomic_link_put\<close> on the free list.\<close>

definition osRtxMemoryPoolAlloc :: "addr \<Rightarrow> rtx \<Rightarrow> addr \<times> rtx" where
  "osRtxMemoryPoolAlloc mp_info s =
     (if mp_info = NULL then (NULL, s)
      else
        (let block = mp_block_free s mp_info in
         if block \<noteq> NULL then
           (block, s\<lparr>mp_block_free := (mp_block_free s)(mp_info := mem32 s block),
                     mp_used_blocks := (mp_used_blocks s)(mp_info := mp_used_blocks s mp_info + 1)\<rparr>)
         else (block, s)))"

definition osRtxMemoryPoolFree :: "addr \<Rightarrow> addr \<Rightarrow> rtx \<Rightarrow> u32 \<times> rtx" where
  "osRtxMemoryPoolFree mp_info block s =
     (if mp_info = NULL \<or> block < mp_block_base s mp_info \<or> block \<ge> mp_block_lim s mp_info
      then (osErrorParameter, s)
      else
        (let s = s\<lparr>mem32 := (mem32 s)(block := mp_block_free s mp_info)\<rparr>;
             s = s\<lparr>mp_block_free := (mp_block_free s)(mp_info := block)\<rparr>;
             s = s\<lparr>mp_used_blocks := (mp_used_blocks s)(mp_info := mp_used_blocks s mp_info - 1)\<rparr>
         in (osOK, s)))"

section \<open>Control blocks\<close>

text \<open>
  The attributes of a service that creates an object: \<open>None\<close> stands for a NULL pointer.
  The control block comes from the caller, from the pool of its type or from the common
  heap; \<open>obj_free\<close> returns it.
\<close>

record os_attr =
  a_name :: addr
  a_attr_bits :: u32
  a_cb_mem :: addr
  a_cb_size :: u32

definition obj_alloc :: "addr \<Rightarrow> u32 \<Rightarrow> rtx \<Rightarrow> (addr \<times> rtx) option" where
  "obj_alloc mpi cb_size s =
     (if mpi \<noteq> NULL then Some (osRtxMemoryPoolAlloc mpi s) else osRtxMemoryAlloc (mem_common s) cb_size 1 s)"

definition obj_free :: "addr \<Rightarrow> addr \<Rightarrow> rtx \<Rightarrow> rtx option" where
  "obj_free mpi ob s =
     (if mpi \<noteq> NULL then Some (snd (osRtxMemoryPoolFree mpi ob s))
      else map_option snd (osRtxMemoryFree (mem_common s) ob s))"

text \<open>The checks every service makes of the attributes' control block.\<close>

definition attr_cb_ok :: "u32 \<Rightarrow> os_attr option \<Rightarrow> bool" where
  "attr_cb_ok cb_size attr =
     (case attr of None \<Rightarrow> True
      | Some a \<Rightarrow> if a_cb_mem a \<noteq> NULL then a_cb_mem a AND 3 = 0 \<and> a_cb_size a \<ge> cb_size else a_cb_size a = 0)"

end
