(* ===== verification/Atomic.thy ===== *)
theory Atomic
  imports Prelude
begin

text \<open>
  The exclusive-access operations of \<open>rtx_core_ca.h\<close> as functions of the value in memory:
  the result of the call and the value stored.  The load and store of one call are atomic.
\<close>

definition atomic_set32 :: "u32 \<Rightarrow> u32 \<Rightarrow> u32 \<times> u32" where
  "atomic_set32 v bits = (v OR bits, v OR bits)"

definition atomic_clr32 :: "u32 \<Rightarrow> u32 \<Rightarrow> u32 \<times> u32" where
  "atomic_clr32 v bits = (v, v AND NOT bits)"

definition atomic_chk32_all :: "u32 \<Rightarrow> u32 \<Rightarrow> u32 \<times> u32" where
  "atomic_chk32_all v bits = (if v AND bits = bits then (v, v AND NOT bits) else (0, v))"

definition atomic_chk32_any :: "u32 \<Rightarrow> u32 \<Rightarrow> u32 \<times> u32" where
  "atomic_chk32_any v bits = (if v AND bits \<noteq> 0 then (v, v AND NOT bits) else (0, v))"

definition atomic_inc16_lt :: "u16 \<Rightarrow> u16 \<Rightarrow> u16 \<times> u16" where
  "atomic_inc16_lt v maxv = (v, if v < maxv then v + 1 else v)"

text \<open>The increment is done in a 32-bit register.\<close>

definition atomic_inc16_lim :: "u16 \<Rightarrow> u16 \<Rightarrow> u16 \<times> u16" where
  "atomic_inc16_lim v lim = (v, if (ucast lim :: u32) > ucast v + 1 then v + 1 else 0)"

definition atomic_dec16_nz :: "u16 \<Rightarrow> u16 \<times> u16" where
  "atomic_dec16_nz v = (v, if v \<noteq> 0 then v - 1 else v)"

definition atomic_wr8 :: "u8 \<Rightarrow> u8 \<Rightarrow> u8 \<times> u8" where
  "atomic_wr8 v val = (v, val)"

definition atomic_inc32 :: "u32 \<Rightarrow> u32 \<times> u32" where
  "atomic_inc32 v = (v, v + 1)"

definition atomic_dec32_nz :: "u32 \<Rightarrow> u32 \<times> u32" where
  "atomic_dec32_nz v = (v, if v \<noteq> 0 then v - 1 else v)"

lemma atomic_chk32_subset:
  "fst (atomic_chk32_all v b) \<noteq> 0 \<Longrightarrow> fst (atomic_chk32_all v b) = v \<and> snd (atomic_chk32_all v b) AND b = 0"
  "fst (atomic_chk32_any v b) \<noteq> 0 \<Longrightarrow> fst (atomic_chk32_any v b) = v \<and> snd (atomic_chk32_any v b) AND b = 0"
  by (auto simp: atomic_chk32_all_def atomic_chk32_any_def bit_eq_iff bit_simps split: if_splits)

lemma unat_ucast_16_32: "unat (ucast (v :: u16) :: u32) = unat v"
  by transfer simp

lemma unat_16_lt: "unat (v :: u16) < 65536"
  using unsigned_less [of v] by simp

lemma atomic_inc16_lim_nat:
  assumes "unat v < unat lim"
  shows "unat (snd (atomic_inc16_lim v lim)) = (if Suc (unat v) = unat lim then 0 else Suc (unat v))"
proof -
  have b: "unat v < 65536" "unat lim < 65536" by (rule unat_16_lt)+
  have "unat (ucast v + 1 :: u32) = unat v + 1"
    using unat_add_lt [of "ucast v :: u32" 1] b by (simp add: unat_ucast_16_32)
  then have c: "(ucast lim :: u32) > ucast v + 1 \<longleftrightarrow> Suc (unat v) < unat lim"
    by (simp add: word_less_nat_alt unat_ucast_16_32)
  moreover have "unat (v + 1) = Suc (unat v)" if "Suc (unat v) < unat lim"
    using unat_add_lt [of v 1] that b by simp
  ultimately show ?thesis using assms by (auto simp: atomic_inc16_lim_def)
qed

end
