(* ===== verification/IsrQueue.thy ===== *)
theory IsrQueue
  imports Atomic RtxTypes
begin

text \<open>
  The queue of objects for post-ISR processing (\<open>rtx_system.c\<close>): a ring buffer whose fill
  count and indices are updated by atomic operations, and its refinement of a bounded FIFO
  queue.  The contract is the locale \<open>bounded_fifo\<close>, interpreted on the ring buffer.
\<close>

section \<open>Operations\<close>

definition isr_queue_put :: "addr \<Rightarrow> rtx \<Rightarrow> u32 \<times> rtx" where
  "isr_queue_put object s =
     (let maxv = isr_max s;
          (prev, cnt) = atomic_inc16_lt (isr_cnt s) maxv;
          s = s\<lparr>isr_cnt := cnt\<rparr>
      in if prev < maxv then
           (let (n, i) = atomic_inc16_lim (isr_in s) maxv;
                s = s\<lparr>isr_in := i\<rparr>
            in (1, s\<lparr>isr_data := (isr_data s)[unat n := object]\<rparr>))
         else (0, s))"

definition isr_queue_get :: "rtx \<Rightarrow> addr \<times> rtx" where
  "isr_queue_get s =
     (let maxv = isr_max s;
          (prev, cnt) = atomic_dec16_nz (isr_cnt s);
          s = s\<lparr>isr_cnt := cnt\<rparr>
      in if prev \<noteq> 0 then
           (let (n, out) = atomic_inc16_lim (isr_out s) maxv
            in (isr_data s ! unat n, s\<lparr>isr_out := out\<rparr>))
         else (NULL, s))"

definition osRtxPostProcess :: "addr \<Rightarrow> rtx \<Rightarrow> rtx option" where
  "osRtxPostProcess object s =
     (let (ret, s) = isr_queue_put object s in
      if ret \<noteq> 0 then
        (if k_blocked s = 0 then Some (s\<lparr>IRQ_PendSV := True\<rparr>) else Some (s\<lparr>k_pendSV := 1\<rparr>))
      else osRtxErrorNotify osRtxErrorISRQueueOverflow object)"

section \<open>The bounded FIFO queue\<close>

text \<open>
  The contract: \<open>inv\<close> is the representation invariant, \<open>cap\<close> the capacity, \<open>items\<close> the
  contents, oldest first, and \<open>ok\<close> says what may be put into the queue.
\<close>

locale bounded_fifo =
  fixes inv :: "'s \<Rightarrow> bool" and cap :: "'s \<Rightarrow> nat" and items :: "'s \<Rightarrow> 'a list" and ok :: "'a \<Rightarrow> bool"
    and put :: "'a \<Rightarrow> 's \<Rightarrow> bool \<times> 's" and get :: "'s \<Rightarrow> 'a option \<times> 's"
  assumes put_full: "inv s \<Longrightarrow> length (items s) = cap s \<Longrightarrow> put x s = (False, s)"
    and put_ok: "inv s \<Longrightarrow> ok x \<Longrightarrow> length (items s) < cap s \<Longrightarrow>
      \<exists>s'. put x s = (True, s') \<and> inv s' \<and> cap s' = cap s \<and> items s' = items s @ [x]"
    and get_empty: "inv s \<Longrightarrow> items s = [] \<Longrightarrow> get s = (None, s)"
    and get_ok: "inv s \<Longrightarrow> items s = x # xs \<Longrightarrow>
      \<exists>s'. get s = (Some x, s') \<and> inv s' \<and> cap s' = cap s \<and> items s' = xs"
    and bound: "inv s \<Longrightarrow> length (items s) \<le> cap s"
begin

text \<open>Putting a list of items, and taking \<open>n\<close> items out.\<close>

primrec put_all :: "'a list \<Rightarrow> 's \<Rightarrow> bool \<times> 's" where
  "put_all [] s = (True, s)"
| "put_all (x # xs) s = (let (b, s') = put x s in if b then put_all xs s' else (False, s'))"

primrec get_n :: "nat \<Rightarrow> 's \<Rightarrow> 'a option list \<times> 's" where
  "get_n 0 s = ([], s)"
| "get_n (Suc n) s = (let (x, s') = get s; (xs, s'') = get_n n s' in (x # xs, s''))"

lemma put_all_ok:
  "inv s \<Longrightarrow> \<forall>x\<in>set xs. ok x \<Longrightarrow> length (items s) + length xs \<le> cap s \<Longrightarrow>
   \<exists>s'. put_all xs s = (True, s') \<and> inv s' \<and> cap s' = cap s \<and> items s' = items s @ xs"
proof (induction xs arbitrary: s)
  case (Cons x xs)
  then obtain s1 where s1: "put x s = (True, s1)" "inv s1" "cap s1 = cap s" "items s1 = items s @ [x]"
    using put_ok [of s x] by auto
  then show ?case using Cons.IH [of s1] Cons.prems by auto
qed simp

lemma get_n_ok:
  "inv s \<Longrightarrow> n \<le> length (items s) \<Longrightarrow>
   \<exists>s'. get_n n s = (map Some (take n (items s)), s') \<and> inv s' \<and> cap s' = cap s \<and> items s' = drop n (items s)"
proof (induction n arbitrary: s)
  case (Suc n)
  then obtain x xs where xs: "items s = x # xs" by (cases "items s") auto
  then obtain s1 where s1: "get s = (Some x, s1)" "inv s1" "cap s1 = cap s" "items s1 = xs"
    using get_ok [OF Suc.prems(1) xs] by blast
  then show ?case using Suc.IH [of s1] Suc.prems xs by auto
qed simp

text \<open>First in, first out: what is put into an empty queue comes out in the same order.\<close>

lemma fifo:
  assumes "inv s" "items s = []" "length xs \<le> cap s" "\<forall>x\<in>set xs. ok x"
  shows "\<exists>s1 s2. put_all xs s = (True, s1) \<and> get_n (length xs) s1 = (map Some xs, s2) \<and> items s2 = []"
proof -
  obtain s1 where s1: "put_all xs s = (True, s1)" "inv s1" "cap s1 = cap s" "items s1 = xs"
    using put_all_ok [OF assms(1,4)] assms by auto
  then show ?thesis using get_n_ok [of s1 "length xs"] by auto
qed

end

section \<open>The ring buffer\<close>

definition isr_items :: "rtx \<Rightarrow> addr list" where
  "isr_items s = map (\<lambda>i. isr_data s ! ((unat (isr_out s) + i) mod unat (isr_max s))) [0..<unat (isr_cnt s)]"

definition isr_inv :: "rtx \<Rightarrow> bool" where
  "isr_inv s \<longleftrightarrow> length (isr_data s) = unat (isr_max s) \<and> unat (isr_cnt s) \<le> unat (isr_max s) \<and>
     unat (isr_out s) < unat (isr_max s) \<and>
     unat (isr_in s) = (unat (isr_out s) + unat (isr_cnt s)) mod unat (isr_max s) \<and> NULL \<notin> set (isr_items s)"

definition isr_put :: "addr \<Rightarrow> rtx \<Rightarrow> bool \<times> rtx" where
  "isr_put x s = (let (r, s') = isr_queue_put x s in (r \<noteq> 0, s'))"

definition isr_get :: "rtx \<Rightarrow> addr option \<times> rtx" where
  "isr_get s = (let (p, s') = isr_queue_get s in (if p = NULL then None else Some p, s'))"

lemma ring_ne:
  assumes "i < c" "c < m"
  shows "(b + i) mod m \<noteq> (b + c) mod (m :: nat)"
proof
  assume "(b + i) mod m = (b + c) mod m"
  then have "m dvd (b + c) - (b + i)" using assms by (metis less_imp_le mod_eq_dvd_iff_nat add_le_mono le_refl)
  then show False using assms by (auto dest: dvd_imp_le)
qed

lemma length_isr_items [simp]: "length (isr_items s) = unat (isr_cnt s)"
  by (simp add: isr_items_def)

lemma isr_put_full:
  assumes "isr_inv s" "length (isr_items s) = unat (isr_max s)"
  shows "isr_put x s = (False, s)"
proof -
  have "isr_cnt s = isr_max s" using assms(2) by (simp add: word_unat_eq_iff)
  then show ?thesis by (simp add: isr_put_def isr_queue_put_def atomic_inc16_lt_def)
qed

lemma isr_put_ok:
  assumes i: "isr_inv s" and x: "x \<noteq> NULL" and lt: "length (isr_items s) < unat (isr_max s)"
  shows "\<exists>s'. isr_put x s = (True, s') \<and> isr_inv s' \<and> unat (isr_max s') = unat (isr_max s) \<and> isr_items s' = isr_items s @ [x]"
proof -
  let ?m = "unat (isr_max s)" and ?o = "unat (isr_out s)" and ?c = "unat (isr_cnt s)" and ?in = "unat (isr_in s)"
  note I = i [unfolded isr_inv_def]
  have c: "?c < ?m" using lt by simp
  have inm: "?in < ?m" using I c by simp
  define s' where "s' = s\<lparr>isr_cnt := isr_cnt s + 1, isr_in := snd (atomic_inc16_lim (isr_in s) (isr_max s)),
    isr_data := (isr_data s)[?in := x]\<rparr>"
  have put: "isr_put x s = (True, s')"
    using c by (simp add: isr_put_def isr_queue_put_def atomic_inc16_lt_def s'_def word_less_nat_alt atomic_inc16_lim_def Let_def)
  have c': "unat (isr_cnt s') = Suc ?c"
    using unat_add_lt [of "isr_cnt s" 1] c unat_16_lt [of "isr_max s"] by (simp add: s'_def)
  have "unat (isr_in s') = (Suc ?in) mod ?m"
    using atomic_inc16_lim_nat [OF inm] inm by (simp add: s'_def mod_Suc)
  then have in': "unat (isr_in s') = (?o + Suc ?c) mod ?m" using I by (simp add: mod_Suc_eq)
  have "isr_items s' = isr_items s @ [x]"
  proof (rule nth_equalityI)
    show "length (isr_items s') = length (isr_items s @ [x])" using c' by simp
    fix k assume "k < length (isr_items s')"
    then have k: "k < Suc ?c" using c' by simp
    have v: "isr_items s' ! k = (isr_data s)[?in := x] ! ((?o + k) mod ?m)"
      using k c' unfolding isr_items_def by (simp add: s'_def del: upt_Suc)
    show "isr_items s' ! k = (isr_items s @ [x]) ! k"
    proof (cases "k = ?c")
      case True
      then show ?thesis using v I inm by (simp add: nth_append)
    next
      case False
      then have kc: "k < ?c" using k by simp
      then have "(?o + k) mod ?m \<noteq> ?in" using I ring_ne [OF kc c] by simp
      then have "isr_items s' ! k = isr_data s ! ((?o + k) mod ?m)" using v by simp
      then show ?thesis using kc by (simp add: nth_append isr_items_def)
    qed
  qed
  then show ?thesis using put c' in' I c x by (auto simp: isr_inv_def s'_def)
qed

lemma isr_get_empty:
  assumes "isr_items s = []"
  shows "isr_get s = (None, s)"
proof -
  have "isr_cnt s = 0" using arg_cong [OF assms, of length] by (simp add: unat_eq_0)
  then show ?thesis by (simp add: isr_get_def isr_queue_get_def atomic_dec16_nz_def)
qed

lemma isr_get_ok:
  assumes i: "isr_inv s" and x: "isr_items s = x # xs"
  shows "\<exists>s'. isr_get s = (Some x, s') \<and> isr_inv s' \<and> unat (isr_max s') = unat (isr_max s) \<and> isr_items s' = xs"
proof -
  let ?m = "unat (isr_max s)" and ?o = "unat (isr_out s)" and ?c = "unat (isr_cnt s)"
  note I = i [unfolded isr_inv_def]
  have c: "?c = Suc (length xs)" using arg_cong [OF x, of length] by simp
  then have c0: "isr_cnt s \<noteq> 0" by auto
  define s' where "s' = s\<lparr>isr_cnt := isr_cnt s - 1, isr_out := snd (atomic_inc16_lim (isr_out s) (isr_max s))\<rparr>"
  have x0: "x = isr_data s ! ?o"
    using arg_cong [OF x, of "\<lambda>l. l ! 0"] c I unfolding isr_items_def by (simp del: upt_Suc)
  have xn: "x \<noteq> NULL" using I x by auto
  have get: "isr_get s = (Some x, s')"
    using c0 x0 xn by (simp add: isr_get_def isr_queue_get_def atomic_dec16_nz_def s'_def atomic_inc16_lim_def Let_def)
  have c': "unat (isr_cnt s') = length xs" using c c0 by (simp add: s'_def unat_dec)
  have o': "unat (isr_out s') = Suc ?o mod ?m"
    using atomic_inc16_lim_nat [of "isr_out s" "isr_max s"] I by (simp add: s'_def mod_Suc)
  have items: "isr_items s' = xs"
  proof (rule nth_equalityI)
    show "length (isr_items s') = length xs" using c' by simp
    fix k assume "k < length (isr_items s')"
    then have k: "k < length xs" using c' by simp
    have "isr_items s' ! k = isr_data s ! ((Suc ?o mod ?m + k) mod ?m)"
      using k c' o' unfolding isr_items_def by (simp add: s'_def)
    also have "(Suc ?o mod ?m + k) mod ?m = (?o + Suc k) mod ?m" by (simp add: mod_add_left_eq)
    also have "isr_data s ! ((?o + Suc k) mod ?m) = isr_items s ! Suc k"
      using k c unfolding isr_items_def by (simp del: upt_Suc)
    finally show "isr_items s' ! k = xs ! k" using x by simp
  qed
  have in': "unat (isr_in s') = (unat (isr_out s') + unat (isr_cnt s')) mod unat (isr_max s')"
  proof -
    have "unat (isr_in s') = (?o + Suc (length xs)) mod ?m" using I c by (simp add: s'_def)
    also have "\<dots> = (Suc ?o mod ?m + length xs) mod ?m" by (simp add: mod_add_left_eq)
    finally show ?thesis using o' c' by (simp add: s'_def)
  qed
  have "unat (isr_out s') < unat (isr_max s')" using o' I by (simp add: s'_def)
  moreover have "length (isr_data s') = unat (isr_max s')" "unat (isr_cnt s') \<le> unat (isr_max s')"
    using I c c' by (simp_all add: s'_def)
  ultimately have "isr_inv s'" using items in' I x by (simp add: isr_inv_def)
  then show ?thesis using get items by (auto simp: s'_def)
qed

interpretation isr_fifo: bounded_fifo isr_inv "\<lambda>s. unat (isr_max s)" isr_items "\<lambda>x. x \<noteq> NULL" isr_put isr_get
proof
  show "isr_inv s \<Longrightarrow> length (isr_items s) = unat (isr_max s) \<Longrightarrow> isr_put x s = (False, s)" for s x
    by (rule isr_put_full)
  show "isr_inv s \<Longrightarrow> x \<noteq> NULL \<Longrightarrow> length (isr_items s) < unat (isr_max s) \<Longrightarrow>
      \<exists>s'. isr_put x s = (True, s') \<and> isr_inv s' \<and> unat (isr_max s') = unat (isr_max s) \<and> isr_items s' = isr_items s @ [x]"
    for s x by (rule isr_put_ok)
  show "isr_inv s \<Longrightarrow> isr_items s = [] \<Longrightarrow> isr_get s = (None, s)" for s by (rule isr_get_empty)
  show "isr_inv s \<Longrightarrow> isr_items s = x # xs \<Longrightarrow>
      \<exists>s'. isr_get s = (Some x, s') \<and> isr_inv s' \<and> unat (isr_max s') = unat (isr_max s) \<and> isr_items s' = xs"
    for s x xs by (rule isr_get_ok)
  show "isr_inv s \<Longrightarrow> length (isr_items s) \<le> unat (isr_max s)" for s by (simp add: isr_inv_def)
qed

end
