(* ===== verification/Svc.thy ===== *)
theory Svc
  imports WaitObj Memory IsrQueue
begin

text \<open>
  What the services share: the service call from a thread, the condition under which a
  thread can wait, and the effect of registering an object for post-ISR processing.
\<close>

text \<open>
  A service call from a thread: the SVC handler runs the service and the context switch.
\<close>

definition svc_call :: "(rtx \<Rightarrow> ('r \<times> rtx) option) \<Rightarrow> rtx \<Rightarrow> ('r \<times> rtx) option" where
  "svc_call f s = do { (r, s) \<leftarrow> f s; Some (r, context_switch s) }"

text \<open>
  Whether the running thread can wait: the kernel runs, a thread is running and another is
  ready.
\<close>

definition can_wait :: "rtx \<Rightarrow> (addr \<Rightarrow> addr list) \<Rightarrow> bool" where
  "can_wait s L \<longleftrightarrow> k_state s = osRtxKernelRunning \<and> run_curr s \<noteq> NULL \<and> L (ready_obj s) \<noteq> []"

lemma osRtxPostProcess_spec:
  assumes i: "isr_inv s" and x: "x \<noteq> NULL" and r: "osRtxPostProcess x s = Some s'"
  shows "core_eq s s' \<and> isr_inv s' \<and> isr_items s' = isr_items s @ [x] \<and> s_tokens s' = s_tokens s
    \<and> s_max_tokens s' = s_max_tokens s \<and> e_event_flags s' = e_event_flags s \<and> t_thread_flags s' = t_thread_flags s"
proof -
  obtain ret s1 where p: "isr_queue_put x s = (ret, s1)" by (cases "isr_queue_put x s")
  have ret: "ret \<noteq> 0" using r p by (auto simp: osRtxPostProcess_def osRtxErrorNotify_def)
  have put: "isr_put x s = (True, s1)" using p ret by (simp add: isr_put_def)
  have "length (isr_items s) \<noteq> unat (isr_max s)" using isr_fifo.put_full [OF i, of x] put by auto
  then have "length (isr_items s) < unat (isr_max s)" using isr_fifo.bound [OF i] by simp
  from isr_fifo.put_ok [OF i x this] put have s1: "isr_inv s1" "isr_items s1 = isr_items s @ [x]" by auto
  have s': "s' = (if k_blocked s1 = 0 then s1\<lparr>IRQ_PendSV := True\<rparr> else s1\<lparr>k_pendSV := 1\<rparr>)"
    using r p ret by (auto simp: osRtxPostProcess_def split: if_splits)
  obtain a b d where eq: "s1 = s\<lparr>isr_cnt := a, isr_in := b, isr_data := d\<rparr>"
    using p ret by (auto simp: isr_queue_put_def Let_def split_beta split: if_splits)
  have c: "core_eq s s1 \<and> s_tokens s1 = s_tokens s \<and> s_max_tokens s1 = s_max_tokens s
    \<and> e_event_flags s1 = e_event_flags s \<and> t_thread_flags s1 = t_thread_flags s"
    unfolding eq by (simp add: core_eq_def)
  have i': "isr_inv s'" "isr_items s' = isr_items s1" using s1 by (auto simp: s' isr_inv_def isr_items_def)
  have "core_eq s1 s' \<and> s_tokens s' = s_tokens s1 \<and> s_max_tokens s' = s_max_tokens s1
    \<and> e_event_flags s' = e_event_flags s1 \<and> t_thread_flags s' = t_thread_flags s1" by (auto simp: s' core_eq_def)
  then show ?thesis using c i' s1 by (auto simp: core_eq_def)
qed

text \<open>Taking an object off the queue changes nothing the scheduler looks at.\<close>

lemma isr_get_spec:
  assumes i: "isr_inv s" and g: "isr_get s = (Some x, s')"
  shows "core_eq s s' \<and> isr_inv s' \<and> isr_items s = x # isr_items s' \<and> s_tokens s' = s_tokens s
    \<and> s_max_tokens s' = s_max_tokens s"
proof -
  obtain y ys where y: "isr_items s = y # ys"
    using isr_fifo.get_empty [OF i] g by (cases "isr_items s") auto
  then have s1: "isr_inv s'" "isr_items s = x # isr_items s'" using isr_fifo.get_ok [OF i y] g by auto
  obtain a b where eq: "s' = s\<lparr>isr_cnt := a, isr_out := b\<rparr>"
    using g by (auto simp: isr_get_def isr_queue_get_def Let_def split_beta split: if_splits)
  have "core_eq s s' \<and> s_tokens s' = s_tokens s \<and> s_max_tokens s' = s_max_tokens s"
    unfolding eq by (simp add: core_eq_def)
  then show ?thesis using s1 by blast
qed

lemma sched_frame_isr:
  assumes "sched_frame s s'"
  shows "isr_items s' = isr_items s" "isr_inv s' = isr_inv s"
  by (simp_all add: isr_items_def isr_inv_def sched_frameD [OF assms])

lemma context_switch_simps:
  "kinv (context_switch s) L D W = kinv s L D W" "stable (context_switch s)" "isr_items (context_switch s) = isr_items s"
  "isr_inv (context_switch s) = isr_inv s" "prio_ok (context_switch s) L = prio_ok s L" "objs (context_switch s) = objs s"
  "thrs (context_switch s) = thrs s"
proof -
  have "kst (context_switch s) L B C = kst s L B C" for B C by (rule kst_cong) (simp_all add: context_switch_def)
  then show "kinv (context_switch s) L D W = kinv s L D W"
    by (simp add: kinv_def) (simp add: context_switch_def dl_inv_def)
qed (simp_all add: context_switch_def stable_def isr_items_def isr_inv_def prio_ok_def objs_def thrs_def)

end
