(* ===== verification/Demo.thy ===== *)
theory Demo
  imports Svc
begin

text \<open>
  A small concrete system: the thread \<open>0x100\<close> is running, the idle thread \<open>0x200\<close> is ready,
  and the thread \<open>0x300\<close>, of a higher priority, waits five ticks for a token of the semaphore
  \<open>0x400\<close>.  It satisfies the kernel invariant, so the theorems that assume it can be applied.
\<close>

definition demo :: rtx where
  "demo = (rtx0 0x10)\<lparr>
     o_id := (\<lambda>_. 0)(0x100 := 1, 0x200 := 1, 0x300 := 1, 0x400 := 5, 0x500 := 4, 0x600 := 3),
     o_state := (\<lambda>_. 0)(0x100 := 2, 0x200 := 1, 0x300 := 0x63),
     t_priority := (\<lambda>_. 0)(0x100 := 24, 0x200 := 1, 0x300 := 30),
     t_priority_base := (\<lambda>_. 0)(0x100 := 24, 0x200 := 1, 0x300 := 30),
     t_stack_mem := (\<lambda>_. 0)(0x100 := 0x1000, 0x200 := 0x2000, 0x300 := 0x3000),
     t_sp := (\<lambda>_. 0)(0x100 := 0x1100, 0x200 := 0x2100, 0x300 := 0x3100),
     mem32 := (\<lambda>_. 0)(0x1000 := osRtxStackMagicWord, 0x2000 := osRtxStackMagicWord, 0x3000 := osRtxStackMagicWord),
     thread_next := (\<lambda>_. 0)(0x10 := 0x200, 0x400 := 0x300),
     thread_prev := (\<lambda>_. 0)(0x200 := 0x10, 0x300 := 0x400),
     t_delay := (\<lambda>_. 0)(0x300 := 5),
     delay_list := 0x300, run_curr := 0x100, run_next := 0x100, idle_thread := 0x200,
     s_max_tokens := (\<lambda>_. 0)(0x400 := 3),
     isr_max := 4, isr_data := [0, 0, 0, 0]\<rparr>"

definition demo_lists :: "addr \<Rightarrow> addr list" where
  "demo_lists = (\<lambda>_. [])(0x10 := [0x200], 0x400 := [0x300])"

lemma demo_thrs: "thrs demo = {0x100, 0x200, 0x300}"
  by (auto simp: thrs_def demo_def rtx0_def split: if_splits)

lemma demo_objs: "objs demo = {0x10, 0x400, 0x500, 0x600}"
  by (auto simp: objs_def has_thread_list_def demo_def rtx0_def split: if_splits)

lemma demo_kst: "kst demo demo_lists {0x300} {}"
  unfolding kst_def demo_thrs demo_objs
proof (intro conjI allI)
  show "tl_inv (thread_next demo) (thread_prev demo) {0x10, 0x400, 0x500, 0x600} {0x100, 0x200, 0x300} demo_lists"
  proof (rule tl_invI)
    show "thread_prev demo t = NULL" if "t \<in> {0x100, 0x200, 0x300}" "\<And>ob. t \<notin> set (demo_lists ob)" for t
    proof -
      have "t \<notin> set (demo_lists 0x10)" "t \<notin> set (demo_lists 0x400)" by (rule that(2))+
      then show ?thesis using that(1) by (auto simp: demo_def rtx0_def demo_lists_def)
    qed
  qed (auto simp: demo_def demo_lists_def rtx0_def split: if_splits)
  show "part_ok demo demo_lists {0x300} {}"
    by (rule part_okI, unfold demo_thrs) (auto simp: demo_def demo_lists_def rtx0_def is_blocked_def split: if_splits)
  show "prio_sorted (t_priority demo) (demo_lists ob)" for ob
    by (auto simp: demo_lists_def prio_sorted_Cons)
  show "stacks_ok demo"
    unfolding stacks_ok_def demo_thrs by (simp add: demo_def rtx0_def osRtxThreadRegPtr_def StackOffsetR0_def)
  show "o_id demo (ready_obj demo) = osRtxIdInvalid" by (simp add: demo_def rtx0_def)
qed

lemma demo_kinv: "kinv demo demo_lists [0x300] []"
  unfolding kinv_def using demo_kst
  by (simp add: dl_inv_def) (simp add: demo_def rtx0_def)

lemma demo_simps [simp]:
  "stable demo" "k_state demo = osRtxKernelRunning" "run_curr demo = 0x100" "run_next demo = 0x100"
  "ready_obj demo = 0x10" "isr_inv demo" "isr_items demo = []" "demo_lists 0x10 = [0x200]" "demo_lists 0x400 = [0x300]"
  "s_tokens demo = (\<lambda>_. 0)" "s_max_tokens demo 0x400 = 3" "o_id demo 0x400 = osRtxIdSemaphore"
  "delays demo [0x300] = [(0x300, 5)]" "t_priority demo 0x300 = 30" "t_priority demo 0x100 = 24" "t_priority demo 0x200 = 1"
  "isr_max demo = 4" "isr_cnt demo = 0" "isr_in demo = 0" "isr_out demo = 0" "isr_data demo = [0, 0, 0, 0]"
  "k_blocked demo = 0" "o_id demo 0x500 = osRtxIdMutex" "o_id demo 0x600 = osRtxIdEventFlags"
  by (simp_all add: demo_def rtx0_def stable_def isr_inv_def isr_items_def demo_lists_def delays_def)

end
