(* ===== verification/Semaphore.thy ===== *)
theory Semaphore
  imports Svc Demo
begin

text \<open>
  Semaphores (\<open>rtx_semaphore.c\<close>): the service calls, the ISR calls, the post-ISR processing
  and the public functions, which take one or the other way by the processor mode \<open>irq\<close>
  (\<open>IsrIrqMode() || IsIrqMasked()\<close>).
\<close>

section \<open>Operations\<close>

abbreviation (input) sizeof_os_semaphore_t :: u32 where "sizeof_os_semaphore_t \<equiv> 16"

definition SemaphoreTokenDecrement :: "addr \<Rightarrow> rtx \<Rightarrow> u32 \<times> rtx" where
  "SemaphoreTokenDecrement semaphore s =
     (let (prev, v) = atomic_dec16_nz (s_tokens s semaphore);
          s = s\<lparr>s_tokens := (s_tokens s)(semaphore := v)\<rparr>
      in (if prev \<noteq> 0 then 1 else 0, s))"

definition SemaphoreTokenIncrement :: "addr \<Rightarrow> rtx \<Rightarrow> u32 \<times> rtx" where
  "SemaphoreTokenIncrement semaphore s =
     (let (prev, v) = atomic_inc16_lt (s_tokens s semaphore) (s_max_tokens s semaphore);
          s = s\<lparr>s_tokens := (s_tokens s)(semaphore := v)\<rparr>
      in (if prev < s_max_tokens s semaphore then 1 else 0, s))"

definition osRtxSemaphorePostProcess :: "addr \<Rightarrow> rtx \<Rightarrow> rtx option" where
  "osRtxSemaphorePostProcess semaphore s =
     do {
       deref semaphore;
       if thread_next s semaphore \<noteq> NULL then do {
         let (ok, s) = SemaphoreTokenDecrement semaphore s;
         if ok \<noteq> 0 then do {
           (thread, s) \<leftarrow> osRtxThreadListGet semaphore s;
           osRtxThreadWaitExit thread osOK False s
         } else Some s
       } else Some s
     }"

definition svcRtxSemaphoreNew :: "u32 \<Rightarrow> u32 \<Rightarrow> os_attr option \<Rightarrow> rtx \<Rightarrow> (addr \<times> rtx) option" where
  "svcRtxSemaphoreNew max_count initial_count attr s =
     (if max_count = 0 \<or> max_count > osRtxSemaphoreTokenLimit \<or> initial_count > max_count then Some (NULL, s)
      else if \<not> attr_cb_ok sizeof_os_semaphore_t attr then Some (NULL, s)
      else
        (let (name, semaphore) = (case attr of Some a \<Rightarrow> (a_name a, a_cb_mem a) | None \<Rightarrow> (NULL, NULL)) in
         do {
           (semaphore, flags, s) \<leftarrow>
             (if semaphore = NULL then do {
                (semaphore, s) \<leftarrow> obj_alloc (mpi_semaphore s) sizeof_os_semaphore_t s;
                Some (semaphore, osRtxFlagSystemObject, s)
              } else Some (semaphore, 0, s));
           Some (semaphore,
             if semaphore \<noteq> NULL then
               s\<lparr>o_id := (o_id s)(semaphore := osRtxIdSemaphore),
                 o_flags := (o_flags s)(semaphore := flags),
                 o_name := (o_name s)(semaphore := name),
                 thread_next := (thread_next s)(semaphore := NULL),
                 s_tokens := (s_tokens s)(semaphore := ucast initial_count),
                 s_max_tokens := (s_max_tokens s)(semaphore := ucast max_count)\<rparr>
             else s)
         }))"

definition svcRtxSemaphoreGetName :: "addr \<Rightarrow> rtx \<Rightarrow> addr" where
  "svcRtxSemaphoreGetName semaphore s =
     (if semaphore = NULL \<or> o_id s semaphore \<noteq> osRtxIdSemaphore then NULL else o_name s semaphore)"

definition svcRtxSemaphoreAcquire :: "addr \<Rightarrow> u32 \<Rightarrow> rtx \<Rightarrow> (u32 \<times> rtx) option" where
  "svcRtxSemaphoreAcquire semaphore timeout s =
     (if semaphore = NULL \<or> o_id s semaphore \<noteq> osRtxIdSemaphore then Some (osErrorParameter, s)
      else
        (let (ok, s) = SemaphoreTokenDecrement semaphore s in
         if ok \<noteq> 0 then Some (osOK, s)
         else if timeout \<noteq> 0 then do {
           (_, s) \<leftarrow> wait_on semaphore osRtxThreadWaitingSemaphore timeout s;
           Some (osErrorTimeout, s)
         }
         else Some (osErrorResource, s)))"

definition svcRtxSemaphoreRelease :: "addr \<Rightarrow> rtx \<Rightarrow> (u32 \<times> rtx) option" where
  "svcRtxSemaphoreRelease semaphore s =
     (if semaphore = NULL \<or> o_id s semaphore \<noteq> osRtxIdSemaphore then Some (osErrorParameter, s)
      else if thread_next s semaphore \<noteq> NULL then do {
        (_, s) \<leftarrow> wake_first semaphore osOK True s;
        Some (osOK, s)
      }
      else
        (let (ok, s) = SemaphoreTokenIncrement semaphore s in
         if ok \<noteq> 0 then Some (osOK, s) else Some (osErrorResource, s)))"

definition svcRtxSemaphoreGetCount :: "addr \<Rightarrow> rtx \<Rightarrow> u32" where
  "svcRtxSemaphoreGetCount semaphore s =
     (if semaphore = NULL \<or> o_id s semaphore \<noteq> osRtxIdSemaphore then 0 else ucast (s_tokens s semaphore))"

definition svcRtxSemaphoreDelete :: "addr \<Rightarrow> rtx \<Rightarrow> (u32 \<times> rtx) option" where
  "svcRtxSemaphoreDelete semaphore s =
     (if semaphore = NULL \<or> o_id s semaphore \<noteq> osRtxIdSemaphore then Some (osErrorParameter, s)
      else do {
        s \<leftarrow> wake_all semaphore osErrorResource s;
        let s = s\<lparr>o_id := (o_id s)(semaphore := osRtxIdInvalid)\<rparr>;
        s \<leftarrow> (if o_flags s semaphore AND osRtxFlagSystemObject \<noteq> 0
               then obj_free (mpi_semaphore s) semaphore s else Some s);
        Some (osOK, s)
      })"

definition isrRtxSemaphoreAcquire :: "addr \<Rightarrow> u32 \<Rightarrow> rtx \<Rightarrow> u32 \<times> rtx" where
  "isrRtxSemaphoreAcquire semaphore timeout s =
     (if semaphore = NULL \<or> o_id s semaphore \<noteq> osRtxIdSemaphore \<or> timeout \<noteq> 0 then (osErrorParameter, s)
      else
        (let (ok, s) = SemaphoreTokenDecrement semaphore s in
         if ok \<noteq> 0 then (osOK, s) else (osErrorResource, s)))"

definition isrRtxSemaphoreRelease :: "addr \<Rightarrow> rtx \<Rightarrow> (u32 \<times> rtx) option" where
  "isrRtxSemaphoreRelease semaphore s =
     (if semaphore = NULL \<or> o_id s semaphore \<noteq> osRtxIdSemaphore then Some (osErrorParameter, s)
      else
        (let (ok, s) = SemaphoreTokenIncrement semaphore s in
         if ok \<noteq> 0 then do {
           s \<leftarrow> osRtxPostProcess semaphore s;
           Some (osOK, s)
         }
         else Some (osErrorResource, s)))"

definition osSemaphoreNew :: "bool \<Rightarrow> u32 \<Rightarrow> u32 \<Rightarrow> os_attr option \<Rightarrow> rtx \<Rightarrow> (addr \<times> rtx) option" where
  "osSemaphoreNew irq max_count initial_count attr s =
     (if irq then Some (NULL, s) else svc_call (svcRtxSemaphoreNew max_count initial_count attr) s)"

definition osSemaphoreGetName :: "bool \<Rightarrow> addr \<Rightarrow> rtx \<Rightarrow> (addr \<times> rtx) option" where
  "osSemaphoreGetName irq semaphore s =
     (if irq then Some (NULL, s) else svc_call (\<lambda>s. Some (svcRtxSemaphoreGetName semaphore s, s)) s)"

definition osSemaphoreAcquire :: "bool \<Rightarrow> addr \<Rightarrow> u32 \<Rightarrow> rtx \<Rightarrow> (u32 \<times> rtx) option" where
  "osSemaphoreAcquire irq semaphore timeout s =
     (if irq then Some (isrRtxSemaphoreAcquire semaphore timeout s)
      else svc_call (svcRtxSemaphoreAcquire semaphore timeout) s)"

definition osSemaphoreRelease :: "bool \<Rightarrow> addr \<Rightarrow> rtx \<Rightarrow> (u32 \<times> rtx) option" where
  "osSemaphoreRelease irq semaphore s =
     (if irq then isrRtxSemaphoreRelease semaphore s else svc_call (svcRtxSemaphoreRelease semaphore) s)"

definition osSemaphoreGetCount :: "bool \<Rightarrow> addr \<Rightarrow> rtx \<Rightarrow> (u32 \<times> rtx) option" where
  "osSemaphoreGetCount irq semaphore s =
     (if irq then Some (svcRtxSemaphoreGetCount semaphore s, s)
      else svc_call (\<lambda>s. Some (svcRtxSemaphoreGetCount semaphore s, s)) s)"

definition osSemaphoreDelete :: "bool \<Rightarrow> addr \<Rightarrow> rtx \<Rightarrow> (u32 \<times> rtx) option" where
  "osSemaphoreDelete irq semaphore s =
     (if irq then Some (osErrorISR, s) else svc_call (svcRtxSemaphoreDelete semaphore) s)"

section \<open>Lemmas\<close>

text \<open>A semaphore object: a valid control block, which is not the ready list.\<close>

definition is_semaphore :: "rtx \<Rightarrow> addr \<Rightarrow> bool" where
  "is_semaphore s sem \<longleftrightarrow> sem \<noteq> NULL \<and> o_id s sem = osRtxIdSemaphore"

lemma is_semaphore_objs:
  assumes "is_semaphore s sem" "kinv s L D W"
  shows "sem \<in> objs s" "sem \<noteq> ready_obj s"
  using assms kstD(5) [OF kinvD(1) [OF assms(2)]]
  by (auto simp: is_semaphore_def objs_def has_thread_list_def)

lemma core_eq_tokens: "core_eq s (s\<lparr>s_tokens := f\<rparr>)"
  by (simp add: core_eq_def)

lemma SemaphoreTokenDecrement_eq:
  "SemaphoreTokenDecrement sem s =
    (if s_tokens s sem = 0 then (0, s) else (1, s\<lparr>s_tokens := (s_tokens s)(sem := s_tokens s sem - 1)\<rparr>))"
proof (cases "s_tokens s sem = 0")
  case True
  then have "(s_tokens s)(sem := 0) = s_tokens s" by auto
  then show ?thesis using True by (simp add: SemaphoreTokenDecrement_def atomic_dec16_nz_def)
qed (simp add: SemaphoreTokenDecrement_def atomic_dec16_nz_def)

lemma SemaphoreTokenIncrement_eq:
  "SemaphoreTokenIncrement sem s =
    (if s_tokens s sem < s_max_tokens s sem then (1, s\<lparr>s_tokens := (s_tokens s)(sem := s_tokens s sem + 1)\<rparr>) else (0, s))"
  by (simp add: SemaphoreTokenIncrement_def atomic_inc16_lt_def)

lemma sem_acquire_token:
  assumes "is_semaphore s sem" "s_tokens s sem \<noteq> 0"
  shows "svcRtxSemaphoreAcquire sem timeout s = Some (osOK, s\<lparr>s_tokens := (s_tokens s)(sem := s_tokens s sem - 1)\<rparr>)"
  using assms by (simp add: svcRtxSemaphoreAcquire_def is_semaphore_def SemaphoreTokenDecrement_eq)

lemma sem_acquire_poll:
  assumes "is_semaphore s sem" "s_tokens s sem = 0"
  shows "svcRtxSemaphoreAcquire sem 0 s = Some (osErrorResource, s)"
  using assms by (simp add: svcRtxSemaphoreAcquire_def is_semaphore_def SemaphoreTokenDecrement_eq)

lemma sem_acquire_wait:
  assumes k: "kinv s L D W" and st: "stable s" and sem: "is_semaphore s sem" "s_tokens s sem = 0" and v: "timeout \<noteq> 0"
    and w: "can_wait s L"
  shows "\<exists>s' D' W'. svcRtxSemaphoreAcquire sem timeout s = Some (osErrorTimeout, s') \<and> sched_frame s s'
    \<and> run_next s' = hd (L (ready_obj s)) \<and> kinv s' (wait_lists s sem (run_curr s) L) D' W'
    \<and> wait_dl s (run_curr s) timeout D W s' D' W' \<and> o_state s' (run_curr s) = osRtxThreadWaitingSemaphore
    \<and> prio_ok s' (wait_lists s sem (run_curr s) L)"
proof -
  note ob = is_semaphore_objs [OF sem(1) k]
  have b: "is_blocked osRtxThreadWaitingSemaphore" by (simp add: is_blocked_def)
  have c: "k_state s = osRtxKernelRunning" "run_curr s \<noteq> NULL" "L (ready_obj s) \<noteq> []" using w by (auto simp: can_wait_def)
  show ?thesis
  proof -
    obtain s' D' W' where s': "wait_on sem osRtxThreadWaitingSemaphore timeout s = Some (True, s')" "sched_frame s s'"
      "run_next s' = hd (L (ready_obj s))" "kinv s' (wait_lists s sem (run_curr s) L) D' W'"
      "wait_dl s (run_curr s) timeout D W s' D' W'" "o_state s' (run_curr s) = osRtxThreadWaitingSemaphore"
      "prio_ok s' (wait_lists s sem (run_curr s) L)"
      using wait_on_kinv [OF k ob st c(1) refl c(2,3) b v] by blast
    have "svcRtxSemaphoreAcquire sem timeout s = Some (osErrorTimeout, s')"
      using s'(1) sem v by (simp add: svcRtxSemaphoreAcquire_def is_semaphore_def SemaphoreTokenDecrement_eq)
    then show ?thesis using s' by blast
  qed
qed

lemma sem_acquire_nowait:
  assumes "kinv s L D W" "is_semaphore s sem" "s_tokens s sem = 0" "timeout \<noteq> 0" "\<not> can_wait s L"
  shows "svcRtxSemaphoreAcquire sem timeout s = Some (osErrorTimeout, s)"
proof -
  have "wait_on sem osRtxThreadWaitingSemaphore timeout s = Some (False, s)"
    by (rule wait_on_fail [OF assms(1)]) (use assms(5) in \<open>auto simp: can_wait_def\<close>)
  then show ?thesis using assms by (simp add: svcRtxSemaphoreAcquire_def is_semaphore_def SemaphoreTokenDecrement_eq)
qed

lemma sem_release_waiter:
  assumes k: "kinv s L D W" and st: "stable s" and sem: "is_semaphore s sem" and L: "L sem = t # ts"
  shows "\<exists>s'. svcRtxSemaphoreRelease sem s = Some (osOK, s') \<and> sched_frame s s'
    \<and> kinv s' (exit_lists s t True (L(sem := ts))) (remove1 t D) (remove1 t W) \<and> run_next s' = exit_run s t True
    \<and> mem32 s' = (mem32 s)(osRtxThreadRegPtr t s := osOK)"
proof -
  note ob = is_semaphore_objs [OF sem k]
  obtain s' where s': "wake_first sem osOK True s = Some (t, s')" "sched_frame s s'"
    "kinv s' (exit_lists s t True (L(sem := ts))) (remove1 t D) (remove1 t W)" "run_next s' = exit_run s t True"
    "mem32 s' = (mem32 s)(osRtxThreadRegPtr t s := osOK)"
    using wake_first_kinv [OF k ob L, of True osOK] st by blast
  have "thread_next s sem \<noteq> NULL" using kinv_head(2) [OF k ob(1)] L by simp
  then show ?thesis using s' sem by (simp add: svcRtxSemaphoreRelease_def is_semaphore_def)
qed

lemma sem_release_token:
  assumes k: "kinv s L D W" and sem: "is_semaphore s sem" and L: "L sem = []"
  shows "svcRtxSemaphoreRelease sem s =
    (if s_tokens s sem < s_max_tokens s sem
     then Some (osOK, s\<lparr>s_tokens := (s_tokens s)(sem := s_tokens s sem + 1)\<rparr>) else Some (osErrorResource, s))"
  using kinv_head(2) [OF k is_semaphore_objs(1) [OF sem k]] L sem
  by (simp add: svcRtxSemaphoreRelease_def is_semaphore_def SemaphoreTokenIncrement_eq)

lemma sem_post_process:
  assumes k: "kinv s L D W" and sem: "is_semaphore s sem"
  shows "L sem = [] \<or> s_tokens s sem = 0 \<Longrightarrow> osRtxSemaphorePostProcess sem s = Some s"
    and "L sem = t # ts \<Longrightarrow> s_tokens s sem \<noteq> 0 \<Longrightarrow> \<exists>s'. osRtxSemaphorePostProcess sem s = Some s'
      \<and> sched_frame (s\<lparr>s_tokens := (s_tokens s)(sem := s_tokens s sem - 1)\<rparr>) s'
      \<and> kinv s' (exit_lists s t False (L(sem := ts))) (remove1 t D) (remove1 t W) \<and> run_next s' = run_next s
      \<and> mem32 s' = (mem32 s)(osRtxThreadRegPtr t s := osOK)"
proof -
  note ob = is_semaphore_objs [OF sem k]
  have n: "sem \<noteq> NULL" using sem by (simp add: is_semaphore_def)
  note hd = kinv_head(2) [OF k ob(1)]
  show "L sem = [] \<or> s_tokens s sem = 0 \<Longrightarrow> osRtxSemaphorePostProcess sem s = Some s"
    using hd n by (auto simp: osRtxSemaphorePostProcess_def SemaphoreTokenDecrement_eq)
  assume L: "L sem = t # ts" and tk: "s_tokens s sem \<noteq> 0"
  let ?s = "s\<lparr>s_tokens := (s_tokens s)(sem := s_tokens s sem - 1)\<rparr>"
  note C = core_eqD [OF core_eq_tokens [of s "(s_tokens s)(sem := s_tokens s sem - 1)"]]
  obtain s' where "wake_first sem osOK False ?s = Some (t, s')" "sched_frame ?s s'"
    "kinv s' (exit_lists ?s t False (L(sem := ts))) (remove1 t D) (remove1 t W)" "run_next s' = exit_run ?s t False"
    "mem32 s' = (mem32 ?s)(osRtxThreadRegPtr t ?s := osOK)"
    using wake_first_kinv [of ?s L D W sem t ts False osOK] k ob L C by auto
  then show "\<exists>s'. osRtxSemaphorePostProcess sem s = Some s' \<and> sched_frame ?s s'
      \<and> kinv s' (exit_lists s t False (L(sem := ts))) (remove1 t D) (remove1 t W) \<and> run_next s' = run_next s
      \<and> mem32 s' = (mem32 s)(osRtxThreadRegPtr t s := osOK)"
    using hd n L tk C
    by (auto simp: osRtxSemaphorePostProcess_def SemaphoreTokenDecrement_eq wake_first_def exit_run_def bind_eq_Some_conv)
qed

section \<open>No token is lost\<close>

text \<open>
  \<open>sem_ok\<close>: the tokens stay below the maximum, and while threads wait every token is
  announced by an entry of the ISR queue.  So when the queue has been processed no thread
  waits for a token that is there.
\<close>

definition sem_ok :: "rtx \<Rightarrow> (addr \<Rightarrow> addr list) \<Rightarrow> addr \<Rightarrow> bool" where
  "sem_ok s L sem \<longleftrightarrow> unat (s_tokens s sem) \<le> unat (s_max_tokens s sem) \<and>
     (L sem \<noteq> [] \<longrightarrow> unat (s_tokens s sem) \<le> count_list (isr_items s) sem)"

definition sem_state :: "addr \<Rightarrow> rtx \<Rightarrow> bool" where
  "sem_state sem s \<longleftrightarrow> (\<exists>L D W. kinv s L D W \<and> stable s \<and> is_semaphore s sem \<and> isr_inv s \<and> sem_ok s L sem)"

text \<open>
  The steps of a semaphore: a thread acquires or releases it, an interrupt acquires or
  releases it, the post-ISR processing takes it from the queue, or a tick wakes the threads
  whose timeout has run out.
\<close>

inductive sem_step :: "addr \<Rightarrow> rtx \<Rightarrow> rtx \<Rightarrow> bool" for sem where
  acquire: "osSemaphoreAcquire False sem timeout s = Some (r, s') \<Longrightarrow> sem_step sem s s'"
| release: "osSemaphoreRelease False sem s = Some (r, s') \<Longrightarrow> sem_step sem s s'"
| isr_acquire: "osSemaphoreAcquire True sem timeout s = Some (r, s') \<Longrightarrow> sem_step sem s s'"
| isr_release: "osSemaphoreRelease True sem s = Some (r, s') \<Longrightarrow> sem_step sem s s'"
| post: "isr_get s = (Some sem, s1) \<Longrightarrow> osRtxSemaphorePostProcess sem s1 = Some s' \<Longrightarrow> sem_step sem s s'"
| tick: "osRtxThreadDelayTick s = Some s' \<Longrightarrow> sem_step sem s s'"

inductive_cases sem_stepE: "sem_step sem s s'"

lemma sched_frame_sem:
  assumes "sched_frame s s'"
  shows "is_semaphore s' sem = is_semaphore s sem" "s_tokens s' = s_tokens s" "s_max_tokens s' = s_max_tokens s"
  by (simp_all add: is_semaphore_def sched_frameD [OF assms])

lemma tokens_less: "x < m \<Longrightarrow> unat (x + 1 :: u16) = unat x + 1"
  using unat_add_lt [of x 1] unat_16_lt [of m] by (simp add: word_less_nat_alt)

lemma lists_sem [simp]:
  assumes "sem \<noteq> ready_obj s"
  shows "exit_lists s t d L sem = L sem" "sem \<noteq> ob \<Longrightarrow> wait_lists s ob r L sem = L sem"
  using assms by (simp_all add: exit_lists_def disp_lists_def ready_put_def ready_push_def wait_lists_def Let_def)

lemma wake_sub: "ob \<noteq> ready_obj s \<Longrightarrow> set (wake s t L ob) \<subseteq> set (L ob)"
  by (simp add: wake_def ready_put_def unlist_def set_remove1_subset)

lemma fold_wake_sub: "ob \<noteq> ready_obj s \<Longrightarrow> set (fold (wake s) ts L ob) \<subseteq> set (L ob)"
proof (induction ts arbitrary: L)
  case (Cons t ts)
  then show ?case using wake_sub [OF Cons.prems, of t L] Cons.IH [of "wake s t L"] by auto
qed simp

lemma isr_tokens [simp]: "isr_items (s\<lparr>s_tokens := f\<rparr>) = isr_items s" "isr_inv (s\<lparr>s_tokens := f\<rparr>) = isr_inv s"
  by (simp_all add: isr_items_def isr_inv_def)

lemma sem_stateI:
  "kinv s L D W \<Longrightarrow> stable s \<Longrightarrow> is_semaphore s sem \<Longrightarrow> isr_inv s \<Longrightarrow> sem_ok s L sem \<Longrightarrow> sem_state sem s"
  unfolding sem_state_def by blast

lemma sem_state_cs:
  assumes "kinv s L D W" "is_semaphore s sem" "isr_inv s" "sem_ok s L sem"
  shows "sem_state sem (context_switch s)"
proof (rule sem_stateI)
  show "kinv (context_switch s) L D W" "stable (context_switch s)" "isr_inv (context_switch s)"
    using assms by (simp_all add: context_switch_simps)
  show "is_semaphore (context_switch s) sem" "sem_ok (context_switch s) L sem"
    using assms by (simp_all add: is_semaphore_def sem_ok_def context_switch_simps) (simp_all add: context_switch_def)
qed

lemma sem_state_acquire:
  assumes s: "sem_state sem s" and a: "svcRtxSemaphoreAcquire sem timeout s = Some (r, s')"
  shows "sem_state sem (context_switch s')"
proof -
  obtain L D W where k: "kinv s L D W" and st: "stable s" and sem: "is_semaphore s sem" and i: "isr_inv s"
    and ok: "sem_ok s L sem" using s by (auto simp: sem_state_def)
  have same: "sem_state sem (context_switch s)" by (rule sem_state_cs [OF k sem i ok])
  show ?thesis
  proof (cases "s_tokens s sem = 0")
    case False
    have e: "s' = s\<lparr>s_tokens := (s_tokens s)(sem := s_tokens s sem - 1)\<rparr>"
      using sem_acquire_token [OF sem False] a by simp
    have "sem_ok s' L sem" using ok False by (auto simp: sem_ok_def e unat_dec)
    moreover have "isr_inv s'" using i by (simp add: e isr_inv_def isr_items_def)
    moreover have "is_semaphore s' sem" using sem by (simp add: e is_semaphore_def)
    moreover have "kinv s' L D W" using k core_eqD(1) [OF core_eq_tokens] by (simp add: e)
    ultimately show ?thesis by (blast intro: sem_state_cs)
  next
    case True
    show ?thesis
    proof (cases "timeout \<noteq> 0 \<and> can_wait s L")
      case False
      then have "s' = s"
        using sem_acquire_poll [OF sem True] sem_acquire_nowait [OF k sem True] a by (cases "timeout = 0") auto
      then show ?thesis using same by simp
    next
      case w: True
      obtain s1 D' W' where s1: "svcRtxSemaphoreAcquire sem timeout s = Some (osErrorTimeout, s1)" "sched_frame s s1"
        "kinv s1 (wait_lists s sem (run_curr s) L) D' W'" using sem_acquire_wait [OF k st sem True] w by blast
      have "s' = s1" using s1(1) a by simp
      then have "kinv s' (wait_lists s sem (run_curr s) L) D' W'" "is_semaphore s' sem" "isr_inv s'"
        "sem_ok s' (wait_lists s sem (run_curr s) L) sem"
        using s1 sched_frame_sem [OF s1(2)] sched_frame_isr [OF s1(2)] sem i True
        by (simp_all add: sem_ok_def)
      then show ?thesis by (blast intro: sem_state_cs)
    qed
  qed
qed

lemma sem_state_release:
  assumes s: "sem_state sem s" and a: "svcRtxSemaphoreRelease sem s = Some (r, s')"
  shows "sem_state sem (context_switch s')"
proof -
  obtain L D W where k: "kinv s L D W" and st: "stable s" and sem: "is_semaphore s sem" and i: "isr_inv s"
    and ok: "sem_ok s L sem" using s by (auto simp: sem_state_def)
  note ob = is_semaphore_objs [OF sem k]
  show ?thesis
  proof (cases "L sem")
    case Nil
    show ?thesis
    proof (cases "s_tokens s sem < s_max_tokens s sem")
      case True
      have e: "s' = s\<lparr>s_tokens := (s_tokens s)(sem := s_tokens s sem + 1)\<rparr>"
        using sem_release_token [OF k sem Nil] a True by simp
      have "sem_ok s' L sem"
        using True tokens_less [OF True] Nil by (simp add: sem_ok_def e word_less_nat_alt)
      moreover have "isr_inv s'" using i by (simp add: e isr_inv_def isr_items_def)
      moreover have "is_semaphore s' sem" using sem by (simp add: e is_semaphore_def)
      moreover have "kinv s' L D W" using k core_eqD(1) [OF core_eq_tokens] by (simp add: e)
      ultimately show ?thesis by (blast intro: sem_state_cs)
    next
      case False
      then have "s' = s" using sem_release_token [OF k sem Nil] a by simp
      then show ?thesis using sem_state_cs [OF k sem i ok] by simp
    qed
  next
    case (Cons t ts)
    obtain s1 where s1: "svcRtxSemaphoreRelease sem s = Some (osOK, s1)" "sched_frame s s1"
      "kinv s1 (exit_lists s t True (L(sem := ts))) (remove1 t D) (remove1 t W)"
      using sem_release_waiter [OF k st sem Cons] by blast
    have "s' = s1" using s1(1) a by simp
    then have "kinv s' (exit_lists s t True (L(sem := ts))) (remove1 t D) (remove1 t W)" "is_semaphore s' sem" "isr_inv s'"
      "sem_ok s' (exit_lists s t True (L(sem := ts))) sem"
      using s1 sched_frame_sem [OF s1(2)] sched_frame_isr [OF s1(2)] sem i ok ob Cons
      by (simp_all add: sem_ok_def)
    then show ?thesis by (blast intro: sem_state_cs)
  qed
qed

lemma sem_state_tokens:
  assumes "kinv s L D W" "stable s" "is_semaphore s sem" "isr_inv s" "sem_ok (s\<lparr>s_tokens := f\<rparr>) L sem"
  shows "sem_state sem (s\<lparr>s_tokens := f\<rparr>)"
  using assms core_eqD(1,4) [OF core_eq_tokens [of s f]]
  by (intro sem_stateI) (simp_all add: is_semaphore_def isr_inv_def isr_items_def)

lemma sem_state_isr_acquire:
  assumes s: "sem_state sem s" and a: "isrRtxSemaphoreAcquire sem timeout s = (r, s')"
  shows "sem_state sem s'"
proof -
  obtain L D W where k: "kinv s L D W" "stable s" "is_semaphore s sem" "isr_inv s" and ok: "sem_ok s L sem"
    using s by (auto simp: sem_state_def)
  have e: "s' = s \<or> s_tokens s sem \<noteq> 0 \<and> s' = s\<lparr>s_tokens := (s_tokens s)(sem := s_tokens s sem - 1)\<rparr>"
    using a by (auto simp: isrRtxSemaphoreAcquire_def SemaphoreTokenDecrement_eq split: if_splits)
  show ?thesis
  proof (cases "s' = s")
    case False
    then have tk: "s_tokens s sem \<noteq> 0" and e': "s' = s\<lparr>s_tokens := (s_tokens s)(sem := s_tokens s sem - 1)\<rparr>"
      using e by auto
    show ?thesis
      unfolding e' by (rule sem_state_tokens [OF k]) (use ok tk in \<open>auto simp: sem_ok_def unat_dec\<close>)
  qed (use s in simp)
qed

lemma sem_state_isr_release:
  assumes s: "sem_state sem s" and a: "isrRtxSemaphoreRelease sem s = Some (r, s')"
  shows "sem_state sem s'"
proof -
  obtain L D W where k: "kinv s L D W" "stable s" and sem: "is_semaphore s sem" and i: "isr_inv s" and ok: "sem_ok s L sem"
    using s by (auto simp: sem_state_def)
  have n: "sem \<noteq> NULL" using sem by (simp add: is_semaphore_def)
  show ?thesis
  proof (cases "s_tokens s sem < s_max_tokens s sem")
    case False
    then have "s' = s" using a sem by (auto simp: isrRtxSemaphoreRelease_def is_semaphore_def SemaphoreTokenIncrement_eq)
    then show ?thesis using s by simp
  next
    case True
    let ?s = "s\<lparr>s_tokens := (s_tokens s)(sem := s_tokens s sem + 1)\<rparr>"
    have pp: "osRtxPostProcess sem ?s = Some s'"
      using a sem True by (auto simp: isrRtxSemaphoreRelease_def is_semaphore_def SemaphoreTokenIncrement_eq bind_eq_Some_conv)
    have i1: "isr_inv ?s" "isr_items ?s = isr_items s" using i by (simp_all add: isr_inv_def isr_items_def)
    note P = osRtxPostProcess_spec [OF i1(1) n pp]
    note C = core_eqD [OF core_eq_tokens [of s "(s_tokens s)(sem := s_tokens s sem + 1)"]]
    note C' = core_eqD [OF conjunct1 [OF P]]
    have "kinv s' L D W" "stable s'" "is_semaphore s' sem" using k sem C C' by (simp_all add: is_semaphore_def)
    moreover have "sem_ok s' L sem"
      using ok P i1(2) tokens_less [OF True] True by (auto simp: sem_ok_def word_less_nat_alt)
    ultimately show ?thesis using P by (blast intro: sem_stateI)
  qed
qed

lemma sem_state_post:
  assumes s: "sem_state sem s" and g: "isr_get s = (Some sem, s1)" and a: "osRtxSemaphorePostProcess sem s1 = Some s'"
  shows "sem_state sem s'"
proof -
  obtain L D W where k: "kinv s L D W" "stable s" and sem: "is_semaphore s sem" and i: "isr_inv s" and ok: "sem_ok s L sem"
    using s by (auto simp: sem_state_def)
  note G = isr_get_spec [OF i g]
  note C = core_eqD [OF conjunct1 [OF G]]
  have k1: "kinv s1 L D W" "stable s1" "is_semaphore s1 sem" using k sem C by (simp_all add: is_semaphore_def)
  note ob = is_semaphore_objs [OF k1(3,1)]
  show ?thesis
  proof (cases "L sem = [] \<or> s_tokens s1 sem = 0")
    case True
    then have "s' = s1" "sem_ok s1 L sem" using sem_post_process(1) [OF k1(1,3)] a ok G by (auto simp: sem_ok_def)
    then show ?thesis using k1 G by (blast intro: sem_stateI)
  next
    case False
    then obtain t ts where L: "L sem = t # ts" and tk: "s_tokens s1 sem \<noteq> 0" by (cases "L sem") auto
    let ?s = "s1\<lparr>s_tokens := (s_tokens s1)(sem := s_tokens s1 sem - 1)\<rparr>"
    have s': "sched_frame ?s s'" "kinv s' (exit_lists s1 t False (L(sem := ts))) (remove1 t D) (remove1 t W)"
      "run_next s' = run_next s1" using sem_post_process(2) [OF k1(1,3) L tk] a by auto
    note F = sched_frame_sem [OF s'(1)] sched_frame_isr [OF s'(1)]
    have "stable s'" using k1(2) s'(3) sched_frameD [OF s'(1)] by (simp add: stable_def)
    moreover have "is_semaphore s' sem" using F(1) [of sem] k1(3) unfolding is_semaphore_def by simp
    moreover have "isr_inv s'" using F G by simp
    moreover have "sem_ok s' (exit_lists s1 t False (L(sem := ts))) sem"
      using ok G F ob tk L by (auto simp: sem_ok_def unat_dec)
    ultimately show ?thesis using s'(2) by (blast intro: sem_stateI)
  qed
qed

lemma sem_state_tick:
  assumes s: "sem_state sem s" and a: "osRtxThreadDelayTick s = Some s'"
  shows "sem_state sem s'"
proof -
  obtain L D W where k: "kinv s L D W" "stable s" and sem: "is_semaphore s sem" and i: "isr_inv s" and ok: "sem_ok s L sem"
    using s by (auto simp: sem_state_def)
  obtain D' where s': "sched_frame s s'" "run_next s' = run_next s"
    "kinv s' (fold (wake s) (tick_woken (delays s D)) L) D' W" using osRtxThreadDelayTick_kinv [OF k(1)] a by auto
  note F = sched_frame_sem [OF s'(1)] sched_frame_isr [OF s'(1)]
  have "stable s'" using k(2) s'(2) sched_frameD [OF s'(1)] by (simp add: stable_def)
  moreover have "L sem = [] \<Longrightarrow> fold (wake s) (tick_woken (delays s D)) L sem = []"
    using fold_wake_sub [OF is_semaphore_objs(2) [OF sem k(1)], of "tick_woken (delays s D)" L] by simp
  then have "sem_ok s' (fold (wake s) (tick_woken (delays s D)) L) sem"
    using ok F by (auto simp: sem_ok_def)
  ultimately show ?thesis using s' F sem i by (intro sem_stateI) auto
qed

lemma sem_state_step: "sem_step sem s s' \<Longrightarrow> sem_state sem s \<Longrightarrow> sem_state sem s'"
proof (erule sem_stepE)
  show "sem_state sem s \<Longrightarrow> osSemaphoreAcquire False sem timeout s = Some (r, s') \<Longrightarrow> sem_state sem s'" for timeout r
    using sem_state_acquire by (auto simp: osSemaphoreAcquire_def svc_call_def bind_eq_Some_conv)
  show "sem_state sem s \<Longrightarrow> osSemaphoreRelease False sem s = Some (r, s') \<Longrightarrow> sem_state sem s'" for r
    using sem_state_release by (auto simp: osSemaphoreRelease_def svc_call_def bind_eq_Some_conv)
  show "sem_state sem s \<Longrightarrow> osSemaphoreAcquire True sem timeout s = Some (r, s') \<Longrightarrow> sem_state sem s'" for timeout r
    using sem_state_isr_acquire by (auto simp: osSemaphoreAcquire_def)
  show "sem_state sem s \<Longrightarrow> osSemaphoreRelease True sem s = Some (r, s') \<Longrightarrow> sem_state sem s'" for r
    using sem_state_isr_release by (auto simp: osSemaphoreRelease_def)
  show "sem_state sem s \<Longrightarrow> isr_get s = (Some sem, s1) \<Longrightarrow> osRtxSemaphorePostProcess sem s1 = Some s' \<Longrightarrow> sem_state sem s'" for s1
    by (rule sem_state_post)
  show "sem_state sem s \<Longrightarrow> osRtxThreadDelayTick s = Some s' \<Longrightarrow> sem_state sem s'" by (rule sem_state_tick)
qed

lemma sem_state_reach: "(sem_step sem)\<^sup>*\<^sup>* s s' \<Longrightarrow> sem_state sem s \<Longrightarrow> sem_state sem s'"
  by (induction rule: rtranclp_induct) (blast intro: sem_state_step)+

section \<open>Properties\<close>

text \<open>C12: acquiring a semaphore returns on every branch and keeps the kernel invariant: a free token is
  taken; without one, a call without a timeout fails with \<open>osErrorResource\<close> and changes nothing, and a call with a
  timeout queues the running thread by its priority with the semaphore and by its timeout with the delays, and
  switches to the first ready thread.\<close>

theorem semaphore_acquire:
  assumes "kinv s L D W" "stable s" "is_semaphore s sem"
  shows "\<exists>r s' L' D' W'. svcRtxSemaphoreAcquire sem timeout s = Some (r, s') \<and> kinv s' L' D' W' \<and>
    (if s_tokens s sem \<noteq> 0 then r = osOK \<and> s' = s\<lparr>s_tokens := (s_tokens s)(sem := s_tokens s sem - 1)\<rparr>
     else if timeout = 0 then r = osErrorResource \<and> s' = s
     else r = osErrorTimeout \<and>
       (if can_wait s L then L' = wait_lists s sem (run_curr s) L \<and> wait_dl s (run_curr s) timeout D W s' D' W' \<and>
          run_next s' = hd (L (ready_obj s)) \<and> o_state s' (run_curr s) = osRtxThreadWaitingSemaphore \<and>
          s_tokens s' = s_tokens s
        else s' = s))"
proof (cases "s_tokens s sem = 0")
  case False
  show ?thesis
    by (rule exI [of _ osOK], rule exI, rule exI [of _ L], rule exI [of _ D], rule exI [of _ W])
      (use sem_acquire_token [OF assms(3) False] core_eqD(1) [OF core_eq_tokens] assms(1) False in auto)
next
  case tk: True
  consider "timeout = 0" | "timeout \<noteq> 0" "can_wait s L" | "timeout \<noteq> 0" "\<not> can_wait s L" by blast
  then show ?thesis
  proof cases
    case 1
    then show ?thesis using sem_acquire_poll [OF assms(3) tk] assms(1) tk by auto
  next
    case 2
    obtain s' D' W' where s': "svcRtxSemaphoreAcquire sem timeout s = Some (osErrorTimeout, s')" "sched_frame s s'"
      "run_next s' = hd (L (ready_obj s))" "kinv s' (wait_lists s sem (run_curr s) L) D' W'"
      "wait_dl s (run_curr s) timeout D W s' D' W'" "o_state s' (run_curr s) = osRtxThreadWaitingSemaphore"
      using sem_acquire_wait [OF assms tk 2] by blast
    have "s_tokens s' = s_tokens s" using sched_frame_sem(2) [OF s'(2)] .
    then show ?thesis using s' 2 tk
      by (intro exI [of _ osErrorTimeout] exI [of _ s'] exI [of _ "wait_lists s sem (run_curr s) L"]
          exI [of _ D'] exI [of _ W']) simp
  next
    case 3
    then show ?thesis using sem_acquire_nowait [OF assms(1,3) tk 3] assms(1) tk by auto
  qed
qed

theorem semaphore_acquire_witness:
  "\<exists>s' L' D' W'. svcRtxSemaphoreAcquire 0x400 7 demo = Some (osErrorTimeout, s') \<and> kinv s' L' D' W' \<and>
     L' 0x400 = [0x300, 0x100] \<and> delays s' D' = [(0x300, 5), (0x100, 7)] \<and> run_next s' = 0x200"
proof -
  have "is_semaphore demo 0x400" by (simp add: is_semaphore_def)
  from semaphore_acquire [OF demo_kinv demo_simps(1) this, of 7] obtain s' L' D' W' where
    "svcRtxSemaphoreAcquire 0x400 7 demo = Some (osErrorTimeout, s')" "kinv s' L' D' W'"
    "L' 0x400 = [0x300, 0x100]" "delays s' D' = [(0x300, 5), (0x100, 7)]" "run_next s' = 0x200"
    by (auto simp: can_wait_def wait_lists_def wait_dl_def prio_put_def ins_after_Cons)
  then show ?thesis by blast
qed

text \<open>C13: releasing a semaphore hands the token to the first waiting thread, which returns with \<open>osOK\<close> and
  preempts the caller if its priority is higher; without waiters the count goes up, unless it is at the
  maximum, where the call fails with \<open>osErrorResource\<close> and changes nothing.\<close>

theorem semaphore_release:
  assumes "kinv s L D W" "stable s" "is_semaphore s sem"
  shows "\<exists>r s' L' D' W'. svcRtxSemaphoreRelease sem s = Some (r, s') \<and> kinv s' L' D' W' \<and>
    (case L sem of
       t # ts \<Rightarrow> r = osOK \<and> L' = exit_lists s t True (L(sem := ts)) \<and> D' = remove1 t D \<and> W' = remove1 t W \<and>
         mem32 s' = (mem32 s)(osRtxThreadRegPtr t s := osOK) \<and> s_tokens s' = s_tokens s \<and>
         run_next s' = (if preempts s t then t else run_next s)
     | [] \<Rightarrow> if s_tokens s sem < s_max_tokens s sem
         then r = osOK \<and> s' = s\<lparr>s_tokens := (s_tokens s)(sem := s_tokens s sem + 1)\<rparr>
         else r = osErrorResource \<and> s' = s)"
proof (cases "L sem")
  case Nil
  show ?thesis
  proof (cases "s_tokens s sem < s_max_tokens s sem")
    case True
    show ?thesis
      by (rule exI [of _ osOK], rule exI, rule exI [of _ L], rule exI [of _ D], rule exI [of _ W])
        (use sem_release_token [OF assms(1,3) Nil] core_eqD(1) [OF core_eq_tokens] assms(1) True Nil in auto)
  next
    case False
    show ?thesis
      by (rule exI [of _ osErrorResource], rule exI [of _ s], rule exI [of _ L], rule exI [of _ D], rule exI [of _ W])
        (use sem_release_token [OF assms(1,3) Nil] assms(1) False Nil in auto)
  qed
next
  case (Cons t ts)
  obtain s' where s': "svcRtxSemaphoreRelease sem s = Some (osOK, s')" "sched_frame s s'"
    "kinv s' (exit_lists s t True (L(sem := ts))) (remove1 t D) (remove1 t W)" "run_next s' = exit_run s t True"
    "mem32 s' = (mem32 s)(osRtxThreadRegPtr t s := osOK)"
    using sem_release_waiter [OF assms Cons] by blast
  then show ?thesis using sched_frame_sem(2) [OF s'(2)] Cons
    by (intro exI [of _ osOK] exI [of _ s'] exI [of _ "exit_lists s t True (L(sem := ts))"]
        exI [of _ "remove1 t D"] exI [of _ "remove1 t W"]) (simp add: exit_run_def disp_run_def)
qed

theorem semaphore_release_witness:
  "\<exists>s' L' D' W'. svcRtxSemaphoreRelease 0x400 demo = Some (osOK, s') \<and> kinv s' L' D' W' \<and> run_next s' = 0x300 \<and>
     L' 0x10 = [0x100, 0x200] \<and> D' = []"
proof -
  have "is_semaphore demo 0x400" by (simp add: is_semaphore_def)
  from semaphore_release [OF demo_kinv demo_simps(1) this] obtain s' L' D' W' where
    "svcRtxSemaphoreRelease 0x400 demo = Some (osOK, s')" "kinv s' L' D' W'" "run_next s' = 0x300"
    "L' 0x10 = [0x100, 0x200]" "D' = []"
    by (auto simp: exit_lists_def disp_lists_def preempts_def ready_push_def prio_push_def ins_after_Cons)
  then show ?thesis by blast
qed



end
