(* ===== verification/Prio.thy ===== *)
theory Prio
  imports Svc
begin

text \<open>
  Changing the priority of a thread and sorting it into its list again
  (\<open>osRtxThreadListSort\<close>): priority inheritance and \<open>osThreadSetPriority\<close>.
\<close>

definition reprio :: "(addr \<Rightarrow> int) \<Rightarrow> addr \<Rightarrow> (addr \<Rightarrow> addr list) \<Rightarrow> addr \<Rightarrow> addr list" where
  "reprio pr t L = (\<lambda>ob. if t \<in> set (L ob) then prio_put pr t (remove1 t (L ob)) else L ob)"

lemma set_reprio [simp]: "set (reprio pr t L ob) = set (L ob)"
  by (auto simp: reprio_def prio_put_def dest: set_remove1_subset [THEN subsetD]) (metis in_set_remove1)

lemma reprio_Nil [simp]: "reprio pr t L ob = [] \<longleftrightarrow> L ob = []"
  using set_reprio [of pr t L ob] by (metis set_empty)

lemma reprio_none: "(\<And>ob. t \<notin> set (L ob)) \<Longrightarrow> reprio pr t L = L"
  by (simp add: reprio_def fun_eq_iff)

lemma sorted_reprio:
  assumes "prio_sorted pr (L ob)" "distinct (L ob)"
  shows "prio_sorted (pr(t := p)) (reprio (pr(t := p)) t L ob)"
proof (cases "t \<in> set (L ob)")
  case True
  have "t \<notin> set (remove1 t (L ob))" using assms(2) by simp
  then have "prio_sorted (pr(t := p)) (remove1 t (L ob)) = prio_sorted pr (remove1 t (L ob))"
    by (intro prio_sorted_cong) auto
  then have "prio_sorted (pr(t := p)) (remove1 t (L ob))" using prio_sorted_remove1 [OF assms(1)] by simp
  then show ?thesis using True by (simp add: reprio_def prio_sorted_put)
next
  case False
  then have "prio_sorted (pr(t := p)) (L ob) = prio_sorted pr (L ob)" by (intro prio_sorted_cong) auto
  then show ?thesis using assms(1) False by (simp add: reprio_def)
qed

lemma part_ok_lists:
  assumes "part_ok s L B C" "\<And>ob. set (L' ob) = set (L ob)"
  shows "part_ok s L' B C"
  using assms(1) unfolding part_ok_def assms(2) .

lemma ListSort_kinv:
  assumes k: "kinv s L D W" and t: "t \<in> thrs s"
    and s1: "s1 = s\<lparr>t_priority := (t_priority s)(t := p)\<rparr>"
  shows "\<exists>s'. osRtxThreadListSort t s1 = Some s' \<and> rl_frame s1 s' \<and> run_next s' = run_next s \<and> o_state s' = o_state s
    \<and> kinv s' (reprio (t_priority s1) t L) D W"
proof -
  note K = kinvD [OF k]
  note KS = kstD [OF K(1)]
  have th: "thrs s1 = thrs s" "objs s1 = objs s" by (simp_all add: s1 thrs_def objs_def)
  have inv1: "tl_inv (thread_next s1) (thread_prev s1) (objs s) (thrs s) L" using KS(1) by (simp add: s1)
  let ?L = "reprio (t_priority s1) t L"
  have "\<exists>nx pv. osRtxThreadListSort t s1 = Some (s1\<lparr>thread_next := nx, thread_prev := pv\<rparr>)
    \<and> tl_same (objs s) (thrs s) s1 nx pv \<and> tl_inv nx pv (objs s) (thrs s) ?L"
  proof (cases "\<exists>ob. t \<in> set (L ob)")
    case True
    then obtain ob where ob: "t \<in> set (L ob)" by blast
    have L: "?L = L(ob := prio_put (t_priority s1) t (remove1 t (L ob)))"
    proof
      fix a
      have "a \<noteq> ob \<Longrightarrow> t \<notin> set (L a)" using tl_invD(4) [OF KS(1) ob] by blast
      then show "?L a = (L(ob := prio_put (t_priority s1) t (remove1 t (L ob)))) a"
        using ob by (simp add: reprio_def)
    qed
    have ids: "\<And>x. x \<in> thrs s \<Longrightarrow> o_id s1 x = osRtxIdThread" "\<And>x. x \<in> objs s \<Longrightarrow> o_id s1 x \<noteq> osRtxIdThread"
      using KS(5) by (auto simp: s1 thrs_def objs_def has_thread_list_def)
    show ?thesis unfolding L by (rule osRtxThreadListSort_tl [OF inv1 ob ids])
  next
    case False
    then have no: "\<And>ob. t \<notin> set (L ob)" by blast
    have "osRtxThreadListSort t s1 = Some s1"
      by (rule osRtxThreadListSort_none [OF inv1 t no]) (use in_thrs [OF t] in \<open>simp add: s1\<close>)
    then show ?thesis
      using inv1 reprio_none [OF no] by (intro exI [of _ "thread_next s1"] exI [of _ "thread_prev s1"])
        (simp add: tl_same_def)
  qed
  then obtain nx pv where op: "osRtxThreadListSort t s1 = Some (s1\<lparr>thread_next := nx, thread_prev := pv\<rparr>)"
    and same: "tl_same (objs s1) (thrs s1) s1 nx pv" and inv: "tl_inv nx pv (objs s) (thrs s) ?L" using th by auto
  let ?s' = "s1\<lparr>thread_next := nx, thread_prev := pv\<rparr>"
  have th': "thrs ?s' = thrs s" "objs ?s' = objs s" by (simp_all add: s1 thrs_def objs_def)
  have "part_ok s ?L (set D \<union> set W) {}" by (rule part_ok_lists [OF KS(2)]) simp
  then have "part_ok ?s' ?L (set D \<union> set W) {}" using part_ok_cong [of ?s' s] th' by (simp add: s1)
  moreover have "prio_sorted (t_priority s1) (?L ob)" for ob
    using sorted_reprio [where t = t and p = p, OF KS(3) tl_invD(2) [OF KS(1)]] by (simp add: s1)
  moreover have "stacks_ok ?s'" using KS(4) stacks_ok_cong [of ?s' s] th' by (simp add: s1)
  ultimately have "kst ?s' ?L (set D \<union> set W) {}" using inv KS(5) unfolding kst_def th' by (simp add: s1)
  moreover have "dl_inv ?s' D W" using K(2) by (simp add: dl_inv_def s1)
  ultimately have "kinv ?s' ?L D W" by (simp add: kinv_def)
  moreover have "rl_frame s1 ?s'"
    by (rule rl_frameI [where st = "o_state s1" and r = "run_next s1", OF _ same]) (use th th' in simp_all)
  ultimately show ?thesis using op by (auto simp: s1)
qed

text \<open>The priority of a thread that is in no list, like the running one, can just be set.\<close>

lemma set_priority_kinv:
  assumes k: "kinv s L D W" and t: "\<And>ob. t \<notin> set (L ob)"
  shows "kinv (s\<lparr>t_priority := (t_priority s)(t := p)\<rparr>) L D W"
proof -
  let ?s = "s\<lparr>t_priority := (t_priority s)(t := p)\<rparr>"
  note K = kinvD [OF k]
  note KS = kstD [OF K(1)]
  have th: "thrs ?s = thrs s" "objs ?s = objs s" by (simp_all add: thrs_def objs_def)
  have "prio_sorted (t_priority ?s) (L ob) = prio_sorted (t_priority s) (L ob)" for ob
    by (rule prio_sorted_cong) (use t in auto)
  then have "prio_sorted (t_priority ?s) (L ob)" for ob using KS(3) by blast
  moreover have "part_ok ?s L (set D \<union> set W) {}" using KS(2) part_ok_cong [of ?s s] th by simp
  moreover have "stacks_ok ?s" using KS(4) stacks_ok_cong [of ?s s] th by simp
  ultimately have "kst ?s L (set D \<union> set W) {}" using KS(1,5) unfolding kst_def th by simp
  moreover have "dl_inv ?s D W" using K(2) by (simp add: dl_inv_def)
  ultimately show ?thesis by (simp add: kinv_def)
qed

text \<open>\<open>osRtxThreadDispatch(NULL)\<close>, on the kernel invariant.\<close>

lemma dispatch_null_kinv:
  assumes k: "kinv s L D W" and st: "stable s"
  shows "\<exists>s' L'. osRtxThreadDispatch NULL s = Some s' \<and> rl_frame s s' \<and> redisp s L = (L', run_next s') \<and> kinv s' L' D W
    \<and> (k_state s = osRtxKernelRunning \<longrightarrow> prio_ok s' L')"
proof -
  obtain s' L' where s': "osRtxThreadDispatch NULL s = Some s'" "rl_frame s s'" "redisp s L = (L', run_next s')"
    "kst s' L' (set D \<union> set W) {}"
    using osRtxThreadDispatch_null [OF kinvD(1) [OF k] st] by blast
  moreover have "kinv s' L' D W" using s'(4) kinvD(2) [OF k] rl_frame_dl(1) [OF s'(2)] by (simp add: kinv_def)
  moreover have "k_state s = osRtxKernelRunning \<longrightarrow> prio_ok s' L'"
    using prio_ok_redisp [OF kstD(3) [OF kinvD(1) [OF k]] st _ s'(2,3)] by blast
  ultimately show ?thesis by blast
qed

lemma redisp_other: "redisp s L = (L', x) \<Longrightarrow> ob \<noteq> ready_obj s \<Longrightarrow> L' ob = L ob"
  by (auto simp: redisp_def ready_push_def split: list.splits if_splits)

end
