(* ===== verification/Mutex.thy ===== *)
theory Mutex
  imports Prio Demo
begin

text \<open>
  Mutexes (\<open>rtx_mutex.c\<close>): recursive locking, priority inheritance, and the release of the
  robust mutexes of a thread that terminates.
\<close>

section \<open>Operations\<close>

abbreviation (input) sizeof_os_mutex_t :: u32 where "sizeof_os_mutex_t \<equiv> 28"

text \<open>The wakeup of the first waiter, which becomes the owner (the end of \<open>svcRtxMutexRelease\<close>
  and the body of \<open>osRtxMutexOwnerRelease\<close>).\<close>

definition mutex_hand_over :: "addr \<Rightarrow> rtx \<Rightarrow> rtx option" where
  "mutex_hand_over mutex s =
     (if thread_next s mutex \<noteq> NULL then do {
        (thread, s) \<leftarrow> wake_first mutex osOK False s;
        let s = s\<lparr>m_owner_thread := (m_owner_thread s)(mutex := thread)\<rparr>;
        let s = s\<lparr>m_owner_next := (m_owner_next s)(mutex := t_mutex_list s thread)\<rparr>;
        let s = s\<lparr>m_owner_prev := (m_owner_prev s)(mutex := NULL)\<rparr>;
        let s = s\<lparr>t_mutex_list := (t_mutex_list s)(thread := mutex)\<rparr>;
        Some (s\<lparr>m_lock := (m_lock s)(mutex := 1)\<rparr>)
      } else Some s)"

partial_function (option) osRtxMutexOwnerRelease :: "addr \<Rightarrow> rtx \<Rightarrow> rtx option" where
  "osRtxMutexOwnerRelease mutex s =
     (if mutex \<noteq> NULL then do {
        let mutex_next = m_owner_next s mutex;
        s \<leftarrow> (if o_attr s mutex AND osMutexRobust \<noteq> 0
               then mutex_hand_over mutex (s\<lparr>m_lock := (m_lock s)(mutex := 0)\<rparr>)
               else Some s);
        osRtxMutexOwnerRelease mutex_next s
      } else Some s)"

definition svcRtxMutexNew :: "os_attr option \<Rightarrow> rtx \<Rightarrow> (addr \<times> rtx) option" where
  "svcRtxMutexNew attr s =
     (if \<not> attr_cb_ok sizeof_os_mutex_t attr then Some (NULL, s)
      else
        (let (name, attr_bits, mutex) =
               (case attr of Some a \<Rightarrow> (a_name a, a_attr_bits a, a_cb_mem a) | None \<Rightarrow> (NULL, 0, NULL)) in
         do {
           (mutex, flags, s) \<leftarrow>
             (if mutex = NULL then do {
                (mutex, s) \<leftarrow> obj_alloc (mpi_mutex s) sizeof_os_mutex_t s;
                Some (mutex, osRtxFlagSystemObject, s)
              } else Some (mutex, 0, s));
           Some (mutex,
             if mutex \<noteq> NULL then
               s\<lparr>o_id := (o_id s)(mutex := osRtxIdMutex),
                 o_flags := (o_flags s)(mutex := flags),
                 o_attr := (o_attr s)(mutex := ucast attr_bits),
                 o_name := (o_name s)(mutex := name),
                 thread_next := (thread_next s)(mutex := NULL),
                 m_owner_thread := (m_owner_thread s)(mutex := NULL),
                 m_owner_prev := (m_owner_prev s)(mutex := NULL),
                 m_owner_next := (m_owner_next s)(mutex := NULL),
                 m_lock := (m_lock s)(mutex := 0)\<rparr>
             else s)
         }))"

definition svcRtxMutexGetName :: "addr \<Rightarrow> rtx \<Rightarrow> addr" where
  "svcRtxMutexGetName mutex s =
     (if mutex = NULL \<or> o_id s mutex \<noteq> osRtxIdMutex then NULL else o_name s mutex)"

text \<open>The links set when the running thread takes a free mutex.\<close>

definition mutex_own :: "addr \<Rightarrow> addr \<Rightarrow> rtx \<Rightarrow> rtx" where
  "mutex_own mutex thread s =
     (let s = s\<lparr>m_owner_thread := (m_owner_thread s)(mutex := thread)\<rparr>;
          s = s\<lparr>m_owner_next := (m_owner_next s)(mutex := t_mutex_list s thread)\<rparr>;
          s = s\<lparr>m_owner_prev := (m_owner_prev s)(mutex := NULL)\<rparr>;
          s = (if t_mutex_list s thread \<noteq> NULL
               then s\<lparr>m_owner_prev := (m_owner_prev s)(t_mutex_list s thread := mutex)\<rparr> else s);
          s = s\<lparr>t_mutex_list := (t_mutex_list s)(thread := mutex)\<rparr>
      in s\<lparr>m_lock := (m_lock s)(mutex := 1)\<rparr>)"

text \<open>Priority inheritance: the owner gets the priority of the thread that has to wait.\<close>

definition mutex_raise_owner :: "addr \<Rightarrow> addr \<Rightarrow> rtx \<Rightarrow> rtx option" where
  "mutex_raise_owner mutex runnig_thread s =
     (if o_attr s mutex AND osMutexPrioInherit \<noteq> 0 then do {
        let owner = m_owner_thread s mutex;
        deref owner;
        if t_priority s owner < t_priority s runnig_thread
        then osRtxThreadListSort owner (s\<lparr>t_priority := (t_priority s)(owner := t_priority s runnig_thread)\<rparr>)
        else Some s
      } else Some s)"

definition svcRtxMutexAcquire :: "addr \<Rightarrow> u32 \<Rightarrow> rtx \<Rightarrow> (u32 \<times> rtx) option" where
  "svcRtxMutexAcquire mutex timeout s =
     (let runnig_thread = run_curr s in
      if runnig_thread = NULL then Some (osError, s)
      else if mutex = NULL \<or> o_id s mutex \<noteq> osRtxIdMutex then Some (osErrorParameter, s)
      else if m_lock s mutex = 0 then Some (osOK, mutex_own mutex runnig_thread s)
      else if o_attr s mutex AND osMutexRecursive \<noteq> 0 \<and> m_owner_thread s mutex = runnig_thread then
        (if m_lock s mutex = osRtxMutexLockLimit then Some (osErrorResource, s)
         else Some (osOK, s\<lparr>m_lock := (m_lock s)(mutex := m_lock s mutex + 1)\<rparr>))
      else if timeout \<noteq> 0 then do {
        s \<leftarrow> mutex_raise_owner mutex runnig_thread s;
        (_, s) \<leftarrow> wait_on mutex osRtxThreadWaitingMutex timeout s;
        Some (osErrorTimeout, s)
      }
      else Some (osErrorResource, s))"

text \<open>Taking a mutex out of the list of the mutexes its owner holds.\<close>

definition mutex_owner_unlink :: "addr \<Rightarrow> addr \<Rightarrow> rtx \<Rightarrow> rtx" where
  "mutex_owner_unlink mutex thread s =
     (let s = (if m_owner_next s mutex \<noteq> NULL
               then s\<lparr>m_owner_prev := (m_owner_prev s)(m_owner_next s mutex := m_owner_prev s mutex)\<rparr> else s)
      in if m_owner_prev s mutex \<noteq> NULL
         then s\<lparr>m_owner_next := (m_owner_next s)(m_owner_prev s mutex := m_owner_next s mutex)\<rparr>
         else s\<lparr>t_mutex_list := (t_mutex_list s)(thread := m_owner_next s mutex)\<rparr>)"

text \<open>The priority left by the mutexes still held: the highest of \<open>priority\<close> and of the first
  waiter of each.\<close>

partial_function (option) mutex_prio_loop :: "rtx \<Rightarrow> int \<Rightarrow> addr \<Rightarrow> int option" where
  "mutex_prio_loop s priority mutex0 =
     (if mutex0 \<noteq> NULL then
        (let priority = (if thread_next s mutex0 \<noteq> NULL \<and> t_priority s (thread_next s mutex0) > priority
                         then t_priority s (thread_next s mutex0) else priority)
         in mutex_prio_loop s priority (m_owner_next s mutex0))
      else Some priority)"

definition svcRtxMutexRelease :: "addr \<Rightarrow> rtx \<Rightarrow> (u32 \<times> rtx) option" where
  "svcRtxMutexRelease mutex s =
     (let runnig_thread = run_curr s in
      if runnig_thread = NULL then Some (osError, s)
      else if mutex = NULL \<or> o_id s mutex \<noteq> osRtxIdMutex then Some (osErrorParameter, s)
      else if m_lock s mutex = 0 then Some (osErrorResource, s)
      else if m_owner_thread s mutex \<noteq> runnig_thread then Some (osErrorResource, s)
      else do {
        let s = s\<lparr>m_lock := (m_lock s)(mutex := m_lock s mutex - 1)\<rparr>;
        if m_lock s mutex = 0 then do {
          let s = mutex_owner_unlink mutex runnig_thread s;
          s \<leftarrow> (if o_attr s mutex AND osMutexPrioInherit \<noteq> 0 then do {
                   priority \<leftarrow> mutex_prio_loop s (t_priority_base s runnig_thread) (t_mutex_list s runnig_thread);
                   Some (s\<lparr>t_priority := (t_priority s)(runnig_thread := priority)\<rparr>)
                 } else Some s);
          s \<leftarrow> mutex_hand_over mutex s;
          s \<leftarrow> osRtxThreadDispatch NULL s;
          Some (osOK, s)
        } else Some (osOK, s)
      })"

definition svcRtxMutexGetOwner :: "addr \<Rightarrow> rtx \<Rightarrow> addr" where
  "svcRtxMutexGetOwner mutex s =
     (if mutex = NULL \<or> o_id s mutex \<noteq> osRtxIdMutex then NULL
      else if m_lock s mutex = 0 then NULL
      else m_owner_thread s mutex)"

definition svcRtxMutexDelete :: "addr \<Rightarrow> rtx \<Rightarrow> (u32 \<times> rtx) option" where
  "svcRtxMutexDelete mutex s =
     (if mutex = NULL \<or> o_id s mutex \<noteq> osRtxIdMutex then Some (osErrorParameter, s)
      else do {
        s \<leftarrow> (if m_lock s mutex \<noteq> 0 then do {
                 let thread = m_owner_thread s mutex;
                 deref thread;
                 let s = mutex_owner_unlink mutex thread s;
                 s \<leftarrow> (if o_attr s mutex AND osMutexPrioInherit \<noteq> 0 then do {
                          priority \<leftarrow> mutex_prio_loop s (t_priority_base s thread) (t_mutex_list s thread);
                          if t_priority s thread \<noteq> priority
                          then osRtxThreadListSort thread (s\<lparr>t_priority := (t_priority s)(thread := priority)\<rparr>)
                          else Some s
                        } else Some s);
                 s \<leftarrow> (if thread_next s mutex \<noteq> NULL then wake_all_loop mutex osErrorResource s else Some s);
                 osRtxThreadDispatch NULL s
               } else Some s);
        let s = s\<lparr>o_id := (o_id s)(mutex := osRtxIdInvalid)\<rparr>;
        s \<leftarrow> (if o_flags s mutex AND osRtxFlagSystemObject \<noteq> 0
               then obj_free (mpi_mutex s) mutex s else Some s);
        Some (osOK, s)
      })"

definition osMutexNew :: "bool \<Rightarrow> os_attr option \<Rightarrow> rtx \<Rightarrow> (addr \<times> rtx) option" where
  "osMutexNew irq attr s = (if irq then Some (NULL, s) else svc_call (svcRtxMutexNew attr) s)"

definition osMutexGetName :: "bool \<Rightarrow> addr \<Rightarrow> rtx \<Rightarrow> (addr \<times> rtx) option" where
  "osMutexGetName irq mutex s =
     (if irq then Some (NULL, s) else svc_call (\<lambda>s. Some (svcRtxMutexGetName mutex s, s)) s)"

definition osMutexAcquire :: "bool \<Rightarrow> addr \<Rightarrow> u32 \<Rightarrow> rtx \<Rightarrow> (u32 \<times> rtx) option" where
  "osMutexAcquire irq mutex timeout s =
     (if irq then Some (osErrorISR, s) else svc_call (svcRtxMutexAcquire mutex timeout) s)"

definition osMutexRelease :: "bool \<Rightarrow> addr \<Rightarrow> rtx \<Rightarrow> (u32 \<times> rtx) option" where
  "osMutexRelease irq mutex s =
     (if irq then Some (osErrorISR, s) else svc_call (svcRtxMutexRelease mutex) s)"

definition osMutexGetOwner :: "bool \<Rightarrow> addr \<Rightarrow> rtx \<Rightarrow> (addr \<times> rtx) option" where
  "osMutexGetOwner irq mutex s =
     (if irq then Some (NULL, s) else svc_call (\<lambda>s. Some (svcRtxMutexGetOwner mutex s, s)) s)"

definition osMutexDelete :: "bool \<Rightarrow> addr \<Rightarrow> rtx \<Rightarrow> (u32 \<times> rtx) option" where
  "osMutexDelete irq mutex s =
     (if irq then Some (osErrorISR, s) else svc_call (svcRtxMutexDelete mutex) s)"

section \<open>Lemmas\<close>

definition is_mutex :: "rtx \<Rightarrow> addr \<Rightarrow> bool" where
  "is_mutex s m \<longleftrightarrow> m \<noteq> NULL \<and> o_id s m = osRtxIdMutex"

lemma is_mutex_objs:
  assumes "is_mutex s m" "kinv s L D W"
  shows "m \<in> objs s" "m \<noteq> ready_obj s"
  using assms kstD(5) [OF kinvD(1) [OF assms(2)]]
  by (auto simp: is_mutex_def objs_def has_thread_list_def)

text \<open>The mutexes a thread owns: a doubly linked list rooted in its control block.\<close>

definition owns :: "rtx \<Rightarrow> addr \<Rightarrow> addr list \<Rightarrow> bool" where
  "owns s t ms \<longleftrightarrow> dseg (m_owner_next s) (m_owner_prev s) NULL (t_mutex_list s t) ms \<and> distinct ms \<and>
     (\<forall>m\<in>set ms. is_mutex s m \<and> m_owner_thread s m = t \<and> m_lock s m \<noteq> 0)"

lemma core_eq_mutex:
  "core_eq s (s\<lparr>m_owner_thread := a, m_owner_next := b, m_owner_prev := c, t_mutex_list := d, m_lock := e\<rparr>)"
  by (simp add: core_eq_def)

lemma mutex_own_eq:
  "mutex_own m r s = s\<lparr>m_owner_thread := (m_owner_thread s)(m := r),
     m_owner_next := (m_owner_next s)(m := t_mutex_list s r),
     m_owner_prev := (if t_mutex_list s r \<noteq> NULL then (m_owner_prev s)(m := NULL, t_mutex_list s r := m)
                      else (m_owner_prev s)(m := NULL)),
     t_mutex_list := (t_mutex_list s)(r := m), m_lock := (m_lock s)(m := 1)\<rparr>"
  by (simp add: mutex_own_def Let_def)

lemma mutex_own_owns:
  assumes o: "owns s r ms" and m: "is_mutex s m" "m_lock s m = 0"
  shows "owns (mutex_own m r s) r (m # ms)"
proof -
  note O = o [unfolded owns_def]
  have mn: "m \<notin> set ms" "m \<noteq> NULL" using O m by (auto simp: is_mutex_def)
  have ds: "dseg (m_owner_next s) (m_owner_prev s) NULL (t_mutex_list s r) ([] @ ms)" using O by simp
  have hd: "t_mutex_list s r = hd0 ms" by (rule dseg_root) (use O in blast)
  have nn: "NULL \<notin> set ms" by (rule dseg_nonnull) (use O in blast)
  have "dseg (m_owner_next (mutex_own m r s)) (m_owner_prev (mutex_own m r s)) NULL m ([] @ m # ms)"
    by (rule dseg_insert [OF ds _ mn(2) refl refl])
      (use O mn nn hd in \<open>cases ms; auto simp: mutex_own_eq\<close>)+
  then show ?thesis using O m mn unfolding owns_def by (auto simp: mutex_own_eq is_mutex_def)
qed

lemma mutex_acquire_free:
  assumes k: "kinv s L D W" and m: "is_mutex s m" "m_lock s m = 0" and r: "run_curr s \<noteq> NULL"
  shows "svcRtxMutexAcquire m timeout s = Some (osOK, mutex_own m (run_curr s) s)"
    and "kinv (mutex_own m (run_curr s) s) L D W" "stable (mutex_own m (run_curr s) s) = stable s"
  using assms core_eqD(1,4) [OF core_eq_mutex]
  by (simp_all add: svcRtxMutexAcquire_def is_mutex_def mutex_own_eq Let_def)

text \<open>The lists and the priorities after the inheritance of the priority of \<open>r\<close>.\<close>

definition inherits :: "rtx \<Rightarrow> addr \<Rightarrow> bool" where
  "inherits s m \<longleftrightarrow> o_attr s m AND osMutexPrioInherit \<noteq> 0 \<and>
     t_priority s (m_owner_thread s m) < t_priority s (run_curr s)"

definition inherit_prio :: "rtx \<Rightarrow> addr \<Rightarrow> addr \<Rightarrow> int" where
  "inherit_prio s m = (if inherits s m then (t_priority s)(m_owner_thread s m := t_priority s (run_curr s))
     else t_priority s)"

definition inherit_lists :: "rtx \<Rightarrow> addr \<Rightarrow> (addr \<Rightarrow> addr list) \<Rightarrow> addr \<Rightarrow> addr list" where
  "inherit_lists s m L = (if inherits s m then reprio (inherit_prio s m) (m_owner_thread s m) L else L)"

lemma mutex_inherit:
  assumes k: "kinv s L D W" and ow: "m_owner_thread s m \<in> thrs s"
  shows "\<exists>s1. mutex_raise_owner m (run_curr s) s = Some s1
    \<and> kinv s1 (inherit_lists s m L) D W \<and> run_next s1 = run_next s \<and> rl_frame (s\<lparr>t_priority := inherit_prio s m\<rparr>) s1"
proof (cases "inherits s m")
  case True
  let ?s1 = "s\<lparr>t_priority := (t_priority s)(m_owner_thread s m := t_priority s (run_curr s))\<rparr>"
  obtain s1 where "osRtxThreadListSort (m_owner_thread s m) ?s1 = Some s1" "rl_frame ?s1 s1" "run_next s1 = run_next s"
    "kinv s1 (reprio (t_priority ?s1) (m_owner_thread s m) L) D W"
    using ListSort_kinv [OF k ow refl, of "t_priority s (run_curr s)"] by blast
  then show ?thesis using True in_thrs [OF ow]
    by (simp add: inherits_def inherit_prio_def inherit_lists_def mutex_raise_owner_def)
next
  case False
  then have "inherit_prio s m = t_priority s" by (simp add: inherit_prio_def)
  then have "rl_frame (s\<lparr>t_priority := inherit_prio s m\<rparr>) s"
    by (intro rl_frameI [where st = "o_state s" and r = "run_next s" and nx = "thread_next s" and pv = "thread_prev s"])
      (auto simp: tl_same_def thrs_def)
  then show ?thesis using False k in_thrs [OF ow]
    by (intro exI [of _ s]) (auto simp: inherits_def inherit_lists_def mutex_raise_owner_def)
qed

lemma mutex_acquire_wait:
  assumes k: "kinv s L D W" and st: "stable s" and m: "is_mutex s m" "m_lock s m \<noteq> 0"
    and ow: "m_owner_thread s m \<in> thrs s" and nr: "o_attr s m AND osMutexRecursive = 0 \<or> m_owner_thread s m \<noteq> run_curr s"
    and v: "timeout \<noteq> 0" and w: "can_wait s L"
  shows "\<exists>s' D' W'. svcRtxMutexAcquire m timeout s = Some (osErrorTimeout, s') \<and> sched_frame (s\<lparr>t_priority := inherit_prio s m\<rparr>) s'
    \<and> run_next s' = hd (inherit_lists s m L (ready_obj s))
    \<and> kinv s' (wait_lists (s\<lparr>t_priority := inherit_prio s m\<rparr>) m (run_curr s) (inherit_lists s m L)) D' W'
    \<and> wait_dl s (run_curr s) timeout D W s' D' W' \<and> o_state s' (run_curr s) = osRtxThreadWaitingMutex"
proof -
  note ob = is_mutex_objs [OF m(1) k]
  let ?s = "s\<lparr>t_priority := inherit_prio s m\<rparr>" and ?L = "inherit_lists s m L"
  obtain s1 where s1: "mutex_raise_owner m (run_curr s) s = Some s1"
    "kinv s1 ?L D W" "run_next s1 = run_next s" "rl_frame ?s s1"
    using mutex_inherit [OF k ow] by blast
  note F = sched_frameD [OF rl_frame_sched [OF s1(4)]]
  have ob1: "m \<in> objs s1" "m \<noteq> ready_obj s1" using ob F by (simp_all add: objs_def)
  have st1: "stable s1" using st s1(3) F by (simp add: stable_def)
  have c: "k_state s1 = osRtxKernelRunning" "run_curr s1 = run_curr s" "run_curr s \<noteq> NULL" "?L (ready_obj s1) \<noteq> []"
    using w F by (auto simp: can_wait_def inherit_lists_def)
  have b: "is_blocked osRtxThreadWaitingMutex" by (simp add: is_blocked_def)
  obtain s' D' W' where s': "wait_on m osRtxThreadWaitingMutex timeout s1 = Some (True, s')" "sched_frame s1 s'"
    "run_next s' = hd (?L (ready_obj s1))" "kinv s' (wait_lists s1 m (run_curr s) ?L) D' W'"
    "wait_dl s1 (run_curr s) timeout D W s' D' W'" "o_state s' (run_curr s) = osRtxThreadWaitingMutex"
    using wait_on_kinv [OF s1(2) ob1 st1 c b v] by blast
  have "delays s1 D = delays ?s D" by (rule rl_frame_dl(2) [OF s1(4)])
  then have wd: "wait_dl s1 (run_curr s) timeout D W s' D' W' = wait_dl s (run_curr s) timeout D W s' D' W'"
    by (simp add: wait_dl_def delays_def)
  have wl: "wait_lists s1 = wait_lists ?s" by (intro ext) (simp add: wait_lists_def F)
  have "svcRtxMutexAcquire m timeout s = Some (osErrorTimeout, s')"
    using m nr v c s1(1) s'(1) by (auto simp: svcRtxMutexAcquire_def is_mutex_def Let_def)
  moreover have "sched_frame ?s s'" by (rule sched_frame_trans [OF rl_frame_sched [OF s1(4)] s'(2)])
  ultimately show ?thesis using s' wd wl F by auto
qed

lemma mutex_acquire_nowait:
  assumes k: "kinv s L D W" and m: "is_mutex s m" "m_lock s m \<noteq> 0" and r: "run_curr s \<noteq> NULL"
    and ow: "m_owner_thread s m \<in> thrs s" and nr: "o_attr s m AND osMutexRecursive = 0 \<or> m_owner_thread s m \<noteq> run_curr s"
    and v: "timeout \<noteq> 0" and w: "\<not> can_wait s L"
  shows "\<exists>s'. svcRtxMutexAcquire m timeout s = Some (osErrorTimeout, s') \<and> sched_frame (s\<lparr>t_priority := inherit_prio s m\<rparr>) s'
    \<and> run_next s' = run_next s \<and> kinv s' (inherit_lists s m L) D W"
proof -
  obtain s1 where s1: "mutex_raise_owner m (run_curr s) s = Some s1" "kinv s1 (inherit_lists s m L) D W"
    "run_next s1 = run_next s" "rl_frame (s\<lparr>t_priority := inherit_prio s m\<rparr>) s1"
    using mutex_inherit [OF k ow] by blast
  note F = sched_frameD [OF rl_frame_sched [OF s1(4)]]
  have "wait_on m osRtxThreadWaitingMutex timeout s1 = Some (False, s1)"
    by (rule wait_on_fail [OF s1(2)]) (use w r F in \<open>auto simp: can_wait_def inherit_lists_def\<close>)
  then have "svcRtxMutexAcquire m timeout s = Some (osErrorTimeout, s1)"
    using m nr v r s1(1) by (auto simp: svcRtxMutexAcquire_def is_mutex_def Let_def)
  then show ?thesis using s1 rl_frame_sched by blast
qed

lemma inherit_prio_le:
  "o_attr s m AND osMutexPrioInherit \<noteq> 0 \<Longrightarrow> inherit_prio s m (run_curr s) \<le> inherit_prio s m (m_owner_thread s m)"
  by (auto simp: inherit_prio_def inherits_def)

section \<open>Releasing\<close>

lemma mutex_owner_unlink_dseg:
  assumes ds: "dseg (m_owner_next s) (m_owner_prev s) NULL (t_mutex_list s t) ms" and d: "distinct ms" and m: "m \<in> set ms"
  shows "\<exists>a b c. mutex_owner_unlink m t s = s\<lparr>m_owner_prev := a, m_owner_next := b, t_mutex_list := (t_mutex_list s)(t := c)\<rparr>
    \<and> dseg b a NULL c (remove1 m ms)"
proof -
  obtain xs ys where ms: "ms = xs @ m # ys" using m by (meson split_list)
  have ds': "dseg (m_owner_next s) (m_owner_prev s) NULL (t_mutex_list s t) (xs @ m # ys)" using ds ms by simp
  note mid = dseg_middle [OF ds']
  let ?q = "last (NULL # xs)" and ?n = "hd0 ys"
  have nn: "NULL \<notin> set ms" by (rule dseg_nonnull [OF ds])
  have qxs: "?q = NULL \<longleftrightarrow> xs = []" using nn ms by (intro last_eq_NULL) auto
  have nt: "?n \<noteq> m" using d mid(3) ms by (cases ys) auto
  have qt: "?q \<noteq> m" using d mid(3) ms by (cases xs rule: rev_cases) auto
  define a where "a = (if ?n \<noteq> NULL then (m_owner_prev s)(?n := ?q) else m_owner_prev s)"
  define b where "b = (if ?q \<noteq> NULL then (m_owner_next s)(?q := ?n) else m_owner_next s)"
  define c where "c = (if xs = [] then ?n else t_mutex_list s t)"
  have "mutex_owner_unlink m t s = s\<lparr>m_owner_prev := a, m_owner_next := b, t_mutex_list := (t_mutex_list s)(t := c)\<rparr>"
    using mid nt qt qxs by (simp add: mutex_owner_unlink_def a_def b_def c_def Let_def fun_upd_triv)
  moreover have "dseg b a NULL c (xs @ ys)"
    by (rule dseg_remove [OF ds' _ refl refl])
      (use d ms qxs in \<open>auto simp: a_def b_def c_def simp del: last.simps hd0_simps\<close>)
  moreover have "remove1 m ms = xs @ ys" using ms d by (simp add: remove1_middle)
  ultimately show ?thesis by auto
qed

text \<open>The priority that the mutexes \<open>ms\<close> give to a thread of the base priority \<open>p\<close>.\<close>

definition held_prio :: "(addr \<Rightarrow> int) \<Rightarrow> (addr \<Rightarrow> addr list) \<Rightarrow> int \<Rightarrow> addr list \<Rightarrow> int" where
  "held_prio pr L p ms = Max (insert p (pr ` (\<Union>m\<in>set ms. set (L m))))"

lemma held_prio_Nil [simp]: "held_prio pr L p [] = p"
  by (simp add: held_prio_def)

lemma Max_insert_max: "finite A \<Longrightarrow> Max (insert (max p q) A) = Max (insert p (insert q A))" for p q :: int
  by (cases "A = {}") (auto simp: max_def)

lemma held_prio_Cons:
  assumes "prio_sorted pr (L m)"
  shows "held_prio pr L p (m # ms) = held_prio pr L (case L m of [] \<Rightarrow> p | t # _ \<Rightarrow> max p (pr t)) ms"
proof (cases "L m")
  case Nil
  then show ?thesis by (simp add: held_prio_def)
next
  case (Cons t ts)
  let ?A = "pr ` (\<Union>m\<in>set ms. set (L m))" and ?B = "pr ` set ts"
  have le: "b \<le> pr t" if "b \<in> ?B" for b using that assms Cons by (auto simp: prio_sorted_Cons)
  have "held_prio pr L p (m # ms) = Max (insert p (insert (pr t) (?B \<union> ?A)))"
    by (simp add: held_prio_def Cons image_Un Un_insert_left)
  also have "\<dots> = Max (insert p (insert (pr t) ?A))"
  proof (rule antisym)
    have ge: "x \<in> insert p (insert (pr t) ?A) \<Longrightarrow> x \<le> Max (insert p (insert (pr t) ?A))" for x
      by (rule Max_ge) auto
    have "b \<in> ?B \<Longrightarrow> b \<le> Max (insert p (insert (pr t) ?A))" for b using le [of b] ge [of "pr t"] by simp
    then show "Max (insert p (insert (pr t) (?B \<union> ?A))) \<le> Max (insert p (insert (pr t) ?A))"
      using ge by (subst Max_le_iff) blast+
    show "Max (insert p (insert (pr t) ?A)) \<le> Max (insert p (insert (pr t) (?B \<union> ?A)))"
      by (intro Max_mono) auto
  qed
  finally show ?thesis by (simp add: held_prio_def Cons Max_insert_max)
qed

lemma mutex_prio_loop_eq:
  assumes "dseg (m_owner_next s) pv q c ms" "\<And>m. m \<in> set ms \<Longrightarrow> thread_next s m = hd0 (L m) \<and> NULL \<notin> set (L m)"
    and "\<And>m. prio_sorted (t_priority s) (L m)"
  shows "mutex_prio_loop s p c = Some (held_prio (t_priority s) L p ms)"
  using assms(1,2)
proof (induction ms arbitrary: p q c)
  case Nil
  then show ?case by (simp add: mutex_prio_loop.simps [of s p NULL])
next
  case (Cons m ms)
  have h: "thread_next s m = hd0 (L m)" "NULL \<notin> set (L m)" using Cons.prems(2) by simp_all
  let ?p = "case L m of [] \<Rightarrow> p | t # _ \<Rightarrow> max p (t_priority s t)"
  have e: "(if thread_next s m \<noteq> NULL \<and> t_priority s (thread_next s m) > p then t_priority s (thread_next s m) else p) = ?p"
    using h by (cases "L m") (auto simp: max_def)
  have "mutex_prio_loop s p c = mutex_prio_loop s ?p (m_owner_next s m)"
    unfolding mutex_prio_loop.simps [of s p c] Let_def using Cons.prems(1) by (simp only: dseg.simps e) simp
  also have "\<dots> = Some (held_prio (t_priority s) L ?p ms)"
    by (rule Cons.IH) (use Cons.prems in auto)
  finally show ?case by (simp add: held_prio_Cons [OF assms(3)])
qed

lemma mutex_hand_over_Nil:
  assumes "kinv s L D W" "is_mutex s m" "L m = []"
  shows "mutex_hand_over m s = Some s"
  using kinv_head(2) [OF assms(1) is_mutex_objs(1) [OF assms(2,1)]] assms(3) by (simp add: mutex_hand_over_def)

lemma mutex_hand_over_Cons:
  assumes k: "kinv s L D W" and m: "is_mutex s m" and L: "L m = t # ts"
  shows "\<exists>s1 s'. mutex_hand_over m s = Some s' \<and> sched_frame s s1 \<and> run_next s1 = run_next s
    \<and> s' = s1\<lparr>m_owner_thread := (m_owner_thread s)(m := t), m_owner_next := (m_owner_next s)(m := t_mutex_list s t),
        m_owner_prev := (m_owner_prev s)(m := NULL), t_mutex_list := (t_mutex_list s)(t := m), m_lock := (m_lock s)(m := 1)\<rparr>
    \<and> kinv s' (ready_put s t (L(m := ts))) (remove1 t D) (remove1 t W)
    \<and> mem32 s' = (mem32 s)(osRtxThreadRegPtr t s := osOK)"
proof -
  note ob = is_mutex_objs [OF m k]
  have b: "False \<Longrightarrow> stable s" by simp
  obtain s1 where s1: "wake_first m osOK False s = Some (t, s1)" "sched_frame s s1"
    "kinv s1 (exit_lists s t False (L(m := ts))) (remove1 t D) (remove1 t W)" "run_next s1 = exit_run s t False"
    "mem32 s1 = (mem32 s)(osRtxThreadRegPtr t s := osOK)"
    using wake_first_kinv [OF k ob L b, where v = osOK] by blast
  note F = sched_frameD [OF s1(2)]
  have "thread_next s m \<noteq> NULL" using kinv_head(2) [OF k ob(1)] L by simp
  then have "mutex_hand_over m s = Some (s1\<lparr>m_owner_thread := (m_owner_thread s)(m := t),
      m_owner_next := (m_owner_next s)(m := t_mutex_list s t), m_owner_prev := (m_owner_prev s)(m := NULL),
      t_mutex_list := (t_mutex_list s)(t := m), m_lock := (m_lock s)(m := 1)\<rparr>)"
    using s1(1) F by (simp add: mutex_hand_over_def)
  then show ?thesis using s1 core_eqD(1) [OF core_eq_mutex] by (auto simp: exit_lists_def exit_run_def)
qed

text \<open>The state in which the running thread has given up the mutex and has its new priority.\<close>

lemma mutex_release_give_up:
  assumes k: "kinv s L D W" and st: "stable s" and r: "run_curr s = r" "r \<noteq> NULL" and o: "owns s r ms" and m: "m \<in> set ms"
    and l: "m_lock s m = 1"
  shows "\<exists>s1 a b c. svcRtxMutexRelease m s = do { s \<leftarrow> mutex_hand_over m s1; s \<leftarrow> osRtxThreadDispatch NULL s; Some (osOK, s) }
    \<and> s1 = s\<lparr>m_lock := (m_lock s)(m := 0), m_owner_prev := a, m_owner_next := b, t_mutex_list := (t_mutex_list s)(r := c),
         t_priority := (if o_attr s m AND osMutexPrioInherit \<noteq> 0
           then (t_priority s)(r := held_prio (t_priority s) L (t_priority_base s r) (remove1 m ms)) else t_priority s)\<rparr>
    \<and> dseg b a NULL c (remove1 m ms) \<and> kinv s1 L D W"
proof -
  note O = o [unfolded owns_def]
  have im: "is_mutex s m" "m_owner_thread s m = r" using O m by auto
  let ?s0 = "s\<lparr>m_lock := (m_lock s)(m := 0)\<rparr>"
  have ds0: "dseg (m_owner_next ?s0) (m_owner_prev ?s0) NULL (t_mutex_list ?s0 r) ms" using O by simp
  obtain a b c where u: "mutex_owner_unlink m r ?s0 = ?s0\<lparr>m_owner_prev := a, m_owner_next := b,
      t_mutex_list := (t_mutex_list ?s0)(r := c)\<rparr>" "dseg b a NULL c (remove1 m ms)"
    using mutex_owner_unlink_dseg [OF ds0 _ m] O by blast
  let ?s2 = "?s0\<lparr>m_owner_prev := a, m_owner_next := b, t_mutex_list := (t_mutex_list ?s0)(r := c)\<rparr>"
  have ce: "core_eq s ?s2" by (simp add: core_eq_def)
  have k2: "kinv ?s2 L D W" using core_eqD(1) [OF ce] k by simp
  have ob: "x \<in> objs s" if "x \<in> set ms" for x using is_mutex_objs(1) [OF _ k] O that by blast
  have loop: "mutex_prio_loop ?s2 (t_priority_base ?s2 r) (t_mutex_list ?s2 r)
    = Some (held_prio (t_priority ?s2) L (t_priority_base ?s2 r) (remove1 m ms))"
  proof (rule mutex_prio_loop_eq)
    show "dseg (m_owner_next ?s2) a NULL (t_mutex_list ?s2 r) (remove1 m ms)" using u(2) by simp
    show "thread_next ?s2 x = hd0 (L x) \<and> NULL \<notin> set (L x)" if "x \<in> set (remove1 m ms)" for x
      using kinv_head(1) [OF k ob] tl_invD(11) [OF kstD(1) [OF kinvD(1) [OF k]]] that
      by (auto dest: set_remove1_subset [THEN subsetD])
    show "prio_sorted (t_priority ?s2) (L x)" for x using kstD(3) [OF kinvD(1) [OF k2]] by simp
  qed
  have rl: "r \<notin> set (L a)" for a
    using running_in_no_list [OF kinvD(1) [OF k]] st r by (simp add: stable_def)
  show ?thesis
  proof (cases "o_attr s m AND osMutexPrioInherit \<noteq> 0")
    case True
    have "svcRtxMutexRelease m s = do { s \<leftarrow> mutex_hand_over m (?s2\<lparr>t_priority := (t_priority s)(r :=
        held_prio (t_priority s) L (t_priority_base s r) (remove1 m ms))\<rparr>); s \<leftarrow> osRtxThreadDispatch NULL s; Some (osOK, s) }"
      using r im l u loop True by (simp add: svcRtxMutexRelease_def is_mutex_def Let_def)
    then show ?thesis using u(2) set_priority_kinv [OF k2 rl] True
      by (intro exI [of _ "?s2\<lparr>t_priority := (t_priority s)(r := held_prio (t_priority s) L (t_priority_base s r) (remove1 m ms))\<rparr>"]
          exI [of _ a] exI [of _ b] exI [of _ c]) simp
  next
    case False
    have "svcRtxMutexRelease m s = do { s \<leftarrow> mutex_hand_over m ?s2; s \<leftarrow> osRtxThreadDispatch NULL s; Some (osOK, s) }"
      using r im l u False by (simp add: svcRtxMutexRelease_def is_mutex_def Let_def)
    then show ?thesis using u(2) k2 False
      by (intro exI [of _ ?s2] exI [of _ a] exI [of _ b] exI [of _ c]) simp
  qed
qed

lemma mutex_release_last:
  assumes k: "kinv s L D W" and st: "stable s" and run: "k_state s = osRtxKernelRunning" "run_curr s = r" "r \<noteq> NULL"
    and o: "owns s r ms" and m: "m \<in> set ms" and l: "m_lock s m = 1"
  shows "\<exists>s' L' D' W'. svcRtxMutexRelease m s = Some (osOK, s') \<and> kinv s' L' D' W' \<and> prio_ok s' L' \<and> owns s' r (remove1 m ms)
    \<and> t_priority s' = (if o_attr s m AND osMutexPrioInherit \<noteq> 0
        then (t_priority s)(r := held_prio (t_priority s) L (t_priority_base s r) (remove1 m ms)) else t_priority s)
    \<and> (case L m of
         [] \<Rightarrow> m_lock s' m = 0 \<and> D' = D \<and> W' = W \<and> mem32 s' = mem32 s
       | t # ts \<Rightarrow> m_lock s' m = 1 \<and> m_owner_thread s' m = t \<and> L' m = ts \<and> D' = remove1 t D \<and> W' = remove1 t W
           \<and> mem32 s' = (mem32 s)(osRtxThreadRegPtr t s := osOK) \<and> t_mutex_list s' t = m \<and> m_owner_next s' m = t_mutex_list s t)"
proof -
  note O = o [unfolded owns_def]
  have im: "is_mutex s m" using O m by auto
  define pr where "pr = (if o_attr s m AND osMutexPrioInherit \<noteq> 0
           then (t_priority s)(r := held_prio (t_priority s) L (t_priority_base s r) (remove1 m ms)) else t_priority s)"
  obtain s1 a b c where op: "svcRtxMutexRelease m s =
      do { s \<leftarrow> mutex_hand_over m s1; s \<leftarrow> osRtxThreadDispatch NULL s; Some (osOK, s) }"
    and e1: "s1 = s\<lparr>m_lock := (m_lock s)(m := 0), m_owner_prev := a, m_owner_next := b, t_mutex_list := (t_mutex_list s)(r := c),
         t_priority := pr\<rparr>"
    and ds: "dseg b a NULL c (remove1 m ms)" and k1: "kinv s1 L D W"
    using mutex_release_give_up [OF k st run(2,3) o m l] unfolding pr_def by blast
  have st1: "stable s1" using st by (simp add: e1 stable_def)
  have im1: "is_mutex s1 m" using im by (simp add: e1 is_mutex_def)
  have mr: "m \<notin> set (remove1 m ms)" "distinct (remove1 m ms)" using O by auto
  have others: "is_mutex s x \<and> m_owner_thread s x = r \<and> m_lock s x \<noteq> 0 \<and> x \<noteq> m" if "x \<in> set (remove1 m ms)" for x
    using O that mr(1) by (auto dest: set_remove1_subset [THEN subsetD])
  have nrdy: "m \<noteq> ready_obj s" by (rule is_mutex_objs(2) [OF im k])
  show ?thesis
  proof (cases "L m")
    case Nil
    obtain s' L' where s': "osRtxThreadDispatch NULL s1 = Some s'" "rl_frame s1 s'" "kinv s' L' D W" "prio_ok s' L'"
      using dispatch_null_kinv [OF k1 st1] run(1) by (auto simp: e1)
    note F = sched_frameD [OF rl_frame_sched [OF s'(2)]]
    have "svcRtxMutexRelease m s = Some (osOK, s')"
      using op mutex_hand_over_Nil [OF k1 im1 Nil] s'(1) by simp
    moreover have "owns s' r (remove1 m ms)"
      using ds mr others unfolding owns_def is_mutex_def F by (simp add: e1)
    moreover have "t_priority s' = pr" "m_lock s' m = 0" "mem32 s' = mem32 s"
      using F rl_frameD(6) [OF s'(2)] by (simp_all add: e1)
    ultimately show ?thesis using s' Nil unfolding pr_def [symmetric]
      by (intro exI [of _ s'] exI [of _ L'] exI [of _ D] exI [of _ W]) simp
  next
    case (Cons t ts)
    obtain s2 s3 where s3: "mutex_hand_over m s1 = Some s3" "sched_frame s1 s2" "run_next s2 = run_next s1"
      and e3: "s3 = s2\<lparr>m_owner_thread := (m_owner_thread s1)(m := t), m_owner_next := (m_owner_next s1)(m := t_mutex_list s1 t),
        m_owner_prev := (m_owner_prev s1)(m := NULL), t_mutex_list := (t_mutex_list s1)(t := m), m_lock := (m_lock s1)(m := 1)\<rparr>"
      and k3: "kinv s3 (ready_put s1 t (L(m := ts))) (remove1 t D) (remove1 t W)"
      and m3: "mem32 s3 = (mem32 s1)(osRtxThreadRegPtr t s1 := osOK)"
      using mutex_hand_over_Cons [OF k1 im1 Cons] by blast
    note F2 = sched_frameD [OF s3(2)]
    have st3: "stable s3" using st1 s3(3) F2 by (simp add: e3 stable_def)
    obtain s' L' where s': "osRtxThreadDispatch NULL s3 = Some s'" "rl_frame s3 s'" "kinv s' L' (remove1 t D) (remove1 t W)"
      "prio_ok s' L'" "redisp s3 (ready_put s1 t (L(m := ts))) = (L', run_next s')"
      using dispatch_null_kinv [OF k3 st3] run(1) F2 by (auto simp: e3 e1)
    note F = sched_frameD [OF rl_frame_sched [OF s'(2)]]
    have rn: "r \<noteq> t"
      using running_in_no_list [OF kinvD(1) [OF k], of m] st run Cons by (auto simp: stable_def)
    have "svcRtxMutexRelease m s = Some (osOK, s')" using op s3(1) s'(1) by simp
    moreover have "owns s' r (remove1 m ms)"
    proof -
      have "dseg (b(m := t_mutex_list s1 t)) (a(m := NULL)) NULL c (remove1 m ms) = dseg b a NULL c (remove1 m ms)"
        by (rule dseg_frame) (use mr(1) in auto)
      then show ?thesis
        using ds mr others rn unfolding owns_def is_mutex_def F by (simp add: e3 F2) (simp add: e1)
    qed
    moreover have "L' m = ts"
      using redisp_other [OF s'(5), of m] nrdy by (simp add: e3 F2 ready_put_def) (simp add: e1)
    moreover have "t_priority s' = pr" "m_lock s' m = 1" "m_owner_thread s' m = t" "t_mutex_list s' t = m"
      "m_owner_next s' m = t_mutex_list s t" using F F2 rn by (simp_all add: e3 e1)
    moreover have "mem32 s' = (mem32 s)(osRtxThreadRegPtr t s := osOK)"
      using rl_frameD(6) [OF s'(2)] m3 by (simp add: e1 osRtxThreadRegPtr_def)
    ultimately show ?thesis using s' Cons unfolding pr_def [symmetric]
      by (intro exI [of _ s'] exI [of _ L'] exI [of _ "remove1 t D"] exI [of _ "remove1 t W"]) simp
  qed
qed

end
