(* ===== verification/EvFlags.thy ===== *)
theory EvFlags
  imports Svc Demo
begin

text \<open>
  Event flags (\<open>rtx_evflags.c\<close>).  Threads wait for one or for all of a set of flags, and
  take the flags they waited for with them unless they ask not to.
\<close>

section \<open>Operations\<close>

abbreviation (input) sizeof_os_event_flags_t :: u32 where "sizeof_os_event_flags_t \<equiv> 16"

text \<open>The flags outside \<open>(1 << osRtxEventFlagsLimit) - 1\<close>.\<close>

abbreviation (input) event_flags_invalid :: u32 where "event_flags_invalid \<equiv> 0x80000000"

definition EventFlagsSet :: "addr \<Rightarrow> u32 \<Rightarrow> rtx \<Rightarrow> u32 \<times> rtx" where
  "EventFlagsSet ef flags s =
     (let (event_flags, v) = atomic_set32 (e_event_flags s ef) flags
      in (event_flags, s\<lparr>e_event_flags := (e_event_flags s)(ef := v)\<rparr>))"

definition EventFlagsClear :: "addr \<Rightarrow> u32 \<Rightarrow> rtx \<Rightarrow> u32 \<times> rtx" where
  "EventFlagsClear ef flags s =
     (let (event_flags, v) = atomic_clr32 (e_event_flags s ef) flags
      in (event_flags, s\<lparr>e_event_flags := (e_event_flags s)(ef := v)\<rparr>))"

text \<open>The check of the flags of a variable: the result, and the value left in the variable
  (\<open>EventFlagsCheck\<close> of \<open>rtx_evflags.c\<close> and \<open>ThreadFlagsCheck\<close> of \<open>rtx_thread.c\<close> are the same code).\<close>

definition flags_check :: "u32 \<Rightarrow> u32 \<Rightarrow> u32 \<Rightarrow> u32 \<times> u32" where
  "flags_check v flags options =
     (if options AND osFlagsNoClear = 0 then
        (if options AND osFlagsWaitAll \<noteq> 0 then atomic_chk32_all v flags else atomic_chk32_any v flags)
      else
        (if (options AND osFlagsWaitAll \<noteq> 0 \<and> v AND flags \<noteq> flags) \<or>
            (options AND osFlagsWaitAll = 0 \<and> v AND flags = 0)
         then (0, v) else (v, v)))"

definition EventFlagsCheck :: "addr \<Rightarrow> u32 \<Rightarrow> u32 \<Rightarrow> rtx \<Rightarrow> u32 \<times> rtx" where
  "EventFlagsCheck ef flags options s =
     (let (event_flags, v) = flags_check (e_event_flags s ef) flags options
      in (event_flags, s\<lparr>e_event_flags := (e_event_flags s)(ef := v)\<rparr>))"

partial_function (option) ef_post_loop :: "addr \<Rightarrow> addr \<Rightarrow> rtx \<Rightarrow> rtx option" where
  "ef_post_loop ef thread s =
     (if thread \<noteq> NULL then do {
        let next = thread_next s thread;
        let (event_flags, s) = EventFlagsCheck ef (t_wait_flags s thread) (ucast (t_flags_options s thread)) s;
        s \<leftarrow> (if event_flags \<noteq> 0 then do {
                 s \<leftarrow> osRtxThreadListRemove thread s;
                 osRtxThreadWaitExit thread event_flags False s
               } else Some s);
        ef_post_loop ef next s
      } else Some s)"

definition osRtxEventFlagsPostProcess :: "addr \<Rightarrow> rtx \<Rightarrow> rtx option" where
  "osRtxEventFlagsPostProcess ef s = do { deref ef; ef_post_loop ef (thread_next s ef) s }"

definition svcRtxEventFlagsNew :: "os_attr option \<Rightarrow> rtx \<Rightarrow> (addr \<times> rtx) option" where
  "svcRtxEventFlagsNew attr s =
     (if \<not> attr_cb_ok sizeof_os_event_flags_t attr then Some (NULL, s)
      else
        (let (name, ef) = (case attr of Some a \<Rightarrow> (a_name a, a_cb_mem a) | None \<Rightarrow> (NULL, NULL)) in
         do {
           (ef, flags, s) \<leftarrow>
             (if ef = NULL then do {
                (ef, s) \<leftarrow> obj_alloc (mpi_event_flags s) sizeof_os_event_flags_t s;
                Some (ef, osRtxFlagSystemObject, s)
              } else Some (ef, 0, s));
           Some (ef,
             if ef \<noteq> NULL then
               s\<lparr>o_id := (o_id s)(ef := osRtxIdEventFlags),
                 o_flags := (o_flags s)(ef := flags),
                 o_name := (o_name s)(ef := name),
                 thread_next := (thread_next s)(ef := NULL),
                 e_event_flags := (e_event_flags s)(ef := 0)\<rparr>
             else s)
         }))"

definition svcRtxEventFlagsGetName :: "addr \<Rightarrow> rtx \<Rightarrow> addr" where
  "svcRtxEventFlagsGetName ef s =
     (if ef = NULL \<or> o_id s ef \<noteq> osRtxIdEventFlags then NULL else o_name s ef)"

text \<open>The wakeup loop of \<open>svcRtxEventFlagsSet\<close>; \<open>event_flags\<close> is the value to return.\<close>

partial_function (option) ef_set_loop :: "addr \<Rightarrow> addr \<Rightarrow> u32 \<Rightarrow> rtx \<Rightarrow> (u32 \<times> rtx) option" where
  "ef_set_loop ef thread event_flags s =
     (if thread \<noteq> NULL then do {
        let next = thread_next s thread;
        let (event_flags0, s) = EventFlagsCheck ef (t_wait_flags s thread) (ucast (t_flags_options s thread)) s;
        (event_flags, s) \<leftarrow>
          (if event_flags0 \<noteq> 0 then do {
             let event_flags = (if (ucast (t_flags_options s thread) :: u32) AND osFlagsNoClear = 0
                                then event_flags0 AND NOT (t_wait_flags s thread) else event_flags0);
             s \<leftarrow> osRtxThreadListRemove thread s;
             s \<leftarrow> osRtxThreadWaitExit thread event_flags0 False s;
             Some (event_flags, s)
           } else Some (event_flags, s));
        ef_set_loop ef next event_flags s
      } else Some (event_flags, s))"

definition svcRtxEventFlagsSet :: "addr \<Rightarrow> u32 \<Rightarrow> rtx \<Rightarrow> (u32 \<times> rtx) option" where
  "svcRtxEventFlagsSet ef flags s =
     (if ef = NULL \<or> o_id s ef \<noteq> osRtxIdEventFlags \<or> flags AND event_flags_invalid \<noteq> 0
      then Some (osErrorParameter, s)
      else do {
        let (event_flags, s) = EventFlagsSet ef flags s;
        (event_flags, s) \<leftarrow> ef_set_loop ef (thread_next s ef) event_flags s;
        s \<leftarrow> osRtxThreadDispatch NULL s;
        Some (event_flags, s)
      })"

definition svcRtxEventFlagsClear :: "addr \<Rightarrow> u32 \<Rightarrow> rtx \<Rightarrow> u32 \<times> rtx" where
  "svcRtxEventFlagsClear ef flags s =
     (if ef = NULL \<or> o_id s ef \<noteq> osRtxIdEventFlags \<or> flags AND event_flags_invalid \<noteq> 0
      then (osErrorParameter, s)
      else EventFlagsClear ef flags s)"

definition svcRtxEventFlagsGet :: "addr \<Rightarrow> rtx \<Rightarrow> u32" where
  "svcRtxEventFlagsGet ef s =
     (if ef = NULL \<or> o_id s ef \<noteq> osRtxIdEventFlags then 0 else e_event_flags s ef)"

definition svcRtxEventFlagsWait :: "addr \<Rightarrow> u32 \<Rightarrow> u32 \<Rightarrow> u32 \<Rightarrow> rtx \<Rightarrow> (u32 \<times> rtx) option" where
  "svcRtxEventFlagsWait ef flags options timeout s =
     (let running_thread = run_curr s in
      if running_thread = NULL then Some (osError, s)
      else if ef = NULL \<or> o_id s ef \<noteq> osRtxIdEventFlags \<or> flags AND event_flags_invalid \<noteq> 0
      then Some (osErrorParameter, s)
      else
        (let (event_flags, s) = EventFlagsCheck ef flags options s in
         if event_flags \<noteq> 0 then Some (event_flags, s)
         else if timeout \<noteq> 0 then do {
           let s = s\<lparr>t_wait_flags := (t_wait_flags s)(running_thread := flags),
                     t_flags_options := (t_flags_options s)(running_thread := ucast options)\<rparr>;
           (_, s) \<leftarrow> wait_on ef osRtxThreadWaitingEventFlags timeout s;
           Some (osErrorTimeout, s)
         }
         else Some (osErrorResource, s)))"

definition svcRtxEventFlagsDelete :: "addr \<Rightarrow> rtx \<Rightarrow> (u32 \<times> rtx) option" where
  "svcRtxEventFlagsDelete ef s =
     (if ef = NULL \<or> o_id s ef \<noteq> osRtxIdEventFlags then Some (osErrorParameter, s)
      else do {
        s \<leftarrow> wake_all ef osErrorResource s;
        let s = s\<lparr>o_id := (o_id s)(ef := osRtxIdInvalid)\<rparr>;
        s \<leftarrow> (if o_flags s ef AND osRtxFlagSystemObject \<noteq> 0
               then obj_free (mpi_event_flags s) ef s else Some s);
        Some (osOK, s)
      })"

definition isrRtxEventFlagsSet :: "addr \<Rightarrow> u32 \<Rightarrow> rtx \<Rightarrow> (u32 \<times> rtx) option" where
  "isrRtxEventFlagsSet ef flags s =
     (if ef = NULL \<or> o_id s ef \<noteq> osRtxIdEventFlags \<or> flags AND event_flags_invalid \<noteq> 0
      then Some (osErrorParameter, s)
      else do {
        let (event_flags, s) = EventFlagsSet ef flags s;
        s \<leftarrow> osRtxPostProcess ef s;
        Some (event_flags, s)
      })"

definition isrRtxEventFlagsWait :: "addr \<Rightarrow> u32 \<Rightarrow> u32 \<Rightarrow> u32 \<Rightarrow> rtx \<Rightarrow> u32 \<times> rtx" where
  "isrRtxEventFlagsWait ef flags options timeout s =
     (if ef = NULL \<or> o_id s ef \<noteq> osRtxIdEventFlags \<or> timeout \<noteq> 0 \<or> flags AND event_flags_invalid \<noteq> 0
      then (osErrorParameter, s)
      else
        (let (event_flags, s) = EventFlagsCheck ef flags options s in
         if event_flags \<noteq> 0 then (event_flags, s) else (osErrorResource, s)))"

definition osEventFlagsNew :: "bool \<Rightarrow> os_attr option \<Rightarrow> rtx \<Rightarrow> (addr \<times> rtx) option" where
  "osEventFlagsNew irq attr s = (if irq then Some (NULL, s) else svc_call (svcRtxEventFlagsNew attr) s)"

definition osEventFlagsGetName :: "bool \<Rightarrow> addr \<Rightarrow> rtx \<Rightarrow> (addr \<times> rtx) option" where
  "osEventFlagsGetName irq ef s =
     (if irq then Some (NULL, s) else svc_call (\<lambda>s. Some (svcRtxEventFlagsGetName ef s, s)) s)"

definition osEventFlagsSet :: "bool \<Rightarrow> addr \<Rightarrow> u32 \<Rightarrow> rtx \<Rightarrow> (u32 \<times> rtx) option" where
  "osEventFlagsSet irq ef flags s =
     (if irq then isrRtxEventFlagsSet ef flags s else svc_call (svcRtxEventFlagsSet ef flags) s)"

definition osEventFlagsClear :: "bool \<Rightarrow> addr \<Rightarrow> u32 \<Rightarrow> rtx \<Rightarrow> (u32 \<times> rtx) option" where
  "osEventFlagsClear irq ef flags s =
     (if irq then Some (svcRtxEventFlagsClear ef flags s)
      else svc_call (\<lambda>s. Some (svcRtxEventFlagsClear ef flags s)) s)"

definition osEventFlagsGet :: "bool \<Rightarrow> addr \<Rightarrow> rtx \<Rightarrow> (u32 \<times> rtx) option" where
  "osEventFlagsGet irq ef s =
     (if irq then Some (svcRtxEventFlagsGet ef s, s)
      else svc_call (\<lambda>s. Some (svcRtxEventFlagsGet ef s, s)) s)"

definition osEventFlagsWait :: "bool \<Rightarrow> addr \<Rightarrow> u32 \<Rightarrow> u32 \<Rightarrow> u32 \<Rightarrow> rtx \<Rightarrow> (u32 \<times> rtx) option" where
  "osEventFlagsWait irq ef flags options timeout s =
     (if irq then Some (isrRtxEventFlagsWait ef flags options timeout s)
      else svc_call (svcRtxEventFlagsWait ef flags options timeout) s)"

definition osEventFlagsDelete :: "bool \<Rightarrow> addr \<Rightarrow> rtx \<Rightarrow> (u32 \<times> rtx) option" where
  "osEventFlagsDelete irq ef s =
     (if irq then Some (osErrorISR, s) else svc_call (svcRtxEventFlagsDelete ef) s)"

end
