(* ===== verification/MemPool.thy ===== *)
theory MemPool
  imports Svc Demo
begin

text \<open>
  Memory pools (\<open>rtx_mempool.c\<close>): the services on top of the fixed-size block lists of
  \<open>Memory\<close>, with threads that wait for a block.
\<close>

section \<open>Operations\<close>

abbreviation (input) sizeof_os_memory_pool_t :: u32 where "sizeof_os_memory_pool_t \<equiv> 36"

text \<open>The address of the member \<open>mp_info\<close>, and the intrinsic \<open>__CLZ\<close> (count of leading zeros).\<close>

definition mp_info_of :: "addr \<Rightarrow> addr" where
  "mp_info_of mp = mp + 12"

definition CLZ :: "u32 \<Rightarrow> u32" where
  "CLZ x = of_nat (length (takeWhile (\<lambda>i. \<not> bit x i) (rev [0..<32])))"

text \<open>\<open>memset(mem, 0, n)\<close>.\<close>

definition mem_zero :: "addr \<Rightarrow> u32 \<Rightarrow> rtx \<Rightarrow> rtx" where
  "mem_zero mem n s = s\<lparr>mem32 := (\<lambda>a. if a - mem < n then 0 else mem32 s a)\<rparr>"

text \<open>Attributes with data memory (memory pools and message queues).\<close>

record os_data_attr = os_attr +
  a_data_mem :: addr
  a_data_size :: u32

definition attr_data_ok :: "u32 \<Rightarrow> os_data_attr option \<Rightarrow> bool" where
  "attr_data_ok msize attr =
     (case attr of None \<Rightarrow> True
      | Some a \<Rightarrow> if a_data_mem a \<noteq> NULL then a_data_mem a AND 3 = 0 \<and> a_data_size a \<ge> msize
                  else a_data_size a = 0)"

definition osRtxMemoryPoolPostProcess :: "addr \<Rightarrow> rtx \<Rightarrow> rtx option" where
  "osRtxMemoryPoolPostProcess mp s =
     do {
       deref mp;
       if thread_next s mp \<noteq> NULL then do {
         let (block, s) = osRtxMemoryPoolAlloc (mp_info_of mp) s;
         if block \<noteq> NULL then do {
           (_, s) \<leftarrow> wake_first mp block False s;
           Some s
         } else Some s
       } else Some s
     }"

text \<open>The control block of an object, and the data memory of a pool or a queue; a failure
  of the second allocation gives the first back.\<close>

definition cb_and_data :: "addr \<Rightarrow> addr \<Rightarrow> addr \<Rightarrow> addr \<Rightarrow> u32 \<Rightarrow> u32 \<Rightarrow> rtx \<Rightarrow> (addr \<times> addr \<times> u8 \<times> rtx) option" where
  "cb_and_data mpi mem_data ob data cb_size msize s =
     do {
       (ob, flags, s) \<leftarrow>
         (if ob = NULL then do {
            (ob, s) \<leftarrow> obj_alloc mpi cb_size s;
            Some (ob, osRtxFlagSystemObject, s)
          } else Some (ob, 0, s));
       if ob \<noteq> NULL \<and> data = NULL then do {
         (data, s) \<leftarrow> osRtxMemoryAlloc mem_data msize 0 s;
         if data = NULL then do {
           s \<leftarrow> (if flags AND osRtxFlagSystemObject \<noteq> 0 then obj_free mpi ob s else Some s);
           Some (NULL, data, flags OR osRtxFlagSystemMemory, s)
         } else Some (ob, data, flags OR osRtxFlagSystemMemory, mem_zero data msize s)
       } else Some (ob, data, flags, s)
     }"

definition svcRtxMemoryPoolNew :: "u32 \<Rightarrow> u32 \<Rightarrow> os_data_attr option \<Rightarrow> rtx \<Rightarrow> (addr \<times> rtx) option" where
  "svcRtxMemoryPoolNew block_count block_size attr s =
     (if block_count = 0 \<or> block_size = 0 then Some (NULL, s)
      else
        (let b_count = block_count;
             b_size = (block_size + 3) AND NOT 3
         in if CLZ b_count + CLZ b_size < 32 then Some (NULL, s)
         else
           (let msize = b_count * b_size in
            if \<not> attr_cb_ok sizeof_os_memory_pool_t (map_option os_attr.truncate attr) \<or> \<not> attr_data_ok msize attr
            then Some (NULL, s)
            else
              (let (name, mp, mp_mem) = (case attr of Some a \<Rightarrow> (a_name a, a_cb_mem a, a_data_mem a)
                                         | None \<Rightarrow> (NULL, NULL, NULL)) in
               do {
                 (mp, mp_mem, flags, s) \<leftarrow>
                   cb_and_data (mpi_memory_pool s) (mem_mp_data s) mp mp_mem sizeof_os_memory_pool_t msize s;
                 if mp \<noteq> NULL then do {
                   let s = s\<lparr>o_id := (o_id s)(mp := osRtxIdMemoryPool),
                             o_flags := (o_flags s)(mp := flags),
                             o_name := (o_name s)(mp := name),
                             thread_next := (thread_next s)(mp := NULL)\<rparr>;
                   (_, s) \<leftarrow> osRtxMemoryPoolInit (mp_info_of mp) b_count b_size mp_mem s;
                   Some (mp, s)
                 } else Some (mp, s)
               }))))"

definition svcRtxMemoryPoolGetName :: "addr \<Rightarrow> rtx \<Rightarrow> addr" where
  "svcRtxMemoryPoolGetName mp s =
     (if mp = NULL \<or> o_id s mp \<noteq> osRtxIdMemoryPool then NULL else o_name s mp)"

definition svcRtxMemoryPoolAlloc :: "addr \<Rightarrow> u32 \<Rightarrow> rtx \<Rightarrow> (addr \<times> rtx) option" where
  "svcRtxMemoryPoolAlloc mp timeout s =
     (if mp = NULL \<or> o_id s mp \<noteq> osRtxIdMemoryPool then Some (NULL, s)
      else
        (let (block, s) = osRtxMemoryPoolAlloc (mp_info_of mp) s in
         if block \<noteq> NULL then Some (block, s)
         else if timeout \<noteq> 0 then do {
           (_, s) \<leftarrow> wait_on mp osRtxThreadWaitingMemoryPool timeout s;
           Some (block, s)
         }
         else Some (block, s)))"

definition svcRtxMemoryPoolFree :: "addr \<Rightarrow> addr \<Rightarrow> rtx \<Rightarrow> (u32 \<times> rtx) option" where
  "svcRtxMemoryPoolFree mp block s =
     (if mp = NULL \<or> o_id s mp \<noteq> osRtxIdMemoryPool then Some (osErrorParameter, s)
      else
        (let (status, s) = osRtxMemoryPoolFree (mp_info_of mp) block s in
         if status = osOK then
           (if thread_next s mp \<noteq> NULL then
              (let (block0, s) = osRtxMemoryPoolAlloc (mp_info_of mp) s in
               if block0 \<noteq> NULL then do {
                 (_, s) \<leftarrow> wake_first mp block0 True s;
                 Some (status, s)
               } else Some (status, s))
            else Some (status, s))
         else Some (status, s)))"

definition svcRtxMemoryPoolGetCapacity :: "addr \<Rightarrow> rtx \<Rightarrow> u32" where
  "svcRtxMemoryPoolGetCapacity mp s =
     (if mp = NULL \<or> o_id s mp \<noteq> osRtxIdMemoryPool then 0 else mp_max_blocks s (mp_info_of mp))"

definition svcRtxMemoryPoolGetBlockSize :: "addr \<Rightarrow> rtx \<Rightarrow> u32" where
  "svcRtxMemoryPoolGetBlockSize mp s =
     (if mp = NULL \<or> o_id s mp \<noteq> osRtxIdMemoryPool then 0 else mp_block_size s (mp_info_of mp))"

definition svcRtxMemoryPoolGetCount :: "addr \<Rightarrow> rtx \<Rightarrow> u32" where
  "svcRtxMemoryPoolGetCount mp s =
     (if mp = NULL \<or> o_id s mp \<noteq> osRtxIdMemoryPool then 0 else mp_used_blocks s (mp_info_of mp))"

definition svcRtxMemoryPoolGetSpace :: "addr \<Rightarrow> rtx \<Rightarrow> u32" where
  "svcRtxMemoryPoolGetSpace mp s =
     (if mp = NULL \<or> o_id s mp \<noteq> osRtxIdMemoryPool then 0
      else mp_max_blocks s (mp_info_of mp) - mp_used_blocks s (mp_info_of mp))"

definition svcRtxMemoryPoolDelete :: "addr \<Rightarrow> rtx \<Rightarrow> (u32 \<times> rtx) option" where
  "svcRtxMemoryPoolDelete mp s =
     (if mp = NULL \<or> o_id s mp \<noteq> osRtxIdMemoryPool then Some (osErrorParameter, s)
      else do {
        s \<leftarrow> wake_all mp 0 s;
        let s = s\<lparr>o_id := (o_id s)(mp := osRtxIdInvalid)\<rparr>;
        s \<leftarrow> (if o_flags s mp AND osRtxFlagSystemMemory \<noteq> 0
               then map_option snd (osRtxMemoryFree (mem_mp_data s) (mp_block_base s (mp_info_of mp)) s) else Some s);
        s \<leftarrow> (if o_flags s mp AND osRtxFlagSystemObject \<noteq> 0
               then obj_free (mpi_memory_pool s) mp s else Some s);
        Some (osOK, s)
      })"

definition isrRtxMemoryPoolAlloc :: "addr \<Rightarrow> u32 \<Rightarrow> rtx \<Rightarrow> addr \<times> rtx" where
  "isrRtxMemoryPoolAlloc mp timeout s =
     (if mp = NULL \<or> o_id s mp \<noteq> osRtxIdMemoryPool \<or> timeout \<noteq> 0 then (NULL, s)
      else osRtxMemoryPoolAlloc (mp_info_of mp) s)"

definition isrRtxMemoryPoolFree :: "addr \<Rightarrow> addr \<Rightarrow> rtx \<Rightarrow> (u32 \<times> rtx) option" where
  "isrRtxMemoryPoolFree mp block s =
     (if mp = NULL \<or> o_id s mp \<noteq> osRtxIdMemoryPool then Some (osErrorParameter, s)
      else
        (let (status, s) = osRtxMemoryPoolFree (mp_info_of mp) block s in
         if status = osOK then do {
           s \<leftarrow> osRtxPostProcess mp s;
           Some (status, s)
         } else Some (status, s)))"

definition osMemoryPoolNew :: "bool \<Rightarrow> u32 \<Rightarrow> u32 \<Rightarrow> os_data_attr option \<Rightarrow> rtx \<Rightarrow> (addr \<times> rtx) option" where
  "osMemoryPoolNew irq block_count block_size attr s =
     (if irq then Some (NULL, s) else svc_call (svcRtxMemoryPoolNew block_count block_size attr) s)"

definition osMemoryPoolGetName :: "bool \<Rightarrow> addr \<Rightarrow> rtx \<Rightarrow> (addr \<times> rtx) option" where
  "osMemoryPoolGetName irq mp s =
     (if irq then Some (NULL, s) else svc_call (\<lambda>s. Some (svcRtxMemoryPoolGetName mp s, s)) s)"

definition osMemoryPoolAlloc :: "bool \<Rightarrow> addr \<Rightarrow> u32 \<Rightarrow> rtx \<Rightarrow> (addr \<times> rtx) option" where
  "osMemoryPoolAlloc irq mp timeout s =
     (if irq then Some (isrRtxMemoryPoolAlloc mp timeout s) else svc_call (svcRtxMemoryPoolAlloc mp timeout) s)"

definition osMemoryPoolFree :: "bool \<Rightarrow> addr \<Rightarrow> addr \<Rightarrow> rtx \<Rightarrow> (u32 \<times> rtx) option" where
  "osMemoryPoolFree irq mp block s =
     (if irq then isrRtxMemoryPoolFree mp block s else svc_call (svcRtxMemoryPoolFree mp block) s)"

text \<open>The four queries: from an ISR the service function is called directly.\<close>

definition osMemoryPoolGetCapacity :: "bool \<Rightarrow> addr \<Rightarrow> rtx \<Rightarrow> (u32 \<times> rtx) option" where
  "osMemoryPoolGetCapacity irq mp s =
     (if irq then Some (svcRtxMemoryPoolGetCapacity mp s, s)
      else svc_call (\<lambda>s. Some (svcRtxMemoryPoolGetCapacity mp s, s)) s)"

definition osMemoryPoolGetBlockSize :: "bool \<Rightarrow> addr \<Rightarrow> rtx \<Rightarrow> (u32 \<times> rtx) option" where
  "osMemoryPoolGetBlockSize irq mp s =
     (if irq then Some (svcRtxMemoryPoolGetBlockSize mp s, s)
      else svc_call (\<lambda>s. Some (svcRtxMemoryPoolGetBlockSize mp s, s)) s)"

definition osMemoryPoolGetCount :: "bool \<Rightarrow> addr \<Rightarrow> rtx \<Rightarrow> (u32 \<times> rtx) option" where
  "osMemoryPoolGetCount irq mp s =
     (if irq then Some (svcRtxMemoryPoolGetCount mp s, s)
      else svc_call (\<lambda>s. Some (svcRtxMemoryPoolGetCount mp s, s)) s)"

definition osMemoryPoolGetSpace :: "bool \<Rightarrow> addr \<Rightarrow> rtx \<Rightarrow> (u32 \<times> rtx) option" where
  "osMemoryPoolGetSpace irq mp s =
     (if irq then Some (svcRtxMemoryPoolGetSpace mp s, s)
      else svc_call (\<lambda>s. Some (svcRtxMemoryPoolGetSpace mp s, s)) s)"

definition osMemoryPoolDelete :: "bool \<Rightarrow> addr \<Rightarrow> rtx \<Rightarrow> (u32 \<times> rtx) option" where
  "osMemoryPoolDelete irq mp s =
     (if irq then Some (osErrorISR, s) else svc_call (svcRtxMemoryPoolDelete mp) s)"

end
