(* ===== verification/ThreadSvc.thy ===== *)
theory ThreadSvc
  imports Mutex EvFlags MemPool
begin

text \<open>
  The thread services (\<open>rtx_thread.c\<close>): creation, priorities, yield, suspend and resume, join
  and detach, exit and termination, enumeration, and thread flags.
\<close>

section \<open>Configuration\<close>

text \<open>
  The attributes of a thread, the constant \<open>osRtxConfig\<close> (\<open>rtx_os.h\<close>) as far as the code
  reads it, and the addresses of the functions the code takes the address of.
\<close>

record os_thread_attr = os_attr +
  a_stack_mem :: addr
  a_stack_size :: u32
  a_priority :: int

record rtx_config =
  c_flags :: u32
  c_tick_freq :: u32
  c_robin_timeout :: u32
  c_isr_queue_data :: "addr list"
  c_isr_queue_max :: u16
  c_stack_addr :: addr
  c_stack_size :: u32
  c_mp_data_addr :: addr
  c_mp_data_size :: u32
  c_mq_data_addr :: addr
  c_mq_data_size :: u32
  c_common_addr :: addr
  c_common_size :: u32
  c_mpi_stack :: addr
  c_mpi_thread :: addr
  c_mpi_timer :: addr
  c_mpi_event_flags :: addr
  c_mpi_mutex :: addr
  c_mpi_semaphore :: addr
  c_mpi_memory_pool :: addr
  c_mpi_message_queue :: addr
  c_thread_stack_size :: u32
  c_idle_thread_attr :: "os_thread_attr option"
  c_timer_thread_attr :: "os_thread_attr option"
  c_timer_mq_attr :: "os_data_attr option"
  c_timer_mq_mcnt :: u32
  f_osThreadExit :: addr
  f_osRtxIdleThread :: addr
  f_osRtxTimerThread :: addr

abbreviation (input) osRtxConfigPrivilegedMode :: u32 where "osRtxConfigPrivilegedMode \<equiv> 1"
abbreviation (input) osRtxConfigStackWatermark :: u32 where "osRtxConfigStackWatermark \<equiv> 4"
abbreviation (input) sizeof_os_thread_t :: u32 where "sizeof_os_thread_t \<equiv> 68"
abbreviation (input) thread_flags_invalid :: u32 where "thread_flags_invalid \<equiv> 0x80000000"
abbreviation (input) osThreadError :: u32 where "osThreadError \<equiv> 0xFFFFFFFF"

section \<open>Thread flags helpers\<close>

definition ThreadFlagsSet :: "addr \<Rightarrow> u32 \<Rightarrow> rtx \<Rightarrow> u32 \<times> rtx" where
  "ThreadFlagsSet thread flags s =
     (let (thread_flags, v) = atomic_set32 (t_thread_flags s thread) flags
      in (thread_flags, s\<lparr>t_thread_flags := (t_thread_flags s)(thread := v)\<rparr>))"

definition ThreadFlagsClear :: "addr \<Rightarrow> u32 \<Rightarrow> rtx \<Rightarrow> u32 \<times> rtx" where
  "ThreadFlagsClear thread flags s =
     (let (thread_flags, v) = atomic_clr32 (t_thread_flags s thread) flags
      in (thread_flags, s\<lparr>t_thread_flags := (t_thread_flags s)(thread := v)\<rparr>))"

definition ThreadFlagsCheck :: "addr \<Rightarrow> u32 \<Rightarrow> u32 \<Rightarrow> rtx \<Rightarrow> u32 \<times> rtx" where
  "ThreadFlagsCheck thread flags options s =
     (let (thread_flags, v) = flags_check (t_thread_flags s thread) flags options
      in (thread_flags, s\<lparr>t_thread_flags := (t_thread_flags s)(thread := v)\<rparr>))"

definition osRtxThreadPostProcess :: "addr \<Rightarrow> rtx \<Rightarrow> rtx option" where
  "osRtxThreadPostProcess thread s =
     do {
       deref thread;
       if o_state s thread = osRtxThreadWaitingThreadFlags then do {
         let (thread_flags, s) = ThreadFlagsCheck thread (t_wait_flags s thread) (ucast (t_flags_options s thread)) s;
         if thread_flags \<noteq> 0 then osRtxThreadWaitExit thread thread_flags False s else Some s
       } else Some s
     }"

section \<open>Creation\<close>

text \<open>The memory a new thread gets: its control block and its stack.\<close>

definition thread_memory ::
  "rtx_config \<Rightarrow> addr \<Rightarrow> addr \<Rightarrow> u32 \<Rightarrow> rtx \<Rightarrow> (addr \<times> addr \<times> u32 \<times> u8 \<times> rtx) option" where
  "thread_memory cfg thread stack_mem stack_size s =
     do {
       (thread, flags, s) \<leftarrow>
         (if thread = NULL then do {
            (thread, s) \<leftarrow> obj_alloc (mpi_thread s) sizeof_os_thread_t s;
            Some (thread, osRtxFlagSystemObject, s)
          } else Some (thread, 0, s));
       if thread \<noteq> NULL \<and> stack_mem = NULL then do {
         (stack_mem, stack_size, flags, s) \<leftarrow>
           (if stack_size = 0 then
              (let stack_size = c_thread_stack_size cfg in
               if mpi_stack s \<noteq> NULL then
                 (let (stack_mem, s) = osRtxMemoryPoolAlloc (mpi_stack s) s
                  in Some (stack_mem, stack_size, if stack_mem \<noteq> NULL then flags OR osRtxThreadFlagDefStack else flags, s))
               else do {
                 (stack_mem, s) \<leftarrow> osRtxMemoryAlloc (mem_stack s) stack_size 0 s;
                 Some (stack_mem, stack_size, flags, s)
               })
            else do {
              (stack_mem, s) \<leftarrow> osRtxMemoryAlloc (mem_stack s) stack_size 0 s;
              Some (stack_mem, stack_size, flags, s)
            });
         if stack_mem = NULL then do {
           s \<leftarrow> (if flags AND osRtxFlagSystemObject \<noteq> 0 then obj_free (mpi_thread s) thread s else Some s);
           Some (NULL, stack_mem, stack_size, flags OR osRtxFlagSystemMemory, s)
         } else Some (thread, stack_mem, stack_size, flags OR osRtxFlagSystemMemory, s)
       } else Some (thread, stack_mem, stack_size, flags, s)
     }"

text \<open>The fill loop of the stack watermark, and the first stack frame.\<close>

primrec stack_fill :: "nat \<Rightarrow> addr \<Rightarrow> (addr \<Rightarrow> u32) \<Rightarrow> addr \<Rightarrow> u32" where
  "stack_fill 0 ptr m = m"
| "stack_fill (Suc n) ptr m = stack_fill n (ptr + 4) (m(ptr + 4 := osRtxStackFillPattern))"

definition xPSR_InitVal :: "bool \<Rightarrow> bool \<Rightarrow> u32" where
  "xPSR_InitVal privileged thumb =
     (if privileged then (if thumb then 0x1F OR 0x20 else 0x1F) else (if thumb then 0x10 OR 0x20 else 0x10))"

primrec frame_zero :: "nat \<Rightarrow> addr \<Rightarrow> (addr \<Rightarrow> u32) \<Rightarrow> addr \<Rightarrow> u32" where
  "frame_zero 0 ptr m = m"
| "frame_zero (Suc n) ptr m = (frame_zero n ptr m)(ptr + 4 * of_nat n := 0)"

definition stack_init :: "rtx_config \<Rightarrow> addr \<Rightarrow> addr \<Rightarrow> addr \<Rightarrow> u32 \<Rightarrow> addr \<Rightarrow> (addr \<Rightarrow> u32) \<Rightarrow> addr \<Rightarrow> u32" where
  "stack_init cfg func argument stack_mem stack_size sp m =
     (let m = m(stack_mem := osRtxStackMagicWord);
          m = (if c_flags cfg AND osRtxConfigStackWatermark \<noteq> 0
               then stack_fill (unat (stack_size div 4 - (16 + 1))) stack_mem m else m);
          m = frame_zero 13 sp m;
          m = m(sp + 4 * 13 := f_osThreadExit cfg);
          m = m(sp + 4 * 14 := func);
          m = m(sp + 4 * 15 := xPSR_InitVal (c_flags cfg AND osRtxConfigPrivilegedMode \<noteq> 0) (func AND 1 \<noteq> 0))
      in m(sp + 4 * 8 := argument))"

text \<open>The control block of a new thread.\<close>

definition thread_init ::
  "rtx_config \<Rightarrow> addr \<Rightarrow> addr \<Rightarrow> addr \<Rightarrow> addr \<Rightarrow> u32 \<Rightarrow> addr \<Rightarrow> u32 \<Rightarrow> int \<Rightarrow> u8 \<Rightarrow> rtx \<Rightarrow> rtx" where
  "thread_init cfg thread func argument name attr_bits stack_mem stack_size priority flags s =
     (let sp = stack_mem + stack_size - 64 in
      s\<lparr>o_id := (o_id s)(thread := osRtxIdThread),
        o_state := (o_state s)(thread := osRtxThreadReady),
        o_flags := (o_flags s)(thread := flags),
        o_attr := (o_attr s)(thread := ucast attr_bits),
        o_name := (o_name s)(thread := name),
        thread_next := (thread_next s)(thread := NULL),
        thread_prev := (thread_prev s)(thread := NULL),
        delay_next := (delay_next s)(thread := NULL),
        delay_prev := (delay_prev s)(thread := NULL),
        thread_join := (thread_join s)(thread := NULL),
        t_delay := (t_delay s)(thread := 0),
        t_priority := (t_priority s)(thread := priority),
        t_priority_base := (t_priority_base s)(thread := priority),
        t_stack_frame := (t_stack_frame s)(thread := 0),
        t_flags_options := (t_flags_options s)(thread := 0),
        t_wait_flags := (t_wait_flags s)(thread := 0),
        t_thread_flags := (t_thread_flags s)(thread := 0),
        t_mutex_list := (t_mutex_list s)(thread := NULL),
        t_stack_mem := (t_stack_mem s)(thread := stack_mem),
        t_stack_size := (t_stack_size s)(thread := stack_size),
        t_sp := (t_sp s)(thread := sp),
        t_thread_addr := (t_thread_addr s)(thread := func),
        mem32 := stack_init cfg func argument stack_mem stack_size sp (mem32 s)\<rparr>)"

definition svcRtxThreadNew ::
  "rtx_config \<Rightarrow> addr \<Rightarrow> addr \<Rightarrow> os_thread_attr option \<Rightarrow> rtx \<Rightarrow> (addr \<times> rtx) option" where
  "svcRtxThreadNew cfg func argument attr s =
     (if func = NULL then Some (NULL, s)
      else if \<not> attr_cb_ok sizeof_os_thread_t (map_option os_attr.truncate attr) then Some (NULL, s)
      else
        (let (name, attr_bits, thread, stack_mem, stack_size, priority) =
               (case attr of
                  Some a \<Rightarrow> (a_name a, a_attr_bits a, a_cb_mem a, a_stack_mem a, a_stack_size a, a_priority a)
                | None \<Rightarrow> (NULL, 0, NULL, NULL, 0, osPriorityNormal)) in
         if stack_mem \<noteq> NULL \<and> (stack_mem AND 7 \<noteq> 0 \<or> stack_size = 0) then Some (NULL, s)
         else if priority \<noteq> osPriorityNone \<and> (priority < osPriorityIdle \<or> priority > osPriorityISR) then Some (NULL, s)
         else if stack_size \<noteq> 0 \<and> (stack_size AND 7 \<noteq> 0 \<or> stack_size < 64 + 8) then Some (NULL, s)
         else do {
           let priority = (if priority = osPriorityNone then osPriorityNormal else priority);
           (thread, stack_mem, stack_size, flags, s) \<leftarrow> thread_memory cfg thread stack_mem stack_size s;
           if thread \<noteq> NULL then do {
             let s = thread_init cfg thread func argument name attr_bits stack_mem stack_size priority flags s;
             s \<leftarrow> osRtxThreadDispatch thread s;
             Some (thread, s)
           } else Some (thread, s)
         }))"

section \<open>Queries and priorities\<close>

definition svcRtxThreadGetName :: "addr \<Rightarrow> rtx \<Rightarrow> addr" where
  "svcRtxThreadGetName thread s =
     (if thread = NULL \<or> o_id s thread \<noteq> osRtxIdThread then NULL else o_name s thread)"

definition svcRtxThreadGetId :: "rtx \<Rightarrow> addr" where
  "svcRtxThreadGetId s = run_curr s"

definition osRtxThreadState :: "addr \<Rightarrow> rtx \<Rightarrow> u32" where
  "osRtxThreadState thread s = ucast (o_state s thread AND osRtxThreadStateMask)"

definition svcRtxThreadGetState :: "addr \<Rightarrow> rtx \<Rightarrow> u32" where
  "svcRtxThreadGetState thread s =
     (if thread = NULL \<or> o_id s thread \<noteq> osRtxIdThread then osThreadError else osRtxThreadState thread s)"

definition svcRtxThreadGetStackSize :: "addr \<Rightarrow> rtx \<Rightarrow> u32" where
  "svcRtxThreadGetStackSize thread s =
     (if thread = NULL \<or> o_id s thread \<noteq> osRtxIdThread then 0 else t_stack_size s thread)"

partial_function (option) stack_space_loop :: "rtx \<Rightarrow> u32 \<Rightarrow> addr \<Rightarrow> u32 \<Rightarrow> u32 option" where
  "stack_space_loop s stack_size stack space =
     (if space < stack_size then
        (if mem32 s stack \<noteq> osRtxStackFillPattern then Some space
         else stack_space_loop s stack_size (stack + 4) (space + 4))
      else Some space)"

definition svcRtxThreadGetStackSpace :: "rtx_config \<Rightarrow> addr \<Rightarrow> rtx \<Rightarrow> u32 option" where
  "svcRtxThreadGetStackSpace cfg thread s =
     (if thread = NULL \<or> o_id s thread \<noteq> osRtxIdThread then Some 0
      else if c_flags cfg AND osRtxConfigStackWatermark = 0 then Some 0
      else
        (let stack = t_stack_mem s thread in
         if mem32 s stack = osRtxStackMagicWord then stack_space_loop s (t_stack_size s thread) (stack + 4) 4
         else Some 0))"

definition svcRtxThreadSetPriority :: "addr \<Rightarrow> int \<Rightarrow> rtx \<Rightarrow> (u32 \<times> rtx) option" where
  "svcRtxThreadSetPriority thread priority s =
     (if thread = NULL \<or> o_id s thread \<noteq> osRtxIdThread \<or> priority < osPriorityIdle \<or> priority > osPriorityISR
      then Some (osErrorParameter, s)
      else if o_state s thread = osRtxThreadTerminated then Some (osErrorResource, s)
      else if t_priority s thread \<noteq> priority then do {
        let s = s\<lparr>t_priority := (t_priority s)(thread := priority)\<rparr>;
        let s = s\<lparr>t_priority_base := (t_priority_base s)(thread := priority)\<rparr>;
        s \<leftarrow> osRtxThreadListSort thread s;
        s \<leftarrow> osRtxThreadDispatch NULL s;
        Some (osOK, s)
      }
      else Some (osOK, s))"

definition svcRtxThreadGetPriority :: "addr \<Rightarrow> rtx \<Rightarrow> int" where
  "svcRtxThreadGetPriority thread s =
     (if thread = NULL \<or> o_id s thread \<noteq> osRtxIdThread then osPriorityError
      else if o_state s thread = osRtxThreadTerminated then osPriorityError
      else t_priority s thread)"

definition svcRtxThreadYield :: "rtx \<Rightarrow> (u32 \<times> rtx) option" where
  "svcRtxThreadYield s =
     (let kernel_state = k_state s; thread_running = run_curr s; thread_ready = thread_next s (ready_obj s) in
      if kernel_state = osRtxKernelRunning \<and> thread_ready \<noteq> NULL \<and> thread_running \<noteq> NULL \<and>
         t_priority s thread_ready = t_priority s thread_running
      then do {
        s \<leftarrow> osRtxThreadListRemove thread_ready s;
        s \<leftarrow> osRtxThreadReadyPut thread_running s;
        s \<leftarrow> osRtxThreadSwitch thread_ready s;
        Some (osOK, s)
      } else Some (osOK, s))"

section \<open>Suspend, resume, join, exit\<close>

text \<open>The \<open>switch\<close> on the state at the start of \<open>svcRtxThreadSuspend\<close> and \<open>svcRtxThreadTerminate\<close>.\<close>

definition thread_take_off :: "addr \<Rightarrow> rtx \<Rightarrow> (u32 \<times> rtx) option" where
  "thread_take_off thread s =
     (let st = o_state s thread AND osRtxThreadStateMask in
      if st = osRtxThreadRunning then
        (if k_state s \<noteq> osRtxKernelRunning \<or> thread_next s (ready_obj s) = NULL then Some (osErrorResource, s)
         else Some (osOK, s))
      else if st = osRtxThreadReady then do {
        s \<leftarrow> osRtxThreadListRemove thread s;
        Some (osOK, s)
      }
      else if st = osRtxThreadBlocked then do {
        s \<leftarrow> osRtxThreadListRemove thread s;
        s \<leftarrow> osRtxThreadDelayRemove thread s;
        Some (osOK, s)
      }
      else Some (osErrorResource, s))"

definition svcRtxThreadSuspend :: "addr \<Rightarrow> rtx \<Rightarrow> (u32 \<times> rtx) option" where
  "svcRtxThreadSuspend thread s =
     (if thread = NULL \<or> o_id s thread \<noteq> osRtxIdThread then Some (osErrorParameter, s)
      else do {
        (status, s) \<leftarrow> thread_take_off thread s;
        if status = osOK then do {
          s \<leftarrow> (if o_state s thread = osRtxThreadRunning then do {
                   (next, s) \<leftarrow> osRtxThreadListGet (ready_obj s) s;
                   osRtxThreadSwitch next s
                 } else Some s);
          let s = s\<lparr>o_state := (o_state s)(thread := osRtxThreadBlocked)\<rparr>;
          let s = s\<lparr>thread_prev := (thread_prev s)(thread := NULL), thread_next := (thread_next s)(thread := NULL)\<rparr>;
          s \<leftarrow> osRtxThreadDelayInsert thread osWaitForever s;
          Some (status, s)
        } else Some (status, s)
      })"

definition svcRtxThreadResume :: "addr \<Rightarrow> rtx \<Rightarrow> (u32 \<times> rtx) option" where
  "svcRtxThreadResume thread s =
     (if thread = NULL \<or> o_id s thread \<noteq> osRtxIdThread then Some (osErrorParameter, s)
      else if o_state s thread AND osRtxThreadStateMask \<noteq> osRtxThreadBlocked then Some (osErrorResource, s)
      else do {
        s \<leftarrow> osRtxThreadListRemove thread s;
        s \<leftarrow> osRtxThreadDelayRemove thread s;
        s \<leftarrow> osRtxThreadDispatch thread s;
        Some (osOK, s)
      })"

definition osRtxThreadFree :: "addr \<Rightarrow> rtx \<Rightarrow> rtx option" where
  "osRtxThreadFree thread s =
     do {
       let s = s\<lparr>o_state := (o_state s)(thread := osRtxThreadInactive), o_id := (o_id s)(thread := osRtxIdInvalid)\<rparr>;
       s \<leftarrow> (if o_flags s thread AND osRtxFlagSystemMemory \<noteq> 0 then
                (if o_flags s thread AND osRtxThreadFlagDefStack \<noteq> 0
                 then Some (snd (osRtxMemoryPoolFree (mpi_stack s) (t_stack_mem s thread) s))
                 else map_option snd (osRtxMemoryFree (mem_stack s) (t_stack_mem s thread) s))
              else Some s);
       if o_flags s thread AND osRtxFlagSystemObject \<noteq> 0 then obj_free (mpi_thread s) thread s else Some s
     }"

text \<open>\<open>osRtxThreadListUnlink(&osRtxInfo.thread.terminate_list, thread)\<close>.\<close>

definition terminate_unlink :: "addr \<Rightarrow> rtx \<Rightarrow> rtx option" where
  "terminate_unlink thread s =
     do {
       (l, s) \<leftarrow> osRtxThreadListUnlink (terminate_list s) thread s;
       Some (s\<lparr>terminate_list := l\<rparr>)
     }"

definition svcRtxThreadDetach :: "addr \<Rightarrow> rtx \<Rightarrow> (u32 \<times> rtx) option" where
  "svcRtxThreadDetach thread s =
     (if thread = NULL \<or> o_id s thread \<noteq> osRtxIdThread then Some (osErrorParameter, s)
      else if o_attr s thread AND osThreadJoinable = 0 then Some (osErrorResource, s)
      else if o_state s thread = osRtxThreadTerminated then do {
        s \<leftarrow> terminate_unlink thread s;
        s \<leftarrow> osRtxThreadFree thread s;
        Some (osOK, s)
      }
      else Some (osOK, s\<lparr>o_attr := (o_attr s)(thread := o_attr s thread AND NOT osThreadJoinable)\<rparr>))"

definition svcRtxThreadJoin :: "addr \<Rightarrow> rtx \<Rightarrow> (u32 \<times> rtx) option" where
  "svcRtxThreadJoin thread s =
     (if thread = NULL \<or> o_id s thread \<noteq> osRtxIdThread then Some (osErrorParameter, s)
      else if o_attr s thread AND osThreadJoinable = 0 then Some (osErrorResource, s)
      else if o_state s thread = osRtxThreadRunning then Some (osErrorResource, s)
      else if o_state s thread = osRtxThreadTerminated then do {
        s \<leftarrow> terminate_unlink thread s;
        s \<leftarrow> osRtxThreadFree thread s;
        Some (osOK, s)
      }
      else do {
        (ok, s) \<leftarrow> osRtxThreadWaitEnter osRtxThreadWaitingJoin osWaitForever s;
        Some (osErrorResource, if ok then s\<lparr>thread_join := (thread_join s)(thread := run_curr s)\<rparr> else s)
      })"

text \<open>The release of what a thread that ends holds, the switch away from it, and the end of
  its control block: freed, or put into the list of terminated threads until it is joined.\<close>

definition thread_release :: "addr \<Rightarrow> rtx \<Rightarrow> rtx option" where
  "thread_release thread s =
     do {
       s \<leftarrow> osRtxMutexOwnerRelease (t_mutex_list s thread) s;
       if thread_join s thread \<noteq> NULL then osRtxThreadWaitExit (thread_join s thread) osOK False s else Some s
     }"

definition thread_leave :: "addr \<Rightarrow> rtx \<Rightarrow> rtx option" where
  "thread_leave thread s =
     do {
       let s = s\<lparr>t_sp := (t_sp s)(thread := psp s)\<rparr>;
       (next, s) \<leftarrow> osRtxThreadListGet (ready_obj s) s;
       s \<leftarrow> osRtxThreadSwitch next s;
       Some (s\<lparr>run_curr := NULL\<rparr>)
     }"

definition thread_retire :: "addr \<Rightarrow> rtx \<Rightarrow> rtx option" where
  "thread_retire thread s =
     (if o_attr s thread AND osThreadJoinable = 0 \<or> thread_join s thread \<noteq> NULL then osRtxThreadFree thread s
      else
        (let s = s\<lparr>o_state := (o_state s)(thread := osRtxThreadTerminated)\<rparr>;
             s = s\<lparr>thread_prev := (thread_prev s)(thread := NULL)\<rparr>;
             s = s\<lparr>thread_next := (thread_next s)(thread := terminate_list s)\<rparr>;
             s = (if terminate_list s \<noteq> NULL
                  then s\<lparr>thread_prev := (thread_prev s)(terminate_list s := thread)\<rparr> else s)
         in Some (s\<lparr>terminate_list := thread\<rparr>)))"

definition svcRtxThreadExit :: "rtx \<Rightarrow> rtx option" where
  "svcRtxThreadExit s =
     (let thread = run_curr s in
      if thread = NULL then Some s
      else if k_state s \<noteq> osRtxKernelRunning \<or> thread_next s (ready_obj s) = NULL then Some s
      else do {
        s \<leftarrow> thread_release thread s;
        s \<leftarrow> thread_leave thread s;
        thread_retire thread s
      })"

definition svcRtxThreadTerminate :: "addr \<Rightarrow> rtx \<Rightarrow> (u32 \<times> rtx) option" where
  "svcRtxThreadTerminate thread s =
     (if thread = NULL \<or> o_id s thread \<noteq> osRtxIdThread then Some (osErrorParameter, s)
      else do {
        (status, s) \<leftarrow> thread_take_off thread s;
        if status = osOK then do {
          s \<leftarrow> thread_release thread s;
          s \<leftarrow> (if o_state s thread = osRtxThreadRunning then thread_leave thread s
                 else osRtxThreadDispatch NULL s);
          s \<leftarrow> thread_retire thread s;
          Some (status, s)
        } else Some (status, s)
      })"

section \<open>Enumeration\<close>

text \<open>The counting loops over a list linked by \<open>nx\<close>.\<close>

partial_function (option) count_loop :: "(addr \<Rightarrow> addr) \<Rightarrow> addr \<Rightarrow> u32 \<Rightarrow> u32 option" where
  "count_loop nx thread count =
     (if thread \<noteq> NULL then count_loop nx (nx thread) (count + 1) else Some count)"

definition svcRtxThreadGetCount :: "rtx \<Rightarrow> u32 option" where
  "svcRtxThreadGetCount s =
     do {
       count \<leftarrow> count_loop (thread_next s) (thread_next s (ready_obj s)) 1;
       count \<leftarrow> count_loop (delay_next s) (delay_list s) count;
       count_loop (delay_next s) (wait_list s) count
     }"

text \<open>One of the loops of \<open>svcRtxThreadEnumerate\<close>: \<open>m\<close> is the memory the array is in.\<close>

partial_function (option) enum_loop ::
  "(addr \<Rightarrow> addr) \<Rightarrow> u32 \<Rightarrow> addr \<Rightarrow> addr \<Rightarrow> u32 \<Rightarrow> (addr \<Rightarrow> u32) \<Rightarrow> (addr \<times> u32 \<times> (addr \<Rightarrow> u32)) option" where
  "enum_loop nx array_items thread thread_array count m =
     (if thread \<noteq> NULL \<and> count < array_items
      then enum_loop nx array_items (nx thread) (thread_array + 4) (count + 1) (m(thread_array := thread))
      else Some (thread_array, count, m))"

definition svcRtxThreadEnumerate :: "addr \<Rightarrow> u32 \<Rightarrow> rtx \<Rightarrow> (u32 \<times> rtx) option" where
  "svcRtxThreadEnumerate thread_array array_items s =
     (if thread_array = NULL \<or> array_items = 0 then Some (0, s)
      else do {
        let m = (mem32 s)(thread_array := run_curr s);
        (thread_array, count, m) \<leftarrow>
          enum_loop (thread_next s) array_items (thread_next s (ready_obj s)) (thread_array + 4) 1 m;
        (thread_array, count, m) \<leftarrow> enum_loop (delay_next s) array_items (delay_list s) thread_array count m;
        (thread_array, count, m) \<leftarrow> enum_loop (delay_next s) array_items (wait_list s) thread_array count m;
        Some (count, s\<lparr>mem32 := m\<rparr>)
      })"

section \<open>Thread flags\<close>

definition svcRtxThreadFlagsSet :: "addr \<Rightarrow> u32 \<Rightarrow> rtx \<Rightarrow> (u32 \<times> rtx) option" where
  "svcRtxThreadFlagsSet thread flags s =
     (if thread = NULL \<or> o_id s thread \<noteq> osRtxIdThread \<or> flags AND thread_flags_invalid \<noteq> 0
      then Some (osErrorParameter, s)
      else if o_state s thread = osRtxThreadTerminated then Some (osErrorResource, s)
      else
        (let (thread_flags, s) = ThreadFlagsSet thread flags s in
         if o_state s thread = osRtxThreadWaitingThreadFlags then
           (let (thread_flags0, s) =
                  ThreadFlagsCheck thread (t_wait_flags s thread) (ucast (t_flags_options s thread)) s in
            if thread_flags0 \<noteq> 0 then do {
              let thread_flags = (if (ucast (t_flags_options s thread) :: u32) AND osFlagsNoClear = 0
                                  then thread_flags0 AND NOT (t_wait_flags s thread) else thread_flags0);
              s \<leftarrow> osRtxThreadWaitExit thread thread_flags0 True s;
              Some (thread_flags, s)
            } else Some (thread_flags, s))
         else Some (thread_flags, s)))"

definition svcRtxThreadFlagsClear :: "u32 \<Rightarrow> rtx \<Rightarrow> u32 \<times> rtx" where
  "svcRtxThreadFlagsClear flags s =
     (let thread = run_curr s in
      if thread = NULL then (osError, s)
      else if flags AND thread_flags_invalid \<noteq> 0 then (osErrorParameter, s)
      else ThreadFlagsClear thread flags s)"

definition svcRtxThreadFlagsGet :: "rtx \<Rightarrow> u32" where
  "svcRtxThreadFlagsGet s = (let thread = run_curr s in if thread = NULL then 0 else t_thread_flags s thread)"

definition svcRtxThreadFlagsWait :: "u32 \<Rightarrow> u32 \<Rightarrow> u32 \<Rightarrow> rtx \<Rightarrow> (u32 \<times> rtx) option" where
  "svcRtxThreadFlagsWait flags options timeout s =
     (let thread = run_curr s in
      if thread = NULL then Some (osError, s)
      else if flags AND thread_flags_invalid \<noteq> 0 then Some (osErrorParameter, s)
      else
        (let (thread_flags, s) = ThreadFlagsCheck thread flags options s in
         if thread_flags \<noteq> 0 then Some (thread_flags, s)
         else if timeout \<noteq> 0 then do {
           let s = s\<lparr>t_wait_flags := (t_wait_flags s)(thread := flags),
                     t_flags_options := (t_flags_options s)(thread := ucast options)\<rparr>;
           (_, s) \<leftarrow> osRtxThreadWaitEnter osRtxThreadWaitingThreadFlags timeout s;
           Some (osErrorTimeout, s)
         }
         else Some (osErrorResource, s)))"

definition isrRtxThreadFlagsSet :: "addr \<Rightarrow> u32 \<Rightarrow> rtx \<Rightarrow> (u32 \<times> rtx) option" where
  "isrRtxThreadFlagsSet thread flags s =
     (if thread = NULL \<or> o_id s thread \<noteq> osRtxIdThread \<or> flags AND thread_flags_invalid \<noteq> 0
      then Some (osErrorParameter, s)
      else if o_state s thread = osRtxThreadTerminated then Some (osErrorResource, s)
      else do {
        let (thread_flags, s) = ThreadFlagsSet thread flags s;
        s \<leftarrow> osRtxPostProcess thread s;
        Some (thread_flags, s)
      })"

section \<open>Startup\<close>

definition osRtxThreadStartup :: "rtx_config \<Rightarrow> rtx \<Rightarrow> (bool \<times> rtx) option" where
  "osRtxThreadStartup cfg s =
     do {
       let ret = True;
       (ret, s) \<leftarrow>
         (if idle_thread s = NULL then do {
            (t, s) \<leftarrow> svcRtxThreadNew cfg (f_osRtxIdleThread cfg) NULL (c_idle_thread_attr cfg) s;
            let s = s\<lparr>idle_thread := t\<rparr>;
            Some (if idle_thread s = NULL then False else ret, s)
          } else Some (ret, s));
       if c_timer_mq_mcnt cfg \<noteq> 0 then
         (if timer_thread s = NULL then do {
            (t, s) \<leftarrow> svcRtxThreadNew cfg (f_osRtxTimerThread cfg) NULL (c_timer_thread_attr cfg) s;
            let s = s\<lparr>timer_thread := t\<rparr>;
            Some (if timer_thread s = NULL then False else ret, s)
          } else Some (ret, s))
       else Some (ret, s)
     }"

section \<open>Public functions\<close>

definition osThreadNew :: "bool \<Rightarrow> rtx_config \<Rightarrow> addr \<Rightarrow> addr \<Rightarrow> os_thread_attr option \<Rightarrow> rtx \<Rightarrow> (addr \<times> rtx) option" where
  "osThreadNew irq cfg func argument attr s =
     (if irq then Some (NULL, s) else svc_call (svcRtxThreadNew cfg func argument attr) s)"

definition osThreadGetName :: "bool \<Rightarrow> addr \<Rightarrow> rtx \<Rightarrow> (addr \<times> rtx) option" where
  "osThreadGetName irq thread s =
     (if irq then Some (NULL, s) else svc_call (\<lambda>s. Some (svcRtxThreadGetName thread s, s)) s)"

definition osThreadGetId :: "bool \<Rightarrow> rtx \<Rightarrow> (addr \<times> rtx) option" where
  "osThreadGetId irq s =
     (if irq then Some (svcRtxThreadGetId s, s) else svc_call (\<lambda>s. Some (svcRtxThreadGetId s, s)) s)"

definition osThreadGetState :: "bool \<Rightarrow> addr \<Rightarrow> rtx \<Rightarrow> (u32 \<times> rtx) option" where
  "osThreadGetState irq thread s =
     (if irq then Some (osThreadError, s) else svc_call (\<lambda>s. Some (svcRtxThreadGetState thread s, s)) s)"

definition osThreadGetStackSize :: "bool \<Rightarrow> addr \<Rightarrow> rtx \<Rightarrow> (u32 \<times> rtx) option" where
  "osThreadGetStackSize irq thread s =
     (if irq then Some (0, s) else svc_call (\<lambda>s. Some (svcRtxThreadGetStackSize thread s, s)) s)"

definition osThreadGetStackSpace :: "bool \<Rightarrow> rtx_config \<Rightarrow> addr \<Rightarrow> rtx \<Rightarrow> (u32 \<times> rtx) option" where
  "osThreadGetStackSpace irq cfg thread s =
     (if irq then Some (0, s)
      else svc_call (\<lambda>s. do { space \<leftarrow> svcRtxThreadGetStackSpace cfg thread s; Some (space, s) }) s)"

definition osThreadSetPriority :: "bool \<Rightarrow> addr \<Rightarrow> int \<Rightarrow> rtx \<Rightarrow> (u32 \<times> rtx) option" where
  "osThreadSetPriority irq thread priority s =
     (if irq then Some (osErrorISR, s) else svc_call (svcRtxThreadSetPriority thread priority) s)"

definition osThreadGetPriority :: "bool \<Rightarrow> addr \<Rightarrow> rtx \<Rightarrow> (int \<times> rtx) option" where
  "osThreadGetPriority irq thread s =
     (if irq then Some (osPriorityError, s) else svc_call (\<lambda>s. Some (svcRtxThreadGetPriority thread s, s)) s)"

definition osThreadYield :: "bool \<Rightarrow> rtx \<Rightarrow> (u32 \<times> rtx) option" where
  "osThreadYield irq s = (if irq then Some (osErrorISR, s) else svc_call svcRtxThreadYield s)"

definition osThreadSuspend :: "bool \<Rightarrow> addr \<Rightarrow> rtx \<Rightarrow> (u32 \<times> rtx) option" where
  "osThreadSuspend irq thread s =
     (if irq then Some (osErrorISR, s) else svc_call (svcRtxThreadSuspend thread) s)"

definition osThreadResume :: "bool \<Rightarrow> addr \<Rightarrow> rtx \<Rightarrow> (u32 \<times> rtx) option" where
  "osThreadResume irq thread s =
     (if irq then Some (osErrorISR, s) else svc_call (svcRtxThreadResume thread) s)"

definition osThreadDetach :: "bool \<Rightarrow> addr \<Rightarrow> rtx \<Rightarrow> (u32 \<times> rtx) option" where
  "osThreadDetach irq thread s =
     (if irq then Some (osErrorISR, s) else svc_call (svcRtxThreadDetach thread) s)"

definition osThreadJoin :: "bool \<Rightarrow> addr \<Rightarrow> rtx \<Rightarrow> (u32 \<times> rtx) option" where
  "osThreadJoin irq thread s =
     (if irq then Some (osErrorISR, s) else svc_call (svcRtxThreadJoin thread) s)"

text \<open>The service of \<open>osThreadExit\<close>; the function itself never returns to its caller.\<close>

definition osThreadExit_svc :: "rtx \<Rightarrow> (unit \<times> rtx) option" where
  "osThreadExit_svc s = svc_call (\<lambda>s. do { s \<leftarrow> svcRtxThreadExit s; Some ((), s) }) s"

definition osThreadTerminate :: "bool \<Rightarrow> addr \<Rightarrow> rtx \<Rightarrow> (u32 \<times> rtx) option" where
  "osThreadTerminate irq thread s =
     (if irq then Some (osErrorISR, s) else svc_call (svcRtxThreadTerminate thread) s)"

definition osThreadGetCount :: "bool \<Rightarrow> rtx \<Rightarrow> (u32 \<times> rtx) option" where
  "osThreadGetCount irq s =
     (if irq then Some (0, s) else svc_call (\<lambda>s. do { count \<leftarrow> svcRtxThreadGetCount s; Some (count, s) }) s)"

definition osThreadEnumerate :: "bool \<Rightarrow> addr \<Rightarrow> u32 \<Rightarrow> rtx \<Rightarrow> (u32 \<times> rtx) option" where
  "osThreadEnumerate irq thread_array array_items s =
     (if irq then Some (0, s) else svc_call (svcRtxThreadEnumerate thread_array array_items) s)"

definition osThreadFlagsSet :: "bool \<Rightarrow> addr \<Rightarrow> u32 \<Rightarrow> rtx \<Rightarrow> (u32 \<times> rtx) option" where
  "osThreadFlagsSet irq thread flags s =
     (if irq then isrRtxThreadFlagsSet thread flags s else svc_call (svcRtxThreadFlagsSet thread flags) s)"

definition osThreadFlagsClear :: "bool \<Rightarrow> u32 \<Rightarrow> rtx \<Rightarrow> (u32 \<times> rtx) option" where
  "osThreadFlagsClear irq flags s =
     (if irq then Some (osErrorISR, s) else svc_call (\<lambda>s. Some (svcRtxThreadFlagsClear flags s)) s)"

definition osThreadFlagsGet :: "bool \<Rightarrow> rtx \<Rightarrow> (u32 \<times> rtx) option" where
  "osThreadFlagsGet irq s =
     (if irq then Some (0, s) else svc_call (\<lambda>s. Some (svcRtxThreadFlagsGet s, s)) s)"

definition osThreadFlagsWait :: "bool \<Rightarrow> u32 \<Rightarrow> u32 \<Rightarrow> u32 \<Rightarrow> rtx \<Rightarrow> (u32 \<times> rtx) option" where
  "osThreadFlagsWait irq flags options timeout s =
     (if irq then Some (osErrorISR, s) else svc_call (svcRtxThreadFlagsWait flags options timeout) s)"

end
