(* ===== verification/MsgQueue.thy ===== *)
theory MsgQueue
  imports MemPool
begin

text \<open>
  Message queues (\<open>rtx_msgqueue.c\<close>): messages are blocks of the pool of the queue, linked by
  priority; a message from an ISR travels through the ISR queue first.  The messages and the
  buffers of the callers are bytes of \<open>mem8\<close>; the arguments a waiting thread leaves on its
  stack are words of \<open>mem32\<close>.
\<close>

section \<open>Operations\<close>

abbreviation (input) sizeof_os_message_t :: u32 where "sizeof_os_message_t \<equiv> 12"
abbreviation (input) sizeof_os_message_queue_t :: u32 where "sizeof_os_message_queue_t \<equiv> 52"

text \<open>\<open>memcpy\<close> between areas that do not overlap, and pointers stored in bytes (little endian).\<close>

definition memcpy :: "addr \<Rightarrow> addr \<Rightarrow> u32 \<Rightarrow> rtx \<Rightarrow> rtx" where
  "memcpy dst src n s = s\<lparr>mem8 := (\<lambda>a. if a - dst < n then mem8 s (src + (a - dst)) else mem8 s a)\<rparr>"

definition load_ptr :: "addr \<Rightarrow> rtx \<Rightarrow> addr" where
  "load_ptr p s = ucast (mem8 s p) OR push_bit 8 (ucast (mem8 s (p + 1))) OR push_bit 16 (ucast (mem8 s (p + 2)))
     OR push_bit 24 (ucast (mem8 s (p + 3)))"

definition store_ptr :: "addr \<Rightarrow> addr \<Rightarrow> rtx \<Rightarrow> rtx" where
  "store_ptr p v s = s\<lparr>mem8 := (mem8 s)(p := ucast v, p + 1 := ucast (drop_bit 8 v), p + 2 := ucast (drop_bit 16 v),
     p + 3 := ucast (drop_bit 24 v))\<rparr>"

text \<open>\<open>&msg[1]\<close>, the data of a message; \<open>&mq->mp_info\<close> is at the same offset in all pools.\<close>

definition msg_data :: "addr \<Rightarrow> addr" where
  "msg_data msg = msg + sizeof_os_message_t"

partial_function (option) msg_search :: "rtx \<Rightarrow> u8 \<Rightarrow> addr \<Rightarrow> addr \<Rightarrow> (addr \<times> addr) option" where
  "msg_search s priority prev next =
     (if prev \<noteq> NULL \<and> msg_priority s prev < priority
      then msg_search s priority (msg_prev s prev) prev
      else Some (prev, next))"

definition MessageQueuePut :: "addr \<Rightarrow> addr \<Rightarrow> rtx \<Rightarrow> rtx option" where
  "MessageQueuePut mq msg s =
     do {
       s \<leftarrow>
         (if mq_msg_last s mq \<noteq> NULL then do {
            (prev, next) \<leftarrow> msg_search s (msg_priority s msg) (mq_msg_last s mq) NULL;
            let s = s\<lparr>msg_prev := (msg_prev s)(msg := prev)\<rparr>;
            let s = s\<lparr>msg_next := (msg_next s)(msg := next)\<rparr>;
            let s = (if prev \<noteq> NULL then s\<lparr>msg_next := (msg_next s)(prev := msg)\<rparr>
                     else s\<lparr>mq_msg_first := (mq_msg_first s)(mq := msg)\<rparr>);
            Some (if next \<noteq> NULL then s\<lparr>msg_prev := (msg_prev s)(next := msg)\<rparr>
                  else s\<lparr>mq_msg_last := (mq_msg_last s)(mq := msg)\<rparr>)
          } else
            Some (s\<lparr>msg_prev := (msg_prev s)(msg := NULL), msg_next := (msg_next s)(msg := NULL),
                    mq_msg_first := (mq_msg_first s)(mq := msg), mq_msg_last := (mq_msg_last s)(mq := msg)\<rparr>));
       Some (s\<lparr>mq_msg_count := (mq_msg_count s)(mq := snd (atomic_inc32 (mq_msg_count s mq)))\<rparr>)
     }"

text \<open>The search for the first message that is not taken yet; it is marked as taken.\<close>

partial_function (option) msg_take_loop :: "addr \<Rightarrow> rtx \<Rightarrow> (addr \<times> rtx) option" where
  "msg_take_loop msg s =
     (if msg \<noteq> NULL then
        (let (flags, v) = atomic_wr8 (o_flags s msg) 1;
             s = s\<lparr>o_flags := (o_flags s)(msg := v)\<rparr>
         in if flags = 0 then Some (msg, s) else msg_take_loop (msg_next s msg) s)
      else Some (NULL, s))"

definition MessageQueueGet :: "addr \<Rightarrow> rtx \<Rightarrow> (addr \<times> rtx) option" where
  "MessageQueueGet mq s =
     (let (count, v) = atomic_dec32_nz (mq_msg_count s mq);
          s = s\<lparr>mq_msg_count := (mq_msg_count s)(mq := v)\<rparr>
      in if count \<noteq> 0 then msg_take_loop (mq_msg_first s mq) s else Some (NULL, s))"

definition MessageQueueRemove :: "addr \<Rightarrow> addr \<Rightarrow> rtx \<Rightarrow> rtx" where
  "MessageQueueRemove mq msg s =
     (let s = (if msg_prev s msg \<noteq> NULL then s\<lparr>msg_next := (msg_next s)(msg_prev s msg := msg_next s msg)\<rparr>
               else s\<lparr>mq_msg_first := (mq_msg_first s)(mq := msg_next s msg)\<rparr>)
      in if msg_next s msg \<noteq> NULL then s\<lparr>msg_prev := (msg_prev s)(msg_next s msg := msg_prev s msg)\<rparr>
         else s\<lparr>mq_msg_last := (mq_msg_last s)(mq := msg_prev s msg)\<rparr>)"

text \<open>The id, flags and priority of a message that is put into a queue.\<close>

definition msg_init :: "addr \<Rightarrow> u8 \<Rightarrow> rtx \<Rightarrow> rtx" where
  "msg_init msg prio s =
     s\<lparr>o_id := (o_id s)(msg := osRtxIdMessage), o_flags := (o_flags s)(msg := 0),
       msg_priority := (msg_priority s)(msg := prio)\<rparr>"

text \<open>A message is given back to the pool of its queue.\<close>

definition msg_free :: "addr \<Rightarrow> addr \<Rightarrow> rtx \<Rightarrow> rtx" where
  "msg_free mq msg s = snd (osRtxMemoryPoolFree (mp_info_of mq) msg (s\<lparr>o_id := (o_id s)(msg := osRtxIdInvalid)\<rparr>))"

text \<open>The first waiting sender is woken, and its message is stored in the block \<open>msg\<close>.\<close>

definition mq_admit :: "addr \<Rightarrow> addr \<Rightarrow> bool \<Rightarrow> rtx \<Rightarrow> rtx option" where
  "mq_admit mq msg dispatch s =
     do {
       (thread, s) \<leftarrow> wake_first mq osOK dispatch s;
       let reg = osRtxThreadRegPtr thread s;
       let ptr = mem32 s (reg + 8);
       let s = memcpy (msg_data msg) ptr (mq_msg_size s mq) s;
       let s = msg_init msg (ucast (mem32 s (reg + 12))) s;
       MessageQueuePut mq msg s
     }"

text \<open>The first waiting receiver is woken, and gets the data at \<open>src\<close> and the priority.\<close>

definition mq_deliver :: "addr \<Rightarrow> addr \<Rightarrow> u8 \<Rightarrow> bool \<Rightarrow> rtx \<Rightarrow> rtx option" where
  "mq_deliver mq src prio dispatch s =
     do {
       (thread, s) \<leftarrow> wake_first mq osOK dispatch s;
       let reg = osRtxThreadRegPtr thread s;
       let ptr = mem32 s (reg + 8);
       let s = memcpy ptr src (mq_msg_size s mq) s;
       Some (if mem32 s (reg + 12) \<noteq> 0 then s\<lparr>mem8 := (mem8 s)(mem32 s (reg + 12) := prio)\<rparr> else s)
     }"

text \<open>Whether the first waiter of the queue is in the given state.\<close>

definition mq_waiting :: "addr \<Rightarrow> u8 \<Rightarrow> rtx \<Rightarrow> bool" where
  "mq_waiting mq state s \<longleftrightarrow> thread_next s mq \<noteq> NULL \<and> o_state s (thread_next s mq) = state"

definition osRtxMessageQueuePostProcess :: "addr \<Rightarrow> rtx \<Rightarrow> rtx option" where
  "osRtxMessageQueuePostProcess msg s =
     do {
       deref msg;
       if o_flags s msg \<noteq> 0 then do {
         let mq = load_ptr (msg_data msg) s;
         let s = MessageQueueRemove mq msg s;
         let s = msg_free mq msg s;
         if mq_waiting mq osRtxThreadWaitingMessagePut s then do {
           let (msg0, s) = osRtxMemoryPoolAlloc (mp_info_of mq) s;
           if msg0 \<noteq> NULL then mq_admit mq msg0 False s else Some s
         } else Some s
       } else do {
         let mq = msg_next s msg;
         if mq_waiting mq osRtxThreadWaitingMessageGet s then do {
           s \<leftarrow> mq_deliver mq (msg_data msg) (msg_priority s msg) False s;
           Some (msg_free mq msg s)
         } else MessageQueuePut mq msg s
       }
     }"

definition svcRtxMessageQueueNew :: "u32 \<Rightarrow> u32 \<Rightarrow> os_data_attr option \<Rightarrow> rtx \<Rightarrow> (addr \<times> rtx) option" where
  "svcRtxMessageQueueNew msg_count msg_size attr s =
     (if msg_count = 0 \<or> msg_size = 0 then Some (NULL, s)
      else
        (let block_size = ((msg_size + 3) AND NOT 3) + sizeof_os_message_t
         in if CLZ msg_count + CLZ block_size < 32 then Some (NULL, s)
         else
           (let msize = msg_count * block_size in
            if \<not> attr_cb_ok sizeof_os_message_queue_t (map_option os_attr.truncate attr) \<or> \<not> attr_data_ok msize attr
            then Some (NULL, s)
            else
              (let (name, mq, mq_mem) = (case attr of Some a \<Rightarrow> (a_name a, a_cb_mem a, a_data_mem a)
                                         | None \<Rightarrow> (NULL, NULL, NULL)) in
               do {
                 (mq, mq_mem, flags, s) \<leftarrow>
                   cb_and_data (mpi_message_queue s) (mem_mq_data s) mq mq_mem sizeof_os_message_queue_t msize s;
                 if mq \<noteq> NULL then do {
                   let s = s\<lparr>o_id := (o_id s)(mq := osRtxIdMessageQueue),
                             o_flags := (o_flags s)(mq := flags),
                             o_name := (o_name s)(mq := name),
                             thread_next := (thread_next s)(mq := NULL),
                             mq_msg_size := (mq_msg_size s)(mq := msg_size),
                             mq_msg_count := (mq_msg_count s)(mq := 0),
                             mq_msg_first := (mq_msg_first s)(mq := NULL),
                             mq_msg_last := (mq_msg_last s)(mq := NULL)\<rparr>;
                   (_, s) \<leftarrow> osRtxMemoryPoolInit (mp_info_of mq) msg_count block_size mq_mem s;
                   Some (mq, s)
                 } else Some (mq, s)
               }))))"

definition svcRtxMessageQueueGetName :: "addr \<Rightarrow> rtx \<Rightarrow> addr" where
  "svcRtxMessageQueueGetName mq s =
     (if mq = NULL \<or> o_id s mq \<noteq> osRtxIdMessageQueue then NULL else o_name s mq)"

text \<open>A waiting thread saves its arguments R2 and R3 in its stack frame.\<close>

definition save_args :: "addr \<Rightarrow> u32 \<Rightarrow> rtx \<Rightarrow> rtx" where
  "save_args msg_ptr msg_prio s = s\<lparr>mem32 := (mem32 s)(psp s + 8 := msg_ptr, psp s + 12 := msg_prio)\<rparr>"

definition svcRtxMessageQueuePut :: "addr \<Rightarrow> addr \<Rightarrow> u8 \<Rightarrow> u32 \<Rightarrow> rtx \<Rightarrow> (u32 \<times> rtx) option" where
  "svcRtxMessageQueuePut mq msg_ptr msg_prio timeout s =
     (if mq = NULL \<or> o_id s mq \<noteq> osRtxIdMessageQueue \<or> msg_ptr = NULL then Some (osErrorParameter, s)
      else if mq_waiting mq osRtxThreadWaitingMessageGet s then do {
        s \<leftarrow> mq_deliver mq msg_ptr msg_prio True s;
        Some (osOK, s)
      }
      else
        (let (msg, s) = osRtxMemoryPoolAlloc (mp_info_of mq) s in
         if msg \<noteq> NULL then do {
           let s = memcpy (msg_data msg) msg_ptr (mq_msg_size s mq) s;
           s \<leftarrow> MessageQueuePut mq msg (msg_init msg msg_prio s);
           Some (osOK, s)
         }
         else if timeout \<noteq> 0 then do {
           (ok, s) \<leftarrow> wait_on mq osRtxThreadWaitingMessagePut timeout s;
           Some (osErrorTimeout, if ok then save_args msg_ptr (ucast msg_prio) s else s)
         }
         else Some (osErrorResource, s)))"

definition svcRtxMessageQueueGet :: "addr \<Rightarrow> addr \<Rightarrow> addr \<Rightarrow> u32 \<Rightarrow> rtx \<Rightarrow> (u32 \<times> rtx) option" where
  "svcRtxMessageQueueGet mq msg_ptr msg_prio timeout s =
     (if mq = NULL \<or> o_id s mq \<noteq> osRtxIdMessageQueue \<or> msg_ptr = NULL then Some (osErrorParameter, s)
      else do {
        (msg, s) \<leftarrow> MessageQueueGet mq s;
        if msg \<noteq> NULL then do {
          let s = MessageQueueRemove mq msg s;
          let s = memcpy msg_ptr (msg_data msg) (mq_msg_size s mq) s;
          let s = (if msg_prio \<noteq> NULL then s\<lparr>mem8 := (mem8 s)(msg_prio := msg_priority s msg)\<rparr> else s);
          let s = msg_free mq msg s;
          s \<leftarrow> (if mq_waiting mq osRtxThreadWaitingMessagePut s then do {
                   let (msg, s) = osRtxMemoryPoolAlloc (mp_info_of mq) s;
                   if msg \<noteq> NULL then mq_admit mq msg True s else Some s
                 } else Some s);
          Some (osOK, s)
        }
        else if timeout \<noteq> 0 then do {
          (ok, s) \<leftarrow> wait_on mq osRtxThreadWaitingMessageGet timeout s;
          Some (osErrorTimeout, if ok then save_args msg_ptr msg_prio s else s)
        }
        else Some (osErrorResource, s)
      })"

definition svcRtxMessageQueueGetCapacity :: "addr \<Rightarrow> rtx \<Rightarrow> u32" where
  "svcRtxMessageQueueGetCapacity mq s =
     (if mq = NULL \<or> o_id s mq \<noteq> osRtxIdMessageQueue then 0 else mp_max_blocks s (mp_info_of mq))"

definition svcRtxMessageQueueGetMsgSize :: "addr \<Rightarrow> rtx \<Rightarrow> u32" where
  "svcRtxMessageQueueGetMsgSize mq s =
     (if mq = NULL \<or> o_id s mq \<noteq> osRtxIdMessageQueue then 0 else mq_msg_size s mq)"

definition svcRtxMessageQueueGetCount :: "addr \<Rightarrow> rtx \<Rightarrow> u32" where
  "svcRtxMessageQueueGetCount mq s =
     (if mq = NULL \<or> o_id s mq \<noteq> osRtxIdMessageQueue then 0 else mq_msg_count s mq)"

definition svcRtxMessageQueueGetSpace :: "addr \<Rightarrow> rtx \<Rightarrow> u32" where
  "svcRtxMessageQueueGetSpace mq s =
     (if mq = NULL \<or> o_id s mq \<noteq> osRtxIdMessageQueue then 0
      else mp_max_blocks s (mp_info_of mq) - mq_msg_count s mq)"

text \<open>The two loops of \<open>svcRtxMessageQueueReset\<close>.\<close>

partial_function (option) mq_clear_loop :: "addr \<Rightarrow> rtx \<Rightarrow> rtx option" where
  "mq_clear_loop mq s =
     do {
       (msg, s) \<leftarrow> MessageQueueGet mq s;
       if msg = NULL then Some s
       else mq_clear_loop mq (msg_free mq msg (MessageQueueRemove mq msg s))
     }"

partial_function (option) mq_refill_loop :: "addr \<Rightarrow> rtx \<Rightarrow> rtx option" where
  "mq_refill_loop mq s =
     do {
       let (msg, s) = osRtxMemoryPoolAlloc (mp_info_of mq) s;
       s \<leftarrow> (if msg \<noteq> NULL then mq_admit mq msg False s else Some s);
       if msg \<noteq> NULL \<and> thread_next s mq \<noteq> NULL then mq_refill_loop mq s else Some s
     }"

definition svcRtxMessageQueueReset :: "addr \<Rightarrow> rtx \<Rightarrow> (u32 \<times> rtx) option" where
  "svcRtxMessageQueueReset mq s =
     (if mq = NULL \<or> o_id s mq \<noteq> osRtxIdMessageQueue then Some (osErrorParameter, s)
      else do {
        s \<leftarrow> mq_clear_loop mq s;
        s \<leftarrow> (if mq_waiting mq osRtxThreadWaitingMessagePut s then do {
                 s \<leftarrow> mq_refill_loop mq s;
                 osRtxThreadDispatch NULL s
               } else Some s);
        Some (osOK, s)
      })"

definition svcRtxMessageQueueDelete :: "addr \<Rightarrow> rtx \<Rightarrow> (u32 \<times> rtx) option" where
  "svcRtxMessageQueueDelete mq s =
     (if mq = NULL \<or> o_id s mq \<noteq> osRtxIdMessageQueue then Some (osErrorParameter, s)
      else do {
        s \<leftarrow> wake_all mq osErrorResource s;
        let s = s\<lparr>o_id := (o_id s)(mq := osRtxIdInvalid)\<rparr>;
        s \<leftarrow> (if o_flags s mq AND osRtxFlagSystemMemory \<noteq> 0
               then map_option snd (osRtxMemoryFree (mem_mq_data s) (mp_block_base s (mp_info_of mq)) s) else Some s);
        s \<leftarrow> (if o_flags s mq AND osRtxFlagSystemObject \<noteq> 0
               then obj_free (mpi_message_queue s) mq s else Some s);
        Some (osOK, s)
      })"

definition isrRtxMessageQueuePut :: "addr \<Rightarrow> addr \<Rightarrow> u8 \<Rightarrow> u32 \<Rightarrow> rtx \<Rightarrow> (u32 \<times> rtx) option" where
  "isrRtxMessageQueuePut mq msg_ptr msg_prio timeout s =
     (if mq = NULL \<or> o_id s mq \<noteq> osRtxIdMessageQueue \<or> msg_ptr = NULL \<or> timeout \<noteq> 0
      then Some (osErrorParameter, s)
      else
        (let (msg, s) = osRtxMemoryPoolAlloc (mp_info_of mq) s in
         if msg \<noteq> NULL then do {
           let s = memcpy (msg_data msg) msg_ptr (mq_msg_size s mq) s;
           let s = msg_init msg msg_prio s;
           let s = s\<lparr>msg_prev := (msg_prev s)(msg := msg_ptr), msg_next := (msg_next s)(msg := mq)\<rparr>;
           s \<leftarrow> osRtxPostProcess msg s;
           Some (osOK, s)
         }
         else Some (osErrorResource, s)))"

definition isrRtxMessageQueueGet :: "addr \<Rightarrow> addr \<Rightarrow> addr \<Rightarrow> u32 \<Rightarrow> rtx \<Rightarrow> (u32 \<times> rtx) option" where
  "isrRtxMessageQueueGet mq msg_ptr msg_prio timeout s =
     (if mq = NULL \<or> o_id s mq \<noteq> osRtxIdMessageQueue \<or> msg_ptr = NULL \<or> timeout \<noteq> 0
      then Some (osErrorParameter, s)
      else do {
        (msg, s) \<leftarrow> MessageQueueGet mq s;
        if msg \<noteq> NULL then do {
          let s = memcpy msg_ptr (msg_data msg) (mq_msg_size s mq) s;
          let s = (if msg_prio \<noteq> NULL then s\<lparr>mem8 := (mem8 s)(msg_prio := msg_priority s msg)\<rparr> else s);
          let s = store_ptr (msg_data msg) mq s;
          s \<leftarrow> osRtxPostProcess msg s;
          Some (osOK, s)
        }
        else Some (osErrorResource, s)
      })"

definition osMessageQueueNew :: "bool \<Rightarrow> u32 \<Rightarrow> u32 \<Rightarrow> os_data_attr option \<Rightarrow> rtx \<Rightarrow> (addr \<times> rtx) option" where
  "osMessageQueueNew irq msg_count msg_size attr s =
     (if irq then Some (NULL, s) else svc_call (svcRtxMessageQueueNew msg_count msg_size attr) s)"

definition osMessageQueueGetName :: "bool \<Rightarrow> addr \<Rightarrow> rtx \<Rightarrow> (addr \<times> rtx) option" where
  "osMessageQueueGetName irq mq s =
     (if irq then Some (NULL, s) else svc_call (\<lambda>s. Some (svcRtxMessageQueueGetName mq s, s)) s)"

definition osMessageQueuePut :: "bool \<Rightarrow> addr \<Rightarrow> addr \<Rightarrow> u8 \<Rightarrow> u32 \<Rightarrow> rtx \<Rightarrow> (u32 \<times> rtx) option" where
  "osMessageQueuePut irq mq msg_ptr msg_prio timeout s =
     (if irq then isrRtxMessageQueuePut mq msg_ptr msg_prio timeout s
      else svc_call (svcRtxMessageQueuePut mq msg_ptr msg_prio timeout) s)"

definition osMessageQueueGet :: "bool \<Rightarrow> addr \<Rightarrow> addr \<Rightarrow> addr \<Rightarrow> u32 \<Rightarrow> rtx \<Rightarrow> (u32 \<times> rtx) option" where
  "osMessageQueueGet irq mq msg_ptr msg_prio timeout s =
     (if irq then isrRtxMessageQueueGet mq msg_ptr msg_prio timeout s
      else svc_call (svcRtxMessageQueueGet mq msg_ptr msg_prio timeout) s)"

definition osMessageQueueGetCapacity :: "bool \<Rightarrow> addr \<Rightarrow> rtx \<Rightarrow> (u32 \<times> rtx) option" where
  "osMessageQueueGetCapacity irq mq s =
     (if irq then Some (svcRtxMessageQueueGetCapacity mq s, s)
      else svc_call (\<lambda>s. Some (svcRtxMessageQueueGetCapacity mq s, s)) s)"

definition osMessageQueueGetMsgSize :: "bool \<Rightarrow> addr \<Rightarrow> rtx \<Rightarrow> (u32 \<times> rtx) option" where
  "osMessageQueueGetMsgSize irq mq s =
     (if irq then Some (svcRtxMessageQueueGetMsgSize mq s, s)
      else svc_call (\<lambda>s. Some (svcRtxMessageQueueGetMsgSize mq s, s)) s)"

definition osMessageQueueGetCount :: "bool \<Rightarrow> addr \<Rightarrow> rtx \<Rightarrow> (u32 \<times> rtx) option" where
  "osMessageQueueGetCount irq mq s =
     (if irq then Some (svcRtxMessageQueueGetCount mq s, s)
      else svc_call (\<lambda>s. Some (svcRtxMessageQueueGetCount mq s, s)) s)"

definition osMessageQueueGetSpace :: "bool \<Rightarrow> addr \<Rightarrow> rtx \<Rightarrow> (u32 \<times> rtx) option" where
  "osMessageQueueGetSpace irq mq s =
     (if irq then Some (svcRtxMessageQueueGetSpace mq s, s)
      else svc_call (\<lambda>s. Some (svcRtxMessageQueueGetSpace mq s, s)) s)"

definition osMessageQueueReset :: "bool \<Rightarrow> addr \<Rightarrow> rtx \<Rightarrow> (u32 \<times> rtx) option" where
  "osMessageQueueReset irq mq s =
     (if irq then Some (osErrorISR, s) else svc_call (svcRtxMessageQueueReset mq) s)"

definition osMessageQueueDelete :: "bool \<Rightarrow> addr \<Rightarrow> rtx \<Rightarrow> (u32 \<times> rtx) option" where
  "osMessageQueueDelete irq mq s =
     (if irq then Some (osErrorISR, s) else svc_call (svcRtxMessageQueueDelete mq) s)"

end
