(* ===== verification/Timer.thy ===== *)
theory Timer
  imports MsgQueue
begin

text \<open>
  Software timers (\<open>rtx_timer.c\<close>): a delta queue of the running timers; a timer that expires
  sends its callback through a message queue to the timer thread.  The callback \<open>finfo\<close> of a
  timer is bytes of \<open>mem8\<close>, because the kernel sends it as a message.
\<close>

section \<open>Operations\<close>

abbreviation (input) sizeof_os_timer_t :: u32 where "sizeof_os_timer_t \<equiv> 32"
abbreviation (input) sizeof_os_timer_finfo_t :: u32 where "sizeof_os_timer_finfo_t \<equiv> 8"

text \<open>\<open>&timer->finfo\<close>; the member \<open>arg\<close> follows \<open>func\<close>.\<close>

definition timer_finfo :: "addr \<Rightarrow> addr" where
  "timer_finfo timer = timer + 24"

partial_function (option) timer_search :: "rtx \<Rightarrow> u32 \<Rightarrow> addr \<Rightarrow> addr \<Rightarrow> (addr \<times> addr \<times> u32) option" where
  "timer_search s tick prev next =
     (if next \<noteq> NULL \<and> tm_tick s next \<le> tick
      then timer_search s (tick - tm_tick s next) next (tm_next s next)
      else Some (prev, next, tick))"

definition TimerInsert :: "addr \<Rightarrow> u32 \<Rightarrow> rtx \<Rightarrow> rtx option" where
  "TimerInsert timer tick s =
     do {
       (prev, next, tick) \<leftarrow> timer_search s tick NULL (timer_list s);
       deref timer;
       let s = s\<lparr>tm_tick := (tm_tick s)(timer := tick)\<rparr>;
       let s = s\<lparr>tm_prev := (tm_prev s)(timer := prev)\<rparr>;
       let s = s\<lparr>tm_next := (tm_next s)(timer := next)\<rparr>;
       let s = (if next \<noteq> NULL
                then s\<lparr>tm_tick := (tm_tick s)(next := tm_tick s next - tm_tick s timer),
                       tm_prev := (tm_prev s)(next := timer)\<rparr>
                else s);
       Some (if prev \<noteq> NULL then s\<lparr>tm_next := (tm_next s)(prev := timer)\<rparr> else s\<lparr>timer_list := timer\<rparr>)
     }"

definition TimerRemove :: "addr \<Rightarrow> rtx \<Rightarrow> rtx" where
  "TimerRemove timer s =
     (let s = (if tm_next s timer \<noteq> NULL
               then s\<lparr>tm_tick := (tm_tick s)(tm_next s timer := tm_tick s (tm_next s timer) + tm_tick s timer),
                      tm_prev := (tm_prev s)(tm_next s timer := tm_prev s timer)\<rparr>
               else s)
      in if tm_prev s timer \<noteq> NULL then s\<lparr>tm_next := (tm_next s)(tm_prev s timer := tm_next s timer)\<rparr>
         else s\<lparr>timer_list := tm_next s timer\<rparr>)"

definition TimerUnlink :: "addr \<Rightarrow> rtx \<Rightarrow> rtx" where
  "TimerUnlink timer s =
     (let s = (if tm_next s timer \<noteq> NULL then s\<lparr>tm_prev := (tm_prev s)(tm_next s timer := tm_prev s timer)\<rparr> else s)
      in s\<lparr>timer_list := tm_next s timer\<rparr>)"

text \<open>The loop of \<open>osRtxTimerTick\<close> over the expired timers.  The tick runs in an IRQ or in SVC
  mode, which \<open>IsIrqMode\<close> both calls IRQ mode, so the message goes through the ISR queue.\<close>

partial_function (option) timer_tick_loop :: "addr \<Rightarrow> rtx \<Rightarrow> rtx option" where
  "timer_tick_loop timer s =
     (if timer \<noteq> NULL \<and> tm_tick s timer = 0 then do {
        let s = TimerUnlink timer s;
        (status, s) \<leftarrow> osMessageQueuePut True (timer_mq s) (timer_finfo timer) 0 0 s;
        s \<leftarrow> (if status \<noteq> osOK then osRtxErrorNotify osRtxErrorTimerQueueOverflow timer else Some s);
        s \<leftarrow> (if tm_type s timer = osTimerPeriodic then TimerInsert timer (tm_load s timer) s
               else Some (s\<lparr>o_state := (o_state s)(timer := osRtxTimerStopped)\<rparr>));
        timer_tick_loop (timer_list s) s
      } else Some s)"

definition osRtxTimerTick :: "rtx \<Rightarrow> rtx option" where
  "osRtxTimerTick s =
     (let timer = timer_list s in
      if timer = NULL then Some s
      else timer_tick_loop timer (s\<lparr>tm_tick := (tm_tick s)(timer := tm_tick s timer - 1)\<rparr>))"

text \<open>The timer thread up to its loop, and one round of the loop: the callback to call, if a
  message came.  \<open>finfo\<close> is the address of the local variable.\<close>

definition osRtxTimerThread :: "os_data_attr option \<Rightarrow> u32 \<Rightarrow> rtx \<Rightarrow> rtx option" where
  "osRtxTimerThread timer_mq_attr timer_mq_mcnt s =
     do {
       (mq, s) \<leftarrow> osMessageQueueNew False timer_mq_mcnt sizeof_os_timer_finfo_t timer_mq_attr s;
       let s = s\<lparr>timer_mq := mq\<rparr>;
       Some (if timer_mq s = NULL then s else s\<lparr>timer_tick_on := True\<rparr>)
     }"

definition timer_thread_round :: "addr \<Rightarrow> rtx \<Rightarrow> ((addr \<times> addr) option \<times> rtx) option" where
  "timer_thread_round finfo s =
     do {
       (status, s) \<leftarrow> osMessageQueueGet False (timer_mq s) finfo NULL osWaitForever s;
       Some (if status = osOK then Some (load_ptr finfo s, load_ptr (finfo + 4) s) else None, s)
     }"

definition svcRtxTimerNew :: "addr \<Rightarrow> u8 \<Rightarrow> addr \<Rightarrow> os_attr option \<Rightarrow> rtx \<Rightarrow> (addr \<times> rtx) option" where
  "svcRtxTimerNew func type argument attr s =
     (if func = NULL \<or> (type \<noteq> osTimerOnce \<and> type \<noteq> osTimerPeriodic) then Some (NULL, s)
      else if \<not> attr_cb_ok sizeof_os_timer_t attr then Some (NULL, s)
      else
        (let (name, timer) = (case attr of Some a \<Rightarrow> (a_name a, a_cb_mem a) | None \<Rightarrow> (NULL, NULL)) in
         do {
           (timer, flags, s) \<leftarrow>
             (if timer = NULL then do {
                (timer, s) \<leftarrow> obj_alloc (mpi_timer s) sizeof_os_timer_t s;
                Some (timer, osRtxFlagSystemObject, s)
              } else Some (timer, 0, s));
           Some (timer,
             if timer \<noteq> NULL then
               store_ptr (timer_finfo timer + 4) argument (store_ptr (timer_finfo timer) func
                (s\<lparr>o_id := (o_id s)(timer := osRtxIdTimer),
                   o_state := (o_state s)(timer := osRtxTimerStopped),
                   o_flags := (o_flags s)(timer := flags),
                   tm_type := (tm_type s)(timer := type),
                   o_name := (o_name s)(timer := name),
                   tm_prev := (tm_prev s)(timer := NULL),
                   tm_next := (tm_next s)(timer := NULL),
                   tm_tick := (tm_tick s)(timer := 0),
                   tm_load := (tm_load s)(timer := 0)\<rparr>))
             else s)
         }))"

definition svcRtxTimerGetName :: "addr \<Rightarrow> rtx \<Rightarrow> addr" where
  "svcRtxTimerGetName timer s =
     (if timer = NULL \<or> o_id s timer \<noteq> osRtxIdTimer then NULL else o_name s timer)"

definition svcRtxTimerStart :: "addr \<Rightarrow> u32 \<Rightarrow> rtx \<Rightarrow> (u32 \<times> rtx) option" where
  "svcRtxTimerStart timer ticks s =
     (if timer = NULL \<or> o_id s timer \<noteq> osRtxIdTimer \<or> ticks = 0 then Some (osErrorParameter, s)
      else if o_state s timer = osRtxTimerRunning then do {
        s \<leftarrow> TimerInsert timer ticks (TimerRemove timer s);
        Some (osOK, s)
      }
      else if \<not> timer_tick_on s then Some (osErrorResource, s)
      else do {
        let s = s\<lparr>o_state := (o_state s)(timer := osRtxTimerRunning), tm_load := (tm_load s)(timer := ticks)\<rparr>;
        s \<leftarrow> TimerInsert timer ticks s;
        Some (osOK, s)
      })"

definition svcRtxTimerStop :: "addr \<Rightarrow> rtx \<Rightarrow> u32 \<times> rtx" where
  "svcRtxTimerStop timer s =
     (if timer = NULL \<or> o_id s timer \<noteq> osRtxIdTimer then (osErrorParameter, s)
      else if o_state s timer \<noteq> osRtxTimerRunning then (osErrorResource, s)
      else (osOK, TimerRemove timer (s\<lparr>o_state := (o_state s)(timer := osRtxTimerStopped)\<rparr>)))"

definition svcRtxTimerIsRunning :: "addr \<Rightarrow> rtx \<Rightarrow> u32" where
  "svcRtxTimerIsRunning timer s =
     (if timer = NULL \<or> o_id s timer \<noteq> osRtxIdTimer then 0
      else if o_state s timer = osRtxTimerRunning then 1 else 0)"

definition svcRtxTimerDelete :: "addr \<Rightarrow> rtx \<Rightarrow> (u32 \<times> rtx) option" where
  "svcRtxTimerDelete timer s =
     (if timer = NULL \<or> o_id s timer \<noteq> osRtxIdTimer then Some (osErrorParameter, s)
      else do {
        let s = (if o_state s timer = osRtxTimerRunning then TimerRemove timer s else s);
        let s = s\<lparr>o_state := (o_state s)(timer := osRtxTimerInactive), o_id := (o_id s)(timer := osRtxIdInvalid)\<rparr>;
        s \<leftarrow> (if o_flags s timer AND osRtxFlagSystemObject \<noteq> 0 then obj_free (mpi_timer s) timer s else Some s);
        Some (osOK, s)
      })"

definition osTimerNew :: "bool \<Rightarrow> addr \<Rightarrow> u8 \<Rightarrow> addr \<Rightarrow> os_attr option \<Rightarrow> rtx \<Rightarrow> (addr \<times> rtx) option" where
  "osTimerNew irq func type argument attr s =
     (if irq then Some (NULL, s) else svc_call (svcRtxTimerNew func type argument attr) s)"

definition osTimerGetName :: "bool \<Rightarrow> addr \<Rightarrow> rtx \<Rightarrow> (addr \<times> rtx) option" where
  "osTimerGetName irq timer s =
     (if irq then Some (NULL, s) else svc_call (\<lambda>s. Some (svcRtxTimerGetName timer s, s)) s)"

definition osTimerStart :: "bool \<Rightarrow> addr \<Rightarrow> u32 \<Rightarrow> rtx \<Rightarrow> (u32 \<times> rtx) option" where
  "osTimerStart irq timer ticks s =
     (if irq then Some (osErrorISR, s) else svc_call (svcRtxTimerStart timer ticks) s)"

definition osTimerStop :: "bool \<Rightarrow> addr \<Rightarrow> rtx \<Rightarrow> (u32 \<times> rtx) option" where
  "osTimerStop irq timer s =
     (if irq then Some (osErrorISR, s) else svc_call (\<lambda>s. Some (svcRtxTimerStop timer s)) s)"

definition osTimerIsRunning :: "bool \<Rightarrow> addr \<Rightarrow> rtx \<Rightarrow> (u32 \<times> rtx) option" where
  "osTimerIsRunning irq timer s =
     (if irq then Some (0, s) else svc_call (\<lambda>s. Some (svcRtxTimerIsRunning timer s, s)) s)"

definition osTimerDelete :: "bool \<Rightarrow> addr \<Rightarrow> rtx \<Rightarrow> (u32 \<times> rtx) option" where
  "osTimerDelete irq timer s =
     (if irq then Some (osErrorISR, s) else svc_call (svcRtxTimerDelete timer) s)"

end
