(* ===== verification/System.thy ===== *)
theory System
  imports Semaphore ThreadSvc Timer
begin

text \<open>
  The tick and the post-ISR handler (\<open>rtx_system.c\<close>): time-outs, timers and round-robin
  scheduling at every tick; the objects of the ISR queue when the interrupts are done.
\<close>

definition osRtxTick_Handler :: "rtx \<Rightarrow> rtx option" where
  "osRtxTick_Handler s =
     do {
       let s = s\<lparr>k_tick := k_tick s + 1\<rparr>;
       s \<leftarrow> (if timer_tick_on s then osRtxTimerTick s else Some s);
       s \<leftarrow> osRtxThreadDelayTick s;
       s \<leftarrow> osRtxThreadDispatch NULL s;
       if robin_timeout s \<noteq> 0 then
         (if robin_thread s \<noteq> run_next s
          then Some (s\<lparr>robin_thread := run_next s, robin_tick := robin_timeout s\<rparr>)
          else do {
            let s = (if robin_tick s \<noteq> 0 then s\<lparr>robin_tick := robin_tick s - 1\<rparr> else s);
            if robin_tick s = 0 \<and> k_state s = osRtxKernelRunning then
              (let thread = thread_next s (ready_obj s) in
               if thread \<noteq> NULL \<and> t_priority s thread = t_priority s (robin_thread s) then do {
                 s \<leftarrow> osRtxThreadListRemove thread s;
                 s \<leftarrow> osRtxThreadReadyPut (robin_thread s) s;
                 s \<leftarrow> osRtxThreadSwitch thread s;
                 Some (s\<lparr>robin_thread := thread, robin_tick := robin_timeout s\<rparr>)
               } else Some s)
            else Some s
          })
       else Some s
     }"

text \<open>The \<open>switch\<close> of \<open>osRtxPendSV_Handler\<close> on the kind of the object, and its loop.\<close>

definition post_process :: "addr \<Rightarrow> rtx \<Rightarrow> rtx option" where
  "post_process object s =
     (if o_id s object = osRtxIdThread then osRtxThreadPostProcess object s
      else if o_id s object = osRtxIdEventFlags then osRtxEventFlagsPostProcess object s
      else if o_id s object = osRtxIdSemaphore then osRtxSemaphorePostProcess object s
      else if o_id s object = osRtxIdMemoryPool then osRtxMemoryPoolPostProcess object s
      else if o_id s object = osRtxIdMessage then osRtxMessageQueuePostProcess object s
      else Some s)"

partial_function (option) pendsv_loop :: "rtx \<Rightarrow> rtx option" where
  "pendsv_loop s =
     (let (object, s) = isr_queue_get s in
      if object = NULL then Some s
      else do { s \<leftarrow> post_process object s; pendsv_loop s })"

definition osRtxPendSV_Handler :: "rtx \<Rightarrow> rtx option" where
  "osRtxPendSV_Handler s = do { s \<leftarrow> pendsv_loop s; osRtxThreadDispatch NULL s }"

end
