(* ===== verification/Kernel.thy ===== *)
theory Kernel
  imports System
begin

text \<open>
  The kernel services (\<open>rtx_kernel.c\<close>): initialisation and start, the scheduler lock, and
  suspending the kernel for a sleep and resuming it.
\<close>

section \<open>Operations\<close>

definition KernelBlock :: "rtx \<Rightarrow> rtx" where
  "KernelBlock s =
     (let s = s\<lparr>tick_enabled := False\<rparr>;
          s = s\<lparr>k_blocked := 1\<rparr>
      in if IRQ_PendSV s then s\<lparr>IRQ_PendSV := False, k_pendSV := 1\<rparr> else s)"

definition KernelUnblock :: "rtx \<Rightarrow> rtx" where
  "KernelUnblock s =
     (let s = s\<lparr>k_blocked := 0\<rparr>;
          s = (if k_pendSV s \<noteq> 0 then s\<lparr>k_pendSV := 0, IRQ_PendSV := True\<rparr> else s)
      in s\<lparr>tick_enabled := True\<rparr>)"

text \<open>The \<open>memset\<close> of \<open>osRtxInfo\<close> from its member \<open>kernel\<close> on.\<close>

definition info_clear :: "rtx \<Rightarrow> rtx" where
  "info_clear s =
     s\<lparr>k_state := 0, k_blocked := 0, k_pendSV := 0, k_tick := 0, tick_irqn := 0, run_curr := NULL, run_next := NULL,
       o_id := (o_id s)(ready_obj s := 0), o_state := (o_state s)(ready_obj s := 0),
       o_flags := (o_flags s)(ready_obj s := 0), o_attr := (o_attr s)(ready_obj s := 0),
       o_name := (o_name s)(ready_obj s := NULL), thread_next := (thread_next s)(ready_obj s := NULL),
       idle_thread := NULL, delay_list := NULL, wait_list := NULL, terminate_list := NULL,
       robin_thread := NULL, robin_tick := 0, robin_timeout := 0,
       timer_list := NULL, timer_thread := NULL, timer_mq := NULL, timer_tick_on := False,
       isr_max := 0, isr_cnt := 0, isr_in := 0, isr_out := 0, isr_data := [],
       mem_stack := NULL, mem_mp_data := NULL, mem_mq_data := NULL, mem_common := NULL,
       mpi_stack := NULL, mpi_thread := NULL, mpi_timer := NULL, mpi_event_flags := NULL, mpi_mutex := NULL,
       mpi_semaphore := NULL, mpi_memory_pool := NULL, mpi_message_queue := NULL\<rparr>"

text \<open>The initialisation of one configured block pool: the value for the member of \<open>osRtxInfo.mpi\<close>.\<close>

definition mpi_setup :: "addr \<Rightarrow> rtx \<Rightarrow> (addr \<times> rtx) option" where
  "mpi_setup mpi s =
     (if mpi \<noteq> NULL then do {
        (ok, s) \<leftarrow> osRtxMemoryPoolInit mpi (mp_max_blocks s mpi) (mp_block_size s mpi) (mp_block_base s mpi) s;
        Some (if ok \<noteq> 0 then mpi else NULL, s)
      } else Some (NULL, s))"

definition svcRtxKernelInitialize :: "rtx_config \<Rightarrow> rtx \<Rightarrow> (u32 \<times> rtx) option" where
  "svcRtxKernelInitialize cfg s =
     (if k_state s = osRtxKernelReady then Some (osOK, s)
      else if k_state s \<noteq> osRtxKernelInactive then Some (osError, s)
      else if c_thread_stack_size cfg < 64 + 8 then Some (osError, s)
      else if c_isr_queue_data cfg = [] \<or> c_isr_queue_max cfg = 0 then Some (osError, s)
      else do {
        let s = info_clear s;
        let s = s\<lparr>isr_data := c_isr_queue_data cfg, isr_max := c_isr_queue_max cfg, robin_timeout := c_robin_timeout cfg\<rparr>;
        let (ok, s) = osRtxMemoryInit (c_common_addr cfg) (c_common_size cfg) s;
        let s = (if ok \<noteq> 0 then s\<lparr>mem_common := c_common_addr cfg\<rparr> else s);
        let (ok, s) = osRtxMemoryInit (c_stack_addr cfg) (c_stack_size cfg) s;
        let s = s\<lparr>mem_stack := if ok \<noteq> 0 then c_stack_addr cfg else mem_common s\<rparr>;
        let (ok, s) = osRtxMemoryInit (c_mp_data_addr cfg) (c_mp_data_size cfg) s;
        let s = s\<lparr>mem_mp_data := if ok \<noteq> 0 then c_mp_data_addr cfg else mem_common s\<rparr>;
        let (ok, s) = osRtxMemoryInit (c_mq_data_addr cfg) (c_mq_data_size cfg) s;
        let s = s\<lparr>mem_mq_data := if ok \<noteq> 0 then c_mq_data_addr cfg else mem_common s\<rparr>;
        (p, s) \<leftarrow> mpi_setup (c_mpi_stack cfg) s;
        let s = s\<lparr>mpi_stack := p\<rparr>;
        (p, s) \<leftarrow> mpi_setup (c_mpi_thread cfg) s;
        let s = s\<lparr>mpi_thread := p\<rparr>;
        (p, s) \<leftarrow> mpi_setup (c_mpi_timer cfg) s;
        let s = s\<lparr>mpi_timer := p\<rparr>;
        (p, s) \<leftarrow> mpi_setup (c_mpi_event_flags cfg) s;
        let s = s\<lparr>mpi_event_flags := p\<rparr>;
        (p, s) \<leftarrow> mpi_setup (c_mpi_mutex cfg) s;
        let s = s\<lparr>mpi_mutex := p\<rparr>;
        (p, s) \<leftarrow> mpi_setup (c_mpi_semaphore cfg) s;
        let s = s\<lparr>mpi_semaphore := p\<rparr>;
        (p, s) \<leftarrow> mpi_setup (c_mpi_memory_pool cfg) s;
        let s = s\<lparr>mpi_memory_pool := p\<rparr>;
        (p, s) \<leftarrow> mpi_setup (c_mpi_message_queue cfg) s;
        let s = s\<lparr>mpi_message_queue := p\<rparr>;
        Some (osOK, s\<lparr>k_state := osRtxKernelReady\<rparr>)
      })"

abbreviation (input) osRtxVersionAPI :: u32 where "osRtxVersionAPI \<equiv> 20010003"
abbreviation (input) osRtxVersionKernel :: u32 where "osRtxVersionKernel \<equiv> 50040000"

text \<open>\<open>osRtxKernelId\<close>: the characters of ``RTX V5.4.0'' and the terminating zero.\<close>

definition osRtxKernelId :: "u8 list" where
  "osRtxKernelId = [82, 84, 88, 32, 86, 53, 46, 52, 46, 48, 0]"

definition svcRtxKernelGetInfo :: "addr \<Rightarrow> addr \<Rightarrow> u32 \<Rightarrow> rtx \<Rightarrow> u32 \<times> rtx" where
  "svcRtxKernelGetInfo version id_buf id_size s =
     (let s = (if version \<noteq> NULL
               then s\<lparr>mem32 := (mem32 s)(version := osRtxVersionAPI, version + 4 := osRtxVersionKernel)\<rparr> else s);
          s = (if id_buf \<noteq> NULL \<and> id_size \<noteq> 0
               then (let n = min (unat id_size) (length osRtxKernelId)
                     in s\<lparr>mem8 := (\<lambda>a. if unat (a - id_buf) < n then osRtxKernelId ! unat (a - id_buf) else mem8 s a)\<rparr>)
               else s)
      in (osOK, s))"

definition svcRtxKernelGetState :: "rtx \<Rightarrow> u8" where
  "svcRtxKernelGetState s = k_state s"

text \<open>\<open>tick_setup\<close> is the result of \<open>OS_Tick_Setup\<close>, \<open>irqn\<close> the one of \<open>OS_Tick_GetIRQn\<close>.\<close>

definition svcRtxKernelStart :: "rtx_config \<Rightarrow> int \<Rightarrow> int \<Rightarrow> rtx \<Rightarrow> (u32 \<times> rtx) option" where
  "svcRtxKernelStart cfg tick_setup irqn s =
     (if k_state s \<noteq> osRtxKernelReady then Some (osError, s)
      else do {
        (ok, s) \<leftarrow> osRtxThreadStartup cfg s;
        if \<not> ok then Some (osError, s)
        else if tick_setup \<noteq> 0 then Some (osError, s)
        else do {
          let s = s\<lparr>tick_irqn := irqn\<rparr>;
          let s = s\<lparr>tick_enabled := True\<rparr>;
          (thread, s) \<leftarrow> osRtxThreadListGet (ready_obj s) s;
          if thread = NULL then Some (osError, s)
          else do {
            s \<leftarrow> osRtxThreadSwitch thread s;
            Some (osOK, s\<lparr>k_state := osRtxKernelRunning\<rparr>)
          }
        }
      })"

text \<open>The results of the lock services are \<open>int32_t\<close>, as words.\<close>

definition svcRtxKernelLock :: "rtx \<Rightarrow> u32 \<times> rtx" where
  "svcRtxKernelLock s =
     (if k_state s = osRtxKernelRunning then (0, s\<lparr>k_state := osRtxKernelLocked\<rparr>)
      else if k_state s = osRtxKernelLocked then (1, s)
      else (osError, s))"

definition svcRtxKernelUnlock :: "rtx \<Rightarrow> u32 \<times> rtx" where
  "svcRtxKernelUnlock s =
     (if k_state s = osRtxKernelRunning then (0, s)
      else if k_state s = osRtxKernelLocked then (1, s\<lparr>k_state := osRtxKernelRunning\<rparr>)
      else (osError, s))"

definition svcRtxKernelRestoreLock :: "u32 \<Rightarrow> rtx \<Rightarrow> u32 \<times> rtx" where
  "svcRtxKernelRestoreLock lock s =
     (if k_state s = osRtxKernelRunning \<or> k_state s = osRtxKernelLocked then
        (if lock = 0 then (0, s\<lparr>k_state := osRtxKernelRunning\<rparr>)
         else if lock = 1 then (1, s\<lparr>k_state := osRtxKernelLocked\<rparr>)
         else (osError, s))
      else (osError, s))"

definition svcRtxKernelSuspend :: "rtx \<Rightarrow> u32 \<times> rtx" where
  "svcRtxKernelSuspend s =
     (if k_state s \<noteq> osRtxKernelRunning then (0, s)
      else
        (let s = KernelBlock s;
             delay = osWaitForever;
             thread = delay_list s;
             delay = (if thread \<noteq> NULL then t_delay s thread else delay);
             timer = timer_list s;
             delay = (if timer \<noteq> NULL \<and> tm_tick s timer < delay then tm_tick s timer else delay)
         in (delay, s\<lparr>k_state := osRtxKernelSuspended\<rparr>)))"

text \<open>The two loops of \<open>svcRtxKernelResume\<close>.\<close>

partial_function (option) resume_delay_loop :: "u32 \<Rightarrow> rtx \<Rightarrow> rtx option" where
  "resume_delay_loop delay s =
     do {
       s \<leftarrow> osRtxThreadDelayTick s;
       if delay = 0 then Some s
       else do {
         let delay = delay - 1;
         let s = s\<lparr>k_tick := k_tick s + 1\<rparr>;
         if delay_list s \<noteq> NULL then resume_delay_loop delay s else Some s
       }
     }"

partial_function (option) resume_timer_loop :: "u32 \<Rightarrow> rtx \<Rightarrow> rtx option" where
  "resume_timer_loop sleep_ticks s =
     do {
       s \<leftarrow> (if timer_tick_on s then osRtxTimerTick s else None);
       if sleep_ticks = 0 then Some s
       else do {
         let sleep_ticks = sleep_ticks - 1;
         if timer_list s \<noteq> NULL then resume_timer_loop sleep_ticks s else Some s
       }
     }"

definition svcRtxKernelResume :: "u32 \<Rightarrow> rtx \<Rightarrow> rtx option" where
  "svcRtxKernelResume sleep_ticks s =
     (if k_state s \<noteq> osRtxKernelSuspended then Some s
      else do {
        let thread = delay_list s;
        s \<leftarrow>
          (if thread \<noteq> NULL then
             (let delay = sleep_ticks in
              if delay \<ge> t_delay s thread then
                (let delay = delay - t_delay s thread;
                     s = s\<lparr>k_tick := k_tick s + t_delay s thread\<rparr>;
                     s = s\<lparr>t_delay := (t_delay s)(thread := 1)\<rparr>
                 in resume_delay_loop delay s)
              else
                Some (s\<lparr>t_delay := (t_delay s)(thread := t_delay s thread - delay), k_tick := k_tick s + delay\<rparr>))
           else Some (s\<lparr>k_tick := k_tick s + sleep_ticks\<rparr>));
        let timer = timer_list s;
        s \<leftarrow>
          (if timer \<noteq> NULL then
             (if sleep_ticks \<ge> tm_tick s timer then
                (let sleep_ticks = sleep_ticks - tm_tick s timer;
                     s = s\<lparr>tm_tick := (tm_tick s)(timer := 1)\<rparr>
                 in resume_timer_loop sleep_ticks s)
              else Some (s\<lparr>tm_tick := (tm_tick s)(timer := tm_tick s timer - sleep_ticks)\<rparr>))
           else Some s);
        let s = s\<lparr>k_state := osRtxKernelRunning\<rparr>;
        s \<leftarrow> osRtxThreadDispatch NULL s;
        Some (KernelUnblock s)
      })"

definition svcRtxKernelGetTickCount :: "rtx \<Rightarrow> u32" where
  "svcRtxKernelGetTickCount s = k_tick s"

definition svcRtxKernelGetTickFreq :: "rtx_config \<Rightarrow> u32" where
  "svcRtxKernelGetTickFreq cfg = c_tick_freq cfg"

text \<open>The hardware timer is given by what it returns: the count, whether it overflowed, the
  count read again after an overflow, and the interval.\<close>

definition svcRtxKernelGetSysTimerCount :: "u32 \<Rightarrow> u32 \<Rightarrow> u32 \<Rightarrow> u32 \<Rightarrow> rtx \<Rightarrow> u32" where
  "svcRtxKernelGetSysTimerCount count1 overflow count2 interval s =
     (let tick = k_tick s;
          (count, tick) = (if overflow \<noteq> 0 then (count2, tick + 1) else (count1, tick))
      in count + tick * interval)"

section \<open>Public functions\<close>

text \<open>\<open>svc_fun\<close>: a service that is a total function of the state.\<close>

definition svc_fun :: "(rtx \<Rightarrow> 'r \<times> rtx) \<Rightarrow> rtx \<Rightarrow> ('r \<times> rtx) option" where
  "svc_fun f = svc_call (\<lambda>s. Some (f s))"

definition osKernelInitialize :: "bool \<Rightarrow> rtx_config \<Rightarrow> rtx \<Rightarrow> (u32 \<times> rtx) option" where
  "osKernelInitialize irq cfg s = (if irq then Some (osErrorISR, s) else svc_call (svcRtxKernelInitialize cfg) s)"

definition osKernelGetInfo :: "bool \<Rightarrow> addr \<Rightarrow> addr \<Rightarrow> u32 \<Rightarrow> rtx \<Rightarrow> (u32 \<times> rtx) option" where
  "osKernelGetInfo direct version id_buf id_size s =
     (if direct then Some (svcRtxKernelGetInfo version id_buf id_size s)
      else svc_fun (svcRtxKernelGetInfo version id_buf id_size) s)"

definition osKernelGetState :: "bool \<Rightarrow> rtx \<Rightarrow> (u8 \<times> rtx) option" where
  "osKernelGetState direct s =
     (if direct then Some (svcRtxKernelGetState s, s) else svc_fun (\<lambda>s. (svcRtxKernelGetState s, s)) s)"

definition osKernelStart :: "bool \<Rightarrow> rtx_config \<Rightarrow> int \<Rightarrow> int \<Rightarrow> rtx \<Rightarrow> (u32 \<times> rtx) option" where
  "osKernelStart irq cfg tick_setup irqn s =
     (if irq then Some (osErrorISR, s) else svc_call (svcRtxKernelStart cfg tick_setup irqn) s)"

definition osKernelLock :: "bool \<Rightarrow> rtx \<Rightarrow> (u32 \<times> rtx) option" where
  "osKernelLock irq s = (if irq then Some (osErrorISR, s) else svc_fun svcRtxKernelLock s)"

definition osKernelUnlock :: "bool \<Rightarrow> rtx \<Rightarrow> (u32 \<times> rtx) option" where
  "osKernelUnlock irq s = (if irq then Some (osErrorISR, s) else svc_fun svcRtxKernelUnlock s)"

definition osKernelRestoreLock :: "bool \<Rightarrow> u32 \<Rightarrow> rtx \<Rightarrow> (u32 \<times> rtx) option" where
  "osKernelRestoreLock irq lock s = (if irq then Some (osErrorISR, s) else svc_fun (svcRtxKernelRestoreLock lock) s)"

definition osKernelSuspend :: "bool \<Rightarrow> rtx \<Rightarrow> (u32 \<times> rtx) option" where
  "osKernelSuspend irq s = (if irq then Some (0, s) else svc_fun svcRtxKernelSuspend s)"

definition osKernelResume :: "bool \<Rightarrow> u32 \<Rightarrow> rtx \<Rightarrow> (unit \<times> rtx) option" where
  "osKernelResume irq sleep_ticks s =
     (if irq then Some ((), s)
      else svc_call (\<lambda>s. do { s \<leftarrow> svcRtxKernelResume sleep_ticks s; Some ((), s) }) s)"

definition osKernelGetTickCount :: "bool \<Rightarrow> rtx \<Rightarrow> (u32 \<times> rtx) option" where
  "osKernelGetTickCount irq s =
     (if irq then Some (svcRtxKernelGetTickCount s, s) else svc_fun (\<lambda>s. (svcRtxKernelGetTickCount s, s)) s)"

definition osKernelGetTickFreq :: "bool \<Rightarrow> rtx_config \<Rightarrow> rtx \<Rightarrow> (u32 \<times> rtx) option" where
  "osKernelGetTickFreq irq cfg s =
     (if irq then Some (svcRtxKernelGetTickFreq cfg, s) else svc_fun (\<lambda>s. (svcRtxKernelGetTickFreq cfg, s)) s)"

definition osKernelGetSysTimerCount :: "bool \<Rightarrow> u32 \<Rightarrow> u32 \<Rightarrow> u32 \<Rightarrow> u32 \<Rightarrow> rtx \<Rightarrow> (u32 \<times> rtx) option" where
  "osKernelGetSysTimerCount irq count1 overflow count2 interval s =
     (if irq then Some (svcRtxKernelGetSysTimerCount count1 overflow count2 interval s, s)
      else svc_fun (\<lambda>s. (svcRtxKernelGetSysTimerCount count1 overflow count2 interval s, s)) s)"

end
