(* ===== verification/MutexSpec.thy ===== *)
theory MutexSpec
  imports Mutex
begin

text \<open>
  The properties of the mutexes (\<open>rtx_mutex.c\<close>), with the concrete states their witnesses use.
\<close>

section \<open>Examples\<close>

text \<open>In \<open>demo_inh\<close> the idle thread owns the mutex \<open>0x500\<close>.  In \<open>demo_mtx\<close> the object \<open>0x400\<close> is a
  mutex that the running thread owns, with the priority it inherited from the thread \<open>0x300\<close>, which
  waits for it and owns \<open>0x500\<close>.\<close>

definition demo_inh :: rtx where
  "demo_inh = demo\<lparr>o_attr := (\<lambda>_. 0)(0x500 := osMutexPrioInherit), m_lock := (\<lambda>_. 0)(0x500 := 1),
     m_owner_thread := (\<lambda>_. 0)(0x500 := 0x200), t_mutex_list := (\<lambda>_. 0)(0x200 := 0x500)\<rparr>"

definition demo_mtx :: rtx where
  "demo_mtx = demo\<lparr>o_id := (o_id demo)(0x400 := osRtxIdMutex), o_attr := (\<lambda>_. 0)(0x400 := osMutexPrioInherit),
     m_lock := (\<lambda>_. 0)(0x400 := 1, 0x500 := 1), m_owner_thread := (\<lambda>_. 0)(0x400 := 0x100, 0x500 := 0x300),
     t_mutex_list := (\<lambda>_. 0)(0x100 := 0x400, 0x300 := 0x500), t_priority := (t_priority demo)(0x100 := 30)\<rparr>"

lemma demo_inh_core: "core_eq demo demo_inh"
  by (simp add: core_eq_def demo_inh_def)

lemma demo_inh_simps [simp]:
  "kinv demo_inh demo_lists [0x300] []" "stable demo_inh" "run_curr demo_inh = 0x100" "ready_obj demo_inh = 0x10"
  "t_priority demo_inh = t_priority demo" "k_state demo_inh = osRtxKernelRunning" "is_mutex demo_inh 0x500"
  "m_lock demo_inh 0x500 = 1" "m_owner_thread demo_inh 0x500 = 0x200" "o_attr demo_inh 0x500 = osMutexPrioInherit"
  "owns demo_inh 0x100 []"
  using core_eqD(1,4) [OF demo_inh_core] demo_kinv
  by (simp_all add: demo_inh_def is_mutex_def owns_def)

lemma demo_inh_thr: "0x200 \<in> thrs demo_inh"
  using core_eqD(3) [OF demo_inh_core] by (simp add: demo_thrs)

lemma kinv_same_objs:
  assumes k: "kinv s L D W" and e: "objs s' = objs s" "thrs s' = thrs s" "o_id s' (ready_obj s) = osRtxIdInvalid"
    and c: "core_eq (s\<lparr>o_id := o_id s'\<rparr>) s'"
  shows "kinv s' L D W"
proof -
  note c = c [unfolded core_eq_def, simplified]
  note k = k [unfolded kinv_def]
  have "kst s' L (set D \<union> set W) {}"
    using k e part_ok_cong [of s' s] stacks_ok_cong [of s' s] c by (simp add: kst_def)
  moreover have "dl_inv s' D W = dl_inv s D W" by (rule dl_inv_cong) (use c in simp_all)
  ultimately show ?thesis using k by (simp add: kinv_def)
qed

lemma demo_mtx_fields:
  "o_id demo_mtx = (o_id demo)(0x400 := osRtxIdMutex)" "o_state demo_mtx = o_state demo"
  "ready_obj demo_mtx = ready_obj demo" "t_priority demo_mtx = (t_priority demo)(0x100 := 30)"
  by (simp_all add: demo_mtx_def)

lemma demo_mtx_thr: "thrs demo_mtx = thrs demo" "objs demo_mtx = objs demo"
  by (auto simp: demo_mtx_fields thrs_def objs_def has_thread_list_def)

lemma demo_mtx_kinv: "kinv demo_mtx demo_lists [0x300] []"
proof -
  let ?s = "demo\<lparr>t_priority := (t_priority demo)(0x100 := 30)\<rparr>"
  have k: "kinv ?s demo_lists [0x300] []"
    by (rule set_priority_kinv [OF demo_kinv]) (simp add: demo_lists_def)
  have e: "thrs ?s = thrs demo" "objs ?s = objs demo" by (simp_all add: thrs_def objs_def)
  have i: "o_id demo (ready_obj demo) = osRtxIdInvalid" "ready_obj demo \<noteq> 0x400"
    using kstD(5) [OF kinvD(1) [OF demo_kinv]] by simp_all
  show ?thesis
  proof (rule kinv_same_objs [OF k])
    show "core_eq (?s\<lparr>o_id := o_id demo_mtx\<rparr>) demo_mtx" by (simp add: core_eq_def) (simp add: demo_mtx_def)
  qed (use i e demo_mtx_thr in \<open>simp_all add: demo_mtx_fields\<close>)
qed

lemma demo_mtx_simps [simp]:
  "stable demo_mtx" "run_curr demo_mtx = 0x100" "ready_obj demo_mtx = 0x10" "k_state demo_mtx = osRtxKernelRunning"
  "is_mutex demo_mtx 0x400" "m_lock demo_mtx 0x400 = 1" "m_owner_thread demo_mtx 0x400 = 0x100"
  "o_attr demo_mtx 0x400 = osMutexPrioInherit" "owns demo_mtx 0x100 [0x400]" "owns demo_mtx 0x300 [0x500]"
  "t_priority demo_mtx 0x100 = 30" "t_priority_base demo_mtx 0x100 = 24"
  by (simp_all add: demo_mtx_def is_mutex_def owns_def stable_def) (simp_all add: demo_def rtx0_def)

section \<open>Properties\<close>

text \<open>C18: acquiring a mutex returns on every branch and keeps the kernel invariant: a free mutex becomes owned and is
  added to the mutexes of the running thread; a recursive lock by the owner counts up to its limit; without a
  timeout a locked mutex fails and changes nothing; with a timeout the owner of a mutex with priority inheritance
  gets at least the priority of the running thread and is sorted into its list again, and the running thread is
  queued with the mutex, if another thread can run.\<close>

theorem mutex_acquire:
  assumes "kinv s L D W" "stable s" "run_curr s \<noteq> NULL" "is_mutex s m" "owns s (run_curr s) ms"
    and "m_lock s m \<noteq> 0 \<Longrightarrow> m_owner_thread s m \<in> thrs s"
  shows "\<exists>r s' L' D' W'. svcRtxMutexAcquire m timeout s = Some (r, s') \<and> kinv s' L' D' W' \<and>
    (if m_lock s m = 0 then r = osOK \<and> m_lock s' m = 1 \<and> owns s' (run_curr s) (m # ms)
     else if o_attr s m AND osMutexRecursive \<noteq> 0 \<and> m_owner_thread s m = run_curr s then
       (if m_lock s m = osRtxMutexLockLimit then r = osErrorResource \<and> s' = s
        else r = osOK \<and> s' = s\<lparr>m_lock := (m_lock s)(m := m_lock s m + 1)\<rparr>)
     else if timeout = 0 then r = osErrorResource \<and> s' = s
     else r = osErrorTimeout \<and> t_priority s' = inherit_prio s m \<and>
       (o_attr s m AND osMutexPrioInherit \<noteq> 0 \<longrightarrow> t_priority s' (run_curr s) \<le> t_priority s' (m_owner_thread s m)) \<and>
       (if can_wait s L
        then L' m = prio_put (t_priority s') (run_curr s) (inherit_lists s m L m) \<and> wait_dl s (run_curr s) timeout D W s' D' W' \<and>
          run_next s' = hd (inherit_lists s m L (ready_obj s)) \<and> o_state s' (run_curr s) = osRtxThreadWaitingMutex
        else L' = inherit_lists s m L \<and> run_next s' = run_next s))"
proof -
  note m = assms(4) and k = assms(1) and ob = is_mutex_objs [OF assms(4,1)]
  consider (free) "m_lock s m = 0"
    | (rec) "m_lock s m \<noteq> 0" "o_attr s m AND osMutexRecursive \<noteq> 0 \<and> m_owner_thread s m = run_curr s"
    | (poll) "m_lock s m \<noteq> 0" "o_attr s m AND osMutexRecursive = 0 \<or> m_owner_thread s m \<noteq> run_curr s" "timeout = 0"
    | (wait) "m_lock s m \<noteq> 0" "o_attr s m AND osMutexRecursive = 0 \<or> m_owner_thread s m \<noteq> run_curr s" "timeout \<noteq> 0" "can_wait s L"
    | (nowait) "m_lock s m \<noteq> 0" "o_attr s m AND osMutexRecursive = 0 \<or> m_owner_thread s m \<noteq> run_curr s" "timeout \<noteq> 0" "\<not> can_wait s L"
    by blast
  then show ?thesis
  proof cases
    case free
    then show ?thesis using mutex_acquire_free [OF k m free assms(3)] mutex_own_owns [OF assms(5) m free]
      by (intro exI [of _ osOK] exI [of _ "mutex_own m (run_curr s) s"] exI [of _ L] exI [of _ D] exI [of _ W])
        (simp add: mutex_own_eq)
  next
    case rec
    let ?s = "s\<lparr>m_lock := (m_lock s)(m := m_lock s m + 1)\<rparr>"
    have "kinv ?s L D W" using core_eqD(1) [of s ?s] k by (simp add: core_eq_def)
    then show ?thesis using rec m assms(3) k
      by (intro exI [of _ "if m_lock s m = osRtxMutexLockLimit then osErrorResource else osOK"]
          exI [of _ "if m_lock s m = osRtxMutexLockLimit then s else ?s"] exI [of _ L] exI [of _ D] exI [of _ W])
        (simp add: svcRtxMutexAcquire_def is_mutex_def Let_def)
  next
    case poll
    then show ?thesis using m assms(3) k
      by (intro exI [of _ osErrorResource] exI [of _ s] exI [of _ L] exI [of _ D] exI [of _ W])
        (auto simp: svcRtxMutexAcquire_def is_mutex_def Let_def)
  next
    case wait
    obtain s' D' W' where s': "svcRtxMutexAcquire m timeout s = Some (osErrorTimeout, s')"
      "sched_frame (s\<lparr>t_priority := inherit_prio s m\<rparr>) s'" "run_next s' = hd (inherit_lists s m L (ready_obj s))"
      "kinv s' (wait_lists (s\<lparr>t_priority := inherit_prio s m\<rparr>) m (run_curr s) (inherit_lists s m L)) D' W'"
      "wait_dl s (run_curr s) timeout D W s' D' W'" "o_state s' (run_curr s) = osRtxThreadWaitingMutex"
      using mutex_acquire_wait [OF k assms(2) m wait(1) assms(6) [OF wait(1)] wait(2-4)] by blast
    have "t_priority s' = inherit_prio s m" using sched_frameD [OF s'(2)] by simp
    then show ?thesis using s' wait ob inherit_prio_le [of s m]
      by (intro exI [of _ osErrorTimeout] exI [of _ s'] exI [of _ D'] exI [of _ W']
          exI [of _ "wait_lists (s\<lparr>t_priority := inherit_prio s m\<rparr>) m (run_curr s) (inherit_lists s m L)"])
        (auto simp: wait_lists_def Let_def)
  next
    case nowait
    obtain s' where s': "svcRtxMutexAcquire m timeout s = Some (osErrorTimeout, s')"
      "sched_frame (s\<lparr>t_priority := inherit_prio s m\<rparr>) s'" "run_next s' = run_next s" "kinv s' (inherit_lists s m L) D W"
      using mutex_acquire_nowait [OF k m nowait(1) assms(3) assms(6) [OF nowait(1)] nowait(2-4)] by blast
    have "t_priority s' = inherit_prio s m" using sched_frameD [OF s'(2)] by simp
    then show ?thesis using s' nowait inherit_prio_le [of s m]
      by (intro exI [of _ osErrorTimeout] exI [of _ s'] exI [of _ "inherit_lists s m L"] exI [of _ D] exI [of _ W]) auto
  qed
qed

theorem mutex_acquire_witness:
  "\<exists>s' L' D' W'. svcRtxMutexAcquire 0x500 osWaitForever demo_inh = Some (osErrorTimeout, s') \<and> kinv s' L' D' W' \<and>
     t_priority s' 0x200 = 24 \<and> L' 0x500 = [0x100] \<and> run_next s' = 0x200"
proof -
  have ir: "inherits demo_inh 0x500" by (simp add: inherits_def)
  have cw: "can_wait demo_inh demo_lists" by (simp add: can_wait_def)
  have "demo_lists 0x500 = []" by (simp add: demo_lists_def)
  with mutex_acquire [where s = demo_inh and L = demo_lists and D = "[0x300]" and W = "[]" and m = "0x500" and ms = "[]"
      and timeout = osWaitForever, simplified] ir cw demo_inh_thr
  obtain s' L' D' W' where "svcRtxMutexAcquire 0x500 osWaitForever demo_inh = Some (osErrorTimeout, s')" "kinv s' L' D' W'"
    "t_priority s' 0x200 = 24" "L' 0x500 = [0x100]" "run_next s' = 0x200"
    by (auto simp: inherit_prio_def inherit_lists_def reprio_def prio_put_def)
  then show ?thesis by blast
qed

text \<open>C19: the last release of a mutex by its owner returns \<open>osOK\<close> and keeps the kernel invariant: the mutex leaves the list
  of the mutexes of the running thread, and with priority inheritance the thread goes back to the highest of its base
  priority and of the first waiters of the mutexes it still holds.  Without waiters the mutex is free; otherwise
  its first waiter owns it, has \<open>osOK\<close> as the result of its call, and is ready.  No ready thread is then of a higher
  priority than the thread that runs.\<close>

theorem mutex_release:
  assumes "kinv s L D W" "stable s" "k_state s = osRtxKernelRunning" "run_curr s = r" "r \<noteq> NULL"
    and "owns s r ms" "m \<in> set ms" "m_lock s m = 1"
  shows "\<exists>s' L' D' W'. svcRtxMutexRelease m s = Some (osOK, s') \<and> kinv s' L' D' W' \<and> prio_ok s' L' \<and> owns s' r (remove1 m ms)
    \<and> t_priority s' = (if o_attr s m AND osMutexPrioInherit \<noteq> 0
        then (t_priority s)(r := held_prio (t_priority s) L (t_priority_base s r) (remove1 m ms)) else t_priority s)
    \<and> (case L m of
         [] \<Rightarrow> m_lock s' m = 0 \<and> D' = D \<and> W' = W \<and> mem32 s' = mem32 s
       | t # ts \<Rightarrow> m_lock s' m = 1 \<and> m_owner_thread s' m = t \<and> L' m = ts \<and> D' = remove1 t D \<and> W' = remove1 t W
           \<and> mem32 s' = (mem32 s)(osRtxThreadRegPtr t s := osOK) \<and> t_mutex_list s' t = m \<and> m_owner_next s' m = t_mutex_list s t)"
  by (rule mutex_release_last [OF assms])

theorem mutex_release_witness:
  "\<exists>s' L' D' W'. svcRtxMutexRelease 0x400 demo_mtx = Some (osOK, s') \<and> kinv s' L' D' W' \<and> prio_ok s' L' \<and>
     t_priority s' 0x100 = 24 \<and> m_owner_thread s' 0x400 = 0x300 \<and> L' 0x400 = []"
proof -
  have "demo_lists 0x400 = [0x300]" by (simp add: demo_lists_def)
  with mutex_release [OF demo_mtx_kinv demo_mtx_simps(1,4,2) _ demo_mtx_simps(9), of "0x400"]
  obtain s' L' D' W' where "svcRtxMutexRelease 0x400 demo_mtx = Some (osOK, s')" "kinv s' L' D' W'" "prio_ok s' L'"
    "t_priority s' = (t_priority demo_mtx)(0x100 := held_prio (t_priority demo_mtx) demo_lists 24 [])"
    "m_owner_thread s' 0x400 = 0x300" "L' 0x400 = []"
    by auto
  then show ?thesis by (auto simp: held_prio_def)
qed

text \<open>C20: when a mutex is handed over to a waiter that already owns mutexes, the new mutex becomes the head of the waiter's
  list, but the old head keeps \<open>NULL\<close> as its \<open>owner_prev\<close>: the list is not well linked, and
  unlinking the old head drops the new mutex from the list while the thread still owns it.\<close>

theorem mutex_hand_over_drops:
  assumes "kinv s L D W" "is_mutex s m" "L m = t # ts" "owns s t (x # xs)" "m \<noteq> x"
  shows "\<exists>s'. mutex_hand_over m s = Some s' \<and> m_owner_thread s' m = t \<and> m_lock s' m = 1 \<and> t_mutex_list s' t = m \<and>
    m_owner_next s' m = x \<and> \<not> owns s' t (m # x # xs) \<and>
    (let s'' = mutex_owner_unlink x t s' in t_mutex_list s'' t = hd0 xs \<and> m_owner_thread s'' m = t \<and> m_lock s'' m = 1)"
proof -
  obtain s1 s' where s': "mutex_hand_over m s = Some s'" "sched_frame s s1"
    "s' = s1\<lparr>m_owner_thread := (m_owner_thread s)(m := t), m_owner_next := (m_owner_next s)(m := t_mutex_list s t),
        m_owner_prev := (m_owner_prev s)(m := NULL), t_mutex_list := (t_mutex_list s)(t := m), m_lock := (m_lock s)(m := 1)\<rparr>"
    using mutex_hand_over_Cons [OF assms(1-3)] by blast
  have x: "t_mutex_list s t = x" "m_owner_prev s x = NULL" "x \<noteq> NULL" "m_owner_next s x = hd0 xs" "m \<noteq> NULL"
    using assms(2,4) chain_root [of "m_owner_next s" "m_owner_prev s" x xs] by (auto simp: owns_def is_mutex_def chain_def)
  then show ?thesis using s' assms(5) by (simp add: mutex_owner_unlink_def owns_def Let_def)
qed

theorem mutex_hand_over_drops_witness:
  "\<exists>s'. mutex_hand_over 0x400 demo_mtx = Some s' \<and> m_owner_thread s' 0x400 = 0x300 \<and> \<not> owns s' 0x300 [0x400, 0x500] \<and>
    t_mutex_list (mutex_owner_unlink 0x500 0x300 s') 0x300 = NULL"
proof -
  have "demo_lists 0x400 = [0x300]" by (simp add: demo_lists_def)
  from mutex_hand_over_drops [OF demo_mtx_kinv demo_mtx_simps(5) this demo_mtx_simps(10)]
  show ?thesis by (auto simp: Let_def)
qed

end
