(* ===== verification/ListSpec.thy ===== *)
theory ListSpec
  imports ThreadList
begin

text \<open>
  The contract of a thread list: a priority queue that is first-in first-out among threads of the
  same priority.  The clients of the queue put any sequence of elements and get them back in
  the order of a stable sort.  The thread lists of \<open>rtx_thread.c\<close> satisfy the contract.
\<close>

locale stable_queue =
  fixes repr :: "'s \<Rightarrow> 'a list \<Rightarrow> 'a set \<Rightarrow> bool" and key :: "'a \<Rightarrow> 'k::linorder"
    and put :: "'a \<Rightarrow> 's \<Rightarrow> 's option" and get :: "'s \<Rightarrow> ('a \<times> 's) option"
  assumes put_ok: "repr s xs F \<Longrightarrow> x \<in> F \<Longrightarrow>
      \<exists>s'. put x s = Some s' \<and> repr s' (ins_after (\<lambda>y. key y \<le> key x) x xs) (F - {x})"
    and get_ok: "repr s (x # xs) F \<Longrightarrow> \<exists>s'. get s = Some (x, s') \<and> repr s' xs (insert x F)"
begin

primrec put_all :: "'a list \<Rightarrow> 's \<Rightarrow> 's option" where
  "put_all [] s = Some s"
| "put_all (x # xs) s = do { s \<leftarrow> put x s; put_all xs s }"

primrec get_n :: "nat \<Rightarrow> 's \<Rightarrow> ('a list \<times> 's) option" where
  "get_n 0 s = Some ([], s)"
| "get_n (Suc n) s = do { (x, s) \<leftarrow> get s; (xs, s) \<leftarrow> get_n n s; Some (x # xs, s) }"

lemma put_all_ok:
  "repr s xs F \<Longrightarrow> distinct ts \<Longrightarrow> set ts \<subseteq> F \<Longrightarrow>
   \<exists>s'. put_all ts s = Some s' \<and> repr s' (fold (\<lambda>x. ins_after (\<lambda>y. key y \<le> key x) x) ts xs) (F - set ts)"
proof (induction ts arbitrary: s xs F)
  case Nil
  then show ?case by simp
next
  case (Cons t ts)
  obtain s1 where s1: "put t s = Some s1" "repr s1 (ins_after (\<lambda>y. key y \<le> key t) t xs) (F - {t})"
    using put_ok [OF Cons.prems(1)] Cons.prems(3) by auto
  have "F - {t} - set ts = F - set (t # ts)" by auto
  then show ?case using Cons.IH [OF s1(2)] Cons.prems s1(1) by auto
qed

lemma get_n_ok: "repr s (xs @ ys) F \<Longrightarrow> \<exists>s'. get_n (length xs) s = Some (xs, s') \<and> repr s' ys (set xs \<union> F)"
proof (induction xs arbitrary: s F)
  case Nil
  then show ?case by simp
next
  case (Cons x xs)
  obtain s1 where s1: "get s = Some (x, s1)" "repr s1 (xs @ ys) (insert x F)" using get_ok [of s x "xs @ ys"] Cons.prems by auto
  then show ?case using Cons.IH [OF s1(2)] by auto
qed

lemma fold_ins_sort: "fold (\<lambda>x. ins_after (\<lambda>y. key y \<le> key x) x) ts [] = sort_key key ts"
proof -
  have com: "insort_key key y (ins_after (\<lambda>y. key y \<le> key x) x zs) = ins_after (\<lambda>y. key y \<le> key x) x (insort_key key y zs)" for x y zs
    by (induction zs) (auto simp: ins_after_Cons)
  have "sort_key key (xs @ [x]) = ins_after (\<lambda>y. key y \<le> key x) x (sort_key key xs)" for x xs
    by (induction xs) (simp_all add: com)
  then show ?thesis by (induction ts rule: rev_induct) simp_all
qed

lemma put_get:
  assumes "repr s [] F" "distinct ts" "set ts \<subseteq> F"
  shows "\<exists>s' s''. put_all ts s = Some s' \<and> repr s' (sort_key key ts) (F - set ts) \<and>
    get_n (length ts) s' = Some (sort_key key ts, s'') \<and> repr s'' [] F"
proof -
  obtain s' where s': "put_all ts s = Some s'" "repr s' (sort_key key ts) (F - set ts)"
    using put_all_ok [OF assms] by (auto simp: fold_ins_sort)
  moreover have "set ts \<union> (F - set ts) = F" using assms(3) by blast
  ultimately show ?thesis using get_n_ok [of s' "sort_key key ts" "[]" "F - set ts"] by auto
qed

end

section \<open>The thread lists satisfy the contract\<close>

definition list_repr ::
  "addr \<Rightarrow> addr set \<Rightarrow> addr set \<Rightarrow> (addr \<Rightarrow> int) \<Rightarrow> rtx \<Rightarrow> addr list \<Rightarrow> addr set \<Rightarrow> bool" where
  "list_repr ob obs T pr s xs F \<longleftrightarrow> (\<exists>L. tl_inv (thread_next s) (thread_prev s) obs T L \<and> ob \<in> obs \<and> L ob = xs \<and>
     F \<subseteq> T \<and> (\<forall>t\<in>F. \<forall>a. t \<notin> set (L a)) \<and> t_priority s = pr)"

interpretation thread_queue: stable_queue "list_repr ob obs T pr" "\<lambda>t. - pr t" "osRtxThreadListPut ob" "osRtxThreadListGet ob"
  for ob obs T pr
proof
  fix s xs F x
  assume r: "list_repr ob obs T pr s xs F" and x: "x \<in> F"
  then obtain L where L: "tl_inv (thread_next s) (thread_prev s) obs T L" "ob \<in> obs" "L ob = xs" "F \<subseteq> T"
    "\<forall>t\<in>F. \<forall>a. t \<notin> set (L a)" "t_priority s = pr" unfolding list_repr_def by blast
  obtain nx pv where p: "osRtxThreadListPut ob x s = Some (s\<lparr>thread_next := nx, thread_prev := pv\<rparr>)"
    "tl_inv nx pv obs T (L(ob := prio_put pr x xs))"
    using osRtxThreadListPut_tl [OF L(1,2), of x] L x by auto
  have "list_repr ob obs T pr (s\<lparr>thread_next := nx, thread_prev := pv\<rparr>) (prio_put pr x xs) (F - {x})"
    unfolding list_repr_def by (rule exI [of _ "L(ob := prio_put pr x xs)"]) (use p(2) L in auto)
  then show "\<exists>s'. osRtxThreadListPut ob x s = Some s' \<and>
      list_repr ob obs T pr s' (ins_after (\<lambda>y. - pr y \<le> - pr x) x xs) (F - {x})"
    using p(1) by (auto simp: prio_put_def)
next
  fix s x xs F
  assume "list_repr ob obs T pr s (x # xs) F"
  then obtain L where L: "tl_inv (thread_next s) (thread_prev s) obs T L" "ob \<in> obs" "L ob = x # xs" "F \<subseteq> T"
    "\<forall>t\<in>F. \<forall>a. t \<notin> set (L a)" "t_priority s = pr" unfolding list_repr_def by blast
  obtain nx pv where p: "osRtxThreadListGet ob s = Some (x, s\<lparr>thread_next := nx, thread_prev := pv\<rparr>)"
    "tl_inv nx pv obs T (L(ob := xs))" using osRtxThreadListGet_Cons [OF L(1-3)] by blast
  have "x \<in> T" using tl_invD(6) [OF L(1), of x ob] L(3) by simp
  moreover have "x \<notin> set ((L(ob := xs)) a)" for a
    using tl_invD(2) [OF L(1), of ob] tl_invD(4) [OF L(1), of x ob a] L(3) by auto
  moreover have nF: "t \<notin> set xs" if "t \<in> F" for t using L(5) [rule_format, OF that, of ob] L(3) by simp
  ultimately have "list_repr ob obs T pr (s\<lparr>thread_next := nx, thread_prev := pv\<rparr>) xs (insert x F)"
    unfolding list_repr_def by (intro exI [of _ "L(ob := xs)"]) (use p(2) L nF in auto)
  then show "\<exists>s'. osRtxThreadListGet ob s = Some (x, s') \<and> list_repr ob obs T pr s' xs (insert x F)"
    using p(1) by blast
qed

text \<open>The puts and gets of a sequence of threads, written out.\<close>

primrec list_put_all :: "addr \<Rightarrow> addr list \<Rightarrow> rtx \<Rightarrow> rtx option" where
  "list_put_all ob [] s = Some s"
| "list_put_all ob (t # ts) s = do { s \<leftarrow> osRtxThreadListPut ob t s; list_put_all ob ts s }"

primrec list_get_n :: "addr \<Rightarrow> nat \<Rightarrow> rtx \<Rightarrow> (addr list \<times> rtx) option" where
  "list_get_n ob 0 s = Some ([], s)"
| "list_get_n ob (Suc n) s = do { (t, s) \<leftarrow> osRtxThreadListGet ob s; (ts, s) \<leftarrow> list_get_n ob n s; Some (t # ts, s) }"

lemma list_put_all_queue: "list_put_all ob ts = thread_queue.put_all ob ts"
  by (induction ts) (auto simp: fun_eq_iff)

lemma list_get_n_queue: "list_get_n ob n = thread_queue.get_n ob n"
  by (induction n) (auto simp: fun_eq_iff)

section \<open>Properties\<close>

text \<open>C21: threads put into the list of an object come out in the order of a stable sort by priority: the
  highest priority first, and the threads of one priority in the order in which they were put; the
  list is then empty again and the links are well formed.\<close>

theorem thread_list_order:
  assumes "tl_inv (thread_next s) (thread_prev s) obs T L" "ob \<in> obs" "L ob = []"
    and "distinct ts" "set ts \<subseteq> T" "\<And>t a. t \<in> set ts \<Longrightarrow> t \<notin> set (L a)"
  shows "\<exists>s' s''. list_put_all ob ts s = Some s' \<and>
    list_get_n ob (length ts) s' = Some (sort_key (\<lambda>t. - t_priority s t) ts, s'') \<and> thread_next s'' ob = NULL"
proof -
  have "list_repr ob obs T (t_priority s) s [] (set ts)"
    unfolding list_repr_def using assms by (intro exI [of _ L]) auto
  from thread_queue.put_get [OF this assms(4) subset_refl] obtain s' s'' where
    p: "thread_queue.put_all ob ts s = Some s'"
      "thread_queue.get_n ob (length ts) s' = Some (sort_key (\<lambda>t. - t_priority s t) ts, s'')"
      "list_repr ob obs T (t_priority s) s'' [] (set ts)" by blast
  obtain L' where "tl_inv (thread_next s'') (thread_prev s'') obs T L'" "L' ob = []"
    using p(3) unfolding list_repr_def by blast
  then have "thread_next s'' ob = NULL" using tl_inv_empty assms(2) by blast
  then show ?thesis using p by (auto simp: list_put_all_queue list_get_n_queue)
qed

theorem thread_list_order_witness:
  "\<exists>s' s''. list_put_all 0x600 [0x200, 0x100, 0x300] (rtx0 0x10\<lparr>t_priority := (\<lambda>_. 24)(0x300 := 30)\<rparr>) = Some s' \<and>
     list_get_n 0x600 3 s' = Some ([0x300, 0x200, 0x100], s'')"
proof -
  let ?s = "rtx0 0x10\<lparr>t_priority := (\<lambda>_. 24)(0x300 := 30)\<rparr>"
  have "tl_inv (thread_next ?s) (thread_prev ?s) {0x600} {0x100, 0x200, 0x300} (\<lambda>_. [])"
    by (rule tl_invI) (auto simp: rtx0_def)
  from thread_list_order [OF this, of "0x600" "[0x200, 0x100, 0x300]"] show ?thesis
    by (simp del: list_put_all.simps list_get_n.simps add: numeral_3_eq_3) blast
qed

end
