(* ===== verification/Delay.thy ===== *)
theory Delay
  imports Svc Demo
begin

text \<open>Delays (\<open>rtx_delay.c\<close>).\<close>

definition svcRtxDelay :: "u32 \<Rightarrow> rtx \<Rightarrow> (u32 \<times> rtx) option" where
  "svcRtxDelay ticks s =
     (if ticks \<noteq> 0 then do {
        (_, s) \<leftarrow> osRtxThreadWaitEnter osRtxThreadWaitingDelay ticks s;
        Some (osOK, s)
      } else Some (osOK, s))"

definition svcRtxDelayUntil :: "u32 \<Rightarrow> rtx \<Rightarrow> (u32 \<times> rtx) option" where
  "svcRtxDelayUntil ticks s =
     (let ticks = ticks - k_tick s in
      if ticks = 0 \<or> ticks > 0x7FFFFFFF then Some (osErrorParameter, s)
      else do {
        (_, s) \<leftarrow> osRtxThreadWaitEnter osRtxThreadWaitingDelay ticks s;
        Some (osOK, s)
      })"

definition osDelay :: "bool \<Rightarrow> u32 \<Rightarrow> rtx \<Rightarrow> (u32 \<times> rtx) option" where
  "osDelay irq ticks s = (if irq then Some (osErrorISR, s) else svc_call (svcRtxDelay ticks) s)"

definition osDelayUntil :: "bool \<Rightarrow> u32 \<Rightarrow> rtx \<Rightarrow> (u32 \<times> rtx) option" where
  "osDelayUntil irq ticks s = (if irq then Some (osErrorISR, s) else svc_call (svcRtxDelayUntil ticks) s)"

end
