(* ===== verification/SchedSpec.thy ===== *)
theory SchedSpec
  imports Prio Delay Demo
begin

text \<open>
  The properties of the scheduler and of time: dispatching keeps the highest priority running, the
  ticks of the kernel wake exactly the threads whose delays run out, and a thread that sleeps
  is ready again after the ticks it asked for.
\<close>

section \<open>The states of the threads\<close>

text \<open>In a state that satisfies the invariant, a thread that is not in the delay or the wait list is the
  running one or ready, and the others are blocked.\<close>

lemma kinv_state:
  assumes k: "kinv s L D W" and t: "t \<in> thrs s"
  shows "t \<in> set D \<or> t \<in> set W \<Longrightarrow> is_blocked (o_state s t)"
    "t \<notin> set D \<Longrightarrow> t \<notin> set W \<Longrightarrow> t \<noteq> run_next s \<Longrightarrow> o_state s t = osRtxThreadReady \<and> t \<in> set (L (ready_obj s))"
    "run_next s \<noteq> NULL \<Longrightarrow> run_next s \<in> thrs s \<and> o_state s (run_next s) = osRtxThreadRunning \<and>
       run_next s \<notin> set D \<and> run_next s \<notin> set W \<and> run_next s \<notin> set (L (ready_obj s))"
    "o_state s t = osRtxThreadReady \<Longrightarrow> t \<in> set (L (ready_obj s))"
proof -
  note P = part_okD [OF kstD(2) [OF kinvD(1) [OF k]]]
  have nb: "\<not> is_blocked osRtxThreadReady" "\<not> is_blocked osRtxThreadRunning" by (simp_all add: is_blocked_def)
  show "t \<in> set D \<or> t \<in> set W \<Longrightarrow> is_blocked (o_state s t)" using P(8) by blast
  show r: "t \<notin> set D \<Longrightarrow> t \<notin> set W \<Longrightarrow> t \<noteq> run_next s \<Longrightarrow> o_state s t = osRtxThreadReady \<and> t \<in> set (L (ready_obj s))"
    using P(7,9) [of t] t by blast
  show rn: "run_next s \<noteq> NULL \<Longrightarrow> run_next s \<in> thrs s \<and> o_state s (run_next s) = osRtxThreadRunning \<and>
       run_next s \<notin> set D \<and> run_next s \<notin> set W \<and> run_next s \<notin> set (L (ready_obj s))"
    using P(6) P(9) [of "run_next s"] by auto
  show "t \<in> set (L (ready_obj s))" if o: "o_state s t = osRtxThreadReady"
  proof -
    have "t \<notin> set D \<and> t \<notin> set W" using P(8) [of t] nb(1) o by auto
    moreover have "t \<noteq> run_next s" using rn o t in_thrs [OF t] by auto
    ultimately show ?thesis using r by blast
  qed
qed

lemma not_blocked [simp]: "\<not> is_blocked osRtxThreadReady" "\<not> is_blocked osRtxThreadRunning"
  by (simp_all add: is_blocked_def)

section \<open>Ticks\<close>

primrec delay_ticks :: "nat \<Rightarrow> rtx \<Rightarrow> rtx option" where
  "delay_ticks 0 s = Some s"
| "delay_ticks (Suc n) s = do { s \<leftarrow> osRtxThreadDelayTick s; delay_ticks n s }"

definition later :: "nat \<Rightarrow> (addr \<times> nat) list \<Rightarrow> (addr \<times> nat) list" where
  "later n xs = map (map_prod id (\<lambda>d. d - n)) (filter (\<lambda>(t, d). n < d) xs)"

lemma later_Suc:
  assumes "\<forall>(t, d)\<in>set xs. d \<noteq> 0"
  shows "later n (tick_delays xs) = later (Suc n) xs"
  using assms by (induction xs) (auto simp: later_def tick_delays_def)

lemma later_0: "\<forall>(t, d)\<in>set xs. d \<noteq> 0 \<Longrightarrow> later 0 xs = xs"
  by (induction xs) (auto simp: later_def)

lemma delays_pos: "kinv s L D W \<Longrightarrow> \<forall>(t, d)\<in>set (delays s D). d \<noteq> 0"
proof -
  assume "kinv s L D W"
  then have "D \<noteq> [] \<longrightarrow> t_delay s (hd D) \<noteq> 0" by (simp add: kinv_def dl_inv_def)
  then show ?thesis
    using unat_gt_0 [of "t_delay s (hd D)"] by (cases D) (auto simp: delays_def dest!: delta_abs_ge)
qed

lemma delay_ticks_kinv:
  assumes "kinv s L D W"
  shows "\<exists>s' L' D'. delay_ticks n s = Some s' \<and> sched_frame s s' \<and> kinv s' L' D' W \<and> run_next s' = run_next s \<and>
    mem32 s' = mem32 s \<and> delays s' D' = later n (delays s D)"
  using assms
proof (induction n arbitrary: s L D)
  case 0
  then show ?case using later_0 [OF delays_pos [OF 0]] sched_frame_refl by auto
next
  case (Suc n)
  obtain s1 D1 where s1: "osRtxThreadDelayTick s = Some s1" "sched_frame s s1" "run_next s1 = run_next s"
    "kinv s1 (fold (wake s) (tick_woken (delays s D)) L) D1 W" "delays s1 D1 = tick_delays (delays s D)" "mem32 s1 = mem32 s"
    using osRtxThreadDelayTick_kinv [OF Suc.prems] by blast
  obtain s2 L2 D2 where s2: "delay_ticks n s1 = Some s2" "sched_frame s1 s2" "kinv s2 L2 D2 W" "run_next s2 = run_next s1"
    "mem32 s2 = mem32 s1" "delays s2 D2 = later n (delays s1 D1)"
    using Suc.IH [OF s1(4)] by blast
  then show ?case using s1 later_Suc [OF delays_pos [OF Suc.prems]] sched_frame_trans [OF s1(2) s2(2)]
    by (intro exI [of _ s2] exI [of _ L2] exI [of _ D2]) simp
qed

lemma fst_later: "fst ` set (later n xs) = {t. \<exists>d. (t, d) \<in> set xs \<and> n < d}"
  by (induction xs) (auto simp: later_def)

lemma set_later: "(t, d) \<in> set (delays s D) \<Longrightarrow> distinct D \<Longrightarrow> t \<in> fst ` set (later n (delays s D)) \<longleftrightarrow> n < d"
proof -
  assume a: "(t, d) \<in> set (delays s D)" "distinct D"
  have "distinct (map fst (delays s D))" using a(2) by (simp add: delays_def)
  then have "\<And>d'. (t, d') \<in> set (delays s D) \<Longrightarrow> d' = d" using a(1) by (metis eq_key_imp_eq_value)
  then show ?thesis using a(1) unfolding fst_later by blast
qed

lemma fst_delays: "fst ` set (delays s D) = set D"
  unfolding delays_def by (metis list.set_map map_fst_delta_abs)

lemma delay_ticks_state:
  assumes "kinv s L D W"
  shows "\<exists>s' L' D'. delay_ticks n s = Some s' \<and> kinv s' L' D' W \<and> run_next s' = run_next s \<and>
    delays s' D' = later n (delays s D) \<and>
    (\<forall>(t, d)\<in>set (delays s D). if d \<le> n then o_state s' t = osRtxThreadReady else is_blocked (o_state s' t))"
proof -
  obtain s' L' D' where s': "delay_ticks n s = Some s'" "sched_frame s s'" "kinv s' L' D' W" "run_next s' = run_next s"
    "delays s' D' = later n (delays s D)" using delay_ticks_kinv [OF assms] by blast
  have th: "thrs s' = thrs s" using sched_frame_out(1) [OF s'(2)] .
  have "if d \<le> n then o_state s' t = osRtxThreadReady else is_blocked (o_state s' t)" if t: "(t, d) \<in> set (delays s D)" for t d
  proof -
    have tD: "t \<in> set D" using t fst_delays by force
    have tt: "t \<in> thrs s'" using kinvD(6) [OF assms] tD th by blast
    have "set D' = fst ` set (later n (delays s D))" using s'(5) fst_delays [of s' D'] by simp
    then have D': "t \<in> set D' \<longleftrightarrow> n < d" using set_later [OF t kinvD(4) [OF assms], of n] by simp
    have "t \<notin> set W" "t \<noteq> run_next s'"
      using kinvD(3) [OF assms] tD part_okD(6) [OF kstD(2) [OF kinvD(1) [OF assms]]] s'(4) in_thrs [OF tt] by auto
    then show ?thesis using D' kinv_state(1,2) [OF s'(3) tt] by auto
  qed
  then show ?thesis using s' by (intro exI [of _ s'] exI [of _ L'] exI [of _ D']) auto
qed

text \<open>The thread \<open>t\<close> is blocked during the next \<open>n\<close> ticks, and ready from the tick \<open>n\<close> on.\<close>

definition wakes_after :: "rtx \<Rightarrow> addr \<Rightarrow> nat \<Rightarrow> bool" where
  "wakes_after s t n \<longleftrightarrow> (\<forall>i. \<exists>s'. delay_ticks i s = Some s' \<and>
     (if n \<le> i then o_state s' t = osRtxThreadReady else is_blocked (o_state s' t)))"

text \<open>The running thread goes to sleep for \<open>v\<close> ticks.\<close>

lemma sleep_ticks:
  assumes k: "kinv s L D W" and st: "stable s" and cw: "can_wait s L" and v: "v \<noteq> 0" "v \<noteq> osWaitForever"
  shows "\<exists>s'. osRtxThreadWaitEnter osRtxThreadWaitingDelay v s = Some (True, s') \<and> run_next s' = hd (L (ready_obj s)) \<and>
    o_state s' (run_next s') = osRtxThreadRunning \<and> o_state s' (run_curr s) = osRtxThreadWaitingDelay \<and>
    wakes_after s' (run_curr s) (unat v)"
proof -
  obtain c ts where L: "L (ready_obj s) = c # ts" using cw by (cases "L (ready_obj s)") (auto simp: can_wait_def)
  have b: "is_blocked osRtxThreadWaitingDelay" by (simp add: is_blocked_def)
  obtain s' D' W' where s': "osRtxThreadWaitEnter osRtxThreadWaitingDelay v s = Some (True, s')" "run_next s' = c"
    "kinv s' (L(ready_obj s := ts)) D' W'" "wait_dl s (run_curr s) v D W s' D' W'"
    "o_state s' (run_curr s) = osRtxThreadWaitingDelay"
    using osRtxThreadWaitEnter_kinv [OF k st _ refl _ L b v(1)] cw by (auto simp: can_wait_def)
  have "c \<noteq> NULL" using tl_invD(11) [OF kstD(1) [OF kinvD(1) [OF k]], of "ready_obj s"] L by auto
  then have c: "o_state s' (run_next s') = osRtxThreadRunning"
    using part_okD(6,9) [OF kstD(2) [OF kinvD(1) [OF s'(3)]]] s'(2) by blast
  have "(run_curr s, unat v) \<in> set (delays s' D')" using s'(4) v(2) by (simp add: wait_dl_def)
  then have "wakes_after s' (run_curr s) (unat v)"
    unfolding wakes_after_def using delay_ticks_state [OF s'(3)] by fast
  then show ?thesis using s' c L by auto
qed

section \<open>Properties\<close>

text \<open>C22: dispatching with no thread in hand keeps the kernel invariant, and of all the threads that are
  ready or running none has a higher priority than the thread that then runs; when no ready thread has a
  higher priority than the running one nothing changes.\<close>

theorem dispatch_highest:
  assumes k: "kinv s L D W" and st: "stable s" and run: "k_state s = osRtxKernelRunning" "run_curr s \<noteq> NULL"
  shows "\<exists>s' L'. osRtxThreadDispatch NULL s = Some s' \<and> kinv s' L' D W \<and>
    o_state s' (run_next s') = osRtxThreadRunning \<and>
    (\<forall>t\<in>thrs s'. o_state s' t \<in> {osRtxThreadReady, osRtxThreadRunning} \<longrightarrow> t_priority s' t \<le> t_priority s' (run_next s')) \<and>
    ((\<forall>t\<in>thrs s. o_state s t = osRtxThreadReady \<longrightarrow> t_priority s t \<le> t_priority s (run_curr s)) \<longrightarrow> s' = s)"
proof -
  obtain s' L' where s': "osRtxThreadDispatch NULL s = Some s'" "rl_frame s s'" "redisp s L = (L', run_next s')"
    "kinv s' L' D W" "prio_ok s' L'" using dispatch_null_kinv [OF k st] run(1) by blast
  have r: "run_next s \<noteq> NULL" using st run(2) by (simp add: stable_def)
  have nn: "run_next s' \<noteq> NULL"
    using s'(3) r kinv_waiters [OF k, of _ "ready_obj s"] tl_invD(11) [OF kstD(1) [OF kinvD(1) [OF k]], of "ready_obj s"]
    by (auto simp: redisp_def split: list.splits if_splits)
  note N = kinv_state(3) [OF s'(4) _ nn]
  have S: "run_next s' \<in> thrs s'" "o_state s' (run_next s') = osRtxThreadRunning"
    using part_okD(6,9) [OF kstD(2) [OF kinvD(1) [OF s'(4)]]] nn by blast+
  have "t_priority s' t \<le> t_priority s' (run_next s')"
    if t: "t \<in> thrs s'" "o_state s' t \<in> {osRtxThreadReady, osRtxThreadRunning}" for t
  proof (cases "t = run_next s'")
    case False
    have "\<not> (t \<in> set D \<or> t \<in> set W)" using kinv_state(1) [OF s'(4) t(1)] t(2) by auto
    then have "t \<in> set (L' (ready_obj s'))" using kinv_state(2) [OF s'(4) t(1)] False by blast
    then show ?thesis using s'(5) nn unfolding prio_ok_def by blast
  qed simp
  moreover have "s' = s" if p: "\<forall>t\<in>thrs s. o_state s t = osRtxThreadReady \<longrightarrow> t_priority s t \<le> t_priority s (run_curr s)"
  proof -
    have "\<not> preempts s c" if c: "c \<in> set (L (ready_obj s))" for c
    proof -
      have "c \<in> thrs s" using c kst_list_sub [OF kinvD(1) [OF k], of "ready_obj s"] by blast
      moreover from this have "o_state s c = osRtxThreadReady"
        using part_okD(7) [OF kstD(2) [OF kinvD(1) [OF k]], of c] c by simp
      ultimately show ?thesis using p by (simp add: preempts_def not_less)
    qed
    moreover have "thread_next s (ready_obj s) = hd0 (L (ready_obj s))"
      by (rule tl_inv_head [OF kstD(1) [OF kinvD(1) [OF k]] ready_in_objs])
    ultimately have "osRtxThreadDispatch NULL s = Some s"
      by (cases "L (ready_obj s)") (auto simp: osRtxThreadDispatch_def preempts_def Let_def)
    then show ?thesis using s'(1) by simp
  qed
  ultimately show ?thesis using s'(1,4) S by blast
qed

theorem dispatch_highest_witness:
  "\<exists>s' L'. osRtxThreadDispatch NULL demo = Some s' \<and> kinv s' L' [0x300] [] \<and> o_state s' (run_next s') = osRtxThreadRunning"
  using dispatch_highest [OF demo_kinv] by force

text \<open>C24: \<open>n\<close> ticks always return; they make exactly the threads ready whose delay is at most \<open>n\<close>, all others in
  the delay list stay blocked with \<open>n\<close> ticks less to wait, and the running thread does not change.\<close>

theorem delay_ticks_wake:
  assumes "kinv s L D W"
  shows "\<exists>s' L' D'. delay_ticks n s = Some s' \<and> kinv s' L' D' W \<and> run_next s' = run_next s \<and>
    delays s' D' = map (map_prod id (\<lambda>d. d - n)) (filter (\<lambda>(t, d). n < d) (delays s D)) \<and>
    (\<forall>(t, d)\<in>set (delays s D). if d \<le> n then o_state s' t = osRtxThreadReady else is_blocked (o_state s' t))"
  using delay_ticks_state [OF assms, of n] by (auto simp: later_def)

theorem delay_ticks_wake_witness:
  "\<exists>s4 s5. delay_ticks 4 demo = Some s4 \<and> is_blocked (o_state s4 0x300) \<and> delay_ticks 5 demo = Some s5 \<and>
     o_state s5 0x300 = osRtxThreadReady"
  using delay_ticks_wake [OF demo_kinv, of 4] delay_ticks_wake [OF demo_kinv, of 5] by auto

text \<open>\<open>osDelay\<close> puts the running thread to sleep and runs the first ready thread; the sleeper is blocked during
  the first ticks and ready again after \<open>ticks\<close> ticks and from then on.  A call with \<open>0\<close> returns at once.\<close>

theorem delay_sleeps:
  assumes "kinv s L D W" "stable s" "can_wait s L" "ticks \<noteq> osWaitForever"
  shows "\<exists>s'. svcRtxDelay ticks s = Some (osOK, s') \<and>
    (if ticks = 0 then s' = s
     else run_next s' = hd (L (ready_obj s)) \<and> o_state s' (run_next s') = osRtxThreadRunning \<and>
       o_state s' (run_curr s) = osRtxThreadWaitingDelay \<and> wakes_after s' (run_curr s) (unat ticks))"
proof (cases "ticks = 0")
  case True
  then show ?thesis by (simp add: svcRtxDelay_def)
next
  case False
  then show ?thesis using sleep_ticks [OF assms(1-3) False assms(4)] by (auto simp: svcRtxDelay_def)
qed

theorem delay_sleeps_witness:
  "\<exists>s' s''. svcRtxDelay 7 demo = Some (osOK, s') \<and> run_next s' = 0x200 \<and> delay_ticks 7 s' = Some s'' \<and>
     o_state s'' 0x100 = osRtxThreadReady"
proof -
  have "can_wait demo demo_lists" by (simp add: can_wait_def)
  from delay_sleeps [OF demo_kinv demo_simps(1) this, of 7]
  obtain s' where s': "svcRtxDelay 7 demo = Some (osOK, s')" "run_next s' = 0x200"
    "wakes_after s' 0x100 7" by auto
  then show ?thesis unfolding wakes_after_def by (metis order_refl)
qed

text \<open>\<open>osDelayUntil\<close> takes an absolute time: a time that is now, or more than \<open>2\<^sup>3\<^sup>1 - 1\<close> ticks ahead on the
  wrapping tick counter, is an error and changes nothing; otherwise the thread sleeps and is ready exactly from
  the tick on at which the counter reaches that time, also across a wrap of the counter.\<close>

theorem delay_until:
  assumes "kinv s L D W" "stable s" "can_wait s L"
  shows "if ticks = k_tick s \<or> ticks - k_tick s > 0x7FFFFFFF then svcRtxDelayUntil ticks s = Some (osErrorParameter, s)
    else \<exists>s' n. svcRtxDelayUntil ticks s = Some (osOK, s') \<and> run_next s' = hd (L (ready_obj s)) \<and>
      k_tick s + of_nat n = ticks \<and> 0 < n \<and> n < 2 ^ 31 \<and> wakes_after s' (run_curr s) n"
proof (cases "ticks = k_tick s \<or> ticks - k_tick s > 0x7FFFFFFF")
  case True
  then show ?thesis by (auto simp: svcRtxDelayUntil_def Let_def)
next
  case False
  let ?v = "ticks - k_tick s"
  have v: "?v \<noteq> 0" "?v \<le> 0x7FFFFFFF" using False by auto
  then have n: "0 < unat ?v" "unat ?v < 2 ^ 31" "?v \<noteq> osWaitForever"
    by (simp_all add: word_le_nat_alt unat_gt_0) auto
  obtain s' where s': "osRtxThreadWaitEnter osRtxThreadWaitingDelay ?v s = Some (True, s')" "run_next s' = hd (L (ready_obj s))"
    "wakes_after s' (run_curr s) (unat ?v)"
    using sleep_ticks [OF assms v(1) n(3)] by blast
  have "svcRtxDelayUntil ticks s = Some (osOK, s')" using s'(1) v by (simp add: svcRtxDelayUntil_def Let_def not_less)
  then show ?thesis using False s' n(1,2) by (auto intro!: exI [of _ s'] exI [of _ "unat ?v"])
qed

theorem delay_until_witness:
  "svcRtxDelayUntil 0 demo = Some (osErrorParameter, demo) \<and>
   (\<exists>s' n. svcRtxDelayUntil 9 demo = Some (osOK, s') \<and> of_nat n = (9 :: u32) \<and> run_next s' = 0x200)"
proof -
  have cw: "can_wait demo demo_lists" by (simp add: can_wait_def)
  have k: "k_tick demo = 0" by (simp add: demo_def rtx0_def)
  show ?thesis using delay_until [OF demo_kinv demo_simps(1) cw, of 0] delay_until [OF demo_kinv demo_simps(1) cw, of 9] k
    by auto
qed

end
