(* ===== verification/ThreadSpec.thy ===== *)
theory ThreadSpec
  imports System Demo
begin

text \<open>
  The properties of the thread services (\<open>rtx_thread.c\<close>): counting and enumerating the threads,
  yielding and round robin, priorities, suspending and resuming.
\<close>

section \<open>The live threads\<close>

lemma thrs_lists:
  assumes k: "kinv s L D W" and r: "run_next s \<noteq> NULL"
  shows "thrs s = set (run_next s # L (ready_obj s) @ D @ W)" "distinct (run_next s # L (ready_obj s) @ D @ W)"
proof -
  note K = kinvD [OF k]
  note P = part_okD [OF kstD(2) [OF K(1)]]
  show "thrs s = set (run_next s # L (ready_obj s) @ D @ W)"
    using P(6) [OF r] P(9) kst_list_sub [OF K(1), of "ready_obj s"] K(6) by auto
  show "distinct (run_next s # L (ready_obj s) @ D @ W)"
    using P(4) P(6) [OF r] K(3-5) tl_invD(2) [OF kstD(1) [OF K(1)], of "ready_obj s"] by auto
qed

lemma count_loop_dseg: "dseg nx pv p c xs \<Longrightarrow> count_loop nx c n = Some (n + of_nat (length xs))"
proof (induction xs arbitrary: p c n)
  case Nil
  then show ?case by (simp add: count_loop.simps [of nx NULL n])
next
  case (Cons x xs)
  then show ?case using Cons.IH [of x "nx x" "n + 1"] by (simp add: count_loop.simps [of nx x n] add.commute add.left_commute)
qed

lemma kinv_dsegs:
  assumes "kinv s L D W"
  shows "dseg (thread_next s) (thread_prev s) (ready_obj s) (thread_next s (ready_obj s)) (L (ready_obj s))"
    "dseg (delay_next s) (delay_prev s) NULL (delay_list s) D" "dseg (delay_next s) (delay_prev s) NULL (wait_list s) W"
  using tl_invD(1) [OF kstD(1) [OF kinvD(1) [OF assms]] ready_in_objs] kinvD(2) [OF assms]
  by (simp_all add: chain_def dl_inv_def)

text \<open>One loop of the enumeration copies a prefix of the list, as far as there is space.\<close>

primrec put_words :: "addr \<Rightarrow> u32 list \<Rightarrow> (addr \<Rightarrow> u32) \<Rightarrow> addr \<Rightarrow> u32" where
  "put_words a [] m = m"
| "put_words a (x # xs) m = put_words (a + 4) xs (m(a := x))"

lemma put_words_append:
  "put_words a (xs @ ys) m = put_words (a + 4 * of_nat (length xs)) ys (put_words a xs m)"
  by (induction xs arbitrary: a m) (simp_all add: algebra_simps)

lemma put_words_other:
  "(\<And>i. i < length xs \<Longrightarrow> b \<noteq> a + 4 * of_nat i) \<Longrightarrow> put_words a xs m b = m b"
proof (induction xs arbitrary: a m)
  case (Cons x xs)
  have "b \<noteq> a" using Cons.prems [of 0] by simp
  moreover have "b \<noteq> a + 4 + 4 * of_nat i" if "i < length xs" for i
    using Cons.prems [of "Suc i"] that by (simp add: algebra_simps)
  ultimately have "put_words (a + 4) xs (m(a := x)) b = (m(a := x)) b" by (intro Cons.IH)
  then show ?case using \<open>b \<noteq> a\<close> by simp
qed simp

lemma unat_four_mult: "i < 2 ^ 30 \<Longrightarrow> unat (4 * of_nat i :: u32) = 4 * i"
  by (simp add: unat_word_ariths unat_of_nat)

lemma put_words_nth:
  "i < length xs \<Longrightarrow> length xs \<le> 2 ^ 30 \<Longrightarrow> put_words a xs m (a + 4 * of_nat i) = xs ! i"
proof (induction xs arbitrary: a m i)
  case (Cons x xs)
  show ?case
  proof (cases i)
    case 0
    have "put_words (a + 4) xs (m(a := x)) a = x"
    proof (subst put_words_other)
      fix j assume j: "j < length xs"
      then have "unat (4 * of_nat (Suc j) :: u32) = 4 * Suc j" using Cons.prems by (intro unat_four_mult) simp
      then have "4 * of_nat (Suc j) \<noteq> (0 :: u32)" by (metis mult_is_0 nat.distinct(1) unat_0 zero_neq_numeral)
      then show "a \<noteq> a + 4 + 4 * of_nat j" by (simp add: algebra_simps)
    qed simp
    then show ?thesis using 0 by simp
  next
    case (Suc j)
    then have "put_words (a + 4) xs (m(a := x)) (a + 4 + 4 * of_nat j) = xs ! j"
      using Cons.prems by (intro Cons.IH) simp_all
    moreover have "a + 4 * of_nat i = a + 4 + 4 * of_nat j" using Suc by (simp add: algebra_simps)
    ultimately show ?thesis using Suc by (simp only: put_words.simps nth_Cons_Suc)
  qed
qed simp

lemma unat_inc_lt: "n < k \<Longrightarrow> unat (n + 1 :: u32) = Suc (unat n)"
  using unat_add_lt [of n "1 :: u32"] unsigned_less [of k, where ?'a = nat] by (simp add: word_less_nat_alt)

lemma enum_loop_dseg:
  assumes "dseg nx pv p c xs" "unat n \<le> unat k"
  shows "enum_loop nx k c a n m =
    (let j = min (length xs) (unat k - unat n) in Some (a + 4 * of_nat j, n + of_nat j, put_words a (take j xs) m))"
  using assms
proof (induction xs arbitrary: p c n a m)
  case Nil
  then show ?case by (simp add: enum_loop.simps [of nx k NULL])
next
  case (Cons x xs)
  show ?case
  proof (cases "n < k")
    case False
    then have "unat k - unat n = 0" by (simp add: word_less_nat_alt)
    then show ?thesis using False Cons.prems(1) by (simp add: enum_loop.simps [of nx k x])
  next
    case True
    have n1: "unat (n + 1) = Suc (unat n)" "unat n < unat k" using unat_inc_lt [OF True] True by (simp_all add: word_less_nat_alt)
    have d: "c = x" "x \<noteq> NULL" "dseg nx pv x (nx x) xs" using Cons.prems(1) by auto
    let ?j = "min (length xs) (unat k - unat (n + 1))"
    have e: "enum_loop nx k (nx x) (a + 4) (n + 1) (m(a := x)) =
        Some (a + 4 + 4 * of_nat ?j, n + 1 + of_nat ?j, put_words (a + 4) (take ?j xs) (m(a := x)))"
      by (subst Cons.IH [OF d(3)]) (use n1 in \<open>simp_all add: Let_def\<close>)
    have j: "min (length (x # xs)) (unat k - unat n) = Suc ?j" using n1 by auto
    show ?thesis unfolding j Let_def enum_loop.simps [of nx k c a n m] using True d(1,2) e by (simp add: algebra_simps)
  qed
qed

section \<open>Giving way to the first ready thread\<close>

text \<open>The running thread is put behind the ready threads of its priority, and \<open>c\<close> runs next.\<close>

lemma give_way_kst:
  assumes k: "kst s L B C" and c: "c \<in> C" "\<And>a. c \<notin> set (L a)"
    and r: "r = run_next s" "r \<noteq> NULL" and rc: "run_curr s = NULL \<or> run_curr s \<in> thrs s"
  shows "\<exists>s'. do { s \<leftarrow> osRtxThreadReadyPut r s; osRtxThreadSwitch c s } = Some s' \<and> rl_frame s s'
    \<and> run_next s' = c \<and> o_state s' = (o_state s)(r := osRtxThreadReady, c := osRtxThreadRunning)
    \<and> kst s' (ready_put s r L) B (C - {c})"
proof -
  note K = kstD [OF k]
  have ct: "c \<in> thrs s" using part_okD(2) [OF K(2)] c(1) .
  have rt: "r \<in> thrs s" using part_okD(6) [OF K(2)] r by blast
  have rl: "r \<notin> set (L a)" for a using running_in_no_list [OF k] r by simp
  let ?s1 = "s\<lparr>o_state := (o_state s)(r := osRtxThreadReady)\<rparr>"
  have "tl_inv (thread_next ?s1) (thread_prev ?s1) (objs s) (thrs s) L" using K(1) by simp
  from osRtxThreadListPut_tl [OF this ready_in_objs rt rl] obtain nx pv where
    put: "osRtxThreadListPut (ready_obj s) r ?s1 = Some (?s1\<lparr>thread_next := nx, thread_prev := pv\<rparr>)"
    and same: "tl_same (objs s) (thrs s) ?s1 nx pv" and inv: "tl_inv nx pv (objs s) (thrs s) (ready_put s r L)"
    by (auto simp: ready_put_def)
  define s' where "s' = s\<lparr>o_state := (o_state s)(r := osRtxThreadReady, c := osRtxThreadRunning),
      thread_next := nx, thread_prev := pv, run_next := c\<rparr>"
  have th: "thrs s' = thrs s"
    by (rule thrs_upd2 [where c = r and st = osRtxThreadReady and d = c and st' = osRtxThreadRunning])
      (simp_all add: ct rt s'_def)
  have ob: "objs s' = objs s" by (rule objs_cong) (simp_all add: s'_def)
  have st: "stacks_ok s'" using K(4) stacks_ok_cong [of s' s] th by (simp add: s'_def)
  then have chk: "osRtxThreadStackCheck s' = Some s'"
    by (rule osRtxThreadStackCheck_ok) (unfold th, use rc in \<open>simp add: s'_def\<close>)
  have op: "do { s \<leftarrow> osRtxThreadReadyPut r s; osRtxThreadSwitch c s } = Some s'"
    using put in_thrs [OF ct] r(2) chk
    by (simp add: osRtxThreadReadyPut_def osRtxThreadSwitch_def s'_def) (simp add: record_order)
  have "part_ok s' (ready_put s r L) B (C - {c})"
    by (rule part_ok_preempt [OF K(2) c r])
      (simp_all add: th, simp_all add: s'_def ready_put_def kst_list_sub [OF k])
  moreover have "prio_sorted (t_priority s) (ready_put s r L ob)" for ob
    using K(3) by (simp add: ready_put_def prio_sorted_put)
  ultimately have "kst s' (ready_put s r L) B (C - {c})"
    using inv K(5) st unfolding kst_def ob th by (simp add: s'_def)
  moreover have "rl_frame s s'"
    by (rule rl_frameI [OF s'_def]) (use same th rt ct in \<open>auto simp: tl_same_def\<close>)
  ultimately show ?thesis using op by (auto simp: s'_def)
qed

lemma kinv_run:
  assumes "kinv s L D W" "stable s"
  shows "run_curr s = NULL \<or> run_curr s \<in> thrs s"
  using part_okD(6) [OF kstD(2) [OF kinvD(1) [OF assms(1)]]] assms(2) by (auto simp: stable_def)

text \<open>\<open>osThreadYield\<close> and the round-robin step: the first ready thread leaves the list before.\<close>

lemma rotate_kinv:
  assumes k: "kinv s L D W" and r: "r = run_next s" "r \<noteq> NULL" and rc: "run_curr s = NULL \<or> run_curr s \<in> thrs s"
    and L: "L (ready_obj s) = c # ts"
  shows "\<exists>s'. do { s \<leftarrow> osRtxThreadListRemove c s; s \<leftarrow> osRtxThreadReadyPut r s; osRtxThreadSwitch c s } = Some s'
    \<and> rl_frame s s' \<and> run_next s' = c \<and> o_state s' = (o_state s)(r := osRtxThreadReady, c := osRtxThreadRunning)
    \<and> kinv s' (L(ready_obj s := prio_put (t_priority s) r ts)) D W"
proof -
  note K = kinvD [OF k]
  obtain nx pv where rm: "osRtxThreadListRemove c s = Some (s\<lparr>thread_next := nx, thread_prev := pv\<rparr>)"
    and same: "tl_same (objs s) (thrs s) s nx pv" and inv: "tl_inv nx pv (objs s) (thrs s) (L(ready_obj s := ts))"
    using osRtxThreadListRemove_tl [OF kstD(1) [OF K(1)], of c "ready_obj s"] L by auto
  let ?s1 = "s\<lparr>thread_next := nx, thread_prev := pv\<rparr>"
  have k1: "kst ?s1 (L(ready_obj s := ts)) (set D \<union> set W) {c}" by (rule take_ready_kst [OF K(1) L refl inv])
  obtain s' where s': "do { s \<leftarrow> osRtxThreadReadyPut r ?s1; osRtxThreadSwitch c s } = Some s'" "rl_frame ?s1 s'"
    "run_next s' = c" "o_state s' = (o_state ?s1)(r := osRtxThreadReady, c := osRtxThreadRunning)"
    "kst s' (ready_put ?s1 r (L(ready_obj s := ts))) (set D \<union> set W) ({c} - {c})"
    using give_way_kst [OF k1, of c r] tl_inv_distinct_Cons [OF kstD(1) [OF K(1)] L] r rc by (auto simp: thrs_def)
  have f: "rl_frame s ?s1"
    by (rule rl_frameI [where st = "o_state s" and r = "run_next s" and nx = nx and pv = pv, OF _ same])
      (simp_all add: thrs_def)
  have "rl_frame s s'" by (rule rl_frame_trans [OF f s'(2)])
  moreover have "ready_put ?s1 r (L(ready_obj s := ts)) = L(ready_obj s := prio_put (t_priority s) r ts)"
    by (simp add: ready_put_def)
  ultimately show ?thesis using rm s' K(2) rl_frame_dl(1) by (auto simp: kinv_def)
qed

section \<open>An example\<close>

text \<open>The demo system with the running and the idle thread on one priority, and time slices of five ticks.\<close>

definition demo_rr :: rtx where
  "demo_rr = demo\<lparr>t_priority := (\<lambda>_. 24)(0x300 := 30), robin_timeout := 5, robin_thread := 0x100, robin_tick := 5\<rparr>"

lemma demo_rr_simps:
  "run_curr demo_rr = 0x100" "run_next demo_rr = 0x100" "k_state demo_rr = osRtxKernelRunning" "ready_obj demo_rr = 0x10"
  "robin_timeout demo_rr = 5" "robin_thread demo_rr = 0x100" "\<not> timer_tick_on demo_rr" "t_priority demo_rr = (\<lambda>_. 24)(0x300 := 30)"
  "t_delay demo_rr 0x300 = 5"
  by (simp_all add: demo_rr_def) (simp_all add: demo_def rtx0_def)

lemma demo_rr_kinv: "kinv demo_rr demo_lists [0x300] []"
proof -
  have th: "thrs demo_rr = thrs demo" "objs demo_rr = objs demo" by (simp_all add: thrs_def objs_def demo_rr_def)
  have "prio_sorted (t_priority demo_rr) (demo_lists ob)" for ob
    by (auto simp: demo_lists_def prio_sorted_Cons)
  then have "kst demo_rr demo_lists {0x300} {}"
    using demo_kst part_ok_cong [of demo_rr demo] stacks_ok_cong [of demo_rr demo] th by (simp add: kst_def demo_rr_def)
  moreover have "dl_inv demo_rr [0x300] [] = dl_inv demo [0x300] []" by (rule dl_inv_cong) (simp_all add: demo_rr_def)
  ultimately show ?thesis using demo_kinv by (simp add: kinv_def)
qed

section \<open>Properties\<close>

text \<open>\<open>osThreadGetCount\<close> returns the number of live threads: the running one, the ready ones and the blocked ones,
  those of the delay list and those that wait forever.\<close>

theorem thread_count:
  assumes k: "kinv s L D W" and r: "run_next s \<noteq> NULL"
  shows "svcRtxThreadGetCount s = Some (of_nat (card (thrs s)))"
proof -
  note T = thrs_lists [OF k r] and S = kinv_dsegs [OF k]
  have "card (thrs s) = 1 + length (L (ready_obj s)) + length D + length W"
    unfolding T(1) using distinct_card [OF T(2)] by simp
  then show ?thesis
    by (simp add: svcRtxThreadGetCount_def count_loop_dseg [OF S(1)] count_loop_dseg [OF S(2)] count_loop_dseg [OF S(3)])
qed

theorem thread_count_witness: "svcRtxThreadGetCount demo = Some 3"
  using thread_count [OF demo_kinv] by (simp add: demo_thrs)

text \<open>\<open>osThreadEnumerate\<close> writes the live threads into the caller's array, each once, the running thread first and then
  the ready ones by priority, but never more than \<open>array_items\<close> of them; it returns how many it wrote, and touches no
  other memory.  An array that is large enough gets all the live threads.\<close>

theorem thread_enumerate:
  assumes k: "kinv s L D W" and st: "stable s" "run_next s \<noteq> NULL" and a: "thread_array \<noteq> NULL" "array_items \<noteq> 0" "unat array_items \<le> 2 ^ 30"
  shows "\<exists>s' ts. svcRtxThreadEnumerate thread_array array_items s = Some (of_nat (length ts), s') \<and>
    ts = take (unat array_items) (run_curr s # L (ready_obj s) @ D @ W) \<and> distinct ts \<and>
    (card (thrs s) \<le> unat array_items \<longrightarrow> set ts = thrs s) \<and>
    (\<forall>i<length ts. mem32 s' (thread_array + 4 * of_nat i) = ts ! i) \<and>
    (\<forall>b. (\<forall>i<length ts. b \<noteq> thread_array + 4 * of_nat i) \<longrightarrow> mem32 s' b = mem32 s b)"
proof -
  note T = thrs_lists [OF k st(2)] and S = kinv_dsegs [OF k]
  have rc: "run_next s = run_curr s" using st(1) by (simp add: stable_def)
  let ?n = "unat array_items" and ?R = "L (ready_obj s)"
  define ts where "ts = take ?n (run_curr s # ?R @ D @ W)"
  have n: "1 \<le> ?n" using a(2) unat_gt_0 [of array_items] by simp
  define i where "i = min (length ?R) (?n - 1)"
  define j where "j = min (length D) (?n - 1 - i)"
  define l where "l = min (length W) (?n - 1 - i - j)"
  have le: "1 + i \<le> ?n" "1 + i + j \<le> ?n" using n by (auto simp: i_def j_def)
  have u: "unat (of_nat q :: u32) = q" if "q \<le> ?n" for q
    using that a(3) by (simp add: unat_of_nat)
  let ?m = "(mem32 s)(thread_array := run_curr s)"
  have e1: "enum_loop (thread_next s) array_items (thread_next s (ready_obj s)) (thread_array + 4) 1 ?m
    = Some (thread_array + 4 + 4 * of_nat i, 1 + of_nat i, put_words (thread_array + 4) (take i ?R) ?m)"
    using enum_loop_dseg [OF S(1), of 1 array_items] n by (simp add: Let_def i_def)
  have u1: "unat (1 + of_nat i :: u32) = 1 + i" using u [OF le(1)] by simp
  have e2: "enum_loop (delay_next s) array_items (delay_list s) a' (1 + of_nat i) m'
    = Some (a' + 4 * of_nat j, 1 + of_nat i + of_nat j, put_words a' (take j D) m')" for a' m'
    using enum_loop_dseg [OF S(2), of "1 + of_nat i" array_items] u1 le by (simp add: Let_def j_def)
  have u2: "unat (1 + of_nat i + of_nat j :: u32) = 1 + i + j" using u [OF le(2)] by (simp add: add.assoc)
  have e3: "enum_loop (delay_next s) array_items (wait_list s) a' (1 + of_nat i + of_nat j) m'
    = Some (a' + 4 * of_nat l, 1 + of_nat i + of_nat j + of_nat l, put_words a' (take l W) m')" for a' m'
    using enum_loop_dseg [OF S(3), of "1 + of_nat i + of_nat j" array_items] u2 le by (simp add: Let_def l_def)
  have tk: "take i ?R = take (?n - 1) ?R" "take j D = take (?n - 1 - length ?R) D" "take l W = take (?n - 1 - length ?R - length D) W"
    by (auto simp: i_def j_def l_def min_def)
  obtain q where q: "?n = Suc q" using n by (cases ?n) auto
  have ts: "ts = run_curr s # take i ?R @ take j D @ take l W"
    unfolding ts_def tk q by simp
  have lens: "length (take i ?R) = i" "length (take j D) = j" "length (take l W) = l" "min (length ?R) i = i" "min (length D) j = j"
    by (simp_all add: i_def j_def l_def)
  have tl: "length ts = 1 + i + j + l" unfolding ts list.size length_append lens(1-3) by simp
  have "svcRtxThreadEnumerate thread_array array_items s = Some (of_nat (length ts), s\<lparr>mem32 := put_words thread_array ts (mem32 s)\<rparr>)"
    using a(1,2) unfolding tl unfolding ts
    by (simp add: svcRtxThreadEnumerate_def Let_def e1 e2 e3) (simp add: put_words_append lens add.assoc)
  moreover have "distinct ts" unfolding ts_def using distinct_take [OF T(2)] rc by simp
  moreover have "set ts = thrs s" if "card (thrs s) \<le> ?n"
    unfolding ts_def using that T rc distinct_card [OF T(2)] by simp
  moreover have "length ts \<le> 2 ^ 30" using a(3) by (simp add: ts_def)
  ultimately show ?thesis
    by (intro exI [of _ "s\<lparr>mem32 := put_words thread_array ts (mem32 s)\<rparr>"] exI [of _ ts])
      (auto simp: ts_def [symmetric] put_words_nth put_words_other)
qed

theorem thread_enumerate_witness:
  "\<exists>s'. svcRtxThreadEnumerate 0x8000 8 demo = Some (3, s') \<and> mem32 s' 0x8000 = 0x100 \<and> mem32 s' 0x8004 = 0x200 \<and> mem32 s' 0x8008 = 0x300"
proof -
  from thread_enumerate [OF demo_kinv demo_simps(1), of "0x8000" 8]
  obtain s' where s': "svcRtxThreadEnumerate 0x8000 8 demo = Some (3, s')"
    "\<forall>i<3. mem32 s' (0x8000 + 4 * of_nat i) = [0x100, 0x200, 0x300] ! i" by auto
  show ?thesis using s' s'(2) [rule_format, of 0] s'(2) [rule_format, of 1] s'(2) [rule_format, of 2] by auto
qed

text \<open>\<open>osThreadYield\<close> runs the first ready thread if it has the priority of the caller, and puts the caller behind
  all ready threads of that priority; otherwise it changes nothing.  In both cases the invariant is kept.\<close>

theorem thread_yield:
  assumes k: "kinv s L D W" and st: "stable s" and run: "k_state s = osRtxKernelRunning" "run_curr s = r" "r \<noteq> NULL"
  shows "\<exists>s' L'. svcRtxThreadYield s = Some (osOK, s') \<and> kinv s' L' D W \<and>
    (case L (ready_obj s) of
       [] \<Rightarrow> s' = s
     | c # ts \<Rightarrow> if t_priority s c = t_priority s r
         then run_next s' = c \<and> L' (ready_obj s) = takeWhile (\<lambda>x. t_priority s x \<ge> t_priority s r) ts @ r #
                dropWhile (\<lambda>x. t_priority s x \<ge> t_priority s r) ts \<and> o_state s' r = osRtxThreadReady
         else s' = s)"
proof -
  note KS = kstD [OF kinvD(1) [OF k]]
  have hd: "thread_next s (ready_obj s) = hd0 (L (ready_obj s))" by (rule tl_inv_head [OF KS(1) ready_in_objs])
  show ?thesis
  proof (cases "L (ready_obj s) \<noteq> [] \<and> t_priority s (hd (L (ready_obj s))) = t_priority s r")
    case False
    then have "svcRtxThreadYield s = Some (osOK, s)"
      using run hd by (cases "L (ready_obj s)") (auto simp: svcRtxThreadYield_def Let_def)
    then show ?thesis using False k by (intro exI [of _ s] exI [of _ L]) (auto split: list.split)
  next
    case True
    then obtain c ts where L: "L (ready_obj s) = c # ts" and p: "t_priority s c = t_priority s r"
      by (cases "L (ready_obj s)") auto
    obtain s' where s': "do { s \<leftarrow> osRtxThreadListRemove c s; s \<leftarrow> osRtxThreadReadyPut r s; osRtxThreadSwitch c s } = Some s'"
      "run_next s' = c" "o_state s' = (o_state s)(r := osRtxThreadReady, c := osRtxThreadRunning)"
      "kinv s' (L(ready_obj s := prio_put (t_priority s) r ts)) D W"
      using rotate_kinv [OF k _ run(3) _ L] st run(2) kinv_run [OF k st] by (auto simp: stable_def)
    have cn: "c \<noteq> NULL" using tl_invD(11) [OF KS(1), of "ready_obj s"] L by auto
    have cr: "c \<noteq> r" using part_okD(6) [OF KS(2)] st run L by (auto simp: stable_def)
    have "svcRtxThreadYield s = Some (osOK, s')"
      using run hd L p cn s'(1) by (simp add: svcRtxThreadYield_def Let_def bind_eq_Some_conv)
    then show ?thesis using s' L p cr
      by (intro exI [of _ s'] exI [of _ "L(ready_obj s := prio_put (t_priority s) r ts)"])
        (simp add: prio_put_def ins_after_def)
  qed
qed

theorem thread_yield_witness:
  "\<exists>s'. svcRtxThreadYield demo_rr = Some (osOK, s') \<and> run_next s' = 0x200"
proof -
  have "stable demo_rr" by (simp add: stable_def demo_rr_simps)
  from thread_yield [OF demo_rr_kinv this, of "0x100"] show ?thesis by (auto simp: demo_rr_simps)
qed

section \<open>The tick\<close>

text \<open>The round-robin part of the tick, on its own.\<close>

definition robin_step :: "rtx \<Rightarrow> rtx option" where
  "robin_step s =
     (if robin_timeout s \<noteq> 0 then
        (if robin_thread s \<noteq> run_next s
         then Some (s\<lparr>robin_thread := run_next s, robin_tick := robin_timeout s\<rparr>)
         else do {
           let s = (if robin_tick s \<noteq> 0 then s\<lparr>robin_tick := robin_tick s - 1\<rparr> else s);
           if robin_tick s = 0 \<and> k_state s = osRtxKernelRunning then
             (let thread = thread_next s (ready_obj s) in
              if thread \<noteq> NULL \<and> t_priority s thread = t_priority s (robin_thread s) then do {
                s \<leftarrow> osRtxThreadListRemove thread s;
                s \<leftarrow> osRtxThreadReadyPut (robin_thread s) s;
                s \<leftarrow> osRtxThreadSwitch thread s;
                Some (s\<lparr>robin_thread := thread, robin_tick := robin_timeout s\<rparr>)
              } else Some s)
           else Some s
         })
      else Some s)"

lemma tick_handler_parts:
  "osRtxTick_Handler s =
     do {
       let s = s\<lparr>k_tick := k_tick s + 1\<rparr>;
       s \<leftarrow> (if timer_tick_on s then osRtxTimerTick s else Some s);
       s \<leftarrow> osRtxThreadDelayTick s;
       s \<leftarrow> osRtxThreadDispatch NULL s;
       robin_step s
     }"
  unfolding osRtxTick_Handler_def robin_step_def ..

lemma core_eq_robin: "core_eq s (s\<lparr>robin_thread := a, robin_tick := b\<rparr>)"
  by (simp add: core_eq_def)

lemma ListRemove_robin: "osRtxThreadListRemove t s = Some s' \<Longrightarrow> robin_thread s' = robin_thread s"
  by (auto simp: osRtxThreadListRemove_def deref_def Let_def split: if_splits)

lemma robin_step_kinv:
  assumes k: "kinv s L D W" and p: "prio_ok s L" and rn: "run_next s \<noteq> NULL" and rc: "run_curr s = NULL \<or> run_curr s \<in> thrs s"
  shows "\<exists>s' L'. robin_step s = Some s' \<and> kinv s' L' D W \<and> prio_ok s' L' \<and> k_tick s' = k_tick s \<and> delays s' D = delays s D \<and>
    (robin_timeout s \<noteq> 0 \<and> robin_thread s = run_next s \<and> robin_tick s \<in> {0, 1} \<and> k_state s = osRtxKernelRunning \<longrightarrow>
      (case L (ready_obj s) of
         [] \<Rightarrow> run_next s' = run_next s
       | c # ts \<Rightarrow> if t_priority s c = t_priority s (run_next s)
           then run_next s' = c \<and> robin_thread s' = c \<and> robin_tick s' = robin_timeout s \<and>
             L' (ready_obj s) = prio_put (t_priority s) (run_next s) ts
           else run_next s' = run_next s)) \<and>
    (robin_timeout s \<noteq> 0 \<and> robin_thread s = run_next s \<and> robin_tick s \<notin> {0, 1} \<longrightarrow>
      run_next s' = run_next s \<and> L' = L \<and> robin_thread s' = run_next s \<and> robin_tick s' = robin_tick s - 1)"
proof -
  note KS = kstD [OF kinvD(1) [OF k]]
  define s1 where "s1 = s\<lparr>robin_thread := robin_thread s, robin_tick := (if robin_tick s \<noteq> 0 then robin_tick s - 1 else robin_tick s)\<rparr>"
  have s1: "s1 = (if robin_tick s \<noteq> 0 then s\<lparr>robin_tick := robin_tick s - 1\<rparr> else s)" by (simp add: s1_def)
  have c1: "core_eq s s1" unfolding s1_def by (rule core_eq_robin)
  have k1: "kinv s1 L D W" using core_eqD(1) [OF c1] k by simp
  have d1: "delays s1 D = delays s D" by (simp add: delays_def s1_def)
  have hd: "thread_next s (ready_obj s) = hd0 (L (ready_obj s))" by (rule tl_inv_head [OF KS(1) ready_in_objs])
  have rt: "robin_tick s1 = 0 \<longleftrightarrow> robin_tick s \<in> {0, 1}" by (auto simp: s1_def)
  have f1: "robin_thread s1 = robin_thread s" "run_next s1 = run_next s" "run_curr s1 = run_curr s" "thread_next s1 = thread_next s"
    "t_priority s1 = t_priority s" "ready_obj s1 = ready_obj s" "k_state s1 = k_state s" "robin_timeout s1 = robin_timeout s"
    "k_tick s1 = k_tick s" "thrs s1 = thrs s" by (simp_all add: s1_def thrs_def)
  consider (off) "robin_timeout s = 0" | (new) "robin_timeout s \<noteq> 0" "robin_thread s \<noteq> run_next s"
    | (rotate) c ts where "robin_timeout s \<noteq> 0" "robin_thread s = run_next s" "robin_tick s \<in> {0, 1}" "k_state s = osRtxKernelRunning"
        "L (ready_obj s) = c # ts" "t_priority s c = t_priority s (run_next s)"
    | (stay) "robin_timeout s \<noteq> 0" "robin_thread s = run_next s" "\<not> (robin_tick s \<in> {0, 1} \<and> k_state s = osRtxKernelRunning \<and>
        L (ready_obj s) \<noteq> [] \<and> t_priority s (hd (L (ready_obj s))) = t_priority s (run_next s))"
    by (cases "L (ready_obj s)") auto
  then show ?thesis
  proof cases
    case off
    then show ?thesis using k p by (intro exI [of _ s] exI [of _ L]) (simp add: robin_step_def)
  next
    case new
    let ?s = "s\<lparr>robin_thread := run_next s, robin_tick := robin_timeout s\<rparr>"
    have "kinv ?s L D W" using core_eqD(1) [OF core_eq_robin] k by simp
    then show ?thesis using new p
      by (intro exI [of _ ?s] exI [of _ L]) (simp add: robin_step_def prio_ok_def delays_def)
  next
    case stay
    have "robin_step s = Some s1"
      using stay hd rt f1 s1 by (cases "L (ready_obj s)") (auto simp: robin_step_def Let_def)
    moreover have "robin_tick s \<notin> {0, 1} \<Longrightarrow> robin_tick s1 = robin_tick s - 1" by (simp add: s1_def)
    ultimately show ?thesis using stay k1 p d1 f1
      by (intro exI [of _ s1] exI [of _ L]) (auto simp: prio_ok_def split: list.split)
  next
    case rotate
    have L1: "L (ready_obj s1) = c # ts" using rotate f1 by simp
    define r where "r = run_next s"
    have rr: "r = run_next s1" "r \<noteq> NULL" "run_curr s1 = NULL \<or> run_curr s1 \<in> thrs s1"
      using f1 rn rc by (simp_all add: r_def)
    obtain s2 where s2: "do { s \<leftarrow> osRtxThreadListRemove c s1; s \<leftarrow> osRtxThreadReadyPut r s; osRtxThreadSwitch c s } = Some s2"
      "rl_frame s1 s2" "run_next s2 = c" "kinv s2 (L(ready_obj s1 := prio_put (t_priority s1) r ts)) D W"
      using rotate_kinv [OF k1 rr L1] by blast
    note F2 = rl_frameD [OF s2(2)] sched_frameD [OF rl_frame_sched [OF s2(2)]]
    let ?s' = "s2\<lparr>robin_thread := c, robin_tick := robin_timeout s2\<rparr>"
    let ?L = "L(ready_obj s := prio_put (t_priority s) (run_next s) ts)"
    have cn: "c \<noteq> NULL" using tl_invD(11) [OF KS(1), of "ready_obj s"] rotate by auto
    obtain y z where y: "osRtxThreadListRemove c s1 = Some y" "osRtxThreadReadyPut r y = Some z" "osRtxThreadSwitch c z = Some s2"
      using s2(1) by (auto simp: bind_eq_Some_conv)
    have "robin_step s = do { s \<leftarrow> osRtxThreadListRemove c s1; s \<leftarrow> osRtxThreadReadyPut (robin_thread s) s;
        s \<leftarrow> osRtxThreadSwitch c s; Some (s\<lparr>robin_thread := c, robin_tick := robin_timeout s\<rparr>) }"
      using rotate(1,2,4-6) hd f1 rt rotate(3) cn unfolding robin_step_def s1 [symmetric] by (simp add: Let_def)
    moreover have "robin_thread y = r" using ListRemove_robin [OF y(1)] f1 rotate(2) by (simp add: r_def)
    ultimately have "robin_step s = Some ?s'" using y by simp
    moreover have "kinv ?s' ?L D W" using core_eqD(1) [OF core_eq_robin] s2(4) f1 by (simp add: r_def)
    moreover have "prio_ok ?s' ?L"
      using KS(3) [of "ready_obj s"] rotate s2(3) F2 f1 by (auto simp: prio_ok_def prio_sorted_Cons)
    moreover have "delays ?s' D = delays s D" using d1 rl_frame_dl(2) [OF s2(2)] by (simp add: delays_def)
    ultimately show ?thesis using rotate s2(3) F2 f1
      by (intro exI [of _ ?s'] exI [of _ ?L]) simp
  qed
qed

lemma core_eq_tick: "core_eq s (s\<lparr>k_tick := a\<rparr>)"
  by (simp add: core_eq_def)

lemma prio_rl:
  assumes "prio_ok s L" "rl_frame s s'" "run_next s' = run_next s" "set (L (ready_obj s)) = set (L' (ready_obj s))"
  shows "prio_ok s' L'"
  using assms rl_frameD [OF assms(2)] by (simp add: prio_ok_def)

text \<open>The part of the tick up to the round robin.\<close>

lemma tick_front:
  assumes k: "kinv s L D W" and st: "stable s" and run: "k_state s = osRtxKernelRunning" "run_curr s \<noteq> NULL"
    and off: "\<not> timer_tick_on s"
  shows "\<exists>s1 L1 D1. osRtxTick_Handler s = robin_step s1 \<and> kinv s1 L1 D1 W \<and> prio_ok s1 L1 \<and> run_next s1 \<noteq> NULL \<and>
    sched_frame (s\<lparr>k_tick := k_tick s + 1\<rparr>) s1 \<and> run_curr s1 \<in> thrs s1 \<and> delays s1 D1 = tick_delays (delays s D) \<and>
    redisp s (fold (wake s) (tick_woken (delays s D)) L) = (L1, run_next s1)"
proof -
  let ?s = "s\<lparr>k_tick := k_tick s + 1\<rparr>"
  have k0: "kinv ?s L D W" using core_eqD(1) [OF core_eq_tick] k by simp
  obtain sa Da where sa: "osRtxThreadDelayTick ?s = Some sa" "sched_frame ?s sa" "run_next sa = run_next s"
    "kinv sa (fold (wake ?s) (tick_woken (delays ?s D)) L) Da W" "delays sa Da = tick_delays (delays ?s D)"
    using osRtxThreadDelayTick_kinv [OF k0] by auto
  note FA = sched_frameD [OF sa(2), simplified]
  have sta: "stable sa" using st sa(3) FA by (simp add: stable_def)
  obtain s1 L1 where s1: "osRtxThreadDispatch NULL sa = Some s1" "rl_frame sa s1"
    "redisp sa (fold (wake ?s) (tick_woken (delays ?s D)) L) = (L1, run_next s1)" "kinv s1 L1 Da W" "prio_ok s1 L1"
    using dispatch_null_kinv [OF sa(4) sta] FA run(1) by auto
  have w: "wake ?s = wake s" "delays ?s D = delays s D" by (simp_all add: wake_def ready_put_def fun_eq_iff delays_def)
  have rd: "redisp sa X = redisp s X" for X
  proof -
    have "preempts sa = preempts s" "ready_push sa = ready_push s"
      by (simp_all add: preempts_def ready_push_def fun_eq_iff FA)
    then show ?thesis by (cases "X (ready_obj s)") (simp_all add: redisp_def FA sa(3))
  qed
  have rt: "run_curr sa \<in> thrs sa" using kinv_run [OF sa(4) sta] FA run(2) by simp
  have "run_next s1 \<noteq> NULL"
  proof -
    have "run_next s \<noteq> NULL" using st run(2) by (simp add: stable_def)
    moreover have "NULL \<notin> set (fold (wake s) (tick_woken (delays s D)) L (ready_obj s))"
      using tl_invD(11) [OF kstD(1) [OF kinvD(1) [OF sa(4)]], of "ready_obj s"] w by simp
    ultimately show ?thesis using s1(3) sa(3) FA w by (auto simp: redisp_def split: list.splits if_splits)
  qed
  moreover have "sched_frame ?s s1" by (rule sched_frame_trans [OF sa(2) rl_frame_sched [OF s1(2)]])
  moreover have "osRtxTick_Handler s = robin_step s1"
    using off sa(1) s1(1) unfolding tick_handler_parts by (simp add: Let_def)
  moreover have "run_curr s1 \<in> thrs s1" using rt rl_frameD [OF s1(2)] by simp
  moreover have "delays s1 Da = tick_delays (delays s D)" using sa(5) w rl_frame_dl(2) [OF s1(2)] by simp
  ultimately show ?thesis using s1 rd w by (intro exI [of _ s1] exI [of _ L1] exI [of _ Da]) simp
qed



text \<open>Round robin.  When the time slice of the running thread ends and the first ready thread has its priority, the tick
  switches to it, puts the old thread behind the others of the priority, and starts a new slice; before the end of the slice
  the tick only counts it down.\<close>

theorem round_robin:
  assumes k: "kinv s L D W" and st: "stable s" and run: "k_state s = osRtxKernelRunning" "run_curr s \<noteq> NULL"
    and off: "\<not> timer_tick_on s" and p: "prio_ok s L" and w: "tick_woken (delays s D) = []"
    and rr: "robin_timeout s \<noteq> 0" "robin_thread s = run_curr s" "robin_tick s \<noteq> 0"
    and L: "L (ready_obj s) = c # ts" "t_priority s c = t_priority s (run_curr s)"
  shows "\<exists>s' L' D'. osRtxTick_Handler s = Some s' \<and> kinv s' L' D' W \<and>
    (if robin_tick s = 1
     then run_next s' = c \<and> robin_thread s' = c \<and> robin_tick s' = robin_timeout s \<and>
       L' (ready_obj s) = prio_put (t_priority s) (run_curr s) ts
     else run_next s' = run_curr s \<and> L' = L \<and> robin_thread s' = run_curr s \<and> robin_tick s' = robin_tick s - 1)"
proof -
  have rn: "run_curr s = run_next s" using st by (simp add: stable_def)
  obtain s1 L1 D1 where s1: "osRtxTick_Handler s = robin_step s1" "kinv s1 L1 D1 W" "prio_ok s1 L1" "run_next s1 \<noteq> NULL"
    "sched_frame (s\<lparr>k_tick := k_tick s + 1\<rparr>) s1" "run_curr s1 \<in> thrs s1" "redisp s L = (L1, run_next s1)"
    using tick_front [OF k st run off] w by auto
  note F = sched_frameD [OF s1(5), simplified]
  have e: "L1 = L" "run_next s1 = run_curr s"
    using s1(7) L rn by (simp_all add: redisp_def preempts_def)
  obtain s' L' where s': "robin_step s1 = Some s'" "kinv s' L' D1 W"
    "robin_timeout s \<noteq> 0 \<and> robin_thread s = run_curr s \<and> robin_tick s \<in> {0, 1} \<and> k_state s = osRtxKernelRunning \<longrightarrow>
      (case L (ready_obj s) of
         [] \<Rightarrow> run_next s' = run_curr s
       | c # ts \<Rightarrow> if t_priority s c = t_priority s (run_curr s)
           then run_next s' = c \<and> robin_thread s' = c \<and> robin_tick s' = robin_timeout s \<and>
             L' (ready_obj s) = prio_put (t_priority s) (run_curr s) ts
           else run_next s' = run_curr s)"
    "robin_timeout s \<noteq> 0 \<and> robin_thread s = run_curr s \<and> robin_tick s \<notin> {0, 1} \<longrightarrow>
      run_next s' = run_curr s \<and> L' = L \<and> robin_thread s' = run_curr s \<and> robin_tick s' = robin_tick s - 1"
    using robin_step_kinv [OF s1(2,3,4) disjI2 [OF s1(6)]] unfolding F e by blast
  then show ?thesis using s1(1) rr L run(1) by (intro exI [of _ s'] exI [of _ L'] exI [of _ D1]) auto
qed

theorem round_robin_witness:
  "\<exists>s'. osRtxTick_Handler (demo_rr\<lparr>robin_tick := 1\<rparr>) = Some s' \<and> run_next s' = 0x200 \<and> robin_tick s' = 5"
proof -
  have "kinv (demo_rr\<lparr>robin_tick := 1\<rparr>) demo_lists [0x300] []"
    using core_eqD(1) [of demo_rr "demo_rr\<lparr>robin_tick := 1\<rparr>"] demo_rr_kinv by (simp add: core_eq_def)
  from round_robin [OF this, of "0x200" "[]"] show ?thesis
    by (auto simp: demo_rr_simps prio_ok_def tick_woken_def delays_def stable_def)
qed

end
