(* ===== verification/ThreadLife.thy ===== *)
theory ThreadLife
  imports ThreadSpec
begin

text \<open>
  The life of a thread: setting its priority, suspending and resuming it, creating it and ending it.
  The lemmas say how a thread that an operation has in its hands (the set \<open>C\<close> of \<open>kst\<close>) is taken from a
  list, parked in the wait list, or dropped from the live threads.
\<close>

section \<open>A thread in the hands of an operation\<close>

lemma tl_inv_links:
  assumes "tl_inv nx pv obs T L" "t \<notin> obs" "\<And>a. t \<notin> set (L a)" "t \<in> T \<Longrightarrow> q = NULL"
  shows "tl_inv (nx(t := p)) (pv(t := q)) obs T L"
proof (rule tl_invI)
  note D = tl_invD [OF assms(1)]
  show "L ob = []" if "ob \<notin> obs" for ob using assms(1) that unfolding tl_inv_def by blast
  show "NULL \<notin> obs" "NULL \<notin> T" "obs \<inter> T = {}" using assms(1) unfolding tl_inv_def by blast+
  show "chain (nx(t := p)) (pv(t := q)) ob (L ob)" if "ob \<in> obs" for ob
  proof -
    have "t \<noteq> ob" using that assms(2) by blast
    then show ?thesis using D(1) [OF that] assms(3) by simp
  qed
  show "distinct (L ob)" "set (L ob) \<subseteq> T" for ob by (rule D(2), rule D(3))
  show "a = b" if "u \<in> set (L a)" "u \<in> set (L b)" for a b u using D(4) that .
  show "(pv(t := q)) u = NULL" if "u \<in> T" "\<And>ob. u \<notin> set (L ob)" for u using D(7) [OF that] assms(4) that by auto
qed

lemma part_ok_to_blocked:
  assumes p: "part_ok s L B C" and c: "c \<in> C" "\<And>a. c \<notin> set (L a)"
    and s': "o_state s' = (o_state s)(c := st)" "thrs s' = thrs s" "run_next s' = run_next s" "ready_obj s' = ready_obj s"
    and st: "is_blocked st" and R: "set (L (ready_obj s)) \<subseteq> thrs s"
  shows "part_ok s' L (insert c B) (C - {c})"
proof (rule part_okI, unfold s')
  note P = part_okD [OF p]
  show "t \<in> thrs s \<and> t \<notin> C - {c} \<and> is_blocked (((o_state s)(c := st)) t)" if "t \<in> insert c B" for t
    using P(1,2,3,8) [of t] that c st by auto
  show "t \<in> thrs s" if "t \<in> C - {c}" for t using P(2) that by blast
  show "t \<notin> insert c B \<and> t \<notin> C - {c} \<and> ((o_state s)(c := st)) t = osRtxThreadReady"
    if "t \<in> set (L (ready_obj s))" for t
    using P(4,7) [of t] that c R by auto
  show "t \<in> insert c B \<or> t \<in> C - {c}" if "ob \<noteq> ready_obj s" "t \<in> set (L ob)" for ob t
    using P(5) [of ob t] that by auto
  show "run_next s \<in> thrs s \<and> run_next s \<notin> insert c B \<and> run_next s \<notin> C - {c} \<and> run_next s \<notin> set (L (ready_obj s))"
    if "run_next s \<noteq> NULL" using P(6) that c by auto
  show "t = run_next s \<and> ((o_state s)(c := st)) t = osRtxThreadRunning"
    if "t \<in> thrs s" "t \<notin> C - {c}" "t \<notin> insert c B" "t \<notin> set (L (ready_obj s))" for t
    using P(9) [of t] that by auto
qed

text \<open>Parking: the thread becomes blocked, its links are cleared, and it waits forever.\<close>

definition park :: "addr \<Rightarrow> rtx \<Rightarrow> rtx option" where
  "park thread s =
     do {
       let s = s\<lparr>o_state := (o_state s)(thread := osRtxThreadBlocked)\<rparr>;
       let s = s\<lparr>thread_prev := (thread_prev s)(thread := NULL), thread_next := (thread_next s)(thread := NULL)\<rparr>;
       osRtxThreadDelayInsert thread osWaitForever s
     }"

lemma park_kinv:
  assumes k: "kst s L (set D \<union> set W) {t}" and dl: "dl_inv s D W" and t: "\<And>a. t \<notin> set (L a)"
  shows "\<exists>s'. park t s = Some s' \<and> kinv s' L D (W @ [t]) \<and> run_next s' = run_next s \<and> run_curr s' = run_curr s \<and>
    o_state s' = (o_state s)(t := osRtxThreadBlocked) \<and> t_priority s' = t_priority s \<and> k_state s' = k_state s \<and>
    ready_obj s' = ready_obj s \<and> delays s' D = delays s D \<and> thrs s' = thrs s"
proof -
  note K = kstD [OF k]
  have tt: "t \<in> thrs s" using part_okD(2) [OF K(2)] by blast
  have tn: "t \<noteq> NULL" "t \<notin> objs s" using in_thrs [OF tt] objs_thrs_disjoint [OF k] tt by auto
  have tD: "t \<notin> set D" "t \<notin> set W" using part_okD(3) [OF K(2), of t] by auto
  let ?s1 = "s\<lparr>o_state := (o_state s)(t := osRtxThreadBlocked), thread_prev := (thread_prev s)(t := NULL),
     thread_next := (thread_next s)(t := NULL)\<rparr>"
  have b: "is_blocked osRtxThreadBlocked" by (simp add: is_blocked_def)
  have th: "thrs ?s1 = thrs s" by (rule thrs_upd [where c = t and st = osRtxThreadBlocked]) (simp_all add: tt)
  have ob: "objs ?s1 = objs s" by (rule objs_cong) simp_all
  have "part_ok ?s1 L (insert t (set D \<union> set W)) ({t} - {t})"
    by (rule part_ok_to_blocked [OF K(2) _ t _ _ _ _ b kst_list_sub [OF k]]) (simp_all add: th)
  moreover have "tl_inv (thread_next ?s1) (thread_prev ?s1) (objs s) (thrs s) L"
    using tl_inv_links [OF K(1) tn(2) t] by simp
  moreover have "stacks_ok ?s1" using K(4) stacks_ok_cong [of ?s1 s] th by simp
  ultimately have k1: "kst ?s1 L (insert t (set D \<union> set W)) {}" using K(3,5) unfolding kst_def ob th by simp
  have dl1: "dl_inv ?s1 D W" "delays ?s1 D = delays s D" using dl by (simp_all add: dl_inv_def delays_def)
  obtain s' where s': "osRtxThreadDelayInsert t osWaitForever ?s1 = Some s'" "dl_same ?s1 s'" "dl_inv s' D (W @ [t])"
    "delays s' D = delays ?s1 D"
    using osRtxThreadDelayInsert_forever [OF dl1(1) tn(1) tD] by blast
  have "kst s' L (set D \<union> set (W @ [t])) {}" using k1 kst_dl [OF s'(2)] by simp
  moreover have "thrs s' = thrs s" using th dl_sameD [OF s'(2)] by (simp add: thrs_def)
  ultimately show ?thesis using s' dl1 dl_sameD [OF s'(2)] by (simp add: park_def kinv_def)
qed

text \<open>Switching away from the running thread leaves it in the hands of the operation.\<close>

lemma part_ok_leave:
  assumes p: "part_ok s L B {}" and r: "r = run_next s" "r \<noteq> NULL" and c: "c \<in> set (L (ready_obj s))"
    and d: "set (L' (ready_obj s)) = set (L (ready_obj s)) - {c}" "\<And>ob. ob \<noteq> ready_obj s \<Longrightarrow> L' ob = L ob"
    and R: "set (L (ready_obj s)) \<subseteq> thrs s"
    and s': "o_state s' = (o_state s)(c := osRtxThreadRunning)" "thrs s' = thrs s" "run_next s' = c" "ready_obj s' = ready_obj s"
  shows "part_ok s' L' B {r}"
proof (rule part_okI, unfold s' d(1))
  note P = part_okD [OF p]
  have r': "r \<in> thrs s" "r \<notin> B" "r \<notin> set (L (ready_obj s))" using P(6) r by auto
  have c': "c \<noteq> r" "c \<in> thrs s" "c \<notin> B" using r' c P(4) [OF c] R by auto
  show "t \<in> thrs s \<and> t \<notin> {r} \<and> is_blocked (((o_state s)(c := osRtxThreadRunning)) t)" if "t \<in> B" for t
    using P(1,8) [of t] that r' c' by auto
  show "t \<in> thrs s" if "t \<in> {r}" for t using r' that by simp
  show "t \<notin> B \<and> t \<notin> {r} \<and> ((o_state s)(c := osRtxThreadRunning)) t = osRtxThreadReady"
    if "t \<in> set (L (ready_obj s)) - {c}" for t using P(4,7) [of t] that r' R by auto
  show "t \<in> B \<or> t \<in> {r}" if "ob \<noteq> ready_obj s" "t \<in> set (L' ob)" for ob t
    using P(5) [of ob t] that d(2) by auto
  show "c \<in> thrs s \<and> c \<notin> B \<and> c \<notin> {r} \<and> c \<notin> set (L (ready_obj s)) - {c}" using c' by auto
  show "t = c \<and> ((o_state s)(c := osRtxThreadRunning)) t = osRtxThreadRunning"
    if "t \<in> thrs s" "t \<notin> {r}" "t \<notin> B" "t \<notin> set (L (ready_obj s)) - {c}" for t
    using P(9) [of t] that r by auto
qed

lemma switch_away:
  assumes k: "kst s L B {}" and r: "r = run_next s" "r \<noteq> NULL" and rc: "run_curr s = NULL \<or> run_curr s \<in> thrs s"
    and L: "L (ready_obj s) = c # ts"
  shows "\<exists>s'. do { (next, s) \<leftarrow> osRtxThreadListGet (ready_obj s) s; osRtxThreadSwitch next s } = Some s' \<and> rl_frame s s' \<and>
    run_next s' = c \<and> o_state s' = (o_state s)(c := osRtxThreadRunning) \<and> kst s' (L(ready_obj s := ts)) B {r} \<and> c \<noteq> r \<and>
    (\<forall>a. r \<notin> set ((L(ready_obj s := ts)) a))"
proof -
  note K = kstD [OF k]
  have ct: "c \<in> thrs s" using kst_list_sub [OF k, of "ready_obj s"] L by simp
  have rl: "r \<notin> set (L a)" for a using running_in_no_list [OF k] r by simp
  obtain nx pv where get: "osRtxThreadListGet (ready_obj s) s = Some (c, s\<lparr>thread_next := nx, thread_prev := pv\<rparr>)"
    and same: "tl_same (objs s) (thrs s) s nx pv" and inv: "tl_inv nx pv (objs s) (thrs s) (L(ready_obj s := ts))"
    using osRtxThreadListGet_Cons [OF K(1) ready_in_objs L] by blast
  define s' where "s' = s\<lparr>o_state := (o_state s)(c := osRtxThreadRunning), thread_next := nx, thread_prev := pv, run_next := c\<rparr>"
  have th: "thrs s' = thrs s" by (rule thrs_upd [where c = c and st = osRtxThreadRunning]) (simp_all add: ct s'_def)
  have ob: "objs s' = objs s" by (rule objs_cong) (simp_all add: s'_def)
  have stk: "stacks_ok s'" using K(4) stacks_ok_cong [of s' s] th by (simp add: s'_def)
  then have chk: "osRtxThreadStackCheck s' = Some s'"
    by (rule osRtxThreadStackCheck_ok) (unfold th, use rc in \<open>simp add: s'_def\<close>)
  have op: "do { (next, s) \<leftarrow> osRtxThreadListGet (ready_obj s) s; osRtxThreadSwitch next s } = Some s'"
    using get in_thrs [OF ct] chk by (simp add: osRtxThreadSwitch_def s'_def) (simp add: record_order)
  have "part_ok s' (L(ready_obj s := ts)) B {r}"
    by (rule part_ok_leave [OF K(2) r, where c = c])
      (use L tl_invD(2) [OF K(1), of "ready_obj s"] kst_list_sub [OF k, of "ready_obj s"] th in \<open>auto simp: s'_def\<close>)
  moreover have "prio_sorted (t_priority s) ((L(ready_obj s := ts)) ob)" for ob
    using K(3) [of ob] K(3) [of "ready_obj s"] L by (simp add: prio_sorted_Cons)
  ultimately have "kst s' (L(ready_obj s := ts)) B {r}" using inv K(5) stk unfolding kst_def ob th by (simp add: s'_def)
  moreover have "rl_frame s s'" by (rule rl_frameI [OF s'_def same]) (use th ct in auto)
  moreover have "r \<notin> set ((L(ready_obj s := ts)) a)" for a using rl [of a] rl [of "ready_obj s"] L by auto
  ultimately show ?thesis using op rl [of "ready_obj s"] L by (auto simp: s'_def)
qed

lemma not_running:
  assumes "kinv s L D W" "t \<in> thrs s" "t \<noteq> run_next s"
  shows "o_state s t \<noteq> osRtxThreadRunning"
proof -
  note P = part_okD [OF kstD(2) [OF kinvD(1) [OF assms(1)]]]
  consider "t \<in> set (L (ready_obj s))" | "t \<in> set D \<union> set W" using P(9) [of t] assms(2,3) by blast
  then show ?thesis
  proof cases
    case 1
    then show ?thesis using P(7) [of t] assms(2) by simp
  next
    case 2
    then show ?thesis using P(8) [of t] by (auto simp: is_blocked_def)
  qed
qed

lemma fst_in_delays: "(x, n) \<in> set (delays s D) \<Longrightarrow> x \<in> set D"
  by (metis delays_def fst_conv image_eqI list.set_map map_fst_delta_abs)

text \<open>Taking a thread that does not run out of its lists.\<close>

lemma take_off_kinv:
  assumes k: "kinv s L D W" and t: "t \<in> thrs s" "t \<noteq> run_next s"
  shows "\<exists>s'. thread_take_off t s = Some (osOK, s') \<and> sched_frame s s' \<and> run_next s' = run_next s \<and> o_state s' = o_state s \<and>
    kst s' (unlist t L) (set (remove1 t D) \<union> set (remove1 t W)) {t} \<and> dl_inv s' (remove1 t D) (remove1 t W) \<and>
    delays s' (remove1 t D) = filter (\<lambda>(x, n). x \<noteq> t) (delays s D) \<and> (\<forall>a. t \<notin> set (unlist t L a)) \<and> mem32 s' = mem32 s"
proof -
  note K = kinvD [OF k]
  note KS = kstD [OF K(1)]
  note P = part_okD [OF KS(2)]
  have nl: "t \<notin> set (unlist t L a)" for a using tl_invD(2) [OF KS(1), of a] by (simp add: unlist_def)
  show ?thesis
  proof (cases "t \<in> set D \<or> t \<in> set W")
    case False
    then have R: "t \<in> set (L (ready_obj s))" "o_state s t = osRtxThreadReady" using P(7,9) [of t] t by auto
    obtain nx pv where rm: "osRtxThreadListRemove t s = Some (s\<lparr>thread_next := nx, thread_prev := pv\<rparr>)"
      and same: "tl_same (objs s) (thrs s) s nx pv" and inv: "tl_inv nx pv (objs s) (thrs s) (unlist t L)"
      using osRtxThreadListRemove_unlist [OF KS(1) t(1)] by blast
    let ?s = "s\<lparr>thread_next := nx, thread_prev := pv\<rparr>"
    have th: "thrs ?s = thrs s" "objs ?s = objs s" by (simp_all add: thrs_def objs_def)
    have "part_ok s (unlist t L) (set D \<union> set W) (insert t {})"
    proof (rule part_ok_take_ready [OF KS(2) R(1)])
      show "set (unlist t L (ready_obj s)) = set (L (ready_obj s)) - {t}"
        using tl_invD(2) [OF KS(1), of "ready_obj s"] by (simp add: unlist_def)
      show "unlist t L ob = L ob" if "ob \<noteq> ready_obj s" for ob
        using tl_invD(4) [OF KS(1) R(1), of ob] that by (auto simp: unlist_def intro: remove1_idem)
    qed (rule kst_list_sub [OF K(1)])
    then have "part_ok ?s (unlist t L) (set D \<union> set W) {t}" using part_ok_cong [of ?s s] th by simp
    moreover have "prio_sorted (t_priority s) (unlist t L ob)" for ob using KS(3) by (simp add: unlist_def prio_sorted_remove1)
    moreover have "stacks_ok ?s" using KS(4) stacks_ok_cong [of ?s s] th by simp
    ultimately have "kst ?s (unlist t L) (set D \<union> set W) {t}" using inv KS(5) unfolding kst_def th by simp
    moreover have "rl_frame s ?s"
      by (rule rl_frameI [where st = "o_state s" and r = "run_next s" and nx = nx and pv = pv, OF _ same]) (simp_all add: th)
    moreover have "dl_inv ?s D W" "delays ?s D = delays s D" using K(2) by (simp_all add: dl_inv_def delays_def)
    moreover have "filter (\<lambda>(x, n). x \<noteq> t) (delays s D) = delays s D"
      using False by (auto simp: filter_id_conv dest: fst_in_delays)
    moreover have "thread_take_off t s = Some (osOK, ?s)" using rm R(2) by (simp add: thread_take_off_def Let_def)
    ultimately show ?thesis using False nl rl_frame_sched by (intro exI [of _ ?s]) (simp add: remove1_idem)
  next
    case True
    obtain s1 where s1: "osRtxThreadListRemove t s = Some s1" "rl_frame s s1" "run_next s1 = run_next s"
      "kst s1 (unlist t L) (set D \<union> set W) {}" "o_state s1 = o_state s"
      using unlist_kst [OF K(1), of t] True by blast
    have dl1: "dl_inv s1 D W" "delays s1 D = delays s D" using K(2) rl_frame_dl [OF s1(2)] by simp_all
    obtain s2 where s2: "osRtxThreadDelayRemove t s1 = Some s2" "dl_same s1 s2" "dl_inv s2 (remove1 t D) (remove1 t W)"
      "delays s2 (remove1 t D) = filter (\<lambda>(x, n). x \<noteq> t) (delays s1 D)"
      using osRtxThreadDelayRemove_dl [OF dl1(1) True] by blast
    have k2: "kst s2 (unlist t L) (set D \<union> set W) {}" using s1(4) kst_dl [OF s2(2)] by simp
    have B: "set (remove1 t D) \<union> set (remove1 t W) = set D \<union> set W - {t}" using K(4,5) by auto
    have "part_ok s2 (unlist t L) (set (remove1 t D) \<union> set (remove1 t W)) (insert t {})"
      unfolding B using True by (intro part_ok_take_blocked [OF kstD(2) [OF k2]] kst_list_sub [OF k2]) blast
    then have k3: "kst s2 (unlist t L) (set (remove1 t D) \<union> set (remove1 t W)) {t}" using k2 unfolding kst_def by simp
    have b: "is_blocked (o_state s t)" using P(8) True by blast
    then have m: "o_state s t AND osRtxThreadStateMask = osRtxThreadBlocked" by (simp add: is_blocked_def)
    have "thread_take_off t s = Some (osOK, s2)" using s1(1) s2(1) unfolding thread_take_off_def Let_def m by simp
    moreover have "sched_frame s s2" by (rule sched_frame_trans [OF rl_frame_sched [OF s1(2)] sched_frame_dl [OF s2(2)]])
    ultimately show ?thesis using k3 s1 s2 dl1 nl dl_sameD [OF s2(2)] rl_frameD(6) [OF s1(2)] by (intro exI [of _ s2]) simp
  qed
qed

section \<open>The stack of a new thread\<close>

text \<open>\<open>a\<close> is one of the \<open>sz\<close> bytes from \<open>base\<close> on.\<close>

definition in_area :: "addr \<Rightarrow> addr \<Rightarrow> u32 \<Rightarrow> bool" where
  "in_area a base sz \<longleftrightarrow> a - base < sz"

lemma stack_fill_other: "(\<And>i. i < n \<Longrightarrow> a \<noteq> ptr + 4 + 4 * of_nat i) \<Longrightarrow> stack_fill n ptr m a = m a"
proof (induction n arbitrary: ptr m)
  case (Suc n)
  have "a \<noteq> ptr + 4" using Suc.prems [of 0] by simp
  moreover have "a \<noteq> ptr + 4 + 4 + 4 * of_nat i" if "i < n" for i
    using Suc.prems [of "Suc i"] that by (simp add: algebra_simps)
  ultimately show ?case using Suc.IH [of "ptr + 4"] by simp
qed simp

lemma frame_zero_other: "(\<And>i. i < n \<Longrightarrow> a \<noteq> ptr + 4 * of_nat i) \<Longrightarrow> frame_zero n ptr m a = m a"
  by (induction n) auto

text \<open>The words that are written lie in the stack, and only the first store hits its bottom.\<close>

lemma stack_offsets:
  assumes "64 + 8 \<le> (sz :: u32)"
  shows "i < unat (sz div 4 - (16 + 1)) \<Longrightarrow> 4 + 4 * of_nat i < sz \<and> 4 + 4 * of_nat i \<noteq> (0 :: u32)"
    and "i < 16 \<Longrightarrow> sz - 64 + 4 * of_nat i < sz \<and> sz - 64 + 4 * of_nat i \<noteq> 0"
proof -
  have s: "72 \<le> unat sz" "unat sz < 2 ^ 32" using assms unsigned_less [of sz, where ?'a = nat] by (simp_all add: word_le_nat_alt)
  show "4 + 4 * of_nat i < sz \<and> 4 + 4 * of_nat i \<noteq> (0 :: u32)" if i: "i < unat (sz div 4 - (16 + 1))"
  proof -
    have d: "unat (sz div 4) = unat sz div 4" by (simp add: unat_div)
    have "17 \<le> sz div 4" using d s by (simp add: word_le_nat_alt)
    then have "unat (sz div 4 - (16 + 1)) = unat sz div 4 - 17" using d unat_sub_le [of 17 "sz div 4"] by simp
    then have l: "4 + 4 * i < unat sz" using i s by linarith
    have "unat (4 + 4 * of_nat i :: u32) = 4 + 4 * i"
      using l s(2) by (simp add: unat_word_ariths unat_of_nat)
    then show ?thesis using l by (auto simp: word_less_nat_alt)
  qed
  show "sz - 64 + 4 * of_nat i < sz \<and> sz - 64 + 4 * of_nat i \<noteq> 0" if i: "i < 16"
  proof -
    have "unat (sz - 64) = unat sz - 64" using unat_sub_le [of 64 sz] s by (simp add: word_le_nat_alt)
    then have "unat (sz - 64 + 4 * of_nat i) = unat sz - 64 + 4 * i"
      using i s by (simp add: unat_word_ariths unat_of_nat)
    moreover have "unat sz - 64 + 4 * i < unat sz" "unat sz - 64 + 4 * i \<noteq> 0" using i s by linarith+
    ultimately show ?thesis by (auto simp: word_less_nat_alt)
  qed
qed

lemma stack_init_words:
  assumes sz: "64 + 8 \<le> sz" and sp: "sp = stack + sz - 64"
  shows "\<not> in_area a stack sz \<Longrightarrow> stack_init cfg func arg stack sz sp m a = m a"
    "stack_init cfg func arg stack sz sp m stack = osRtxStackMagicWord"
    "stack_init cfg func arg stack sz sp m (sp + 32) = arg"
    "stack_init cfg func arg stack sz sp m (sp + 52) = f_osThreadExit cfg"
    "stack_init cfg func arg stack sz sp m (sp + 56) = func"
proof -
  note O = stack_offsets [OF sz]
  have f: "sp + 4 * of_nat i = stack + (sz - 64 + 4 * of_nat i)" for i by (simp add: sp algebra_simps)
  have ne: "x \<noteq> sp + 4 * of_nat i" if "\<not> in_area x stack sz \<or> x = stack" "i < 16" for x i
    using that O(2) [OF that(2)] unfolding f by (auto simp: in_area_def)
  have ne2: "x \<noteq> stack + 4 + 4 * of_nat i" if "\<not> in_area x stack sz \<or> x = stack" "i < unat (sz div 4 - (16 + 1))" for x i
    using that O(1) [OF that(2)] by (auto simp: in_area_def add.assoc)
  have ns: "x \<noteq> sp + 4 * 13" "x \<noteq> sp + 4 * 14" "x \<noteq> sp + 4 * 15" "x \<noteq> sp + 4 * 8"
    if "\<not> in_area x stack sz \<or> x = stack" for x
    using ne [OF that, of 13] ne [OF that, of 14] ne [OF that, of 15] ne [OF that, of 8] by simp_all
  have z: "frame_zero 13 sp m' x = m' x" if "\<not> in_area x stack sz \<or> x = stack" for x m'
    by (rule frame_zero_other) (use ne [OF that] in auto)
  have w: "stack_fill (unat (sz div 4 - (16 + 1))) stack m' x = m' x" if "\<not> in_area x stack sz \<or> x = stack" for x m'
    by (rule stack_fill_other) (use ne2 [OF that] in auto)
  have sp0: "0 < sz" using sz by (auto simp: word_less_nat_alt word_le_nat_alt)
  show "stack_init cfg func arg stack sz sp m a = m a" if a: "\<not> in_area a stack sz"
  proof -
    have "a \<noteq> stack" using a sp0 by (auto simp: in_area_def)
    then show ?thesis using a ns [of a] z [of a] w [of a] by (simp add: stack_init_def Let_def)
  qed
  show "stack_init cfg func arg stack sz sp m stack = osRtxStackMagicWord"
    using ns [of stack] z [of stack] w [of stack] by (simp add: stack_init_def Let_def)
  show "stack_init cfg func arg stack sz sp m (sp + 32) = arg"
    "stack_init cfg func arg stack sz sp m (sp + 52) = f_osThreadExit cfg"
    "stack_init cfg func arg stack sz sp m (sp + 56) = func" by (simp_all add: stack_init_def Let_def)
qed

section \<open>A new thread joins the system\<close>

text \<open>The control block and the stack of a new thread are memory that no live thread, object or list uses.\<close>

definition fresh_thread :: "rtx \<Rightarrow> addr \<Rightarrow> addr \<Rightarrow> u32 \<Rightarrow> bool" where
  "fresh_thread s t stack sz \<longleftrightarrow> t \<noteq> NULL \<and> t \<notin> objs s \<and> t \<notin> thrs s \<and> 64 + 8 \<le> sz \<and> unat stack + unat sz \<le> 2 ^ 32 \<and>
     (\<forall>u\<in>thrs s. \<not> in_area (t_stack_mem s u) stack sz \<and> \<not> in_area (osRtxThreadRegPtr u s) stack sz)"

lemma thread_init_kinv:
  assumes k: "kinv s L D W" and fr: "fresh_thread s t stack sz"
    and s1: "s1 = thread_init cfg t func arg name attr_bits stack sz p flags s"
  shows "kst s1 L (set D \<union> set W) {t}" "dl_inv s1 D W" "delays s1 D = delays s D" "\<forall>a. t \<notin> set (L a)"
    "run_next s1 = run_next s" "run_curr s1 = run_curr s" "k_state s1 = k_state s" "ready_obj s1 = ready_obj s"
    "t_priority s1 = (t_priority s)(t := p)" "thrs s1 = insert t (thrs s)"
proof -
  note K = kinvD [OF k]
  note KS = kstD [OF K(1)]
  note F = fr [unfolded fresh_thread_def]
  let ?sp = "stack + sz - 64"
  note M = stack_init_words [OF _ refl, of sz, where cfg = cfg and func = func and arg = arg and m = "mem32 s" and stack = stack]
  have tl: "t \<notin> set (L a)" for a using kst_list_sub [OF K(1), of a] F by blast
  then show "\<forall>a. t \<notin> set (L a)" by blast
  have tDW: "t \<notin> set D" "t \<notin> set W" using K(6) F by blast+
  have e: "o_id s1 = (o_id s)(t := osRtxIdThread)" "o_state s1 = (o_state s)(t := osRtxThreadReady)"
    "thread_next s1 = (thread_next s)(t := NULL)" "thread_prev s1 = (thread_prev s)(t := NULL)"
    "delay_next s1 = (delay_next s)(t := NULL)" "delay_prev s1 = (delay_prev s)(t := NULL)" "t_delay s1 = (t_delay s)(t := 0)"
    "delay_list s1 = delay_list s" "wait_list s1 = wait_list s"
    "t_stack_mem s1 = (t_stack_mem s)(t := stack)" "t_sp s1 = (t_sp s)(t := ?sp)" "t_stack_frame s1 = (t_stack_frame s)(t := 0)"
    "mem32 s1 = stack_init cfg func arg stack sz ?sp (mem32 s)"
    by (simp_all add: s1 thread_init_def Let_def)
  show f: "run_next s1 = run_next s" "run_curr s1 = run_curr s" "k_state s1 = k_state s" "ready_obj s1 = ready_obj s"
    "t_priority s1 = (t_priority s)(t := p)" by (simp_all add: s1 thread_init_def Let_def)
  show th: "thrs s1 = insert t (thrs s)" using F by (auto simp: thrs_def e)
  have ob: "objs s1 = objs s" using F by (auto simp: objs_def e f has_thread_list_def)
  have "tl_inv (thread_next s1) (thread_prev s1) (objs s) (insert t (thrs s)) L"
  proof -
    have "tl_inv (thread_next s) ((thread_prev s)(t := NULL)) (objs s) (insert t (thrs s)) L"
    proof (rule tl_invI)
      note T = tl_invD [OF KS(1)]
      show "NULL \<notin> objs s" "NULL \<notin> insert t (thrs s)" "objs s \<inter> insert t (thrs s) = {}"
        using T(8,10) F in_thrs by auto
      show "chain (thread_next s) ((thread_prev s)(t := NULL)) o1 (L o1)" if "o1 \<in> objs s" for o1 using T(1) [OF that] tl by simp
      show "distinct (L o1)" "set (L o1) \<subseteq> insert t (thrs s)" for o1 using T(2,3) by blast+
      show "L o1 = []" if "o1 \<notin> objs s" for o1 using KS(1) that unfolding tl_inv_def by blast
      show "a = b" if "u \<in> set (L a)" "u \<in> set (L b)" for a b u using T(4) that .
      show "((thread_prev s)(t := NULL)) u = NULL" if "u \<in> insert t (thrs s)" "\<And>ob. u \<notin> set (L ob)" for u
        using T(7) [of u] that by auto
    qed
    from tl_inv_links [OF this, where t = t and p = NULL and q = NULL] show ?thesis using F tl by (simp add: e)
  qed
  moreover have "part_ok s1 L (set D \<union> set W) {t}"
  proof (rule part_okI, unfold th f)
    note P = part_okD [OF KS(2)]
    show "u \<in> insert t (thrs s) \<and> u \<notin> {t} \<and> is_blocked (o_state s1 u)" if "u \<in> set D \<union> set W" for u
      using P(1,8) [OF that] that tDW by (auto simp: e)
    show "u \<in> insert t (thrs s)" if "u \<in> {t}" for u using that by simp
    show "u \<notin> set D \<union> set W \<and> u \<notin> {t} \<and> o_state s1 u = osRtxThreadReady" if "u \<in> set (L (ready_obj s))" for u
      using P(4,7) [of u] that tl kst_list_sub [OF K(1), of "ready_obj s"] by (auto simp: e)
    show "u \<in> set D \<union> set W \<or> u \<in> {t}" if "o1 \<noteq> ready_obj s" "u \<in> set (L o1)" for o1 u using P(5) [OF that] by blast
    show "run_next s \<in> insert t (thrs s) \<and> run_next s \<notin> set D \<union> set W \<and> run_next s \<notin> {t} \<and> run_next s \<notin> set (L (ready_obj s))"
      if "run_next s \<noteq> NULL" using P(6) [OF that] F by auto
    show "u = run_next s \<and> o_state s1 u = osRtxThreadRunning"
      if "u \<in> insert t (thrs s)" "u \<notin> {t}" "u \<notin> set D \<union> set W" "u \<notin> set (L (ready_obj s))" for u
      using P(9) [of u] that by (auto simp: e)
  qed
  moreover have "prio_sorted (t_priority s1) (L o1)" for o1
  proof -
    have "prio_sorted (t_priority s1) (L o1) = prio_sorted (t_priority s) (L o1)"
      by (rule prio_sorted_cong) (use tl [of o1] f(5) in auto)
    then show ?thesis using KS(3) by simp
  qed
  moreover have "stacks_ok s1"
    unfolding stacks_ok_def th
  proof (intro ballI conjI)
    note S = KS(4) [unfolded stacks_ok_def]
    have st0: "in_area stack stack sz" using F by (auto simp: in_area_def word_le_nat_alt word_less_nat_alt)
    have rt: "osRtxThreadRegPtr t s1 = ?sp + 32" by (simp add: osRtxThreadRegPtr_def e StackOffsetR0_def)
    have rp: "?sp + 32 = stack + (sz - 64 + 4 * of_nat 8)" by simp
    have ra: "in_area (?sp + 32) stack sz" "?sp + 32 \<noteq> stack"
      using stack_offsets(2) [of sz 8] F unfolding rp in_area_def by auto
    have ru: "osRtxThreadRegPtr u s1 = osRtxThreadRegPtr u s" if "u \<in> thrs s" for u
      using that F by (auto simp: osRtxThreadRegPtr_def e)
    fix u assume u: "u \<in> insert t (thrs s)"
    show "t_stack_mem s1 u < t_sp s1 u"
    proof (cases "u = t")
      case True
      have "unat (sz - 64) = unat sz - 64" "72 \<le> unat sz" using F unat_sub_le [of 64 sz] by (simp_all add: word_le_nat_alt)
      moreover from this have "unat stack + unat (sz - 64) < 2 ^ 32" using F by linarith
      ultimately have "unat (stack + (sz - 64)) = unat stack + (unat sz - 64)" using unat_add_lt [of stack "sz - 64"] by simp
      then have "stack < stack + (sz - 64)" using \<open>72 \<le> unat sz\<close> by (simp add: word_less_nat_alt)
      then show ?thesis using True by (simp add: e algebra_simps)
    next
      case False
      then show ?thesis using S u by (simp add: e)
    qed
    show "mem32 s1 (t_stack_mem s1 u) = osRtxStackMagicWord"
      using M(1) [of "t_stack_mem s u"] M(2) S u F by (cases "u = t") (simp_all add: e)
    show "osRtxThreadRegPtr w s1 \<noteq> t_stack_mem s1 u" if w: "w \<in> insert t (thrs s)" for w
      using u w S F ru ra st0 rt by (cases "u = t"; cases "w = t") (auto simp: e)
  qed
  ultimately show "kst s1 L (set D \<union> set W) {t}"
    using KS(5) F unfolding kst_def th ob by (auto simp: e f)
  show "dl_inv s1 D W"
  proof -
    have "delta_sum (t_delay s1) D = delta_sum (t_delay s) D" by (rule delta_sum_cong) (use tDW in \<open>auto simp: e\<close>)
    moreover have "dseg (delay_next s1) (delay_prev s1) NULL c X = dseg (delay_next s) (delay_prev s) NULL c X"
      if "t \<notin> set X" for c X by (rule dseg_frame) (use that in \<open>auto simp: e\<close>)
    ultimately show ?thesis using K(2) tDW unfolding dl_inv_def by (auto simp: e)
  qed
  show "delays s1 D = delays s D" unfolding delays_def by (rule delta_abs_cong) (use tDW in \<open>auto simp: e\<close>)
qed

section \<open>Properties\<close>

text \<open>C28: changing the priority of a live thread always returns \<open>osOK\<close>, keeps the kernel invariant, sorts the thread
  into the list it waits in, and afterwards no ready thread has a higher priority than the one that runs next.\<close>

theorem thread_set_priority:
  assumes k: "kinv s L D W" and st: "stable s" and run: "k_state s = osRtxKernelRunning" and p: "prio_ok s L"
    and t: "t \<in> thrs s" and pr: "osPriorityIdle \<le> p" "p \<le> osPriorityISR"
  shows "\<exists>s' L'. svcRtxThreadSetPriority t p s = Some (osOK, s') \<and> kinv s' L' D W \<and> prio_ok s' L' \<and>
    t_priority s' = (t_priority s)(t := p) \<and>
    (\<forall>ob. ob \<noteq> ready_obj s \<longrightarrow>
       L' ob = (if t \<in> set (L ob) \<and> t_priority s t \<noteq> p then prio_put (t_priority s') t (remove1 t (L ob)) else L ob)) \<and>
    t_priority_base s' = (if t_priority s t = p then t_priority_base s else (t_priority_base s)(t := p))"
proof (cases "t_priority s t = p")
  case True
  then have "svcRtxThreadSetPriority t p s = Some (osOK, s)"
    using pr in_thrs [OF t] t by (auto simp: svcRtxThreadSetPriority_def thrs_def)
  then show ?thesis using True k p by (intro exI [of _ s] exI [of _ L]) auto
next
  case False
  let ?s0 = "s\<lparr>t_priority_base := (t_priority_base s)(t := p)\<rparr>"
  have c0: "core_eq s ?s0" by (simp add: core_eq_def)
  have k0: "kinv ?s0 L D W" "t \<in> thrs ?s0" using core_eqD(1,3) [OF c0] k t by simp_all
  define s1 where "s1 = ?s0\<lparr>t_priority := (t_priority ?s0)(t := p)\<rparr>"
  obtain s2 where s2: "osRtxThreadListSort t s1 = Some s2" "rl_frame s1 s2" "run_next s2 = run_next ?s0"
    "kinv s2 (reprio (t_priority s1) t L) D W"
    using ListSort_kinv [OF k0 s1_def] by blast
  note F2 = sched_frameD [OF rl_frame_sched [OF s2(2)]]
  have st2: "stable s2" using st s2(3) F2 by (simp add: stable_def s1_def)
  obtain s3 L3 where s3: "osRtxThreadDispatch NULL s2 = Some s3" "rl_frame s2 s3"
    "redisp s2 (reprio (t_priority s1) t L) = (L3, run_next s3)" "kinv s3 L3 D W" "prio_ok s3 L3"
    using dispatch_null_kinv [OF s2(4) st2] F2 run by (auto simp: s1_def)
  note F3 = sched_frameD [OF rl_frame_sched [OF s3(2)]]
  have e: "s\<lparr>t_priority := (t_priority s)(t := p), t_priority_base := (t_priority_base s)(t := p)\<rparr> = s1" by (simp add: s1_def)
  have "svcRtxThreadSetPriority t p s = Some (osOK, s3)"
    using False pr in_thrs [OF t] t by (auto simp: svcRtxThreadSetPriority_def thrs_def e s2(1) s3(1))
  moreover have "L3 ob = (if t \<in> set (L ob) then prio_put (t_priority s3) t (remove1 t (L ob)) else L ob)"
    if "ob \<noteq> ready_obj s" for ob
    using redisp_other [OF s3(3), of ob] that F2 F3 by (simp add: reprio_def s1_def)
  ultimately show ?thesis using False s3 F2 F3 by (intro exI [of _ s3] exI [of _ L3]) (simp add: s1_def)
qed

theorem thread_set_priority_witness:
  "\<exists>s' L'. svcRtxThreadSetPriority 0x200 25 demo = Some (osOK, s') \<and> kinv s' L' [0x300] [] \<and> t_priority s' 0x200 = 25"
proof -
  have "prio_ok demo demo_lists" "0x200 \<in> thrs demo" by (simp_all add: prio_ok_def demo_thrs)
  from thread_set_priority [OF demo_kinv demo_simps(1,2) this, of 25] show ?thesis by auto
qed

text \<open>suspending a live thread.  A ready or blocked thread is taken out of every list and its timeout; the running
  thread gives way to the first ready one, and cannot be suspended when there is none or the kernel does not run.  The
  suspended thread is blocked without a timeout, and the kernel invariant is kept.\<close>

theorem thread_suspend:
  assumes k: "kinv s L D W" and st: "stable s" and t: "t \<in> thrs s"
  shows "\<exists>r s' L' D' W'. svcRtxThreadSuspend t s = Some (r, s') \<and> kinv s' L' D' W' \<and>
    (if t = run_next s \<and> (k_state s \<noteq> osRtxKernelRunning \<or> L (ready_obj s) = []) then r = osErrorResource \<and> s' = s
     else r = osOK \<and> o_state s' t = osRtxThreadBlocked \<and> W' = remove1 t W @ [t] \<and> (\<forall>ob. t \<notin> set (L' ob)) \<and>
       delays s' D' = filter (\<lambda>(x, n). x \<noteq> t) (delays s D) \<and>
       run_next s' = (if t = run_next s then hd (L (ready_obj s)) else run_next s) \<and>
       (\<forall>x. x \<noteq> t \<longrightarrow> x \<noteq> run_next s' \<longrightarrow> o_state s' x = o_state s x))"
proof (cases "t = run_next s")
  case False
  obtain s1 where s1: "thread_take_off t s = Some (osOK, s1)" "sched_frame s s1" "run_next s1 = run_next s" "o_state s1 = o_state s"
    "kst s1 (unlist t L) (set (remove1 t D) \<union> set (remove1 t W)) {t}" "dl_inv s1 (remove1 t D) (remove1 t W)"
    "delays s1 (remove1 t D) = filter (\<lambda>(x, n). x \<noteq> t) (delays s D)" "\<And>a. t \<notin> set (unlist t L a)"
    using take_off_kinv [OF k t False] by blast
  obtain s' where s': "park t s1 = Some s'" "kinv s' (unlist t L) (remove1 t D) (remove1 t W @ [t])" "run_next s' = run_next s1"
    "o_state s' = (o_state s1)(t := osRtxThreadBlocked)" "delays s' (remove1 t D) = delays s1 (remove1 t D)"
    using park_kinv [OF s1(5,6,8)] by blast
  have "o_state s t \<noteq> osRtxThreadRunning" by (rule not_running [OF k t False])
  then have "svcRtxThreadSuspend t s = Some (osOK, s')"
    using in_thrs [OF t] s1(1,4) s'(1) by (simp add: svcRtxThreadSuspend_def park_def)
  then show ?thesis using False s1 s'
    by (intro exI [of _ osOK] exI [of _ s'] exI [of _ "unlist t L"] exI [of _ "remove1 t D"] exI [of _ "remove1 t W @ [t]"]) simp
next
  case True
  note K = kinvD [OF k]
  have tn: "t \<noteq> NULL" "o_id s t = osRtxIdThread" using in_thrs [OF t] by auto
  have R: "o_state s t = osRtxThreadRunning" "t \<notin> set D" "t \<notin> set W"
    using part_okD(6,9) [OF kstD(2) [OF K(1)]] True tn by auto
  have hd: "thread_next s (ready_obj s) = NULL \<longleftrightarrow> L (ready_obj s) = []"
    by (rule tl_inv_empty [OF kstD(1) [OF K(1)] ready_in_objs])
  show ?thesis
  proof (cases "k_state s \<noteq> osRtxKernelRunning \<or> L (ready_obj s) = []")
    case True
    then have "svcRtxThreadSuspend t s = Some (osErrorResource, s)"
      using tn R(1) hd by (auto simp: svcRtxThreadSuspend_def thread_take_off_def Let_def)
    then show ?thesis using True \<open>t = run_next s\<close> k
      by (intro exI [of _ osErrorResource] exI [of _ s] exI [of _ L] exI [of _ D] exI [of _ W]) simp
  next
    case False
    then obtain c ts where L: "L (ready_obj s) = c # ts" by (cases "L (ready_obj s)") auto
    have rc: "run_curr s = NULL \<or> run_curr s \<in> thrs s" using st True t by (simp add: stable_def)
    obtain s1 where s1: "do { (next, s) \<leftarrow> osRtxThreadListGet (ready_obj s) s; osRtxThreadSwitch next s } = Some s1"
      "rl_frame s s1" "run_next s1 = c" "o_state s1 = (o_state s)(c := osRtxThreadRunning)"
      "kst s1 (L(ready_obj s := ts)) (set D \<union> set W) {t}" "c \<noteq> t" "\<And>a. t \<notin> set ((L(ready_obj s := ts)) a)"
      using switch_away [OF K(1) True tn(1) rc L] by blast
    have dl1: "dl_inv s1 D W" "delays s1 D = delays s D" using K(2) rl_frame_dl [OF s1(2)] by simp_all
    obtain s' where s': "park t s1 = Some s'" "kinv s' (L(ready_obj s := ts)) D (W @ [t])" "run_next s' = run_next s1"
      "o_state s' = (o_state s1)(t := osRtxThreadBlocked)" "delays s' D = delays s1 D"
      using park_kinv [OF s1(5) dl1(1) s1(7)] by blast
    have "svcRtxThreadSuspend t s = Some (osOK, s')"
      using tn R(1) False hd s1(1) s'(1)
      by (auto simp: svcRtxThreadSuspend_def thread_take_off_def Let_def park_def bind_eq_Some_conv split: prod.splits)
    moreover have "filter (\<lambda>(x, n). x \<noteq> t) (delays s D) = delays s D" using R(2) by (auto simp: filter_id_conv dest: fst_in_delays)
    ultimately show ?thesis using True False L s1 s' dl1 R
      by (intro exI [of _ osOK] exI [of _ s'] exI [of _ "L(ready_obj s := ts)"] exI [of _ D] exI [of _ "W @ [t]"])
        (simp add: remove1_idem)
  qed
qed

text \<open>resuming a blocked thread, whatever it waits for, takes it out of every list and its timeout and dispatches it: it runs
  next if it has a higher priority than the running thread, and is ready otherwise.  A thread that is not blocked cannot be
  resumed.\<close>

theorem thread_resume:
  assumes k: "kinv s L D W" and st: "stable s" and run: "k_state s = osRtxKernelRunning" and p: "prio_ok s L" and t: "t \<in> thrs s"
  shows "\<exists>r s' L'. svcRtxThreadResume t s = Some (r, s') \<and> kinv s' L' (remove1 t D) (remove1 t W) \<and> prio_ok s' L' \<and>
    (if t \<in> set D \<or> t \<in> set W
     then r = osOK \<and> (if run_curr s \<noteq> NULL \<and> t_priority s (run_curr s) < t_priority s t
                      then run_next s' = t \<and> o_state s' t = osRtxThreadRunning
                      else run_next s' = run_next s \<and> o_state s' t = osRtxThreadReady)
     else r = osErrorResource \<and> s' = s)"
proof (cases "t \<in> set D \<or> t \<in> set W")
  case False
  then have "\<not> is_blocked (o_state s t)"
    using part_okD(7,9) [OF kstD(2) [OF kinvD(1) [OF k]], of t] t by (cases "t \<in> set (L (ready_obj s))") (auto simp: is_blocked_def)
  then have "svcRtxThreadResume t s = Some (osErrorResource, s)"
    using in_thrs [OF t] by (simp add: svcRtxThreadResume_def is_blocked_def)
  then show ?thesis using False k p
    by (intro exI [of _ osErrorResource] exI [of _ s] exI [of _ L]) (simp add: remove1_idem)
next
  case True
  have tr: "t \<noteq> run_next s" using part_okD(6) [OF kstD(2) [OF kinvD(1) [OF k]]] in_thrs [OF t] True by auto
  have b: "o_state s t AND osRtxThreadStateMask = osRtxThreadBlocked"
    using part_okD(8) [OF kstD(2) [OF kinvD(1) [OF k]], of t] True by (auto simp: is_blocked_def)
  obtain s1 where s1: "thread_take_off t s = Some (osOK, s1)" "sched_frame s s1" "run_next s1 = run_next s" "o_state s1 = o_state s"
    "kst s1 (unlist t L) (set (remove1 t D) \<union> set (remove1 t W)) {t}" "dl_inv s1 (remove1 t D) (remove1 t W)"
    "\<And>a. t \<notin> set (unlist t L a)"
    using take_off_kinv [OF k t tr] by blast
  note F1 = sched_frameD [OF s1(2)]
  have st1: "stable s1" using st s1(3) F1 by (simp add: stable_def)
  obtain s' where s': "osRtxThreadDispatch t s1 = Some s'" "rl_frame s1 s'" "run_next s' = disp_run s1 t"
    "kst s' (disp_lists s1 t (unlist t L)) (set (remove1 t D) \<union> set (remove1 t W)) ({t} - {t})"
    using osRtxThreadDispatch_put [OF s1(5) _ s1(7) st1] by blast
  have k': "kinv s' (disp_lists s1 t (unlist t L)) (remove1 t D) (remove1 t W)"
    using s'(4) s1(6) rl_frame_dl(1) [OF s'(2)] by (simp add: kinv_def)
  have p1: "prio_ok s1 (unlist t L)"
    using p s1(3) F1 set_remove1_subset [of t "L (ready_obj s)"] by (auto simp: prio_ok_def unlist_def)
  have "prio_ok s' (disp_lists s1 t (unlist t L))"
    using prio_ok_disp [OF p1 st1 _ s'(2,3)] F1 run by simp
  moreover have "svcRtxThreadResume t s = Some (osOK, s')"
    using in_thrs [OF t] b s1(1) s'(1)
    by (auto simp: svcRtxThreadResume_def thread_take_off_def Let_def bind_eq_Some_conv split: if_splits)
  moreover have "if run_curr s \<noteq> NULL \<and> t_priority s (run_curr s) < t_priority s t
      then run_next s' = t \<and> o_state s' t = osRtxThreadRunning else run_next s' = run_next s \<and> o_state s' t = osRtxThreadReady"
  proof -
    have pe: "preempts s1 t \<longleftrightarrow> run_curr s \<noteq> NULL \<and> t_priority s (run_curr s) < t_priority s t"
      using F1 run by (auto simp: preempts_def)
    have rn: "run_next s' = (if preempts s1 t then t else run_next s)" using s'(3) s1(3) by (simp add: disp_run_def)
    have tt: "t \<in> thrs s'" using t sched_frame_out(1) [OF s1(2)] rl_frameD(7) [OF s'(2)] by simp
    have nB: "t \<notin> set (remove1 t D) \<union> set (remove1 t W)" using kinvD(4,5) [OF k] by auto
    show ?thesis
    proof (cases "preempts s1 t")
      case True
      then have "run_next s' = t" using rn by simp
      moreover have "o_state s' t = osRtxThreadRunning"
        using part_okD(6,9) [OF kstD(2) [OF kinvD(1) [OF k']]] \<open>run_next s' = t\<close> tt in_thrs [OF tt] by auto
      ultimately show ?thesis using True pe by simp
    next
      case False
      then have "t \<noteq> run_next s'" using rn tr by simp
      then have "o_state s' t = osRtxThreadReady"
        using part_okD(7,9) [OF kstD(2) [OF kinvD(1) [OF k']], of t] tt nB by auto
      then show ?thesis using False pe rn by auto
    qed
  qed
  ultimately show ?thesis using True k'
    by (intro exI [of _ osOK] exI [of _ s'] exI [of _ "disp_lists s1 t (unlist t L)"]) simp
qed

theorem thread_resume_witness:
  "\<exists>s' L'. svcRtxThreadResume 0x300 demo = Some (osOK, s') \<and> kinv s' L' [] [] \<and> run_next s' = 0x300"
proof -
  have "prio_ok demo demo_lists" "0x300 \<in> thrs demo" by (simp_all add: prio_ok_def demo_thrs)
  from thread_resume [OF demo_kinv demo_simps(1,2) this] show ?thesis by auto
qed

theorem thread_suspend_witness:
  "\<exists>s' L' D'. svcRtxThreadSuspend 0x100 demo = Some (osOK, s') \<and> kinv s' L' D' [0x100] \<and> run_next s' = 0x200"
proof -
  have "0x100 \<in> thrs demo" by (simp add: demo_thrs)
  from thread_suspend [OF demo_kinv demo_simps(1) this] show ?thesis by auto
qed


definition demo_attr :: os_thread_attr where
  "demo_attr = \<lparr>a_name = NULL, a_attr_bits = 0, a_cb_mem = 0x700, a_cb_size = 68, a_stack_mem = 0x4000, a_stack_size = 0x100, a_priority = 40\<rparr>"

lemma demo_attr_simps: "a_cb_mem demo_attr = 0x700" "a_cb_size demo_attr = 68" "a_stack_mem demo_attr = 0x4000"
  "a_stack_size demo_attr = 0x100" "a_priority demo_attr = 40"
  by (simp_all add: demo_attr_def)

lemma demo_fresh: "fresh_thread demo 0x700 0x4000 0x100"
proof -
  have m: "t_stack_mem demo = (\<lambda>_. 0)(0x100 := 0x1000, 0x200 := 0x2000, 0x300 := 0x3000)"
    "t_sp demo = (\<lambda>_. 0)(0x100 := 0x1100, 0x200 := 0x2100, 0x300 := 0x3100)" "t_stack_frame demo = (\<lambda>_. 0)"
    by (simp_all add: demo_def rtx0_def)
  show ?thesis unfolding fresh_thread_def demo_thrs demo_objs
    by (simp add: in_area_def osRtxThreadRegPtr_def StackOffsetR0_def m)
qed


end
