(* ===== verification/ThreadEnd.thy ===== *)
theory ThreadEnd
  imports ThreadLife
begin

text \<open>
  The end of a thread: \<open>osThreadExit\<close>, \<open>osThreadTerminate\<close> and \<open>osThreadJoin\<close>, for threads that own no
  mutex and whose memory the caller supplied.
\<close>

section \<open>Dropping a thread\<close>

lemma kst_drop:
  assumes k: "kst s L B {t}" and tl: "\<And>a. t \<notin> set (L a)"
    and th: "thrs s' = thrs s - {t}" and ob: "objs s' = objs s"
    and ln: "\<And>x. x \<in> objs s \<or> x \<in> thrs s - {t} \<Longrightarrow> thread_next s' x = thread_next s x \<and> thread_prev s' x = thread_prev s x"
    and st: "\<And>x. x \<in> thrs s - {t} \<Longrightarrow> o_state s' x = o_state s x"
    and eq: "ready_obj s' = ready_obj s" "run_next s' = run_next s" "t_priority s' = t_priority s" "t_stack_mem s' = t_stack_mem s"
      "t_sp s' = t_sp s" "t_stack_frame s' = t_stack_frame s" "mem32 s' = mem32 s" "o_id s' (ready_obj s) = o_id s (ready_obj s)"
  shows "kst s' L B {}"
proof -
  note K = kstD [OF k]
  note T = tl_invD [OF K(1)]
  note P = part_okD [OF K(2)]
  have sub: "set (L a) \<subseteq> thrs s - {t}" for a using T(3) [of a] tl by blast
  have "tl_inv (thread_next s') (thread_prev s') (objs s) (thrs s - {t}) L"
  proof (rule tl_invI)
    show "NULL \<notin> objs s" "NULL \<notin> thrs s - {t}" "objs s \<inter> (thrs s - {t}) = {}" using T(8,9,10) by blast+
    show "chain (thread_next s') (thread_prev s') a (L a)" if "a \<in> objs s" for a
    proof -
      have "chain (thread_next s') (thread_prev s') a (L a) = chain (thread_next s) (thread_prev s) a (L a)"
        by (rule chain_frame) (use ln that sub [of a] in blast)+
      then show ?thesis using T(1) [OF that] by simp
    qed
    show "distinct (L a)" "set (L a) \<subseteq> thrs s - {t}" for a using T(2) sub by blast+
    show "L a = []" if "a \<notin> objs s" for a using K(1) that unfolding tl_inv_def by blast
    show "a = b" if "u \<in> set (L a)" "u \<in> set (L b)" for a b u using T(4) that .
    show "thread_prev s' u = NULL" if "u \<in> thrs s - {t}" "\<And>a. u \<notin> set (L a)" for u
      using T(7) [of u] ln [of u] that by auto
  qed
  moreover have "part_ok s' L B {}"
  proof (rule part_okI, unfold th eq)
    show "u \<in> thrs s - {t} \<and> u \<notin> {} \<and> is_blocked (o_state s' u)" if "u \<in> B" for u
      using P(1,3,8) [OF that] st [of u] by auto
    show "u \<notin> B \<and> u \<notin> {} \<and> o_state s' u = osRtxThreadReady" if "u \<in> set (L (ready_obj s))" for u
      using P(4,7) [of u] that sub [of "ready_obj s"] st [of u] by auto
    show "u \<in> B \<or> u \<in> {}" if "a \<noteq> ready_obj s" "u \<in> set (L a)" for a u using P(5) [OF that] that tl by auto
    show "run_next s \<in> thrs s - {t} \<and> run_next s \<notin> B \<and> run_next s \<notin> {} \<and> run_next s \<notin> set (L (ready_obj s))"
      if "run_next s \<noteq> NULL" using P(6) [OF that] by blast
    show "u = run_next s \<and> o_state s' u = osRtxThreadRunning"
      if "u \<in> thrs s - {t}" "u \<notin> {}" "u \<notin> B" "u \<notin> set (L (ready_obj s))" for u
      using P(9) [of u] that st [of u] by auto
  qed simp
  moreover have "stacks_ok s'"
    using K(4) unfolding stacks_ok_def th by (simp add: eq osRtxThreadRegPtr_def)
  ultimately show ?thesis using K(3,5) unfolding kst_def ob th by (simp add: eq)
qed

text \<open>The head of the list of terminated threads is not a live thread or an object.\<close>

definition terminated_ok :: "rtx \<Rightarrow> bool" where
  "terminated_ok s \<longleftrightarrow> (let u = terminate_list s in
     u = NULL \<or> o_id s u = osRtxIdThread \<and> o_state s u = osRtxThreadTerminated)"

definition is_detached :: "rtx \<Rightarrow> addr \<Rightarrow> bool" where
  "is_detached s t \<longleftrightarrow> o_attr s t AND osThreadJoinable = 0 \<or> thread_join s t \<noteq> NULL"

definition own_memory :: "rtx \<Rightarrow> addr \<Rightarrow> bool" where
  "own_memory s t \<longleftrightarrow> o_flags s t AND osRtxFlagSystemMemory = 0 \<and> o_flags s t AND osRtxFlagSystemObject = 0"

lemma retire_kinv:
  assumes k: "kst s L (set D \<union> set W) {t}" and dl: "dl_inv s D W" and tl: "\<And>a. t \<notin> set (L a)"
    and tz: "terminated_ok s" and m: "own_memory s t"
  shows "\<exists>s'. thread_retire t s = Some s' \<and> kinv s' L D W \<and> thrs s' = thrs s - {t} \<and> run_next s' = run_next s \<and>
    t_priority s' = t_priority s \<and> ready_obj s' = ready_obj s \<and> terminated_ok s' \<and> mem32 s' = mem32 s \<and>
    (if is_detached s t then o_id s' t = osRtxIdInvalid \<and> o_state s' t = osRtxThreadInactive \<and> terminate_list s' = terminate_list s
     else o_state s' t = osRtxThreadTerminated \<and> terminate_list s' = t \<and> thread_next s' t = terminate_list s)"
proof -
  note K = kstD [OF k]
  have tt: "t \<in> thrs s" using part_okD(2) [OF K(2)] by blast
  have tn: "t \<noteq> NULL" "o_id s t = osRtxIdThread" "t \<notin> objs s" using in_thrs [OF tt] objs_thrs_disjoint [OF k] tt by auto
  have rt: "t \<noteq> ready_obj s" using tn(3) by auto
  show ?thesis
  proof (cases "is_detached s t")
    case True
    let ?s = "s\<lparr>o_state := (o_state s)(t := osRtxThreadInactive), o_id := (o_id s)(t := osRtxIdInvalid)\<rparr>"
    have "thread_retire t s = Some ?s"
      using True m by (simp add: thread_retire_def is_detached_def osRtxThreadFree_def own_memory_def)
    moreover have th: "thrs ?s = thrs s - {t}" by (auto simp: thrs_def)
    moreover have ob: "objs ?s = objs s" using tn by (auto simp: objs_def has_thread_list_def)
    moreover have "kst ?s L (set D \<union> set W) {}"
      by (rule kst_drop [OF k tl th ob]) (use rt in simp_all)
    moreover have "dl_inv ?s D W" using dl by (simp add: dl_inv_def)
    moreover have "terminated_ok ?s" using tz tt by (auto simp: terminated_ok_def Let_def thrs_def)
    ultimately show ?thesis using True by (auto simp: kinv_def)
  next
    case False
    let ?u = "terminate_list s"
    let ?s = "s\<lparr>o_state := (o_state s)(t := osRtxThreadTerminated),
      thread_prev := (if ?u \<noteq> NULL then (thread_prev s)(t := NULL, ?u := t) else (thread_prev s)(t := NULL)),
      thread_next := (thread_next s)(t := ?u), terminate_list := t\<rparr>"
    have u: "?u \<noteq> NULL \<Longrightarrow> ?u \<notin> objs s \<and> ?u \<notin> thrs s"
      using tz K(5) by (auto simp: terminated_ok_def Let_def thrs_def objs_def has_thread_list_def)
    have "thread_retire t s = Some ?s"
      using False by (simp add: thread_retire_def is_detached_def Let_def)
    moreover have th: "thrs ?s = thrs s - {t}" by (auto simp: thrs_def)
    moreover have ob: "objs ?s = objs s" by (rule objs_cong) simp_all
    moreover have "kst ?s L (set D \<union> set W) {}"
      by (rule kst_drop [OF k tl th ob]) (use rt u tn in auto)
    moreover have "dl_inv ?s D W" using dl by (simp add: dl_inv_def)
    moreover have "terminated_ok ?s" using tn by (simp add: terminated_ok_def Let_def)
    ultimately show ?thesis using False by (auto simp: kinv_def)
  qed
qed

section \<open>Releasing what a thread holds\<close>

lemma DelayRemove_state: "osRtxThreadDelayRemove t s = Some s' \<Longrightarrow> o_state s' = o_state s"
  by (auto simp: osRtxThreadDelayRemove_def deref_def Let_def split: if_splits)

lemma ReadyPut_state: "osRtxThreadReadyPut t s = Some s' \<Longrightarrow> o_state s' = (o_state s)(t := osRtxThreadReady)"
  by (auto simp: osRtxThreadReadyPut_def osRtxThreadListPut_def thread_list_link_def deref_def Let_def bind_eq_Some_conv
      split: if_splits prod.splits)

lemma WaitExit_state:
  "osRtxThreadWaitExit t v False s = Some s' \<Longrightarrow> o_state s' = (o_state s)(t := osRtxThreadReady)"
  by (auto simp: osRtxThreadWaitExit_def bind_eq_Some_conv Let_def dest!: DelayRemove_state ReadyPut_state)

text \<open>The joiner of a thread waits without a timeout and in no list.\<close>

definition joiner_ok :: "rtx \<Rightarrow> addr \<Rightarrow> (addr \<Rightarrow> addr list) \<Rightarrow> addr list \<Rightarrow> bool" where
  "joiner_ok s t L W \<longleftrightarrow> thread_join s t = NULL \<or>
     thread_join s t \<in> set W \<and> thread_join s t \<noteq> t \<and> (\<forall>a. thread_join s t \<notin> set (L a))"

lemma release_kst:
  assumes k: "kst s L (set D \<union> set W) C" and dl: "dl_inv s D W" and m: "t_mutex_list s t = NULL" and j: "joiner_ok s t L W"
  shows "\<exists>s'. thread_release t s = Some s' \<and> sched_frame s s' \<and> run_next s' = run_next s \<and> dl_inv s' D (remove1 (thread_join s t) W) \<and>
    o_state s' = (if thread_join s t = NULL then o_state s else (o_state s)(thread_join s t := osRtxThreadReady)) \<and>
    kst s' (if thread_join s t = NULL then L else ready_put s (thread_join s t) L) (set D \<union> set (remove1 (thread_join s t) W)) C"
proof (cases "thread_join s t = NULL")
  case True
  have "NULL \<notin> set W" using dl dseg_nonnull by (auto simp: dl_inv_def)
  then show ?thesis using True k dl m sched_frame_refl
    by (simp add: thread_release_def osRtxMutexOwnerRelease.simps [of NULL] remove1_idem)
next
  case False
  let ?j = "thread_join s t"
  have J: "?j \<in> set W" "\<And>a. ?j \<notin> set (L a)" using j False by (auto simp: joiner_ok_def)
  then have jD: "remove1 ?j D = D" using dl by (auto simp: dl_inv_def intro: remove1_idem)
  obtain s' where s': "osRtxThreadWaitExit ?j osOK False s = Some s'" "sched_frame s s'"
    "kst s' (exit_lists s ?j False L) (set (remove1 ?j D) \<union> set (remove1 ?j W)) C" "dl_inv s' (remove1 ?j D) (remove1 ?j W)"
    "run_next s' = exit_run s ?j False"
    using osRtxThreadWaitExit_kst [OF k dl, of ?j False osOK] J by blast
  have "thread_release t s = Some s'"
    using False m s'(1) by (simp add: thread_release_def osRtxMutexOwnerRelease.simps [of NULL])
  then show ?thesis using False s' jD WaitExit_state [OF s'(1)] by (auto simp: exit_lists_def exit_run_def)
qed

section \<open>Switching away\<close>

text \<open>The stack pointer that is saved lies above the bottom of the stack of the thread.\<close>

definition psp_ok :: "rtx \<Rightarrow> addr \<Rightarrow> bool" where
  "psp_ok s r \<longleftrightarrow> t_stack_mem s r < psp s \<and>
     (\<forall>u\<in>thrs s. psp s + StackOffsetR0 (t_stack_frame s r) \<noteq> t_stack_mem s u)"

lemma save_sp_kst:
  assumes k: "kst s L B C" and p: "psp_ok s r"
  shows "kst (s\<lparr>t_sp := (t_sp s)(r := psp s)\<rparr>) L B C"
proof -
  note K = kstD [OF k]
  let ?s = "s\<lparr>t_sp := (t_sp s)(r := psp s)\<rparr>"
  have th: "thrs ?s = thrs s" "objs ?s = objs s" by (simp_all add: thrs_def objs_def)
  have "stacks_ok ?s"
    unfolding stacks_ok_def th
  proof (intro ballI conjI)
    note S = K(4) [unfolded stacks_ok_def]
    fix u assume u: "u \<in> thrs s"
    show "t_stack_mem ?s u < t_sp ?s u" "mem32 ?s (t_stack_mem ?s u) = osRtxStackMagicWord"
      using S u p by (simp_all add: psp_ok_def)
    show "osRtxThreadRegPtr w ?s \<noteq> t_stack_mem ?s u" if "w \<in> thrs s" for w
      using S u p that by (simp add: psp_ok_def osRtxThreadRegPtr_def)
  qed
  moreover have "part_ok ?s L B C" using K(2) part_ok_cong [of ?s s] th by simp
  ultimately show ?thesis using K(1,3,5) unfolding kst_def th by simp
qed

lemma leave_kst:
  assumes k: "kst s L B {}" and r: "r = run_next s" "r \<noteq> NULL" "run_curr s = r" and p: "psp_ok s r" and L: "L (ready_obj s) = c # ts"
  shows "\<exists>s'. thread_leave r s = Some s' \<and> run_next s' = c \<and> run_curr s' = NULL \<and> kst s' (L(ready_obj s := ts)) B {r} \<and>
    (\<forall>a. r \<notin> set ((L(ready_obj s := ts)) a)) \<and> thrs s' = thrs s \<and> ready_obj s' = ready_obj s \<and> t_priority s' = t_priority s \<and>
    dl_inv s' D W = dl_inv s D W \<and> terminated_ok s' = terminated_ok s \<and> own_memory s' r = own_memory s r \<and>
    is_detached s' r = is_detached s r \<and> terminate_list s' = terminate_list s \<and>
    o_state s' = (o_state s)(c := osRtxThreadRunning)"
proof -
  let ?s = "s\<lparr>t_sp := (t_sp s)(r := psp s)\<rparr>"
  have k1: "kst ?s L B {}" by (rule save_sp_kst [OF k p])
  have rt: "r \<in> thrs s" using part_okD(6) [OF kstD(2) [OF k]] r by simp
  have th: "thrs ?s = thrs s" by (simp add: thrs_def)
  obtain s2 where s2: "do { (next, s) \<leftarrow> osRtxThreadListGet (ready_obj ?s) ?s; osRtxThreadSwitch next s } = Some s2" "rl_frame ?s s2"
    "run_next s2 = c" "o_state s2 = (o_state s)(c := osRtxThreadRunning)" "kst s2 (L(ready_obj s := ts)) B {r}"
    "\<forall>a. r \<notin> set ((L(ready_obj s := ts)) a)"
    using switch_away [OF k1, of r c ts] r rt L th by auto
  note F = sched_frameD [OF rl_frame_sched [OF s2(2)]]
  note G = rl_frameD [OF s2(2)]
  let ?s' = "s2\<lparr>run_curr := NULL\<rparr>"
  have "thread_leave r s = Some ?s'"
    using s2(1) by (auto simp: thread_leave_def bind_eq_Some_conv Let_def split: prod.splits)
  moreover have "kst ?s' (L(ready_obj s := ts)) B {r}" using s2(5) kst_cong [of ?s' s2] by simp
  moreover have "thrs ?s' = thrs s" using G th by (simp add: thrs_def)
  moreover have "dl_inv ?s' D W = dl_inv s D W" by (rule dl_inv_cong) (simp_all add: G)
  moreover have "terminated_ok ?s' = terminated_ok s"
  proof -
    have "c \<in> thrs s" using kst_list_sub [OF k, of "ready_obj s"] L by simp
    then show ?thesis using s2(4) F by (auto simp: terminated_ok_def Let_def thrs_def)
  qed
  moreover have "own_memory ?s' r = own_memory s r" "is_detached ?s' r = is_detached s r" "terminate_list ?s' = terminate_list s"
    by (simp_all add: own_memory_def is_detached_def F)
  ultimately show ?thesis using s2 F G by simp
qed

lemma redisp_set: "redisp s L = (L', x) \<Longrightarrow> set (L' a) \<subseteq> insert (run_curr s) (set (L a))"
  by (auto simp: redisp_def ready_push_def split: list.splits if_splits)

text \<open>The end of the running thread.\<close>

lemma end_running:
  assumes k: "kinv s L D W" and st: "stable s" and r: "run_curr s = r" "r \<noteq> NULL" and L: "L (ready_obj s) \<noteq> []"
    and m: "t_mutex_list s r = NULL" and j: "joiner_ok s r L W" and tz: "terminated_ok s" and om: "own_memory s r" and p: "psp_ok s r"
  shows "\<exists>s1 s2 s' L'. thread_release r s = Some s1 \<and> o_state s1 r = osRtxThreadRunning \<and> thread_leave r s1 = Some s2 \<and>
    thread_retire r s2 = Some s' \<and> kinv s' L' D (remove1 (thread_join s r) W) \<and> thrs s' = thrs s - {r} \<and> prio_ok s' L' \<and>
    run_next s' \<noteq> NULL \<and> (is_detached s r \<longrightarrow> o_id s' r = osRtxIdInvalid \<and> o_state s' r = osRtxThreadInactive) \<and>
    (\<not> is_detached s r \<longrightarrow> o_state s' r = osRtxThreadTerminated \<and> terminate_list s' = r \<and> thread_next s' r = terminate_list s)"
proof -
  note K = kinvD [OF k]
  have rn: "r = run_next s" using st r by (simp add: stable_def)
  have rt: "r \<in> thrs s" using part_okD(6) [OF kstD(2) [OF K(1)]] rn r by simp
  have rs: "o_state s r = osRtxThreadRunning" using part_okD(6,9) [OF kstD(2) [OF K(1)]] rn r by simp
  let ?j = "thread_join s r"
  define L1 where "L1 = (if ?j = NULL then L else ready_put s ?j L)"
  obtain s1 where s1: "thread_release r s = Some s1" "sched_frame s s1" "run_next s1 = run_next s" "dl_inv s1 D (remove1 ?j W)"
    "o_state s1 = (if ?j = NULL then o_state s else (o_state s)(?j := osRtxThreadReady))"
    "kst s1 L1 (set D \<union> set (remove1 ?j W)) {}"
    using release_kst [OF K(1,2) m j] unfolding L1_def by blast
  note F1 = sched_frameD [OF s1(2)]
  have sr: "o_state s1 r = osRtxThreadRunning" using s1(5) rs j r by (auto simp: joiner_ok_def)
  have t1: "thrs s1 = thrs s" by (rule sched_frame_out(1) [OF s1(2)])
  have ne: "L1 (ready_obj s) \<noteq> []"
  proof (cases "?j = NULL")
    case False
    have "?j \<in> set (L1 (ready_obj s))" using False by (simp add: L1_def ready_put_def)
    then show ?thesis by (metis list.distinct(1) list.set_cases)
  qed (use L in \<open>simp add: L1_def\<close>)
  then obtain c ts where c: "L1 (ready_obj s1) = c # ts" using F1 by (cases "L1 (ready_obj s)") auto
  have p1: "psp_ok s1 r" using p F1 t1 by (simp add: psp_ok_def)
  obtain s2 where s2: "thread_leave r s1 = Some s2" "run_next s2 = c" "kst s2 (L1(ready_obj s1 := ts)) (set D \<union> set (remove1 ?j W)) {r}"
    "\<forall>a. r \<notin> set ((L1(ready_obj s1 := ts)) a)" "thrs s2 = thrs s1" "ready_obj s2 = ready_obj s1" "t_priority s2 = t_priority s1"
    "dl_inv s2 D (remove1 ?j W) = dl_inv s1 D (remove1 ?j W)" "terminated_ok s2 = terminated_ok s1"
    "own_memory s2 r = own_memory s1 r" "is_detached s2 r = is_detached s1 r" "terminate_list s2 = terminate_list s1"
    using leave_kst [OF s1(6), of r c ts D "remove1 ?j W"] rn r s1(3) F1 p1 c by auto
  have tz1: "terminated_ok s1" using tz s1(5) F1 j K(6) [of ?j] by (auto simp: terminated_ok_def Let_def joiner_ok_def thrs_def)
  have "own_memory s1 r" "is_detached s1 r = is_detached s r" using om by (simp_all add: own_memory_def is_detached_def F1)
  then obtain s' where s': "thread_retire r s2 = Some s'" "kinv s' (L1(ready_obj s1 := ts)) D (remove1 ?j W)" "thrs s' = thrs s2 - {r}"
    "run_next s' = run_next s2" "t_priority s' = t_priority s2" "ready_obj s' = ready_obj s2"
    "if is_detached s r then o_id s' r = osRtxIdInvalid \<and> o_state s' r = osRtxThreadInactive \<and> terminate_list s' = terminate_list s2
     else o_state s' r = osRtxThreadTerminated \<and> terminate_list s' = r \<and> thread_next s' r = terminate_list s2"
    using retire_kinv [OF s2(3)] s1(4) s2 tz1 by auto
  have "prio_sorted (t_priority s1) (c # ts)" using kstD(3) [OF s1(6), of "ready_obj s1"] c by simp
  then have "prio_ok s' (L1(ready_obj s1 := ts))"
    using s' s2 by (auto simp: prio_ok_def prio_sorted_Cons)
  moreover have "c \<noteq> NULL" using tl_invD(11) [OF kstD(1) [OF s1(6)], of "ready_obj s1"] c by auto
  moreover have "thrs s' = thrs s - {r}" using s'(3) s2(5) t1 by simp
  moreover have "terminate_list s2 = terminate_list s" using s2(12) F1 by simp
  moreover have "run_next s' = c" using s'(4) s2(2) by simp
  ultimately show ?thesis using s1(1) sr s2(1) s'(1,2,7)
    by (intro exI [of _ s1] exI [of _ s2] exI [of _ s'] exI [of _ "L1(ready_obj s1 := ts)"]) simp
qed

section \<open>An example\<close>

text \<open>The demo system with a stack pointer for the running thread.\<close>

definition demo_end :: rtx where
  "demo_end = demo\<lparr>psp := 0x1200\<rparr>"

lemma demo_end_kinv: "kinv demo_end demo_lists [0x300] []"
  using core_eqD(1) [of demo demo_end] demo_kinv by (simp add: core_eq_def demo_end_def)

lemma demo_end_ok:
  "stable demo_end" "run_curr demo_end = 0x100" "run_next demo_end = 0x100" "k_state demo_end = osRtxKernelRunning"
  "ready_obj demo_end = 0x10" "thread_join demo_end = (\<lambda>_. NULL)" "terminated_ok demo_end" "t_mutex_list demo_end = (\<lambda>_. NULL)"
  "own_memory demo_end t" "is_detached demo_end t" "psp_ok demo_end 0x100" "thrs demo_end = {0x100, 0x200, 0x300}"
proof -
  have e: "o_id demo_end = o_id demo" "o_state demo_end = o_state demo" by (simp_all add: demo_end_def)
  show th: "thrs demo_end = {0x100, 0x200, 0x300}" using demo_thrs by (simp add: thrs_def e)
  have m: "t_stack_mem demo_end = (\<lambda>_. 0)(0x100 := 0x1000, 0x200 := 0x2000, 0x300 := 0x3000)" "t_stack_frame demo_end = (\<lambda>_. 0)"
    "psp demo_end = 0x1200" by (simp_all add: demo_end_def demo_def rtx0_def)
  show "psp_ok demo_end 0x100" unfolding psp_ok_def th by (simp add: m StackOffsetR0_def)
  show "stable demo_end" "run_curr demo_end = 0x100" "run_next demo_end = 0x100" "k_state demo_end = osRtxKernelRunning"
    "ready_obj demo_end = 0x10" using demo_simps(1) by (simp_all add: demo_end_def stable_def)
  show "thread_join demo_end = (\<lambda>_. NULL)" "terminated_ok demo_end" "t_mutex_list demo_end = (\<lambda>_. NULL)"
    "own_memory demo_end t" "is_detached demo_end t"
    by (simp_all add: terminated_ok_def own_memory_def is_detached_def Let_def demo_end_def demo_def rtx0_def)
qed

section \<open>Properties\<close>





text \<open>C29: \<open>thread_join\<close> is not cleared when the joining thread stops waiting (it is resumed, or terminated).  If it is
  ready and the last of the ready list when the thread it joined ends, it is put into the ready list a second time and is
  then linked to itself: the list has a loop.\<close>

theorem stale_join_loops:
  assumes k: "kinv s L D W" and m: "t_mutex_list s r = NULL" and j: "thread_join s r = j" "L (ready_obj s) = xs @ [j]"
    and d: "delay_prev s j = NULL"
  shows "\<exists>s'. thread_release r s = Some s' \<and> thread_next s' j = j \<and> thread_prev s' j = j"
proof -
  note K = kinvD [OF k]
  note KS = kstD [OF K(1)]
  have jt: "j \<in> thrs s" using kst_list_sub [OF K(1), of "ready_obj s"] j(2) by auto
  have jn: "j \<noteq> NULL" "j \<noteq> ready_obj s" using in_thrs [OF jt] objs_thrs_disjoint [OF K(1) ready_in_objs] jt by auto
  have jD: "j \<notin> set D" "j \<notin> set W" using part_okD(4) [OF KS(2), of j] j(2) by auto
  have hds: "delay_list s = hd0 D" "wait_list s = hd0 W" using K(2) dseg_root unfolding dl_inv_def by blast+
  have nh: "delay_list s \<noteq> j" "wait_list s \<noteq> j"
    unfolding hds using jD jn(1) hd0_in_set [of D] hd0_in_set [of W] by (metis hd0_simps(1))+
  let ?s1 = "s\<lparr>mem32 := (mem32 s)(osRtxThreadRegPtr j s := osOK)\<rparr>"
  have dr: "osRtxThreadDelayRemove j ?s1 = Some ?s1"
    using d nh jn by (simp add: osRtxThreadDelayRemove_def)
  let ?s2 = "?s1\<lparr>o_state := (o_state s)(j := osRtxThreadReady)\<rparr>"
  have ch: "chain (thread_next ?s2) (thread_prev s) (ready_obj s) (xs @ [j])" using tl_invD(1) [OF KS(1) ready_in_objs] j(2) by simp
  have "\<forall>x\<in>set (xs @ [j]). t_priority s x \<ge> t_priority s j"
    using KS(3) [of "ready_obj s"] j(2) by (auto simp: prio_sorted_def sorted_wrt_append)
  then have all: "takeWhile (\<lambda>x. t_priority s x \<ge> t_priority s j) (xs @ [j]) = xs @ [j]"
    "dropWhile (\<lambda>x. t_priority s x \<ge> t_priority s j) (xs @ [j]) = []" by (auto simp: takeWhile_eq_all_conv dropWhile_eq_Nil_conv)
  have "thread_list_search ?s2 (t_priority s j) (ready_obj s) (thread_next s (ready_obj s)) = Some (j, NULL)"
    using thread_list_search_chain [OF ch, of "t_priority s j"] all by simp
  then have "osRtxThreadListPut (ready_obj s) j ?s2 = Some (thread_list_link j j NULL ?s2)"
    using jn tl_invD(8) [OF KS(1) ready_in_objs] by (simp add: osRtxThreadListPut_def)
  then have "thread_release r s = Some (thread_list_link j j NULL ?s2)"
    using m j(1) jn dr
    by (simp add: thread_release_def osRtxMutexOwnerRelease.simps [of NULL] osRtxThreadWaitExit_def osRtxThreadReadyPut_def)
  then show ?thesis by (simp add: thread_list_link_eq)
qed

theorem stale_join_loops_witness:
  "\<exists>s'. thread_release 0x100 (demo\<lparr>thread_join := (\<lambda>_. NULL)(0x100 := 0x200)\<rparr>) = Some s' \<and> thread_next s' 0x200 = 0x200"
proof -
  let ?s = "demo\<lparr>thread_join := (\<lambda>_. NULL)(0x100 := 0x200)\<rparr>"
  have k: "kinv ?s demo_lists [0x300] []" using core_eqD(1) [of demo ?s] demo_kinv by (simp add: core_eq_def)
  have f: "t_mutex_list demo = (\<lambda>_. NULL)" "delay_prev demo = (\<lambda>_. NULL)" by (simp_all add: demo_def rtx0_def)
  show ?thesis using stale_join_loops [OF k, of "0x100" "0x200" "[]"] f by auto
qed

end
