(* ===== verification/DemoWait.thy ===== *)
theory DemoWait
  imports Demo
begin

text \<open>
  Concrete systems with an object of each kind: as \<open>demo\<close>, but the thread \<open>0x300\<close> waits five ticks
  in the state \<open>st\<close> on the object \<open>0x700\<close>, whose identifier is \<open>i\<close>.
\<close>

definition demo_on :: "u8 \<Rightarrow> u8 \<Rightarrow> rtx" where
  "demo_on i st = demo\<lparr>
     o_id := (\<lambda>_. 0)(0x100 := 1, 0x200 := 1, 0x300 := 1, 0x700 := i),
     o_state := (\<lambda>_. 0)(0x100 := 2, 0x200 := 1, 0x300 := st),
     thread_next := (\<lambda>_. 0)(0x10 := 0x200, 0x700 := 0x300),
     thread_prev := (\<lambda>_. 0)(0x200 := 0x10, 0x300 := 0x700)\<rparr>"

definition demo_on_lists :: "addr \<Rightarrow> addr list" where
  "demo_on_lists = (\<lambda>_. [])(0x10 := [0x200], 0x700 := [0x300])"

lemma demo_on_thrs: "st \<noteq> osRtxThreadTerminated \<Longrightarrow> i \<noteq> osRtxIdThread \<Longrightarrow> thrs (demo_on i st) = {0x100, 0x200, 0x300}"
  by (auto simp: thrs_def demo_on_def split: if_splits)

lemma demo_on_objs: "has_thread_list i \<Longrightarrow> objs (demo_on i st) = {0x10, 0x700}"
  by (auto simp: objs_def has_thread_list_def demo_on_def demo_def rtx0_def split: if_splits)

lemma demo_on_kst:
  assumes i: "has_thread_list i" and st: "is_blocked st"
  shows "kst (demo_on i st) demo_on_lists {0x300} {}"
proof -
  have i1: "i \<noteq> osRtxIdThread" using i by (auto simp: has_thread_list_def)
  note T = demo_on_thrs [OF is_blocked_not_terminated [OF st] i1]
  show ?thesis
    unfolding kst_def T demo_on_objs [OF i]
  proof (intro conjI allI)
    show "tl_inv (thread_next (demo_on i st)) (thread_prev (demo_on i st)) {0x10, 0x700} {0x100, 0x200, 0x300} demo_on_lists"
    proof (rule tl_invI)
      show "thread_prev (demo_on i st) t = NULL" if "t \<in> {0x100, 0x200, 0x300}" "\<And>ob. t \<notin> set (demo_on_lists ob)" for t
      proof -
        have "t \<notin> set (demo_on_lists 0x10)" "t \<notin> set (demo_on_lists 0x700)" by (rule that(2))+
        then show ?thesis using that(1) by (auto simp: demo_on_def demo_on_lists_def)
      qed
    qed (auto simp: demo_on_def demo_on_lists_def split: if_splits)
    show "part_ok (demo_on i st) demo_on_lists {0x300} {}"
      by (rule part_okI, unfold T)
        (use st i in \<open>auto simp: demo_on_def demo_def demo_on_lists_def rtx0_def split: if_splits\<close>)
    show "prio_sorted (t_priority (demo_on i st)) (demo_on_lists ob)" for ob
      by (auto simp: demo_on_lists_def prio_sorted_Cons)
    show "stacks_ok (demo_on i st)"
      unfolding stacks_ok_def T by (simp add: demo_on_def demo_def rtx0_def osRtxThreadRegPtr_def StackOffsetR0_def)
    show "o_id (demo_on i st) (ready_obj (demo_on i st)) = osRtxIdInvalid" by (simp add: demo_on_def)
  qed
qed

lemma demo_on_kinv: "has_thread_list i \<Longrightarrow> is_blocked st \<Longrightarrow> kinv (demo_on i st) demo_on_lists [0x300] []"
  unfolding kinv_def using demo_on_kst
  by (simp add: dl_inv_def) (simp add: demo_on_def demo_def rtx0_def)

lemma demo_on_simps [simp]:
  "stable (demo_on i st)" "k_state (demo_on i st) = osRtxKernelRunning" "run_curr (demo_on i st) = 0x100"
  "run_next (demo_on i st) = 0x100" "ready_obj (demo_on i st) = 0x10" "isr_inv (demo_on i st)" "isr_items (demo_on i st) = []"
  "demo_on_lists 0x10 = [0x200]" "demo_on_lists 0x700 = [0x300]" "o_id (demo_on i st) 0x700 = i"
  "delays (demo_on i st) [0x300] = [(0x300, 5)]" "t_priority (demo_on i st) = t_priority demo"
  by (simp_all add: demo_on_def stable_def isr_inv_def isr_items_def demo_on_lists_def)
    (simp_all add: demo_def rtx0_def delays_def)

text \<open>Updates of fields the scheduler does not look at.\<close>

lemma core_eq_kinv: "core_eq s s' \<Longrightarrow> kinv s L D W \<Longrightarrow> kinv s' L D W"
  by (simp add: core_eqD)

end
