(* ===== verification/FlagsSpec.thy ===== *)
theory FlagsSpec
  imports EvFlags ThreadSvc Semaphore Prio DemoWait
begin

text \<open>
  What event flags and thread flags promise: setting flags serves the waiting threads in
  their order until none of them is satisfied, a wait takes what it waited for, and no wakeup is
  lost between threads and interrupts.
\<close>

section \<open>Checking flags\<close>

text \<open>The wait is satisfied by the value \<open>v\<close>; the call then returns \<open>v\<close> itself, so \<open>v\<close> cannot be 0.\<close>

definition satisfied :: "u32 \<Rightarrow> u32 \<Rightarrow> u32 \<Rightarrow> bool" where
  "satisfied v flags options \<longleftrightarrow> v \<noteq> 0 \<and> (if options AND osFlagsWaitAll \<noteq> 0 then v AND flags = flags else v AND flags \<noteq> 0)"

definition flags_taken :: "u32 \<Rightarrow> u32 \<Rightarrow> u32 \<Rightarrow> u32" where
  "flags_taken v flags options = (if options AND osFlagsNoClear = 0 then v AND NOT flags else v)"

lemma flags_check_eq:
  "flags_check v flags options = (if satisfied v flags options then (v, flags_taken v flags options) else (0, v))"
  by (auto simp: flags_check_def satisfied_def flags_taken_def atomic_chk32_all_def atomic_chk32_any_def)

lemma satisfied_mono:
  assumes "v' AND v = v'" "satisfied v' flags options"
  shows "satisfied v flags options"
proof -
  have nz: "v \<noteq> 0" using assms by (auto simp: satisfied_def)
  show ?thesis
  proof (cases "options AND osFlagsWaitAll \<noteq> 0")
    case True
    then have "v' AND flags = flags" using assms(2) by (simp add: satisfied_def)
    then have "v AND flags = flags" using assms(1) by (metis and.assoc and.commute)
    then show ?thesis using True nz by (simp add: satisfied_def)
  next
    case False
    then have "v' AND flags \<noteq> 0" using assms(2) by (auto simp: satisfied_def)
    then have "v AND flags \<noteq> 0" using assms(1) by (metis and.assoc and_zero_eq)
    then show ?thesis using False nz by (simp add: satisfied_def)
  qed
qed

lemma flags_taken_sub: "flags_taken v flags options AND v = flags_taken v flags options"
  by (auto simp: flags_taken_def bit_eq_iff bit_simps)

section \<open>Serving the waiting threads\<close>

text \<open>
  The reference definition: the threads are tried in their order, \<open>wt\<close> and \<open>opt\<close> are what they wait
  for; the result is the threads that are served, with the value each returns, and the flags left.
\<close>

fun serve :: "(addr \<Rightarrow> u32) \<Rightarrow> (addr \<Rightarrow> u32) \<Rightarrow> addr list \<Rightarrow> u32 \<Rightarrow> (addr \<times> u32) list \<times> u32" where
  "serve wt opt [] v = ([], v)"
| "serve wt opt (t # ts) v =
     (if satisfied v (wt t) (opt t)
      then (let (ws, v') = serve wt opt ts (flags_taken v (wt t) (opt t)) in ((t, v) # ws, v'))
      else serve wt opt ts v)"

text \<open>The value \<open>osEventFlagsSet\<close> returns: the flags before the last thread took them.\<close>

definition served_result :: "(addr \<Rightarrow> u32) \<Rightarrow> (addr \<Rightarrow> u32) \<Rightarrow> (addr \<times> u32) list \<Rightarrow> u32 \<Rightarrow> u32" where
  "served_result wt opt ws v = (case rev ws of [] \<Rightarrow> v | (t, r) # _ \<Rightarrow> flags_taken r (wt t) (opt t))"

lemma sub_trans: "(a :: u32) AND b = a \<Longrightarrow> b AND c = b \<Longrightarrow> a AND c = a"
  by (metis and.assoc)

lemma serve_sub: "snd (serve wt opt ts v) AND v = snd (serve wt opt ts v)"
proof (induction ts arbitrary: v)
  case (Cons t ts)
  show ?case
    using Cons.IH [of v] sub_trans [OF Cons.IH [of "flags_taken v (wt t) (opt t)"] flags_taken_sub]
    by (simp add: case_prod_beta Let_def)
qed simp

lemma serve_woken: "map fst (fst (serve wt opt ts v)) = filter (\<lambda>t. t \<in> fst ` set (fst (serve wt opt ts v))) ts \<and>
    fst ` set (fst (serve wt opt ts v)) \<subseteq> set ts" if "distinct ts"
  using that
proof (induction ts arbitrary: v)
  case (Cons t ts)
  let ?ws = "\<lambda>v. fst ` set (fst (serve wt opt ts v))"
  have t: "t \<notin> ?ws v" for v using Cons by auto
  have "filter (\<lambda>x. x \<in> insert t (?ws v)) ts = filter (\<lambda>x. x \<in> ?ws v) ts" for v
    by (rule filter_cong) (use Cons.prems in auto)
  then show ?case using Cons.IH Cons.prems t by (auto simp: case_prod_beta Let_def)
qed simp

text \<open>When all have been tried, none of those left is satisfied.\<close>

lemma serve_left:
  "t \<in> set ts \<Longrightarrow> t \<notin> fst ` set (fst (serve wt opt ts v)) \<Longrightarrow> \<not> satisfied (snd (serve wt opt ts v)) (wt t) (opt t)"
proof (induction ts arbitrary: v)
  case (Cons u ts)
  show ?case
  proof (cases "satisfied v (wt u) (opt u)")
    case True
    then show ?thesis using Cons by (auto simp: case_prod_beta Let_def)
  next
    case False
    then have "\<not> satisfied (snd (serve wt opt ts v)) (wt u) (opt u)" using satisfied_mono serve_sub by metis
    then show ?thesis using Cons False by auto
  qed
qed simp

lemma serve_flags: "(t, r) \<in> set (fst (serve wt opt ts v)) \<Longrightarrow> satisfied r (wt t) (opt t) \<and> r AND v = r"
proof (induction ts arbitrary: v)
  case (Cons u ts)
  show ?case
    using Cons.IH [of v] Cons.IH [of "flags_taken v (wt u) (opt u)"] Cons.prems sub_trans [OF _ flags_taken_sub [of v "wt u" "opt u"], of r]
    by (auto simp: case_prod_beta Let_def split: if_splits)
qed simp

section \<open>Waking one thread of many\<close>

lemma unlist_exit_kinv:
  assumes k: "kinv s L D W" and t: "t \<in> set D \<or> t \<in> set W"
  shows "\<exists>s1 s'. osRtxThreadListRemove t s = Some s1 \<and> osRtxThreadWaitExit t v False s1 = Some s' \<and> sched_frame s s' \<and>
    run_next s' = run_next s \<and> kinv s' (wake s t L) (remove1 t D) (remove1 t W) \<and>
    mem32 s' = (mem32 s)(osRtxThreadRegPtr t s := v) \<and> delays s' (remove1 t D) = filter (\<lambda>(x, n). x \<noteq> t) (delays s D)"
proof -
  note K = kinvD [OF k]
  obtain s1 where s1: "osRtxThreadListRemove t s = Some s1" "rl_frame s s1" "run_next s1 = run_next s"
    "kst s1 (unlist t L) (set D \<union> set W) {}" using unlist_kst [OF K(1), of t] t by blast
  note F = sched_frameD [OF rl_frame_sched [OF s1(2)]]
  have k1: "kinv s1 (unlist t L) D W" using s1(4) K(2) rl_frame_dl(1) [OF s1(2)] by (simp add: kinv_def)
  have nl: "t \<notin> set (unlist t L a)" for a using tl_invD(2) [OF kstD(1) [OF K(1)], of a] by (simp add: unlist_def)
  obtain s' where s': "osRtxThreadWaitExit t v False s1 = Some s'" "sched_frame s1 s'"
    "kinv s' (exit_lists s1 t False (unlist t L)) (remove1 t D) (remove1 t W)" "run_next s' = exit_run s1 t False"
    "mem32 s' = (mem32 s1)(osRtxThreadRegPtr t s1 := v)"
    "delays s' (remove1 t D) = filter (\<lambda>(x, n). x \<noteq> t) (delays s1 D)"
    using osRtxThreadWaitExit_kinv [OF k1 t nl, of False v] by blast
  have "exit_lists s1 t False (unlist t L) = wake s t L"
    by (simp add: exit_lists_def wake_def ready_put_rl [OF s1(2)])
  then show ?thesis
    using s1 s' sched_frame_trans [OF rl_frame_sched [OF s1(2)] s'(2)] rl_frameD(6) [OF s1(2)]
      rl_frame_dl(2) [OF s1(2)] F
    by (simp add: exit_run_def osRtxThreadRegPtr_def)
qed

lemma wake_other: "ob \<noteq> ready_obj s \<Longrightarrow> wake s t L ob = remove1 t (L ob)"
  by (simp add: wake_def ready_put_def unlist_def)

lemma kinv_next:
  assumes "kinv s L D W" "L ob = xs @ t # ys"
  shows "thread_next s t = hd0 ys" "t \<noteq> NULL" "t \<notin> set xs" "t \<notin> set ys"
proof -
  note T = kstD(1) [OF kinvD(1) [OF assms(1)]]
  have "ob \<in> objs s" using tl_invD(5) [OF T, of t ob] assms(2) by simp
  then have c: "chain (thread_next s) (thread_prev s) ob (xs @ t # ys)" using tl_invD(1) [OF T, of ob] assms(2) by simp
  show "thread_next s t = hd0 ys" "t \<noteq> NULL" by (rule chain_middle [OF c])+
  show "t \<notin> set xs" "t \<notin> set ys" using tl_invD(2) [OF T, of ob] assms(2) by auto
qed

section \<open>The loops of the event flags\<close>

definition is_evflags :: "rtx \<Rightarrow> addr \<Rightarrow> bool" where
  "is_evflags s ef \<longleftrightarrow> ef \<noteq> NULL \<and> o_id s ef = osRtxIdEventFlags"

abbreviation wait_options :: "rtx \<Rightarrow> addr \<Rightarrow> u32" where
  "wait_options s t \<equiv> ucast (t_flags_options s t)"

lemma is_evflags_objs:
  assumes "is_evflags s ef" "kinv s L D W"
  shows "ef \<in> objs s" "ef \<noteq> ready_obj s"
  using assms kstD(5) [OF kinvD(1) [OF assms(2)]]
  by (auto simp: is_evflags_def objs_def has_thread_list_def)

lemma core_eq_flags: "core_eq s (s\<lparr>e_event_flags := f\<rparr>)"
  by (simp add: core_eq_def)

lemma EventFlagsCheck_eq:
  "EventFlagsCheck ef flags options s =
    (if satisfied (e_event_flags s ef) flags options
     then (e_event_flags s ef, s\<lparr>e_event_flags := (e_event_flags s)(ef := flags_taken (e_event_flags s ef) flags options)\<rparr>)
     else (0, s))"
proof -
  have "(e_event_flags s)(ef := e_event_flags s ef) = e_event_flags s" by simp
  then show ?thesis by (simp add: EventFlagsCheck_def flags_check_eq)
qed

text \<open>The relation of the state after some threads have been served with the state before.\<close>

definition served :: "rtx \<Rightarrow> addr \<Rightarrow> (addr \<times> u32) list \<Rightarrow> u32 \<Rightarrow> rtx \<Rightarrow> bool" where
  "served s ef ws v s' \<longleftrightarrow> sched_frame (s\<lparr>e_event_flags := (e_event_flags s)(ef := v)\<rparr>) s' \<and> run_next s' = run_next s \<and>
     mem32 s' = fold (\<lambda>(t, r) m. m(osRtxThreadRegPtr t s := r)) ws (mem32 s)"

lemma served_simps:
  assumes "served s ef ws v s'"
  shows "wake s' = wake s" "t_wait_flags s' = t_wait_flags s" "t_flags_options s' = t_flags_options s"
    "e_event_flags s' = (e_event_flags s)(ef := v)" "osRtxThreadRegPtr t s' = osRtxThreadRegPtr t s" "o_id s' = o_id s"
    "ready_obj s' = ready_obj s" "run_curr s' = run_curr s" "k_state s' = k_state s" "t_priority s' = t_priority s"
    "run_next s' = run_next s"
proof -
  have f: "sched_frame (s\<lparr>e_event_flags := (e_event_flags s)(ef := v)\<rparr>) s'" and r: "run_next s' = run_next s"
    using assms by (simp_all add: served_def)
  note F = sched_frameD [OF f]
  show "wake s' = wake s" "t_wait_flags s' = t_wait_flags s" "t_flags_options s' = t_flags_options s"
    "e_event_flags s' = (e_event_flags s)(ef := v)" "osRtxThreadRegPtr t s' = osRtxThreadRegPtr t s" "o_id s' = o_id s"
    "ready_obj s' = ready_obj s" "run_curr s' = run_curr s" "k_state s' = k_state s" "t_priority s' = t_priority s"
    "run_next s' = run_next s"
    by (simp_all add: F r osRtxThreadRegPtr_def) (intro ext, simp add: F wake_def ready_put_def)
qed

lemma served_refl: "served s ef [] (e_event_flags s ef) s"
proof -
  have "s\<lparr>e_event_flags := (e_event_flags s)(ef := e_event_flags s ef)\<rparr> = s" by simp
  then show ?thesis using sched_frame_refl [of s] by (simp add: served_def)
qed

text \<open>One thread served.\<close>

lemma serve_one:
  assumes k: "kinv s L D W" and ef: "ef \<in> objs s" "ef \<noteq> ready_obj s" and L: "L ef = xs @ t # ys"
    and sat: "satisfied (e_event_flags s ef) (t_wait_flags s t) (wait_options s t)"
  defines "v \<equiv> e_event_flags s ef"
  defines "v' \<equiv> flags_taken v (t_wait_flags s t) (wait_options s t)"
  shows "\<exists>s1 s'. osRtxThreadListRemove t (s\<lparr>e_event_flags := (e_event_flags s)(ef := v')\<rparr>) = Some s1 \<and>
    osRtxThreadWaitExit t v False s1 = Some s' \<and> served s ef [(t, v)] v' s' \<and> thread_next s t = hd0 ys \<and>
    kinv s' (wake s t L) (remove1 t D) (remove1 t W) \<and> wake s t L ef = xs @ ys \<and>
    t_flags_options s1 = t_flags_options s \<and> t_wait_flags s1 = t_wait_flags s"
proof -
  let ?s = "s\<lparr>e_event_flags := (e_event_flags s)(ef := v')\<rparr>"
  note C = core_eqD [OF core_eq_flags [of s "(e_event_flags s)(ef := v')"]]
  note N = kinv_next [OF k L]
  have t: "t \<in> set D \<or> t \<in> set W" using kinv_waiters [OF k ef(2), of t] L by simp
  have k1: "kinv ?s L D W" using k C(1) by simp
  obtain s1 s' where s': "osRtxThreadListRemove t ?s = Some s1" "osRtxThreadWaitExit t v False s1 = Some s'" "sched_frame ?s s'"
    "run_next s' = run_next ?s" "kinv s' (wake ?s t L) (remove1 t D) (remove1 t W)"
    "mem32 s' = (mem32 ?s)(osRtxThreadRegPtr t ?s := v)" using unlist_exit_kinv [OF k1 t, of v] by blast
  have w: "wake ?s = wake s" by (simp add: wake_def ready_put_def fun_eq_iff)
  have "wake s t L ef = xs @ ys" using wake_other [OF ef(2), of t L] L N by (simp add: remove1_append)
  moreover have "served s ef [(t, v)] v' s'" using s' by (simp add: served_def osRtxThreadRegPtr_def)
  moreover have "t_flags_options s1 = t_flags_options s" "t_wait_flags s1 = t_wait_flags s"
  proof -
    obtain s2 where "osRtxThreadListRemove t ?s = Some s2" "rl_frame ?s s2"
      using unlist_kst [OF kinvD(1) [OF k1], of t] t by blast
    then show "t_flags_options s1 = t_flags_options s" "t_wait_flags s1 = t_wait_flags s"
      using s'(1) rl_frame_sched sched_frameD(9,10) [of ?s s1] by auto
  qed
  ultimately show ?thesis using s' w N(1) by auto
qed

lemma sched_frame_flags:
  assumes "sched_frame (s\<lparr>e_event_flags := f\<rparr>) s'"
  shows "sched_frame (s\<lparr>e_event_flags := g\<rparr>) (s'\<lparr>e_event_flags := g\<rparr>)"
proof -
  let ?s = "\<lambda>f. s\<lparr>e_event_flags := f\<rparr>"
  obtain nx pv dn dp d dl wl st m r where e: "s' = (?s f)\<lparr>thread_next := nx, thread_prev := pv,
     delay_next := dn, delay_prev := dp, t_delay := d, delay_list := dl, wait_list := wl, o_state := st,
     mem32 := m, run_next := r\<rparr>" and T: "tl_same (objs (?s f)) (thrs (?s f)) (?s f) nx pv"
     "\<forall>x. x \<notin> thrs (?s f) \<longrightarrow> st x = o_state s x"
     "\<forall>a. (\<forall>t\<in>thrs (?s f). a \<noteq> osRtxThreadRegPtr t (?s f)) \<longrightarrow> m a = mem32 s a" "thrs s' = thrs (?s f)"
    using assms unfolding sched_frame_def by auto
  have th: "thrs (?s f) = thrs (?s g)" "objs (?s f) = objs (?s g)" "thrs (s'\<lparr>e_event_flags := g\<rparr>) = thrs s'"
    by (simp_all add: thrs_def objs_def)
  show ?thesis
    unfolding sched_frame_def
  proof (intro conjI exI)
    show "s'\<lparr>e_event_flags := g\<rparr> = (?s g)\<lparr>thread_next := nx, thread_prev := pv,
     delay_next := dn, delay_prev := dp, t_delay := d, delay_list := dl, wait_list := wl, o_state := st,
     mem32 := m, run_next := r\<rparr>" unfolding e by simp
    show "tl_same (objs (?s g)) (thrs (?s g)) (?s g) nx pv" using T(1) th unfolding tl_same_def by simp
    show "\<forall>x. x \<notin> thrs (?s g) \<longrightarrow> st x = o_state (?s g) x" using T(2) th by simp
    show "\<forall>a. (\<forall>t\<in>thrs (?s g). a \<noteq> osRtxThreadRegPtr t (?s g)) \<longrightarrow> m a = mem32 (?s g) a"
      using T(3) th by (simp add: osRtxThreadRegPtr_def)
    show "thrs (s'\<lparr>e_event_flags := g\<rparr>) = thrs (?s g)" using T(4) th by simp
  qed
qed

lemma served_Cons:
  assumes a: "served s ef [(t, r)] v1 s1" and b: "served s1 ef ws v s'"
  shows "served s ef ((t, r) # ws) v s'"
proof -
  note A = served_simps [OF a]
  have f1: "sched_frame (s\<lparr>e_event_flags := (e_event_flags s)(ef := v1)\<rparr>) s1"
    and m1: "mem32 s1 = (mem32 s)(osRtxThreadRegPtr t s := r)" using a by (simp_all add: served_def)
  have "(e_event_flags s1)(ef := v) = (e_event_flags s)(ef := v)" by (simp add: A)
  then have "sched_frame (s1\<lparr>e_event_flags := (e_event_flags s)(ef := v)\<rparr>) s'" using b by (simp add: served_def)
  with sched_frame_flags [OF f1] have "sched_frame (s\<lparr>e_event_flags := (e_event_flags s)(ef := v)\<rparr>) s'"
    by (rule sched_frame_trans)
  then show ?thesis using b by (simp add: served_def A m1)
qed

text \<open>The two loops agree with the reference definition.\<close>

definition rest_lists :: "rtx \<Rightarrow> (addr \<times> u32) list \<Rightarrow> (addr \<Rightarrow> addr list) \<Rightarrow> addr \<Rightarrow> addr list" where
  "rest_lists s ws L = fold (wake s) (map fst ws) L"

definition awake :: "(addr \<times> u32) list \<Rightarrow> addr list \<Rightarrow> addr list" where
  "awake ws D = fold remove1 (map fst ws) D"

abbreviation serve_in :: "rtx \<Rightarrow> addr list \<Rightarrow> u32 \<Rightarrow> (addr \<times> u32) list \<times> u32" where
  "serve_in s ts v \<equiv> serve (t_wait_flags s) (wait_options s) ts v"

lemma ef_loops:
  assumes "kinv s L D W" "ef \<in> objs s" "ef \<noteq> ready_obj s" "L ef = xs @ ts"
    and "serve_in s ts (e_event_flags s ef) = (ws, v)"
  shows "\<exists>s'. ef_set_loop ef (hd0 ts) x s = Some (served_result (t_wait_flags s) (wait_options s) ws x, s') \<and>
    ef_post_loop ef (hd0 ts) s = Some s' \<and> served s ef ws v s' \<and>
    kinv s' (rest_lists s ws L) (awake ws D) (awake ws W)"
  using assms
proof (induction ts arbitrary: s L D W xs x ws v)
  case Nil
  then show ?case using served_refl [of s ef]
    by (simp add: ef_set_loop.simps [of ef 0] ef_post_loop.simps [of ef 0] served_result_def rest_lists_def awake_def)
next
  case (Cons t ts)
  note k = Cons.prems(1) and ef = Cons.prems(2,3) and L = Cons.prems(4)
  note N = kinv_next [OF k L]
  show ?case
  proof (cases "satisfied (e_event_flags s ef) (t_wait_flags s t) (wait_options s t)")
    case False
    have "L ef = (xs @ [t]) @ ts" "serve_in s ts (e_event_flags s ef) = (ws, v)" using L Cons.prems(5) False by auto
    from Cons.IH [OF k ef this, of x] show ?thesis
      using N False by (simp add: ef_set_loop.simps [of ef t] ef_post_loop.simps [of ef t] EventFlagsCheck_eq)
  next
    case True
    let ?v = "e_event_flags s ef"
    let ?v' = "flags_taken ?v (t_wait_flags s t) (wait_options s t)"
    obtain ws1 where ws: "ws = (t, ?v) # ws1" "serve_in s ts ?v' = (ws1, v)"
      using Cons.prems(5) True by (auto simp: Let_def split: prod.splits)
    obtain s1 s2 where s: "osRtxThreadListRemove t (s\<lparr>e_event_flags := (e_event_flags s)(ef := ?v')\<rparr>) = Some s1"
      "osRtxThreadWaitExit t ?v False s1 = Some s2" "served s ef [(t, ?v)] ?v' s2"
      "kinv s2 (wake s t L) (remove1 t D) (remove1 t W)" "wake s t L ef = xs @ ts"
      "t_flags_options s1 = t_flags_options s" "t_wait_flags s1 = t_wait_flags s"
      using serve_one [OF k ef L True] by blast
    note S = served_simps [OF s(3)]
    have ef2: "ef \<in> objs s2" "ef \<noteq> ready_obj s2" using ef by (simp_all add: objs_def S)
    have sv2: "serve_in s2 ts (e_event_flags s2 ef) = (ws1, v)" using ws(2) by (simp add: S)
    from Cons.IH [OF s(4) ef2 s(5) sv2, of ?v'] obtain s' where
      s': "ef_set_loop ef (hd0 ts) ?v' s2 = Some (served_result (t_wait_flags s2) (wait_options s2) ws1 ?v', s')"
      "ef_post_loop ef (hd0 ts) s2 = Some s'" "served s2 ef ws1 v s'"
      "kinv s' (rest_lists s2 ws1 (wake s t L)) (awake ws1 (remove1 t D)) (awake ws1 (remove1 t W))" by blast
    have v0: "?v \<noteq> 0" using True by (simp add: satisfied_def)
    have "ef_set_loop ef t x s = ef_set_loop ef (hd0 ts) ?v' s2"
      using N s(1,2) True v0 by (simp add: ef_set_loop.simps [of ef t] EventFlagsCheck_eq flags_taken_def)
    moreover have "ef_post_loop ef t s = ef_post_loop ef (hd0 ts) s2"
      using N s(1,2) True v0 by (simp add: ef_post_loop.simps [of ef t] EventFlagsCheck_eq)
    moreover have "served_result (t_wait_flags s2) (wait_options s2) ws1 ?v' = served_result (t_wait_flags s) (wait_options s) ws x"
      by (cases "rev ws1") (simp_all add: served_result_def ws S)
    ultimately show ?thesis
      using s' served_Cons [OF s(3) s'(3)] by (simp add: ws rest_lists_def awake_def S)
  qed
qed

lemma fold_remove1: "distinct xs \<Longrightarrow> fold remove1 ts xs = filter (\<lambda>x. x \<notin> set ts) xs"
proof (induction ts arbitrary: xs)
  case (Cons t ts)
  then show ?case by (simp add: remove1_filter conj_commute)
qed simp

lemma fold_wake_other: "ob \<noteq> ready_obj s \<Longrightarrow> fold (wake s) ts L ob = fold remove1 ts (L ob)"
  by (induction ts arbitrary: L) (simp_all add: wake_other)

lemma rest_lists_other:
  assumes "kinv s L D W" "ob \<noteq> ready_obj s"
  shows "rest_lists s ws L ob = filter (\<lambda>t. t \<notin> fst ` set ws) (L ob)"
  using fold_remove1 [OF tl_invD(2) [OF kstD(1) [OF kinvD(1) [OF assms(1)]]]]
  by (simp add: rest_lists_def fold_wake_other [OF assms(2)])

section \<open>Setting flags\<close>

lemma ef_set_kinv:
  assumes k: "kinv s L D W" and st: "stable s" and ef: "is_evflags s ef" and f: "flags AND event_flags_invalid = 0"
    and sv: "serve_in s (L ef) (e_event_flags s ef OR flags) = (ws, v)"
  shows "\<exists>s1 s' L'. svcRtxEventFlagsSet ef flags s =
      Some (served_result (t_wait_flags s) (wait_options s) ws (e_event_flags s ef OR flags), s') \<and>
    served (s\<lparr>e_event_flags := (e_event_flags s)(ef := e_event_flags s ef OR flags)\<rparr>) ef ws v s1 \<and> rl_frame s1 s' \<and>
    kinv s' L' (awake ws D) (awake ws W) \<and> redisp s (rest_lists s ws L) = (L', run_next s') \<and>
    (k_state s = osRtxKernelRunning \<longrightarrow> prio_ok s' L')"
proof -
  let ?s = "s\<lparr>e_event_flags := (e_event_flags s)(ef := e_event_flags s ef OR flags)\<rparr>"
  note C = core_eqD [OF core_eq_flags [of s "(e_event_flags s)(ef := e_event_flags s ef OR flags)"]]
  have k1: "kinv ?s L D W" and ef1: "is_evflags ?s ef" using k ef C by (simp_all add: is_evflags_def)
  note ob = is_evflags_objs [OF ef1 k1]
  have sv1: "serve_in ?s (L ef) (e_event_flags ?s ef) = (ws, v)" using sv by simp
  obtain s1 where s1: "ef_set_loop ef (hd0 (L ef)) (e_event_flags s ef OR flags) ?s =
      Some (served_result (t_wait_flags ?s) (wait_options ?s) ws (e_event_flags s ef OR flags), s1)"
    "served ?s ef ws v s1" "kinv s1 (rest_lists ?s ws L) (awake ws D) (awake ws W)"
    using ef_loops [OF k1 ob, where xs = Nil and ts = "L ef", OF _ sv1] by auto
  note S = served_simps [OF s1(2)]
  have st1: "stable s1" using st S by (simp add: stable_def)
  obtain s' L' where s': "osRtxThreadDispatch NULL s1 = Some s'" "rl_frame s1 s'"
    "redisp s1 (rest_lists ?s ws L) = (L', run_next s')" "kst s' L' (set (awake ws D) \<union> set (awake ws W)) {}"
    using osRtxThreadDispatch_null [OF kinvD(1) [OF s1(3)] st1] by blast
  have "wake ?s = wake s" by (simp add: wake_def ready_put_def fun_eq_iff)
  then have rl: "rest_lists ?s ws L = rest_lists s ws L" by (simp add: rest_lists_def)
  have pr: "preempts s1 = preempts s" "ready_push s1 = ready_push s"
    by (simp_all add: preempts_def ready_push_def fun_eq_iff S)
  have "redisp s1 (rest_lists ?s ws L) = redisp s (rest_lists s ws L)" unfolding redisp_def pr rl by (simp add: S split: list.split)
  moreover have "kinv s' L' (awake ws D) (awake ws W)"
    using s'(4) s1(3) rl_frame_dl(1) [OF s'(2)] by (simp add: kinv_def)
  moreover have "prio_ok s' L'" if "k_state s = osRtxKernelRunning"
    by (rule prio_ok_redisp [OF kstD(3) [OF kinvD(1) [OF s1(3)]] st1 _ s'(2,3)]) (use that S in simp)
  moreover have "svcRtxEventFlagsSet ef flags s =
      Some (served_result (t_wait_flags s) (wait_options s) ws (e_event_flags s ef OR flags), s')"
  proof -
    have "thread_next ?s ef = hd0 (L ef)" using kinv_head(1) [OF k1 ob(1)] .
    then show ?thesis
      using ef f s1(1) s'(1)
      by (simp add: svcRtxEventFlagsSet_def is_evflags_def EventFlagsSet_def atomic_set32_def)
  qed
  ultimately show ?thesis using s1(2) s'(2,3) by (intro exI [of _ s1] exI [of _ s'] exI [of _ L']) simp
qed

section \<open>No wakeup is lost\<close>

text \<open>
  Unless the object is in the ISR queue, no waiting thread is satisfied by the flags.
\<close>

definition ef_ok :: "rtx \<Rightarrow> (addr \<Rightarrow> addr list) \<Rightarrow> addr \<Rightarrow> bool" where
  "ef_ok s L ef \<longleftrightarrow> ef \<in> set (isr_items s) \<or>
     (\<forall>t\<in>set (L ef). \<not> satisfied (e_event_flags s ef) (t_wait_flags s t) (wait_options s t))"

definition ef_state :: "addr \<Rightarrow> rtx \<Rightarrow> bool" where
  "ef_state ef s \<longleftrightarrow> (\<exists>L D W. kinv s L D W \<and> stable s \<and> is_evflags s ef \<and> isr_inv s \<and> ef_ok s L ef)"

text \<open>
  The steps of the event flags: a thread waits for flags, sets or clears them, an interrupt does so, the
  post-ISR processing takes the object from the queue, or a tick wakes the threads whose timeout has run out.
\<close>

inductive ef_step :: "addr \<Rightarrow> rtx \<Rightarrow> rtx \<Rightarrow> bool" for ef where
  wait: "osEventFlagsWait False ef flags options timeout s = Some (r, s') \<Longrightarrow> ef_step ef s s'"
| set_flags: "osEventFlagsSet False ef flags s = Some (r, s') \<Longrightarrow> ef_step ef s s'"
| clear: "osEventFlagsClear irq ef flags s = Some (r, s') \<Longrightarrow> ef_step ef s s'"
| isr_wait: "osEventFlagsWait True ef flags options timeout s = Some (r, s') \<Longrightarrow> ef_step ef s s'"
| isr_set: "osEventFlagsSet True ef flags s = Some (r, s') \<Longrightarrow> ef_step ef s s'"
| post: "isr_get s = (Some ef, s1) \<Longrightarrow> osRtxEventFlagsPostProcess ef s1 = Some s' \<Longrightarrow> ef_step ef s s'"
| tick: "osRtxThreadDelayTick s = Some s' \<Longrightarrow> ef_step ef s s'"

inductive_cases ef_stepE: "ef_step ef s s'"

lemma ef_stateI:
  "kinv s L D W \<Longrightarrow> stable s \<Longrightarrow> is_evflags s ef \<Longrightarrow> isr_inv s \<Longrightarrow> ef_ok s L ef \<Longrightarrow> ef_state ef s"
  unfolding ef_state_def by blast

lemma ef_state_cs:
  assumes "kinv s L D W" "is_evflags s ef" "isr_inv s" "ef_ok s L ef"
  shows "ef_state ef (context_switch s)"
proof (rule ef_stateI)
  show "kinv (context_switch s) L D W" "stable (context_switch s)" "isr_inv (context_switch s)"
    using assms by (simp_all add: context_switch_simps)
  show "is_evflags (context_switch s) ef" "ef_ok (context_switch s) L ef"
    using assms by (simp_all add: is_evflags_def ef_ok_def context_switch_simps) (simp_all add: context_switch_def)
qed

lemma isr_flags [simp]: "isr_items (s\<lparr>e_event_flags := f\<rparr>) = isr_items s" "isr_inv (s\<lparr>e_event_flags := f\<rparr>) = isr_inv s"
  by (simp_all add: isr_items_def isr_inv_def)

text \<open>Taking flags away satisfies nobody.\<close>

lemma ef_state_less:
  assumes "kinv s L D W" "is_evflags s ef" "isr_inv s" "ef_ok s L ef" "v AND e_event_flags s ef = v"
  defines "s' \<equiv> s\<lparr>e_event_flags := (e_event_flags s)(ef := v)\<rparr>"
  shows "ef_state ef (context_switch s')" "stable s \<Longrightarrow> ef_state ef s'"
proof -
  note C = core_eqD [OF core_eq_flags [of s "(e_event_flags s)(ef := v)"], folded s'_def]
  have ok: "ef_ok s' L ef"
    using assms(4) satisfied_mono [OF assms(5)] by (auto simp: ef_ok_def s'_def)
  have r: "kinv s' L D W" "is_evflags s' ef" "isr_inv s'" using assms(1-3) C by (simp_all add: s'_def is_evflags_def)
  show "ef_state ef (context_switch s')" by (rule ef_state_cs [OF r ok])
  show "stable s \<Longrightarrow> ef_state ef s'" using r ok C(4) by (blast intro: ef_stateI)
qed

lemma wait_options_low:
  "(ucast (ucast (options :: u32) :: u8) :: u32) AND osFlagsWaitAll = options AND osFlagsWaitAll"
  by (rule bit_word_eqI) (auto simp: bit_simps)

lemma satisfied_options: "satisfied v flags (ucast (ucast (options :: u32) :: u8)) = satisfied v flags options"
  by (simp only: satisfied_def wait_options_low)

text \<open>The cases of a wait; \<open>s1\<close> has what the running thread waits for.\<close>

definition wait_state :: "u32 \<Rightarrow> u32 \<Rightarrow> rtx \<Rightarrow> rtx" where
  "wait_state flags options s = s\<lparr>t_wait_flags := (t_wait_flags s)(run_curr s := flags),
     t_flags_options := (t_flags_options s)(run_curr s := ucast options)\<rparr>"

lemma wait_state_core: "core_eq s (wait_state flags options s)"
  by (simp add: core_eq_def wait_state_def)

lemma ef_wait_cases:
  assumes k: "kinv s L D W" and st: "stable s" and ef: "is_evflags s ef" and f: "flags AND event_flags_invalid = 0"
    and rc: "run_curr s \<noteq> NULL"
  shows "satisfied (e_event_flags s ef) flags options \<Longrightarrow> svcRtxEventFlagsWait ef flags options timeout s =
      Some (e_event_flags s ef, s\<lparr>e_event_flags := (e_event_flags s)(ef := flags_taken (e_event_flags s ef) flags options)\<rparr>)"
    and "\<not> satisfied (e_event_flags s ef) flags options \<Longrightarrow>
      svcRtxEventFlagsWait ef flags options 0 s = Some (osErrorResource, s)"
    and "\<not> satisfied (e_event_flags s ef) flags options \<Longrightarrow> timeout \<noteq> 0 \<Longrightarrow> \<not> can_wait s L \<Longrightarrow>
      svcRtxEventFlagsWait ef flags options timeout s = Some (osErrorTimeout, wait_state flags options s)"
    and "\<not> satisfied (e_event_flags s ef) flags options \<Longrightarrow> timeout \<noteq> 0 \<Longrightarrow> can_wait s L \<Longrightarrow>
      \<exists>s' D' W'. svcRtxEventFlagsWait ef flags options timeout s = Some (osErrorTimeout, s') \<and>
        sched_frame (wait_state flags options s) s' \<and> run_next s' = hd (L (ready_obj s)) \<and>
        kinv s' (wait_lists s ef (run_curr s) L) D' W' \<and> wait_dl s (run_curr s) timeout D W s' D' W' \<and>
        o_state s' (run_curr s) = osRtxThreadWaitingEventFlags \<and> prio_ok s' (wait_lists s ef (run_curr s) L)"
proof -
  note ob = is_evflags_objs [OF ef k]
  have v0: "satisfied (e_event_flags s ef) flags options \<Longrightarrow> e_event_flags s ef \<noteq> 0" by (simp add: satisfied_def)
  then show "satisfied (e_event_flags s ef) flags options \<Longrightarrow> svcRtxEventFlagsWait ef flags options timeout s =
      Some (e_event_flags s ef, s\<lparr>e_event_flags := (e_event_flags s)(ef := flags_taken (e_event_flags s ef) flags options)\<rparr>)"
    "\<not> satisfied (e_event_flags s ef) flags options \<Longrightarrow> svcRtxEventFlagsWait ef flags options 0 s = Some (osErrorResource, s)"
    using ef f rc by (simp_all add: svcRtxEventFlagsWait_def is_evflags_def EventFlagsCheck_eq)
  assume ns: "\<not> satisfied (e_event_flags s ef) flags options" and t: "timeout \<noteq> 0"
  let ?s = "wait_state flags options s"
  note C = core_eqD [OF wait_state_core [of s flags options]]
  have k1: "kinv ?s L D W" "stable ?s" and ob1: "ef \<in> objs ?s" "ef \<noteq> ready_obj ?s" using k st ob C by simp_all
  have op: "svcRtxEventFlagsWait ef flags options timeout s =
      do { (_, s) \<leftarrow> wait_on ef osRtxThreadWaitingEventFlags timeout ?s; Some (osErrorTimeout, s) }"
    using ef f rc ns t by (simp add: svcRtxEventFlagsWait_def is_evflags_def EventFlagsCheck_eq wait_state_def Let_def)
  show "svcRtxEventFlagsWait ef flags options timeout s = Some (osErrorTimeout, ?s)" if "\<not> can_wait s L"
  proof -
    have "wait_on ef osRtxThreadWaitingEventFlags timeout ?s = Some (False, ?s)"
      by (rule wait_on_fail [OF k1(1)]) (use that C in \<open>auto simp: can_wait_def\<close>)
    then show ?thesis by (simp add: op)
  qed
  assume w: "can_wait s L"
  have c: "k_state ?s = osRtxKernelRunning" "run_curr ?s = run_curr s" "L (ready_obj ?s) \<noteq> []" using w C by (auto simp: can_wait_def)
  obtain s' D' W' where s': "wait_on ef osRtxThreadWaitingEventFlags timeout ?s = Some (True, s')" "sched_frame ?s s'"
    "run_next s' = hd (L (ready_obj ?s))" "kinv s' (wait_lists ?s ef (run_curr s) L) D' W'"
    "wait_dl ?s (run_curr s) timeout D W s' D' W'" "o_state s' (run_curr s) = osRtxThreadWaitingEventFlags"
    "prio_ok s' (wait_lists ?s ef (run_curr s) L)"
    using wait_on_kinv [OF k1(1) ob1 k1(2) c(1,2) rc c(3) _ t, of osRtxThreadWaitingEventFlags]
    by (auto simp: is_blocked_def)
  have "wait_dl ?s (run_curr s) timeout D W s' D' W' = wait_dl s (run_curr s) timeout D W s' D' W'"
    unfolding wait_dl_def C(17) by (rule refl)
  then show "\<exists>s' D' W'. svcRtxEventFlagsWait ef flags options timeout s = Some (osErrorTimeout, s') \<and>
        sched_frame (wait_state flags options s) s' \<and> run_next s' = hd (L (ready_obj s)) \<and>
        kinv s' (wait_lists s ef (run_curr s) L) D' W' \<and> wait_dl s (run_curr s) timeout D W s' D' W' \<and>
        o_state s' (run_curr s) = osRtxThreadWaitingEventFlags \<and> prio_ok s' (wait_lists s ef (run_curr s) L)"
    using s' by (intro exI [of _ s'] exI [of _ D'] exI [of _ W']) (simp add: op C)
qed

lemma ef_state_wait:
  assumes s: "ef_state ef s" and a: "svcRtxEventFlagsWait ef flags options timeout s = Some (r, s')"
  shows "ef_state ef (context_switch s')"
proof -
  obtain L D W where k: "kinv s L D W" and st: "stable s" and ef: "is_evflags s ef" and i: "isr_inv s"
    and ok: "ef_ok s L ef" using s by (auto simp: ef_state_def)
  have same: "ef_state ef (context_switch s)" by (rule ef_state_cs [OF k ef i ok])
  show ?thesis
  proof (cases "run_curr s = NULL \<or> flags AND event_flags_invalid \<noteq> 0")
    case True
    then have "s' = s" using a by (auto simp: svcRtxEventFlagsWait_def Let_def split: if_splits)
    then show ?thesis using same by simp
  next
    case False
    then have f: "flags AND event_flags_invalid = 0" and rc: "run_curr s \<noteq> NULL" by auto
    note W = ef_wait_cases [OF k st ef f rc]
    let ?sat = "satisfied (e_event_flags s ef) flags options"
    let ?s = "wait_state flags options s"
    have rn: "run_curr s \<notin> set (L ef)"
      using running_in_no_list [OF kinvD(1) [OF k]] st rc by (simp add: stable_def)
    have ok1: "ef_ok ?s (L(ef := xs)) ef" if "set xs \<subseteq> insert (run_curr s) (set (L ef))" "\<not> ?sat" for xs
    proof -
      have "\<not> satisfied (e_event_flags ?s ef) (t_wait_flags ?s t) (wait_options ?s t)"
        if "ef \<notin> set (isr_items s)" "t \<in> insert (run_curr s) (set (L ef))" for t
        using that ok \<open>\<not> ?sat\<close> rn by (auto simp: ef_ok_def wait_state_def satisfied_options)
      moreover have "isr_items ?s = isr_items s" by (simp add: wait_state_def isr_items_def)
      ultimately show ?thesis unfolding ef_ok_def using that(1) by auto
    qed
    note C = core_eqD [OF wait_state_core [of s flags options]]
    have i1: "isr_inv ?s" "is_evflags ?s ef" "kinv ?s L D W"
      using i ef k C by (simp_all add: isr_inv_def isr_items_def is_evflags_def wait_state_def)
    show ?thesis
    proof (cases ?sat)
      case True
      then have "s' = s\<lparr>e_event_flags := (e_event_flags s)(ef := flags_taken (e_event_flags s ef) flags options)\<rparr>"
        using W(1) [OF True, of timeout] a by (metis option.inject prod.inject)
      then show ?thesis using ef_state_less(1) [OF k ef i ok flags_taken_sub] by simp
    next
      case ns: False
      consider "timeout = 0" | "timeout \<noteq> 0" "\<not> can_wait s L" | "timeout \<noteq> 0" "can_wait s L" by blast
      then show ?thesis
      proof cases
        case 1
        then show ?thesis using W(2) [OF ns] a same by simp
      next
        case 2
        then have e: "s' = ?s" using W(3) [OF ns] a by simp
        have "ef_ok ?s L ef" using ok1 [of "L ef"] ns by auto
        then show ?thesis unfolding e using i1 by (blast intro: ef_state_cs)
      next
        case 3
        obtain s1 D' W' where s1: "svcRtxEventFlagsWait ef flags options timeout s = Some (osErrorTimeout, s1)"
          "sched_frame ?s s1" "kinv s1 (wait_lists s ef (run_curr s) L) D' W'" using W(4) [OF ns 3] by blast
        have e: "s' = s1" using s1(1) a by simp
        note F = sched_frameD [OF s1(2)] and FI = sched_frame_isr [OF s1(2)]
        have "ef_ok ?s (L(ef := wait_lists s ef (run_curr s) L ef)) ef"
          by (rule ok1) (use ns is_evflags_objs(2) [OF ef k] in \<open>auto simp: wait_lists_def Let_def\<close>)
        then have "ef_ok s1 (wait_lists s ef (run_curr s) L) ef" by (simp add: ef_ok_def F FI)
        moreover have "is_evflags s1 ef" "isr_inv s1" using i1 by (simp_all add: F FI is_evflags_def)
        ultimately show ?thesis unfolding e using s1(3) by (blast intro: ef_state_cs)
      qed
    qed
  qed
qed

lemma served_isr:
  assumes "served s ef ws v s'"
  shows "isr_items s' = isr_items s" "isr_inv s' = isr_inv s" "isr_cnt s' = isr_cnt s"
proof -
  have f: "sched_frame (s\<lparr>e_event_flags := (e_event_flags s)(ef := v)\<rparr>) s'" using assms by (simp add: served_def)
  show "isr_items s' = isr_items s" "isr_inv s' = isr_inv s" "isr_cnt s' = isr_cnt s"
    using sched_frame_isr [OF f] by (simp_all add: sched_frameD [OF f])
qed

lemma ef_state_set:
  assumes s: "ef_state ef s" and a: "svcRtxEventFlagsSet ef flags s = Some (r, s')"
  shows "ef_state ef (context_switch s')"
proof -
  obtain L D W where k: "kinv s L D W" and st: "stable s" and ef: "is_evflags s ef" and i: "isr_inv s"
    and ok: "ef_ok s L ef" using s by (auto simp: ef_state_def)
  note ob = is_evflags_objs [OF ef k]
  show ?thesis
  proof (cases "flags AND event_flags_invalid = 0")
    case False
    then have "s' = s" using a ef by (auto simp: svcRtxEventFlagsSet_def is_evflags_def)
    then show ?thesis using ef_state_cs [OF k ef i ok] by simp
  next
    case True
    obtain ws v where sv: "serve_in s (L ef) (e_event_flags s ef OR flags) = (ws, v)" by fastforce
    obtain s1 s2 L' where s2: "svcRtxEventFlagsSet ef flags s =
        Some (served_result (t_wait_flags s) (wait_options s) ws (e_event_flags s ef OR flags), s2)"
      "served (s\<lparr>e_event_flags := (e_event_flags s)(ef := e_event_flags s ef OR flags)\<rparr>) ef ws v s1" "rl_frame s1 s2"
      "kinv s2 L' (awake ws D) (awake ws W)" "redisp s (rest_lists s ws L) = (L', run_next s2)"
      using ef_set_kinv [OF k st ef True sv] by blast
    have e: "s' = s2" using s2(1) a by simp
    note S = served_simps [OF s2(2)] served_isr [OF s2(2)]
    note F = sched_frameD [OF rl_frame_sched [OF s2(3)]] sched_frame_isr [OF rl_frame_sched [OF s2(3)]]
    have L': "L' ef = filter (\<lambda>t. t \<notin> fst ` set ws) (L ef)"
      using redisp_other [OF s2(5) ob(2)] rest_lists_other [OF k ob(2)] by simp
    have "ef_ok s2 L' ef"
      unfolding ef_ok_def using serve_left [of _ "L ef" "t_wait_flags s" "wait_options s" "e_event_flags s ef OR flags"] sv
      by (auto simp: F S L')
    moreover have "is_evflags s2 ef" "isr_inv s2" using ef i by (simp_all add: F S is_evflags_def)
    ultimately show ?thesis unfolding e using s2(4) by (blast intro: ef_state_cs)
  qed
qed

lemma ef_state_less_step:
  assumes s: "ef_state ef s" and e: "s' = s\<lparr>e_event_flags := (e_event_flags s)(ef := v)\<rparr>" "v AND e_event_flags s ef = v"
  shows "ef_state ef s'" "ef_state ef (context_switch s')"
  using s ef_state_less [OF _ _ _ _ e(2)] unfolding ef_state_def [of ef s] e(1) by blast+

lemma ef_state_clear:
  assumes s: "ef_state ef s" and a: "svcRtxEventFlagsClear ef flags s = (r, s')"
  shows "ef_state ef s' \<and> ef_state ef (context_switch s')"
proof -
  have "s' = s \<or> s' = s\<lparr>e_event_flags := (e_event_flags s)(ef := e_event_flags s ef AND NOT flags)\<rparr>"
    using a by (auto simp: svcRtxEventFlagsClear_def EventFlagsClear_def atomic_clr32_def split: if_splits)
  moreover have "(e_event_flags s ef AND NOT flags) AND e_event_flags s ef = e_event_flags s ef AND NOT flags"
    by (auto simp: bit_eq_iff bit_simps)
  ultimately show ?thesis
    using ef_state_less_step [OF s] ef_state_less_step [OF s, where s' = s and v = "e_event_flags s ef"] s by auto
qed

lemma ef_state_isr_wait:
  assumes s: "ef_state ef s" and a: "isrRtxEventFlagsWait ef flags options timeout s = (r, s')"
  shows "ef_state ef s'"
proof -
  have "s' = s \<or> s' = s\<lparr>e_event_flags := (e_event_flags s)(ef := flags_taken (e_event_flags s ef) flags options)\<rparr>"
    using a by (auto simp: isrRtxEventFlagsWait_def EventFlagsCheck_eq split: if_splits)
  then show ?thesis using ef_state_less_step(1) [OF s _ flags_taken_sub] s by auto
qed

lemma ef_state_isr_set:
  assumes s: "ef_state ef s" and a: "isrRtxEventFlagsSet ef flags s = Some (r, s')"
  shows "ef_state ef s'"
proof -
  obtain L D W where k: "kinv s L D W" "stable s" and ef: "is_evflags s ef" and i: "isr_inv s"
    using s by (auto simp: ef_state_def)
  have n: "ef \<noteq> NULL" using ef by (simp add: is_evflags_def)
  show ?thesis
  proof (cases "flags AND event_flags_invalid = 0")
    case False
    then have "s' = s" using a by (auto simp: isrRtxEventFlagsSet_def)
    then show ?thesis using s by simp
  next
    case True
    let ?s = "s\<lparr>e_event_flags := (e_event_flags s)(ef := e_event_flags s ef OR flags)\<rparr>"
    have pp: "osRtxPostProcess ef ?s = Some s'"
      using a ef True by (auto simp: isrRtxEventFlagsSet_def is_evflags_def EventFlagsSet_def atomic_set32_def bind_eq_Some_conv)
    have i1: "isr_inv ?s" using i by simp
    note P = osRtxPostProcess_spec [OF i1 n pp]
    note C = core_eqD [OF core_eq_flags [of s "(e_event_flags s)(ef := e_event_flags s ef OR flags)"]]
    note C' = core_eqD [OF conjunct1 [OF P]]
    have "kinv s' L D W" "stable s'" "is_evflags s' ef" using k ef C C' by (simp_all add: is_evflags_def)
    moreover have "ef_ok s' L ef" using P by (simp add: ef_ok_def)
    ultimately show ?thesis using P by (blast intro: ef_stateI)
  qed
qed

lemma ef_state_post:
  assumes s: "ef_state ef s" and g: "isr_get s = (Some ef, s1)" and a: "osRtxEventFlagsPostProcess ef s1 = Some s'"
  shows "ef_state ef s'"
proof -
  obtain L D W where k: "kinv s L D W" "stable s" and ef: "is_evflags s ef" and i: "isr_inv s"
    using s by (auto simp: ef_state_def)
  note G = isr_get_spec [OF i g]
  note C = core_eqD [OF conjunct1 [OF G]]
  have k1: "kinv s1 L D W" "stable s1" "is_evflags s1 ef" using k ef C by (simp_all add: is_evflags_def)
  note ob = is_evflags_objs [OF k1(3,1)]
  obtain ws v where sv: "serve_in s1 (L ef) (e_event_flags s1 ef) = (ws, v)" by fastforce
  obtain s2 where s2: "ef_post_loop ef (hd0 (L ef)) s1 = Some s2" "served s1 ef ws v s2"
    "kinv s2 (rest_lists s1 ws L) (awake ws D) (awake ws W)"
    using ef_loops [OF k1(1) ob, where xs = Nil and ts = "L ef", OF _ sv] by auto
  have e: "s' = s2"
    using a s2(1) k1(3) kinv_head(1) [OF k1(1) ob(1)] by (simp add: osRtxEventFlagsPostProcess_def is_evflags_def)
  note S = served_simps [OF s2(2)] served_isr [OF s2(2)]
  have "ef_ok s2 (rest_lists s1 ws L) ef"
    unfolding ef_ok_def using serve_left [of _ "L ef" "t_wait_flags s1" "wait_options s1" "e_event_flags s1 ef"] sv
    by (auto simp: S rest_lists_other [OF k1(1) ob(2)])
  moreover have "is_evflags s2 ef" "isr_inv s2" "stable s2" using k1 G by (simp_all add: S is_evflags_def stable_def)
  ultimately show ?thesis unfolding e using s2(3) by (blast intro: ef_stateI)
qed

lemma ef_state_tick:
  assumes s: "ef_state ef s" and a: "osRtxThreadDelayTick s = Some s'"
  shows "ef_state ef s'"
proof -
  obtain L D W where k: "kinv s L D W" "stable s" and ef: "is_evflags s ef" and i: "isr_inv s" and ok: "ef_ok s L ef"
    using s by (auto simp: ef_state_def)
  obtain D' where s': "sched_frame s s'" "run_next s' = run_next s"
    "kinv s' (fold (wake s) (tick_woken (delays s D)) L) D' W" using osRtxThreadDelayTick_kinv [OF k(1)] a by auto
  note F = sched_frameD [OF s'(1)] sched_frame_isr [OF s'(1)]
  have "stable s'" using k(2) s'(2) by (simp add: F stable_def)
  moreover have "ef_ok s' (fold (wake s) (tick_woken (delays s D)) L) ef"
    using ok fold_wake_sub [OF is_evflags_objs(2) [OF ef k(1)], of "tick_woken (delays s D)" L] by (auto simp: ef_ok_def F)
  moreover have "is_evflags s' ef" "isr_inv s'" using ef i by (simp_all add: F is_evflags_def)
  ultimately show ?thesis using s'(3) by (blast intro: ef_stateI)
qed

lemma ef_state_step: "ef_step ef s s' \<Longrightarrow> ef_state ef s \<Longrightarrow> ef_state ef s'"
proof (erule ef_stepE)
  show "ef_state ef s \<Longrightarrow> osEventFlagsWait False ef flags options timeout s = Some (r, s') \<Longrightarrow> ef_state ef s'"
    for flags options timeout r
    using ef_state_wait by (auto simp: osEventFlagsWait_def svc_call_def bind_eq_Some_conv)
  show "ef_state ef s \<Longrightarrow> osEventFlagsSet False ef flags s = Some (r, s') \<Longrightarrow> ef_state ef s'" for flags r
    using ef_state_set by (auto simp: osEventFlagsSet_def svc_call_def bind_eq_Some_conv)
  show "ef_state ef s \<Longrightarrow> osEventFlagsClear irq ef flags s = Some (r, s') \<Longrightarrow> ef_state ef s'" for irq flags r
    using ef_state_clear [of ef s flags] by (cases "svcRtxEventFlagsClear ef flags s") (auto simp: osEventFlagsClear_def svc_call_def split: if_splits)
  show "ef_state ef s \<Longrightarrow> osEventFlagsWait True ef flags options timeout s = Some (r, s') \<Longrightarrow> ef_state ef s'"
    for flags options timeout r using ef_state_isr_wait by (auto simp: osEventFlagsWait_def)
  show "ef_state ef s \<Longrightarrow> osEventFlagsSet True ef flags s = Some (r, s') \<Longrightarrow> ef_state ef s'" for flags r
    using ef_state_isr_set by (auto simp: osEventFlagsSet_def)
  show "ef_state ef s \<Longrightarrow> isr_get s = (Some ef, s1) \<Longrightarrow> osRtxEventFlagsPostProcess ef s1 = Some s' \<Longrightarrow> ef_state ef s'" for s1
    by (rule ef_state_post)
  show "ef_state ef s \<Longrightarrow> osRtxThreadDelayTick s = Some s' \<Longrightarrow> ef_state ef s'" by (rule ef_state_tick)
qed

lemma ef_state_reach: "(ef_step ef)\<^sup>*\<^sup>* s s' \<Longrightarrow> ef_state ef s \<Longrightarrow> ef_state ef s'"
  by (induction rule: rtranclp_induct) (blast intro: ef_state_step)+

section \<open>Properties of event flags\<close>

text \<open>
  The waiting thread \<open>0x300\<close> waits for one of the flags 3 and keeps them if \<open>opt\<close> says so.
\<close>

definition demo_flags :: rtx where
  "demo_flags = (demo_on osRtxIdEventFlags osRtxThreadWaitingEventFlags)\<lparr>
     t_wait_flags := (\<lambda>_. 0)(0x300 := 3), isr_max := 4, isr_data := [0, 0, 0, 0]\<rparr>"

lemma demo_flags_kinv: "kinv demo_flags demo_on_lists [0x300] []"
proof (rule core_eq_kinv)
  show "core_eq (demo_on osRtxIdEventFlags osRtxThreadWaitingEventFlags) demo_flags" by (simp add: core_eq_def demo_flags_def)
qed (rule demo_on_kinv, simp_all add: has_thread_list_def is_blocked_def)

lemma demo_flags_simps [simp]:
  "stable demo_flags" "is_evflags demo_flags 0x700" "k_state demo_flags = osRtxKernelRunning" "run_curr demo_flags = 0x100"
  "ready_obj demo_flags = 0x10" "isr_inv demo_flags" "isr_items demo_flags = []" "e_event_flags demo_flags = (\<lambda>_. 0)"
  "t_wait_flags demo_flags = (\<lambda>_. 0)(0x300 := 3)" "t_flags_options demo_flags = (\<lambda>_. 0)" "run_next demo_flags = 0x100"
  "t_priority demo_flags = t_priority demo" "isr_cnt demo_flags = 0" "isr_max demo_flags = 4" "isr_in demo_flags = 0"
  "isr_data demo_flags = [0, 0, 0, 0]" "k_blocked demo_flags = 0" "o_id demo_flags 0x700 = osRtxIdEventFlags"
  by (simp_all add: demo_flags_def is_evflags_def stable_def isr_inv_def isr_items_def)
    (simp_all add: demo_on_def demo_def rtx0_def)

text \<open>C30: setting event flags serves the waiting threads in their order, as \<open>serve\<close> says: each one whose wait
  is satisfied by the flags that are left wakes with the value it saw and takes its flags away unless it asked to keep
  them; the call always returns, the value after the last of them took its flags, no thread that
  is left waiting is satisfied, and the kernel invariant and the priority order hold.\<close>

theorem event_flags_set:
  assumes "kinv s L D W" "stable s" "is_evflags s ef" "flags AND event_flags_invalid = 0"
    and "serve_in s (L ef) (e_event_flags s ef OR flags) = (ws, v)"
  shows "\<exists>s' L'. svcRtxEventFlagsSet ef flags s =
      Some (served_result (t_wait_flags s) (wait_options s) ws (e_event_flags s ef OR flags), s') \<and>
    kinv s' L' (awake ws D) (awake ws W) \<and> redisp s (rest_lists s ws L) = (L', run_next s') \<and>
    (k_state s = osRtxKernelRunning \<longrightarrow> prio_ok s' L') \<and> e_event_flags s' = (e_event_flags s)(ef := v) \<and>
    L' ef = filter (\<lambda>t. t \<notin> fst ` set ws) (L ef) \<and>
    (\<forall>t\<in>set (L' ef). \<not> satisfied v (t_wait_flags s t) (wait_options s t)) \<and>
    mem32 s' = fold (\<lambda>(t, r) m. m(osRtxThreadRegPtr t s := r)) ws (mem32 s)"
proof -
  note ob = is_evflags_objs [OF assms(3,1)]
  obtain s1 s' L' where s': "svcRtxEventFlagsSet ef flags s =
      Some (served_result (t_wait_flags s) (wait_options s) ws (e_event_flags s ef OR flags), s')"
    "served (s\<lparr>e_event_flags := (e_event_flags s)(ef := e_event_flags s ef OR flags)\<rparr>) ef ws v s1" "rl_frame s1 s'"
    "kinv s' L' (awake ws D) (awake ws W)" "redisp s (rest_lists s ws L) = (L', run_next s')"
    "k_state s = osRtxKernelRunning \<longrightarrow> prio_ok s' L'"
    using ef_set_kinv [OF assms] by blast
  note S = served_simps [OF s'(2)]
  note F = sched_frameD [OF rl_frame_sched [OF s'(3)]]
  have L': "L' ef = filter (\<lambda>t. t \<notin> fst ` set ws) (L ef)"
    using redisp_other [OF s'(5) ob(2)] rest_lists_other [OF assms(1) ob(2)] by simp
  have "\<forall>t\<in>set (L' ef). \<not> satisfied v (t_wait_flags s t) (wait_options s t)"
    using serve_left [of _ "L ef" "t_wait_flags s" "wait_options s" "e_event_flags s ef OR flags"] assms(5)
    by (auto simp: L')
  moreover have "mem32 s' = fold (\<lambda>(t, r) m. m(osRtxThreadRegPtr t s := r)) ws (mem32 s)"
    using s'(2) rl_frameD(6) [OF s'(3)] by (simp add: served_def osRtxThreadRegPtr_def)
  moreover have "e_event_flags s' = (e_event_flags s)(ef := v)" by (simp add: F S)
  ultimately show ?thesis using s' L' by (intro exI [of _ s'] exI [of _ L']) simp
qed

theorem event_flags_set_witness:
  "\<exists>s' L'. svcRtxEventFlagsSet 0x700 6 demo_flags = Some (4, s') \<and> kinv s' L' [] [] \<and> L' 0x700 = [] \<and> L' 0x10 = [0x100, 0x200] \<and>
     run_next s' = 0x300 \<and> e_event_flags s' 0x700 = 4"
proof -
  have sv: "serve_in demo_flags (demo_on_lists 0x700) (e_event_flags demo_flags 0x700 OR 6) = ([(0x300, 6)], 4)"
    by (simp add: satisfied_def flags_taken_def)
  have f: "(6 :: u32) AND event_flags_invalid = 0" by simp
  obtain s' L' where s': "svcRtxEventFlagsSet 0x700 6 demo_flags =
      Some (served_result (t_wait_flags demo_flags) (wait_options demo_flags) [(0x300, 6)] (e_event_flags demo_flags 0x700 OR 6), s')"
    "kinv s' L' (awake [(0x300, 6)] [0x300]) (awake [(0x300, 6)] [])"
    "redisp demo_flags (rest_lists demo_flags [(0x300, 6)] demo_on_lists) = (L', run_next s')"
    "e_event_flags s' = (e_event_flags demo_flags)(0x700 := 4)"
    using event_flags_set [OF demo_flags_kinv demo_flags_simps(1,2) f sv] by blast
  have r: "served_result (t_wait_flags demo_flags) (wait_options demo_flags) [(0x300, 6)] (e_event_flags demo_flags 0x700 OR 6) = 4"
    by (simp add: served_result_def flags_taken_def)
  have "rest_lists demo_flags [(0x300, 6)] demo_on_lists = (\<lambda>_. [])(0x10 := [0x300, 0x200])"
    by (auto simp: rest_lists_def wake_def ready_put_def unlist_def prio_put_def ins_after_Cons demo_on_lists_def fun_eq_iff)
  then have "L' = (\<lambda>_. [])(0x10 := [0x100, 0x200]) \<and> run_next s' = 0x300"
    using s'(3) by (simp add: redisp_def preempts_def ready_push_def prio_push_def ins_after_Cons)
  then show ?thesis using s'(1,2,4) r by (intro exI [of _ s'] exI [of _ L']) (simp add: awake_def)
qed

text \<open>C31: waiting for event flags returns on every branch and keeps the kernel invariant: flags that satisfy the wait are
  returned and taken (unless they are to be kept); otherwise a call without a timeout changes nothing, and a call with one
  records what it waits for and queues the running thread by its priority and its timeout.\<close>

theorem event_flags_wait:
  assumes "kinv s L D W" "stable s" "is_evflags s ef" "flags AND event_flags_invalid = 0" "run_curr s \<noteq> NULL"
  shows "\<exists>r s' L' D' W'. svcRtxEventFlagsWait ef flags options timeout s = Some (r, s') \<and> kinv s' L' D' W' \<and>
    (if satisfied (e_event_flags s ef) flags options then r = e_event_flags s ef \<and>
       s' = s\<lparr>e_event_flags := (e_event_flags s)(ef := flags_taken (e_event_flags s ef) flags options)\<rparr>
     else if timeout = 0 then r = osErrorResource \<and> s' = s
     else r = osErrorTimeout \<and>
       (if can_wait s L then L' = wait_lists s ef (run_curr s) L \<and> wait_dl s (run_curr s) timeout D W s' D' W' \<and>
          run_next s' = hd (L (ready_obj s)) \<and> o_state s' (run_curr s) = osRtxThreadWaitingEventFlags \<and>
          t_wait_flags s' (run_curr s) = flags \<and> t_flags_options s' (run_curr s) = ucast options
        else s' = wait_state flags options s))"
proof -
  note W = ef_wait_cases [OF assms]
  show ?thesis
  proof (cases "satisfied (e_event_flags s ef) flags options")
    case True
    then show ?thesis
      using W(1) core_eq_kinv [OF core_eq_flags assms(1)] by (intro exI conjI) (assumption | simp)+
  next
    case ns: False
    consider "timeout = 0" | "timeout \<noteq> 0" "can_wait s L" | "timeout \<noteq> 0" "\<not> can_wait s L" by blast
    then show ?thesis
    proof cases
      case 1
      then show ?thesis using W(2) [OF ns] assms(1) ns by auto
    next
      case 2
      obtain s' D' W' where s': "svcRtxEventFlagsWait ef flags options timeout s = Some (osErrorTimeout, s')"
        "sched_frame (wait_state flags options s) s'" "run_next s' = hd (L (ready_obj s))"
        "kinv s' (wait_lists s ef (run_curr s) L) D' W'" "wait_dl s (run_curr s) timeout D W s' D' W'"
        "o_state s' (run_curr s) = osRtxThreadWaitingEventFlags" using W(4) [OF ns 2(1) 2(2)] by blast
      have "t_wait_flags s' (run_curr s) = flags" "t_flags_options s' (run_curr s) = ucast options"
        by (simp_all add: sched_frameD [OF s'(2)] wait_state_def)
      then show ?thesis using s' 2 ns
        by (intro exI [of _ osErrorTimeout] exI [of _ s'] exI [of _ "wait_lists s ef (run_curr s) L"]
            exI [of _ D'] exI [of _ W']) simp
    next
      case 3
      have "kinv (wait_state flags options s) L D W" using core_eq_kinv [OF wait_state_core assms(1)] .
      then show ?thesis using W(3) [OF ns 3] 3 ns
        by (intro exI [of _ osErrorTimeout] exI [of _ "wait_state flags options s"] exI [of _ L] exI [of _ D] exI [of _ W]) simp
    qed
  qed
qed

theorem event_flags_wait_witness:
  "\<exists>s' L' D' W'. svcRtxEventFlagsWait 0x700 5 1 7 demo_flags = Some (osErrorTimeout, s') \<and> kinv s' L' D' W' \<and>
     L' 0x700 = [0x300, 0x100] \<and> run_next s' = 0x200 \<and> t_wait_flags s' 0x100 = 5"
proof -
  have f: "(5 :: u32) AND event_flags_invalid = 0" and rc: "run_curr demo_flags \<noteq> NULL" by simp_all
  have c: "can_wait demo_flags demo_on_lists" "\<not> satisfied (e_event_flags demo_flags 0x700) 5 1"
    by (simp_all add: can_wait_def satisfied_def)
  obtain s' L' D' W' where s': "svcRtxEventFlagsWait 0x700 5 1 7 demo_flags = Some (osErrorTimeout, s')" "kinv s' L' D' W'"
    "L' = wait_lists demo_flags 0x700 0x100 demo_on_lists" "run_next s' = 0x200" "t_wait_flags s' 0x100 = 5"
    using event_flags_wait [OF demo_flags_kinv demo_flags_simps(1,2) f rc, of 1 7] c by auto
  moreover have "wait_lists demo_flags 0x700 0x100 demo_on_lists 0x700 = [0x300, 0x100]"
    by (simp add: wait_lists_def prio_put_def ins_after_Cons)
  ultimately show ?thesis by blast
qed

text \<open>C32: whatever sequence of waits, sets and clears from threads and interrupts, post-ISR processing and timeouts
  event flags go through: when the ISR queue is empty, no thread is left waiting that the flags satisfy.\<close>

theorem event_flags_no_lost_wakeup:
  assumes "ef_state ef s" "(ef_step ef)\<^sup>*\<^sup>* s s'" "isr_cnt s' = 0"
  shows "\<exists>L D W. kinv s' L D W \<and> (\<forall>t\<in>set (L ef). \<not> satisfied (e_event_flags s' ef) (t_wait_flags s' t) (wait_options s' t))"
  using ef_state_reach [OF assms(2,1)] assms(3) by (auto simp: ef_state_def ef_ok_def isr_items_def)

theorem event_flags_no_lost_wakeup_witness:
  "\<exists>s' r L D W. osEventFlagsSet False 0x700 8 demo_flags = Some (r, s') \<and> kinv s' L D W \<and>
     (\<forall>t\<in>set (L 0x700). \<not> satisfied (e_event_flags s' 0x700) (t_wait_flags s' t) (wait_options s' t))"
proof -
  have st: "ef_state 0x700 demo_flags"
    by (rule ef_stateI [OF demo_flags_kinv]) (simp_all add: ef_ok_def satisfied_def)
  have sv: "serve_in demo_flags (demo_on_lists 0x700) (e_event_flags demo_flags 0x700 OR 8) = ([], 8)"
    by (simp add: satisfied_def)
  obtain r s1 s2 L' where s2: "svcRtxEventFlagsSet 0x700 8 demo_flags = Some (r, s2)"
    "served (demo_flags\<lparr>e_event_flags := (e_event_flags demo_flags)(0x700 := e_event_flags demo_flags 0x700 OR 8)\<rparr>) 0x700 [] 8 s1"
    "rl_frame s1 s2" using ef_set_kinv [OF demo_flags_kinv demo_flags_simps(1,2) _ sv] by auto
  have op: "osEventFlagsSet False 0x700 8 demo_flags = Some (r, context_switch s2)"
    using s2(1) by (simp add: osEventFlagsSet_def svc_call_def)
  have "isr_cnt s1 = isr_cnt demo_flags" by (simp add: served_isr(3) [OF s2(2)])
  then have c: "isr_cnt (context_switch s2) = 0"
    by (simp add: context_switch_def sched_frameD [OF rl_frame_sched [OF s2(3)]])
  have r: "(ef_step 0x700)\<^sup>*\<^sup>* demo_flags (context_switch s2)" by (rule r_into_rtranclp, rule ef_step.set_flags [OF op])
  show ?thesis using event_flags_no_lost_wakeup [OF st r c] op by blast
qed

end
