(* ===== verification/PoolSpec.thy ===== *)
theory PoolSpec
  imports MemPool DemoWait Semaphore Prio
begin

text \<open>
  What memory pools promise.  The contract of a pool of blocks is the locale \<open>block_pool\<close>: it
  behaves as a stack of free blocks and a set of used ones, so no block has two owners.  It is
  interpreted on the free list of \<open>rtx_mempool.c\<close>.
\<close>

section \<open>The contract of a pool\<close>

text \<open>
  An operation is \<open>None\<close> (allocate a block) or \<open>Some b\<close> (give the block \<open>b\<close> back).  The
  abstract state has the free blocks, the next one first, and the used ones.
\<close>

fun pool_spec :: "'b option list \<Rightarrow> 'b list \<times> 'b set \<Rightarrow> 'b option list \<times> 'b list \<times> 'b set" where
  "pool_spec [] (F, U) = ([], F, U)"
| "pool_spec (None # ops) ([], U) = (let (rs, a) = pool_spec ops ([], U) in (None # rs, a))"
| "pool_spec (None # ops) (b # F, U) = (let (rs, a) = pool_spec ops (F, insert b U) in (Some b # rs, a))"
| "pool_spec (Some b # ops) (F, U) = (let (rs, a) = pool_spec ops (b # F, U - {b}) in (Some b # rs, a))"

text \<open>Only a block that is used may be given back.\<close>

fun pool_legal :: "'b option list \<Rightarrow> 'b list \<times> 'b set \<Rightarrow> bool" where
  "pool_legal [] (F, U) \<longleftrightarrow> True"
| "pool_legal (None # ops) ([], U) \<longleftrightarrow> pool_legal ops ([], U)"
| "pool_legal (None # ops) (b # F, U) \<longleftrightarrow> pool_legal ops (F, insert b U)"
| "pool_legal (Some b # ops) (F, U) \<longleftrightarrow> b \<in> U \<and> pool_legal ops (b # F, U - {b})"

text \<open>The operations run on an implementation; \<open>Some b\<close> answers that the block was taken back.\<close>

primrec pool_run :: "('s \<Rightarrow> 'b option \<times> 's) \<Rightarrow> ('b \<Rightarrow> 's \<Rightarrow> bool \<times> 's) \<Rightarrow> 'b option list \<Rightarrow> 's \<Rightarrow> 'b option list \<times> 's" where
  "pool_run alloc free [] s = ([], s)"
| "pool_run alloc free (x # ops) s =
     (let (r, s) = (case x of None \<Rightarrow> alloc s | Some b \<Rightarrow> (let (ok, s) = free b s in (if ok then Some b else None, s)));
          (rs, s) = pool_run alloc free ops s
      in (r # rs, s))"

locale block_pool =
  fixes rel :: "'s \<Rightarrow> 'b list \<Rightarrow> 'b set \<Rightarrow> bool"
    and alloc :: "'s \<Rightarrow> 'b option \<times> 's" and free :: "'b \<Rightarrow> 's \<Rightarrow> bool \<times> 's"
  assumes alloc_none: "rel s [] U \<Longrightarrow> alloc s = (None, s)"
    and alloc_some: "rel s (b # F) U \<Longrightarrow> \<exists>s'. alloc s = (Some b, s') \<and> rel s' F (insert b U)"
    and free_used: "rel s F U \<Longrightarrow> b \<in> U \<Longrightarrow> \<exists>s'. free b s = (True, s') \<and> rel s' (b # F) (U - {b})"
    and apart: "rel s F U \<Longrightarrow> distinct F \<and> set F \<inter> U = {}"
begin

lemma refines:
  "rel s F U \<Longrightarrow> pool_legal ops (F, U) \<Longrightarrow> pool_spec ops (F, U) = (rs, F', U') \<Longrightarrow>
   \<exists>s'. pool_run alloc free ops s = (rs, s') \<and> rel s' F' U'"
proof (induction ops "(F, U)" arbitrary: s F U rs F' U' rule: pool_legal.induct)
  case (2 ops U)
  obtain rs1 where sp: "pool_spec ops ([], U) = (rs1, F', U')" "rs = None # rs1" using 2(4) by (auto split: prod.splits)
  then show ?case using alloc_none [OF 2(2)] 2(1) [OF 2(2) _ sp(1)] 2(3) by auto
next
  case (3 ops b F U)
  obtain s1 where s1: "alloc s = (Some b, s1)" "rel s1 F (insert b U)" using alloc_some [OF 3(2)] by blast
  obtain rs1 where sp: "pool_spec ops (F, insert b U) = (rs1, F', U')" "rs = Some b # rs1" using 3(4) by (auto split: prod.splits)
  then show ?case using s1 3(1) [OF s1(2) _ sp(1)] 3(3) by auto
next
  case (4 b ops F U)
  obtain s1 where s1: "free b s = (True, s1)" "rel s1 (b # F) (U - {b})" using free_used [OF 4(2)] 4(3) by auto
  obtain rs1 where sp: "pool_spec ops (b # F, U - {b}) = (rs1, F', U')" "rs = Some b # rs1" using 4(4) by (auto split: prod.splits)
  then show ?case using s1 4(1) [OF s1(2) _ sp(1)] 4(3) by auto
qed auto

text \<open>A block that is handed out is not in use: it has one owner.\<close>

lemma alloc_fresh:
  assumes "rel s F U" "alloc s = (Some b, s')"
  shows "b \<notin> U" "F = b # tl F"
proof -
  have "F \<noteq> []" using assms alloc_none [of s U] by auto
  then obtain c F1 where F: "F = c # F1" by (cases F) auto
  then have "b = c" using alloc_some [of s c F1 U] assms by auto
  then show "b \<notin> U" "F = b # tl F" using apart [OF assms(1)] F by auto
qed

end

section \<open>The blocks of a pool\<close>

definition pool_blocks :: "addr \<Rightarrow> u32 \<Rightarrow> nat \<Rightarrow> addr list" where
  "pool_blocks base bsize n = map (\<lambda>i. base + of_nat i * bsize) [0..<n]"

text \<open>The blocks fit below the end of the address space.\<close>

definition pool_fits :: "addr \<Rightarrow> u32 \<Rightarrow> nat \<Rightarrow> bool" where
  "pool_fits base bsize n \<longleftrightarrow> base \<noteq> NULL \<and> bsize \<noteq> 0 \<and> unat base + n * unat bsize < 2 ^ 32"

lemma unat_block:
  assumes "pool_fits base bsize n" "i \<le> n"
  shows "unat (base + of_nat i * bsize) = unat base + i * unat bsize"
proof -
  have lt: "unat base + i * unat bsize < 2 ^ 32"
    using assms(1) mult_le_mono1 [OF assms(2), of "unat bsize"] unfolding pool_fits_def by linarith
  have "0 < unat bsize" using assms(1) by (simp add: pool_fits_def unat_gt_0)
  then have i: "i \<le> i * unat bsize" by simp
  then have "i < 2 ^ 32" "i * unat bsize < 2 ^ 32" using lt by linarith+
  then have "unat (of_nat i * bsize) = i * unat bsize" by (simp add: unat_word_ariths unat_of_nat)
  then show ?thesis using lt by (simp add: unat_word_ariths mod_less)
qed

lemma pool_blocks_props:
  assumes "pool_fits base bsize n"
  shows "distinct (pool_blocks base bsize n)" "NULL \<notin> set (pool_blocks base bsize n)" "length (pool_blocks base bsize n) = n"
    "b \<in> set (pool_blocks base bsize n) \<Longrightarrow> base \<le> b \<and> b < base + of_nat n * bsize"
proof -
  have s: "unat bsize \<noteq> 0" "unat base \<noteq> 0" using assms by (simp_all add: pool_fits_def unat_eq_0)
  have u: "unat (base + of_nat i * bsize) = unat base + i * unat bsize" if "i \<le> n" for i
    using unat_block [OF assms that] .
  have "inj_on (\<lambda>i. base + of_nat i * bsize) {0..<n}"
  proof (rule inj_onI)
    fix i j assume "i \<in> {0..<n}" "j \<in> {0..<n}" and e: "base + of_nat i * bsize = base + of_nat j * bsize"
    then have "unat base + i * unat bsize = unat base + j * unat bsize"
      using u [of i] u [of j] unfolding e by (metis atLeastLessThan_iff less_imp_le)
    then show "i = j" using s by auto
  qed
  then show "distinct (pool_blocks base bsize n)" by (simp add: pool_blocks_def distinct_map)
  have "base + of_nat i * bsize \<noteq> NULL" if "i < n" for i using u [of i] that s by (metis less_imp_le unat_0 add_is_0)
  then show "NULL \<notin> set (pool_blocks base bsize n)" by (auto simp: pool_blocks_def)
  show "length (pool_blocks base bsize n) = n" by (simp add: pool_blocks_def)
  assume "b \<in> set (pool_blocks base bsize n)"
  then obtain i where i: "i < n" "b = base + of_nat i * bsize" by (auto simp: pool_blocks_def)
  have "i * unat bsize < n * unat bsize" using i(1) s by simp
  then show "base \<le> b \<and> b < base + of_nat n * bsize"
    using u [of i] u [of n] i by (simp add: word_le_nat_alt word_less_nat_alt)
qed

lemma pool_blocks_Suc: "pool_blocks base bsize (Suc n) = base # pool_blocks (base + bsize) bsize n"
proof -
  have "map (\<lambda>i. base + of_nat i * bsize) [0..<Suc n] =
      base # map (\<lambda>i. base + of_nat (Suc i) * bsize) [0..<n]"
    by (simp add: upt_conv_Cons map_Suc_upt [symmetric] comp_def del: upt_Suc)
  then show ?thesis by (simp add: pool_blocks_def algebra_simps)
qed

lemma pool_fits_Suc: "pool_fits base bsize (Suc (Suc n)) \<Longrightarrow> pool_fits (base + bsize) bsize (Suc n)"
  using unat_block [of base bsize "Suc (Suc n)" 1]
  by (auto simp: pool_fits_def unat_eq_0)

text \<open>The free list: blocks linked by their first words.\<close>

fun fseg :: "(addr \<Rightarrow> u32) \<Rightarrow> addr \<Rightarrow> addr list \<Rightarrow> bool" where
  "fseg m p [] \<longleftrightarrow> p = NULL"
| "fseg m p (b # bs) \<longleftrightarrow> p = b \<and> b \<noteq> NULL \<and> fseg m (m b) bs"

lemma fseg_cong: "(\<And>b. b \<in> set bs \<Longrightarrow> m' b = m b) \<Longrightarrow> fseg m' p bs = fseg m p bs"
  by (induction bs arbitrary: p) auto

lemma unat_32_lt: "unat (v :: u32) < 4294967296"
  using unsigned_less [of v] by simp

text \<open>
  The pool at \<open>mi\<close> has the free blocks \<open>F\<close> and the used ones \<open>U\<close>.
\<close>

abbreviation pool_all :: "addr \<Rightarrow> rtx \<Rightarrow> addr list" where
  "pool_all mi s \<equiv> pool_blocks (mp_block_base s mi) (mp_block_size s mi) (unat (mp_max_blocks s mi))"

definition pool_rel :: "addr \<Rightarrow> rtx \<Rightarrow> addr list \<Rightarrow> addr set \<Rightarrow> bool" where
  "pool_rel mi s F U \<longleftrightarrow> mi \<noteq> NULL \<and>
     pool_fits (mp_block_base s mi) (mp_block_size s mi) (unat (mp_max_blocks s mi)) \<and>
     mp_block_lim s mi = mp_block_base s mi + mp_max_blocks s mi * mp_block_size s mi \<and>
     fseg (mem32 s) (mp_block_free s mi) F \<and> distinct F \<and> set F \<inter> U = {} \<and> set F \<union> U = set (pool_all mi s) \<and>
     unat (mp_used_blocks s mi) = card U"

definition pool_alloc :: "addr \<Rightarrow> rtx \<Rightarrow> addr option \<times> rtx" where
  "pool_alloc mi s = (let (b, s) = osRtxMemoryPoolAlloc mi s in (if b = NULL then None else Some b, s))"

definition pool_free :: "addr \<Rightarrow> addr \<Rightarrow> rtx \<Rightarrow> bool \<times> rtx" where
  "pool_free mi b s = (let (st, s) = osRtxMemoryPoolFree mi b s in (st = osOK, s))"

lemma pool_relD:
  assumes "pool_rel mi s F U"
  shows "mi \<noteq> NULL" "finite U" "U \<subseteq> set (pool_all mi s)" "set F \<subseteq> set (pool_all mi s)" "distinct F" "set F \<inter> U = {}"
    "fseg (mem32 s) (mp_block_free s mi) F" "unat (mp_used_blocks s mi) = card U"
    "card U + length F = unat (mp_max_blocks s mi)"
proof -
  note p = assms [unfolded pool_rel_def]
  then have all: "set F \<union> U = set (pool_all mi s)" by blast
  show fin: "finite U" using finite_subset [of U "set (pool_all mi s)"] all by auto
  show "U \<subseteq> set (pool_all mi s)" "set F \<subseteq> set (pool_all mi s)" using all by auto
  show "mi \<noteq> NULL" "distinct F" "set F \<inter> U = {}" "fseg (mem32 s) (mp_block_free s mi) F"
    "unat (mp_used_blocks s mi) = card U" using p by blast+
  have "card (set F \<union> U) = unat (mp_max_blocks s mi)"
    using all pool_blocks_props(1,3) p by (metis distinct_card)
  then show "card U + length F = unat (mp_max_blocks s mi)"
    using card_Un_disjoint [of "set F" U] fin p by (simp add: distinct_card)
qed

lemma pool_alloc_Nil:
  assumes "pool_rel mi s [] U"
  shows "osRtxMemoryPoolAlloc mi s = (NULL, s)"
  using pool_relD(1,7) [OF assms] by (simp add: osRtxMemoryPoolAlloc_def)

lemma pool_alloc_Cons:
  assumes p: "pool_rel mi s (b # F) U"
  defines "s' \<equiv> s\<lparr>mp_block_free := (mp_block_free s)(mi := mem32 s b),
                mp_used_blocks := (mp_used_blocks s)(mi := mp_used_blocks s mi + 1)\<rparr>"
  shows "osRtxMemoryPoolAlloc mi s = (b, s')" "b \<noteq> NULL" "pool_rel mi s' F (insert b U)"
proof -
  note P = pool_relD [OF p]
  show b: "osRtxMemoryPoolAlloc mi s = (b, s')" "b \<noteq> NULL" using P(1,7) by (auto simp: osRtxMemoryPoolAlloc_def s'_def)
  have "b \<notin> U" using P(6) by auto
  moreover have "unat (mp_used_blocks s mi + 1) = Suc (card U)"
    using unat_add_lt [of "mp_used_blocks s mi" 1] P(8,9) unat_32_lt [of "mp_max_blocks s mi"] by simp
  ultimately show "pool_rel mi s' F (insert b U)" using p P(2) by (auto simp: pool_rel_def s'_def)
qed

lemma pool_free_used:
  assumes p: "pool_rel mi s F U" and b: "b \<in> U"
  defines "s' \<equiv> s\<lparr>mem32 := (mem32 s)(b := mp_block_free s mi), mp_block_free := (mp_block_free s)(mi := b),
                mp_used_blocks := (mp_used_blocks s)(mi := mp_used_blocks s mi - 1)\<rparr>"
  shows "osRtxMemoryPoolFree mi b s = (osOK, s')" "pool_rel mi s' (b # F) (U - {b})"
proof -
  note P = pool_relD [OF p]
  have fits: "pool_fits (mp_block_base s mi) (mp_block_size s mi) (unat (mp_max_blocks s mi))"
    and lim: "mp_block_lim s mi = mp_block_base s mi + mp_max_blocks s mi * mp_block_size s mi"
    using p by (simp_all add: pool_rel_def)
  have "b \<in> set (pool_all mi s)" using P(3) b by blast
  then have "mp_block_base s mi \<le> b" "b < mp_block_lim s mi" "b \<noteq> NULL"
    using pool_blocks_props(2) [OF fits] pool_blocks_props(4) [OF fits, of b] lim by auto
  then show "osRtxMemoryPoolFree mi b s = (osOK, s')"
    using P(1) by (auto simp: osRtxMemoryPoolFree_def s'_def not_less [symmetric])
  have nb: "b \<notin> set F" using P(6) b by auto
  have "fseg ((mem32 s)(b := mp_block_free s mi)) (mp_block_free s mi) F"
    by (subst fseg_cong [where m = "mem32 s"]) (use P(7) nb in auto)
  moreover have "card U \<noteq> 0" using P(2) b by auto
  then have "unat (mp_used_blocks s mi - 1) = card (U - {b})"
    using P(2,8) b unat_dec [of "mp_used_blocks s mi"] by (simp add: unat_eq_0 [symmetric])
  ultimately show "pool_rel mi s' (b # F) (U - {b})"
    using p b nb \<open>b \<noteq> NULL\<close> by (auto simp: pool_rel_def s'_def)
qed

interpretation rtx_pool: block_pool "pool_rel mi" "pool_alloc mi" "pool_free mi" for mi
proof
  show "pool_rel mi s [] U \<Longrightarrow> pool_alloc mi s = (None, s)" for s U
    by (simp add: pool_alloc_def pool_alloc_Nil)
  show "pool_rel mi s (b # F) U \<Longrightarrow> \<exists>s'. pool_alloc mi s = (Some b, s') \<and> pool_rel mi s' F (insert b U)" for s b F U
    using pool_alloc_Cons [of mi s b F U] by (simp add: pool_alloc_def)
  show "pool_rel mi s F U \<Longrightarrow> b \<in> U \<Longrightarrow> \<exists>s'. pool_free mi b s = (True, s') \<and> pool_rel mi s' (b # F) (U - {b})" for s F U b
    using pool_free_used [of mi s F U b] by (simp add: pool_free_def)
  show "pool_rel mi s F U \<Longrightarrow> distinct F \<and> set F \<inter> U = {}" for s F U using pool_relD(5,6) by blast
qed

section \<open>Building the free list\<close>

lemma mp_link_blocks_ok:
  "pool_fits mem bsize (Suc k) \<Longrightarrow> unat n = Suc k \<Longrightarrow>
   \<exists>m'. mp_link_blocks bsize mem n s = Some (last (pool_blocks mem bsize (Suc k)), s\<lparr>mem32 := m'\<rparr>) \<and>
     (\<forall>a. a \<notin> set (pool_blocks mem bsize (Suc k)) \<longrightarrow> m' a = mem32 s a) \<and>
     fseg (m'(last (pool_blocks mem bsize (Suc k)) := NULL)) mem (pool_blocks mem bsize (Suc k))"
proof (induction k arbitrary: mem n s)
  case 0
  have "n = 1" using 0(2) by (simp add: word_unat_eq_iff)
  then have "mp_link_blocks bsize mem n s = Some (mem, s\<lparr>mem32 := mem32 s\<rparr>)"
    by (simp add: mp_link_blocks.simps [of bsize mem 1])
  moreover have "pool_blocks mem bsize (Suc 0) = [mem]" by (simp add: pool_blocks_def)
  ultimately show ?case using 0(1) by (intro exI [of _ "mem32 s"]) (simp add: pool_fits_def)
next
  case (Suc k)
  let ?bs = "pool_blocks (mem + bsize) bsize (Suc k)"
  have n: "n - 1 \<noteq> 0" "unat (n - 1) = Suc k" using Suc.prems(2) unat_dec [of n] by (auto simp: unat_eq_0 [symmetric])
  define s1 where "s1 = s\<lparr>mem32 := (mem32 s)(mem := mem + bsize)\<rparr>"
  have f1: "pool_fits (mem + bsize) bsize (Suc k)" by (rule pool_fits_Suc [OF Suc.prems(1)])
  obtain m' where m': "mp_link_blocks bsize (mem + bsize) (n - 1) s1 = Some (last ?bs, s1\<lparr>mem32 := m'\<rparr>)"
    "\<forall>a. a \<notin> set ?bs \<longrightarrow> m' a = mem32 s1 a" "fseg (m'(last ?bs := NULL)) (mem + bsize) ?bs"
    using Suc.IH [OF f1 n(2)] by blast
  have all: "pool_blocks mem bsize (Suc (Suc k)) = mem # ?bs" by (rule pool_blocks_Suc)
  have ne: "?bs \<noteq> []" by (simp add: pool_blocks_Suc)
  have d: "mem \<notin> set ?bs" "mem \<noteq> NULL" using pool_blocks_props(1,2) [OF Suc.prems(1)] unfolding all by auto
  then have "mem \<noteq> last ?bs" using last_in_set [OF ne] by metis
  then have "(m'(last ?bs := NULL)) mem = mem + bsize" using m'(2) d by (simp add: s1_def)
  then have "fseg (m'(last ?bs := NULL)) mem (mem # ?bs)" using m'(3) d by simp
  moreover have "mp_link_blocks bsize mem n s = Some (last (mem # ?bs), s\<lparr>mem32 := m'\<rparr>)"
    using m'(1) n(1) ne by (simp add: mp_link_blocks.simps [of bsize mem n] Let_def s1_def)
  moreover have "\<forall>a. a \<notin> set (mem # ?bs) \<longrightarrow> m' a = mem32 s a" using m'(2) by (simp add: s1_def)
  moreover have "last (mem # ?bs) = last ?bs" using ne by simp
  ultimately show ?case unfolding all by metis
qed

lemma pool_init_ok:
  assumes "mi \<noteq> NULL" "n \<noteq> 0" "pool_fits base bsize (unat n)"
  shows "\<exists>m'. osRtxMemoryPoolInit mi n bsize base s = Some (1, s\<lparr>mp_max_blocks := (mp_max_blocks s)(mi := n),
      mp_used_blocks := (mp_used_blocks s)(mi := 0), mp_block_size := (mp_block_size s)(mi := bsize),
      mp_block_base := (mp_block_base s)(mi := base), mp_block_lim := (mp_block_lim s)(mi := base + n * bsize),
      mp_block_free := (mp_block_free s)(mi := base), mem32 := m'\<rparr>) \<and>
    (\<forall>a. a \<notin> set (pool_blocks base bsize (unat n)) \<longrightarrow> m' a = mem32 s a) \<and>
    fseg m' base (pool_blocks base bsize (unat n))"
proof -
  obtain k where k: "unat n = Suc k" using assms(2) by (metis not0_implies_Suc unat_eq_0)
  let ?bs = "pool_blocks base bsize (Suc k)"
  let ?s = "s\<lparr>mp_max_blocks := (mp_max_blocks s)(mi := n), mp_used_blocks := (mp_used_blocks s)(mi := 0),
      mp_block_size := (mp_block_size s)(mi := bsize), mp_block_base := (mp_block_base s)(mi := base),
      mp_block_free := (mp_block_free s)(mi := base), mp_block_lim := (mp_block_lim s)(mi := base + n * bsize)\<rparr>"
  obtain m' where m': "mp_link_blocks bsize base n ?s = Some (last ?bs, ?s\<lparr>mem32 := m'\<rparr>)"
    "\<forall>a. a \<notin> set ?bs \<longrightarrow> m' a = mem32 s a" "fseg (m'(last ?bs := NULL)) base ?bs"
    using mp_link_blocks_ok [OF assms(3) [unfolded k] k, of ?s] by auto
  have "last ?bs \<in> set ?bs" by (rule last_in_set) (simp add: pool_blocks_Suc)
  then show ?thesis
    using m' assms by (intro exI [of _ "m'(last ?bs := NULL)"]) (simp add: osRtxMemoryPoolInit_def k pool_fits_def)
qed

section \<open>The number of bytes of a pool\<close>

text \<open>Rounding to a boundary.\<close>

lemma unat_and_not:
  fixes x m :: u32
  shows "unat (x AND NOT m) = unat x - unat (x AND m)" "unat (x AND m) \<le> unat x" "unat (x AND m) \<le> unat m"
proof -
  have "(x AND NOT m) + (x AND m) = (x AND NOT m) OR (x AND m)" by (rule disjunctive_add) (simp add: bit_simps)
  also have "\<dots> = x" by (rule bit_word_eqI) (auto simp: bit_simps)
  finally have e: "x AND NOT m = x - (x AND m)" by (simp add: algebra_simps)
  have le: "x AND m \<le> x" by (rule word_and_le2)
  show "unat (x AND NOT m) = unat x - unat (x AND m)" unfolding e by (rule unat_sub [OF le])
  show "unat (x AND m) \<le> unat x" using le by (simp add: word_le_nat_alt)
  have "x AND m \<le> m" by (rule word_and_le1)
  then show "unat (x AND m) \<le> unat m" by (simp add: word_le_nat_alt)
qed

text \<open>\<open>__CLZ\<close> bounds its argument.\<close>

lemma CLZ_bound: "unat (CLZ x) \<le> 32 \<and> unat x < 2 ^ (32 - unat (CLZ x))"
proof -
  define k where "k = length (takeWhile (\<lambda>i. \<not> bit x i) (rev [0..<32]))"
  have k: "k \<le> 32" unfolding k_def by (rule order_trans [OF length_takeWhile_le]) simp
  have h: "\<not> bit x (31 - i)" if i: "i < k" for i
  proof -
    have "takeWhile (\<lambda>i. \<not> bit x i) (rev [0..<32]) ! i = rev [0..<32] ! i"
      using i unfolding k_def by (rule takeWhile_nth)
    moreover have "rev [0..<32] ! i = 31 - i" using i k by (simp add: rev_nth)
    moreover have "takeWhile (\<lambda>i. \<not> bit x i) (rev [0..<32]) ! i \<in> set (takeWhile (\<lambda>i. \<not> bit x i) (rev [0..<32]))"
      using i unfolding k_def by (rule nth_mem)
    ultimately show ?thesis by (metis set_takeWhileD)
  qed
  have z: "\<not> bit x j" if "32 - k \<le> j" "j < 32" for j
  proof -
    have j: "31 - j < k" "31 - (31 - j) = j" using that k by linarith+
    show ?thesis using h [OF j(1)] unfolding j(2) .
  qed
  have "take_bit (32 - k) x = x"
  proof (rule bit_word_eqI)
    fix n assume "n < LENGTH(32)"
    then show "bit (take_bit (32 - k) x) n = bit x n" using z [of n] by (cases "n < 32 - k") (simp_all add: bit_take_bit_iff)
  qed
  then have "unat x = take_bit (32 - k) (unat x)" using unsigned_take_bit_eq [of "32 - k" x] by simp
  then have "unat x < 2 ^ (32 - k)" using take_bit_nat_less_exp [of "32 - k" "unat x"] by simp
  moreover have "unat (CLZ x) = k" using k unfolding CLZ_def k_def [symmetric] by (simp add: unat_of_nat)
  ultimately show ?thesis using k by simp
qed

lemma CLZ_product:
  assumes "\<not> CLZ a + CLZ b < 32"
  shows "unat a * unat b < 2 ^ 32" "unat (a * b) = unat a * unat b"
proof -
  note A = CLZ_bound [of a] and B = CLZ_bound [of b]
  have "unat (CLZ a + CLZ b) = unat (CLZ a) + unat (CLZ b)" using A B by (intro unat_add_lt) simp
  then have s: "(32 - unat (CLZ a)) + (32 - unat (CLZ b)) \<le> 32"
    using assms A B by (simp add: word_less_nat_alt not_less)
  have "unat a * unat b < 2 ^ (32 - unat (CLZ a)) * 2 ^ (32 - unat (CLZ b))"
    using A B by (intro mult_strict_mono') simp_all
  also have "\<dots> = 2 ^ ((32 - unat (CLZ a)) + (32 - unat (CLZ b)))" by (rule power_add [symmetric])
  also have "\<dots> \<le> 2 ^ 32" by (rule power_increasing [OF s]) simp
  finally show p: "unat a * unat b < 2 ^ 32" .
  then show "unat (a * b) = unat a * unat b" by (simp add: unat_word_ariths)
qed

section \<open>Pools beside the scheduler\<close>

text \<open>The blocks of a pool are not the stack bottoms or the saved registers of the threads.\<close>

definition pool_apart :: "addr \<Rightarrow> rtx \<Rightarrow> bool" where
  "pool_apart mi s \<longleftrightarrow> (\<forall>t\<in>thrs s. t_stack_mem s t \<notin> set (pool_all mi s) \<and> osRtxThreadRegPtr t s \<notin> set (pool_all mi s))"

definition is_pool :: "rtx \<Rightarrow> addr \<Rightarrow> bool" where
  "is_pool s mp \<longleftrightarrow> mp \<noteq> NULL \<and> o_id s mp = osRtxIdMemoryPool"

lemma is_pool_objs:
  assumes "is_pool s mp" "kinv s L D W"
  shows "mp \<in> objs s" "mp \<noteq> ready_obj s"
  using assms kstD(5) [OF kinvD(1) [OF assms(2)]]
  by (auto simp: is_pool_def objs_def has_thread_list_def)

text \<open>Memory that is no stack bottom can change.\<close>

lemma kinv_mem:
  assumes k: "kinv s L D W" and m: "\<And>t. t \<in> thrs s \<Longrightarrow> m (t_stack_mem s t) = mem32 s (t_stack_mem s t)"
  shows "kinv (s\<lparr>mem32 := m\<rparr>) L D W"
proof -
  let ?s = "s\<lparr>mem32 := m\<rparr>"
  note K = kinvD(1,2) [OF k]
  have th: "thrs ?s = thrs s" "objs ?s = objs s" by (simp_all add: thrs_def objs_def)
  have "stacks_ok ?s" using kstD(4) [OF K(1)] m by (simp add: stacks_ok_def th osRtxThreadRegPtr_def)
  moreover have "part_ok ?s L (set D \<union> set W) {}" using kstD(2) [OF K(1)] part_ok_cong [of ?s s] th by simp
  ultimately have "kst ?s L (set D \<union> set W) {}" using K(1) by (simp add: kst_def th)
  moreover have "dl_inv ?s D W" using K(2) by (simp add: dl_inv_def)
  ultimately show ?thesis by (simp add: kinv_def)
qed

text \<open>The scheduler leaves the pool alone.\<close>

lemma sched_frame_pool:
  assumes f: "sched_frame s s'" and p: "pool_rel mi s F U" and a: "pool_apart mi s"
  shows "pool_rel mi s' F U" "pool_apart mi s'"
proof -
  note X = sched_frameD [OF f]
  have m: "mem32 s' b = mem32 s b" if "b \<in> set F" for b
  proof (rule sched_frame_out(5) [OF f])
    show "b \<noteq> osRtxThreadRegPtr t s" if "t \<in> thrs s" for t
      using a pool_relD(4) [OF p] \<open>b \<in> set F\<close> that by (auto simp: pool_apart_def)
  qed
  have "fseg (mem32 s') (mp_block_free s mi) F" by (subst fseg_cong [OF m]) (auto simp: pool_relD(7) [OF p])
  then show "pool_rel mi s' F U" using p unfolding pool_rel_def by (simp add: X)
  show "pool_apart mi s'" using a unfolding pool_apart_def sched_frame_out(1) [OF f] by (simp add: X osRtxThreadRegPtr_def)
qed

lemma core_eq_pool: "core_eq s (s\<lparr>mp_block_free := f, mp_used_blocks := u\<rparr>)"
  by (simp add: core_eq_def)

lemma pool_apart_upd [simp]:
  "pool_apart mi (s\<lparr>mp_block_free := f, mp_used_blocks := u\<rparr>) = pool_apart mi s"
  "pool_apart mi (s\<lparr>mem32 := m\<rparr>) = pool_apart mi s"
  by (simp_all add: pool_apart_def thrs_def osRtxThreadRegPtr_def)

section \<open>Allocation and release by threads\<close>

lemma pool_svc_wait:
  assumes k: "kinv s L D W" and st: "stable s" and mp: "is_pool s mp" and p: "pool_rel (mp_info_of mp) s [] U"
    and a: "pool_apart (mp_info_of mp) s" and v: "timeout \<noteq> 0" and w: "can_wait s L"
  shows "\<exists>s' D' W'. svcRtxMemoryPoolAlloc mp timeout s = Some (NULL, s') \<and> run_next s' = hd (L (ready_obj s)) \<and>
    kinv s' (wait_lists s mp (run_curr s) L) D' W' \<and> wait_dl s (run_curr s) timeout D W s' D' W' \<and>
    o_state s' (run_curr s) = osRtxThreadWaitingMemoryPool \<and> prio_ok s' (wait_lists s mp (run_curr s) L) \<and>
    pool_rel (mp_info_of mp) s' [] U \<and> pool_apart (mp_info_of mp) s'"
proof -
  note ob = is_pool_objs [OF mp k]
  have c: "k_state s = osRtxKernelRunning" "run_curr s \<noteq> NULL" "L (ready_obj s) \<noteq> []" using w by (auto simp: can_wait_def)
  have b: "is_blocked osRtxThreadWaitingMemoryPool" by (simp add: is_blocked_def)
  obtain s' D' W' where s': "wait_on mp osRtxThreadWaitingMemoryPool timeout s = Some (True, s')" "sched_frame s s'"
    "run_next s' = hd (L (ready_obj s))" "kinv s' (wait_lists s mp (run_curr s) L) D' W'"
    "wait_dl s (run_curr s) timeout D W s' D' W'" "o_state s' (run_curr s) = osRtxThreadWaitingMemoryPool"
    "prio_ok s' (wait_lists s mp (run_curr s) L)"
    using wait_on_kinv [OF k ob st c(1) refl c(2,3) b v] by blast
  have "svcRtxMemoryPoolAlloc mp timeout s = Some (NULL, s')"
    using mp v s'(1) by (simp add: svcRtxMemoryPoolAlloc_def is_pool_def pool_alloc_Nil [OF p])
  then show ?thesis using s' sched_frame_pool [OF s'(2) p a] by blast
qed

text \<open>The state after \<open>b\<close> has been given back and allocated again for a waiting thread.\<close>

lemma pool_free_alloc:
  assumes p: "pool_rel mi s F U" and b: "b \<in> U" and a: "pool_apart mi s" and k: "kinv s L D W"
  defines "s1 \<equiv> s\<lparr>mem32 := (mem32 s)(b := mp_block_free s mi), mp_block_free := (mp_block_free s)(mi := b),
                mp_used_blocks := (mp_used_blocks s)(mi := mp_used_blocks s mi - 1)\<rparr>"
  shows "osRtxMemoryPoolFree mi b s = (osOK, s1)" "pool_rel mi s1 (b # F) (U - {b})" "pool_apart mi s1" "kinv s1 L D W"
    "osRtxMemoryPoolAlloc mi s1 = (b, s\<lparr>mem32 := (mem32 s)(b := mp_block_free s mi)\<rparr>)" "b \<noteq> NULL"
    "pool_rel mi (s\<lparr>mem32 := (mem32 s)(b := mp_block_free s mi)\<rparr>) F U"
    "kinv (s\<lparr>mem32 := (mem32 s)(b := mp_block_free s mi)\<rparr>) L D W"
    "pool_apart mi (s\<lparr>mem32 := (mem32 s)(b := mp_block_free s mi)\<rparr>)"
proof -
  note P1 = pool_free_used [OF p b, folded s1_def]
  show "osRtxMemoryPoolFree mi b s = (osOK, s1)" "pool_rel mi s1 (b # F) (U - {b})" by (rule P1)+
  show "pool_apart mi s1" using a by (simp add: s1_def)
  let ?s = "s\<lparr>mem32 := (mem32 s)(b := mp_block_free s mi)\<rparr>"
  have nb: "t_stack_mem s t \<noteq> b" if "t \<in> thrs s" for t
    using a pool_relD(3) [OF p] b that by (auto simp: pool_apart_def)
  show k1: "kinv ?s L D W" by (rule kinv_mem [OF k]) (use nb in auto)
  have "s1 = ?s\<lparr>mp_block_free := (mp_block_free s)(mi := b), mp_used_blocks := (mp_used_blocks s)(mi := mp_used_blocks s mi - 1)\<rparr>"
    by (simp add: s1_def)
  then show "kinv s1 L D W" using core_eq_kinv [OF core_eq_pool k1] by simp
  note A = pool_alloc_Cons [OF P1(2)]
  have e: "s1\<lparr>mp_block_free := (mp_block_free s1)(mi := mem32 s1 b),
      mp_used_blocks := (mp_used_blocks s1)(mi := mp_used_blocks s1 mi + 1)\<rparr> = ?s" by (simp add: s1_def)
  show "osRtxMemoryPoolAlloc mi s1 = (b, ?s)" "b \<noteq> NULL" using A(1,2) e by simp_all
  show "pool_rel mi ?s F U" using A(3) b unfolding e by (simp add: insert_absorb)
  show "pool_apart mi ?s" using a by (simp add: pool_apart_def thrs_def osRtxThreadRegPtr_def)
qed

section \<open>Properties\<close>

text \<open>C33: the free list of a pool refines a stack of free blocks beside a set of used ones: any sequence of allocations and
  releases of used blocks answers what the abstract pool answers, and keeps the count of used blocks exact.\<close>

theorem memory_pool_refines:
  assumes "pool_rel mi s F U" "pool_legal ops (F, U)" "pool_spec ops (F, U) = (rs, F', U')"
  shows "\<exists>s'. pool_run (pool_alloc mi) (pool_free mi) ops s = (rs, s') \<and> pool_rel mi s' F' U' \<and>
    unat (mp_used_blocks s' mi) = card U'"
  using rtx_pool.refines [OF assms] pool_relD(8) by blast

text \<open>initialising a pool terminates and links all its blocks in the order of their addresses; it writes nothing
  outside them.\<close>

theorem memory_pool_init:
  assumes "mi \<noteq> NULL" "n \<noteq> 0" "pool_fits base bsize (unat n)"
  shows "\<exists>s'. osRtxMemoryPoolInit mi n bsize base s = Some (1, s') \<and>
    pool_rel mi s' (pool_blocks base bsize (unat n)) {} \<and>
    (\<forall>a. a \<notin> set (pool_blocks base bsize (unat n)) \<longrightarrow> mem32 s' a = mem32 s a)"
proof -
  obtain m' where m': "osRtxMemoryPoolInit mi n bsize base s = Some (1, s\<lparr>mp_max_blocks := (mp_max_blocks s)(mi := n),
      mp_used_blocks := (mp_used_blocks s)(mi := 0), mp_block_size := (mp_block_size s)(mi := bsize),
      mp_block_base := (mp_block_base s)(mi := base), mp_block_lim := (mp_block_lim s)(mi := base + n * bsize),
      mp_block_free := (mp_block_free s)(mi := base), mem32 := m'\<rparr>)"
    "\<forall>a. a \<notin> set (pool_blocks base bsize (unat n)) \<longrightarrow> m' a = mem32 s a" "fseg m' base (pool_blocks base bsize (unat n))"
    using pool_init_ok [OF assms] by blast
  show ?thesis
    unfolding m'(1)
    by (intro exI conjI) (rule refl, use m'(2,3) assms pool_blocks_props(1) [OF assms(3)] in \<open>simp_all add: pool_rel_def\<close>)
qed

theorem memory_pool_init_witness:
  "\<exists>s'. osRtxMemoryPoolInit 0x80C 3 8 0x9000 demo = Some (1, s') \<and> pool_rel 0x80C s' [0x9000, 0x9008, 0x9010] {}"
proof -
  have f: "pool_fits 0x9000 8 (unat (3 :: u32))" by (simp add: pool_fits_def)
  have "pool_blocks 0x9000 8 (unat (3 :: u32)) = [0x9000, 0x9008, 0x9010]"
    by (simp add: pool_blocks_def upt_rec)
  then show ?thesis using memory_pool_init [OF _ _ f, of "0x80C" demo] by auto
qed

text \<open>a pool that is created gets a number of bytes that does not overflow: the check of the leading zeros of the
  block count and the rounded block size bounds their product.\<close>

theorem memory_pool_size:
  assumes "svcRtxMemoryPoolNew n bsize attr s = Some (mp, s')" "mp \<noteq> NULL" "unat bsize + 3 < 2 ^ 32"
  shows "unat n * unat ((bsize + 3) AND NOT 3) < 2 ^ 32 \<and> unat (n * ((bsize + 3) AND NOT 3)) = unat n * unat ((bsize + 3) AND NOT 3) \<and>
    bsize \<le> (bsize + 3) AND NOT 3"
proof -
  have c: "\<not> CLZ n + CLZ ((bsize + 3) AND NOT 3) < 32"
    using assms(1,2) by (auto simp: svcRtxMemoryPoolNew_def Let_def split: if_splits)
  have u: "unat (bsize + 3) = unat bsize + 3" using unat_add_lt [of bsize 3] assms(3) by simp
  then have "bsize \<le> (bsize + 3) AND NOT 3"
    using unat_and_not(1,3) [of "bsize + 3" 3] by (simp add: word_le_nat_alt)
  then show ?thesis using CLZ_product [OF c] by blast
qed

text \<open>A pool of three blocks of five bytes in the caller's memory.\<close>

definition demo_pool_attr :: "addr \<Rightarrow> u32 \<Rightarrow> os_data_attr" where
  "demo_pool_attr data n = \<lparr>a_name = 0, a_attr_bits = 0, a_cb_mem = 0x800, a_cb_size = 36, a_data_mem = data, a_data_size = n\<rparr>"

lemma CLZ_values: "CLZ 3 = 30" "CLZ 8 = 28" "CLZ 0 = 32"
  by code_simp+

theorem memory_pool_size_witness:
  "\<exists>s'. svcRtxMemoryPoolNew 3 5 (Some (demo_pool_attr 0x9000 24)) demo = Some (0x800, s') \<and>
     unat (3 * ((5 + 3) AND NOT 3) :: u32) = unat (3 :: u32) * unat ((5 + 3) AND NOT 3 :: u32)"
proof -
  have f: "pool_fits 0x9000 8 (unat (3 :: u32))" by (simp add: pool_fits_def)
  let ?s = "demo\<lparr>o_id := (o_id demo)(0x800 := osRtxIdMemoryPool), o_flags := (o_flags demo)(0x800 := 0),
     o_name := (o_name demo)(0x800 := 0), thread_next := (thread_next demo)(0x800 := NULL)\<rparr>"
  obtain s' where s': "osRtxMemoryPoolInit 0x80C 3 8 0x9000 ?s = Some (1, s')"
    using pool_init_ok [OF _ _ f, of "0x80C" ?s] by auto
  have new: "svcRtxMemoryPoolNew 3 5 (Some (demo_pool_attr 0x9000 24)) demo = Some (0x800, s')"
    using s' by (simp add: svcRtxMemoryPoolNew_def CLZ_values attr_cb_ok_def attr_data_ok_def demo_pool_attr_def
        os_attr.truncate_def cb_and_data_def mp_info_of_def)
  show ?thesis using memory_pool_size [OF new] new by simp
qed

text \<open>a block size of at least 0xFFFFFFFD wraps to 0 when it is rounded up: the size check passes, and with
  memory of the caller the service returns a pool whose block list was never initialised.\<close>

theorem memory_pool_new_wraps:
  assumes "n \<noteq> 0" "bsize \<ge> 0xFFFFFFFD" "attr_cb_ok sizeof_os_memory_pool_t (Some (os_attr.truncate a))"
    and "a_cb_mem a \<noteq> NULL" "a_data_mem a \<noteq> NULL" "a_data_mem a AND 3 = 0"
  shows "\<exists>s'. svcRtxMemoryPoolNew n bsize (Some a) s = Some (a_cb_mem a, s') \<and> is_pool s' (a_cb_mem a) \<and>
    mp_max_blocks s' = mp_max_blocks s \<and> mp_block_free s' = mp_block_free s \<and> mp_block_lim s' = mp_block_lim s"
proof -
  have "bsize = 0xFFFFFFFD \<or> bsize = 0xFFFFFFFE \<or> bsize = 0xFFFFFFFF"
  proof -
    have "unat bsize \<ge> 4294967293" using assms(2) by (simp add: word_le_nat_alt)
    then have "unat bsize = 4294967293 \<or> unat bsize = 4294967294 \<or> unat bsize = 4294967295"
      using unat_32_lt [of bsize] by linarith
    then show ?thesis by (auto simp: word_unat_eq_iff)
  qed
  then have b: "(bsize + 3) AND NOT 3 = 0" "bsize \<noteq> 0" by auto
  have "\<not> CLZ n + 32 < 32"
  proof -
    have "unat (CLZ n + 32) = unat (CLZ n) + 32" using CLZ_bound [of n] by (subst unat_add_lt) simp_all
    then show ?thesis by (simp add: word_less_nat_alt)
  qed
  then show ?thesis
    using assms b
    by (simp add: svcRtxMemoryPoolNew_def CLZ_values attr_data_ok_def cb_and_data_def osRtxMemoryPoolInit_def is_pool_def
        os_attr.truncate_def Let_def)
qed

theorem memory_pool_new_wraps_witness:
  "\<exists>s'. svcRtxMemoryPoolNew 3 0xFFFFFFFE (Some (demo_pool_attr 0x9000 0)) demo = Some (0x800, s') \<and> is_pool s' 0x800"
  using memory_pool_new_wraps [of 3 "0xFFFFFFFE" "demo_pool_attr 0x9000 0" demo]
  by (auto simp: attr_cb_ok_def demo_pool_attr_def os_attr.truncate_def)

text \<open>Allocating from a pool returns on every branch and keeps the kernel invariant and the pool: a free block that nobody
  uses is handed out; from an empty pool a call without a timeout returns NULL and changes nothing, and one with a timeout queues
  the running thread by its priority and its timeout.\<close>

theorem memory_pool_alloc:
  assumes "kinv s L D W" "stable s" "is_pool s mp" "pool_rel (mp_info_of mp) s F U" "pool_apart (mp_info_of mp) s"
  shows "\<exists>b s' L' D' W' F' U'. svcRtxMemoryPoolAlloc mp timeout s = Some (b, s') \<and> kinv s' L' D' W' \<and>
    pool_rel (mp_info_of mp) s' F' U' \<and> pool_apart (mp_info_of mp) s' \<and>
    (case F of b0 # F0 \<Rightarrow> b = b0 \<and> b0 \<notin> U \<and> F' = F0 \<and> U' = insert b0 U \<and> L' = L \<and> D' = D \<and> W' = W
     | [] \<Rightarrow> b = NULL \<and> F' = [] \<and> U' = U \<and>
         (if timeout \<noteq> 0 \<and> can_wait s L then L' = wait_lists s mp (run_curr s) L \<and> wait_dl s (run_curr s) timeout D W s' D' W' \<and>
            run_next s' = hd (L (ready_obj s)) \<and> o_state s' (run_curr s) = osRtxThreadWaitingMemoryPool
          else s' = s))"
proof (cases F)
  case (Cons b0 F0)
  note A = pool_alloc_Cons [OF assms(4) [unfolded Cons]]
  have "b0 \<notin> U" using pool_relD(6) [OF assms(4)] Cons by auto
  then show ?thesis
    using A assms(3,5) core_eq_kinv [OF core_eq_pool assms(1)] Cons
    by (intro exI conjI) (simp add: svcRtxMemoryPoolAlloc_def is_pool_def, assumption, simp_all)
next
  case Nil
  note p = assms(4) [unfolded Nil]
  show ?thesis
  proof (cases "timeout \<noteq> 0 \<and> can_wait s L")
    case True
    obtain s' D' W' where s': "svcRtxMemoryPoolAlloc mp timeout s = Some (NULL, s')" "run_next s' = hd (L (ready_obj s))"
      "kinv s' (wait_lists s mp (run_curr s) L) D' W'" "wait_dl s (run_curr s) timeout D W s' D' W'"
      "o_state s' (run_curr s) = osRtxThreadWaitingMemoryPool" "pool_rel (mp_info_of mp) s' [] U" "pool_apart (mp_info_of mp) s'"
      using pool_svc_wait [OF assms(1-3) p assms(5)] True by blast
    then show ?thesis using True Nil
      by (intro exI [of _ NULL] exI [of _ s'] exI [of _ "wait_lists s mp (run_curr s) L"] exI [of _ D'] exI [of _ W']
          exI [of _ "[]"] exI [of _ U]) simp
  next
    case False
    have "wait_on mp osRtxThreadWaitingMemoryPool timeout s = Some (False, s)" if "timeout \<noteq> 0"
      by (rule wait_on_fail [OF assms(1)]) (use that False in \<open>auto simp: can_wait_def\<close>)
    then have "svcRtxMemoryPoolAlloc mp timeout s = Some (NULL, s)"
      using assms(3) by (cases "timeout = 0") (simp_all add: svcRtxMemoryPoolAlloc_def is_pool_def pool_alloc_Nil [OF p])
    then show ?thesis using assms Nil False by auto
  qed
qed

text \<open>Giving a used block back to a pool without waiters makes it the next one to be handed out; with waiters the first of
  them gets the block at once, with no moment at which it is free, and preempts the caller if its priority is higher.\<close>

theorem memory_pool_free:
  assumes "kinv s L D W" "stable s" "is_pool s mp" "pool_rel (mp_info_of mp) s F U" "pool_apart (mp_info_of mp) s" "b \<in> U"
  shows "\<exists>s' L' D' W' F' U'. svcRtxMemoryPoolFree mp b s = Some (osOK, s') \<and> kinv s' L' D' W' \<and>
    pool_rel (mp_info_of mp) s' F' U' \<and> pool_apart (mp_info_of mp) s' \<and>
    (case L mp of [] \<Rightarrow> F' = b # F \<and> U' = U - {b} \<and> L' = L \<and> run_next s' = run_next s
     | t # ts \<Rightarrow> F' = F \<and> U' = U \<and> mem32 s' (osRtxThreadRegPtr t s) = b \<and> D' = remove1 t D \<and> W' = remove1 t W \<and>
         L' = exit_lists s t True (L(mp := ts)) \<and> run_next s' = (if preempts s t then t else run_next s))"
proof -
  note ob = is_pool_objs [OF assms(3,1)]
  note FA = pool_free_alloc [OF assms(4,6,5,1)]
  let ?mi = "mp_info_of mp"
  let ?s1 = "s\<lparr>mem32 := (mem32 s)(b := mp_block_free s ?mi), mp_block_free := (mp_block_free s)(?mi := b),
                mp_used_blocks := (mp_used_blocks s)(?mi := mp_used_blocks s ?mi - 1)\<rparr>"
  let ?s2 = "s\<lparr>mem32 := (mem32 s)(b := mp_block_free s ?mi)\<rparr>"
  have mp: "mp \<noteq> NULL" "o_id s mp = osRtxIdMemoryPool" using assms(3) by (simp_all add: is_pool_def)
  note hd = kinv_head(2) [OF assms(1) ob(1)]
  show ?thesis
  proof (cases "L mp")
    case Nil
    have "svcRtxMemoryPoolFree mp b s = Some (osOK, ?s1)"
      using FA(1) mp hd Nil by (simp add: svcRtxMemoryPoolFree_def)
    then show ?thesis using FA(2-4) Nil
      by (intro exI [of _ ?s1] exI [of _ L] exI [of _ D] exI [of _ W] exI [of _ "b # F"] exI [of _ "U - {b}"]) simp
  next
    case (Cons t ts)
    have o2: "mp \<in> objs ?s2" "mp \<noteq> ready_obj ?s2" "stable ?s2" using ob assms(2) by (simp_all add: objs_def stable_def)
    obtain s' where s': "wake_first mp b True ?s2 = Some (t, s')" "sched_frame ?s2 s'"
      "kinv s' (exit_lists ?s2 t True (L(mp := ts))) (remove1 t D) (remove1 t W)" "run_next s' = exit_run ?s2 t True"
      "mem32 s' = (mem32 ?s2)(osRtxThreadRegPtr t ?s2 := b)"
      using wake_first_kinv [OF FA(8) o2(1,2) Cons, of True b] o2(3) by blast
    have e: "exit_lists ?s2 t True (L(mp := ts)) = exit_lists s t True (L(mp := ts))"
      "exit_run ?s2 t True = (if preempts s t then t else run_next s)" "osRtxThreadRegPtr t ?s2 = osRtxThreadRegPtr t s"
      by (simp_all add: exit_lists_def disp_lists_def ready_put_def ready_push_def preempts_def exit_run_def disp_run_def
          osRtxThreadRegPtr_def)
    have "svcRtxMemoryPoolFree mp b s = Some (osOK, s')"
      using FA(1,5,6) mp hd Cons s'(1) by (simp add: svcRtxMemoryPoolFree_def)
    moreover have "mem32 s' (osRtxThreadRegPtr t s) = b" unfolding s'(5) e by simp
    ultimately show ?thesis using s'(3,4) sched_frame_pool [OF s'(2) FA(7,9)] Cons e
      by (intro exI [of _ s'] exI [of _ "exit_lists s t True (L(mp := ts))"] exI [of _ "remove1 t D"]
          exI [of _ "remove1 t W"] exI [of _ F] exI [of _ U]) simp
  qed
qed

section \<open>A concrete pool\<close>

text \<open>
  A pool of two blocks, both in use while \<open>0x300\<close> waits for one; and the same with one free block.
\<close>

definition demo_pool :: rtx where
  "demo_pool = (demo_on osRtxIdMemoryPool osRtxThreadWaitingMemoryPool)\<lparr>
     mp_max_blocks := (\<lambda>_. 0)(0x70C := 2), mp_used_blocks := (\<lambda>_. 0)(0x70C := 2), mp_block_size := (\<lambda>_. 0)(0x70C := 8),
     mp_block_base := (\<lambda>_. 0)(0x70C := 0x9000), mp_block_lim := (\<lambda>_. 0)(0x70C := 0x9010), mp_block_free := (\<lambda>_. 0)\<rparr>"

definition demo_pool1 :: rtx where
  "demo_pool1 = demo_pool\<lparr>mp_used_blocks := (\<lambda>_. 0)(0x70C := 1), mp_block_free := (\<lambda>_. 0)(0x70C := 0x9008)\<rparr>"

lemma demo_pool_all: "pool_all 0x70C demo_pool = [0x9000, 0x9008]" "pool_all 0x70C demo_pool1 = [0x9000, 0x9008]"
  by (simp_all add: demo_pool1_def demo_pool_def pool_blocks_def upt_rec)

lemma demo_pool_core: "core_eq (demo_on osRtxIdMemoryPool osRtxThreadWaitingMemoryPool) demo_pool"
  "core_eq (demo_on osRtxIdMemoryPool osRtxThreadWaitingMemoryPool) demo_pool1"
  by (simp_all add: core_eq_def demo_pool1_def demo_pool_def)

lemma demo_pool_kinv: "kinv demo_pool demo_on_lists [0x300] []" "kinv demo_pool1 demo_on_lists [0x300] []"
  by (rule core_eq_kinv [OF demo_pool_core(1)], rule demo_on_kinv, simp_all add: has_thread_list_def is_blocked_def)
    (rule core_eq_kinv [OF demo_pool_core(2)], rule demo_on_kinv, simp_all add: has_thread_list_def is_blocked_def)

lemma demo_pool_thrs: "thrs demo_pool = {0x100, 0x200, 0x300}" "thrs demo_pool1 = {0x100, 0x200, 0x300}"
  using demo_on_thrs [of osRtxThreadWaitingMemoryPool osRtxIdMemoryPool]
  by (simp_all add: thrs_def demo_pool1_def demo_pool_def)

lemma demo_pool_apart: "pool_apart 0x70C demo_pool" "pool_apart 0x70C demo_pool1"
  unfolding pool_apart_def demo_pool_thrs demo_pool_all
  by (simp_all add: demo_pool1_def demo_pool_def demo_on_def demo_def rtx0_def osRtxThreadRegPtr_def StackOffsetR0_def)

lemma demo_pool_rel: "pool_rel 0x70C demo_pool [] {0x9000, 0x9008}" "pool_rel 0x70C demo_pool1 [0x9008] {0x9000}"
  unfolding pool_rel_def demo_pool_all
  by (simp_all add: demo_pool1_def demo_pool_def pool_fits_def demo_on_def demo_def rtx0_def insert_commute)

lemma demo_pool_simps [simp]:
  "mp_info_of 0x700 = 0x70C" "stable demo_pool" "stable demo_pool1" "is_pool demo_pool 0x700" "is_pool demo_pool1 0x700"
  "run_curr demo_pool = 0x100" "ready_obj demo_pool = 0x10" "k_state demo_pool = osRtxKernelRunning"
  "t_priority demo_pool = t_priority demo" "run_next demo_pool = 0x100"
  by (simp_all add: mp_info_of_def demo_pool1_def demo_pool_def is_pool_def stable_def)

theorem memory_pool_refines_witness:
  "\<exists>s'. pool_run (pool_alloc 0x70C) (pool_free 0x70C) [None, None, Some 0x9000, None] demo_pool1 =
       ([Some 0x9008, None, Some 0x9000, Some 0x9000], s') \<and> unat (mp_used_blocks s' 0x70C) = 2"
proof -
  have c: "card {0x9000, 0x9008, 0x9000 :: addr} = 2" by (simp add: insert_commute)
  show ?thesis
    using memory_pool_refines [OF demo_pool_rel(2), of "[None, None, Some 0x9000, None]"] unfolding c [symmetric] by auto
qed

theorem memory_pool_alloc_witness:
  "\<exists>s'. svcRtxMemoryPoolAlloc 0x700 0 demo_pool1 = Some (0x9008, s') \<and> pool_rel 0x70C s' [] {0x9000, 0x9008}"
proof -
  have mi: "pool_rel (mp_info_of 0x700) demo_pool1 [0x9008] {0x9000}" "pool_apart (mp_info_of 0x700) demo_pool1"
    using demo_pool_rel(2) demo_pool_apart(2) by simp_all
  show ?thesis
    using memory_pool_alloc [OF demo_pool_kinv(2) demo_pool_simps(3,5) mi, of 0] by (auto simp: insert_commute)
qed

theorem memory_pool_free_witness:
  "\<exists>s' L' D' W'. svcRtxMemoryPoolFree 0x700 0x9008 demo_pool = Some (osOK, s') \<and> kinv s' L' D' W' \<and>
     pool_rel 0x70C s' [] {0x9000, 0x9008} \<and> run_next s' = 0x300 \<and> L' 0x10 = [0x100, 0x200]"
proof -
  have mi: "pool_rel (mp_info_of 0x700) demo_pool [] {0x9000, 0x9008}" "pool_apart (mp_info_of 0x700) demo_pool"
    using demo_pool_rel(1) demo_pool_apart(1) by simp_all
  have pre: "preempts demo_pool 0x300" by (simp add: preempts_def)
  have b: "(0x9008 :: addr) \<in> {0x9000, 0x9008}" by simp
  obtain s' L' D' W' where s': "svcRtxMemoryPoolFree 0x700 0x9008 demo_pool = Some (osOK, s')" "kinv s' L' D' W'"
    "pool_rel 0x70C s' [] {0x9000, 0x9008}" "run_next s' = 0x300"
    "L' = exit_lists demo_pool 0x300 True (demo_on_lists(0x700 := []))"
    using memory_pool_free [OF demo_pool_kinv(1) demo_pool_simps(2,4) mi b] pre by auto
  moreover have "exit_lists demo_pool 0x300 True (demo_on_lists(0x700 := [])) 0x10 = [0x100, 0x200]"
    using pre by (simp add: exit_lists_def disp_lists_def ready_push_def prio_push_def ins_after_Cons)
  ultimately show ?thesis by blast
qed

end
