(* ===== verification/MsgList.thy ===== *)
theory MsgList
  imports MsgQueue ListSpec PoolSpec
begin

text \<open>
  The list of messages of a queue: sorted by priority, first-in first-out among equals.  It satisfies the
  contract \<open>stable_queue\<close> of the thread lists, with its own code: a search from the tail, a count, and a flag
  that says whether a message has been taken.
\<close>

section \<open>The representation\<close>

text \<open>
  \<open>mq_list s mq Q\<close>: the messages of the queue are \<open>Q\<close>, linked both ways; a message with a flag has been taken by an
  interrupt and waits to be removed, and is not counted.
\<close>

definition mq_list :: "rtx \<Rightarrow> addr \<Rightarrow> addr list \<Rightarrow> bool" where
  "mq_list s mq Q \<longleftrightarrow> dseg (msg_next s) (msg_prev s) NULL (mq_msg_first s mq) Q \<and> distinct Q \<and>
     mq_msg_last s mq = last (NULL # Q) \<and> sorted_wrt (\<lambda>a b. msg_priority s a \<ge> msg_priority s b) Q \<and>
     unat (mq_msg_count s mq) = length (filter (\<lambda>m. o_flags s m = 0) Q)"

definition msg_put :: "(addr \<Rightarrow> u8) \<Rightarrow> addr \<Rightarrow> addr list \<Rightarrow> addr list" where
  "msg_put pr m Q = ins_after (\<lambda>x. pr x \<ge> pr m) m Q"

text \<open>Searching from the tail or from the head finds the same place.\<close>

lemma sorted_split:
  assumes "sorted_wrt (\<lambda>a b. (pr a :: 'k :: linorder) \<ge> pr b) (xs @ ys)" "xs \<noteq> [] \<Longrightarrow> pr (last xs) \<ge> k" "\<And>y. y \<in> set ys \<Longrightarrow> pr y < k"
  shows "takeWhile (\<lambda>x. pr x \<ge> k) (xs @ ys) = xs" "dropWhile (\<lambda>x. pr x \<ge> k) (xs @ ys) = ys"
proof -
  have x: "pr x \<ge> k" if "x \<in> set xs" for x
  proof -
    have ne: "xs \<noteq> []" using that by auto
    then obtain zs where zs: "xs = zs @ [last xs]" by (metis append_butlast_last_id)
    have s: "sorted_wrt (\<lambda>a b. pr a \<ge> pr b) xs" using assms(1) by (simp add: sorted_wrt_append)
    have "x = last xs \<or> x \<in> set zs" using that zs by (metis Un_iff empty_iff insert_iff list.set(1,2) set_append)
    then have "pr x \<ge> pr (last xs)" using s zs by (metis order_refl sorted_wrt_append list.set_intros(1))
    then show ?thesis using assms(2) [OF ne] by simp
  qed
  have y: "takeWhile (\<lambda>x. pr x \<ge> k) ys = []" "dropWhile (\<lambda>x. pr x \<ge> k) ys = ys"
    using assms(3) by (cases ys; auto simp: not_le)+
  show "takeWhile (\<lambda>x. pr x \<ge> k) (xs @ ys) = xs" "dropWhile (\<lambda>x. pr x \<ge> k) (xs @ ys) = ys"
    using x y by (simp_all add: takeWhile_append2 dropWhile_append2)
qed

lemma msg_search_dseg:
  assumes "dseg nx (msg_prev s) NULL c (xs @ ys)" "sorted_wrt (\<lambda>a b. msg_priority s a \<ge> msg_priority s b) (xs @ ys)"
    and "\<And>y. y \<in> set ys \<Longrightarrow> msg_priority s y < p"
  shows "\<exists>us vs. msg_search s p (last (NULL # xs)) (hd0 ys) = Some (last (NULL # us), hd0 vs) \<and> us @ vs = xs @ ys \<and>
    takeWhile (\<lambda>x. msg_priority s x \<ge> p) (xs @ ys) = us \<and> dropWhile (\<lambda>x. msg_priority s x \<ge> p) (xs @ ys) = vs"
  using assms
proof (induction xs arbitrary: ys rule: rev_induct)
  case Nil
  then show ?case using sorted_split [of "msg_priority s" Nil ys p]
    by (intro exI [of _ "[]"] exI [of _ ys]) (simp add: msg_search.simps [of s p 0])
next
  case (snoc x xs)
  have ds: "dseg nx (msg_prev s) NULL c (xs @ x # ys)" using snoc.prems(1) by simp
  note M = dseg_middle [OF ds]
  show ?case
  proof (cases "msg_priority s x < p")
    case True
    have so: "sorted_wrt (\<lambda>a b. msg_priority s a \<ge> msg_priority s b) (xs @ x # ys)" using snoc.prems(2) by simp
    have "msg_search s p x (hd0 ys) = msg_search s p (last (NULL # xs)) x"
      using True M(1,3) by (simp add: msg_search.simps [of s p x])
    moreover have "\<And>y. y \<in> set (x # ys) \<Longrightarrow> msg_priority s y < p" using snoc.prems(3) True by auto
    ultimately show ?thesis using snoc.IH [OF ds so] by simp
  next
    case False
    then have "msg_search s p x (hd0 ys) = Some (x, hd0 ys)" by (simp add: msg_search.simps [of s p x])
    then show ?thesis
      using sorted_split [of "msg_priority s" "xs @ [x]" ys p] snoc.prems(2,3) False
      by (intro exI [of _ "xs @ [x]"] exI [of _ ys]) simp
  qed
qed

text \<open>Putting a message into the list, in one equation.\<close>

lemma MessageQueuePut_ok:
  assumes q: "mq_list s mq Q" and m: "m \<notin> set Q" "m \<noteq> NULL" "o_flags s m = 0" and c: "length Q < 2 ^ 32 - 1"
  shows "\<exists>nx pv f l. MessageQueuePut mq m s = Some (s\<lparr>msg_prev := pv, msg_next := nx,
      mq_msg_first := (mq_msg_first s)(mq := f), mq_msg_last := (mq_msg_last s)(mq := l),
      mq_msg_count := (mq_msg_count s)(mq := mq_msg_count s mq + 1)\<rparr>) \<and>
    mq_list (s\<lparr>msg_prev := pv, msg_next := nx,
      mq_msg_first := (mq_msg_first s)(mq := f), mq_msg_last := (mq_msg_last s)(mq := l),
      mq_msg_count := (mq_msg_count s)(mq := mq_msg_count s mq + 1)\<rparr>) mq (msg_put (msg_priority s) m Q) \<and>
    (\<forall>x. x \<notin> insert m (set Q) \<longrightarrow> nx x = msg_next s x \<and> pv x = msg_prev s x)"
proof -
  note I = q [unfolded mq_list_def]
  have nn: "NULL \<notin> set Q" using I dseg_nonnull by blast
  let ?p = "msg_priority s m"
  have dsQ: "dseg (msg_next s) (msg_prev s) NULL (mq_msg_first s mq) Q"
    "sorted_wrt (\<lambda>a b. msg_priority s a \<ge> msg_priority s b) Q" using I by blast+
  obtain us vs where uv: "msg_search s ?p (last (NULL # Q)) NULL = Some (last (NULL # us), hd0 vs)" "us @ vs = Q"
    "takeWhile (\<lambda>x. msg_priority s x \<ge> ?p) Q = us" "dropWhile (\<lambda>x. msg_priority s x \<ge> ?p) Q = vs"
    using msg_search_dseg [of "msg_next s" s "mq_msg_first s mq" Q "[]" ?p, unfolded append_Nil2 hd0_simps, OF dsQ] by (metis empty_iff list.set(1))
  let ?q = "last (NULL # us)" and ?n = "hd0 vs"
  have put: "msg_put (msg_priority s) m Q = us @ m # vs" using uv(3,4) by (simp add: msg_put_def ins_after_def)
  have q0: "?q = NULL \<longleftrightarrow> us = []" using last_eq_NULL [of us] uv(2) nn by auto
  have n0: "?n = NULL \<longleftrightarrow> vs = []" using hd0_eq_NULL [of vs] uv(2) nn by auto
  have qQ: "?q \<noteq> NULL \<Longrightarrow> ?q \<in> set Q" "?n \<noteq> NULL \<Longrightarrow> ?n \<in> set Q"
    using q0 n0 uv(2) hd0_in_set [of vs] by (auto split: if_splits)
  define nx where "nx = (if us = [] then (msg_next s)(m := ?n) else (msg_next s)(m := ?n, ?q := m))"
  define pv where "pv = (if vs = [] then (msg_prev s)(m := ?q) else (msg_prev s)(m := ?q, ?n := m))"
  define f where "f = (if us = [] then m else mq_msg_first s mq)"
  define l where "l = (if vs = [] then m else mq_msg_last s mq)"
  let ?s = "s\<lparr>msg_prev := pv, msg_next := nx, mq_msg_first := (mq_msg_first s)(mq := f), mq_msg_last := (mq_msg_last s)(mq := l),
      mq_msg_count := (mq_msg_count s)(mq := mq_msg_count s mq + 1)\<rparr>"
  have "MessageQueuePut mq m s = Some ?s"
  proof (cases "Q = []")
    case True
    then have "us = []" "vs = []" "mq_msg_last s mq = NULL" using uv(2) I by auto
    then show ?thesis using m by (simp add: MessageQueuePut_def atomic_inc32_def nx_def pv_def f_def l_def)
  next
    case False
    then have l: "mq_msg_last s mq \<noteq> NULL" "last (NULL # Q) = mq_msg_last s mq" using I last_eq_NULL [OF nn] by auto
    have sr: "msg_search s ?p (mq_msg_last s mq) NULL = Some (?q, ?n)" using uv(1) unfolding l(2) .
    have ne: "m \<noteq> ?q" "m \<noteq> ?n" using qQ m by metis+
    show ?thesis
      by (cases "us = []"; cases "vs = []")
        (use q0 n0 ne in \<open>simp_all add: MessageQueuePut_def l(1) sr atomic_inc32_def nx_def pv_def f_def l_def fun_upd_twist
          del: last.simps\<close>)
  qed
  moreover have "mq_list ?s mq (us @ m # vs)"
  proof -
    have "dseg nx pv NULL f (us @ m # vs)"
      by (rule dseg_insert [where nx = "msg_next s" and pv = "msg_prev s" and c = "mq_msg_first s mq" and n = ?n and q = ?q])
        (use I uv(2) m q0 n0 in \<open>auto simp: nx_def pv_def f_def\<close>)
    moreover have "distinct (us @ m # vs)" using I m uv(2) by auto
    moreover have "l = last (NULL # us @ m # vs)" using I uv(2) by (auto simp: l_def)
    moreover have "sorted_wrt (\<lambda>a b. msg_priority s a \<ge> msg_priority s b) (msg_put (msg_priority s) m Q)"
      unfolding msg_put_def by (rule sorted_wrt_ins_after) (use I in auto)
    moreover have "unat (mq_msg_count s mq + 1) = length (filter (\<lambda>m. o_flags s m = 0) (us @ m # vs))"
    proof -
      have "length (filter (\<lambda>m. o_flags s m = 0) Q) < 2 ^ 32 - 1" using c length_filter_le le_less_trans by blast
      then have "unat (mq_msg_count s mq + 1) = unat (mq_msg_count s mq) + 1"
        using I unat_add_lt [of "mq_msg_count s mq" 1] by simp
      then show ?thesis using I m uv(2) by (auto simp: mq_list_def)
    qed
    ultimately show ?thesis unfolding mq_list_def put [symmetric] by (simp add: put)
  qed
  moreover have "\<forall>x. x \<notin> insert m (set Q) \<longrightarrow> nx x = msg_next s x \<and> pv x = msg_prev s x"
    using q0 n0 qQ by (auto simp: nx_def pv_def)
  ultimately show ?thesis unfolding put by blast
qed

section \<open>Taking and removing messages\<close>

text \<open>The first message that has not been taken.\<close>

lemma msg_take_loop_ok:
  assumes "dseg (msg_next s) pv p c Q" "\<And>x. x \<in> set xs \<Longrightarrow> o_flags s x = 1" "Q = xs @ m # ys" "o_flags s m = 0"
  shows "msg_take_loop c s = Some (m, s\<lparr>o_flags := (o_flags s)(m := 1)\<rparr>)"
  using assms
proof (induction xs arbitrary: p c Q)
  case Nil
  then have c: "c = m" "m \<noteq> NULL" by auto
  show ?case unfolding c(1) using c(2) Nil.prems(4) by (simp add: msg_take_loop.simps [of m s] atomic_wr8_def fun_upd_def)
next
  case (Cons x xs)
  have x: "c = x" "x \<noteq> NULL" "dseg (msg_next s) pv x (msg_next s x) (xs @ m # ys)" using Cons.prems(1,3) by auto
  have "s\<lparr>o_flags := (o_flags s)(x := 1)\<rparr> = s" using Cons.prems(2) [of x] by (simp add: fun_upd_idem)
  then have "msg_take_loop c s = msg_take_loop (msg_next s x) s"
    using x(2) Cons.prems(2) [of x] unfolding x(1) by (simp add: msg_take_loop.simps [of x s] atomic_wr8_def Let_def)
  then show ?case using Cons.IH [OF x(3) _ refl Cons.prems(4)] Cons.prems(2) by simp
qed

text \<open>Flags are 0 or 1.\<close>

definition msg_flags_ok :: "rtx \<Rightarrow> addr list \<Rightarrow> bool" where
  "msg_flags_ok s Q \<longleftrightarrow> (\<forall>m\<in>set Q. o_flags s m \<in> {0, 1})"

lemma MessageQueueGet_none:
  assumes "mq_list s mq Q" "\<And>m. m \<in> set Q \<Longrightarrow> o_flags s m \<noteq> 0"
  shows "MessageQueueGet mq s = Some (NULL, s)"
proof -
  have "filter (\<lambda>m. o_flags s m = 0) Q = []" using assms(2) by (auto simp: filter_empty_conv)
  then have "mq_msg_count s mq = 0" using assms(1) by (simp add: mq_list_def unat_eq_0)
  moreover have "(mq_msg_count s)(mq := 0) = mq_msg_count s" using calculation by (simp add: fun_upd_idem)
  ultimately show ?thesis by (simp add: MessageQueueGet_def atomic_dec32_nz_def)
qed

lemma MessageQueueGet_some:
  assumes q: "mq_list s mq Q" and Q: "Q = xs @ m # ys" "\<And>x. x \<in> set xs \<Longrightarrow> o_flags s x = 1" "o_flags s m = 0"
  defines "s' \<equiv> s\<lparr>o_flags := (o_flags s)(m := 1), mq_msg_count := (mq_msg_count s)(mq := mq_msg_count s mq - 1)\<rparr>"
  shows "MessageQueueGet mq s = Some (m, s')" "mq_list s' mq Q" "m \<noteq> NULL"
proof -
  note I = q [unfolded mq_list_def]
  have cnt: "unat (mq_msg_count s mq) = Suc (length (filter (\<lambda>x. o_flags s x = 0) ys) + length (filter (\<lambda>x. o_flags s x = 0) xs))"
    using I Q by simp
  then have c0: "mq_msg_count s mq \<noteq> 0" by auto
  let ?s = "s\<lparr>mq_msg_count := (mq_msg_count s)(mq := mq_msg_count s mq - 1)\<rparr>"
  have "dseg (msg_next ?s) (msg_prev s) NULL (mq_msg_first s mq) Q" using I by simp
  from msg_take_loop_ok [OF this, of xs m ys] have "msg_take_loop (mq_msg_first s mq) ?s = Some (m, s')"
    using Q by (simp add: s'_def)
  then show "MessageQueueGet mq s = Some (m, s')" using c0 by (simp add: MessageQueueGet_def atomic_dec32_nz_def)
  have ds: "dseg (msg_next s) (msg_prev s) NULL (mq_msg_first s mq) (xs @ m # ys)" using I Q(1) by simp
  show "m \<noteq> NULL" using dseg_middle(3) [OF ds] .
  have "distinct (xs @ m # ys)" using I Q by simp
  then have "length (filter (\<lambda>x. o_flags s' x = 0) Q) = length (filter (\<lambda>x. o_flags s x = 0) ys) + length (filter (\<lambda>x. o_flags s x = 0) xs)"
  proof -
    have "filter (\<lambda>x. o_flags s' x = 0) xs = filter (\<lambda>x. o_flags s x = 0) xs"
      "filter (\<lambda>x. o_flags s' x = 0) ys = filter (\<lambda>x. o_flags s x = 0) ys"
      using \<open>distinct (xs @ m # ys)\<close> by (auto simp: s'_def intro!: filter_cong)
    then show ?thesis unfolding Q(1) by (simp add: s'_def)
  qed
  moreover have "unat (mq_msg_count s' mq) = length (filter (\<lambda>x. o_flags s x = 0) ys) + length (filter (\<lambda>x. o_flags s x = 0) xs)"
    using cnt unat_dec [OF c0] by (simp add: s'_def)
  moreover have "dseg (msg_next s') (msg_prev s') NULL (mq_msg_first s' mq) Q \<and> distinct Q \<and> mq_msg_last s' mq = last (NULL # Q) \<and>
      sorted_wrt (\<lambda>a b. msg_priority s' a \<ge> msg_priority s' b) Q"
    using I by (simp add: s'_def)
  ultimately show "mq_list s' mq Q" unfolding mq_list_def by (simp del: last.simps)
qed

lemma MessageQueueRemove_ok:
  assumes q: "mq_list s mq (xs @ m # ys)" and f: "o_flags s m \<noteq> 0"
  shows "\<exists>nx pv f l. MessageQueueRemove mq m s = s\<lparr>msg_prev := pv, msg_next := nx,
      mq_msg_first := (mq_msg_first s)(mq := f), mq_msg_last := (mq_msg_last s)(mq := l)\<rparr> \<and>
    mq_list (s\<lparr>msg_prev := pv, msg_next := nx,
      mq_msg_first := (mq_msg_first s)(mq := f), mq_msg_last := (mq_msg_last s)(mq := l)\<rparr>) mq (xs @ ys) \<and>
    (\<forall>x. x \<notin> set (xs @ ys) \<longrightarrow> nx x = msg_next s x \<and> pv x = msg_prev s x)"
proof -
  note I = q [unfolded mq_list_def]
  have ds: "dseg (msg_next s) (msg_prev s) NULL (mq_msg_first s mq) (xs @ m # ys)" and dist: "distinct (xs @ m # ys)"
    using I by blast+
  note M = dseg_middle [OF ds]
  have nn: "NULL \<notin> set (xs @ m # ys)" by (rule dseg_nonnull [OF ds])
  let ?q = "last (NULL # xs)" and ?n = "hd0 ys"
  have q0: "?q = NULL \<longleftrightarrow> xs = []" using last_eq_NULL [of xs] nn by auto
  have n0: "?n = NULL \<longleftrightarrow> ys = []" using hd0_eq_NULL [of ys] nn by auto
  have qm: "xs \<noteq> [] \<Longrightarrow> ?q \<in> set xs" "ys \<noteq> [] \<Longrightarrow> ?n \<in> set ys" using hd0_in_set [of ys] by auto
  define nx where "nx = (if xs = [] then msg_next s else (msg_next s)(?q := ?n))"
  define pv where "pv = (if ys = [] then msg_prev s else (msg_prev s)(?n := ?q))"
  define f where "f = (if xs = [] then ?n else mq_msg_first s mq)"
  define l where "l = (if ys = [] then ?q else mq_msg_last s mq)"
  let ?s = "s\<lparr>msg_prev := pv, msg_next := nx, mq_msg_first := (mq_msg_first s)(mq := f), mq_msg_last := (mq_msg_last s)(mq := l)\<rparr>"
  have nq: "?q \<noteq> m" "?n \<noteq> m" using qm dist M(3) q0 n0 by (auto simp del: last.simps)
  have "MessageQueueRemove mq m s = ?s"
    by (cases "xs = []"; cases "ys = []")
      (use M(1,2) q0 n0 nq in \<open>simp_all add: MessageQueueRemove_def nx_def pv_def f_def l_def del: last.simps\<close>)
  moreover have "mq_list ?s mq (xs @ ys)"
  proof -
    have "dseg nx pv NULL f (xs @ ys)"
      by (rule dseg_remove [OF ds dist refl refl]) (use q0 n0 in \<open>auto simp: nx_def pv_def f_def\<close>)
    moreover have "l = last (NULL # xs @ ys)" using I by (auto simp: l_def)
    moreover have "sorted_wrt (\<lambda>a b. msg_priority s a \<ge> msg_priority s b) (xs @ ys)" using I by (auto simp: sorted_wrt_append)
    moreover have "length (filter (\<lambda>x. o_flags s x = 0) (xs @ m # ys)) = length (filter (\<lambda>x. o_flags s x = 0) (xs @ ys))"
      using f by simp
    ultimately show ?thesis using I dist unfolding mq_list_def by simp
  qed
  moreover have "\<forall>x. x \<notin> set (xs @ ys) \<longrightarrow> nx x = msg_next s x \<and> pv x = msg_prev s x"
    using qm by (auto simp: nx_def pv_def)
  ultimately show ?thesis by blast
qed

section \<open>The contract of the list\<close>

text \<open>
  What the services do to the list: a message is initialised and linked; the first message is marked as taken
  and unlinked.
\<close>

definition mq_put :: "addr \<Rightarrow> (addr \<Rightarrow> u8) \<Rightarrow> addr \<Rightarrow> rtx \<Rightarrow> rtx option" where
  "mq_put mq pr msg s = MessageQueuePut mq msg (msg_init msg (pr msg) s)"

definition mq_take :: "addr \<Rightarrow> rtx \<Rightarrow> (addr \<times> rtx) option" where
  "mq_take mq s =
     do {
       (msg, s) \<leftarrow> MessageQueueGet mq s;
       if msg = NULL then None else Some (msg, MessageQueueRemove mq msg s)
     }"

definition mq_repr :: "addr \<Rightarrow> (addr \<Rightarrow> u8) \<Rightarrow> rtx \<Rightarrow> addr list \<Rightarrow> addr set \<Rightarrow> bool" where
  "mq_repr mq pr s xs F \<longleftrightarrow> mq_list s mq xs \<and> (\<forall>x\<in>set xs. o_flags s x = 0 \<and> msg_priority s x = pr x) \<and>
     finite F \<and> F \<inter> set xs = {} \<and> NULL \<notin> F \<and> card F + length xs < 2 ^ 32 - 1"

lemma mq_list_cong:
  assumes "msg_next s' = msg_next s" "msg_prev s' = msg_prev s" "mq_msg_first s' mq = mq_msg_first s mq"
    "mq_msg_last s' mq = mq_msg_last s mq" "mq_msg_count s' mq = mq_msg_count s mq"
    "\<And>x. x \<in> set Q \<Longrightarrow> msg_priority s' x = msg_priority s x \<and> o_flags s' x = o_flags s x"
  shows "mq_list s' mq Q = mq_list s mq Q"
proof -
  have "sorted_wrt (\<lambda>a b. msg_priority s' a \<ge> msg_priority s' b) Q = sorted_wrt (\<lambda>a b. msg_priority s a \<ge> msg_priority s b) Q"
  proof
    show "sorted_wrt (\<lambda>a b. msg_priority s' a \<ge> msg_priority s' b) Q"
      if "sorted_wrt (\<lambda>a b. msg_priority s a \<ge> msg_priority s b) Q"
      by (rule sorted_wrt_mono_rel [OF _ that]) (simp add: assms(6))
    show "sorted_wrt (\<lambda>a b. msg_priority s a \<ge> msg_priority s b) Q"
      if "sorted_wrt (\<lambda>a b. msg_priority s' a \<ge> msg_priority s' b) Q"
      by (rule sorted_wrt_mono_rel [OF _ that]) (simp add: assms(6))
  qed
  moreover have "filter (\<lambda>m. o_flags s' m = 0) Q = filter (\<lambda>m. o_flags s m = 0) Q"
    using assms(6) by (intro filter_cong) auto
  ultimately show ?thesis using assms(1-5) by (simp add: mq_list_def)
qed

lemma msg_put_cong: "(\<And>x. x \<in> insert m (set Q) \<Longrightarrow> pr x = pr' x) \<Longrightarrow> msg_put pr m Q = msg_put pr' m Q"
  unfolding msg_put_def by (rule ins_after_cong) simp

lemma set_msg_put [simp]: "set (msg_put pr m Q) = insert m (set Q)" "length (msg_put pr m Q) = Suc (length Q)"
  by (auto simp: msg_put_def)

text \<open>What the operations on the list may change.\<close>

definition link_frame :: "rtx \<Rightarrow> rtx \<Rightarrow> bool" where
  "link_frame s s' \<longleftrightarrow> (\<exists>pv nx f l c. s' = s\<lparr>msg_prev := pv, msg_next := nx, mq_msg_first := f, mq_msg_last := l, mq_msg_count := c\<rparr>)"

lemma link_frameI:
  "s' = s\<lparr>msg_prev := msg_prev s', msg_next := msg_next s', mq_msg_first := mq_msg_first s', mq_msg_last := mq_msg_last s',
     mq_msg_count := mq_msg_count s'\<rparr> \<Longrightarrow> link_frame s s'"
  unfolding link_frame_def by blast

lemma link_frame_core: "link_frame s s' \<Longrightarrow> core_eq s s'"
  by (auto simp: link_frame_def core_eq_def)

lemma link_frameD:
  assumes "link_frame s s'"
  shows "o_id s' = o_id s" "o_flags s' = o_flags s" "msg_priority s' = msg_priority s" "mem8 s' = mem8 s" "mem32 s' = mem32 s"
    "mq_msg_size s' = mq_msg_size s" "mp_max_blocks s' = mp_max_blocks s" "mp_used_blocks s' = mp_used_blocks s"
    "mp_block_size s' = mp_block_size s" "mp_block_base s' = mp_block_base s" "mp_block_lim s' = mp_block_lim s"
    "mp_block_free s' = mp_block_free s"
  using assms by (auto simp: link_frame_def)

lemma mq_put_ok:
  assumes q: "mq_list s mq Q" and m: "m \<notin> set Q" "m \<noteq> NULL" and c: "length Q < 2 ^ 32 - 1"
  shows "\<exists>s'. MessageQueuePut mq m (msg_init m p s) = Some s' \<and> link_frame (msg_init m p s) s' \<and>
    mq_list s' mq (msg_put ((msg_priority s)(m := p)) m Q)"
proof -
  let ?s = "msg_init m p s"
  have q1: "mq_list ?s mq Q"
    by (subst mq_list_cong [where s = s]) (use q m in \<open>auto simp: msg_init_def\<close>)
  have f0: "o_flags ?s m = 0" and pr: "msg_priority ?s = (msg_priority s)(m := p)" by (simp_all add: msg_init_def)
  obtain s' where "MessageQueuePut mq m ?s = Some s'" "mq_list s' mq (msg_put (msg_priority ?s) m Q)" "link_frame ?s s'"
    using MessageQueuePut_ok [OF q1 m f0 c] unfolding link_frame_def by blast
  then show ?thesis unfolding pr by blast
qed

definition msg_taken :: "addr \<Rightarrow> addr \<Rightarrow> rtx \<Rightarrow> rtx" where
  "msg_taken mq m s = s\<lparr>o_flags := (o_flags s)(m := 1), mq_msg_count := (mq_msg_count s)(mq := mq_msg_count s mq - 1)\<rparr>"

lemma mq_take_ok:
  assumes q: "mq_list s mq (m # Q)" and f: "o_flags s m = 0"
  shows "MessageQueueGet mq s = Some (m, msg_taken mq m s)" "mq_list (MessageQueueRemove mq m (msg_taken mq m s)) mq Q"
    "link_frame (s\<lparr>o_flags := (o_flags s)(m := 1)\<rparr>) (MessageQueueRemove mq m (msg_taken mq m s))" "m \<noteq> NULL"
proof -
  have ex: "m # Q = [] @ m # Q" by simp
  note G = MessageQueueGet_some [OF q ex _ f, folded msg_taken_def]
  show "MessageQueueGet mq s = Some (m, msg_taken mq m s)" "m \<noteq> NULL" using G(1,3) by simp_all
  have "mq_list (msg_taken mq m s) mq ([] @ m # Q)" "o_flags (msg_taken mq m s) m \<noteq> 0"
    using G(2) by (simp_all add: msg_taken_def)
  from MessageQueueRemove_ok [OF this] obtain nx pv f l where e: "MessageQueueRemove mq m (msg_taken mq m s) =
      (msg_taken mq m s)\<lparr>msg_prev := pv, msg_next := nx, mq_msg_first := (mq_msg_first (msg_taken mq m s))(mq := f),
        mq_msg_last := (mq_msg_last (msg_taken mq m s))(mq := l)\<rparr>"
    and q': "mq_list ((msg_taken mq m s)\<lparr>msg_prev := pv, msg_next := nx, mq_msg_first := (mq_msg_first (msg_taken mq m s))(mq := f),
        mq_msg_last := (mq_msg_last (msg_taken mq m s))(mq := l)\<rparr>) mq Q" by auto
  have r: "link_frame (msg_taken mq m s) (MessageQueueRemove mq m (msg_taken mq m s))"
    "mq_list (MessageQueueRemove mq m (msg_taken mq m s)) mq Q"
    unfolding e by (rule link_frameI, simp) (rule q')
  show "mq_list (MessageQueueRemove mq m (msg_taken mq m s)) mq Q" by (rule r(2))
  show "link_frame (s\<lparr>o_flags := (o_flags s)(m := 1)\<rparr>) (MessageQueueRemove mq m (msg_taken mq m s))"
    using r(1) by (auto simp: link_frame_def msg_taken_def)
qed

interpretation msg_queue: stable_queue "mq_repr mq pr" "\<lambda>m. - uint (pr m)" "mq_put mq pr" "mq_take mq" for mq pr
proof (unfold_locales)
  fix s xs F x
  assume r: "mq_repr mq pr s xs F" and x: "x \<in> F"
  note R = r [unfolded mq_repr_def]
  have c: "length xs < 2 ^ 32 - 1" "x \<notin> set xs" "x \<noteq> NULL" using R x by auto
  obtain s' where p: "MessageQueuePut mq x (msg_init x (pr x) s) = Some s'" "link_frame (msg_init x (pr x) s) s'"
    "mq_list s' mq (msg_put ((msg_priority s)(x := pr x)) x xs)"
    using mq_put_ok [OF conjunct1 [OF R] c(2,3,1), of "pr x"] by blast
  have e: "msg_put ((msg_priority s)(x := pr x)) x xs = msg_put pr x xs" by (rule msg_put_cong) (use R in auto)
  have "card (F - {x}) + length (msg_put pr x xs) < 2 ^ 32 - 1" using R x card_Suc_Diff1 [of F x] by simp
  then have "mq_repr mq pr s' (msg_put pr x xs) (F - {x})"
    using p(3) R x link_frameD(2,3) [OF p(2)] unfolding e mq_repr_def by (auto simp: msg_init_def)
  moreover have "msg_put pr x xs = ins_after (\<lambda>y. - uint (pr y) \<le> - uint (pr x)) x xs"
    by (simp add: msg_put_def word_le_def)
  ultimately show "\<exists>s'. mq_put mq pr x s = Some s' \<and>
      mq_repr mq pr s' (ins_after (\<lambda>y. - uint (pr y) \<le> - uint (pr x)) x xs) (F - {x})"
    using p(1) by (auto simp: mq_put_def)
next
  fix s x xs F
  assume r: "mq_repr mq pr s (x # xs) F"
  note R = r [unfolded mq_repr_def]
  have "mq_list s mq (x # xs)" "o_flags s x = 0" using R by simp_all
  note p = mq_take_ok [OF this]
  have "x \<notin> set xs" using R by (simp add: mq_list_def)
  then have "mq_repr mq pr (MessageQueueRemove mq x (msg_taken mq x s)) xs (insert x F)"
    using p(2,4) R link_frameD(2,3) [OF p(3)] unfolding mq_repr_def by auto
  then show "\<exists>s'. mq_take mq s = Some (x, s') \<and> mq_repr mq pr s' xs (insert x F)"
    using p(1,4) by (auto simp: mq_take_def)
qed

primrec mq_put_all :: "addr \<Rightarrow> (addr \<Rightarrow> u8) \<Rightarrow> addr list \<Rightarrow> rtx \<Rightarrow> rtx option" where
  "mq_put_all mq pr [] s = Some s"
| "mq_put_all mq pr (m # ms) s = do { s \<leftarrow> mq_put mq pr m s; mq_put_all mq pr ms s }"

primrec mq_take_n :: "addr \<Rightarrow> nat \<Rightarrow> rtx \<Rightarrow> (addr list \<times> rtx) option" where
  "mq_take_n mq 0 s = Some ([], s)"
| "mq_take_n mq (Suc n) s = do { (m, s) \<leftarrow> mq_take mq s; (ms, s) \<leftarrow> mq_take_n mq n s; Some (m # ms, s) }"

lemma mq_put_all_queue: "mq_put_all mq pr ms = msg_queue.put_all mq pr ms"
  by (induction ms) (auto simp: fun_eq_iff)

lemma mq_take_n_queue: "mq_take_n mq n = msg_queue.get_n mq n"
  by (induction n) (auto simp: fun_eq_iff)

lemma mq_repr_count: "mq_repr mq pr s xs F \<Longrightarrow> unat (mq_msg_count s mq) = length xs"
  by (auto simp: mq_repr_def mq_list_def filter_True)

section \<open>Properties\<close>

text \<open>messages put into a queue come out in the order of a stable sort by priority: the highest priority first,
  and the messages of one priority in the order in which they were put.  The count of messages is exact, and after the
  last one the queue is empty again.\<close>

theorem message_queue_order:
  assumes "mq_list s mq []" "distinct ms" "NULL \<notin> set ms" "length ms < 2 ^ 32 - 1"
  shows "\<exists>s' s''. mq_put_all mq pr ms s = Some s' \<and> unat (mq_msg_count s' mq) = length ms \<and>
    mq_take_n mq (length ms) s' = Some (sort_key (\<lambda>m. - uint (pr m)) ms, s'') \<and> mq_msg_count s'' mq = 0 \<and>
    mq_msg_first s'' mq = NULL \<and> mq_msg_last s'' mq = NULL"
proof -
  have "mq_repr mq pr s [] (set ms)" unfolding mq_repr_def using assms by (auto simp: distinct_card)
  from msg_queue.put_get [OF this assms(2) subset_refl] obtain s' s'' where
    p: "msg_queue.put_all mq pr ms s = Some s'" "mq_repr mq pr s' (sort_key (\<lambda>m. - uint (pr m)) ms) (set ms - set ms)"
      "msg_queue.get_n mq (length ms) s' = Some (sort_key (\<lambda>m. - uint (pr m)) ms, s'')" "mq_repr mq pr s'' [] (set ms)"
    by blast
  have "mq_msg_count s'' mq = 0" "mq_msg_first s'' mq = NULL" "mq_msg_last s'' mq = NULL"
    using p(4) by (simp_all add: mq_repr_def mq_list_def unat_eq_0)
  then show ?thesis using p(1,3) mq_repr_count [OF p(2)] by (simp add: mq_put_all_queue mq_take_n_queue)
qed

theorem message_queue_order_witness:
  "\<exists>s' s''. mq_put_all 0x700 ((\<lambda>_. 1)(0x9010 := 9)) [0x9000, 0x9010, 0x9020] (rtx0 0x10) = Some s' \<and>
     mq_take_n 0x700 3 s' = Some ([0x9010, 0x9000, 0x9020], s'') \<and> mq_msg_count s'' 0x700 = 0"
proof -
  have "mq_list (rtx0 0x10) 0x700 []" by (simp add: mq_list_def rtx0_def)
  from message_queue_order [OF this, of "[0x9000, 0x9010, 0x9020]" "(\<lambda>_. 1)(0x9010 := 9)"] show ?thesis
    by (simp del: mq_put_all.simps mq_take_n.simps add: numeral_3_eq_3) blast
qed

end
