(* ===== verification/MsgSpec.thy ===== *)
theory MsgSpec
  imports MsgList DemoWait ThreadEnd
begin

text \<open>
  What message queues promise to threads.  The abstract state of a queue is the sequence of its
  messages, each a priority and a string of bytes: a put inserts behind the messages of at least its
  priority, a get takes the first one, and a waiting thread of the other kind is served at once.
\<close>

section \<open>Bytes\<close>

text \<open>The bytes of an area of memory, and what \<open>memcpy\<close> does to them.\<close>

definition area :: "addr \<Rightarrow> u32 \<Rightarrow> addr set" where
  "area a n = {x. x - a < n}"

definition bytes :: "rtx \<Rightarrow> addr \<Rightarrow> u32 \<Rightarrow> u8 list" where
  "bytes s a n = map (\<lambda>i. mem8 s (a + of_nat i)) [0..<unat n]"

lemma area_nth: "i < unat n \<Longrightarrow> a + of_nat i \<in> area a n"
  using unat_32_lt [of n] by (simp add: area_def word_less_nat_alt unat_of_nat)

lemma bytes_cong: "(\<And>x. x \<in> area a n \<Longrightarrow> mem8 s' x = mem8 s x) \<Longrightarrow> bytes s' a n = bytes s a n"
  unfolding bytes_def by (rule map_cong) (auto simp: area_nth)

lemma bytes_memcpy: "bytes (memcpy d src n s) d n = bytes s src n"
proof -
  have "mem8 (memcpy d src n s) (d + of_nat i) = mem8 s (src + of_nat i)" if "i < unat n" for i
    using area_nth [OF that, of d] by (simp add: memcpy_def area_def)
  then show ?thesis unfolding bytes_def by (intro map_cong) auto
qed

lemma memcpy_out: "x \<notin> area d n \<Longrightarrow> mem8 (memcpy d src n s) x = mem8 s x"
  by (simp add: memcpy_def area_def)

lemma memcpy_core: "core_eq s (memcpy d src n s)"
  by (simp add: memcpy_def core_eq_def)

lemma area_bounds:
  assumes "x \<in> area a n" "unat a + unat n < 2 ^ 32"
  shows "unat a \<le> unat x \<and> unat x < unat a + unat n"
proof -
  define k where "k = x - a"
  have k: "unat k < unat n" "x = a + k" using assms(1) by (simp_all add: area_def k_def word_less_nat_alt)
  then have "unat x = unat a + unat k" using assms(2) unat_add_lt [of a k] by simp
  then show ?thesis using k by simp
qed

lemma area_disjoint:
  "unat a + unat n \<le> unat b \<Longrightarrow> unat b + unat m < 2 ^ 32 \<Longrightarrow> area a n \<inter> area b m = {} \<and> area b m \<inter> area a n = {}"
  using area_bounds [of _ a n] area_bounds [of _ b m] by fastforce

lemma area_out: "unat x < unat a \<or> unat a + unat n \<le> unat x \<Longrightarrow> unat a + unat n < 2 ^ 32 \<Longrightarrow> x \<notin> area a n"
  using area_bounds [of x a n] by auto

text \<open>The data of different blocks do not overlap.\<close>

lemma block_data:
  assumes f: "pool_fits base bs n" and b: "b \<in> set (pool_blocks base bs n)" and m: "12 + unat sz \<le> unat bs"
    and x: "x \<in> area (msg_data b) sz"
  shows "unat b \<le> unat x \<and> unat x < unat b + unat bs"
proof -
  obtain i where i: "i < n" "b = base + of_nat i * bs" using b by (auto simp: pool_blocks_def)
  have ub: "unat b = unat base + i * unat bs" using unat_block [OF f] i by simp
  have "unat base + Suc i * unat bs \<le> unat base + n * unat bs" using i(1) mult_le_mono1 [of "Suc i" n "unat bs"] by simp
  then have lt: "unat b + unat bs < 2 ^ 32" using f ub by (simp add: pool_fits_def)
  define k where "k = x - msg_data b"
  have k: "unat k < unat sz" "x = b + (12 + k)" using x by (simp_all add: area_def k_def msg_data_def word_less_nat_alt)
  have "unat (12 + k) = 12 + unat k" by (subst unat_add_lt) (use k(1) m lt in simp_all)
  moreover have "unat (b + (12 + k)) = unat b + unat (12 + k)" by (rule unat_add_lt) (use calculation k(1) m lt in simp)
  ultimately show ?thesis using k m by simp
qed

lemma blocks_apart:
  assumes f: "pool_fits base bs n" and b: "b \<in> set (pool_blocks base bs n)" "c \<in> set (pool_blocks base bs n)" "b \<noteq> c"
    and m: "12 + unat sz \<le> unat bs"
  shows "area (msg_data b) sz \<inter> area (msg_data c) sz = {}"
proof -
  obtain i j where i: "i < n" "b = base + of_nat i * bs" and j: "j < n" "c = base + of_nat j * bs"
    using b by (auto simp: pool_blocks_def)
  have u: "unat b = unat base + i * unat bs" "unat c = unat base + j * unat bs"
    using unat_block [OF f] i j by simp_all
  have "i \<noteq> j" using i j b(3) by auto
  then have "unat b + unat bs \<le> unat c \<or> unat c + unat bs \<le> unat b"
  proof (cases "i < j")
    case True
    then have "Suc i * unat bs \<le> j * unat bs" by (intro mult_le_mono1) simp
    then show ?thesis using u by simp
  next
    case False
    then have "Suc j * unat bs \<le> i * unat bs" using \<open>i \<noteq> j\<close> by (intro mult_le_mono1) simp
    then show ?thesis using u by simp
  qed
  then show ?thesis using block_data [OF f b(1) m] block_data [OF f b(2) m] by fastforce
qed

section \<open>The state of a queue\<close>

text \<open>
  \<open>mq_rel mq s F U Q\<close>: the blocks \<open>F\<close> are free, \<open>U\<close> are in use, and those in \<open>Q\<close> are the messages, in the order
  in which they will be taken.
\<close>

abbreviation mq_blocks :: "addr \<Rightarrow> rtx \<Rightarrow> addr list" where
  "mq_blocks mq s \<equiv> pool_all (mp_info_of mq) s"

definition mq_rel :: "addr \<Rightarrow> rtx \<Rightarrow> addr list \<Rightarrow> addr set \<Rightarrow> addr list \<Rightarrow> bool" where
  "mq_rel mq s F U Q \<longleftrightarrow> pool_rel (mp_info_of mq) s F U \<and> mq_list s mq Q \<and> set Q \<subseteq> U \<and> (\<forall>m\<in>set Q. o_flags s m = 0) \<and>
     12 + unat (mq_msg_size s mq) \<le> unat (mp_block_size s (mp_info_of mq))"

text \<open>The blocks are no threads, no objects, and no words of the stacks that the kernel uses.\<close>

definition mq_apart :: "addr \<Rightarrow> rtx \<Rightarrow> bool" where
  "mq_apart mq s \<longleftrightarrow> (\<forall>b\<in>set (mq_blocks mq s). b \<notin> thrs s \<and> b \<notin> objs s \<and> (\<forall>t\<in>thrs s. t_stack_mem s t \<noteq> b \<and>
     osRtxThreadRegPtr t s \<noteq> b \<and> osRtxThreadRegPtr t s + 8 \<noteq> b \<and> osRtxThreadRegPtr t s + 12 \<noteq> b))"

definition msg_content :: "addr \<Rightarrow> rtx \<Rightarrow> addr \<Rightarrow> u8 \<times> u8 list" where
  "msg_content mq s m = (msg_priority s m, bytes s (msg_data m) (mq_msg_size s mq))"

definition msg_ins :: "u8 \<times> u8 list \<Rightarrow> (u8 \<times> u8 list) list \<Rightarrow> (u8 \<times> u8 list) list" where
  "msg_ins x q = ins_after (\<lambda>y. fst y \<ge> fst x) x q"

lemma mq_apart_pool: "mq_apart mq s \<Longrightarrow> pool_apart (mp_info_of mq) s"
  by (auto simp: mq_apart_def pool_apart_def)

lemma mq_relD:
  assumes "mq_rel mq s F U Q"
  shows "pool_rel (mp_info_of mq) s F U" "mq_list s mq Q" "set Q \<subseteq> U" "m \<in> set Q \<Longrightarrow> o_flags s m = 0"
    "12 + unat (mq_msg_size s mq) \<le> unat (mp_block_size s (mp_info_of mq))" "distinct Q" "length Q < 2 ^ 32 - 1"
    "U \<subseteq> set (mq_blocks mq s)" "set F \<subseteq> set (mq_blocks mq s)"
proof -
  note R = assms [unfolded mq_rel_def]
  show p: "pool_rel (mp_info_of mq) s F U" and "mq_list s mq Q" "set Q \<subseteq> U" "m \<in> set Q \<Longrightarrow> o_flags s m = 0"
    "12 + unat (mq_msg_size s mq) \<le> unat (mp_block_size s (mp_info_of mq))" using R by blast+
  show d: "distinct Q" using R by (simp add: mq_list_def)
  show "U \<subseteq> set (mq_blocks mq s)" "set F \<subseteq> set (mq_blocks mq s)" using pool_relD(3,4) [OF p] by blast+
  have "length Q \<le> card U" using card_mono [OF pool_relD(2) [OF p], of "set Q"] R distinct_card [OF d] by simp
  then have l: "length Q \<le> unat (mp_max_blocks s (mp_info_of mq))" using pool_relD(9) [OF p] by simp
  have fits: "pool_fits (mp_block_base s (mp_info_of mq)) (mp_block_size s (mp_info_of mq)) (unat (mp_max_blocks s (mp_info_of mq)))"
    using p by (simp add: pool_rel_def)
  have "unat (mp_max_blocks s (mp_info_of mq)) * 12 \<le> unat (mp_max_blocks s (mp_info_of mq)) * unat (mp_block_size s (mp_info_of mq))"
    using R by (intro mult_le_mono2) simp
  moreover have "unat (mp_max_blocks s (mp_info_of mq)) * unat (mp_block_size s (mp_info_of mq)) < 2 ^ 32"
    using fits by (simp add: pool_fits_def)
  ultimately have "length Q * 12 < 2 ^ 32" using l by linarith
  then show "length Q < 2 ^ 32 - 1" by simp
qed

lemma data_apart:
  assumes r: "mq_rel mq s F U Q" and b: "b \<in> set (mq_blocks mq s)" "c \<in> set (mq_blocks mq s)" "b \<noteq> c"
  shows "area (msg_data b) (mq_msg_size s mq) \<inter> area (msg_data c) (mq_msg_size s mq) = {}"
  using blocks_apart [OF _ b mq_relD(5) [OF r]] mq_relD(1) [OF r] by (simp add: pool_rel_def)

text \<open>What storing, taking and releasing messages may change.\<close>

definition mq_frame :: "addr \<Rightarrow> rtx \<Rightarrow> rtx \<Rightarrow> bool" where
  "mq_frame mq s s' \<longleftrightarrow> core_eq (s\<lparr>o_id := o_id s', mem32 := mem32 s'\<rparr>) s' \<and>
     (\<forall>x. x \<notin> set (mq_blocks mq s) \<longrightarrow> o_id s' x = o_id s x \<and> mem32 s' x = mem32 s x) \<and>
     (\<forall>x. o_id s' x \<in> {o_id s x, osRtxIdMessage, osRtxIdInvalid}) \<and> mq_msg_size s' = mq_msg_size s \<and>
     mp_max_blocks s' = mp_max_blocks s \<and> mp_block_size s' = mp_block_size s \<and> mp_block_base s' = mp_block_base s \<and>
     mp_block_lim s' = mp_block_lim s"

lemma mq_frame_trans: "mq_frame mq s s1 \<Longrightarrow> mq_frame mq s1 s2 \<Longrightarrow> mq_frame mq s s2"
  unfolding mq_frame_def core_eq_def by (simp, metis insert_iff)

lemma mq_frameI:
  assumes "core_eq (s\<lparr>o_id := o_id s', mem32 := mem32 s'\<rparr>) s'"
    and "\<And>x. x \<notin> set (mq_blocks mq s) \<Longrightarrow> o_id s' x = o_id s x \<and> mem32 s' x = mem32 s x"
    and "\<And>x. o_id s' x \<in> {o_id s x, osRtxIdMessage, osRtxIdInvalid}" and "mq_msg_size s' = mq_msg_size s"
    and "mp_max_blocks s' = mp_max_blocks s" "mp_block_size s' = mp_block_size s" "mp_block_base s' = mp_block_base s"
    and "mp_block_lim s' = mp_block_lim s"
  shows "mq_frame mq s s'"
  using assms by (simp add: mq_frame_def)

lemma mq_frame_core: "core_eq s s' \<Longrightarrow> mq_msg_size s' = mq_msg_size s \<Longrightarrow> mp_max_blocks s' = mp_max_blocks s \<Longrightarrow>
    mp_block_size s' = mp_block_size s \<Longrightarrow> mp_block_base s' = mp_block_base s \<Longrightarrow> mp_block_lim s' = mp_block_lim s \<Longrightarrow> mq_frame mq s s'"
  by (rule mq_frameI) (simp_all add: core_eq_def)

lemma mq_frameD:
  assumes f: "mq_frame mq s s'" and a: "mq_apart mq s"
  shows "kinv s L D W \<Longrightarrow> kinv s' L D W" "stable s' = stable s" "thrs s' = thrs s" "objs s' = objs s" "run_next s' = run_next s"
    "run_curr s' = run_curr s" "ready_obj s' = ready_obj s" "k_state s' = k_state s" "o_state s' = o_state s" "thread_next s' = thread_next s"
    "t_priority s' = t_priority s" "osRtxThreadRegPtr t s' = osRtxThreadRegPtr t s" "mq_apart mq s'" "mq_blocks mq s' = mq_blocks mq s"
    "mq_msg_size s' = mq_msg_size s" "delays s' D = delays s D" "x \<in> thrs s \<union> objs s \<Longrightarrow> o_id s' x = o_id s x"
    "x \<notin> set (mq_blocks mq s) \<Longrightarrow> mem32 s' x = mem32 s x"
proof -
  note F = f [unfolded mq_frame_def core_eq_def, simplified]
  have out: "x \<notin> set (mq_blocks mq s)" if "x \<in> thrs s \<or> x \<in> objs s" for x using a that by (auto simp: mq_apart_def)
  have ids: "o_id s' x = o_id s x" if "x \<in> thrs s \<or> x \<in> objs s" for x using F out [OF that] by blast
  have idv: "o_id s' x = o_id s x \<or> o_id s' x = osRtxIdMessage \<or> o_id s' x = osRtxIdInvalid" for x
    using f by (simp add: mq_frame_def)
  have th: "x \<in> thrs s' \<longleftrightarrow> x \<in> thrs s" for x
  proof
    show "x \<in> thrs s" if "x \<in> thrs s'" using that idv [of x] F
      by (auto simp: thrs_def)
    show "x \<in> thrs s'" if "x \<in> thrs s" using that ids [of x] F by (auto simp: thrs_def)
  qed
  then show th: "thrs s' = thrs s" by blast
  have "x \<in> objs s' \<longleftrightarrow> x \<in> objs s" for x
  proof
    show "x \<in> objs s" if x: "x \<in> objs s'"
    proof (cases "x = ready_obj s'")
      case False
      then have h: "x \<noteq> NULL" "has_thread_list (o_id s' x)" using x by (auto simp: objs_def)
      then have "o_id s' x \<noteq> osRtxIdMessage" "o_id s' x \<noteq> osRtxIdInvalid" by (auto simp: has_thread_list_def)
      then have "o_id s' x = o_id s x" using idv by blast
      then show ?thesis using h by (simp add: objs_def)
    qed (use F in \<open>simp add: objs_def\<close>)
    show "x \<in> objs s'" if "x \<in> objs s" using that ids [of x] F by (auto simp: objs_def)
  qed
  then show ob: "objs s' = objs s" by blast
  show "mq_blocks mq s' = mq_blocks mq s" "run_next s' = run_next s" "run_curr s' = run_curr s" "ready_obj s' = ready_obj s"
    "k_state s' = k_state s" "o_state s' = o_state s" "thread_next s' = thread_next s" "t_priority s' = t_priority s"
    "mq_msg_size s' = mq_msg_size s" "stable s' = stable s" "delays s' D = delays s D" using F by (simp_all add: stable_def delays_def)
  show reg: "osRtxThreadRegPtr t s' = osRtxThreadRegPtr t s" for t using F by (simp add: osRtxThreadRegPtr_def)
  show "mq_apart mq s'" using a F unfolding mq_apart_def th ob reg by simp
  show "x \<in> thrs s \<union> objs s \<Longrightarrow> o_id s' x = o_id s x" using ids by blast
  show m: "x \<notin> set (mq_blocks mq s) \<Longrightarrow> mem32 s' x = mem32 s x" for x using F by blast
  assume k: "kinv s L D W"
  note K = kinvD(1,2) [OF k]
  have "mem32 s' (t_stack_mem s t) = mem32 s (t_stack_mem s t)" if "t \<in> thrs s" for t
    using a m that unfolding mq_apart_def by blast
  then have "stacks_ok s'"
    using kstD(4) [OF K(1)] F unfolding stacks_ok_def th reg by simp
  moreover have "part_ok s' L (set D \<union> set W) {}" using kstD(2) [OF K(1)] part_ok_cong [of s' s] th F by simp
  moreover have "o_id s' (ready_obj s') = osRtxIdInvalid" using kstD(5) [OF K(1)] ids [of "ready_obj s"] ready_in_objs F by simp
  ultimately have "kst s' L (set D \<union> set W) {}" using K(1) F by (simp add: kst_def th ob)
  moreover have "dl_inv s' D W" using K(2) F by (simp add: dl_inv_def)
  ultimately show "kinv s' L D W" by (simp add: kinv_def)
qed

section \<open>The steps of the services\<close>

lemma map_ins_after: "(\<And>y. y \<in> set xs \<Longrightarrow> P (f y) = P' y) \<Longrightarrow> map f (ins_after P' x xs) = ins_after P (f x) (map f xs)"
  by (induction xs) (auto simp: ins_after_Cons)

lemma content_cong:
  assumes "\<And>m x. m \<in> set Q \<Longrightarrow> x \<in> area (msg_data m) (mq_msg_size s mq) \<Longrightarrow> mem8 s' x = mem8 s x"
    "\<And>m. m \<in> set Q \<Longrightarrow> msg_priority s' m = msg_priority s m" "mq_msg_size s' mq = mq_msg_size s mq"
  shows "map (msg_content mq s') Q = map (msg_content mq s) Q"
  using assms by (auto simp: msg_content_def intro!: bytes_cong)

lemma mq_alloc:
  assumes r: "mq_rel mq s (b # F) U Q"
  shows "\<exists>s'. osRtxMemoryPoolAlloc (mp_info_of mq) s = (b, s') \<and> b \<noteq> NULL \<and> b \<notin> U \<and> b \<in> set (mq_blocks mq s) \<and>
    mq_rel mq s' F (insert b U) Q \<and> mq_frame mq s s' \<and> mem8 s' = mem8 s \<and> mem32 s' = mem32 s \<and> map (msg_content mq s') Q = map (msg_content mq s) Q"
proof -
  note R = mq_relD [OF r]
  note A = pool_alloc_Cons [OF R(1)]
  let ?s = "s\<lparr>mp_block_free := (mp_block_free s)(mp_info_of mq := mem32 s b),
     mp_used_blocks := (mp_used_blocks s)(mp_info_of mq := mp_used_blocks s (mp_info_of mq) + 1)\<rparr>"
  have "mq_list ?s mq Q" by (subst mq_list_cong [where s = s]) (simp_all add: R(2))
  then have "mq_rel mq ?s F (insert b U) Q" using A(3) R by (auto simp: mq_rel_def)
  moreover have "mq_frame mq s ?s" by (rule mq_frame_core) (simp_all add: core_eq_def)
  moreover have "map (msg_content mq ?s) Q = map (msg_content mq s) Q" by (rule content_cong) simp_all
  moreover have "b \<notin> U" "b \<in> set (mq_blocks mq s)" using pool_relD(6) [OF R(1)] R(9) by auto
  ultimately show ?thesis using A(1,2) by auto
qed

lemma mq_store:
  assumes r: "mq_rel mq s F U Q" and b: "b \<in> U" "b \<notin> set Q"
  shows "\<exists>s' Q'. MessageQueuePut mq b (msg_init b p (memcpy (msg_data b) src (mq_msg_size s mq) s)) = Some s' \<and>
    mq_rel mq s' F U Q' \<and> set Q' = insert b (set Q) \<and> mq_frame mq s s' \<and> mem32 s' = mem32 s \<and>
    map (msg_content mq s') Q' = msg_ins (p, bytes s src (mq_msg_size s mq)) (map (msg_content mq s) Q) \<and>
    (\<forall>x. x \<notin> area (msg_data b) (mq_msg_size s mq) \<longrightarrow> mem8 s' x = mem8 s x)"
proof -
  note R = mq_relD [OF r]
  let ?s = "memcpy (msg_data b) src (mq_msg_size s mq) s"
  have fits: "pool_fits (mp_block_base s (mp_info_of mq)) (mp_block_size s (mp_info_of mq)) (unat (mp_max_blocks s (mp_info_of mq)))"
    using R(1) by (simp add: pool_rel_def)
  have bb: "b \<in> set (mq_blocks mq s)" using b(1) R(8) by blast
  then have "b \<noteq> NULL" using pool_blocks_props(2) [OF fits] by metis
  have ql: "mq_list ?s mq Q" by (subst mq_list_cong [where s = s]) (simp_all add: R(2) memcpy_def)
  obtain s' where s': "MessageQueuePut mq b (msg_init b p ?s) = Some s'" "link_frame (msg_init b p ?s) s'"
    "mq_list s' mq (msg_put ((msg_priority ?s)(b := p)) b Q)" using mq_put_ok [OF ql b(2) \<open>b \<noteq> NULL\<close> R(7)] by blast
  note L = link_frameD [OF s'(2)]
  define Q' where "Q' = msg_put ((msg_priority s)(b := p)) b Q"
  have Q': "Q' = msg_put ((msg_priority ?s)(b := p)) b Q" by (simp add: Q'_def memcpy_def)
  have "pool_rel (mp_info_of mq) s' F U" using R(1) by (simp add: pool_rel_def L) (simp add: msg_init_def memcpy_def)
  then have "mq_rel mq s' F U Q'" using s'(3) R b unfolding mq_rel_def Q' by (auto simp: L) (auto simp: msg_init_def memcpy_def)
  moreover have "mq_frame mq s s'"
  proof (rule mq_frame_trans)
    show "mq_frame mq s (msg_init b p ?s)"
      by (rule mq_frameI) (use bb in \<open>auto simp: core_eq_def msg_init_def memcpy_def\<close>)
    show "mq_frame mq (msg_init b p ?s) s'" by (rule mq_frame_core [OF link_frame_core [OF s'(2)]]) (simp_all add: L)
  qed
  moreover have m8: "mem8 s' = mem8 ?s" "msg_priority s' = (msg_priority s)(b := p)" "mq_msg_size s' = mq_msg_size s" "mem32 s' = mem32 s"
    by (simp_all add: L) (simp_all add: msg_init_def memcpy_def)
  moreover have out: "mem8 s' x = mem8 s x" if "x \<notin> area (msg_data b) (mq_msg_size s mq)" for x
    using memcpy_out [OF that] m8 by simp
  moreover have "map (msg_content mq s') Q' = msg_ins (p, bytes s src (mq_msg_size s mq)) (map (msg_content mq s) Q)"
  proof -
    have e: "map (msg_content mq s') Q = map (msg_content mq s) Q"
    proof (rule content_cong)
      fix m x assume m: "m \<in> set Q" and x: "x \<in> area (msg_data m) (mq_msg_size s mq)"
      have "m \<noteq> b" "m \<in> set (mq_blocks mq s)" using m b(2) R(3,8) by auto
      then show "mem8 s' x = mem8 s x" using data_apart [OF r bb, of m] x by (intro out) auto
    qed (use b m8 in auto)
    have "bytes s' (msg_data b) (mq_msg_size s mq) = bytes ?s (msg_data b) (mq_msg_size s mq)" by (rule bytes_cong) (simp add: m8)
    then have c: "msg_content mq s' b = (p, bytes s src (mq_msg_size s mq))" by (simp add: msg_content_def m8 bytes_memcpy)
    have "map (msg_content mq s') Q' = ins_after (\<lambda>y. fst y \<ge> p) (msg_content mq s' b) (map (msg_content mq s') Q)"
      unfolding Q'_def msg_put_def by (rule map_ins_after) (use m8 in \<open>simp add: msg_content_def\<close>)
    then show ?thesis unfolding e c msg_ins_def by simp
  qed
  moreover have "set Q' = insert b (set Q)" by (simp add: Q'_def)
  ultimately show ?thesis using s'(1) by blast
qed

lemma mq_get_first:
  assumes r: "mq_rel mq s F U (m # Q)"
  shows "MessageQueueGet mq s = Some (m, msg_taken mq m s)" "m \<noteq> NULL" "m \<in> U" "m \<notin> set Q" "m \<in> set (mq_blocks mq s)"
    "mq_rel mq (MessageQueueRemove mq m (msg_taken mq m s)) F U Q" "mq_frame mq s (MessageQueueRemove mq m (msg_taken mq m s))"
    "mem8 (MessageQueueRemove mq m (msg_taken mq m s)) = mem8 s" "msg_priority (MessageQueueRemove mq m (msg_taken mq m s)) = msg_priority s"
    "mem32 (MessageQueueRemove mq m (msg_taken mq m s)) = mem32 s"
    "mq_msg_size (MessageQueueRemove mq m (msg_taken mq m s)) = mq_msg_size s"
proof -
  note R = mq_relD [OF r]
  note T = mq_take_ok [OF R(2) R(4) [of m, simplified]]
  note L = link_frameD [OF T(3)]
  let ?s = "MessageQueueRemove mq m (msg_taken mq m s)"
  show "MessageQueueGet mq s = Some (m, msg_taken mq m s)" "m \<noteq> NULL" by (rule T)+
  show m: "m \<in> U" "m \<notin> set Q" "m \<in> set (mq_blocks mq s)" using R(3,6,8) by auto
  have "pool_rel (mp_info_of mq) ?s F U" using R(1) by (simp add: pool_rel_def L)
  then show "mq_rel mq ?s F U Q" using T(2) R m unfolding mq_rel_def by (auto simp: L)
  have "mq_frame mq s (s\<lparr>o_flags := (o_flags s)(m := 1)\<rparr>)" by (rule mq_frame_core) (simp_all add: core_eq_def)
  moreover have "mq_frame mq (s\<lparr>o_flags := (o_flags s)(m := 1)\<rparr>) ?s"
    by (rule mq_frame_core [OF link_frame_core [OF T(3)]]) (simp_all add: L)
  ultimately show "mq_frame mq s ?s" by (rule mq_frame_trans)
  show "mem8 ?s = mem8 s" "msg_priority ?s = msg_priority s" "mem32 ?s = mem32 s" "mq_msg_size ?s = mq_msg_size s" by (simp_all add: L)
qed

lemma mq_release:
  assumes r: "mq_rel mq s F U Q" and b: "b \<in> U" "b \<notin> set Q"
  shows "mq_rel mq (msg_free mq b s) (b # F) (U - {b}) Q" "mq_frame mq s (msg_free mq b s)" "mem8 (msg_free mq b s) = mem8 s"
    "msg_priority (msg_free mq b s) = msg_priority s" "mq_msg_size (msg_free mq b s) = mq_msg_size s"
proof -
  note R = mq_relD [OF r]
  let ?s = "s\<lparr>o_id := (o_id s)(b := osRtxIdInvalid)\<rparr>"
  have p: "pool_rel (mp_info_of mq) ?s F U" using R(1) by (simp add: pool_rel_def)
  note P = pool_free_used [OF p b(1)]
  have e: "msg_free mq b s = ?s\<lparr>mem32 := (mem32 s)(b := mp_block_free s (mp_info_of mq)), mp_block_free := (mp_block_free s)(mp_info_of mq := b),
      mp_used_blocks := (mp_used_blocks s)(mp_info_of mq := mp_used_blocks s (mp_info_of mq) - 1)\<rparr>" (is "_ = ?s'")
    using P(1) by (simp add: msg_free_def)
  have "mq_list ?s' mq Q" by (subst mq_list_cong [where s = s]) (simp_all add: R(2))
  moreover have "pool_rel (mp_info_of mq) ?s' (b # F) (U - {b})" using P(2) by simp
  ultimately show "mq_rel mq (msg_free mq b s) (b # F) (U - {b}) Q" using R b unfolding e mq_rel_def by auto
  have bb: "b \<in> set (mq_blocks mq s)" using b(1) R(8) by blast
  show "mq_frame mq s (msg_free mq b s)" unfolding e
    by (rule mq_frameI) (use bb in \<open>auto simp: core_eq_def\<close>)
  show "mem8 (msg_free mq b s) = mem8 s" "msg_priority (msg_free mq b s) = msg_priority s" "mq_msg_size (msg_free mq b s) = mq_msg_size s"
    unfolding e by simp_all
qed

section \<open>The threads that wait\<close>

text \<open>Waking a thread, or queueing the running one, leaves the states of the other blocked threads alone.\<close>

lemma ListPut_state: "osRtxThreadListPut ob t s = Some s' \<Longrightarrow> o_state s' = o_state s \<and> run_next s' = run_next s"
  by (auto simp: osRtxThreadListPut_def thread_list_link_def deref_def Let_def bind_eq_Some_conv split: if_splits prod.splits)

lemma ListGet_state: "osRtxThreadListGet ob s = Some (t, s') \<Longrightarrow> o_state s' = o_state s \<and> run_curr s' = run_curr s"
  by (auto simp: osRtxThreadListGet_def deref_def Let_def bind_eq_Some_conv split: if_splits)

lemma Switch_state: "osRtxThreadSwitch t s = Some s' \<Longrightarrow> o_state s' = (o_state s)(t := osRtxThreadRunning) \<and> run_next s' = t"
  by (auto simp: osRtxThreadSwitch_def osRtxThreadStackCheck_def osRtxErrorNotify_def deref_def Let_def bind_eq_Some_conv split: if_splits)

lemma Block_state: "osRtxThreadBlock t s = Some s' \<Longrightarrow> o_state s' = (o_state s)(t := osRtxThreadReady)"
  by (auto simp: osRtxThreadBlock_def thread_list_link_def deref_def Let_def bind_eq_Some_conv split: if_splits prod.splits)

lemma Dispatch_state:
  "osRtxThreadDispatch t s = Some s' \<Longrightarrow> t \<noteq> NULL \<Longrightarrow> u \<noteq> t \<Longrightarrow> u \<noteq> run_curr s \<Longrightarrow> o_state s' u = o_state s u"
  by (auto simp: osRtxThreadDispatch_def Let_def bind_eq_Some_conv dest!: Block_state Switch_state ReadyPut_state split: if_splits)

lemma DelayRemove_curr: "osRtxThreadDelayRemove t s = Some s' \<Longrightarrow> run_curr s' = run_curr s"
  by (auto simp: osRtxThreadDelayRemove_def deref_def Let_def split: if_splits)

lemma wake_first_state:
  assumes w: "wake_first ob v d s = Some (t, s')" and t: "t \<noteq> NULL" and u: "u \<noteq> t" "u \<noteq> run_curr s"
  shows "o_state s' u = o_state s u"
proof -
  obtain s1 where s1: "osRtxThreadListGet ob s = Some (t, s1)" "osRtxThreadWaitExit t v d s1 = Some s'"
    using w by (auto simp: wake_first_def bind_eq_Some_conv)
  let ?s = "s1\<lparr>mem32 := (mem32 s1)(osRtxThreadRegPtr t s1 := v)\<rparr>"
  obtain s2 where s2: "osRtxThreadDelayRemove t ?s = Some s2" "(if d then osRtxThreadDispatch t s2 else osRtxThreadReadyPut t s2) = Some s'"
    using s1(2) by (auto simp: osRtxThreadWaitExit_def deref_def Let_def bind_eq_Some_conv split: if_splits)
  note G = ListGet_state [OF s1(1)]
  have "o_state s2 = o_state s" "run_curr s2 = run_curr s" using DelayRemove_state [OF s2(1)] DelayRemove_curr [OF s2(1)] G by simp_all
  then show ?thesis using s2(2) Dispatch_state [of t s2 s' u] ReadyPut_state [of t s2 s'] t u by (auto split: if_splits)
qed

lemma DelayInsert_state: "osRtxThreadDelayInsert t v s = Some s' \<Longrightarrow> o_state s' = o_state s"
  by (auto simp: osRtxThreadDelayInsert_def deref_def Let_def bind_eq_Some_conv split: if_splits prod.splits)

lemma wait_on_state:
  assumes w: "wait_on ob st v s = Some (True, s')" and u: "u \<noteq> run_curr s" "u \<noteq> run_next s'"
  shows "o_state s' u = o_state s u"
proof -
  let ?s = "s\<lparr>o_state := (o_state s)(run_curr s := st)\<rparr>"
  obtain s1 s2 t s3 where s1: "osRtxThreadDelayInsert (run_curr s) v ?s = Some s1" "osRtxThreadListGet (ready_obj s1) s1 = Some (t, s2)"
    "osRtxThreadSwitch t s2 = Some s3" "osRtxThreadListPut ob (run_curr s3) s3 = Some s'"
    using w by (auto simp: wait_on_def osRtxThreadWaitEnter_def Let_def bind_eq_Some_conv split: if_splits)
  then show ?thesis
    using u DelayInsert_state [OF s1(1)] ListGet_state [OF s1(2)] Switch_state [OF s1(3)] ListPut_state [OF s1(4)] by simp
qed

lemma sched_frame_mq:
  assumes f: "sched_frame s s'" and r: "mq_rel mq s F U Q" and a: "mq_apart mq s"
  shows "mq_rel mq s' F U Q" "mq_apart mq s'" "map (msg_content mq s') R = map (msg_content mq s) R"
proof -
  note X = sched_frameD [OF f]
  note R = mq_relD [OF r]
  have "mq_list s' mq Q" by (subst mq_list_cong [where s = s]) (simp_all add: X R(2))
  then show "mq_rel mq s' F U Q"
    using R sched_frame_pool(1) [OF f R(1) mq_apart_pool [OF a]] unfolding mq_rel_def by (simp add: X)
  show "mq_apart mq s'" using a unfolding mq_apart_def sched_frame_out(1) [OF f] sched_frame_objs [OF f]
    by (simp add: X osRtxThreadRegPtr_def)
  show "map (msg_content mq s') R = map (msg_content mq s) R" by (rule content_cong) (simp_all add: X)
qed

text \<open>
  Receivers wait only while there is no message, and senders only while there is no free block.
\<close>

definition mq_waiters :: "rtx \<Rightarrow> addr list \<Rightarrow> addr list \<Rightarrow> addr list \<Rightarrow> bool" where
  "mq_waiters s ts F Q \<longleftrightarrow> ts = [] \<or> (\<forall>t\<in>set ts. o_state s t = osRtxThreadWaitingMessageGet) \<and> Q = [] \<or>
     (\<forall>t\<in>set ts. o_state s t = osRtxThreadWaitingMessagePut) \<and> F = []"

definition mq_state :: "addr \<Rightarrow> rtx \<Rightarrow> (addr \<Rightarrow> addr list) \<Rightarrow> addr list \<Rightarrow> addr list \<Rightarrow> bool" where
  "mq_state mq s L F Q \<longleftrightarrow> mq \<noteq> NULL \<and> o_id s mq = osRtxIdMessageQueue \<and> mq_rel mq s F (set Q) Q \<and> mq_apart mq s \<and>
     F @ Q \<noteq> [] \<and> mq_waiters s (L mq) F Q"

lemma mq_stateD:
  assumes "mq_state mq s L F Q" "kinv s L D W"
  shows "mq \<noteq> NULL" "o_id s mq = osRtxIdMessageQueue" "mq_rel mq s F (set Q) Q" "mq_apart mq s" "mq_waiters s (L mq) F Q"
    "F @ Q \<noteq> []" "mq \<in> objs s" "mq \<noteq> ready_obj s"
    "mq_waiting mq st s \<longleftrightarrow> L mq \<noteq> [] \<and> o_state s (hd (L mq)) = st"
proof -
  note S = assms(1) [unfolded mq_state_def]
  show "mq \<noteq> NULL" "o_id s mq = osRtxIdMessageQueue" "mq_rel mq s F (set Q) Q" "mq_apart mq s" "mq_waiters s (L mq) F Q"
    "F @ Q \<noteq> []" using S by blast+
  show ob: "mq \<in> objs s" "mq \<noteq> ready_obj s"
    using S kstD(5) [OF kinvD(1) [OF assms(2)]] by (auto simp: objs_def has_thread_list_def)
  show "mq_waiting mq st s \<longleftrightarrow> L mq \<noteq> [] \<and> o_state s (hd (L mq)) = st"
    using kinv_head [OF assms(2) ob(1)] by (cases "L mq") (auto simp: mq_waiting_def)
qed

text \<open>A blocked thread is not the running one.\<close>

lemma waiter_not_running:
  assumes "kinv s L D W" "stable s" "ob \<noteq> ready_obj s" "t \<in> set (L ob)"
  shows "t \<noteq> run_curr s" "t \<notin> set (L (ready_obj s))" "t \<noteq> NULL"
proof -
  note K = kinvD(1) [OF assms(1)]
  have "run_curr s = run_next s" using assms(2) by (simp add: stable_def)
  then show "t \<noteq> run_curr s" using running_in_no_list [OF K, of ob] kst_list_sub [OF K, of ob] assms(4) in_thrs [of t s]
    by (cases "run_next s = NULL") auto
  show "t \<notin> set (L (ready_obj s))" using tl_invD(4) [OF kstD(1) [OF K] assms(4)] assms(3) by blast
  show "t \<noteq> NULL" using kst_list_sub [OF K, of ob] assms(4) in_thrs by blast
qed

section \<open>Putting a message\<close>

text \<open>The arguments a waiting thread has left on its stack, and the words of the stack of the running one.\<close>

abbreviation arg2 :: "rtx \<Rightarrow> addr \<Rightarrow> addr" where "arg2 s t \<equiv> mem32 s (osRtxThreadRegPtr t s + 8)"
abbreviation arg3 :: "rtx \<Rightarrow> addr \<Rightarrow> addr" where "arg3 s t \<equiv> mem32 s (osRtxThreadRegPtr t s + 12)"

definition args_ok :: "addr \<Rightarrow> rtx \<Rightarrow> bool" where
  "args_ok mq s \<longleftrightarrow> (\<forall>a\<in>{psp s + 8, psp s + 12}. a \<notin> set (mq_blocks mq s) \<and> (\<forall>t\<in>thrs s. a \<noteq> t_stack_mem s t))"

lemma mq_rel_mem8 [simp]: "mq_rel mq (s\<lparr>mem8 := m\<rparr>) F U Q = mq_rel mq s F U Q" "mq_apart mq (s\<lparr>mem8 := m\<rparr>) = mq_apart mq s"
  by (simp_all add: mq_rel_def pool_rel_def mq_list_def mq_apart_def thrs_def objs_def osRtxThreadRegPtr_def)

lemma mq_rel_mem32:
  assumes "mq_rel mq s F U Q" "\<And>b. b \<in> set (mq_blocks mq s) \<Longrightarrow> m b = mem32 s b"
  shows "mq_rel mq (s\<lparr>mem32 := m\<rparr>) F U Q" "mq_apart mq (s\<lparr>mem32 := m\<rparr>) = mq_apart mq s"
proof -
  have "fseg m (mp_block_free s (mp_info_of mq)) F = fseg (mem32 s) (mp_block_free s (mp_info_of mq)) F"
    by (rule fseg_cong) (use mq_relD(9) [OF assms(1)] assms(2) in blast)
  then show "mq_rel mq (s\<lparr>mem32 := m\<rparr>) F U Q" using assms(1) by (simp add: mq_rel_def pool_rel_def mq_list_def)
  show "mq_apart mq (s\<lparr>mem32 := m\<rparr>) = mq_apart mq s" by (simp add: mq_apart_def thrs_def objs_def osRtxThreadRegPtr_def)
qed

text \<open>What a thread that is woken gets.\<close>

definition got_message :: "rtx \<Rightarrow> rtx \<Rightarrow> addr \<Rightarrow> u32 \<Rightarrow> u8 \<times> u8 list \<Rightarrow> bool" where
  "got_message s s' t n x \<longleftrightarrow> mem32 s' (osRtxThreadRegPtr t s) = osOK \<and>
     (arg3 s t = NULL \<or> arg3 s t \<notin> area (arg2 s t) n \<longrightarrow> bytes s' (arg2 s t) n = snd x) \<and>
     (arg3 s t \<noteq> NULL \<longrightarrow> mem8 s' (arg3 s t) = fst x)"

lemma mq_deliver_kinv:
  assumes k: "kinv s L D W" and st: "d \<Longrightarrow> stable s" and mq: "mq \<in> objs s" "mq \<noteq> ready_obj s" and L: "L mq = t # ts"
    and r: "mq_rel mq s F U Q" and a: "mq_apart mq s"
  shows "\<exists>s1 s'. mq_deliver mq src p d s = Some s' \<and> kinv s' (exit_lists s t d (L(mq := ts))) (remove1 t D) (remove1 t W) \<and>
    run_next s' = exit_run s t d \<and> wake_first mq osOK d s = Some (t, s1) \<and> sched_frame s s1 \<and> core_eq s1 s' \<and>
    mq_rel mq s' F U Q \<and> mq_apart mq s' \<and>
    got_message s s' t (mq_msg_size s mq) (p, bytes s src (mq_msg_size s mq))"
proof -
  obtain s1 where s1: "wake_first mq osOK d s = Some (t, s1)" "sched_frame s s1"
    "kinv s1 (exit_lists s t d (L(mq := ts))) (remove1 t D) (remove1 t W)" "run_next s1 = exit_run s t d"
    "mem32 s1 = (mem32 s)(osRtxThreadRegPtr t s := osOK)"
    using wake_first_kinv [OF k mq L, of d osOK] st by blast
  note X = sched_frameD [OF s1(2)]
  have rg: "osRtxThreadRegPtr t s1 = osRtxThreadRegPtr t s" by (rule sched_frame_RegPtr [OF s1(2)])
  have ar: "arg2 s1 t = arg2 s t" "arg3 s1 t = arg3 s t" unfolding rg s1(5) by simp_all
  let ?n = "mq_msg_size s mq"
  let ?s2 = "memcpy (arg2 s t) src ?n s1"
  define s' where "s' = (if arg3 s t \<noteq> NULL then ?s2\<lparr>mem8 := (mem8 ?s2)(arg3 s t := p)\<rparr> else ?s2)"
  have m32: "mem32 ?s2 = mem32 s1" by (simp add: memcpy_def)
  have "mq_deliver mq src p d s = Some s'"
    using s1(1) ar m32 by (simp add: mq_deliver_def s'_def X Let_def)
  moreover have c: "core_eq s1 s'" by (simp add: s'_def memcpy_def core_eq_def)
  moreover have "mq_rel mq s1 F U Q" "mq_apart mq s1" using sched_frame_mq [OF s1(2) r a] by simp_all
  then have "mq_rel mq s' F U Q" "mq_apart mq s'" by (simp_all add: s'_def memcpy_def)
  moreover have "bytes s' (arg2 s t) ?n = bytes s src ?n" if "arg3 s t = NULL \<or> arg3 s t \<notin> area (arg2 s t) ?n"
  proof -
    have "bytes s' (arg2 s t) ?n = bytes ?s2 (arg2 s t) ?n" by (rule bytes_cong) (use that in \<open>auto simp: s'_def\<close>)
    also have "\<dots> = bytes s1 src ?n" by (rule bytes_memcpy)
    also have "\<dots> = bytes s src ?n" by (rule bytes_cong) (simp add: X)
    finally show ?thesis .
  qed
  then have "got_message s s' t ?n (p, bytes s src ?n)"
    using c s1(5) by (simp add: got_message_def core_eq_def s'_def)
  ultimately show ?thesis using s1 core_eq_kinv [OF c s1(3)] c by (auto simp: core_eq_def)
qed

text \<open>Queueing the running thread on a queue with nothing for it.\<close>

lemma mq_wait_kinv:
  assumes k: "kinv s L D W" and st: "stable s" and q: "mq_state mq s L F Q" and ao: "args_ok mq s" and c: "can_wait s L" and v: "v \<noteq> 0"
    and w: "w = osRtxThreadWaitingMessageGet \<and> Q = [] \<or> w = osRtxThreadWaitingMessagePut \<and> F = []"
  shows "\<exists>s1 D' W'. wait_on mq w v s = Some (True, s1) \<and> kinv (save_args x y s1) (wait_lists s mq (run_curr s) L) D' W' \<and>
    mq_state mq (save_args x y s1) (wait_lists s mq (run_curr s) L) F Q \<and>
    wait_dl s (run_curr s) v D W (save_args x y s1) D' W' \<and> run_next s1 = hd (L (ready_obj s)) \<and>
    o_state s1 (run_curr s) = w \<and> mem32 (save_args x y s1) = (mem32 s)(psp s + 8 := x, psp s + 12 := y) \<and> mem8 s1 = mem8 s \<and>
    map (msg_content mq (save_args x y s1)) Q = map (msg_content mq s) Q"
proof -
  note S = mq_stateD [OF q k]
  have cw: "k_state s = osRtxKernelRunning" "run_curr s \<noteq> NULL" "L (ready_obj s) \<noteq> []" using c by (auto simp: can_wait_def)
  have bl: "is_blocked w" using w by (auto simp: is_blocked_def)
  obtain s1 D' W' where s1: "wait_on mq w v s = Some (True, s1)" "sched_frame s s1" "run_next s1 = hd (L (ready_obj s))"
    "kinv s1 (wait_lists s mq (run_curr s) L) D' W'" "wait_dl s (run_curr s) v D W s1 D' W'" "o_state s1 (run_curr s) = w"
    "mem32 s1 = mem32 s"
    using wait_on_kinv [OF k S(7,8) st cw(1) refl cw(2,3) bl v] by blast
  note X = sched_frameD [OF s1(2)]
  note M = sched_frame_mq [OF s1(2) S(3,4)]
  let ?m = "(mem32 s1)(psp s + 8 := x, psp s + 12 := y)"
  let ?s = "s1\<lparr>mem32 := ?m\<rparr>"
  have e: "save_args x y s1 = ?s" by (simp add: save_args_def X)
  have k2: "kinv ?s (wait_lists s mq (run_curr s) L) D' W'"
  proof (rule kinv_mem [OF s1(4)])
    fix t assume "t \<in> thrs s1"
    then show "?m (t_stack_mem s1 t) = mem32 s1 (t_stack_mem s1 t)"
      using ao sched_frame_out(1) [OF s1(2)] by (auto simp: args_ok_def X)
  qed
  have mb: "?m b = mem32 s1 b" if "b \<in> set (mq_blocks mq s1)" for b using ao that by (auto simp: args_ok_def X)
  note M2 = mq_rel_mem32 [where m = ?m, OF M(1) mb]
  have de: "delays ?s D' = delays s1 D'" by (simp add: delays_def)
  have dl: "wait_dl s (run_curr s) v D W ?s D' W'" using s1(5) unfolding wait_dl_def de .
  have ct: "map (msg_content mq ?s) Q = map (msg_content mq s) Q"
    by (rule content_cong) (simp_all add: X)
  have ws: "wait_lists s mq (run_curr s) L mq = prio_put (t_priority s) (run_curr s) (L mq)" using S(8) by (simp add: wait_lists_def)
  have un: "o_state s1 u = o_state s u" if "u \<in> set (L mq)" for u
  proof (rule wait_on_state [OF s1(1)])
    note wr = waiter_not_running [where ob = mq, OF k st S(8) that]
    show "u \<noteq> run_curr s" by (rule wr(1))
    show "u \<noteq> run_next s1" using wr(2) cw(3) s1(3) by auto
  qed
  have "mq_waiters ?s (wait_lists s mq (run_curr s) L mq) F Q"
    using S(5,6) w s1(6) un unfolding ws by (auto simp: mq_waiters_def prio_put_def)
  moreover have "o_id ?s mq = osRtxIdMessageQueue" using S(2) by (simp add: X)
  ultimately have "mq_state mq ?s (wait_lists s mq (run_curr s) L) F Q"
    using S(1,6) M2 M(2) unfolding mq_state_def by blast
  moreover have "mem32 (save_args x y s1) = (mem32 s)(psp s + 8 := x, psp s + 12 := y)" "mem8 s1 = mem8 s" by (simp_all add: e X s1(7))
  ultimately show ?thesis using s1(1,3,6) k2 [folded e] dl [folded e] ct [folded e] unfolding e [symmetric] by blast
qed

definition put_result :: "rtx \<Rightarrow> rtx \<Rightarrow> addr \<Rightarrow> addr \<Rightarrow> u8 \<Rightarrow> u32 \<Rightarrow> (addr \<Rightarrow> addr list) \<Rightarrow> (addr \<Rightarrow> addr list) \<Rightarrow> addr list \<Rightarrow> addr list
    \<Rightarrow> addr list \<Rightarrow> addr list \<Rightarrow> addr list \<Rightarrow> addr list \<Rightarrow> addr list \<Rightarrow> addr list \<Rightarrow> u32 \<Rightarrow> bool" where
  "put_result s s' mq src p timeout L L' D D' W W' F F' Q Q' r \<longleftrightarrow>
     (case F of
        b # F0 \<Rightarrow>
          (case L mq of
             t # ts \<Rightarrow> r = osOK \<and> F' = F \<and> Q' = [] \<and> L' = exit_lists s t True (L(mq := ts)) \<and> D' = remove1 t D \<and> W' = remove1 t W \<and>
               run_next s' = (if preempts s t then t else run_next s) \<and>
               got_message s s' t (mq_msg_size s mq) (p, bytes s src (mq_msg_size s mq))
           | [] \<Rightarrow> r = osOK \<and> F' = F0 \<and> map (msg_content mq s') Q' = msg_ins (p, bytes s src (mq_msg_size s mq)) (map (msg_content mq s) Q) \<and>
               L' = L \<and> D' = D \<and> W' = W \<and> run_next s' = run_next s)
      | [] \<Rightarrow> F' = [] \<and> Q' = Q \<and> map (msg_content mq s') Q = map (msg_content mq s) Q \<and>
          (if timeout \<noteq> 0 \<and> can_wait s L then r = osErrorTimeout \<and> L' = wait_lists s mq (run_curr s) L \<and>
             wait_dl s (run_curr s) timeout D W s' D' W' \<and> run_next s' = hd (L (ready_obj s)) \<and>
             o_state s' (run_curr s) = osRtxThreadWaitingMessagePut \<and>
             mem32 s' = (mem32 s)(psp s + 8 := src, psp s + 12 := ucast p)
           else r = (if timeout = 0 then osErrorResource else osErrorTimeout) \<and> s' = s))"

lemma message_put_free:
  assumes k: "kinv s L D W" and q: "mq_state mq s L (b # F) Q" and L: "L mq = []" and src: "src \<noteq> NULL"
  shows "\<exists>s' Q'. svcRtxMessageQueuePut mq src p timeout s = Some (osOK, s') \<and> mq_frame mq s s' \<and> mq_state mq s' L F Q' \<and>
    set Q' = insert b (set Q) \<and>
    map (msg_content mq s') Q' = msg_ins (p, bytes s src (mq_msg_size s mq)) (map (msg_content mq s) Q)"
proof -
  note S = mq_stateD [OF q k]
  have mw: "\<not> mq_waiting mq osRtxThreadWaitingMessageGet s" using S(9) L by simp
  obtain s1 where s1: "osRtxMemoryPoolAlloc (mp_info_of mq) s = (b, s1)" "b \<noteq> NULL" "b \<notin> set Q" "b \<in> set (mq_blocks mq s)"
    "mq_rel mq s1 F (insert b (set Q)) Q" "mq_frame mq s s1" "mem8 s1 = mem8 s" "map (msg_content mq s1) Q = map (msg_content mq s) Q"
    using mq_alloc [OF S(3)] by auto
  note A = mq_frameD [OF s1(6) S(4)]
  obtain s' Q' where s': "MessageQueuePut mq b (msg_init b p (memcpy (msg_data b) src (mq_msg_size s1 mq) s1)) = Some s'"
    "mq_rel mq s' F (insert b (set Q)) Q'" "set Q' = insert b (set Q)" "mq_frame mq s1 s'"
    "map (msg_content mq s') Q' = msg_ins (p, bytes s1 src (mq_msg_size s1 mq)) (map (msg_content mq s1) Q)"
    using mq_store [OF s1(5) insertI1 s1(3), of p src] by blast
  note B = mq_frameD [OF s'(4) A(13)]
  have "bytes s1 src (mq_msg_size s mq) = bytes s src (mq_msg_size s mq)" by (rule bytes_cong) (simp add: s1(7))
  then have "map (msg_content mq s') Q' = msg_ins (p, bytes s src (mq_msg_size s mq)) (map (msg_content mq s) Q)"
    using s'(5) s1(8) A(15) by simp
  moreover have "svcRtxMessageQueuePut mq src p timeout s = Some (osOK, s')"
    using S(1,2) src mw s1(1,2) s'(1) by (simp add: svcRtxMessageQueuePut_def)
  moreover have "mq_state mq s' L F Q'"
    using S(1,2) s'(2,3) B(13) A(17) B(17) S(7) A(4) L by (simp add: mq_state_def mq_waiters_def) (metis list.set(1) insert_not_empty)
  ultimately show ?thesis using s'(3) mq_frame_trans [OF s1(6) s'(4)] by blast
qed

lemma message_put_lemma:
  assumes k: "kinv s L D W" and st: "stable s" and q: "mq_state mq s L F Q" and src: "src \<noteq> NULL" and ao: "F = [] \<Longrightarrow> args_ok mq s"
  shows "\<exists>r s' L' D' W' F' Q'. svcRtxMessageQueuePut mq src p timeout s = Some (r, s') \<and> kinv s' L' D' W' \<and> mq_state mq s' L' F' Q' \<and>
    put_result s s' mq src p timeout L L' D D' W W' F F' Q Q' r"
proof (cases F)
  case (Cons b F0)
  note S = mq_stateD [OF q k]
  show ?thesis
  proof (cases "L mq")
    case L: (Cons t ts)
    have w: "\<forall>u\<in>set (L mq). o_state s u = osRtxThreadWaitingMessageGet" "Q = []"
      using S(5) Cons L by (auto simp: mq_waiters_def)
    then have mw: "mq_waiting mq osRtxThreadWaitingMessageGet s" using S(9) L by simp
    obtain s1 s' where s': "mq_deliver mq src p True s = Some s'" "kinv s' (exit_lists s t True (L(mq := ts))) (remove1 t D) (remove1 t W)"
      "run_next s' = exit_run s t True" "wake_first mq osOK True s = Some (t, s1)" "sched_frame s s1" "core_eq s1 s'"
      "mq_rel mq s' F (set Q) Q" "mq_apart mq s'" "got_message s s' t (mq_msg_size s mq) (p, bytes s src (mq_msg_size s mq))"
      using mq_deliver_kinv [OF k _ S(7,8) L S(3,4), of True src p] st by blast
    have "svcRtxMessageQueuePut mq src p timeout s = Some (osOK, s')"
      using S(1,2) src mw s'(1) by (simp add: svcRtxMessageQueuePut_def)
    moreover have "mq_state mq s' (exit_lists s t True (L(mq := ts))) F []"
    proof -
      have "o_state s' u = o_state s u" if "u \<in> set ts" for u
      proof -
        have "distinct (t # ts)" using tl_invD(2) [OF kstD(1) [OF kinvD(1) [OF k]], of mq] L by simp
        then have "u \<noteq> t" using that by auto
        then show ?thesis using wake_first_state [OF s'(4)] waiter_not_running [where ob = mq, OF k st S(8)] L that s'(6)
          by (simp add: core_eq_def)
      qed
      then have "mq_waiters s' (exit_lists s t True (L(mq := ts)) mq) F []" using w L S(8) by (simp add: mq_waiters_def)
      moreover have "o_id s' mq = osRtxIdMessageQueue" using s'(5,6) S(2) by (simp add: core_eq_def sched_frameD)
      ultimately show ?thesis using S(1) s'(7,8) w(2) Cons by (simp add: mq_state_def)
    qed
    moreover have "exit_run s t True = (if preempts s t then t else run_next s)" by (simp add: exit_run_def disp_run_def)
    ultimately show ?thesis using s'(2,3,9) Cons L
      by (intro exI [of _ osOK] exI [of _ s'] exI [of _ "exit_lists s t True (L(mq := ts))"] exI [of _ "remove1 t D"]
          exI [of _ "remove1 t W"] exI [of _ F] exI [of _ "[]"]) (simp add: put_result_def)
  next
    case L: Nil
    obtain s' Q' where "svcRtxMessageQueuePut mq src p timeout s = Some (osOK, s')" and f: "mq_frame mq s s'"
      and "mq_state mq s' L F0 Q'" "map (msg_content mq s') Q' = msg_ins (p, bytes s src (mq_msg_size s mq)) (map (msg_content mq s) Q)"
      using message_put_free [OF k q [unfolded Cons] L src] by blast
    then show ?thesis using mq_frameD(1) [OF f S(4) k] mq_frameD(5) [OF f S(4)] L Cons
      by (intro exI [of _ osOK] exI [of _ s'] exI [of _ L] exI [of _ D] exI [of _ W] exI [of _ F0] exI [of _ Q'])
        (simp add: put_result_def)
  qed
next
  case Nil
  note S = mq_stateD [OF q k]
  have mw: "\<not> mq_waiting mq osRtxThreadWaitingMessageGet s"
    using S(5,6,9) Nil by (auto simp: mq_waiters_def hd_in_set)
  have al: "osRtxMemoryPoolAlloc (mp_info_of mq) s = (NULL, s)" using pool_alloc_Nil mq_relD(1) [OF S(3)] Nil by blast
  show ?thesis
  proof (cases "timeout \<noteq> 0 \<and> can_wait s L")
    case True
    have "osRtxThreadWaitingMessagePut = osRtxThreadWaitingMessageGet \<and> Q = [] \<or> osRtxThreadWaitingMessagePut = osRtxThreadWaitingMessagePut \<and> F = []"
      using Nil by simp
    from mq_wait_kinv [OF k st q ao [OF Nil] _ _ this, of timeout src "ucast p"] True obtain s1 D' W' where
      s1: "wait_on mq osRtxThreadWaitingMessagePut timeout s = Some (True, s1)"
      "kinv (save_args src (ucast p) s1) (wait_lists s mq (run_curr s) L) D' W'"
      "mq_state mq (save_args src (ucast p) s1) (wait_lists s mq (run_curr s) L) F Q"
      "wait_dl s (run_curr s) timeout D W (save_args src (ucast p) s1) D' W'" "run_next s1 = hd (L (ready_obj s))"
      "o_state s1 (run_curr s) = osRtxThreadWaitingMessagePut"
      "mem32 (save_args src (ucast p) s1) = (mem32 s)(psp s + 8 := src, psp s + 12 := ucast p)"
      "map (msg_content mq (save_args src (ucast p) s1)) Q = map (msg_content mq s) Q" by blast
    have "svcRtxMessageQueuePut mq src p timeout s = Some (osErrorTimeout, save_args src (ucast p) s1)"
      using S(1,2) src mw al True s1(1) by (simp add: svcRtxMessageQueuePut_def)
    moreover have "run_next (save_args src (ucast p) s1) = run_next s1" "o_state (save_args src (ucast p) s1) = o_state s1"
      by (simp_all add: save_args_def)
    ultimately show ?thesis using s1 True Nil
      by (intro exI [of _ osErrorTimeout] exI [of _ "save_args src (ucast p) s1"] exI [of _ "wait_lists s mq (run_curr s) L"]
          exI [of _ D'] exI [of _ W'] exI [of _ "[]"] exI [of _ Q]) (simp add: put_result_def)
  next
    case False
    have "wait_on mq osRtxThreadWaitingMessagePut timeout s = Some (False, s)" if "timeout \<noteq> 0"
      by (rule wait_on_fail [OF k]) (use that False in \<open>auto simp: can_wait_def\<close>)
    then have "svcRtxMessageQueuePut mq src p timeout s = Some (if timeout = 0 then osErrorResource else osErrorTimeout, s)"
      using S(1,2) src mw al by (simp add: svcRtxMessageQueuePut_def)
    then show ?thesis using k q False Nil
      by (intro exI [of _ "if timeout = 0 then osErrorResource else osErrorTimeout"] exI [of _ s] exI [of _ L] exI [of _ D]
          exI [of _ W] exI [of _ "[]"] exI [of _ Q]) (auto simp: put_result_def)
  qed
qed

section \<open>Getting a message\<close>

text \<open>The buffers of the receiver are apart from the data of the messages and from each other.\<close>

definition mq_data :: "addr \<Rightarrow> rtx \<Rightarrow> addr set" where
  "mq_data mq s = (\<Union>b\<in>set (mq_blocks mq s). area (msg_data b) (mq_msg_size s mq))"

definition buf_area :: "rtx \<Rightarrow> addr \<Rightarrow> addr \<Rightarrow> addr \<Rightarrow> addr set" where
  "buf_area s mq dst pp = area dst (mq_msg_size s mq) \<union> (if pp = NULL then {} else {pp})"

definition buf_ok :: "addr \<Rightarrow> rtx \<Rightarrow> addr \<Rightarrow> addr \<Rightarrow> bool" where
  "buf_ok mq s dst pp \<longleftrightarrow> buf_area s mq dst pp \<inter> mq_data mq s = {} \<and> (pp = NULL \<or> pp \<notin> area dst (mq_msg_size s mq))"

text \<open>A message is copied out and its block is given back.\<close>

definition mq_consume :: "addr \<Rightarrow> addr \<Rightarrow> addr \<Rightarrow> addr \<Rightarrow> rtx \<Rightarrow> rtx" where
  "mq_consume mq m dst pp s =
     (let s = MessageQueueRemove mq m (msg_taken mq m s);
          s = memcpy dst (msg_data m) (mq_msg_size s mq) s;
          s = (if pp \<noteq> NULL then s\<lparr>mem8 := (mem8 s)(pp := msg_priority s m)\<rparr> else s)
      in msg_free mq m s)"

lemma mq_consume_ok:
  assumes r: "mq_rel mq s F (set (m # Q)) (m # Q)" and a: "mq_apart mq s" and bo: "buf_ok mq s dst pp"
  shows "mq_rel mq (mq_consume mq m dst pp s) (m # F) (set Q) Q" "mq_frame mq s (mq_consume mq m dst pp s)"
    "map (msg_content mq (mq_consume mq m dst pp s)) Q = map (msg_content mq s) Q"
    "bytes (mq_consume mq m dst pp s) dst (mq_msg_size s mq) = bytes s (msg_data m) (mq_msg_size s mq)"
    "pp \<noteq> NULL \<Longrightarrow> mem8 (mq_consume mq m dst pp s) pp = msg_priority s m"
    "x \<notin> buf_area s mq dst pp \<Longrightarrow> mem8 (mq_consume mq m dst pp s) x = mem8 s x"
proof -
  note G = mq_get_first [OF r]
  let ?s1 = "MessageQueueRemove mq m (msg_taken mq m s)" and ?n = "mq_msg_size s mq"
  define s3 where "s3 = (let s2 = memcpy dst (msg_data m) ?n ?s1 in if pp \<noteq> NULL then s2\<lparr>mem8 := (mem8 s2)(pp := msg_priority s m)\<rparr> else s2)"
  have pm: "msg_priority (memcpy dst (msg_data m) ?n ?s1) = msg_priority s" using G(9) by (simp add: memcpy_def)
  have e: "mq_consume mq m dst pp s = msg_free mq m s3" using G(11) pm by (simp add: mq_consume_def s3_def Let_def)
  have f3: "mq_frame mq ?s1 s3" by (rule mq_frame_core) (auto simp: s3_def memcpy_def core_eq_def Let_def)
  have r3: "mq_rel mq s3 F (set (m # Q)) Q" using G(6) by (simp add: s3_def memcpy_def Let_def)
  have mQ: "m \<notin> set Q" using G(4) .
  have m1: "m \<in> set (m # Q)" by simp
  note R = mq_release [OF r3 m1 mQ]
  have "set (m # Q) - {m} = set Q" using mQ by auto
  then show "mq_rel mq (mq_consume mq m dst pp s) (m # F) (set Q) Q" using R(1) e by simp
  show "mq_frame mq s (mq_consume mq m dst pp s)"
    unfolding e by (rule mq_frame_trans [OF G(7) mq_frame_trans [OF f3 R(2)]])
  have m8: "mem8 (mq_consume mq m dst pp s) = mem8 s3" using R(3) e by simp
  show out: "mem8 (mq_consume mq m dst pp s) x = mem8 s x" if "x \<notin> buf_area s mq dst pp" for x
    using that memcpy_out [of x dst ?n "msg_data m" ?s1] G(8) unfolding m8 by (auto simp: s3_def Let_def buf_area_def split: if_splits)
  have sz: "mq_msg_size s3 = mq_msg_size s" "msg_priority s3 = msg_priority s" using G(9,11) by (auto simp: s3_def memcpy_def Let_def)
  show "map (msg_content mq (mq_consume mq m dst pp s)) Q = map (msg_content mq s) Q"
  proof (rule content_cong)
    fix q x assume q: "q \<in> set Q" and x: "x \<in> area (msg_data q) ?n"
    have "q \<in> set (mq_blocks mq s)" using q mq_relD(3,8) [OF r] by auto
    then have "x \<in> mq_data mq s" using x by (auto simp: mq_data_def)
    then show "mem8 (mq_consume mq m dst pp s) x = mem8 s x" using bo by (intro out) (auto simp: buf_ok_def)
  qed (simp_all add: e R sz)
  have "bytes (mq_consume mq m dst pp s) dst ?n = bytes (memcpy dst (msg_data m) ?n ?s1) dst ?n"
    by (rule bytes_cong) (use bo in \<open>auto simp: m8 s3_def Let_def buf_ok_def\<close>)
  also have "\<dots> = bytes ?s1 (msg_data m) ?n" by (rule bytes_memcpy)
  also have "\<dots> = bytes s (msg_data m) ?n" by (rule bytes_cong) (simp add: G(8))
  finally show "bytes (mq_consume mq m dst pp s) dst ?n = bytes s (msg_data m) ?n" .
  show "pp \<noteq> NULL \<Longrightarrow> mem8 (mq_consume mq m dst pp s) pp = msg_priority s m" unfolding m8 by (simp add: s3_def Let_def)
qed

text \<open>The first sender is woken and its message is stored in the block that is free.\<close>

lemma mq_admit_kinv:
  assumes k: "kinv s L D W" and st: "d \<Longrightarrow> stable s" and mq: "mq \<in> objs s" "mq \<noteq> ready_obj s" and L: "L mq = t # ts"
    and r: "mq_rel mq s F U Q" and a: "mq_apart mq s" and b: "b \<in> U" "b \<notin> set Q"
  shows "\<exists>s1 s' Q'. mq_admit mq b d s = Some s' \<and> wake_first mq osOK d s = Some (t, s1) \<and> sched_frame s s1 \<and> mq_frame mq s1 s' \<and>
    mq_apart mq s1 \<and> kinv s' (exit_lists s t d (L(mq := ts))) (remove1 t D) (remove1 t W) \<and> run_next s' = exit_run s t d \<and>
    mq_rel mq s' F U Q' \<and> mq_apart mq s' \<and> set Q' = insert b (set Q) \<and> mem32 s' (osRtxThreadRegPtr t s) = osOK \<and>
    map (msg_content mq s') Q' = msg_ins (ucast (arg3 s t), bytes s (arg2 s t) (mq_msg_size s mq)) (map (msg_content mq s) Q) \<and>
    (\<forall>x. x \<notin> area (msg_data b) (mq_msg_size s mq) \<longrightarrow> mem8 s' x = mem8 s x)"
proof -
  obtain s1 where s1: "wake_first mq osOK d s = Some (t, s1)" "sched_frame s s1"
    "kinv s1 (exit_lists s t d (L(mq := ts))) (remove1 t D) (remove1 t W)" "run_next s1 = exit_run s t d"
    "mem32 s1 = (mem32 s)(osRtxThreadRegPtr t s := osOK)"
    using wake_first_kinv [OF k mq L, of d osOK] st by blast
  note X = sched_frameD [OF s1(2)]
  have rg: "osRtxThreadRegPtr t s1 = osRtxThreadRegPtr t s" by (rule sched_frame_RegPtr [OF s1(2)])
  have ar: "arg2 s1 t = arg2 s t" "arg3 s1 t = arg3 s t" unfolding rg s1(5) by simp_all
  note M = sched_frame_mq [OF s1(2) r a]
  obtain s' Q' where s': "MessageQueuePut mq b (msg_init b (ucast (arg3 s t)) (memcpy (msg_data b) (arg2 s t) (mq_msg_size s1 mq) s1)) = Some s'"
    "mq_rel mq s' F U Q'" "set Q' = insert b (set Q)" "mq_frame mq s1 s'" "mem32 s' = mem32 s1"
    "map (msg_content mq s') Q' = msg_ins (ucast (arg3 s t), bytes s1 (arg2 s t) (mq_msg_size s1 mq)) (map (msg_content mq s1) Q)"
    "\<forall>x. x \<notin> area (msg_data b) (mq_msg_size s1 mq) \<longrightarrow> mem8 s' x = mem8 s1 x"
    using mq_store [OF M(1) b, of "ucast (arg3 s t)" "arg2 s t"] by blast
  note B = mq_frameD [OF s'(4) M(2)]
  have m32: "mem32 (memcpy (msg_data b) (arg2 s t) (mq_msg_size s1 mq) s1) = mem32 s1" by (simp add: memcpy_def)
  have "mq_admit mq b d s = Some s'" using s1(1) s'(1) ar m32 by (simp add: mq_admit_def Let_def)
  moreover have "bytes s1 (arg2 s t) (mq_msg_size s mq) = bytes s (arg2 s t) (mq_msg_size s mq)" by (rule bytes_cong) (simp add: X)
  then have "map (msg_content mq s') Q' = msg_ins (ucast (arg3 s t), bytes s (arg2 s t) (mq_msg_size s mq)) (map (msg_content mq s) Q)"
    using s'(6) M(3) by (simp add: X)
  moreover have "mem32 s' (osRtxThreadRegPtr t s) = osOK" by (simp add: s'(5) s1(5))
  moreover have "\<forall>x. x \<notin> area (msg_data b) (mq_msg_size s mq) \<longrightarrow> mem8 s' x = mem8 s x" using s'(7) by (simp add: X)
  ultimately show ?thesis using s1 s'(2-4) B(1) [OF s1(3)] B(5,13) M(2) by auto
qed

definition get_result :: "rtx \<Rightarrow> rtx \<Rightarrow> addr \<Rightarrow> addr \<Rightarrow> addr \<Rightarrow> u32 \<Rightarrow> (addr \<Rightarrow> addr list) \<Rightarrow> (addr \<Rightarrow> addr list) \<Rightarrow> addr list \<Rightarrow> addr list
    \<Rightarrow> addr list \<Rightarrow> addr list \<Rightarrow> addr list \<Rightarrow> addr list \<Rightarrow> addr list \<Rightarrow> addr list \<Rightarrow> u32 \<Rightarrow> bool" where
  "get_result s s' mq dst pp timeout L L' D D' W W' F F' Q Q' r \<longleftrightarrow>
     (case Q of
        m # Q0 \<Rightarrow> r = osOK \<and> bytes s' dst (mq_msg_size s mq) = snd (msg_content mq s m) \<and>
          (pp \<noteq> NULL \<longrightarrow> mem8 s' pp = fst (msg_content mq s m)) \<and>
          (case L mq of
             t # ts \<Rightarrow> F' = [] \<and> L' = exit_lists s t True (L(mq := ts)) \<and> D' = remove1 t D \<and> W' = remove1 t W \<and>
               run_next s' = (if preempts s t then t else run_next s) \<and> mem32 s' (osRtxThreadRegPtr t s) = osOK \<and>
               map (msg_content mq s') Q' =
                 msg_ins (ucast (arg3 s t), bytes s (arg2 s t) (mq_msg_size s mq)) (map (msg_content mq s) Q0)
           | [] \<Rightarrow> F' = m # F \<and> Q' = Q0 \<and> map (msg_content mq s') Q' = map (msg_content mq s) Q0 \<and>
               L' = L \<and> D' = D \<and> W' = W \<and> run_next s' = run_next s)
      | [] \<Rightarrow> F' = F \<and> Q' = [] \<and>
          (if timeout \<noteq> 0 \<and> can_wait s L then r = osErrorTimeout \<and> L' = wait_lists s mq (run_curr s) L \<and>
             wait_dl s (run_curr s) timeout D W s' D' W' \<and> run_next s' = hd (L (ready_obj s)) \<and>
             o_state s' (run_curr s) = osRtxThreadWaitingMessageGet \<and>
             mem32 s' = (mem32 s)(psp s + 8 := dst, psp s + 12 := pp)
           else r = (if timeout = 0 then osErrorResource else osErrorTimeout) \<and> s' = s))"

lemma message_get_lemma:
  assumes k: "kinv s L D W" and st: "stable s" and q: "mq_state mq s L F Q" and dst: "dst \<noteq> NULL" and ao: "Q = [] \<Longrightarrow> args_ok mq s"
    and bo: "buf_ok mq s dst pp"
    and ws: "L mq \<noteq> [] \<Longrightarrow> Q \<noteq> [] \<Longrightarrow> area (arg2 s (hd (L mq))) (mq_msg_size s mq) \<inter> buf_area s mq dst pp = {}"
  shows "\<exists>r s' L' D' W' F' Q'. svcRtxMessageQueueGet mq dst pp timeout s = Some (r, s') \<and> kinv s' L' D' W' \<and> mq_state mq s' L' F' Q' \<and>
    get_result s s' mq dst pp timeout L L' D D' W W' F F' Q Q' r"
proof (cases Q)
  case (Cons m Q0)
  note S = mq_stateD [OF q k]
  have r: "mq_rel mq s F (set (m # Q0)) (m # Q0)" using S(3) Cons by simp
  note G = mq_get_first [OF r]
  define s4 where "s4 = mq_consume mq m dst pp s"
  note C = mq_consume_ok [OF r S(4) bo, folded s4_def]
  note A = mq_frameD [OF C(2) S(4)]
  have k4: "kinv s4 L D W" by (rule A(1) [OF k])
  have st4: "stable s4" using st A(2) by simp
  have ob4: "mq \<in> objs s4" "mq \<noteq> ready_obj s4" using S(7,8) A(4,7) by simp_all
  have id4: "o_id s4 mq = osRtxIdMessageQueue" using A(17) [of mq] S(2,7) by simp
  have op: "svcRtxMessageQueueGet mq dst pp timeout s = do {
      s \<leftarrow> (if mq_waiting mq osRtxThreadWaitingMessagePut s4 then do {
               let (msg, s) = osRtxMemoryPoolAlloc (mp_info_of mq) s4;
               if msg \<noteq> NULL then mq_admit mq msg True s else Some s
             } else Some s4);
      Some (osOK, s) }"
    using S(1,2) dst G(1,2) by (simp add: svcRtxMessageQueueGet_def s4_def mq_consume_def Let_def)
  have w4: "mq_waiting mq v s4 \<longleftrightarrow> L mq \<noteq> [] \<and> o_state s (hd (L mq)) = v" for v
    using S(9) [of v] A(9,10) by (simp add: mq_waiting_def)
  have dd: "x \<notin> area (msg_data m) (mq_msg_size s mq)" if "x \<in> buf_area s mq dst pp" for x
    using bo G(5) that by (auto simp: buf_ok_def mq_data_def)
  show ?thesis
  proof (cases "L mq")
    case L: Nil
    then have "svcRtxMessageQueueGet mq dst pp timeout s = Some (osOK, s4)" using op w4 by simp
    moreover have "mq_state mq s4 L (m # F) Q0"
      using S(1) id4 C(1) A(13) L by (simp add: mq_state_def mq_waiters_def)
    ultimately show ?thesis using k4 C(3-5) Cons L A(5)
      by (intro exI [of _ osOK] exI [of _ s4] exI [of _ L] exI [of _ D] exI [of _ W] exI [of _ "m # F"] exI [of _ Q0])
        (simp add: get_result_def msg_content_def)
  next
    case L: (Cons t ts)
    have w: "\<forall>u\<in>set (L mq). o_state s u = osRtxThreadWaitingMessagePut" "F = []"
      using S(5) Cons L by (auto simp: mq_waiters_def)
    then have mw: "mq_waiting mq osRtxThreadWaitingMessagePut s4" using w4 L by simp
    obtain s5 where s5: "osRtxMemoryPoolAlloc (mp_info_of mq) s4 = (m, s5)" "m \<noteq> NULL"
      "mq_rel mq s5 [] (insert m (set Q0)) Q0" "mq_frame mq s4 s5" "mem8 s5 = mem8 s4" "mem32 s5 = mem32 s4"
      "map (msg_content mq s5) Q0 = map (msg_content mq s4) Q0"
      using mq_alloc [of mq s4 m "[]" "set Q0" Q0] C(1) w(2) by auto
    note B = mq_frameD [OF s5(4) A(13)]
    have ob5: "mq \<in> objs s5" "mq \<noteq> ready_obj s5" using ob4 B(4,7) by simp_all
    have st5: "stable s5" using st4 B(2) by simp
    obtain s6 s' Q' where s': "mq_admit mq m True s5 = Some s'" "wake_first mq osOK True s5 = Some (t, s6)" "sched_frame s5 s6"
      "mq_frame mq s6 s'" "mq_apart mq s6" "kinv s' (exit_lists s5 t True (L(mq := ts))) (remove1 t D) (remove1 t W)"
      "run_next s' = exit_run s5 t True" "mq_rel mq s' [] (insert m (set Q0)) Q'" "mq_apart mq s'" "set Q' = insert m (set Q0)"
      "mem32 s' (osRtxThreadRegPtr t s5) = osOK"
      "map (msg_content mq s') Q' = msg_ins (ucast (arg3 s5 t), bytes s5 (arg2 s5 t) (mq_msg_size s5 mq)) (map (msg_content mq s5) Q0)"
      "\<forall>x. x \<notin> area (msg_data m) (mq_msg_size s5 mq) \<longrightarrow> mem8 s' x = mem8 s5 x"
      using mq_admit_kinv [OF B(1) [OF k4] _ ob5 L s5(3) B(13) insertI1 G(4), of True] st5 by blast
    have tt: "t \<in> thrs s" using kst_list_sub [OF kinvD(1) [OF k], of mq] L by simp
    have arg: "osRtxThreadRegPtr t s5 = osRtxThreadRegPtr t s" "arg2 s5 t = arg2 s t" "arg3 s5 t = arg3 s t"
    proof -
      have nb: "osRtxThreadRegPtr t s + 8 \<notin> set (mq_blocks mq s)" "osRtxThreadRegPtr t s + 12 \<notin> set (mq_blocks mq s)"
        using S(4) tt by (auto simp: mq_apart_def)
      show "osRtxThreadRegPtr t s5 = osRtxThreadRegPtr t s" using A(12) B(12) by simp
      then show "arg2 s5 t = arg2 s t" "arg3 s5 t = arg3 s t" using A(18) [OF nb(1)] A(18) [OF nb(2)] s5(6) by simp_all
    qed
    have sz: "mq_msg_size s5 mq = mq_msg_size s mq" using A(15) B(15) by simp
    have by5: "bytes s5 (arg2 s t) (mq_msg_size s mq) = bytes s (arg2 s t) (mq_msg_size s mq)"
    proof (rule bytes_cong)
      fix x assume "x \<in> area (arg2 s t) (mq_msg_size s mq)"
      then have "x \<notin> buf_area s mq dst pp" using ws L Cons by auto
      then show "mem8 s5 x = mem8 s x" using C(6) s5(5) by simp
    qed
    have ct: "map (msg_content mq s') Q' = msg_ins (ucast (arg3 s t), bytes s (arg2 s t) (mq_msg_size s mq)) (map (msg_content mq s) Q0)"
      using s'(12) unfolding arg(2,3) sz by5 s5(7) C(3) .
    have el: "exit_lists s5 t True (L(mq := ts)) = exit_lists s t True (L(mq := ts))" "exit_run s5 t True = (if preempts s t then t else run_next s)"
      using A B by (simp_all add: exit_lists_def disp_lists_def ready_put_def ready_push_def preempts_def exit_run_def disp_run_def)
    have m8: "mem8 s' x = mem8 s4 x" if "x \<in> buf_area s mq dst pp" for x
      using s'(13) dd [OF that] s5(5) unfolding sz by simp
    have dst': "bytes s' dst (mq_msg_size s mq) = snd (msg_content mq s m)"
    proof -
      have "bytes s' dst (mq_msg_size s mq) = bytes s4 dst (mq_msg_size s mq)"
        by (rule bytes_cong) (simp add: m8 buf_area_def)
      then show ?thesis using C(4) by (simp add: msg_content_def)
    qed
    have pp': "pp \<noteq> NULL \<longrightarrow> mem8 s' pp = fst (msg_content mq s m)"
      using m8 [of pp] C(5) by (simp add: msg_content_def buf_area_def)
    have "svcRtxMessageQueueGet mq dst pp timeout s = Some (osOK, s')" using op mw s5(1,2) s'(1) by simp
    moreover have "mq_state mq s' (exit_lists s t True (L(mq := ts))) [] Q'"
    proof -
      have "o_state s' u = osRtxThreadWaitingMessagePut" if u: "u \<in> set ts" for u
      proof -
        have "distinct (t # ts)" using tl_invD(2) [OF kstD(1) [OF kinvD(1) [OF k]], of mq] L by simp
        then have ut: "u \<noteq> t" using u by auto
        have t0: "t \<noteq> NULL" using in_thrs [OF tt] by blast
        have "u \<noteq> run_curr s5" using waiter_not_running(1) [where ob = mq, OF k st S(8), of u] L u A(6) B(6) by simp
        then have "o_state s6 u = o_state s5 u" using wake_first_state [OF s'(2) t0 ut] by blast
        then show ?thesis using mq_frameD(9) [OF s'(4,5)] A(9) B(9) w(1) L u by simp
      qed
      then have "mq_waiters s' (exit_lists s t True (L(mq := ts)) mq) [] Q'" using L S(8) by (simp add: mq_waiters_def)
      moreover have "o_id s' mq = osRtxIdMessageQueue"
        using mq_frameD(17) [OF s'(4,5), of mq] sched_frame_objs [OF s'(3)] ob5(1) sched_frameD(1) [OF s'(3)]
          B(17) [of mq] ob4(1) id4 by simp
      moreover have "Q' \<noteq> []" using s'(10) by auto
      ultimately show ?thesis using S(1) s'(8,9,10) by (simp add: mq_state_def)
    qed
    moreover have "kinv s' (exit_lists s t True (L(mq := ts))) (remove1 t D) (remove1 t W)" using s'(6) el(1) by simp
    ultimately show ?thesis using s'(7,11) el(2) arg(1) ct dst' pp' Cons L
      by (intro exI [of _ osOK] exI [of _ s'] exI [of _ "exit_lists s t True (L(mq := ts))"] exI [of _ "remove1 t D"]
          exI [of _ "remove1 t W"] exI [of _ "[]"] exI [of _ Q']) (simp add: get_result_def)
  qed
next
  case Nil
  note S = mq_stateD [OF q k]
  have gn: "MessageQueueGet mq s = Some (NULL, s)" by (rule MessageQueueGet_none [OF mq_relD(2) [OF S(3)]]) (simp add: Nil)
  show ?thesis
  proof (cases "timeout \<noteq> 0 \<and> can_wait s L")
    case True
    have "osRtxThreadWaitingMessageGet = osRtxThreadWaitingMessageGet \<and> Q = [] \<or> osRtxThreadWaitingMessageGet = osRtxThreadWaitingMessagePut \<and> F = []"
      using Nil by simp
    from mq_wait_kinv [OF k st q ao [OF Nil] _ _ this, of timeout dst pp] True obtain s1 D' W' where
      s1: "wait_on mq osRtxThreadWaitingMessageGet timeout s = Some (True, s1)"
      "kinv (save_args dst pp s1) (wait_lists s mq (run_curr s) L) D' W'"
      "mq_state mq (save_args dst pp s1) (wait_lists s mq (run_curr s) L) F Q"
      "wait_dl s (run_curr s) timeout D W (save_args dst pp s1) D' W'" "run_next s1 = hd (L (ready_obj s))"
      "o_state s1 (run_curr s) = osRtxThreadWaitingMessageGet"
      "mem32 (save_args dst pp s1) = (mem32 s)(psp s + 8 := dst, psp s + 12 := pp)" by blast
    have "svcRtxMessageQueueGet mq dst pp timeout s = Some (osErrorTimeout, save_args dst pp s1)"
      using S(1,2) dst gn True s1(1) by (simp add: svcRtxMessageQueueGet_def)
    moreover have "run_next (save_args dst pp s1) = run_next s1" "o_state (save_args dst pp s1) = o_state s1"
      by (simp_all add: save_args_def)
    ultimately show ?thesis using s1 True Nil
      by (intro exI [of _ osErrorTimeout] exI [of _ "save_args dst pp s1"] exI [of _ "wait_lists s mq (run_curr s) L"]
          exI [of _ D'] exI [of _ W'] exI [of _ F] exI [of _ "[]"]) (simp add: get_result_def)
  next
    case False
    have "wait_on mq osRtxThreadWaitingMessageGet timeout s = Some (False, s)" if "timeout \<noteq> 0"
      by (rule wait_on_fail [OF k]) (use that False in \<open>auto simp: can_wait_def\<close>)
    then have "svcRtxMessageQueueGet mq dst pp timeout s = Some (if timeout = 0 then osErrorResource else osErrorTimeout, s)"
      using S(1,2) dst gn by (simp add: svcRtxMessageQueueGet_def)
    then show ?thesis using k q False Nil
      by (intro exI [of _ "if timeout = 0 then osErrorResource else osErrorTimeout"] exI [of _ s] exI [of _ L] exI [of _ D]
          exI [of _ W] exI [of _ F] exI [of _ "[]"]) (auto simp: get_result_def)
  qed
qed

section \<open>Properties\<close>

text \<open>C34: putting a message returns on every branch and keeps the kernel invariant and the queue.  With a free block and a waiting
  receiver, the first receiver gets the bytes and the priority at once and preempts the caller if its priority is higher; with a free
  block and no receiver, the message is inserted behind those of at least its priority; into a full queue a call without a timeout
  changes nothing, and one with a timeout queues the running thread as a sender.  Receivers wait only while the queue is empty, senders
  only while it is full.\<close>

theorem message_queue_put:
  assumes "kinv s L D W" "stable s" "mq_state mq s L F Q" "src \<noteq> NULL" "F = [] \<Longrightarrow> args_ok mq s"
  shows "\<exists>r s' L' D' W' F' Q'. svcRtxMessageQueuePut mq src p timeout s = Some (r, s') \<and> kinv s' L' D' W' \<and> mq_state mq s' L' F' Q' \<and>
     (case F of
        b # F0 \<Rightarrow>
          (case L mq of
             t # ts \<Rightarrow> r = osOK \<and> F' = F \<and> Q' = [] \<and> L' = exit_lists s t True (L(mq := ts)) \<and> D' = remove1 t D \<and> W' = remove1 t W \<and>
               run_next s' = (if preempts s t then t else run_next s) \<and>
               got_message s s' t (mq_msg_size s mq) (p, bytes s src (mq_msg_size s mq))
           | [] \<Rightarrow> r = osOK \<and> F' = F0 \<and> map (msg_content mq s') Q' = msg_ins (p, bytes s src (mq_msg_size s mq)) (map (msg_content mq s) Q) \<and>
               L' = L \<and> D' = D \<and> W' = W \<and> run_next s' = run_next s)
      | [] \<Rightarrow> F' = [] \<and> Q' = Q \<and> map (msg_content mq s') Q = map (msg_content mq s) Q \<and>
          (if timeout \<noteq> 0 \<and> can_wait s L then r = osErrorTimeout \<and> L' = wait_lists s mq (run_curr s) L \<and>
             wait_dl s (run_curr s) timeout D W s' D' W' \<and> run_next s' = hd (L (ready_obj s)) \<and>
             o_state s' (run_curr s) = osRtxThreadWaitingMessagePut \<and>
             mem32 s' = (mem32 s)(psp s + 8 := src, psp s + 12 := ucast p)
           else r = (if timeout = 0 then osErrorResource else osErrorTimeout) \<and> s' = s))"
  by (rule message_put_lemma [OF assms, unfolded put_result_def])

text \<open>C35: getting a message returns on every branch and keeps the kernel invariant and the queue.  The first message is copied out with
  its priority; with a waiting sender, the block is reused at once for the first sender's message, which is inserted by its priority,
  and the sender preempts the caller if its priority is higher; from an empty queue a call without a timeout changes nothing, and
  one with a timeout queues the running thread as a receiver.\<close>

theorem message_queue_get:
  assumes "kinv s L D W" "stable s" "mq_state mq s L F Q" "dst \<noteq> NULL" "Q = [] \<Longrightarrow> args_ok mq s" "buf_ok mq s dst pp"
    and "L mq \<noteq> [] \<Longrightarrow> Q \<noteq> [] \<Longrightarrow> area (arg2 s (hd (L mq))) (mq_msg_size s mq) \<inter> buf_area s mq dst pp = {}"
  shows "\<exists>r s' L' D' W' F' Q'. svcRtxMessageQueueGet mq dst pp timeout s = Some (r, s') \<and> kinv s' L' D' W' \<and> mq_state mq s' L' F' Q' \<and>
     (case Q of
        m # Q0 \<Rightarrow> r = osOK \<and> bytes s' dst (mq_msg_size s mq) = snd (msg_content mq s m) \<and>
          (pp \<noteq> NULL \<longrightarrow> mem8 s' pp = fst (msg_content mq s m)) \<and>
          (case L mq of
             t # ts \<Rightarrow> F' = [] \<and> L' = exit_lists s t True (L(mq := ts)) \<and> D' = remove1 t D \<and> W' = remove1 t W \<and>
               run_next s' = (if preempts s t then t else run_next s) \<and> mem32 s' (osRtxThreadRegPtr t s) = osOK \<and>
               map (msg_content mq s') Q' =
                 msg_ins (ucast (arg3 s t), bytes s (arg2 s t) (mq_msg_size s mq)) (map (msg_content mq s) Q0)
           | [] \<Rightarrow> F' = m # F \<and> Q' = Q0 \<and> map (msg_content mq s') Q' = map (msg_content mq s) Q0 \<and>
               L' = L \<and> D' = D \<and> W' = W \<and> run_next s' = run_next s)
      | [] \<Rightarrow> F' = F \<and> Q' = [] \<and>
          (if timeout \<noteq> 0 \<and> can_wait s L then r = osErrorTimeout \<and> L' = wait_lists s mq (run_curr s) L \<and>
             wait_dl s (run_curr s) timeout D W s' D' W' \<and> run_next s' = hd (L (ready_obj s)) \<and>
             o_state s' (run_curr s) = osRtxThreadWaitingMessageGet \<and>
             mem32 s' = (mem32 s)(psp s + 8 := dst, psp s + 12 := pp)
           else r = (if timeout = 0 then osErrorResource else osErrorTimeout) \<and> s' = s))"
  by (rule message_get_lemma [OF assms, unfolded get_result_def])

text \<open>C36: a message put into an empty queue and got from it comes back with the same bytes and the same priority, and the queue is
  left as it was, its blocks in the same order.\<close>

theorem message_queue_round_trip:
  assumes "kinv s L D W" "stable s" "mq_state mq s L (b # F) []" "L mq = []" "src \<noteq> NULL" "dst \<noteq> NULL" "buf_ok mq s dst pp"
  shows "\<exists>s' s''. svcRtxMessageQueuePut mq src p t1 s = Some (osOK, s') \<and> svcRtxMessageQueueGet mq dst pp t2 s' = Some (osOK, s'') \<and>
    bytes s'' dst (mq_msg_size s mq) = bytes s src (mq_msg_size s mq) \<and> (pp \<noteq> NULL \<longrightarrow> mem8 s'' pp = p) \<and>
    kinv s'' L D W \<and> mq_state mq s'' L (b # F) []"
proof -
  note S = mq_stateD [OF assms(3,1)]
  obtain s' Q' where s': "svcRtxMessageQueuePut mq src p t1 s = Some (osOK, s')" "mq_frame mq s s'" "mq_state mq s' L F Q'" "set Q' = {b}"
    "map (msg_content mq s') Q' = [(p, bytes s src (mq_msg_size s mq))]"
    using message_put_free [OF assms(1,3,4,5), of p t1] by (auto simp: msg_ins_def)
  note A = mq_frameD [OF s'(2) S(4)]
  have k': "kinv s' L D W" "stable s'" using A(1) [OF assms(1)] A(2) assms(2) by simp_all
  have Q': "Q' = [b]" using s'(4,5) by (cases Q') auto
  have bo: "buf_ok mq s' dst pp" using assms(7) A(14,15) by (simp add: buf_ok_def buf_area_def mq_data_def)
  have e: "msg_content mq s' b = (p, bytes s src (mq_msg_size s mq))" using s'(5) Q' by simp
  obtain s'' where "svcRtxMessageQueueGet mq dst pp t2 s' = Some (osOK, s'')" "kinv s'' L D W" "mq_state mq s'' L (b # F) []"
    "bytes s'' dst (mq_msg_size s' mq) = snd (msg_content mq s' b)" "pp \<noteq> NULL \<longrightarrow> mem8 s'' pp = fst (msg_content mq s' b)"
    using message_get_lemma [OF k' s'(3) assms(6) _ bo, of t2] assms(4) Q' unfolding get_result_def by auto
  then show ?thesis using s'(1) e A(15) by auto
qed

section \<open>Concrete queues\<close>

text \<open>
  Queues of two messages of four bytes: an empty one on which \<open>0x300\<close> waits for a message; a full one on which it
  waits to send; and an empty one without waiters.
\<close>

definition mq_fields :: "addr \<Rightarrow> rtx \<Rightarrow> rtx" where
  "mq_fields mq s = s\<lparr>mp_max_blocks := (\<lambda>_. 0)(mp_info_of mq := 2), mp_block_size := (\<lambda>_. 0)(mp_info_of mq := 16),
     mp_block_base := (\<lambda>_. 0)(mp_info_of mq := 0x9000), mp_block_lim := (\<lambda>_. 0)(mp_info_of mq := 0x9020),
     mp_block_free := (\<lambda>_. 0)(mp_info_of mq := 0x9000), mp_used_blocks := (\<lambda>_. 0), mq_msg_size := (\<lambda>_. 0)(mq := 4), mem8 := ucast,
     mem32 := (mem32 s)(0x3128 := 0x8000, 0x312C := 0x8010, 0x9000 := 0x9010)\<rparr>"

definition demo_recv :: rtx where
  "demo_recv = mq_fields 0x700 (demo_on osRtxIdMessageQueue osRtxThreadWaitingMessageGet)"

definition demo_send :: rtx where
  "demo_send = (mq_fields 0x700 (demo_on osRtxIdMessageQueue osRtxThreadWaitingMessagePut))\<lparr>
     mp_block_free := (\<lambda>_. 0), mp_used_blocks := (\<lambda>_. 0)(0x70C := 2), msg_next := (\<lambda>_. 0)(0x9000 := 0x9010),
     msg_prev := (\<lambda>_. 0)(0x9010 := 0x9000), mq_msg_first := (\<lambda>_. 0)(0x700 := 0x9000), mq_msg_last := (\<lambda>_. 0)(0x700 := 0x9010),
     mq_msg_count := (\<lambda>_. 0)(0x700 := 2), msg_priority := (\<lambda>_. 0)(0x9000 := 5, 0x9010 := 2)\<rparr>"

definition demo_queue :: rtx where
  "demo_queue = mq_fields 0x500 (demo\<lparr>o_id := (o_id demo)(0x500 := osRtxIdMessageQueue)\<rparr>)"

lemma demo_mem32: "mem32 demo = (\<lambda>_. 0)(0x1000 := osRtxStackMagicWord, 0x2000 := osRtxStackMagicWord, 0x3000 := osRtxStackMagicWord)"
  "t_stack_mem demo = (\<lambda>_. 0)(0x100 := 0x1000, 0x200 := 0x2000, 0x300 := 0x3000)"
  "t_sp demo = (\<lambda>_. 0)(0x100 := 0x1100, 0x200 := 0x2100, 0x300 := 0x3100)" "t_stack_frame demo = (\<lambda>_. 0)"
  by (simp_all add: demo_def rtx0_def)

lemma mq_fields_kinv:
  assumes k: "kinv s L D W" and "t_stack_mem s = t_stack_mem demo" "thrs s = {0x100, 0x200, 0x300}"
  shows "kinv (mq_fields mq s) L D W" "thrs (mq_fields mq s) = {0x100, 0x200, 0x300}" "objs (mq_fields mq s) = objs s"
    "mp_info_of mq \<noteq> NULL \<Longrightarrow> mq_blocks mq (mq_fields mq s) = [0x9000, 0x9010]"
proof -
  let ?s = "s\<lparr>mem32 := (mem32 s)(0x3128 := 0x8000, 0x312C := 0x8010, 0x9000 := 0x9010)\<rparr>"
  have "kinv ?s L D W" by (rule kinv_mem [OF k]) (use assms(2,3) in \<open>auto simp: demo_mem32\<close>)
  moreover have c: "core_eq ?s (mq_fields mq s)" by (simp add: mq_fields_def core_eq_def)
  ultimately show "kinv (mq_fields mq s) L D W" by (rule core_eq_kinv [rotated])
  show "thrs (mq_fields mq s) = {0x100, 0x200, 0x300}" "objs (mq_fields mq s) = objs s"
    using assms(3) by (simp_all add: mq_fields_def thrs_def objs_def)
  show "mq_blocks mq (mq_fields mq s) = [0x9000, 0x9010]" by (simp add: mq_fields_def pool_blocks_def upt_rec)
qed

lemma demo_apart:
  assumes "mq_blocks mq s = [0x9000, 0x9010]" "thrs s = {0x100, 0x200, 0x300}" "objs s \<subseteq> {0x10, 0x700, 0x400, 0x500, 0x600}"
    "t_stack_mem s = t_stack_mem demo" "t_sp s = t_sp demo" "t_stack_frame s = t_stack_frame demo"
  shows "mq_apart mq s"
  unfolding mq_apart_def assms(1,2)
  using assms(3-6) by (auto simp: demo_mem32 osRtxThreadRegPtr_def StackOffsetR0_def)

lemma demo_recv_state:
  "kinv demo_recv demo_on_lists [0x300] []" "mq_state 0x700 demo_recv demo_on_lists [0x9000, 0x9010] []"
proof -
  let ?s = "demo_on osRtxIdMessageQueue osRtxThreadWaitingMessageGet"
  have k: "kinv ?s demo_on_lists [0x300] []" by (rule demo_on_kinv) (simp_all add: has_thread_list_def is_blocked_def)
  have th: "thrs ?s = {0x100, 0x200, 0x300}" by (rule demo_on_thrs) simp_all
  have sm: "t_stack_mem ?s = t_stack_mem demo" by (simp add: demo_on_def)
  note M = mq_fields_kinv [OF k sm th, of "0x700", folded demo_recv_def]
  show "kinv demo_recv demo_on_lists [0x300] []" by (rule M(1))
  have mi: "mp_info_of 0x700 = 0x70C" by simp
  have bl: "mq_blocks 0x700 demo_recv = [0x9000, 0x9010]" using M(4) by simp
  have "pool_rel (mp_info_of 0x700) demo_recv [0x9000, 0x9010] {}"
    unfolding pool_rel_def bl by (simp add: demo_recv_def mq_fields_def pool_fits_def demo_on_def demo_mem32)
  moreover have "mq_list demo_recv 0x700 []" by (simp add: demo_recv_def mq_fields_def mq_list_def demo_on_def demo_def rtx0_def)
  moreover have "mq_apart 0x700 demo_recv"
    by (rule demo_apart [OF bl M(2)]) (use M(3) demo_on_objs [of osRtxIdMessageQueue] in
      \<open>simp_all add: has_thread_list_def demo_recv_def mq_fields_def demo_on_def\<close>)
  moreover have "o_state demo_recv 0x300 = osRtxThreadWaitingMessageGet" "o_id demo_recv 0x700 = osRtxIdMessageQueue"
    "12 + unat (mq_msg_size demo_recv 0x700) \<le> unat (mp_block_size demo_recv (mp_info_of 0x700))"
    by (simp_all add: demo_recv_def mq_fields_def demo_on_def)
  ultimately show "mq_state 0x700 demo_recv demo_on_lists [0x9000, 0x9010] []"
    by (simp add: mq_state_def mq_rel_def mq_waiters_def)
qed

lemma demo_send_state:
  "kinv demo_send demo_on_lists [0x300] []" "mq_state 0x700 demo_send demo_on_lists [] [0x9000, 0x9010]"
proof -
  let ?s = "demo_on osRtxIdMessageQueue osRtxThreadWaitingMessagePut"
  have k: "kinv ?s demo_on_lists [0x300] []" by (rule demo_on_kinv) (simp_all add: has_thread_list_def is_blocked_def)
  have th: "thrs ?s = {0x100, 0x200, 0x300}" by (rule demo_on_thrs) simp_all
  have sm: "t_stack_mem ?s = t_stack_mem demo" by (simp add: demo_on_def)
  note M = mq_fields_kinv [OF k sm th, of "0x700"]
  have c: "core_eq (mq_fields 0x700 ?s) demo_send" by (simp add: demo_send_def core_eq_def)
  show "kinv demo_send demo_on_lists [0x300] []" by (rule core_eq_kinv [OF c M(1)])
  have bl: "mq_blocks 0x700 demo_send = [0x9000, 0x9010]" using M(4) by (simp add: demo_send_def)
  have th': "thrs demo_send = {0x100, 0x200, 0x300}" "objs demo_send = objs ?s" using core_eqD(2,3) [OF c] M(2,3) by simp_all
  have "pool_rel (mp_info_of 0x700) demo_send [] {0x9000, 0x9010}"
    unfolding pool_rel_def bl by (simp add: demo_send_def mq_fields_def pool_fits_def)
  moreover have "mq_list demo_send 0x700 [0x9000, 0x9010]"
    by (simp add: demo_send_def mq_fields_def mq_list_def demo_on_def demo_def rtx0_def)
  moreover have "mq_apart 0x700 demo_send"
    by (rule demo_apart [OF bl th'(1)]) (use th'(2) demo_on_objs [of osRtxIdMessageQueue] in
      \<open>simp_all add: has_thread_list_def demo_send_def mq_fields_def demo_on_def\<close>)
  moreover have "o_state demo_send 0x300 = osRtxThreadWaitingMessagePut" "o_id demo_send 0x700 = osRtxIdMessageQueue" "o_flags demo_send = (\<lambda>_. 0)"
    "12 + unat (mq_msg_size demo_send 0x700) \<le> unat (mp_block_size demo_send (mp_info_of 0x700))"
    by (simp_all add: demo_send_def mq_fields_def demo_on_def demo_def rtx0_def)
  ultimately show "mq_state 0x700 demo_send demo_on_lists [] [0x9000, 0x9010]"
    by (simp add: mq_state_def mq_rel_def mq_waiters_def)
qed

lemma demo_queue_state:
  "kinv demo_queue demo_lists [0x300] []" "mq_state 0x500 demo_queue demo_lists [0x9000, 0x9010] []"
proof -
  let ?s = "demo\<lparr>o_id := (o_id demo)(0x500 := osRtxIdMessageQueue)\<rparr>"
  have th: "thrs ?s = thrs demo" by (auto simp: thrs_def demo_def split: if_splits)
  have ob: "objs ?s = objs demo" by (auto simp: objs_def has_thread_list_def demo_def rtx0_def split: if_splits)
  have k: "kinv ?s demo_lists [0x300] []"
  proof -
    have "part_ok ?s demo_lists {0x300} {}" using kstD(2) [OF demo_kst] part_ok_cong [of ?s demo] th by simp
    moreover have "stacks_ok ?s" using kstD(4) [OF demo_kst] stacks_ok_cong [of ?s demo] th by simp
    ultimately have "kst ?s demo_lists {0x300} {}" using demo_kst unfolding kst_def th ob by simp
    then show ?thesis using demo_kinv by (simp add: kinv_def dl_inv_def)
  qed
  have th3: "thrs ?s = {0x100, 0x200, 0x300}" using th demo_thrs by simp
  have sm: "t_stack_mem ?s = t_stack_mem demo" by simp
  note M = mq_fields_kinv [OF k sm th3, of "0x500", folded demo_queue_def]
  show "kinv demo_queue demo_lists [0x300] []" by (rule M(1))
  have mi: "mp_info_of 0x500 = 0x50C" by (simp add: mp_info_of_def)
  have bl: "mq_blocks 0x500 demo_queue = [0x9000, 0x9010]" using M(4) mi by simp
  have "pool_rel (mp_info_of 0x500) demo_queue [0x9000, 0x9010] {}"
    unfolding pool_rel_def bl by (simp add: demo_queue_def mq_fields_def mi pool_fits_def demo_mem32)
  moreover have "mq_list demo_queue 0x500 []" by (simp add: demo_queue_def mq_fields_def mq_list_def demo_def rtx0_def)
  moreover have "mq_apart 0x500 demo_queue"
    by (rule demo_apart [OF bl M(2)]) (use M(3) ob demo_objs in \<open>simp_all add: demo_queue_def mq_fields_def\<close>)
  moreover have "o_id demo_queue 0x500 = osRtxIdMessageQueue" "demo_lists 0x500 = []"
    "12 + unat (mq_msg_size demo_queue 0x500) \<le> unat (mp_block_size demo_queue (mp_info_of 0x500))"
    by (simp_all add: demo_queue_def mq_fields_def demo_lists_def)
  ultimately show "mq_state 0x500 demo_queue demo_lists [0x9000, 0x9010] []"
    by (simp add: mq_state_def mq_rel_def mq_waiters_def)
qed

lemma demo_mq_simps [simp]:
  "stable demo_recv" "stable demo_send" "stable demo_queue" "ready_obj demo_recv = 0x10" "ready_obj demo_send = 0x10"
  "mq_msg_size demo_recv 0x700 = 4" "mq_msg_size demo_send 0x700 = 4" "mq_msg_size demo_queue 0x500 = 4"
  "preempts demo_recv 0x300" "preempts demo_send 0x300" "mem8 demo_recv = ucast" "mem8 demo_send = ucast" "mem8 demo_queue = ucast"
  "osRtxThreadRegPtr 0x300 demo_recv = 0x3120" "osRtxThreadRegPtr 0x300 demo_send = 0x3120"
  "mem32 demo_recv 0x3128 = 0x8000" "mem32 demo_recv 0x312C = 0x8010" "mem32 demo_send 0x3128 = 0x8000" "mem32 demo_send 0x312C = 0x8010"
  "msg_priority demo_send 0x9000 = 5" "msg_priority demo_send 0x9010 = 2"
proof -
  have e: "core_eq (demo_on i st\<lparr>mem32 := mem32 (mq_fields mq (demo_on i st))\<rparr>) (mq_fields mq (demo_on i st))" for mq i st
    by (simp add: mq_fields_def core_eq_def)
  show "stable demo_recv" "stable demo_send" "stable demo_queue" "ready_obj demo_recv = 0x10" "ready_obj demo_send = 0x10"
    "mq_msg_size demo_recv 0x700 = 4" "mq_msg_size demo_send 0x700 = 4" "mq_msg_size demo_queue 0x500 = 4"
    "preempts demo_recv 0x300" "preempts demo_send 0x300" "mem8 demo_recv = ucast" "mem8 demo_send = ucast" "mem8 demo_queue = ucast"
    "mem32 demo_recv 0x3128 = 0x8000" "mem32 demo_recv 0x312C = 0x8010" "mem32 demo_send 0x3128 = 0x8000" "mem32 demo_send 0x312C = 0x8010"
    "msg_priority demo_send 0x9000 = 5" "msg_priority demo_send 0x9010 = 2"
    by (simp_all add: demo_recv_def demo_send_def demo_queue_def mq_fields_def preempts_def stable_def)
  show "osRtxThreadRegPtr 0x300 demo_recv = 0x3120" "osRtxThreadRegPtr 0x300 demo_send = 0x3120"
    by (simp_all add: demo_recv_def demo_send_def mq_fields_def osRtxThreadRegPtr_def StackOffsetR0_def demo_on_def demo_mem32)
qed

theorem message_queue_put_witness:
  "\<exists>s' L' D' W'. svcRtxMessageQueuePut 0x700 0xA000 9 0 demo_recv = Some (osOK, s') \<and> kinv s' L' D' W' \<and> run_next s' = 0x300 \<and>
     bytes s' 0x8000 4 = [0, 1, 2, 3] \<and> mem8 s' 0x8010 = 9 \<and> mem32 s' 0x3120 = osOK"
proof -
  have b: "bytes demo_recv 0xA000 4 = [0, 1, 2, 3]" by (simp add: bytes_def upt_rec)
  show ?thesis
    using message_queue_put [OF demo_recv_state(1) _ demo_recv_state(2), of "0xA000" 9 0]
    by (simp add: got_message_def b area_def) blast
qed

theorem message_queue_get_witness:
  "\<exists>s' L' D' W' Q'. svcRtxMessageQueueGet 0x700 0xA000 0xA010 0 demo_send = Some (osOK, s') \<and> kinv s' L' D' W' \<and> run_next s' = 0x300 \<and>
     bytes s' 0xA000 4 = [12, 13, 14, 15] \<and> mem8 s' 0xA010 = 5 \<and>
     map (msg_content 0x700 s') Q' = [(16, [0, 1, 2, 3]), (2, [28, 29, 30, 31])]"
proof -
  have b: "bytes demo_send 0x8000 4 = [0, 1, 2, 3]" "msg_content 0x700 demo_send 0x9000 = (5, [12, 13, 14, 15])"
    "msg_content 0x700 demo_send 0x9010 = (2, [28, 29, 30, 31])"
    by (simp_all add: bytes_def msg_content_def msg_data_def upt_rec)
  have bl: "mq_blocks 0x700 demo_send = [0x9000, 0x9010]"
    by (simp add: demo_send_def mq_fields_def pool_blocks_def upt_rec)
  have bo: "buf_ok 0x700 demo_send 0xA000 0xA010"
    unfolding buf_ok_def buf_area_def mq_data_def bl
    by (simp add: msg_data_def area_disjoint area_out Int_Un_distrib Int_Un_distrib2)
  have ws: "area 0x8000 4 \<inter> buf_area demo_send 0x700 0xA000 0xA010 = {}"
    unfolding buf_area_def by (simp add: area_disjoint area_out)
  have ws2: "area (arg2 demo_send (hd (demo_on_lists 0x700))) (mq_msg_size demo_send 0x700) \<inter> buf_area demo_send 0x700 0xA000 0xA010 = {}"
    using ws by simp
  have st: "stable demo_send" "(0xA000 :: addr) \<noteq> NULL" "[0x9000, 0x9010 :: addr] = [] \<Longrightarrow> args_ok 0x700 demo_send" by simp_all
  obtain r s' L' D' W' F' Q' where s': "svcRtxMessageQueueGet 0x700 0xA000 0xA010 0 demo_send = Some (r, s')" "kinv s' L' D' W'" "r = osOK"
    "bytes s' 0xA000 (mq_msg_size demo_send 0x700) = snd (msg_content 0x700 demo_send 0x9000)"
    "mem8 s' 0xA010 = fst (msg_content 0x700 demo_send 0x9000)" "run_next s' = (if preempts demo_send 0x300 then 0x300 else run_next demo_send)"
    "map (msg_content 0x700 s') Q' = msg_ins (ucast (arg3 demo_send 0x300), bytes demo_send (arg2 demo_send 0x300) (mq_msg_size demo_send 0x700))
       (map (msg_content 0x700 demo_send) [0x9010])"
    using message_queue_get [OF demo_send_state(1) st(1) demo_send_state(2) st(2,3) bo ws2, where timeout = 0] by auto
  have c: "map (msg_content 0x700 s') Q' = [(16, [0, 1, 2, 3]), (2, [28, 29, 30, 31])]"
    unfolding s'(7) by (simp add: b msg_ins_def ins_after_Cons)
  have w: "svcRtxMessageQueueGet 0x700 0xA000 0xA010 0 demo_send = Some (osOK, s')" "run_next s' = 0x300"
    "bytes s' 0xA000 4 = [12, 13, 14, 15]" "mem8 s' 0xA010 = 5" using s'(1,3-6) by (simp_all add: b)
  show ?thesis by (intro exI conjI) (rule w(1), rule s'(2), rule w(2), rule w(3), rule w(4), rule c)
qed

theorem message_queue_round_trip_witness:
  "\<exists>s' s''. svcRtxMessageQueuePut 0x500 0xA000 9 0 demo_queue = Some (osOK, s') \<and>
     svcRtxMessageQueueGet 0x500 0xB000 0xB010 0 s' = Some (osOK, s'') \<and> bytes s'' 0xB000 4 = [0, 1, 2, 3] \<and> mem8 s'' 0xB010 = 9"
proof -
  have b: "bytes demo_queue 0xA000 4 = [0, 1, 2, 3]" by (simp add: bytes_def upt_rec)
  have bl: "mq_blocks 0x500 demo_queue = [0x9000, 0x9010]"
    by (simp add: demo_queue_def mq_fields_def mp_info_of_def pool_blocks_def upt_rec)
  have bo: "buf_ok 0x500 demo_queue 0xB000 0xB010"
    unfolding buf_ok_def buf_area_def mq_data_def bl
    by (simp add: msg_data_def area_disjoint area_out Int_Un_distrib Int_Un_distrib2)
  have "demo_lists 0x500 = []" by (simp add: demo_lists_def)
  then show ?thesis
    using message_queue_round_trip [OF demo_queue_state(1) _ demo_queue_state(2) _ _ _ bo, of "0xA000" 9 0 0] b by auto
qed

end
