(* ===== verification/MemSpec.thy ===== *)
theory MemSpec
  imports Memory PoolSpec
begin

text \<open>
  What the allocator of variable-size blocks (\<open>rtx_memory.c\<close>) promises.  The abstract state of a memory
  pool is the sequence of its blocks, each an address and a length; allocation is first fit into the holes
  between them.  The first block is always there, with the length 0 while it is not allocated.
\<close>

section \<open>The abstract allocator\<close>

type_synonym region = "addr \<times> u32"

definition next_addr :: "region list \<Rightarrow> addr \<Rightarrow> addr" where
  "next_addr R e = (case R of [] \<Rightarrow> e | r # _ \<Rightarrow> fst r)"

lemma next_addr_simps [simp]: "next_addr [] e = e" "next_addr (r # R) e = fst r"
  by (simp_all add: next_addr_def)

lemma next_addr_append: "next_addr (xs @ ys) e = next_addr xs (next_addr ys e)"
  by (cases xs) simp_all

fun first_fit :: "addr \<Rightarrow> u32 \<Rightarrow> region list \<Rightarrow> (addr \<times> region list) option" where
  "first_fit e n [] = None"
| "first_fit e n ((a, l) # R) =
     (if unat a + unat l + unat n \<le> unat (next_addr R e) then
        (if l = 0 then Some (a, (a, n) # R) else Some (a + l, (a, l) # (a + l, n) # R))
      else map_option (\<lambda>(x, R'). (x, (a, l) # R')) (first_fit e n R))"

fun release :: "addr \<Rightarrow> region list \<Rightarrow> region list" where
  "release x [] = []"
| "release x ((a, l) # R) = (if x = a then (a, 0) # R else (a, l) # filter (\<lambda>r. fst r \<noteq> x) R)"

text \<open>The blocks do not overlap, and the last one ends before \<open>e\<close>; a block header takes eight bytes.\<close>

fun laid :: "region list \<Rightarrow> addr \<Rightarrow> bool" where
  "laid [] e \<longleftrightarrow> True"
| "laid ((a, l) # R) e \<longleftrightarrow> unat a + max 8 (unat l) \<le> unat (next_addr R e) \<and> laid R e"

lemma laid_append: "laid (xs @ ys) e \<longleftrightarrow> laid xs (next_addr ys e) \<and> laid ys e"
  by (induction xs) (auto simp: next_addr_append)

lemma laid_bounds: "laid R e \<Longrightarrow> r \<in> set R \<Longrightarrow> unat (next_addr R e) \<le> unat (fst r) \<and> unat (fst r) + max 8 (unat (snd r)) \<le> unat e"
proof (induction R)
  case (Cons x R)
  obtain a l where x: "x = (a, l)" by (cases x)
  have "unat (next_addr R e) \<le> unat e" if "laid R e"
    using that by (induction R) (auto split: prod.splits)
  then show ?case using Cons x by (cases "r = x") fastforce+
qed simp

text \<open>Two blocks are the same or apart.\<close>

lemma laid_order:
  "laid R e \<Longrightarrow> (a, l) \<in> set R \<Longrightarrow> (b, k) \<in> set R \<Longrightarrow>
   a = b \<or> unat a + max 8 (unat l) \<le> unat b \<or> unat b + max 8 (unat k) \<le> unat a"
proof (induction R)
  case (Cons r R)
  have "laid R e" "unat (fst r) + max 8 (unat (snd r)) \<le> unat (next_addr R e)" using Cons.prems(1) by (cases r; simp)+
  then show ?case using Cons.IH Cons.prems(2,3) laid_bounds [of R e "(a, l)"] laid_bounds [of R e "(b, k)"] by fastforce
qed simp

text \<open>The sequence \<open>R'\<close> has a new block of \<open>n\<close> bytes at \<open>x\<close>, in the hole behind the block \<open>a\<close>.\<close>

definition placed :: "addr \<Rightarrow> u32 \<Rightarrow> region list \<Rightarrow> addr \<Rightarrow> region list \<Rightarrow> addr \<Rightarrow> bool" where
  "placed e n R x R' a \<longleftrightarrow> (\<exists>xs l ys. R = xs @ (a, l) # ys \<and> unat a + unat l + unat n \<le> unat (next_addr ys e) \<and>
     (if l = 0 then x = a \<and> R' = xs @ (a, n) # ys else x = a + l \<and> R' = xs @ (a, l) # (a + l, n) # ys))"

lemma placed_here: "first_fit e n ((a, l) # R) = Some (x, R') \<Longrightarrow> unat a + unat l + unat n \<le> unat (next_addr R e) \<Longrightarrow>
    placed e n ((a, l) # R) x R' a"
  unfolding placed_def by (rule exI [of _ "[]"], rule exI [of _ l], rule exI [of _ R]) (auto split: if_splits)

lemma placed_later: "placed e n R x R' b \<Longrightarrow> placed e n (r # R) x (r # R') b"
proof -
  assume "placed e n R x R' b"
  then obtain xs l ys where "R = xs @ (b, l) # ys" "unat b + unat l + unat n \<le> unat (next_addr ys e)"
    "if l = 0 then x = b \<and> R' = xs @ (b, n) # ys else x = b + l \<and> R' = xs @ (b, l) # (b + l, n) # ys"
    unfolding placed_def by blast
  then show ?thesis
    unfolding placed_def by (intro exI [of _ "r # xs"] exI [of _ l] exI [of _ ys]) (auto split: if_splits)
qed

section \<open>The memory\<close>

text \<open>A sequence of block headers: the address of the next one, and the length with the type in its two low bits.\<close>

abbreviation blk_len :: "(addr \<Rightarrow> u32) \<Rightarrow> addr \<Rightarrow> u32" where
  "blk_len m a \<equiv> m (a + 4) AND MB_INFO_LEN_MASK"

fun hdrs :: "(addr \<Rightarrow> u32) \<Rightarrow> addr \<Rightarrow> region list \<Rightarrow> addr \<Rightarrow> bool" where
  "hdrs m p [] e \<longleftrightarrow> p = e"
| "hdrs m p ((a, l) # R) e \<longleftrightarrow> p = a \<and> blk_len m a = l \<and> (l = 0 \<longrightarrow> m (a + 4) = 0) \<and> hdrs m (m a) R e"

lemma hdrs_next: "hdrs m p R e \<Longrightarrow> p = next_addr R e"
  by (cases R) auto

lemma hdrs_append: "hdrs m p (xs @ ys) e \<longleftrightarrow> hdrs m p xs (next_addr ys e) \<and> hdrs m (next_addr ys e) ys e"
proof (induction xs arbitrary: p)
  case Nil
  then show ?case using hdrs_next by auto
qed auto

lemma hdrs_cong: "(\<And>a l. (a, l) \<in> set R \<Longrightarrow> m' a = m a \<and> m' (a + 4) = m (a + 4)) \<Longrightarrow> hdrs m' p R e = hdrs m p R e"
proof (induction R arbitrary: p)
  case (Cons r R)
  obtain a l where r: "r = (a, l)" by (cases r)
  have "m' a = m a" "m' (a + 4) = m (a + 4)" using Cons.prems r by auto
  moreover have "hdrs m' q R e = hdrs m q R e" for q using Cons.IH Cons.prems by (meson list.set_intros(2))
  ultimately show ?case by (simp add: r)
qed simp

lemma hole_search:
  assumes "hdrs (mem32 s) p R e" "laid R e" "mem32 s e = NULL" "R \<noteq> []" "n \<noteq> 0"
  shows "case first_fit e n R of
      None \<Rightarrow> mem_hole_search s n p = Some None
    | Some (x, R') \<Rightarrow> \<exists>a. mem_hole_search s n p = Some (Some a) \<and> placed e n R x R' a"
  using assms
proof (induction R arbitrary: p)
  case (Cons r R)
  obtain a l where r: "r = (a, l)" by (cases r)
  have h: "p = a" "blk_len (mem32 s) a = l" "hdrs (mem32 s) (mem32 s a) R e" "laid R e" "unat a + max 8 (unat l) \<le> unat (next_addr R e)"
    using Cons.prems r by auto
  have nx: "mem32 s a = next_addr R e" using hdrs_next [OF h(3)] .
  have "l \<le> next_addr R e - a" "a \<le> next_addr R e" using h(5) by (simp_all add: word_le_nat_alt unat_sub)
  then have hole: "unat (next_addr R e - a - l) = unat (next_addr R e) - unat a - unat l" by (simp add: unat_sub word_le_nat_alt)
  have step: "mem_hole_search s n a =
      (if unat a + unat l + unat n \<le> unat (next_addr R e) then Some (Some a)
       else if mem32 s (next_addr R e) = NULL then Some None else mem_hole_search s n (next_addr R e))"
    unfolding mem_hole_search.simps [of s n a] using hole h(2,5) nx by (simp add: Let_def blk_next_def blk_info_def word_le_nat_alt) linarith
  show ?case
  proof (cases "unat a + unat l + unat n \<le> unat (next_addr R e)")
    case True
    then obtain x R' where f: "first_fit e n ((a, l) # R) = Some (x, R')" by (cases "l = 0") auto
    show ?thesis using step h(1) f placed_here [OF f True] True by (simp add: r del: first_fit.simps)
  next
    case F: False
    show ?thesis
    proof (cases R)
      case Nil
      then show ?thesis using step F Cons.prems(3) h(1) r by simp
    next
      case R: (Cons r' R1)
      obtain a' l' where r': "r' = (a', l')" by (cases r')
      have "unat a' + max 8 (unat l') \<le> unat (next_addr R1 e)" using h(4) R r' by simp
      then have "unat (next_addr R1 e) \<ge> 8" by linarith
      then have "next_addr R1 e \<noteq> NULL" by auto
      then have "mem32 s (next_addr R e) \<noteq> NULL" using h(3) R r' hdrs_next [of "mem32 s" _ R1 e] nx by auto
      then have st: "mem_hole_search s n p = mem_hole_search s n (mem32 s a)" using step F h(1) nx by simp
      have "R \<noteq> []" using R by simp
      note IH = Cons.IH [OF h(3,4) Cons.prems(3) this Cons.prems(5), folded st]
      show ?thesis
      proof (cases "first_fit e n R")
        case None
        then show ?thesis using IH F r by simp
      next
        case (Some y)
        obtain x R' where y: "y = (x, R')" by (cases y)
        obtain b where "mem_hole_search s n p = Some (Some b)" "placed e n R x R' b" using IH Some y by auto
        then show ?thesis using F r Some y placed_later by auto
      qed
    qed
  qed
qed simp

text \<open>
  \<open>mem_rel mem s R\<close>: the memory pool at \<open>mem\<close> has the blocks \<open>R\<close>; its last eight bytes are a header that ends the
  sequence and keeps the highest number of bytes that were ever used.
\<close>

abbreviation mem_end :: "addr \<Rightarrow> rtx \<Rightarrow> addr" where
  "mem_end mem s \<equiv> mem + mem32 s mem - 8"

definition mem_rel :: "addr \<Rightarrow> rtx \<Rightarrow> region list \<Rightarrow> bool" where
  "mem_rel mem s R \<longleftrightarrow> mem \<noteq> NULL \<and> unat mem + unat (mem32 s mem) < 2 ^ 32 \<and> 24 \<le> unat (mem32 s mem) \<and>
     hdrs (mem32 s) (mem + 8) R (mem_end mem s) \<and> laid R (mem_end mem s) \<and> R \<noteq> [] \<and> mem32 s (mem_end mem s) = NULL \<and>
     (\<forall>r\<in>set (tl R). snd r \<noteq> 0) \<and> (\<forall>r\<in>set R. 8 dvd unat (fst r) \<and> 8 dvd unat (snd r)) \<and>
     unat (mem32 s (mem + 4)) = 16 + (\<Sum>r\<leftarrow>R. unat (snd r)) \<and> mem32 s (mem + 4) \<le> mem32 s (mem_end mem s + 4)"

lemma mem_relD:
  assumes "mem_rel mem s R"
  shows "mem \<noteq> NULL" "unat (mem_end mem s) = unat mem + unat (mem32 s mem) - 8" "unat (mem_end mem s) + 8 < 2 ^ 32"
    "unat mem + 16 \<le> unat (mem_end mem s)" "hdrs (mem32 s) (mem + 8) R (mem_end mem s)" "laid R (mem_end mem s)" "R \<noteq> []"
    "mem32 s (mem_end mem s) = NULL" "(b, k) \<in> set R \<Longrightarrow> unat mem + 8 \<le> unat b \<and> unat b + max 8 (unat k) \<le> unat (mem_end mem s)"
    "next_addr R (mem_end mem s) = mem + 8" "unat (mem + 8) = unat mem + 8"
proof -
  note M = assms [unfolded mem_rel_def]
  show "mem \<noteq> NULL" "hdrs (mem32 s) (mem + 8) R (mem_end mem s)" "laid R (mem_end mem s)" "R \<noteq> []" "mem32 s (mem_end mem s) = NULL"
    using M by blast+
  have a: "unat (mem + mem32 s mem) = unat mem + unat (mem32 s mem)" using M by (intro unat_add_lt) simp
  then have "8 \<le> mem + mem32 s mem" using M by (simp add: word_le_nat_alt)
  then show e: "unat (mem_end mem s) = unat mem + unat (mem32 s mem) - 8" using a by (simp add: unat_sub)
  show "unat (mem_end mem s) + 8 < 2 ^ 32" "unat mem + 16 \<le> unat (mem_end mem s)" using M unfolding e by linarith+
  show n: "next_addr R (mem_end mem s) = mem + 8" using M hdrs_next by metis
  show m8: "unat (mem + 8) = unat mem + 8" by (subst unat_add_lt) (use M in simp_all)
  show "unat mem + 8 \<le> unat b \<and> unat b + max 8 (unat k) \<le> unat (mem_end mem s)" if "(b, k) \<in> set R"
  proof -
    have "laid R (mem_end mem s)" using M by blast
    then show ?thesis using laid_bounds [OF _ that] n m8 by fastforce
  qed
qed

lemma hdrs_grow:
  assumes "hdrs m p (xs @ (a, 0) # ys) e" "v AND MB_INFO_LEN_MASK = n" "n \<noteq> 0"
    and "\<And>b k. (b, k) \<in> set xs \<union> set ys \<Longrightarrow> m' b = m b \<and> m' (b + 4) = m (b + 4)" "m' a = m a" "m' (a + 4) = v"
  shows "hdrs m' p (xs @ (a, n) # ys) e"
proof -
  have "hdrs m' q xs a = hdrs m q xs a" "hdrs m' q ys e = hdrs m q ys e" for q
    by (rule hdrs_cong; use assms(4) in blast)+
  then show ?thesis using assms by (simp add: hdrs_append)
qed

lemma hdrs_insert:
  assumes "hdrs m p (xs @ (a, l) # ys) e" "v AND MB_INFO_LEN_MASK = n" "n \<noteq> 0"
    and "\<And>b k. (b, k) \<in> set xs \<union> set ys \<Longrightarrow> m' b = m b \<and> m' (b + 4) = m (b + 4)"
    and "m' a = x" "m' (a + 4) = m (a + 4)" "m' x = m a" "m' (x + 4) = v"
  shows "hdrs m' p (xs @ (a, l) # (x, n) # ys) e"
proof -
  have "hdrs m' q xs a = hdrs m q xs a" "hdrs m' q ys e = hdrs m q ys e" for q
    by (rule hdrs_cong; use assms(4) in blast)+
  then show ?thesis using assms by (simp add: hdrs_append)
qed

text \<open>The number of bytes of a block: the header and the data, rounded up.\<close>

definition blk_bytes :: "u32 \<Rightarrow> u32" where
  "blk_bytes msize = (msize + 8 + 7) AND NOT 7"

lemma unat_mod8: "unat (x :: u32) mod 8 = unat (x AND 7)"
proof -
  have "x AND 7 = take_bit 3 x" by (simp add: take_bit_eq_mask mask_eq_exp_minus_1)
  then have "unat (x AND 7) = take_bit 3 (unat x)" by (simp only: unsigned_take_bit_eq)
  then show ?thesis by (simp only: take_bit_eq_mod) simp
qed

lemma blk_bytes_props:
  assumes "msize \<noteq> 0" "unat msize + 15 < 2 ^ 32"
  shows "16 \<le> unat (blk_bytes msize)" "unat msize + 8 \<le> unat (blk_bytes msize)" "8 dvd unat (blk_bytes msize)"
    "unat (blk_bytes msize) \<le> unat msize + 15"
proof -
  let ?x = "msize + 8 + 7"
  have u: "unat ?x = unat msize + 15"
    using unat_add_lt [of msize 15] assms(2) by (simp add: add.assoc)
  have m: "unat (?x AND 7) = (unat msize + 15) mod 8" using unat_mod8 [of ?x] u by simp
  have b: "unat (blk_bytes msize) = unat msize + 15 - (unat msize + 15) mod 8"
    using unat_and_not(1) [of ?x 7] u m by (simp add: blk_bytes_def)
  have "0 < unat msize" using assms(1) by (simp add: unat_gt_0)
  then show "16 \<le> unat (blk_bytes msize)" "unat msize + 8 \<le> unat (blk_bytes msize)" "8 dvd unat (blk_bytes msize)"
    "unat (blk_bytes msize) \<le> unat msize + 15" unfolding b by presburger+
qed

lemma blk_info_len:
  assumes "type AND NOT MB_INFO_TYPE_MASK = 0"
  shows "(blk_bytes msize OR type) AND MB_INFO_LEN_MASK = blk_bytes msize"
proof -
  have m: "MB_INFO_LEN_MASK = NOT 3" by simp
  have "blk_bytes msize AND NOT 3 = (msize + 8 + 7) AND (NOT 7 AND NOT 3)" by (simp only: blk_bytes_def and.assoc)
  also have "\<dots> = blk_bytes msize" by (simp add: blk_bytes_def)
  finally show ?thesis using assms unfolding m bit.conj_disj_distrib2 by simp
qed

lemma unat_hdr: "unat (a :: addr) + 8 \<le> unat (e :: addr) \<Longrightarrow> unat (a + 4) = unat a + 4"
  using unat_add_lt [of a 4] unat_32_lt [of e] by simp

text \<open>The memory after an allocation: the counts, and the header of the new block.\<close>

definition mem_counts :: "addr \<Rightarrow> u32 \<Rightarrow> rtx \<Rightarrow> addr \<Rightarrow> u32" where
  "mem_counts mem n s = (let u = mem32 s (mem + 4) + n; m = (mem32 s)(mem + 4 := u); t = mem_end mem s + 4
     in if m t < u then m(t := u) else m)"

definition alloc_at :: "addr \<Rightarrow> addr \<Rightarrow> u32 \<Rightarrow> u32 \<Rightarrow> rtx \<Rightarrow> addr \<times> rtx" where
  "alloc_at mem p block_size type s =
     (let s = set_head_used mem (head_used mem s + block_size) s;
          p_new = MemBlockPtr mem (head_size mem s - sizeof_mem_block_t);
          s = (if blk_info p_new s < head_used mem s then set_blk_info p_new (head_used mem s) s else s)
      in if blk_info p s = 0 then
           (let s = set_blk_info p (block_size OR type) s
            in (MemBlockPtr p sizeof_mem_block_t, s))
         else
           (let p_new = MemBlockPtr p (blk_info p s AND MB_INFO_LEN_MASK);
                s = set_blk_next p_new (blk_next p s) s;
                s = set_blk_info p_new (block_size OR type) s;
                s = set_blk_next p p_new s
            in (MemBlockPtr p_new sizeof_mem_block_t, s)))"

lemma alloc_split:
  assumes "mem \<noteq> NULL" "msize \<noteq> 0" "type AND NOT MB_INFO_TYPE_MASK = 0"
  shows "osRtxMemoryAlloc mem msize type s =
    do { hole \<leftarrow> mem_hole_search s (blk_bytes msize) (mem + 8);
         (case hole of None \<Rightarrow> Some (NULL, s) | Some p \<Rightarrow> Some (alloc_at mem p (blk_bytes msize) type s)) }"
proof -
  have g: "\<not> (mem = NULL \<or> msize = 0 \<or> type AND NOT MB_INFO_TYPE_MASK \<noteq> 0)" using assms by simp
  show ?thesis unfolding osRtxMemoryAlloc_def blk_bytes_def alloc_at_def if_not_P [OF g] Let_def MemBlockPtr_def
    by (rule arg_cong2 [of _ _ _ _ Option.bind]) (auto split: option.split)
qed

lemma alloc_at_mem:
  assumes "m = mem_counts mem n s" "m a = mem32 s a" "m (a + 4) = mem32 s (a + 4)"
  shows "alloc_at mem a n type s = (if mem32 s (a + 4) = 0
     then (a + 8, s\<lparr>mem32 := m(a + 4 := n OR type)\<rparr>)
     else let x = a + blk_len (mem32 s) a in
       (x + 8, s\<lparr>mem32 := m(x := mem32 s a, x + 4 := n OR type, a := x)\<rparr>))"
proof -
  have e: "(let s1 = set_head_used mem (head_used mem s + n) s;
                p_new = MemBlockPtr mem (head_size mem s1 - sizeof_mem_block_t)
            in if blk_info p_new s1 < head_used mem s1 then set_blk_info p_new (head_used mem s1) s1 else s1) = s\<lparr>mem32 := m\<rparr>"
    unfolding assms(1) mem_counts_def set_head_used_def head_used_def head_size_def MemBlockPtr_def blk_info_def set_blk_info_def Let_def
    by (simp add: diff_add_eq)
  show ?thesis
    unfolding alloc_at_def Let_def e [unfolded Let_def] using assms(2,3)
    by (simp add: MemBlockPtr_def Let_def blk_info_def blk_next_def set_blk_info_def set_blk_next_def)
qed

lemma laid_sum: "laid R e \<Longrightarrow> unat (next_addr R e) + (\<Sum>r\<leftarrow>R. unat (snd r)) \<le> unat e"
  by (induction R) auto

text \<open>What the counts leave alone.\<close>

lemma mem_counts_props:
  assumes r: "mem_rel mem s R" and n: "unat (mem32 s (mem + 4)) + unat n < 2 ^ 32"
  defines "m \<equiv> mem_counts mem n s"
  shows "unat mem + 8 \<le> unat h \<Longrightarrow> unat h + 4 \<le> unat (mem_end mem s) \<Longrightarrow> m h = mem32 s h" "m mem = mem32 s mem"
    "m (mem_end mem s) = NULL" "unat (m (mem + 4)) = unat (mem32 s (mem + 4)) + unat n" "m (mem + 4) \<le> m (mem_end mem s + 4)"
    "y \<noteq> mem + 4 \<Longrightarrow> y \<noteq> mem_end mem s + 4 \<Longrightarrow> m y = mem32 s y"
proof -
  note M = mem_relD [OF r]
  define e where "e = mem_end mem s"
  have e: "unat mem + 16 \<le> unat e" "unat e + 8 < 2 ^ 32" "mem32 s e = NULL" using M(3,4,8) by (simp_all add: e_def)
  have u: "unat (mem + 4) = unat mem + 4" "unat (e + 4) = unat e + 4" using e unat_add_lt [of mem 4] unat_add_lt [of e 4] by simp_all
  have md: "m = (let u = mem32 s (mem + 4) + n; m = (mem32 s)(mem + 4 := u) in if m (e + 4) < u then m(e + 4 := u) else m)"
    by (simp only: m_def mem_counts_def e_def Let_def)
  have ne: "mem + 4 \<noteq> e + 4" using e by auto
  show out: "m y = mem32 s y" if "y \<noteq> mem + 4" "y \<noteq> mem_end mem s + 4" for y
    using that unfolding md e_def [symmetric] Let_def by simp
  show "m h = mem32 s h" if "unat mem + 8 \<le> unat h" "unat h + 4 \<le> unat (mem_end mem s)"
    by (rule out) (use that u e in \<open>unfold e_def [symmetric], auto simp: word_unat_eq_iff\<close>)
  show "m mem = mem32 s mem" by (rule out) (use u e in \<open>unfold e_def [symmetric], auto simp: word_unat_eq_iff\<close>)
  have "e \<noteq> mem + 4" "e \<noteq> e + 4" using u e by (auto simp: word_unat_eq_iff)
  then show "m (mem_end mem s) = NULL" using e out unfolding e_def [symmetric] by simp
  have "m (mem + 4) = mem32 s (mem + 4) + n" using ne unfolding md Let_def by (simp del: add_right_cancel)
  then show "unat (m (mem + 4)) = unat (mem32 s (mem + 4)) + unat n" using unat_add_lt [of "mem32 s (mem + 4)" n] n by simp
  show "m (mem + 4) \<le> m (mem_end mem s + 4)" using ne unfolding e_def [symmetric] md Let_def
    by (simp del: add_right_cancel add: not_less)
qed

lemma mem_alloc_ok:
  assumes r: "mem_rel mem s R" and z: "msize \<noteq> 0" "unat msize + 15 < 2 ^ 32" and ty: "type AND NOT MB_INFO_TYPE_MASK = 0"
  shows "case first_fit (mem_end mem s) (blk_bytes msize) R of
      None \<Rightarrow> osRtxMemoryAlloc mem msize type s = Some (NULL, s)
    | Some (x, R') \<Rightarrow> \<exists>s'. osRtxMemoryAlloc mem msize type s = Some (x + 8, s') \<and> mem_rel mem s' R' \<and> 8 dvd unat x \<and>
        x \<noteq> 0 \<and> s' = s\<lparr>mem32 := mem32 s'\<rparr> \<and> mem32 s' mem = mem32 s mem \<and>
        (\<forall>(b, k)\<in>set R. k \<noteq> 0 \<longrightarrow> unat x + unat (blk_bytes msize) \<le> unat b \<or> unat b + unat k \<le> unat x) \<and>
        (\<forall>(b, k)\<in>set R. \<forall>y. unat b + 8 \<le> unat y \<longrightarrow> unat y < unat b + unat k \<longrightarrow> mem32 s' y = mem32 s y)"
proof -
  note M = mem_relD [OF r]
  note RR = r [unfolded mem_rel_def]
  define n e where "n = blk_bytes msize" and "e = mem_end mem s"
  note B = blk_bytes_props [OF z, folded n_def]
  have n0: "n \<noteq> 0" using B(1) by auto
  have me: "mem32 s e = NULL" using M(8) by (simp add: e_def)
  note H = hole_search [OF M(5,6,8,7) n0, folded e_def]
  note sp = alloc_split [OF M(1) z(1) ty, of s, folded n_def]
  show ?thesis
  proof (cases "first_fit e n R")
    case None
    then show ?thesis using H sp by (simp add: n_def [symmetric] e_def [symmetric])
  next
    case (Some p)
    obtain x R' where p: "p = (x, R')" by (cases p)
    obtain a where a: "mem_hole_search s n (mem + 8) = Some (Some a)" "placed e n R x R' a" using H Some p by auto
    obtain xs l ys where pl: "R = xs @ (a, l) # ys" "unat a + unat l + unat n \<le> unat (next_addr ys e)"
      "if l = 0 then x = a \<and> R' = xs @ (a, n) # ys else x = a + l \<and> R' = xs @ (a, l) # (a + l, n) # ys"
      using a(2) unfolding placed_def by blast
    have la: "laid xs a" "laid ys e" using M(6) unfolding pl(1) e_def by (simp_all add: laid_append)
    have al: "unat mem + 8 \<le> unat a" "unat a + max 8 (unat l) \<le> unat e" using M(9) [of a l] pl(1) by (simp_all add: e_def)
    have d8: "8 dvd unat a" "8 dvd unat l" using RR pl(1) by auto
    have l8: "unat l \<noteq> 0 \<Longrightarrow> 8 \<le> unat l" using d8(2) by (simp add: dvd_imp_le)
    have nl: "unat (next_addr ys e) \<le> unat e" using laid_sum [OF la(2)] by simp
    have ux: "unat x = unat a + unat l"
    proof -
      have "unat (a + l) = unat a + unat l" by (rule unat_add_lt) (use al unat_32_lt [of e] in simp)
      then show ?thesis using pl(3) by (auto split: if_splits)
    qed
    have inf: "blk_len (mem32 s) a = l" "l = 0 \<longrightarrow> mem32 s (a + 4) = 0" "mem32 s (a + 4) = 0 \<Longrightarrow> l = 0"
      using M(5) pl(1) by (auto simp: hdrs_append)
    have lR: "laid R' e"
    proof (cases "l = 0")
      case True
      then show ?thesis using pl la B(1) by (simp add: laid_append)
    next
      case False
      then have "unat l \<noteq> 0" by (simp add: unat_eq_0)
      then show ?thesis using pl la B(1) l8 ux False by (simp add: laid_append)
    qed
    have sm: "(\<Sum>r\<leftarrow>R'. unat (snd r)) = (\<Sum>r\<leftarrow>R. unat (snd r)) + unat n" using pl by (cases "l = 0") auto
    have nx: "next_addr R' e = mem + 8"
      using M(10) pl by (cases "l = 0"; cases xs) (auto simp: e_def [symmetric])
    have "unat (mem + 8) + (\<Sum>r\<leftarrow>R'. unat (snd r)) \<le> unat e" using laid_sum [OF lR] nx by simp
    moreover have eb: "unat e + 8 < 2 ^ 32" using M(3) by (simp only: e_def)
    ultimately have us: "unat (mem32 s (mem + 4)) + unat n < 2 ^ 32" using sm RR M(11) by linarith
    define m where "m = mem_counts mem n s"
    note C = mem_counts_props [OF r us, folded m_def e_def]
    have hm: "m b = mem32 s b \<and> m (b + 4) = mem32 s (b + 4) \<and> unat (b + 4) = unat b + 4" if "unat mem + 8 \<le> unat b" "unat b + 8 \<le> unat e" for b
      using that unat_hdr [of b e] C(1) [of b] C(1) [of "b + 4"] by simp
    note am = hm [OF al(1)]
    have a8: "unat a + 8 \<le> unat e" using al(2) by simp
    have x8: "unat x + 8 \<le> unat e" "unat mem + 8 \<le> unat x" using ux pl(2) nl B(1) al(1) by linarith+
    note xm = hm [OF x8(2,1)]
    have be: "unat mem + 8 \<le> unat b \<and> unat b + 8 \<le> unat e" if "(b, k) \<in> set R" for b k
      using M(9) [OF that] unfolding e_def by (auto simp: max_def split: if_splits)
    have hR: "hdrs m (mem + 8) R e"
    proof (subst hdrs_cong [where m = "mem32 s"])
      show "m b = mem32 s b \<and> m (b + 4) = mem32 s (b + 4)" if "(b, k) \<in> set R" for b k using hm be [OF that] by blast
      show "hdrs (mem32 s) (mem + 8) R e" using M(5) by (simp only: e_def)
    qed
    define m' where "m' = (if l = 0 then m(a + 4 := n OR type) else m(x := mem32 s a, x + 4 := n OR type, a := x))"
    have op: "osRtxMemoryAlloc mem msize type s = Some (x + 8, s\<lparr>mem32 := m'\<rparr>)"
      using sp a(1) alloc_at_mem [OF m_def, of a type] am a8 inf pl(3) by (cases "l = 0") (auto simp: m'_def Let_def)
    have oth: "m' y = m y" if "unat y \<noteq> unat a" "unat y \<noteq> unat a + 4" "unat y \<noteq> unat x" "unat y \<noteq> unat x + 4" for y
      using that am a8 xm by (auto simp: m'_def)
    have ba: "unat b + 8 \<le> unat a \<or> unat x + unat n \<le> unat b" if "(b, k) \<in> set xs \<union> set ys" for b k
    proof -
      have "unat (next_addr ys e) \<le> unat b" if "(b, k) \<in> set ys" using laid_bounds [OF la(2) that] by simp
      then show ?thesis using that laid_bounds [OF la(1), of "(b, k)"] pl(2) ux by fastforce
    qed
    have o2: "m' b = m b \<and> m' (b + 4) = m (b + 4)" if "(b, k) \<in> set xs \<union> set ys" for b k
    proof -
      have "(b, k) \<in> set R" using that pl(1) by auto
      then have "unat (b + 4) = unat b + 4" using hm be by blast
      then show ?thesis using ba [OF that] B(1) ux oth by auto
    qed
    have len: "(n OR type) AND MB_INFO_LEN_MASK = n" using blk_info_len [OF ty] by (simp add: n_def)
    have hR': "hdrs m' (mem + 8) R' e"
    proof (cases "l = 0")
      case True
      have "hdrs m (mem + 8) (xs @ (a, 0) # ys) e" using hR pl(1) True by simp
      then have "hdrs m' (mem + 8) (xs @ (a, n) # ys) e"
        by (rule hdrs_grow [where v = "n OR type" and m' = m', OF _ len n0]) (use True o2 in \<open>simp_all add: m'_def\<close>)
      then show ?thesis using pl(3) True by simp
    next
      case False
      have ne: "a + 4 \<noteq> x" "a + 4 \<noteq> x + 4" "x + 4 \<noteq> a" "a \<noteq> x"
      proof -
        have "8 \<le> unat l" by (rule l8) (use False in \<open>simp add: unat_eq_0\<close>)
        moreover have "unat (a + 4) = unat a + 4" "unat (x + 4) = unat x + 4" using am [OF a8] xm by blast+
        ultimately have "unat (a + 4) \<noteq> unat x" "unat (a + 4) \<noteq> unat (x + 4)" "unat (x + 4) \<noteq> unat a" "unat a \<noteq> unat x"
          using ux by linarith+
        then show "a + 4 \<noteq> x" "a + 4 \<noteq> x + 4" "x + 4 \<noteq> a" "a \<noteq> x" by metis+
      qed
      have "hdrs m (mem + 8) (xs @ (a, l) # ys) e" using hR pl(1) by simp
      then have "hdrs m' (mem + 8) (xs @ (a, l) # (x, n) # ys) e"
        by (rule hdrs_insert [where v = "n OR type" and m' = m', OF _ len n0]) (use False ne am a8 o2 in \<open>simp_all add: m'_def\<close>)
      then show ?thesis using pl(3) False by simp
    qed
    have fx: "m' mem = mem32 s mem" "m' e = NULL" "m' (mem + 4) = m (mem + 4)" "m' (e + 4) = m (e + 4)"
    proof -
      have "unat (mem + 4) = unat mem + 4" "unat (e + 4) = unat e + 4"
        using eb al unat_add_lt [of mem 4] unat_add_lt [of e 4] by simp_all
      then show "m' mem = mem32 s mem" "m' e = NULL" "m' (mem + 4) = m (mem + 4)" "m' (e + 4) = m (e + 4)"
        using oth [of mem] oth [of e] oth [of "mem + 4"] oth [of "e + 4"] C(2,3) al(1) a8 x8 by simp_all
    qed
    have ee: "mem_end mem (s\<lparr>mem32 := m'\<rparr>) = e" using fx(1) by (simp add: e_def)
    have tl: "\<forall>r\<in>set (tl R'). snd r \<noteq> 0" using RR pl n0 by (cases "l = 0"; cases xs) auto
    have dv: "\<forall>r\<in>set R'. 8 dvd unat (fst r) \<and> 8 dvd unat (snd r)" "8 dvd unat x"
    proof -
      show x8: "8 dvd unat x" using ux d8 by simp
      show "\<forall>r\<in>set R'. 8 dvd unat (fst r) \<and> 8 dvd unat (snd r)"
        using RR pl B(3) x8 d8 by (cases "l = 0") auto
    qed
    have "R' \<noteq> []" using pl(3) by (auto split: if_splits)
    then have "mem_rel mem (s\<lparr>mem32 := m'\<rparr>) R'"
      unfolding mem_rel_def ee using RR hR' lR fx C(4,5) tl dv(1) sm by simp
    moreover have "x \<noteq> 0" using x8 by auto
    moreover have "\<forall>(b, k)\<in>set R. k \<noteq> 0 \<longrightarrow> unat x + unat n \<le> unat b \<or> unat b + unat k \<le> unat x"
    proof (clarify)
      fix b k assume b: "(b, k) \<in> set R" "\<not> unat b + unat k \<le> unat x" "k \<noteq> 0"
      then consider "(b, k) \<in> set xs" | "b = a" "k = l" | "(b, k) \<in> set ys" using pl(1) by auto
      then show "unat x + unat n \<le> unat b"
      proof cases
        case 1
        then show ?thesis using laid_bounds [OF la(1) 1] b(2) ux by (auto simp: max_def split: if_splits)
      next
        case 2
        then show ?thesis using b(2) ux by simp
      next
        case 3
        then show ?thesis using laid_bounds [OF la(2) 3] pl(2) ux by (auto simp: max_def split: if_splits)
      qed
    qed
    moreover have "\<forall>(b, k)\<in>set R. \<forall>y. unat b + 8 \<le> unat y \<longrightarrow> unat y < unat b + unat k \<longrightarrow> m' y = mem32 s y"
    proof (clarify)
      fix b k y :: u32 assume b: "(b, k) \<in> set R" and y: "unat b + 8 \<le> unat y" "unat y < unat b + unat k"
      have bb: "unat mem + 8 \<le> unat b" "unat b + unat k \<le> unat e" using M(9) [OF b] unfolding e_def by (auto simp: max_def split: if_splits)
      have "unat (mem + 4) = unat mem + 4" "unat (e + 4) = unat e + 4"
        using eb al unat_add_lt [of mem 4] unat_add_lt [of e 4] by simp_all
      then have "m y = mem32 s y" using y bb by (intro C(6)) (auto simp: word_unat_eq_iff)
      moreover have "m' y = m y"
      proof (rule oth)
        have ap: "unat b + unat k \<le> unat a \<or> b = a \<and> k = l \<or> unat x + unat n \<le> unat b"
        proof -
          consider "(b, k) \<in> set xs" | "b = a" "k = l" | "(b, k) \<in> set ys" using pl(1) b by auto
          then show ?thesis
          proof cases
            case 1
            then show ?thesis using laid_bounds [OF la(1) 1] by (auto simp: max_def split: if_splits)
          next
            case 3
            then show ?thesis using laid_bounds [OF la(2) 3] pl(2) ux by (auto simp: max_def split: if_splits)
          qed simp
        qed
        show "unat y \<noteq> unat a" "unat y \<noteq> unat a + 4" "unat y \<noteq> unat x" "unat y \<noteq> unat x + 4"
          using ap y ux B(1) by auto
      qed
      ultimately show "m' y = mem32 s y" by simp
    qed
    ultimately show ?thesis
      unfolding n_def [symmetric] e_def [symmetric] Some p option.case prod.case
      using op dv(2) fx(1) by (intro exI [of _ "s\<lparr>mem32 := m'\<rparr>"]) simp
  qed
qed

section \<open>Releasing a block\<close>

lemma block_search:
  assumes "hdrs (mem32 s) p (xs @ (a, l) # ys) e" "laid (xs @ (a, l) # ys) e"
  shows "mem_block_search s a q p = Some (Some (if xs = [] then q else fst (last xs)))"
  using assms
proof (induction xs arbitrary: p q)
  case Nil
  then show ?case by (simp add: mem_block_search.simps [of s a q a])
next
  case (Cons r xs)
  obtain b k where r: "r = (b, k)" by (cases r)
  have h: "p = b" "hdrs (mem32 s) (mem32 s b) (xs @ (a, l) # ys) e" "laid (xs @ (a, l) # ys) e"
    "unat b + max 8 (unat k) \<le> unat (next_addr (xs @ (a, l) # ys) e)" using Cons.prems r by auto
  have nx: "mem32 s b = next_addr (xs @ (a, l) # ys) e" by (rule hdrs_next [OF h(2)])
  have "laid (r # xs) a" using Cons.prems(2) laid_append [of "r # xs" "(a, l) # ys" e] by simp
  then have "unat b + 8 \<le> unat a" using laid_bounds [of "r # xs" a r] r by simp
  moreover have "mem32 s b \<noteq> NULL" using h(4) nx by (auto simp: max_def split: if_splits)
  ultimately have "mem_block_search s a q p = mem_block_search s a b (mem32 s b)"
    using h(1) by (auto simp: mem_block_search.simps [of s a q b] blk_next_def Let_def)
  then show ?case using Cons.IH [OF h(2,3)] r by simp
qed

lemma block_search_none:
  assumes "hdrs (mem32 s) p R e" "laid R e" "mem32 s e = NULL" "ptr \<notin> fst ` set R" "ptr \<noteq> e"
  shows "mem_block_search s ptr q p = Some None"
  using assms
proof (induction R arbitrary: p q)
  case Nil
  then show ?case by (simp add: mem_block_search.simps [of s ptr q e] blk_next_def)
next
  case (Cons r R)
  obtain b k where r: "r = (b, k)" by (cases r)
  have h: "p = b" "hdrs (mem32 s) (mem32 s b) R e" "laid R e" "unat b + max 8 (unat k) \<le> unat (next_addr R e)"
    using Cons.prems r by auto
  have "mem32 s b \<noteq> NULL" using h(4) hdrs_next [OF h(2)] by (auto simp: max_def split: if_splits)
  then have "mem_block_search s ptr q p = mem_block_search s ptr b (mem32 s b)"
    using h(1) Cons.prems(4) r by (auto simp: mem_block_search.simps [of s ptr q b] blk_next_def Let_def)
  then show ?case using Cons.IH [OF h(2,3)] Cons.prems(3-5) by simp
qed

lemma laid_split_out:
  assumes "laid (xs @ (a, l) # ys) e"
  shows "a \<notin> fst ` set xs" "a \<notin> fst ` set ys"
proof -
  have l: "laid xs a" "laid ys e" "unat a + max 8 (unat l) \<le> unat (next_addr ys e)" using assms by (auto simp: laid_append)
  show "a \<notin> fst ` set xs" using laid_bounds [OF l(1)] by fastforce
  show "a \<notin> fst ` set ys" using laid_bounds [OF l(2)] l(3) by fastforce
qed

lemma release_split:
  assumes "laid (xs @ (a, l) # ys) e"
  shows "release a (xs @ (a, l) # ys) = (if xs = [] then (a, 0) # ys else xs @ ys)"
proof -
  have "filter (\<lambda>r. fst r \<noteq> a) xs = xs" "filter (\<lambda>r. fst r \<noteq> a) ys = ys"
    using laid_split_out [OF assms] by (auto simp: filter_id_conv)
  then show ?thesis using laid_split_out(1) [OF assms] by (cases xs) auto
qed

definition free_mem :: "addr \<Rightarrow> addr \<Rightarrow> addr \<Rightarrow> rtx \<Rightarrow> rtx" where
  "free_mem mem p p_prev s = s\<lparr>mem32 := (let m = (mem32 s)(mem + 4 := mem32 s (mem + 4) - blk_len (mem32 s) p) in
     if p_prev = NULL then m(p + 4 := 0) else m(p_prev := m p))\<rparr>"

lemma free_split:
  assumes "mem \<noteq> NULL" "block \<noteq> NULL"
  shows "osRtxMemoryFree mem block s =
    do { found \<leftarrow> mem_block_search s (block - 8) NULL (mem + 8);
         (case found of None \<Rightarrow> Some (0, s) | Some q \<Rightarrow> Some (1, free_mem mem (block - 8) q s)) }"
proof -
  have "(let p = block - 8; s1 = set_head_used mem (head_used mem s - (blk_info p s AND MB_INFO_LEN_MASK)) s
        in Some (1, if q = NULL then set_blk_info p 0 s1 else set_blk_next q (blk_next p s1) s1)) = Some (1, free_mem mem (block - 8) q s)" for q
    by (simp add: free_mem_def Let_def set_head_used_def head_used_def blk_info_def set_blk_info_def set_blk_next_def blk_next_def)
  note e = this [unfolded Let_def]
  have g: "\<not> (mem = NULL \<or> block = NULL)" using assms by simp
  show ?thesis unfolding osRtxMemoryFree_def MemBlockPtr_def Let_def if_not_P [OF g] add_0_right e by (rule refl)
qed

lemma mem_free_ok:
  assumes r: "mem_rel mem s R" and a: "(a, l) \<in> set R" and b0: "a + 8 \<noteq> NULL"
  shows "\<exists>s'. osRtxMemoryFree mem (a + 8) s = Some (1, s') \<and> mem_rel mem s' (release a R) \<and> mem32 s' mem = mem32 s mem \<and>
    s' = s\<lparr>mem32 := mem32 s'\<rparr> \<and> (\<forall>(b, k)\<in>set R. \<forall>y. unat b + 8 \<le> unat y \<longrightarrow> unat y < unat b + unat k \<longrightarrow> mem32 s' y = mem32 s y)"
proof -
  note M = mem_relD [OF r]
  note RR = r [unfolded mem_rel_def]
  define e where "e = mem_end mem s"
  obtain xs ys where R: "R = xs @ (a, l) # ys" using split_list [OF a] by blast
  have lR: "laid (xs @ (a, l) # ys) e" "hdrs (mem32 s) (mem + 8) (xs @ (a, l) # ys) e" using M(5,6) R by (simp_all add: e_def)
  have la: "laid xs a" "laid ys e" "unat a + max 8 (unat l) \<le> unat (next_addr ys e)" using lR(1) by (auto simp: laid_append)
  define q where "q = (if xs = [] then NULL else fst (last xs))"
  have eb: "unat mem + 16 \<le> unat e" "unat e + 8 < 2 ^ 32" using M(3,4) by (simp_all only: e_def)
  have be: "unat mem + 8 \<le> unat b \<and> unat b + 8 \<le> unat e \<and> unat b + unat k \<le> unat e \<and> unat (b + 4) = unat b + 4" if "(b, k) \<in> set R" for b k
    using M(9) [OF that] unat_hdr [of b e] unfolding e_def by (auto simp: max_def split: if_splits)
  have xl: "q \<noteq> NULL \<and> (\<exists>zs k. xs = zs @ [(q, k)])" if "xs \<noteq> []"
  proof -
    have "last xs = (q, snd (last xs))" using that by (simp add: q_def)
    then have x: "xs = butlast xs @ [(q, snd (last xs))]" using append_butlast_last_id [OF that] by simp
    have "(q, snd (last xs)) \<in> set R" using R last_in_set [OF that] \<open>last xs = (q, snd (last xs))\<close> by simp
    from be [OF this] show ?thesis using x by auto
  qed
  have sr: "mem_block_search s a NULL (mem + 8) = Some (Some q)" unfolding q_def by (rule block_search [OF lR(2,1)])
  define m' where "m' = mem32 (free_mem mem a q s)"
  have op: "osRtxMemoryFree mem (a + 8) s = Some (1, s\<lparr>mem32 := m'\<rparr>)"
    using free_split [OF M(1) b0, of s] sr by (simp add: m'_def) (simp add: free_mem_def)
  have u4: "unat (mem + 4) = unat mem + 4" "unat (e + 4) = unat e + 4"
    using eb unat_add_lt [of mem 4] unat_add_lt [of e 4] by simp_all
  have am: "a \<noteq> mem + 4" "a + 4 \<noteq> mem + 4" using be [OF a] u4 by (auto simp: word_unat_eq_iff)
  have ml: "blk_len (mem32 s) a = l" using lR(2) by (simp add: hdrs_append)
  have qm: "q \<noteq> NULL \<Longrightarrow> q \<noteq> mem + 4 \<and> unat q \<noteq> unat mem \<and> unat q < unat e \<and> unat q \<noteq> unat mem + 4"
  proof -
    assume "q \<noteq> NULL"
    then have "xs \<noteq> []" by (auto simp: q_def)
    then obtain zs k where "xs = zs @ [(q, k)]" using xl by blast
    then have "(q, k) \<in> set R" using R by simp
    from be [OF this] show ?thesis using u4 by (auto simp: word_unat_eq_iff)
  qed
  have md: "m' = (if q = NULL then (mem32 s)(mem + 4 := mem32 s (mem + 4) - l, a + 4 := 0)
      else (mem32 s)(mem + 4 := mem32 s (mem + 4) - l, q := mem32 s a))"
    using am ml by (simp add: m'_def free_mem_def Let_def)
  have oth: "m' y = mem32 s y" if "unat y \<noteq> unat mem + 4" "q = NULL \<Longrightarrow> unat y \<noteq> unat a + 4" "q \<noteq> NULL \<Longrightarrow> y \<noteq> q" for y
    using that u4 be [OF a] by (auto simp: md)
  have nq: "q \<noteq> NULL \<longleftrightarrow> xs \<noteq> []" using xl by (auto simp: q_def)
  have hR: "hdrs m' (mem + 8) (release a R) e"
  proof (cases "xs = []")
    case True
    have hy: "hdrs (mem32 s) (mem32 s a) ys e" "a = mem + 8" using lR(2) True by simp_all
    have "hdrs m' (mem32 s a) ys e"
    proof (subst hdrs_cong [where m = "mem32 s"])
      fix b k assume b: "(b, k) \<in> set ys"
      have bR: "(b, k) \<in> set R" using b R by simp
      have "unat a + 8 \<le> unat b" using laid_bounds [OF la(2) b] la(3) by (auto simp: max_def split: if_splits)
      then show "m' b = mem32 s b \<and> m' (b + 4) = mem32 s (b + 4)" using be [OF bR] True nq by (intro conjI oth) auto
    qed (rule hy(1))
    moreover have "m' a = mem32 s a" by (rule oth) (use be [OF a] True nq in auto)
    moreover have "m' (a + 4) = 0" using True nq am by (simp add: md)
    ultimately show ?thesis using release_split [OF lR(1)] True R hy(2) by simp
  next
    case False
    then obtain zs k where x: "xs = zs @ [(q, k)]" "q \<noteq> NULL" using xl by blast
    have qR: "(q, k) \<in> set R" using x R by simp
    have h: "hdrs (mem32 s) (mem + 8) zs q" "blk_len (mem32 s) q = k" "k = 0 \<longrightarrow> mem32 s (q + 4) = 0" "mem32 s q = a"
      "hdrs (mem32 s) (mem32 s a) ys e" using lR(2) x(1) by (auto simp: hdrs_append)
    have lq: "laid (zs @ (q, k) # (a, l) # ys) e" using lR(1) x(1) by simp
    note qo = laid_split_out [OF lq]
    have o2: "m' b = mem32 s b \<and> m' (b + 4) = mem32 s (b + 4)" if b: "(b, k') \<in> set zs \<union> set ys" for b k'
    proof -
      have bR: "(b, k') \<in> set R" using b R x by auto
      have bq: "b \<noteq> q" using b qo by force
      have lz: "laid zs q" "laid ((a, l) # ys) e" "unat q + max 8 (unat k) \<le> unat a" using lq by (auto simp: laid_append)
      have "unat b + 8 \<le> unat q \<or> unat q + 8 \<le> unat b"
        using b laid_bounds [OF lz(1), of "(b, k')"] laid_bounds [OF lz(2), of "(b, k')"] lz(3) by auto
      then have "b + 4 \<noteq> q" using be [OF bR] by auto
      then show ?thesis using be [OF bR] bq x(2) by (intro conjI oth) auto
    qed
    have "hdrs m' (mem + 8) zs q" by (subst hdrs_cong [where m = "mem32 s"]) (use o2 h(1) in auto)
    moreover have "hdrs m' (mem32 s a) ys e" by (subst hdrs_cong [where m = "mem32 s"]) (use o2 h(5) in auto)
    moreover have "m' q = mem32 s a" using x(2) qm by (simp add: md)
    moreover have "m' (q + 4) = mem32 s (q + 4)"
      by (rule oth) (use be [OF qR] x(2) in \<open>auto simp: word_unat_eq_iff\<close>)
    ultimately have "hdrs m' (mem + 8) (zs @ (q, k) # ys) e" using h(2,3) by (simp add: hdrs_append)
    then show ?thesis using release_split [OF lR(1)] False x(1) R by simp
  qed
  have fx: "m' mem = mem32 s mem" "m' e = NULL" "m' (e + 4) = mem32 s (e + 4)" "m' (mem + 4) = mem32 s (mem + 4) - l"
  proof -
    show "m' mem = mem32 s mem" "m' (e + 4) = mem32 s (e + 4)" using qm u4 be [OF a] eb by (auto intro!: oth)
    have "m' e = mem32 s e" using qm u4 be [OF a] eb by (intro oth) auto
    then show "m' e = NULL" using M(8) by (simp add: e_def)
    show "m' (mem + 4) = mem32 s (mem + 4) - l" using qm am by (auto simp: md)
  qed
  have ee: "mem_end mem (s\<lparr>mem32 := m'\<rparr>) = e" using fx(1) by (simp add: e_def)
  have lR': "laid (release a R) e"
  proof (cases "xs = []")
    case True
    then show ?thesis using la by (simp add: R release_split [OF lR(1)])
  next
    case False
    have "laid xs (next_addr ys e)"
    proof -
      have "unat a \<le> unat (next_addr ys e)" using la(3) by simp
      then show ?thesis using la(1)
        by (induction xs) (auto simp: next_addr_def split: list.splits)
    qed
    then show ?thesis using la False by (simp add: R release_split [OF lR(1)] laid_append)
  qed
  have sm: "(\<Sum>r\<leftarrow>R. unat (snd r)) = (\<Sum>r\<leftarrow>release a R. unat (snd r)) + unat l"
    by (simp add: R release_split [OF lR(1)])
  then have us: "unat (mem32 s (mem + 4) - l) = 16 + (\<Sum>r\<leftarrow>release a R. unat (snd r))" "mem32 s (mem + 4) - l \<le> mem32 s (e + 4)"
  proof -
    have le: "l \<le> mem32 s (mem + 4)" using RR sm by (simp add: word_le_nat_alt)
    show u: "unat (mem32 s (mem + 4) - l) = 16 + (\<Sum>r\<leftarrow>release a R. unat (snd r))" using RR sm unat_sub [OF le] by simp
    have "mem32 s (mem + 4) \<le> mem32 s (e + 4)" using RR unfolding e_def by blast
    then show "mem32 s (mem + 4) - l \<le> mem32 s (e + 4)" using u RR sm by (simp add: word_le_nat_alt)
  qed
  have "release a R \<noteq> []" "\<forall>r\<in>set (tl (release a R)). snd r \<noteq> 0" "\<forall>r\<in>set (release a R). 8 dvd unat (fst r) \<and> 8 dvd unat (snd r)"
    using RR unfolding R release_split [OF lR(1)] by (cases xs; auto)+
  then have rel: "mem_rel mem (s\<lparr>mem32 := m'\<rparr>) (release a R)"
    unfolding mem_rel_def ee using RR hR lR' fx us by simp
  have fr: "\<forall>(b, k)\<in>set R. \<forall>y. unat b + 8 \<le> unat y \<longrightarrow> unat y < unat b + unat k \<longrightarrow> m' y = mem32 s y"
  proof (clarify)
    fix b k y :: u32 assume b: "(b, k) \<in> set R" and y: "unat b + 8 \<le> unat y" "unat y < unat b + unat k"
    have out: "unat y \<noteq> unat c + 4 \<and> unat y \<noteq> unat c" if c: "(c, j) \<in> set R" for c j
      using laid_order [OF lR(1) [folded R] c b] y by (auto simp: max_def split: if_splits)
    show "m' y = mem32 s y"
    proof (rule oth)
      show "unat y \<noteq> unat mem + 4" using be [OF b] y by simp
      show "unat y \<noteq> unat a + 4" using out [OF a] by simp
      show "y \<noteq> q" if "q \<noteq> NULL"
      proof -
        have "xs \<noteq> []" using that nq by simp
        then obtain zs j where "xs = zs @ [(q, j)]" using xl by blast
        then have "(q, j) \<in> set R" using R by simp
        from out [OF this] show ?thesis by blast
      qed
    qed
  qed
  show ?thesis
  proof (rule exI [of _ "s\<lparr>mem32 := m'\<rparr>"], intro conjI)
    show "osRtxMemoryFree mem (a + 8) s = Some (1, s\<lparr>mem32 := m'\<rparr>)" by (rule op)
    show "mem_rel mem (s\<lparr>mem32 := m'\<rparr>) (release a R)" by (rule rel)
    show "mem32 (s\<lparr>mem32 := m'\<rparr>) mem = mem32 s mem" using fx(1) by simp
    show "s\<lparr>mem32 := m'\<rparr> = s\<lparr>mem32 := mem32 (s\<lparr>mem32 := m'\<rparr>)\<rparr>" by simp
    show "\<forall>(b, k)\<in>set R. \<forall>y. unat b + 8 \<le> unat y \<longrightarrow> unat y < unat b + unat k \<longrightarrow> mem32 (s\<lparr>mem32 := m'\<rparr>) y = mem32 s y"
      using fr by simp
  qed
qed

section \<open>The contract of the allocator\<close>

text \<open>
  The clients see the results of a sequence of allocations and releases: they are those of the abstract allocator.
\<close>

datatype 'n mem_op = Alloc 'n | Release addr

fun abs_run :: "('n \<Rightarrow> 'r \<Rightarrow> addr \<times> 'r) \<Rightarrow> (addr \<Rightarrow> 'r \<Rightarrow> 'r) \<Rightarrow> 'n mem_op list \<Rightarrow> 'r \<Rightarrow> addr list \<times> 'r" where
  "abs_run al fr [] R = ([], R)"
| "abs_run al fr (Alloc n # ops) R = (let (p, R) = al n R; (ps, R) = abs_run al fr ops R in (p # ps, R))"
| "abs_run al fr (Release p # ops) R = (let (ps, R) = abs_run al fr ops (fr p R) in (p # ps, R))"

text \<open>Only blocks that are allocated are released.\<close>

fun legal_ops :: "('n \<Rightarrow> 'r \<Rightarrow> addr \<times> 'r) \<Rightarrow> (addr \<Rightarrow> 'r \<Rightarrow> 'r) \<Rightarrow> ('n \<Rightarrow> bool) \<Rightarrow> ('r \<Rightarrow> addr set) \<Rightarrow> 'n mem_op list \<Rightarrow> 'r \<Rightarrow> bool" where
  "legal_ops al fr ok own [] R \<longleftrightarrow> True"
| "legal_ops al fr ok own (Alloc n # ops) R \<longleftrightarrow> ok n \<and> legal_ops al fr ok own ops (snd (al n R))"
| "legal_ops al fr ok own (Release p # ops) R \<longleftrightarrow> p \<in> own R \<and> legal_ops al fr ok own ops (fr p R)"

fun conc_run :: "('n \<Rightarrow> 's \<Rightarrow> (addr \<times> 's) option) \<Rightarrow> (addr \<Rightarrow> 's \<Rightarrow> (u32 \<times> 's) option) \<Rightarrow> 'n mem_op list \<Rightarrow> 's \<Rightarrow> (addr list \<times> 's) option" where
  "conc_run al fr [] s = Some ([], s)"
| "conc_run al fr (Alloc n # ops) s = do { (p, s) \<leftarrow> al n s; (ps, s) \<leftarrow> conc_run al fr ops s; Some (p # ps, s) }"
| "conc_run al fr (Release p # ops) s =
     do { (r, s) \<leftarrow> fr p s; (ps, s) \<leftarrow> conc_run al fr ops s; Some ((if r = 1 then p else NULL) # ps, s) }"

locale region_allocator =
  fixes rel :: "'s \<Rightarrow> 'r \<Rightarrow> bool" and al :: "'n \<Rightarrow> 'r \<Rightarrow> addr \<times> 'r" and fr :: "addr \<Rightarrow> 'r \<Rightarrow> 'r"
    and ok :: "'n \<Rightarrow> bool" and own :: "'r \<Rightarrow> addr set"
    and alloc :: "'n \<Rightarrow> 's \<Rightarrow> (addr \<times> 's) option" and free :: "addr \<Rightarrow> 's \<Rightarrow> (u32 \<times> 's) option"
  assumes alloc_ok: "rel s R \<Longrightarrow> ok n \<Longrightarrow> \<exists>s'. alloc n s = Some (fst (al n R), s') \<and> rel s' (snd (al n R))"
    and free_ok: "rel s R \<Longrightarrow> p \<in> own R \<Longrightarrow> \<exists>s'. free p s = Some (1, s') \<and> rel s' (fr p R)"
begin

lemma refines:
  "rel s R \<Longrightarrow> legal_ops al fr ok own ops R \<Longrightarrow>
   \<exists>s'. conc_run alloc free ops s = Some (fst (abs_run al fr ops R), s') \<and> rel s' (snd (abs_run al fr ops R))"
proof (induction ops arbitrary: s R)
  case (Cons x ops)
  show ?case
  proof (cases x)
    case (Alloc n)
    obtain s1 where s1: "alloc n s = Some (fst (al n R), s1)" "rel s1 (snd (al n R))"
      using alloc_ok [OF Cons.prems(1)] Cons.prems(2) Alloc by auto
    then show ?thesis using Cons.IH [OF s1(2)] Cons.prems(2) Alloc by (auto split: prod.splits)
  next
    case (Release p)
    obtain s1 where s1: "free p s = Some (1, s1)" "rel s1 (fr p R)"
      using free_ok [OF Cons.prems(1)] Cons.prems(2) Release by auto
    then show ?thesis using Cons.IH [OF s1(2)] Cons.prems(2) Release by (auto split: prod.splits)
  qed
qed simp

end

text \<open>The allocator of the kernel; an allocation is given by the number of bytes and the type of the block.\<close>

definition abs_alloc :: "addr \<Rightarrow> u32 \<times> u32 \<Rightarrow> region list \<Rightarrow> addr \<times> region list" where
  "abs_alloc e n R = (case first_fit e (blk_bytes (fst n)) R of None \<Rightarrow> (NULL, R) | Some (x, R') \<Rightarrow> (x + 8, R'))"

definition alloc_req :: "u32 \<times> u32 \<Rightarrow> bool" where
  "alloc_req n \<longleftrightarrow> fst n \<noteq> 0 \<and> unat (fst n) + 15 < 2 ^ 32 \<and> snd n AND NOT MB_INFO_TYPE_MASK = 0"

definition owned :: "region list \<Rightarrow> addr set" where
  "owned R = {a + 8 |a l. (a, l) \<in> set R \<and> l \<noteq> 0 \<and> a + 8 \<noteq> NULL}"

definition kernel_alloc :: "addr \<Rightarrow> u32 \<times> u32 \<Rightarrow> rtx \<Rightarrow> (addr \<times> rtx) option" where
  "kernel_alloc mem n = osRtxMemoryAlloc mem (fst n) (snd n)"

interpretation kernel_memory: region_allocator "\<lambda>s R. mem_rel mem s R \<and> mem_end mem s = e" "abs_alloc e" "\<lambda>p. release (p - 8)"
    alloc_req owned "kernel_alloc mem" "osRtxMemoryFree mem" for mem e
proof
  fix s R and n :: "u32 \<times> u32"
  assume r: "mem_rel mem s R \<and> mem_end mem s = e" and n: "alloc_req n"
  have q: "fst n \<noteq> 0" "unat (fst n) + 15 < 2 ^ 32" "snd n AND NOT MB_INFO_TYPE_MASK = 0" using n by (simp_all add: alloc_req_def)
  note A = mem_alloc_ok [OF conjunct1 [OF r] q, folded kernel_alloc_def]
  show "\<exists>s'. kernel_alloc mem n s = Some (fst (abs_alloc e n R), s') \<and> mem_rel mem s' (snd (abs_alloc e n R)) \<and> mem_end mem s' = e"
  proof (cases "first_fit e (blk_bytes (fst n)) R")
    case None
    then show ?thesis using A r by (simp add: abs_alloc_def)
  next
    case (Some y)
    obtain x R' where y: "y = (x, R')" by (cases y)
    obtain s' where "kernel_alloc mem n s = Some (x + 8, s')" "mem_rel mem s' R'" "mem32 s' mem = mem32 s mem"
      using A r Some y by auto
    then show ?thesis using Some y r by (simp add: abs_alloc_def)
  qed
next
  fix s R p
  assume r: "mem_rel mem s R \<and> mem_end mem s = e" and "p \<in> owned R"
  then obtain a l where a: "(a, l) \<in> set R" "p = a + 8" "a + 8 \<noteq> NULL" by (auto simp: owned_def)
  obtain s' where "osRtxMemoryFree mem (a + 8) s = Some (1, s')" "mem_rel mem s' (release a R)" "mem32 s' mem = mem32 s mem"
    using mem_free_ok [OF conjunct1 [OF r] a(1,3)] by blast
  then show "\<exists>s'. osRtxMemoryFree mem p s = Some (1, s') \<and> mem_rel mem s' (release (p - 8) R) \<and> mem_end mem s' = e"
    using a(2) r by auto
qed

lemma mem_init_ok:
  assumes "mem \<noteq> NULL" "8 dvd unat mem" "8 dvd unat n" "24 \<le> unat n" "unat mem + unat n < 2 ^ 32"
  shows "\<exists>s'. osRtxMemoryInit mem n s = (1, s') \<and> mem_rel mem s' [(mem + 8, 0)] \<and> mem_end mem s' = mem + n - 8"
proof -
  have al: "mem AND 7 = 0" "n AND 7 = 0" using assms(2,3) unat_mod8 by (auto simp: unat_eq_0 dvd_eq_mod_eq_0)
  define e where "e = mem + (n - 8)"
  have n8: "unat (n - 8) = unat n - 8" using unat_sub [of 8 n] assms(4) by (simp add: word_le_nat_alt)
  have ue: "unat e = unat mem + (unat n - 8)" unfolding e_def by (subst unat_add_lt) (use assms(4,5) n8 in simp_all)
  have u: "unat (mem + 8) = unat mem + 8" "unat (mem + 4) = unat mem + 4" "unat (mem + 12) = unat mem + 12" "unat (e + 4) = unat e + 4"
    using assms(4,5) ue unat_add_lt [of mem 8] unat_add_lt [of mem 4] unat_add_lt [of mem 12] unat_add_lt [of e 4] by simp_all
  define m where "m = (mem32 s)(mem := n, mem + 4 := 16, mem + 8 := e, e := NULL, e + 4 := 16, mem + 12 := 0)"
  have ne: "mem + 8 \<noteq> e" "mem + 8 \<noteq> e + 4" "mem + 12 \<noteq> e" "mem + 12 \<noteq> e + 4" "mem + 4 \<noteq> e" "mem + 4 \<noteq> e + 4" "mem \<noteq> e" "mem \<noteq> e + 4"
    using u ue assms(4) by (auto simp: word_unat_eq_iff)
  have "\<not> n < 24" using assms(4) by (simp add: word_less_nat_alt)
  then have "osRtxMemoryInit mem n s = (1, s\<lparr>mem32 := m\<rparr>)"
    using assms(1) al ne unfolding osRtxMemoryInit_def Let_def set_head_size_def set_head_used_def set_blk_next_def set_blk_info_def
      blk_next_def MemBlockPtr_def e_def [symmetric] m_def
    by (simp add: add.assoc)
  moreover have ee: "mem_end mem (s\<lparr>mem32 := m\<rparr>) = e" "e = mem + n - 8" using ne by (simp_all add: m_def e_def)
  moreover have "mem_rel mem (s\<lparr>mem32 := m\<rparr>) [(mem + 8, 0)]"
    unfolding mem_rel_def ee(1) using assms ne u ue by (simp add: m_def add.assoc)
  ultimately show ?thesis by auto
qed

text \<open>
  The size of a block is not checked: a request that wraps to no bytes at all is granted, although the pool has no
  room for it.
\<close>

lemma memory_alloc_wraps:
  assumes r: "mem_rel mem s R" and ty: "type AND NOT MB_INFO_TYPE_MASK = 0"
  shows "\<exists>s'. osRtxMemoryAlloc mem 0xFFFFFFF8 type s = Some (mem + 16 + snd (hd R), s')"
proof -
  note M = mem_relD [OF r]
  have b: "blk_bytes 0xFFFFFFF8 = 0" by (simp add: blk_bytes_def)
  obtain a l ys where R: "R = (a, l) # ys" using M(7) by (cases R) auto
  have h: "a = mem + 8" "blk_len (mem32 s) a = l" "l = 0 \<longrightarrow> mem32 s (a + 4) = 0" using M(5) R by auto
  have "mem_hole_search s 0 (mem + 8) = Some (Some a)"
    using h(1) by (simp add: mem_hole_search.simps [of s 0 "mem + 8"] Let_def)
  then have op: "osRtxMemoryAlloc mem 0xFFFFFFF8 type s = Some (alloc_at mem a 0 type s)"
    using alloc_split [OF M(1) _ ty, of "0xFFFFFFF8" s] b by simp
  have n0: "unat (mem32 s (mem + 4)) + unat (0 :: u32) < 2 ^ 32" using unat_32_lt [of "mem32 s (mem + 4)"] by simp
  define m where "m = mem_counts mem 0 s"
  note C = mem_counts_props [OF r n0, folded m_def]
  have a8: "unat a + 8 \<le> unat (mem_end mem s)" "unat mem + 8 \<le> unat a" using M(9) [of a l] R by (auto simp: max_def split: if_splits)
  have "m a = mem32 s a" "m (a + 4) = mem32 s (a + 4)"
    using C(1) [of a] C(1) [of "a + 4"] a8 unat_hdr [OF a8(1)] by simp_all
  note A = alloc_at_mem [OF m_def this, of type]
  show ?thesis
  proof (cases "mem32 s (a + 4) = 0")
    case True
    then show ?thesis using op A h R by simp
  next
    case False
    then show ?thesis using op A h R by (simp add: Let_def add.assoc add.commute)
  qed
qed

section \<open>Properties\<close>

text \<open>C37: allocating a block of variable size terminates and is first fit: the block is taken from the first hole that is big
  enough, is aligned, lies inside the pool and overlaps no other block, and the contents of the other blocks are unchanged; without
  such a hole the result is NULL and nothing changes.\<close>

theorem memory_alloc:
  assumes "mem_rel mem s R" "msize \<noteq> 0" "unat msize + 15 < 2 ^ 32" "type AND NOT MB_INFO_TYPE_MASK = 0"
  shows "case first_fit (mem_end mem s) (blk_bytes msize) R of
      None \<Rightarrow> osRtxMemoryAlloc mem msize type s = Some (NULL, s)
    | Some (x, R') \<Rightarrow> \<exists>s'. osRtxMemoryAlloc mem msize type s = Some (x + 8, s') \<and> mem_rel mem s' R' \<and> 8 dvd unat x \<and>
        (\<forall>(b, k)\<in>set R. k \<noteq> 0 \<longrightarrow> unat x + unat (blk_bytes msize) \<le> unat b \<or> unat b + unat k \<le> unat x) \<and>
        (\<forall>(b, k)\<in>set R. \<forall>y. unat b + 8 \<le> unat y \<longrightarrow> unat y < unat b + unat k \<longrightarrow> mem32 s' y = mem32 s y) \<and>
        unat msize + 8 \<le> unat (blk_bytes msize)"
  using mem_alloc_ok [OF assms] blk_bytes_props(2) [OF assms(2,3)] by (auto split: option.splits prod.splits)

text \<open>C38: after the initialisation of a pool, any sequence of allocations and of releases of allocated blocks terminates and gives
  the results of the abstract first-fit allocator; the number of used bytes is exact throughout.\<close>

theorem memory_refines:
  assumes "mem \<noteq> NULL" "8 dvd unat mem" "8 dvd unat n" "24 \<le> unat n" "unat mem + unat n < 2 ^ 32"
    and "legal_ops (abs_alloc (mem + n - 8)) (\<lambda>p. release (p - 8)) alloc_req owned ops [(mem + 8, 0)]"
  shows "\<exists>s0 s' R. osRtxMemoryInit mem n s = (1, s0) \<and>
    conc_run (kernel_alloc mem) (osRtxMemoryFree mem) ops s0 = Some (fst (abs_run (abs_alloc (mem + n - 8)) (\<lambda>p. release (p - 8)) ops [(mem + 8, 0)]), s') \<and>
    R = snd (abs_run (abs_alloc (mem + n - 8)) (\<lambda>p. release (p - 8)) ops [(mem + 8, 0)]) \<and>
    mem_rel mem s' R \<and> unat (head_used mem s') = 16 + (\<Sum>r\<leftarrow>R. unat (snd r))"
proof -
  obtain s0 where s0: "osRtxMemoryInit mem n s = (1, s0)" "mem_rel mem s0 [(mem + 8, 0)]" "mem_end mem s0 = mem + n - 8"
    using mem_init_ok [OF assms(1-5)] by blast
  obtain s' where s': "conc_run (kernel_alloc mem) (osRtxMemoryFree mem) ops s0 =
      Some (fst (abs_run (abs_alloc (mem + n - 8)) (\<lambda>p. release (p - 8)) ops [(mem + 8, 0)]), s')"
    "mem_rel mem s' (snd (abs_run (abs_alloc (mem + n - 8)) (\<lambda>p. release (p - 8)) ops [(mem + 8, 0)]))"
    using kernel_memory.refines [OF conjI [OF s0(2,3)] assms(6)] by blast
  then show ?thesis using s0(1) by (simp add: mem_rel_def head_used_def)
qed

lemma demo_memory: "\<exists>s'. osRtxMemoryInit 0x8000 0x100 demo = (1, s') \<and> mem_rel 0x8000 s' [(0x8008, 0)] \<and> mem_end 0x8000 s' = 0x80F8"
  using mem_init_ok [of "0x8000" "0x100" demo] by simp

lemma blk_bytes_20: "blk_bytes 20 = 32"
  by (simp add: blk_bytes_def)

theorem memory_alloc_witness:
  "\<exists>s0 s'. osRtxMemoryInit 0x8000 0x100 demo = (1, s0) \<and> osRtxMemoryAlloc 0x8000 20 1 s0 = Some (0x8010, s') \<and>
     mem_rel 0x8000 s' [(0x8008, 32)]"
proof -
  obtain s0 where s0: "osRtxMemoryInit 0x8000 0x100 demo = (1, s0)" "mem_rel 0x8000 s0 [(0x8008, 0)]" "mem_end 0x8000 s0 = 0x80F8"
    using demo_memory by blast
  show ?thesis using memory_alloc [OF s0(2), of 20 1] s0(1,3) blk_bytes_20 by auto
qed

theorem memory_refines_witness:
  "\<exists>s0 s'. osRtxMemoryInit 0x8000 0x100 demo = (1, s0) \<and>
     conc_run (kernel_alloc 0x8000) (osRtxMemoryFree 0x8000) [Alloc (20, 0), Alloc (100, 1), Release 0x8010, Alloc (200, 0), Alloc (8, 1)] s0 =
       Some ([0x8010, 0x8030, 0x8010, 0, 0x8010], s') \<and> mem_rel 0x8000 s' [(0x8008, 16), (0x8028, 112)]"
proof -
  let ?ops = "[Alloc (20, 0), Alloc (100, 1), Release 0x8010, Alloc (200, 0), Alloc (8, 1)] :: (u32 \<times> u32) mem_op list"
  have b: "blk_bytes 20 = 32" "blk_bytes 100 = 112" "blk_bytes 200 = 208" "blk_bytes 8 = 16" by (simp_all add: blk_bytes_def)
  have r: "abs_run (abs_alloc 0x80F8) (\<lambda>p. release (p - 8)) ?ops [(0x8008, 0)] =
      ([0x8010, 0x8030, 0x8010, 0, 0x8010], [(0x8008, 16), (0x8028, 112)])"
    by (simp add: abs_alloc_def b)
  have l: "legal_ops (abs_alloc 0x80F8) (\<lambda>p. release (p - 8)) alloc_req owned ?ops [(0x8008, 0)]"
    by (simp add: abs_alloc_def b alloc_req_def owned_def)
  show ?thesis using memory_refines [of "0x8000" "0x100" ?ops demo] r l by auto
qed

end
