(* ===== verification/TimerSpec.thy ===== *)
theory TimerSpec
  imports Timer MsgSpec Delta
begin

text \<open>
  What software timers promise.  The abstract state of the timer list is the sequence of the running timers, each with
  the number of ticks until it expires; it is a delta queue like the delay list of the threads, with its own code.
\<close>

section \<open>The list of timers\<close>

definition tm_inv :: "rtx \<Rightarrow> addr list \<Rightarrow> bool" where
  "tm_inv s T \<longleftrightarrow> dseg (tm_next s) (tm_prev s) NULL (timer_list s) T \<and> distinct T \<and> delta_sum (tm_tick s) T < 2 ^ 32"

definition timers :: "rtx \<Rightarrow> addr list \<Rightarrow> (addr \<times> nat) list" where
  "timers s T = delta_abs (tm_tick s) 0 T"

definition tm_frame :: "rtx \<Rightarrow> rtx \<Rightarrow> bool" where
  "tm_frame s s' \<longleftrightarrow> (\<exists>nx pv d l. s' = s\<lparr>tm_next := nx, tm_prev := pv, tm_tick := d, timer_list := l\<rparr>)"

lemma tm_frameI: "s' = s\<lparr>tm_next := tm_next s', tm_prev := tm_prev s', tm_tick := tm_tick s', timer_list := timer_list s'\<rparr> \<Longrightarrow> tm_frame s s'"
  unfolding tm_frame_def by blast

lemma tm_frame_core: "tm_frame s s' \<Longrightarrow> core_eq s s'"
  by (auto simp: tm_frame_def core_eq_def)

lemma tm_frameD:
  assumes "tm_frame s s'"
  shows "o_id s' = o_id s" "o_flags s' = o_flags s" "o_state s' = o_state s" "tm_type s' = tm_type s" "tm_load s' = tm_load s"
    "timer_mq s' = timer_mq s" "timer_tick_on s' = timer_tick_on s" "mem8 s' = mem8 s" "mem32 s' = mem32 s" "mq_msg_size s' = mq_msg_size s"
    "mp_max_blocks s' = mp_max_blocks s" "mp_used_blocks s' = mp_used_blocks s" "mp_block_size s' = mp_block_size s"
    "mp_block_base s' = mp_block_base s" "mp_block_lim s' = mp_block_lim s" "mp_block_free s' = mp_block_free s"
    "isr_items s' = isr_items s" "isr_inv s' = isr_inv s" "isr_max s' = isr_max s" "msg_next s' = msg_next s"
  using assms by (auto simp: tm_frame_def isr_items_def isr_inv_def)

lemma tm_frame_trans: "tm_frame s s1 \<Longrightarrow> tm_frame s1 s2 \<Longrightarrow> tm_frame s s2"
  unfolding tm_frame_def by force

text \<open>The running timers are those in the list.\<close>

definition tm_running :: "rtx \<Rightarrow> addr list \<Rightarrow> bool" where
  "tm_running s T \<longleftrightarrow> (\<forall>t. t \<noteq> NULL \<and> o_id s t = osRtxIdTimer \<longrightarrow> (o_state s t = osRtxTimerRunning \<longleftrightarrow> t \<in> set T))"

lemma timer_search_dseg:
  "dseg (tm_next s) (tm_prev s) p c T \<Longrightarrow> delta_split (tm_tick s) v T = (xs, ys, w)
   \<Longrightarrow> timer_search s v p c = Some (last (p # xs), hd0 ys, w)"
proof (induction T arbitrary: p c v xs)
  case Nil
  then show ?case by (auto simp: timer_search.simps [of s w p NULL])
next
  case (Cons t T)
  then have c: "c = t" "t \<noteq> NULL" "dseg (tm_next s) (tm_prev s) t (tm_next s t) T" by simp_all
  show ?case
  proof (cases "tm_tick s t \<le> v")
    case True
    then obtain xs' where x: "xs = t # xs'" "delta_split (tm_tick s) (v - tm_tick s t) T = (xs', ys, w)"
      using Cons.prems(2) by (auto split: prod.splits)
    show ?thesis using Cons.IH [OF c(3) x(2)] True c(1,2) x(1)
      by (simp add: timer_search.simps [of s v p t])
  next
    case False
    then show ?thesis using Cons.prems(2) c(1,2) by (auto simp: timer_search.simps [of s w p t])
  qed
qed

lemma TimerInsert_ok:
  assumes inv: "tm_inv s T" and t: "t \<noteq> NULL" "t \<notin> set T"
  shows "\<exists>s' T'. TimerInsert t v s = Some s' \<and> tm_inv s' T' \<and> tm_frame s s' \<and> set T' = insert t (set T) \<and>
    timers s' T' = ins_after (\<lambda>(x, n). n \<le> unat v) (t, unat v) (timers s T)"
proof -
  note I = inv [unfolded tm_inv_def]
  obtain xs ys w where sp: "delta_split (tm_tick s) v T = (xs, ys, w)" by (cases "delta_split (tm_tick s) v T") auto
  note S = delta_split [OF sp]
  let ?q = "last (NULL # xs)" and ?n = "hd0 ys"
  define s' where "s' = s\<lparr>
      tm_tick := (if ?n \<noteq> NULL then (tm_tick s)(t := w, ?n := tm_tick s ?n - w) else (tm_tick s)(t := w)),
      tm_prev := (if ?n \<noteq> NULL then (tm_prev s)(t := ?q, ?n := t) else (tm_prev s)(t := ?q)),
      tm_next := (if ?q \<noteq> NULL then (tm_next s)(t := ?n, ?q := t) else (tm_next s)(t := ?n)),
      timer_list := (if ?q \<noteq> NULL then timer_list s else t)\<rparr>"
  have dsT: "dseg (tm_next s) (tm_prev s) NULL (timer_list s) T" using I by blast
  have se: "timer_search s v NULL (timer_list s) = Some (?q, ?n, w)" by (rule timer_search_dseg [OF dsT sp])
  have nn: "NULL \<notin> set T" using dsT dseg_nonnull by blast
  have nt: "?n \<noteq> t" using t S(1) by (cases ys) auto
  have e: "TimerInsert t v s = Some s'"
    using t(1) nt by (simp add: TimerInsert_def se s'_def Let_def del: last.simps)
  have qxs: "?q = NULL \<longleftrightarrow> xs = []" using nn S(1) by (intro last_eq_NULL) auto
  have d: "distinct (t # xs @ ys)" using I S(1) t by auto
  have d1: "tm_tick s' t = w" using nt by (simp add: s'_def)
  have d2: "\<And>x. x \<in> set xs \<Longrightarrow> tm_tick s' x = tm_tick s x"
    using d by (cases ys) (auto simp: s'_def)
  have d3: "tm_tick s' y = tm_tick s y - w \<and> (\<forall>x\<in>set zs. tm_tick s' x = tm_tick s x)" if "ys = y # zs" for y zs
    using d that nn S(1) by (auto simp: s'_def)
  have "dseg (tm_next s') (tm_prev s') NULL (timer_list s') (xs @ t # ys)"
    by (rule dseg_insert [where nx = "tm_next s" and pv = "tm_prev s" and c = "timer_list s" and n = ?n and q = ?q])
      (use dsT S(1) t d qxs nt in \<open>auto simp: s'_def simp del: last.simps\<close>)
  moreover have "delta_sum (tm_tick s') (xs @ t # ys) < 2 ^ 32"
    using delta_insert_sum [OF sp d1 d2 d3] I unat_32_lt [of v] by simp
  moreover have "distinct (xs @ t # ys)" using d by auto
  ultimately have "tm_inv s' (xs @ t # ys)" unfolding tm_inv_def by blast
  moreover have "timers s' (xs @ t # ys) = ins_after (\<lambda>(x, n). n \<le> unat v) (t, unat v) (timers s T)"
    using delta_insert_abs [OF sp, of t "tm_tick s'" 0] d S(1) d1 d2 d3 by (simp add: timers_def)
  moreover have "tm_frame s s'" by (rule tm_frameI) (simp add: s'_def)
  moreover have "set (xs @ t # ys) = insert t (set T)" using S(1) by auto
  ultimately show ?thesis using e by blast
qed

lemma TimerRemove_ok:
  assumes inv: "tm_inv s T" and t: "t \<in> set T"
  shows "tm_inv (TimerRemove t s) (remove1 t T)" "tm_frame s (TimerRemove t s)"
    "timers (TimerRemove t s) (remove1 t T) = filter (\<lambda>(x, n). x \<noteq> t) (timers s T)"
proof -
  note I = inv [unfolded tm_inv_def]
  obtain xs ys where T: "T = xs @ t # ys" using t by (meson split_list)
  have ds: "dseg (tm_next s) (tm_prev s) NULL (timer_list s) (xs @ t # ys)" using I T by simp
  note m = dseg_middle [OF ds]
  let ?q = "last (NULL # xs)" and ?n = "hd0 ys"
  define s' where "s' = s\<lparr>
      tm_tick := (if ?n \<noteq> NULL then (tm_tick s)(?n := tm_tick s ?n + tm_tick s t) else tm_tick s),
      tm_prev := (if ?n \<noteq> NULL then (tm_prev s)(?n := ?q) else tm_prev s),
      tm_next := (if ?q \<noteq> NULL then (tm_next s)(?q := ?n) else tm_next s),
      timer_list := (if ?q \<noteq> NULL then timer_list s else ?n)\<rparr>"
  have nn: "NULL \<notin> set T" using ds T dseg_nonnull by blast
  have qxs: "?q = NULL \<longleftrightarrow> xs = []" using nn T by (intro last_eq_NULL) auto
  have d: "distinct (xs @ t # ys)" using I T by auto
  have nt: "?n \<noteq> t" using d m(3) by (cases ys) auto
  have qt: "?q \<noteq> t" using d m(3) by (cases xs rule: rev_cases) auto
  have e: "TimerRemove t s = s'"
    using m nt qt qxs by (cases "xs = []") (simp_all add: TimerRemove_def s'_def Let_def)
  have d2: "\<And>x. x \<in> set xs \<Longrightarrow> tm_tick s' x = tm_tick s x"
    using d by (cases ys) (auto simp: s'_def)
  have d3: "tm_tick s' y = tm_tick s y + tm_tick s t \<and> (\<forall>x\<in>set zs. tm_tick s' x = tm_tick s x)" if "ys = y # zs" for y zs
    using d that nn T by (auto simp: s'_def)
  have sum: "delta_sum (tm_tick s) (xs @ t # ys) < 2 ^ 32" using I T by simp
  have "dseg (tm_next s') (tm_prev s') NULL (timer_list s') (xs @ ys)"
    by (rule dseg_remove [OF ds d refl refl]) (use qxs in \<open>auto simp: s'_def Let_def simp del: last.simps hd0_simps\<close>)
  moreover have "delta_sum (tm_tick s') (xs @ ys) < 2 ^ 32"
    using delta_remove_sum [of "tm_tick s" xs t ys "tm_tick s'"] sum d2 d3 by simp
  moreover have r: "remove1 t T = xs @ ys" using T d by (simp add: remove1_middle)
  ultimately show "tm_inv (TimerRemove t s) (remove1 t T)" using d unfolding e r tm_inv_def by auto
  show "timers (TimerRemove t s) (remove1 t T) = filter (\<lambda>(x, n). x \<noteq> t) (timers s T)"
    unfolding timers_def e r unfolding T by (rule delta_remove_abs [OF d sum d2 d3])
  show "tm_frame s (TimerRemove t s)" unfolding e by (rule tm_frameI) (simp add: s'_def)
qed

section \<open>Sending the callback\<close>

text \<open>Registering an object for post-ISR processing changes nothing but the ISR queue.\<close>

definition post_frame :: "rtx \<Rightarrow> rtx \<Rightarrow> bool" where
  "post_frame s s' \<longleftrightarrow> (\<exists>c i d q p. s' = s\<lparr>isr_cnt := c, isr_in := i, isr_data := d, IRQ_PendSV := q, k_pendSV := p\<rparr>)"

lemma post_ok:
  assumes i: "isr_inv s" and x: "x \<noteq> NULL" and l: "length (isr_items s) < unat (isr_max s)"
  shows "\<exists>s'. osRtxPostProcess x s = Some s' \<and> post_frame s s' \<and> isr_inv s' \<and> isr_items s' = isr_items s @ [x] \<and> isr_max s' = isr_max s"
proof -
  obtain s1 where s1: "isr_put x s = (True, s1)" "isr_inv s1" "unat (isr_max s1) = unat (isr_max s)" "isr_items s1 = isr_items s @ [x]"
    using isr_fifo.put_ok [OF i x] l by auto
  obtain r where r: "isr_queue_put x s = (r, s1)" "r \<noteq> 0" using s1(1) by (auto simp: isr_put_def split: prod.splits)
  obtain a b d where eq: "s1 = s\<lparr>isr_cnt := a, isr_in := b, isr_data := d\<rparr>"
    using r by (auto simp: isr_queue_put_def Let_def split_beta split: if_splits)
  define s' where "s' = (if k_blocked s1 = 0 then s1\<lparr>IRQ_PendSV := True\<rparr> else s1\<lparr>k_pendSV := 1\<rparr>)"
  have "osRtxPostProcess x s = Some s'" using r by (simp add: osRtxPostProcess_def s'_def)
  moreover have "s' = s\<lparr>isr_cnt := a, isr_in := b, isr_data := d, IRQ_PendSV := IRQ_PendSV s', k_pendSV := k_pendSV s'\<rparr>"
    by (simp add: s'_def eq)
  then have "post_frame s s'" unfolding post_frame_def by blast
  moreover have "isr_inv s'" "isr_items s' = isr_items s @ [x]" "isr_max s' = isr_max s"
    using s1(2-4) by (auto simp: s'_def isr_inv_def isr_items_def word_unat_eq_iff)
  ultimately show ?thesis by blast
qed

text \<open>The queue of the timer thread: the free blocks \<open>F\<close> can take messages from interrupts.\<close>

definition mq_ready :: "addr \<Rightarrow> rtx \<Rightarrow> addr list \<Rightarrow> addr set \<Rightarrow> bool" where
  "mq_ready mq s F U \<longleftrightarrow> mq \<noteq> NULL \<and> o_id s mq = osRtxIdMessageQueue \<and> mq \<notin> set (mq_blocks mq s) \<and> pool_rel (mp_info_of mq) s F U \<and>
     isr_inv s \<and> 12 + unat (mq_msg_size s mq) \<le> unat (mp_block_size s (mp_info_of mq))"

text \<open>What the tick leaves alone outside the list of timers.\<close>

definition tick_frame :: "addr \<Rightarrow> rtx \<Rightarrow> rtx \<Rightarrow> bool" where
  "tick_frame mq s s' \<longleftrightarrow> tm_type s' = tm_type s \<and> tm_load s' = tm_load s \<and> timer_mq s' = timer_mq s \<and> mq_msg_size s' = mq_msg_size s \<and>
     isr_max s' = isr_max s \<and> mq_blocks mq s' = mq_blocks mq s \<and> (\<forall>x. o_id s' x = osRtxIdTimer \<longrightarrow> o_id s x = osRtxIdTimer)"

lemma tick_frame_trans: "tick_frame mq s s1 \<Longrightarrow> tick_frame mq s1 s2 \<Longrightarrow> tick_frame mq s s2"
  by (simp add: tick_frame_def)

lemma timer_post:
  assumes m: "mq_ready mq s (b # F) U" and src: "src \<noteq> NULL" and l: "length (isr_items s) < unat (isr_max s)"
  shows "\<exists>s'. osMessageQueuePut True mq src p 0 s = Some (osOK, s') \<and> mq_ready mq s' F (insert b U) \<and> tick_frame mq s s' \<and>
    isr_items s' = isr_items s @ [b] \<and> bytes s' (msg_data b) (mq_msg_size s mq) = bytes s src (mq_msg_size s mq) \<and>
    (\<forall>x. x \<notin> area (msg_data b) (mq_msg_size s mq) \<longrightarrow> mem8 s' x = mem8 s x) \<and> o_state s' = o_state s \<and>
    tm_next s' = tm_next s \<and> tm_prev s' = tm_prev s \<and> tm_tick s' = tm_tick s \<and> timer_list s' = timer_list s"
proof -
  note M = m [unfolded mq_ready_def]
  have pr: "pool_rel (mp_info_of mq) s (b # F) U" using M by blast
  note A = pool_alloc_Cons [OF pr]
  define s1 where "s1 = s\<lparr>mp_block_free := (mp_block_free s)(mp_info_of mq := mem32 s b),
     mp_used_blocks := (mp_used_blocks s)(mp_info_of mq := mp_used_blocks s (mp_info_of mq) + 1)\<rparr>"
  let ?n = "mq_msg_size s mq"
  define s2 where "s2 = (let s = msg_init b p (memcpy (msg_data b) src ?n s1)
     in s\<lparr>msg_prev := (msg_prev s)(b := src), msg_next := (msg_next s)(b := mq)\<rparr>)"
  have i2: "isr_inv s2" "isr_items s2 = isr_items s" "isr_max s2 = isr_max s"
    using M by (simp_all add: s2_def s1_def msg_init_def memcpy_def isr_inv_def isr_items_def)
  obtain s' where s': "osRtxPostProcess b s2 = Some s'" "post_frame s2 s'" "isr_inv s'" "isr_items s' = isr_items s2 @ [b]" "isr_max s' = isr_max s2"
    using post_ok [OF i2(1) A(2)] i2 l by auto
  obtain c i d q pv where e: "s' = s2\<lparr>isr_cnt := c, isr_in := i, isr_data := d, IRQ_PendSV := q, k_pendSV := pv\<rparr>"
    using s'(2) unfolding post_frame_def by blast
  have op: "osMessageQueuePut True mq src p 0 s = Some (osOK, s')"
    using M src A(1,2) s'(1) by (simp add: osMessageQueuePut_def isrRtxMessageQueuePut_def s1_def s2_def Let_def)
  have p1: "pool_rel (mp_info_of mq) s1 F (insert b U)" unfolding s1_def by (rule A(3))
  have "pool_rel (mp_info_of mq) s' F (insert b U)"
    using p1 by (simp add: e s2_def pool_rel_def msg_init_def memcpy_def)
  moreover have bb: "b \<in> set (mq_blocks mq s)" using pool_relD(4) [OF pr] by simp
  moreover have id: "o_id s' mq = o_id s mq" using bb M by (auto simp: e s2_def s1_def msg_init_def memcpy_def)
  moreover have tf: "tick_frame mq s s'" using i2(3) s'(5) by (simp add: tick_frame_def e s2_def s1_def msg_init_def memcpy_def)
  moreover have "mp_block_size s' = mp_block_size s" by (simp add: e s2_def s1_def msg_init_def memcpy_def)
  ultimately have "mq_ready mq s' F (insert b U)" using M s'(3) unfolding mq_ready_def tick_frame_def by auto
  moreover have m1: "mem8 s1 = mem8 s" by (simp add: s1_def)
  moreover have m8: "mem8 s' = mem8 (memcpy (msg_data b) src ?n s)"
    by (simp add: e s2_def msg_init_def memcpy_def m1 cong: if_cong)
  have "bytes s' (msg_data b) ?n = bytes (memcpy (msg_data b) src ?n s) (msg_data b) ?n" by (rule bytes_cong) (simp add: m8)
  then have "bytes s' (msg_data b) ?n = bytes s src ?n" by (simp add: bytes_memcpy)
  moreover have "\<forall>x. x \<notin> area (msg_data b) ?n \<longrightarrow> mem8 s' x = mem8 s x" by (simp add: m8 memcpy_out)
  moreover have "o_state s' = o_state s" "tm_next s' = tm_next s" "tm_prev s' = tm_prev s" "tm_tick s' = tm_tick s" "timer_list s' = timer_list s"
    by (simp_all add: e s2_def s1_def msg_init_def memcpy_def)
  ultimately show ?thesis using op tf s'(4) i2(2) by auto
qed

section \<open>The tick\<close>

lemma TimerUnlink_ok:
  assumes inv: "tm_inv s (t # T)" and z: "tm_tick s t = 0"
  shows "tm_inv (TimerUnlink t s) T" "tm_frame s (TimerUnlink t s)" "timers (TimerUnlink t s) T = tl (timers s (t # T))"
proof -
  note I = inv [unfolded tm_inv_def]
  have ds: "timer_list s = t" "t \<noteq> NULL" "tm_prev s t = NULL" "dseg (tm_next s) (tm_prev s) t (tm_next s t) T" using I by auto
  define s' where "s' = TimerUnlink t s"
  have nx: "tm_next s t = hd0 T" by (rule dseg_root [OF ds(4)])
  have nn: "NULL \<notin> set T" by (rule dseg_nonnull [OF ds(4)])
  have e: "tm_next s' = tm_next s" "tm_tick s' = tm_tick s" "timer_list s' = hd0 T"
    "tm_prev s' = (if T = [] then tm_prev s else (tm_prev s)(hd0 T := NULL))"
    using nx nn ds(3) by (cases T; simp add: s'_def TimerUnlink_def)+
  have "dseg (tm_next s') (tm_prev s') NULL (timer_list s') T"
  proof (cases T)
    case (Cons u T')
    have "dseg (tm_next s) (tm_prev s) u (tm_next s u) T'" using ds(4) Cons by simp
    then have "dseg (tm_next s') (tm_prev s') u (tm_next s' u) T'"
      by (subst dseg_frame [where nx = "tm_next s" and pv = "tm_prev s"]) (use e Cons I in auto)
    then show ?thesis using e Cons nn by simp
  qed (simp add: e)
  then show "tm_inv (TimerUnlink t s) T" using I e z unfolding s'_def [symmetric] tm_inv_def by simp
  show "tm_frame s (TimerUnlink t s)" by (rule tm_frameI) (simp add: TimerUnlink_def)
  show "timers (TimerUnlink t s) T = tl (timers s (t # T))" using e z unfolding s'_def [symmetric] timers_def by simp
qed

text \<open>The nodes at zero are a prefix of the list.\<close>

lemma delta_zero_prefix:
  "delta_abs d 0 ts = map (\<lambda>t. (t, 0)) (map fst (filter (\<lambda>(x, n). n = 0) (delta_abs d 0 ts))) @ filter (\<lambda>(x, n). n \<noteq> 0) (delta_abs d 0 ts)"
proof -
  have z: "delta_abs d 0 zs = map (\<lambda>t. (t, 0)) zs \<and> delta_sum d zs = 0" if "\<forall>z\<in>set zs. d z = 0" for zs
    using that by (induction zs) auto
  let ?zs = "takeWhile (\<lambda>t. d t = 0) ts"
  have "delta_abs d 0 ts = delta_abs d 0 (?zs @ dropWhile (\<lambda>t. d t = 0) ts)" by simp
  also have "\<dots> = map (\<lambda>t. (t, 0)) ?zs @ delta_abs d 0 (dropWhile (\<lambda>t. d t = 0) ts)"
    using z [of ?zs] set_takeWhileD by (fastforce simp: delta_abs_append simp del: takeWhile_dropWhile_id)
  finally show ?thesis unfolding delta_zeros [OF refl, of d ts] .
qed

lemma timers_head:
  assumes "tm_inv s T" "timers s T = (z, n) # xs"
  shows "\<exists>T'. T = z # T' \<and> unat (tm_tick s z) = n" "timer_list s = z" "z \<noteq> NULL" "z \<notin> fst ` set xs"
proof -
  have f: "map fst (timers s T) = T" by (simp add: timers_def)
  then obtain T' where T: "T = z # T'" "map fst xs = T'" using assms(2) by auto
  then show "\<exists>T'. T = z # T' \<and> unat (tm_tick s z) = n" using assms(2) by (simp add: timers_def)
  show "timer_list s = z" "z \<noteq> NULL" "z \<notin> fst ` set xs"
    using assms(1) T by (auto simp: tm_inv_def simp flip: set_map)
qed

text \<open>A periodic timer is put back with its period, a one-shot timer is not.\<close>

definition rearm :: "rtx \<Rightarrow> addr \<Rightarrow> (addr \<times> nat) list \<Rightarrow> (addr \<times> nat) list" where
  "rearm s t A = (if tm_type s t = osTimerPeriodic
     then ins_after (\<lambda>(x, n). n \<le> unat (tm_load s t)) (t, unat (tm_load s t)) A else A)"

definition stopped :: "rtx \<Rightarrow> addr list \<Rightarrow> addr \<Rightarrow> u8" where
  "stopped s zs x = (if x \<in> set zs \<and> tm_type s x \<noteq> osTimerPeriodic then osRtxTimerStopped else o_state s x)"

lemma ins_after_zeros:
  "ins_after (\<lambda>(x, n). n \<le> v) (t, v) (map (\<lambda>z. (z, 0)) zs @ A) = map (\<lambda>z. (z, 0)) zs @ ins_after (\<lambda>(x, n). n \<le> v) (t, v) A" for v :: nat
  by (induction zs) (simp_all add: ins_after_Cons)

text \<open>One round of the loop.\<close>

lemma timer_round:
  assumes inv: "tm_inv s T" and tms: "timers s T = (z, 0) # map (\<lambda>z. (z, 0)) zs @ A" and m: "mq_ready (timer_mq s) s (b # F) U"
    and l: "length (isr_items s) < unat (isr_max s)" and fi: "timer_finfo z \<noteq> NULL"
  shows "\<exists>s' T'. timer_tick_loop (timer_list s) s = timer_tick_loop (timer_list s') s' \<and> tm_inv s' T' \<and>
    timers s' T' = map (\<lambda>z. (z, 0)) zs @ rearm s z A \<and> mq_ready (timer_mq s) s' F (insert b U) \<and> tick_frame (timer_mq s) s s' \<and>
    isr_items s' = isr_items s @ [b] \<and> o_state s' = stopped s [z] \<and>
    bytes s' (msg_data b) (mq_msg_size s (timer_mq s)) = bytes s (timer_finfo z) (mq_msg_size s (timer_mq s)) \<and>
    (\<forall>x. x \<notin> area (msg_data b) (mq_msg_size s (timer_mq s)) \<longrightarrow> mem8 s' x = mem8 s x)"
proof -
  let ?mq = "timer_mq s"
  note H = timers_head [OF inv tms]
  obtain T1 where T: "T = z # T1" and z0: "tm_tick s z = 0" using H(1) by (auto simp: unat_eq_0)
  have zT: "z \<notin> set T1" using inv T by (simp add: tm_inv_def)
  define s1 where "s1 = TimerUnlink z s"
  note U = TimerUnlink_ok [OF inv [unfolded T] z0, folded s1_def]
  note f1 = tm_frameD [OF U(2)]
  have t1: "timers s1 T1 = map (\<lambda>z. (z, 0)) zs @ A" using U(3) tms T by simp
  have m1: "mq_ready ?mq s1 (b # F) U" using m by (simp add: mq_ready_def f1 pool_rel_def)
  obtain s2 where s2: "osMessageQueuePut True ?mq (timer_finfo z) 0 0 s1 = Some (osOK, s2)" "mq_ready ?mq s2 F (insert b U)"
    "tick_frame ?mq s1 s2" "isr_items s2 = isr_items s1 @ [b]"
    "bytes s2 (msg_data b) (mq_msg_size s1 ?mq) = bytes s1 (timer_finfo z) (mq_msg_size s1 ?mq)"
    "\<forall>x. x \<notin> area (msg_data b) (mq_msg_size s1 ?mq) \<longrightarrow> mem8 s2 x = mem8 s1 x" "o_state s2 = o_state s1"
    "tm_next s2 = tm_next s1" "tm_prev s2 = tm_prev s1" "tm_tick s2 = tm_tick s1" "timer_list s2 = timer_list s1"
    using timer_post [OF m1 fi, of 0] l f1 by auto
  have i2: "tm_inv s2 T1" "timers s2 T1 = map (\<lambda>z. (z, 0)) zs @ A" using U(1) t1 s2(8-11) by (simp_all add: tm_inv_def timers_def)
  have tf: "tick_frame ?mq s s2" using s2(3) by (simp add: tick_frame_def f1)
  have by1: "bytes s1 (timer_finfo z) n = bytes s (timer_finfo z) n" for n by (rule bytes_cong) (simp add: f1)
  define s3 where "s3 = (if tm_type s z = osTimerPeriodic then TimerInsert z (tm_load s z) s2 else Some (s2\<lparr>o_state := (o_state s2)(z := osRtxTimerStopped)\<rparr>))"
  have e: "timer_tick_loop (timer_list s) s = s3 \<bind> (\<lambda>s'. timer_tick_loop (timer_list s') s')"
    using H(2,3) z0 s2(1) f1 tf
    by (simp add: timer_tick_loop.simps [of z s] s1_def [symmetric] s3_def tick_frame_def)
  show ?thesis
  proof (cases "tm_type s z = osTimerPeriodic")
    case True
    obtain s' T' where i: "TimerInsert z (tm_load s z) s2 = Some s'" "tm_inv s' T'" "tm_frame s2 s'"
      "timers s' T' = ins_after (\<lambda>(x, n). n \<le> unat (tm_load s z)) (z, unat (tm_load s z)) (timers s2 T1)"
      using TimerInsert_ok [OF i2(1) H(3) zT, of "tm_load s z"] by blast
    note f3 = tm_frameD [OF i(3)]
    have "timers s' T' = map (\<lambda>z. (z, 0)) zs @ rearm s z A" using i(4) i2(2) True by (simp add: rearm_def ins_after_zeros)
    moreover have "mq_ready ?mq s' F (insert b U)" using s2(2) by (simp add: mq_ready_def f3 pool_rel_def)
    moreover have "tick_frame ?mq s s'" using tf by (simp add: tick_frame_def f3)
    moreover have "isr_items s' = isr_items s @ [b]" using s2(4) by (simp add: f3 f1)
    moreover have "o_state s' = stopped s [z]" using True s2(7) by (simp add: f3 f1 stopped_def fun_eq_iff)
    moreover have "bytes s' (msg_data b) (mq_msg_size s ?mq) = bytes s (timer_finfo z) (mq_msg_size s ?mq)"
      using s2(5) bytes_cong [of "msg_data b" _ s' s2] by (simp add: f3 f1 by1)
    moreover have "\<forall>x. x \<notin> area (msg_data b) (mq_msg_size s ?mq) \<longrightarrow> mem8 s' x = mem8 s x" using s2(6) by (simp add: f3 f1)
    moreover have "timer_tick_loop (timer_list s) s = timer_tick_loop (timer_list s') s'" using e i(1) True by (simp add: s3_def)
    ultimately show ?thesis using i(2) by blast
  next
    case False
    define s' where "s' = s2\<lparr>o_state := (o_state s2)(z := osRtxTimerStopped)\<rparr>"
    have "tm_inv s' T1" "timers s' T1 = map (\<lambda>z. (z, 0)) zs @ rearm s z A"
      using i2 False by (simp_all add: s'_def tm_inv_def timers_def rearm_def)
    moreover have "mq_ready ?mq s' F (insert b U)" using s2(2) by (simp add: mq_ready_def s'_def pool_rel_def isr_inv_def isr_items_def)
    moreover have "tick_frame ?mq s s'" using tf by (simp add: tick_frame_def s'_def)
    moreover have "isr_items s' = isr_items s2" by (simp add: s'_def isr_items_def)
    moreover from this have "isr_items s' = isr_items s @ [b]" using s2(4) by (simp add: f1)
    moreover have "o_state s' = stopped s [z]" using False s2(7) by (simp add: s'_def f1 stopped_def fun_eq_iff)
    moreover have "bytes s' (msg_data b) (mq_msg_size s ?mq) = bytes s (timer_finfo z) (mq_msg_size s ?mq)"
      using s2(5) bytes_cong [of "msg_data b" _ s' s2] by (simp add: s'_def f1 by1)
    moreover have "\<forall>x. x \<notin> area (msg_data b) (mq_msg_size s ?mq) \<longrightarrow> mem8 s' x = mem8 s x" using s2(6) by (simp add: s'_def f1)
    moreover have "timer_tick_loop (timer_list s) s = timer_tick_loop (timer_list s') s'" using e False by (simp add: s3_def s'_def)
    ultimately show ?thesis by blast
  qed
qed

text \<open>The blocks are filled in order, each with the callback of one timer; the buffers of the callbacks lie outside.\<close>

definition callbacks_apart :: "rtx \<Rightarrow> addr list \<Rightarrow> bool" where
  "callbacks_apart s zs \<longleftrightarrow> (\<forall>z\<in>set zs. timer_finfo z \<noteq> NULL \<and>
     area (timer_finfo z) (mq_msg_size s (timer_mq s)) \<inter> mq_data (timer_mq s) s = {})"

lemma mq_data_frame: "tick_frame mq s s' \<Longrightarrow> mq_data mq s' = mq_data mq s"
  by (simp add: mq_data_def tick_frame_def)

lemma rearm_frame: "tick_frame mq s s' \<Longrightarrow> rearm s' = rearm s"
  by (simp add: fun_eq_iff rearm_def tick_frame_def)

lemma stopped_trans: "tick_frame mq s s1 \<Longrightarrow> o_state s1 = stopped s [z] \<Longrightarrow> stopped s1 zs = stopped s (z # zs)"
  by (auto simp: fun_eq_iff stopped_def tick_frame_def)

lemma ready_apart:
  assumes "mq_ready mq s (b # F) U" "c \<in> set F"
  shows "area (msg_data c) (mq_msg_size s mq) \<inter> area (msg_data b) (mq_msg_size s mq) = {}"
    "area (msg_data b) (mq_msg_size s mq) \<subseteq> mq_data mq s"
proof -
  have p: "pool_rel (mp_info_of mq) s (b # F) U" and m: "12 + unat (mq_msg_size s mq) \<le> unat (mp_block_size s (mp_info_of mq))"
    using assms(1) by (simp_all add: mq_ready_def)
  have "b \<in> set (mq_blocks mq s)" "c \<in> set (mq_blocks mq s)" "c \<noteq> b" using p assms(2) by (auto simp: pool_rel_def)
  moreover have "pool_fits (mp_block_base s (mp_info_of mq)) (mp_block_size s (mp_info_of mq)) (unat (mp_max_blocks s (mp_info_of mq)))"
    using p by (simp add: pool_rel_def)
  ultimately show "area (msg_data c) (mq_msg_size s mq) \<inter> area (msg_data b) (mq_msg_size s mq) = {}"
    "area (msg_data b) (mq_msg_size s mq) \<subseteq> mq_data mq s"
    using blocks_apart [OF _ _ _ _ m] by (auto simp: mq_data_def)
qed

lemma timer_tick_loop_ok:
  assumes "tm_inv s T" "timers s T = map (\<lambda>z. (z, 0)) zs @ A" "\<forall>(t, n)\<in>set A. n \<noteq> 0" "\<forall>z\<in>set zs. tm_load s z \<noteq> 0"
    and "mq_ready (timer_mq s) s F U" "length zs \<le> length F" "length (isr_items s) + length zs \<le> unat (isr_max s)" "callbacks_apart s zs"
  shows "\<exists>s' T'. timer_tick_loop (timer_list s) s = Some s' \<and> tm_inv s' T' \<and> timers s' T' = fold (rearm s) zs A \<and>
    (\<forall>(t, n)\<in>set (timers s' T'). n \<noteq> 0) \<and>
    mq_ready (timer_mq s) s' (drop (length zs) F) (U \<union> set (take (length zs) F)) \<and> tick_frame (timer_mq s) s s' \<and>
    isr_items s' = isr_items s @ take (length zs) F \<and> o_state s' = stopped s zs \<and>
    map (\<lambda>b. bytes s' (msg_data b) (mq_msg_size s (timer_mq s))) (take (length zs) F)
      = map (\<lambda>z. bytes s (timer_finfo z) (mq_msg_size s (timer_mq s))) zs \<and>
    (\<forall>x. (\<forall>b\<in>set F. x \<notin> area (msg_data b) (mq_msg_size s (timer_mq s))) \<longrightarrow> mem8 s' x = mem8 s x)"
  using assms
proof (induction zs arbitrary: s T A F U)
  case Nil
  have "timer_tick_loop (timer_list s) s = Some s"
  proof (cases T)
    case (Cons t T')
    then have "timer_list s = t" "tm_tick s t \<noteq> 0" using Nil(1-3) by (auto simp: tm_inv_def timers_def unat_eq_0)
    then show ?thesis by (simp add: timer_tick_loop.simps [of t s])
  qed (use Nil(1) in \<open>simp add: tm_inv_def timer_tick_loop.simps [of NULL s]\<close>)
  moreover have "stopped s [] = o_state s" by (simp add: fun_eq_iff stopped_def)
  moreover have "tick_frame (timer_mq s) s s" by (simp add: tick_frame_def)
  ultimately show ?case using Nil(1-5) by (intro exI [of _ s] exI [of _ T]) simp
next
  case (Cons z zs)
  let ?mq = "timer_mq s" and ?n = "mq_msg_size s (timer_mq s)"
  obtain b F' where F: "F = b # F'" using Cons.prems(6) by (cases F) auto
  have fi: "timer_finfo z \<noteq> NULL" using Cons.prems(8) by (simp add: callbacks_apart_def)
  obtain s1 T1 where s1: "timer_tick_loop (timer_list s) s = timer_tick_loop (timer_list s1) s1" "tm_inv s1 T1"
    "timers s1 T1 = map (\<lambda>z. (z, 0)) zs @ rearm s z A" "mq_ready ?mq s1 F' (insert b U)" "tick_frame ?mq s s1"
    "isr_items s1 = isr_items s @ [b]" "o_state s1 = stopped s [z]" "bytes s1 (msg_data b) ?n = bytes s (timer_finfo z) ?n"
    "\<forall>x. x \<notin> area (msg_data b) ?n \<longrightarrow> mem8 s1 x = mem8 s x"
    using timer_round [OF Cons.prems(1) _ Cons.prems(5) [unfolded F] _ fi, of zs A] Cons.prems(2,7) by auto
  note tf = s1(5) [unfolded tick_frame_def]
  have nz: "\<forall>(t, n)\<in>set (rearm s z A). n \<noteq> 0" using Cons.prems(3,4) by (auto simp: rearm_def unat_gt_0)
  have ca: "callbacks_apart s1 zs" using Cons.prems(8) tf mq_data_frame [OF s1(5)] by (simp add: callbacks_apart_def)
  have by1: "bytes s1 (timer_finfo y) ?n = bytes s (timer_finfo y) ?n" if "y \<in> set zs" for y
  proof (rule bytes_cong)
    fix x assume x: "x \<in> area (timer_finfo y) ?n"
    have "b \<in> set (mq_blocks ?mq s)" using Cons.prems(5) F by (auto simp: mq_ready_def pool_rel_def)
    then have "x \<notin> area (msg_data b) ?n" using Cons.prems(8) that x by (auto simp: callbacks_apart_def mq_data_def)
    then show "mem8 s1 x = mem8 s x" using s1(9) by blast
  qed
  obtain s' T' where s': "timer_tick_loop (timer_list s1) s1 = Some s'" "tm_inv s' T'" "timers s' T' = fold (rearm s1) zs (rearm s z A)"
    "\<forall>(t, n)\<in>set (timers s' T'). n \<noteq> 0"
    "mq_ready ?mq s' (drop (length zs) F') (insert b U \<union> set (take (length zs) F'))" "tick_frame ?mq s1 s'"
    "isr_items s' = isr_items s1 @ take (length zs) F'" "o_state s' = stopped s1 zs"
    "map (\<lambda>b. bytes s' (msg_data b) ?n) (take (length zs) F') = map (\<lambda>z. bytes s1 (timer_finfo z) ?n) zs"
    "\<forall>x. (\<forall>b\<in>set F'. x \<notin> area (msg_data b) ?n) \<longrightarrow> mem8 s' x = mem8 s1 x"
    using Cons.IH [OF s1(2,3) nz _ _ _ _ ca, of F' "insert b U"] Cons.prems(4,6,7) s1(4,6) tf F by auto
  have bb: "bytes s' (msg_data b) ?n = bytes s1 (msg_data b) ?n"
  proof (rule bytes_cong)
    fix x assume "x \<in> area (msg_data b) ?n"
    then have "\<forall>c\<in>set F'. x \<notin> area (msg_data c) ?n" using ready_apart [OF Cons.prems(5) [unfolded F]] by blast
    then show "mem8 s' x = mem8 s1 x" using s'(10) by blast
  qed
  have "timer_tick_loop (timer_list s) s = Some s'" using s1(1) s'(1) by simp
  moreover have "timers s' T' = fold (rearm s) (z # zs) A" using s'(3) rearm_frame [OF s1(5)] by simp
  moreover have "mq_ready ?mq s' (drop (length (z # zs)) F) (U \<union> set (take (length (z # zs)) F))" using s'(5) F by simp
  moreover have "tick_frame ?mq s s'" by (rule tick_frame_trans [OF s1(5) s'(6)])
  moreover have "isr_items s' = isr_items s @ take (length (z # zs)) F" using s'(7) s1(6) F by simp
  moreover have "o_state s' = stopped s (z # zs)" using s'(8) stopped_trans [OF s1(5,7)] by simp
  moreover have "map (\<lambda>b. bytes s' (msg_data b) ?n) (take (length (z # zs)) F) = map (\<lambda>z. bytes s (timer_finfo z) ?n) (z # zs)"
    using s'(9) s1(8) bb by1 F by simp
  moreover have "\<forall>x. (\<forall>b\<in>set F. x \<notin> area (msg_data b) ?n) \<longrightarrow> mem8 s' x = mem8 s x" using s'(10) s1(9) F by simp
  ultimately show ?case using s'(2,4) by blast
qed

lemma fold_rearm_fst: "fst ` set (fold (rearm s) E A) = fst ` set A \<union> {t \<in> set E. tm_type s t = osTimerPeriodic}"
  by (induction E arbitrary: A) (auto simp: rearm_def)

lemma tick_running:
  assumes r: "tm_running s T" and E: "E = map fst (filter (\<lambda>(t, n). n = 1) (timers s T))" and inv: "tm_inv s T"
    and id: "\<forall>x. o_id s' x = osRtxIdTimer \<longrightarrow> o_id s x = osRtxIdTimer" and st: "o_state s' = stopped s E"
    and tm: "timers s' T' = fold (rearm s) E (map (\<lambda>(t, n). (t, n - 1)) (filter (\<lambda>(t, n). n \<noteq> 1) (timers s T)))"
  shows "tm_running s' T'"
proof -
  let ?A = "map fst (filter (\<lambda>(t, n). n \<noteq> 1) (timers s T))"
  have T': "set T' = fst ` set (timers s' T')" by (simp add: timers_def flip: set_map)
  have "fst ` set (map (\<lambda>(t, n). (t, n - 1)) (filter (\<lambda>(t, n). n \<noteq> 1) (timers s T))) = set ?A" by (force simp: split_beta)
  then have T2: "set T' = set ?A \<union> {t \<in> set E. tm_type s t = osTimerPeriodic}" unfolding T' tm fold_rearm_fst by simp
  have f: "map fst (timers s T) = T" by (simp add: timers_def)
  have T: "set T = set ?A \<union> set E" unfolding E by (subst f [symmetric]) force
  have "distinct (map fst (timers s T))" using inv f by (simp add: tm_inv_def)
  then have "inj_on fst (set (timers s T))" by (simp add: distinct_map)
  then have D: "set ?A \<inter> set E = {}" unfolding E by (force dest: inj_onD)
  show ?thesis
    using r id D unfolding tm_running_def T T2 st stopped_def by (auto simp: if_distrib cong: if_cong)
qed



section \<open>Starting and stopping\<close>

text \<open>C40: Starting a timer on every branch.  A bad timer or zero ticks is an error, and so is a timer that is not running
  when the timer thread is not up; neither changes the state.  Otherwise the timer, taken out of the list first if it is
  running, goes behind every timer that expires no later, with its ticks until expiry.  Only a timer that was not running
  takes the ticks as its period.  Stopping takes a running timer out of the list and leaves the expiry of the others alone.\<close>

theorem timer_start:
  assumes inv: "tm_inv s T" and run: "tm_running s T"
  shows "(timer = NULL \<or> o_id s timer \<noteq> osRtxIdTimer \<or> ticks = 0 \<longrightarrow> svcRtxTimerStart timer ticks s = Some (osErrorParameter, s)) \<and>
    (timer \<noteq> NULL \<and> o_id s timer = osRtxIdTimer \<and> ticks \<noteq> 0 \<longrightarrow>
      (if o_state s timer \<noteq> osRtxTimerRunning \<and> \<not> timer_tick_on s then svcRtxTimerStart timer ticks s = Some (osErrorResource, s)
       else \<exists>s' T'. svcRtxTimerStart timer ticks s = Some (osOK, s') \<and> tm_inv s' T' \<and> tm_running s' T' \<and>
         timers s' T' = ins_after (\<lambda>(x, n). n \<le> unat ticks) (timer, unat ticks) (filter (\<lambda>(x, n). x \<noteq> timer) (timers s T)) \<and>
         o_state s' = (o_state s)(timer := osRtxTimerRunning) \<and>
         tm_load s' = (if o_state s timer = osRtxTimerRunning then tm_load s else (tm_load s)(timer := ticks)))) \<and>
    (timer \<noteq> NULL \<and> o_id s timer = osRtxIdTimer \<longrightarrow>
      (if o_state s timer \<noteq> osRtxTimerRunning then svcRtxTimerStop timer s = (osErrorResource, s)
       else \<exists>s' T'. svcRtxTimerStop timer s = (osOK, s') \<and> tm_inv s' T' \<and> tm_running s' T' \<and>
         timers s' T' = filter (\<lambda>(x, n). x \<noteq> timer) (timers s T) \<and> o_state s' = (o_state s)(timer := osRtxTimerStopped)))"
proof (intro conjI impI)
  assume "timer = NULL \<or> o_id s timer \<noteq> osRtxIdTimer \<or> ticks = 0"
  then show "svcRtxTimerStart timer ticks s = Some (osErrorParameter, s)" by (auto simp: svcRtxTimerStart_def)
next
  assume t: "timer \<noteq> NULL \<and> o_id s timer = osRtxIdTimer \<and> ticks \<noteq> 0"
  show "if o_state s timer \<noteq> osRtxTimerRunning \<and> \<not> timer_tick_on s then svcRtxTimerStart timer ticks s = Some (osErrorResource, s)
       else \<exists>s' T'. svcRtxTimerStart timer ticks s = Some (osOK, s') \<and> tm_inv s' T' \<and> tm_running s' T' \<and>
         timers s' T' = ins_after (\<lambda>(x, n). n \<le> unat ticks) (timer, unat ticks) (filter (\<lambda>(x, n). x \<noteq> timer) (timers s T)) \<and>
         o_state s' = (o_state s)(timer := osRtxTimerRunning) \<and>
         tm_load s' = (if o_state s timer = osRtxTimerRunning then tm_load s else (tm_load s)(timer := ticks))"
  proof (cases "o_state s timer = osRtxTimerRunning")
    case True
    then have tT: "timer \<in> set T" using run t by (simp add: tm_running_def)
    note R = TimerRemove_ok [OF inv tT]
    have d: "timer \<notin> set (remove1 timer T)" "set T = insert timer (set (remove1 timer T))"
      using inv tT by (auto simp: tm_inv_def set_remove1_eq)
    obtain s' T' where I: "TimerInsert timer ticks (TimerRemove timer s) = Some s'" "tm_inv s' T'" "tm_frame (TimerRemove timer s) s'"
      "set T' = insert timer (set (remove1 timer T))"
      "timers s' T' = ins_after (\<lambda>(x, n). n \<le> unat ticks) (timer, unat ticks) (timers (TimerRemove timer s) (remove1 timer T))"
      using TimerInsert_ok [OF R(1) conjunct1 [OF t] d(1), of ticks] by blast
    note f = tm_frameD [OF tm_frame_trans [OF R(2) I(3)]]
    have "tm_running s' T'" using run I(4) d(2) by (simp add: tm_running_def f)
    moreover have "svcRtxTimerStart timer ticks s = Some (osOK, s')" using t True I(1) by (simp add: svcRtxTimerStart_def)
    ultimately show ?thesis using True I(2,5) R(3) by (auto simp: f fun_eq_iff)
  next
    case False
    then have tT: "timer \<notin> set T" using run t by (simp add: tm_running_def)
    define s1 where "s1 = s\<lparr>o_state := (o_state s)(timer := osRtxTimerRunning), tm_load := (tm_load s)(timer := ticks)\<rparr>"
    have i1: "tm_inv s1 T" "timers s1 T = timers s T" using inv by (simp_all add: s1_def tm_inv_def timers_def)
    obtain s' T' where I: "TimerInsert timer ticks s1 = Some s'" "tm_inv s' T'" "tm_frame s1 s'" "set T' = insert timer (set T)"
      "timers s' T' = ins_after (\<lambda>(x, n). n \<le> unat ticks) (timer, unat ticks) (timers s1 T)"
      using TimerInsert_ok [OF i1(1) conjunct1 [OF t] tT, of ticks] by blast
    note f = tm_frameD [OF I(3)]
    have r: "tm_running s' T'" using run I(4) by (auto simp: tm_running_def f s1_def)
    have keep: "filter (\<lambda>(x, n). x \<noteq> timer) (timers s T) = timers s T"
    proof (rule filter_True)
      have "fst ` set (timers s T) = set T" by (simp add: timers_def flip: set_map)
      then show "\<forall>x\<in>set (timers s T). case x of (x, n) \<Rightarrow> x \<noteq> timer" using tT by force
    qed
    show ?thesis
    proof (cases "timer_tick_on s")
      case True
      then have "svcRtxTimerStart timer ticks s = Some (osOK, s')" using t False I(1) by (simp add: svcRtxTimerStart_def s1_def)
      moreover have "o_state s' = (o_state s)(timer := osRtxTimerRunning)" "tm_load s' = (tm_load s)(timer := ticks)"
        by (simp_all add: f s1_def)
      ultimately show ?thesis using False True I(2,5) r keep i1(2) by auto
    next
      case off: False
      then show ?thesis using t False by (simp add: svcRtxTimerStart_def)
    qed
  qed
next
  assume t: "timer \<noteq> NULL \<and> o_id s timer = osRtxIdTimer"
  show "if o_state s timer \<noteq> osRtxTimerRunning then svcRtxTimerStop timer s = (osErrorResource, s)
       else \<exists>s' T'. svcRtxTimerStop timer s = (osOK, s') \<and> tm_inv s' T' \<and> tm_running s' T' \<and>
         timers s' T' = filter (\<lambda>(x, n). x \<noteq> timer) (timers s T) \<and> o_state s' = (o_state s)(timer := osRtxTimerStopped)"
  proof (cases "o_state s timer = osRtxTimerRunning")
    case True
    then have tT: "timer \<in> set T" using run t by (simp add: tm_running_def)
    define s1 where "s1 = s\<lparr>o_state := (o_state s)(timer := osRtxTimerStopped)\<rparr>"
    have i1: "tm_inv s1 T" "timers s1 T = timers s T" using inv by (simp_all add: s1_def tm_inv_def timers_def)
    note R = TimerRemove_ok [OF i1(1) tT]
    note f = tm_frameD [OF R(2)]
    have "set (remove1 timer T) = set T - {timer}" "o_state s1 = (o_state s)(timer := osRtxTimerStopped)" "o_id s1 = o_id s"
      using inv by (simp_all add: tm_inv_def set_remove1_eq s1_def)
    then have "tm_running (TimerRemove timer s1) (remove1 timer T)" using run by (auto simp: tm_running_def f)
    moreover have "svcRtxTimerStop timer s = (osOK, TimerRemove timer s1)" using t True by (simp add: svcRtxTimerStop_def s1_def)
    moreover have "o_state (TimerRemove timer s1) = (o_state s)(timer := osRtxTimerStopped)" unfolding f by (simp add: s1_def)
    ultimately show ?thesis using True R(1,3) i1(2) by auto
  qed (use t in \<open>simp add: svcRtxTimerStop_def\<close>)
qed


section \<open>A concrete timer list\<close>

text \<open>The periodic timer \<open>0x800\<close> expires at the next tick, the one-shot timers \<open>0x900\<close> and \<open>0xA00\<close> with it and two ticks
  later; the timer \<open>0xB00\<close> is stopped.  The queue of the timer thread is the one of \<open>demo_queue\<close>.\<close>

definition demo_timers :: rtx where
  "demo_timers = demo_queue\<lparr>o_id := (o_id demo_queue)(0x800 := osRtxIdTimer, 0x900 := osRtxIdTimer, 0xA00 := osRtxIdTimer, 0xB00 := osRtxIdTimer),
     o_state := (o_state demo_queue)(0x800 := osRtxTimerRunning, 0x900 := osRtxTimerRunning, 0xA00 := osRtxTimerRunning, 0xB00 := osRtxTimerStopped),
     tm_type := (\<lambda>_. osTimerOnce)(0x800 := osTimerPeriodic), tm_load := (\<lambda>_. 7)(0x800 := 5),
     tm_next := (\<lambda>_. 0)(0x800 := 0x900, 0x900 := 0xA00), tm_prev := (\<lambda>_. 0)(0x900 := 0x800, 0xA00 := 0x900),
     tm_tick := (\<lambda>_. 0)(0x800 := 1, 0x900 := 0, 0xA00 := 2), timer_list := 0x800, timer_mq := 0x500, timer_tick_on := True\<rparr>"

lemma demo_timers_inv: "tm_inv demo_timers [0x800, 0x900, 0xA00]" "timers demo_timers [0x800, 0x900, 0xA00] = [(0x800, 1), (0x900, 1), (0xA00, 3)]"
  by (simp_all add: tm_inv_def timers_def demo_timers_def)

lemma demo_timers_running: "tm_running demo_timers [0x800, 0x900, 0xA00]"
  by (simp add: tm_running_def demo_timers_def demo_queue_def mq_fields_def demo_def rtx0_def)

lemma demo_timers_queue: "mq_ready 0x500 demo_timers [0x9000, 0x9010] {}" "mq_blocks 0x500 demo_timers = [0x9000, 0x9010]"
proof -
  have q: "mq_blocks 0x500 demo_queue = [0x9000, 0x9010]"
    by (simp add: demo_queue_def mq_fields_def mp_info_of_def pool_blocks_def upt_rec)
  have "pool_rel (mp_info_of 0x500) demo_queue [0x9000, 0x9010] {}"
    using demo_queue_state(2) by (simp add: mq_state_def mq_rel_def)
  then have "pool_rel (mp_info_of 0x500) demo_timers [0x9000, 0x9010] {}" by (simp add: pool_rel_def demo_timers_def)
  moreover show b: "mq_blocks 0x500 demo_timers = [0x9000, 0x9010]" using q by (simp add: demo_timers_def)
  moreover have "isr_inv demo_timers" "o_id demo_timers 0x500 = osRtxIdMessageQueue"
      "12 + unat (mq_msg_size demo_timers 0x500) \<le> unat (mp_block_size demo_timers (mp_info_of 0x500))"
    by (simp_all add: demo_timers_def isr_inv_def isr_items_def demo_queue_def mq_fields_def)
  ultimately show "mq_ready 0x500 demo_timers [0x9000, 0x9010] {}" by (simp add: mq_ready_def)
qed


theorem timer_start_witness:
  "\<exists>s' T'. svcRtxTimerStart 0xB00 2 demo_timers = Some (osOK, s') \<and> tm_inv s' T' \<and>
     timers s' T' = [(0x800, 1), (0x900, 1), (0xB00, 2), (0xA00, 3)] \<and> tm_load s' 0xB00 = 2"
proof -
  have d: "o_id demo_timers 0xB00 = osRtxIdTimer" "o_state demo_timers 0xB00 \<noteq> osRtxTimerRunning" "timer_tick_on demo_timers"
    by (simp_all add: demo_timers_def)
  show ?thesis
    using timer_start [OF demo_timers_inv(1) demo_timers_running, of "0xB00" 2] d by (auto simp: demo_timers_inv(2) ins_after_Cons)
qed

end
