(* ===== verification/Float32.thy ===== *)
theory Float32
  imports Prelude
begin

text \<open>
  The \<open>float\<close> of the application: IEEE 754 binary32 numbers as their bit patterns.  The value of a finite number is an
  integral multiple of \<open>2 ^ -149\<close>, so the values are integers in that unit and every operation computes; results are
  rounded to nearest, ties to even.
\<close>

type_synonym f32 = "32 word"

section \<open>Values and comparison\<close>

definition f32_neg :: "f32 \<Rightarrow> bool" where
  "f32_neg x = bit x 31"

definition f32_mag :: "f32 \<Rightarrow> nat" where
  "f32_mag x = unat (x AND 0x7FFFFFFF)"

definition f32_nan :: "f32 \<Rightarrow> bool" where
  "f32_nan x = (f32_mag x > 0x7F800000)"

definition f32_inf :: "f32 \<Rightarrow> bool" where
  "f32_inf x = (f32_mag x = 0x7F800000)"

definition f32_finite :: "f32 \<Rightarrow> bool" where
  "f32_finite x = (f32_mag x < 0x7F800000)"

definition f32_units :: "nat \<Rightarrow> nat" where
  "f32_units m = (if m < 2 ^ 23 then m else (2 ^ 23 + m mod 2 ^ 23) * 2 ^ (m div 2 ^ 23 - 1))"

definition f32_val :: "f32 \<Rightarrow> int" where
  "f32_val x = (if f32_neg x then - int (f32_units (f32_mag x)) else int (f32_units (f32_mag x)))"

definition f32_ord :: "f32 \<Rightarrow> int" where
  "f32_ord x = (if f32_neg x then - int (f32_mag x) else int (f32_mag x))"

text \<open>The comparison \<open><\<close>: false when a number is not one, infinities at the ends, the two zeros equal.\<close>

definition f32_lt :: "f32 \<Rightarrow> f32 \<Rightarrow> bool" where
  "f32_lt a b = (\<not> f32_nan a \<and> \<not> f32_nan b \<and> f32_ord a < f32_ord b)"

lemma f32_mag_lt: "f32_mag x < 2 ^ 31"
proof -
  have "x AND 0x7FFFFFFF \<le> 0x7FFFFFFF" by (rule word_and_le1)
  then show ?thesis by (simp add: f32_mag_def word_le_nat_alt)
qed

lemma f32_units_Suc: "f32_units m < f32_units (Suc m)"
proof (cases "Suc m < 2 ^ 23")
  case True
  then show ?thesis by (simp add: f32_units_def)
next
  case False
  define q r where "q = m div 2 ^ 23" and "r = m mod (2 ^ 23 :: nat)"
  have m: "m = q * 2 ^ 23 + r" "r < 2 ^ 23" by (simp_all add: q_def r_def)
  show ?thesis
  proof (cases "Suc r = 2 ^ 23")
    case True
    have s: "Suc m = Suc q * 2 ^ 23" using m(1) True by simp
    have "Suc m div 2 ^ 23 = Suc q" "Suc m mod 2 ^ 23 = 0" unfolding s by simp_all
    then have 1: "f32_units (Suc m) = 2 ^ 23 * 2 ^ q" using False by (simp add: f32_units_def)
    show ?thesis
    proof (cases "q = 0")
      case True
      then show ?thesis using 1 m by (simp add: f32_units_def)
    next
      case q: False
      then have "\<not> m < 2 ^ 23" using m(1) by (cases q) simp_all
      then have "f32_units m = (2 ^ 23 + r) * 2 ^ (q - 1)" by (simp add: f32_units_def q_def r_def)
      moreover have "2 ^ q = 2 * (2 ^ (q - 1) :: nat)" using q by (cases q) simp_all
      ultimately show ?thesis using 1 m(2) by simp
    qed
  next
    case c: False
    then have r: "Suc r < 2 ^ 23" using m(2) by simp
    have s: "Suc m = q * 2 ^ 23 + Suc r" using m(1) by simp
    have "Suc m div 2 ^ 23 = q" "Suc m mod 2 ^ 23 = Suc r" unfolding s using r by simp_all
    then have 1: "f32_units (Suc m) = (2 ^ 23 + Suc r) * 2 ^ (q - 1)" using False by (simp add: f32_units_def)
    have "q \<noteq> 0" using False s r by (cases q) auto
    then have "\<not> m < 2 ^ 23" using m(1) by (cases q) simp_all
    then have "f32_units m = (2 ^ 23 + r) * 2 ^ (q - 1)" by (simp add: f32_units_def q_def r_def)
    then show ?thesis using 1 by simp
  qed
qed

lemma f32_units_mono: "strict_mono f32_units"
  by (rule strict_mono_Suc_iff [THEN iffD2]) (simp add: f32_units_Suc)

lemma f32_units_less: "f32_units m < f32_units n \<longleftrightarrow> m < n"
  using f32_units_mono by (rule strict_mono_less)

lemma f32_units_0 [simp]: "f32_units 0 = 0"
  by (simp add: f32_units_def)

text \<open>The comparison of bit patterns is the comparison of values.\<close>

lemma f32_lt_val:
  assumes "f32_finite a" "f32_finite b"
  shows "f32_lt a b \<longleftrightarrow> f32_val a < f32_val b"
proof -
  have z: "f32_units m = 0 \<longleftrightarrow> m = 0" "0 < f32_units m \<longleftrightarrow> 0 < m" for m
    using f32_units_less [of 0 m] by auto
  have "f32_ord a < f32_ord b \<longleftrightarrow> f32_val a < f32_val b"
    using f32_units_less [of "f32_mag a" "f32_mag b"] f32_units_less [of "f32_mag b" "f32_mag a"] z [of "f32_mag a"] z [of "f32_mag b"]
    by (auto simp: f32_ord_def f32_val_def)
  then show ?thesis using assms by (simp add: f32_lt_def f32_nan_def f32_finite_def)
qed

section \<open>Rounding\<close>

text \<open>The quotient of two natural numbers, to the nearest integer, ties to even.\<close>

definition rne :: "nat \<Rightarrow> nat \<Rightarrow> nat" where
  "rne n d = (let q = n div d; r = n mod d in if d < 2 * r \<or> (d = 2 * r \<and> odd q) then q + 1 else q)"

text \<open>The divisor is doubled until the quotient fits the 24 bits of the significand; \<open>k\<close> counts the doublings.\<close>

function f32_scale :: "nat \<Rightarrow> nat \<Rightarrow> nat \<Rightarrow> nat \<times> nat" where
  "f32_scale n d k = (if n div d < 2 ^ 24 then (d, k) else f32_scale n (2 * d) (Suc k))"
  by auto
termination
proof (relation "measure (\<lambda>(n, d, k). n div d)")
  fix n d k :: nat
  assume "\<not> n div d < 2 ^ 24"
  then have "0 < n div d" by simp
  then have "(n div d) div 2 < n div d" by simp
  then show "((n, 2 * d, Suc k), n, d, k) \<in> measure (\<lambda>(n, d, k). n div d)"
    by (simp add: div_mult2_eq [symmetric] mult.commute)
qed simp

declare f32_scale.simps [simp del]

definition f32_pack :: "nat \<Rightarrow> nat \<Rightarrow> nat" where
  "f32_pack n d = (let (d, k) = f32_scale n d 0; b = k * 2 ^ 23 + rne n d in if 0x7F800000 \<le> b then 0x7F800000 else b)"

definition f32_signed :: "bool \<Rightarrow> nat \<Rightarrow> f32" where
  "f32_signed neg m = of_nat m OR (if neg then 0x80000000 else 0)"

text \<open>The nearest number to \<open>i / d\<close>, in units; a zero result takes the sign \<open>z\<close>.\<close>

definition f32_round :: "bool \<Rightarrow> int \<Rightarrow> nat \<Rightarrow> f32" where
  "f32_round z i d = f32_signed (if i = 0 then z else i < 0) (f32_pack (nat \<bar>i\<bar>) d)"

lemma f32_bits: "bit (0x80000000 :: f32) n \<longleftrightarrow> n = 31" "bit (0x7FFFFFFF :: f32) n \<longleftrightarrow> n < 31"
proof -
  have "bit (2 ^ 31 :: f32) n \<longleftrightarrow> n = 31" "bit (mask 31 :: f32) n \<longleftrightarrow> n < 31"
    by (simp_all only: bit_exp_iff bit_mask_iff) auto
  moreover have "(2 ^ 31 :: f32) = 0x80000000" "(mask 31 :: f32) = 0x7FFFFFFF" by (simp_all add: mask_eq_exp_minus_1)
  ultimately show "bit (0x80000000 :: f32) n \<longleftrightarrow> n = 31" "bit (0x7FFFFFFF :: f32) n \<longleftrightarrow> n < 31" by simp_all
qed

lemma f32_signed_fields:
  assumes "m < 2 ^ 31"
  shows "f32_neg (f32_signed neg m) = neg" "f32_mag (f32_signed neg m) = m"
proof -
  have b: "\<not> bit (of_nat m :: f32) n" if "31 \<le> n" for n
  proof -
    have "m < 2 ^ n" using assms that power_increasing [of 31 n "2::nat"] by simp
    then have "\<not> bit m n" by (simp add: bit_iff_odd)
    then show ?thesis by (simp add: bit_of_nat_iff)
  qed
  then show "f32_neg (f32_signed neg m) = neg" by (simp add: f32_neg_def f32_signed_def bit_simps)
  have c: "bit (of_nat m :: f32) n \<Longrightarrow> n < 31" for n using b [of n] by (cases "n < 31") auto
  have "f32_signed neg m AND 0x7FFFFFFF = of_nat m"
    by (rule bit_eqI) (use c in \<open>auto simp: f32_signed_def bit_or_iff bit_and_iff f32_bits simp del: bit_numeral_word_iff\<close>)
  then show "f32_mag (f32_signed neg m) = m" using assms by (simp add: f32_mag_def unat_of_nat)
qed

text \<open>A value that a float has is rounded to that float.\<close>

lemma rne_exact: "0 < d \<Longrightarrow> rne (q * d) d = q"
  by (simp add: rne_def)

lemma f32_scale_exact: "m < 2 ^ 24 \<Longrightarrow> 2 ^ 23 \<le> m \<or> j = 0 \<Longrightarrow> 0 < d \<Longrightarrow> f32_scale (m * 2 ^ j * d) d k = (2 ^ j * d, k + j)"
proof (induction j arbitrary: d k)
  case 0
  then show ?case by (simp add: f32_scale.simps)
next
  case (Suc j)
  have "(2 ^ 23 :: nat) * 2 \<le> m * 2 ^ Suc j" using Suc.prems(2) mult_le_mono [of "2 ^ 23" m 2 "2 ^ Suc j"] by simp
  moreover have "(m * 2 ^ Suc j * d) div d = m * 2 ^ Suc j" using Suc.prems(3) by (simp only: nonzero_mult_div_cancel_right neq0_conv)
  ultimately have "\<not> (m * 2 ^ Suc j * d) div d < 2 ^ 24" by simp
  then have 1: "f32_scale (m * 2 ^ Suc j * d) d k = f32_scale (m * 2 ^ Suc j * d) (2 * d) (Suc k)"
    by (subst f32_scale.simps) (simp only: if_False)
  have "m * 2 ^ Suc j * d = m * 2 ^ j * (2 * d)" by simp
  then have "f32_scale (m * 2 ^ Suc j * d) d k = f32_scale (m * 2 ^ j * (2 * d)) (2 * d) (Suc k)" using 1 by (simp only:)
  then show ?case using Suc.IH [of "2 * d" "Suc k"] Suc.prems by simp
qed

lemma f32_pack_exact:
  assumes "b < 0x7F800000" "0 < d"
  shows "f32_pack (f32_units b * d) d = b"
proof (cases "b < 2 ^ 23")
  case True
  then have "f32_scale (b * 2 ^ 0 * d) d 0 = (2 ^ 0 * d, 0 + 0)" by (intro f32_scale_exact) (use assms in auto)
  then show ?thesis using True assms by (simp add: f32_pack_def f32_units_def rne_exact)
next
  case False
  define q r where "q = b div 2 ^ 23" and "r = b mod (2 ^ 23 :: nat)"
  have b: "b = q * 2 ^ 23 + r" "r < 2 ^ 23" by (simp_all add: q_def r_def)
  have q: "q \<noteq> 0" using False b by (cases q) auto
  have u: "f32_units b = (2 ^ 23 + r) * 2 ^ (q - 1)" using False by (simp add: f32_units_def q_def r_def)
  have "f32_scale ((2 ^ 23 + r) * 2 ^ (q - 1) * d) d 0 = (2 ^ (q - 1) * d, 0 + (q - 1))"
    by (rule f32_scale_exact) (use b(2) assms(2) in auto)
  moreover have "rne ((2 ^ 23 + r) * 2 ^ (q - 1) * d) (2 ^ (q - 1) * d) = 2 ^ 23 + r"
    using rne_exact [of "2 ^ (q - 1) * d" "2 ^ 23 + r"] assms(2) by (simp add: mult.assoc)
  moreover have "(q - 1) * 2 ^ 23 + (2 ^ 23 + r) = b" using b(1) q by (cases q) simp_all
  ultimately show ?thesis using assms(1) by (simp add: f32_pack_def u Let_def)
qed

lemma f32_round_exact:
  assumes "f32_finite x" "0 < d" "z = f32_neg x"
  shows "f32_round z (f32_val x * int d) d = x"
proof -
  have m: "f32_mag x < 0x7F800000" using assms(1) by (simp add: f32_finite_def)
  have s: "f32_signed (f32_neg x) (f32_mag x) = x"
  proof (rule bit_eqI)
    fix n assume "possible_bit TYPE(f32) n"
    then have n: "n < 32" by simp
    show "bit (f32_signed (f32_neg x) (f32_mag x)) n = bit x n"
      using n by (cases "n = 31") (auto simp: f32_signed_def f32_mag_def f32_neg_def bit_or_iff bit_and_iff f32_bits simp del: bit_numeral_word_iff)
  qed
  have u: "f32_pack (nat \<bar>f32_val x * int d\<bar>) d = f32_mag x"
    using f32_pack_exact [OF m assms(2)] by (simp add: f32_val_def nat_mult_distrib abs_mult)
  have "f32_val x = 0 \<longleftrightarrow> f32_mag x = 0" using f32_units_less [of 0 "f32_mag x"] by (auto simp: f32_val_def)
  moreover have "f32_val x < 0 \<longleftrightarrow> f32_neg x \<and> f32_mag x \<noteq> 0" using f32_units_less [of 0 "f32_mag x"] by (auto simp: f32_val_def)
  ultimately show ?thesis using u s assms(2,3) by (auto simp: f32_round_def mult_less_0_iff)
qed

section \<open>Operations\<close>

definition f32_qnan :: f32 where "f32_qnan = 0x7FC00000"

text \<open>\<open>a - b\<close> and \<open>a / b\<close>; \<open>f32_of_int\<close> is the conversion of an \<open>int\<close>, \<open>f32_trunc\<close> the one to an \<open>int\<close>, which is
  undefined when the truncated value is not an \<open>int\<close>.\<close>

definition f32_sub :: "f32 \<Rightarrow> f32 \<Rightarrow> f32" where
  "f32_sub a b =
     (if f32_nan a \<or> f32_nan b \<or> (f32_inf a \<and> f32_inf b \<and> f32_neg a = f32_neg b) then f32_qnan
      else if f32_inf a then a
      else if f32_inf b then b XOR 0x80000000
      else f32_round (f32_neg a \<and> \<not> f32_neg b \<and> f32_val a = 0) (f32_val a - f32_val b) 1)"

definition f32_div :: "f32 \<Rightarrow> f32 \<Rightarrow> f32" where
  "f32_div a b =
     (let z = (f32_neg a \<noteq> f32_neg b) in
      if f32_nan a \<or> f32_nan b \<or> (f32_inf a \<and> f32_inf b) \<or> (f32_val a = 0 \<and> f32_val b = 0 \<and> f32_finite a \<and> f32_finite b) then f32_qnan
      else if f32_inf a then f32_signed z 0x7F800000
      else if f32_inf b then f32_signed z 0
      else if f32_val b = 0 then f32_signed z 0x7F800000
      else f32_round z ((if f32_val b < 0 then - f32_val a else f32_val a) * 2 ^ 149) (nat \<bar>f32_val b\<bar>))"

definition f32_of_int :: "int \<Rightarrow> f32" where
  "f32_of_int i = f32_round False (i * 2 ^ 149) 1"

definition f32_trunc :: "f32 \<Rightarrow> int option" where
  "f32_trunc x =
     (let t = (if f32_neg x then - (\<bar>f32_val x\<bar> div 2 ^ 149) else f32_val x div 2 ^ 149) in
      if f32_finite x \<and> - (2 ^ 31) \<le> t \<and> t < 2 ^ 31 then Some t else None)"

lemma f32_units_finite: "m < 0x7F800000 \<Longrightarrow> f32_units m < 2 ^ 277"
proof -
  assume "m < 0x7F800000"
  then have "f32_units m < f32_units 0x7F800000" by (simp only: f32_units_less)
  then show ?thesis by (simp add: f32_units_def)
qed

lemma f32_val_bound: "f32_finite x \<Longrightarrow> \<bar>f32_val x\<bar> < 2 ^ 277"
  using f32_units_finite [of "f32_mag x"] by (simp add: f32_val_def f32_finite_def)

text \<open>Small integers are floats.\<close>

lemma f32_of_int_val:
  assumes "\<bar>i\<bar> < 2 ^ 24"
  shows "f32_val (f32_of_int i) = i * 2 ^ 149 \<and> f32_finite (f32_of_int i)"
proof (cases "i = 0")
  case True
  then show ?thesis
    by (simp add: f32_of_int_def f32_round_def f32_pack_def f32_scale.simps rne_def f32_signed_def f32_val_def f32_finite_def f32_mag_def f32_neg_def)
next
  case False
  define n where "n = nat \<bar>i\<bar>"
  have n: "0 < n" "n < 2 ^ 24" using False assms by (simp_all add: n_def nat_less_iff)
  obtain L where L: "2 ^ L \<le> n" "n < 2 ^ (L + 1)" using ex_power_ivl1 [of 2 n] n(1) by auto
  have "(2 :: nat) ^ L < 2 ^ 24" using L(1) n(2) by (rule le_less_trans)
  then have L23: "L \<le> 23" using power_strict_increasing_iff [of "2::nat" L 24] by simp
  define m j where "m = n * 2 ^ (23 - L)" and "j = 126 + L"
  have "2 ^ L * 2 ^ (23 - L) \<le> m" unfolding m_def using L(1) by (rule mult_le_mono1)
  then have m1: "2 ^ 23 \<le> m" using L23 by (simp flip: power_add)
  have "m < 2 ^ (L + 1) * 2 ^ (23 - L)" unfolding m_def using L(2) by (rule mult_less_mono1) simp
  also have "(2 :: nat) ^ (L + 1) * 2 ^ (23 - L) = 2 ^ 24" using L23 by (simp only: power_add [symmetric]) simp
  finally have m2: "m < 2 ^ 24" .
  have e: "n * 2 ^ 149 = m * 2 ^ j"
  proof -
    have "m * 2 ^ j = n * (2 ^ (23 - L) * 2 ^ j)" by (simp add: m_def)
    also have "(2 :: nat) ^ (23 - L) * 2 ^ j = 2 ^ 149" using L23 by (simp only: power_add [symmetric]) (simp add: j_def)
    finally show ?thesis by simp
  qed
  define b where "b = j * 2 ^ 23 + m"
  have b: "b < 0x7F800000" using m2 L23 by (simp add: b_def j_def)
  have "f32_scale (m * 2 ^ j * 1) 1 0 = (2 ^ j * 1, 0 + j)" by (rule f32_scale_exact) (use m1 m2 in auto)
  then have sc: "f32_scale (n * 2 ^ 149) 1 0 = (2 ^ j, j)" unfolding e by simp
  have "rne (n * 2 ^ 149) (2 ^ j) = m" unfolding e by (rule rne_exact) simp
  then have "f32_pack (n * 2 ^ 149) 1 = b" using b unfolding f32_pack_def sc by (simp add: b_def Let_def)
  then have p: "f32_of_int i = f32_signed (i < 0) b"
    using False by (simp add: f32_of_int_def f32_round_def n_def nat_mult_distrib abs_mult nat_power_eq)
  have m3: "m - 2 ^ 23 < 2 ^ 23" using m1 m2 by simp
  have b2: "b = (j + 1) * 2 ^ 23 + (m - 2 ^ 23)" using m1 by (simp add: b_def)
  have "b div 2 ^ 23 = j + 1" "b mod 2 ^ 23 = m - 2 ^ 23" using m3 unfolding b2 by (simp_all only: div_mult_self3 mod_mult_self3 div_less mod_less)
  moreover have "\<not> b < 2 ^ 23" unfolding b2 by simp
  ultimately have u: "f32_units b = n * 2 ^ 149" using m1 e by (simp add: f32_units_def)
  have "f32_neg (f32_of_int i) = (i < 0)" "f32_mag (f32_of_int i) = b" unfolding p using f32_signed_fields [of b] b by simp_all
  then show ?thesis using u b False by (simp add: f32_val_def f32_finite_def n_def)
qed

lemma f32_trunc_of_int: "\<bar>i\<bar> < 2 ^ 24 \<Longrightarrow> f32_trunc (f32_of_int i) = Some i"
proof -
  assume i: "\<bar>i\<bar> < 2 ^ 24"
  note v = f32_of_int_val [OF i]
  have z: "f32_neg (f32_of_int i) \<longrightarrow> i \<le> 0" "\<not> f32_neg (f32_of_int i) \<longrightarrow> 0 \<le> i" using v by (auto simp: f32_val_def split: if_splits)
  have d: "a * 2 ^ 149 div 2 ^ 149 = a" for a :: int by (rule nonzero_mult_div_cancel_right) simp
  have "(if f32_neg (f32_of_int i) then - (\<bar>i * 2 ^ 149\<bar> div 2 ^ 149) else i * 2 ^ 149 div 2 ^ 149) = i"
  proof (cases "f32_neg (f32_of_int i)")
    case True
    then have "\<bar>i * 2 ^ 149\<bar> = (- i) * 2 ^ 149" using z by simp
    then show ?thesis using True d [of "- i"] by simp
  next
    case False
    then show ?thesis using d [of i] by simp
  qed
  moreover have "- (2 ^ 31) \<le> i" "i < 2 ^ 31" using i by auto
  ultimately show ?thesis using v by (simp only: f32_trunc_def Let_def) simp
qed

end
