(* ===== verification/CText.thy ===== *)
theory CText
  imports Float32
begin

text \<open>
  The C strings of the application and the functions of the C library on them: \<open>strcpy\<close>, \<open>strtok\<close>, \<open>atoi\<close> and the
  conversions of \<open>printf\<close> that the sources use.  A buffer is the list of its characters; reading or writing past its end
  is \<open>None\<close>.  A \<open>char\<close> is a byte.
\<close>

section \<open>Buffers\<close>

abbreviation NUL :: char where "NUL \<equiv> CHR 0x00"
abbreviation NL :: char where "NL \<equiv> CHR 0x0A"

definition cstr :: "string \<Rightarrow> string" where
  "cstr b = takeWhile (\<lambda>c. c \<noteq> NUL) b"

text \<open>The string that starts a buffer, if it ends within the buffer.\<close>

definition c_str :: "string \<Rightarrow> string option" where
  "c_str b = (if NUL \<in> set b then Some (cstr b) else None)"

definition c_strcpy :: "string \<Rightarrow> string \<Rightarrow> string option" where
  "c_strcpy dst src = (if length src < length dst then Some (src @ NUL # drop (Suc (length src)) dst) else None)"

definition set_at :: "nat \<Rightarrow> 'a \<Rightarrow> 'a list \<Rightarrow> 'a list option" where
  "set_at i x b = (if i < length b then Some (b[i := x]) else None)"

text \<open>\<open>sprintf\<close> into a buffer of \<open>n\<close> bytes: the text and its terminator must fit.\<close>

definition c_sprintf :: "nat \<Rightarrow> string \<Rightarrow> string option" where
  "c_sprintf n t = (if length (cstr t) < n then Some (cstr t) else None)"

text \<open>A call of \<open>printf\<close> with a format and nothing else: any directive but \<open>%%\<close> reads an argument that is not there.\<close>

fun printf_format :: "string \<Rightarrow> string option" where
  "printf_format [] = Some []"
| "printf_format (c # t) =
     (if c \<noteq> CHR ''%'' then map_option (Cons c) (printf_format t)
      else (case t of c' # t' \<Rightarrow> if c' = CHR ''%'' then map_option (Cons CHR ''%'') (printf_format t') else None | [] \<Rightarrow> None))"

text \<open>\<open>strtok\<close> until it returns \<open>NULL\<close>: the pieces between delimiters that are not empty.\<close>

function tokens :: "char \<Rightarrow> string \<Rightarrow> string list" where
  "tokens d [] = []"
| "tokens d (c # t) =
     (if c = d then tokens d t
      else (c # takeWhile (\<lambda>x. x \<noteq> d) t) # tokens d (dropWhile (\<lambda>x. x \<noteq> d) t))"
  by pat_completeness auto
termination
  by (relation "measure (length \<circ> snd)") (auto simp: less_Suc_eq_le length_dropWhile_le)

lemma cstr_simps [simp]: "cstr [] = []" "cstr (c # b) = (if c = NUL then [] else c # cstr b)"
  by (simp_all add: cstr_def)

lemma cstr_nul [simp]: "NUL \<notin> set (cstr b)"
  by (auto simp: cstr_def dest: set_takeWhileD)

lemma cstr_id: "NUL \<notin> set t \<Longrightarrow> cstr t = t"
  by (induction t) auto

lemma cstr_append: "NUL \<notin> set t \<Longrightarrow> cstr (t @ NUL # b) = t"
  by (induction t) auto

lemma cstr_append2: "NUL \<notin> set t \<Longrightarrow> cstr (t @ b) = t @ cstr b"
  by (induction t) auto

lemma length_cstr: "length (cstr b) \<le> length b"
  by (simp add: cstr_def length_takeWhile_le)

lemma printf_format_plain: "CHR ''%'' \<notin> set t \<Longrightarrow> printf_format t = Some t"
  by (induction t) auto

lemma c_strcpy_str: "NUL \<notin> set src \<Longrightarrow> c_strcpy dst src = Some b \<Longrightarrow> cstr b = src \<and> length b = length dst"
  by (auto simp: c_strcpy_def cstr_append split: if_splits)

lemma tokens_nonempty: "\<forall>x\<in>set (tokens d t). x \<noteq> [] \<and> d \<notin> set x"
  by (induction d t rule: tokens.induct) (auto dest: set_takeWhileD)

text \<open>Taking a chain of operations apart.\<close>

lemma bindE:
  assumes "m \<bind> f = Some y"
  obtains x where "m = Some x" "f x = Some y"
  using assms by (cases m) simp_all

section \<open>Numbers\<close>

definition digit :: "nat \<Rightarrow> char" where
  "digit d = char_of (48 + d)"

fun dec :: "nat \<Rightarrow> string" where
  "dec n = (if n < 10 then [digit n] else dec (n div 10) @ [digit (n mod 10)])"

declare dec.simps [simp del]

text \<open>\<open>%d\<close>, and \<open>%w.pf\<close> with the flag \<open>0\<close> if \<open>zero\<close>: the value is exact in the sources (a \<open>float\<close> becomes a \<open>double\<close>) and
  is rounded to \<open>p\<close> decimals.\<close>

definition fmt_d :: "int \<Rightarrow> string" where
  "fmt_d i = (if i < 0 then CHR ''-'' # dec (nat (- i)) else dec (nat i))"

definition fmt_pad :: "bool \<Rightarrow> nat \<Rightarrow> string \<Rightarrow> string \<Rightarrow> string" where
  "fmt_pad zero w sign body =
     (let n = w - (length sign + length body) in
      if zero then sign @ replicate n (CHR ''0'') @ body else replicate n (CHR '' '') @ sign @ body)"

definition fmt_fixed :: "nat \<Rightarrow> nat \<Rightarrow> string" where
  "fmt_fixed p n =
     dec (n div 10 ^ p) @
     (if p = 0 then [] else (let f = dec (n mod 10 ^ p) in CHR ''.'' # replicate (p - length f) (CHR ''0'') @ f))"

definition fmt_f :: "bool \<Rightarrow> nat \<Rightarrow> nat \<Rightarrow> f32 \<Rightarrow> string" where
  "fmt_f zero w p x =
     (let sign = (if f32_neg x then ''-'' else []) in
      if f32_nan x then fmt_pad False w sign ''nan''
      else if f32_inf x then fmt_pad False w sign ''inf''
      else fmt_pad zero w sign (fmt_fixed p (rne (nat \<bar>f32_val x\<bar> * 10 ^ p) (2 ^ 149))))"

text \<open>\<open>atoi\<close>: white space, a sign, digits; a number that is no \<open>int\<close> is undefined.\<close>

definition is_digit :: "char \<Rightarrow> bool" where
  "is_digit c = (48 \<le> (of_char c :: nat) \<and> (of_char c :: nat) \<le> 57)"

definition is_space :: "char \<Rightarrow> bool" where
  "is_space c = ((of_char c :: nat) = 32 \<or> (9 \<le> (of_char c :: nat) \<and> (of_char c :: nat) \<le> 13))"

definition digits_val :: "string \<Rightarrow> nat" where
  "digits_val ds = foldl (\<lambda>n c. 10 * n + (of_char c - 48)) 0 ds"

definition c_atoi :: "string \<Rightarrow> int option" where
  "c_atoi t =
     (let t = dropWhile is_space (cstr t);
          (neg, t) = (case t of c # r \<Rightarrow> if c = CHR ''-'' then (True, r) else if c = CHR ''+'' then (False, r) else (False, t) | [] \<Rightarrow> (False, t));
          n = int (digits_val (takeWhile is_digit t));
          i = (if neg then - n else n)
      in if - (2 ^ 31) \<le> i \<and> i < 2 ^ 31 then Some i else None)"

lemma of_char_digit: "d < 10 \<Longrightarrow> of_char (digit d) = 48 + d" for d :: nat
  by (simp add: digit_def)

lemma is_digit_digit: "d < 10 \<Longrightarrow> is_digit (digit d)"
  by (simp add: is_digit_def of_char_digit)

lemma dec_digits: "\<forall>c\<in>set (dec n). is_digit c"
proof (induction n rule: dec.induct)
  case (1 n)
  then show ?case by (subst dec.simps) (auto simp: is_digit_digit)
qed

lemma dec_nonempty [simp]: "dec n \<noteq> []"
  by (subst dec.simps) simp

lemma digits_val_dec: "digits_val (dec n) = n"
proof (induction n rule: dec.induct)
  case (1 n)
  show ?case
  proof (cases "n < 10")
    case True
    then show ?thesis by (subst dec.simps) (simp add: digits_val_def of_char_digit)
  next
    case False
    then have "foldl (\<lambda>n c. 10 * n + (of_char c - 48)) 0 (dec (n div 10)) = n div 10" using 1 by (simp add: digits_val_def)
    then show ?thesis using False by (subst dec.simps) (simp add: digits_val_def of_char_digit)
  qed
qed

lemma length_dec: "n < 10 ^ Suc k \<Longrightarrow> length (dec n) \<le> Suc k"
proof (induction k arbitrary: n)
  case 0
  then show ?case by (subst dec.simps) simp
next
  case (Suc k)
  have "n div 10 < 10 ^ Suc k" using Suc.prems by (simp add: less_mult_imp_div_less)
  then have "length (dec (n div 10)) \<le> Suc k" by (rule Suc.IH)
  then show ?case by (subst dec.simps) simp
qed

text \<open>\<open>atoi\<close> reads back what \<open>%d\<close> prints.\<close>

lemma atoi_dec: "n < 2 ^ 31 \<Longrightarrow> c_atoi (dec n) = Some (int n)"
proof -
  assume n: "n < 2 ^ 31"
  obtain c r where d: "dec n = c # r" by (cases "dec n") auto
  have ds: "is_digit c" "\<forall>x\<in>set (dec n). is_digit x" using dec_digits [of n] d by auto
  then have "\<forall>x\<in>set (dec n). x \<noteq> NUL" by (auto simp: is_digit_def)
  then have s: "cstr (dec n) = dec n" by (intro cstr_id) blast
  have s: "cstr (c # r) = c # r" using s d by simp
  have "\<not> is_space c" "c \<noteq> CHR ''-''" "c \<noteq> CHR ''+''" using ds(1) by (auto simp: is_digit_def is_space_def)
  moreover have tw: "takeWhile is_digit (c # r) = c # r" using ds(2) d by (auto intro: takeWhile_eq_all_conv [THEN iffD2])
  moreover have "digits_val (c # r) = n" using digits_val_dec [of n] d by simp
  ultimately show ?thesis using n unfolding c_atoi_def d s by (simp add: Let_def tw del: takeWhile.simps takeWhile_eq_all_conv)
qed

end
