(* ===== verification/AppTypes.thy ===== *)
theory AppTypes
  imports CText
begin

text \<open>
  The state of the application: the variables of \<open>main.cpp\<close>, \<open>Password.cpp\<close>, \<open>StateMachine.cpp\<close> and
  \<open>PrintfWrapper.cpp\<close>, and what the program has done to the world so far, in order.  The enumerations are one byte
  (the build uses the smallest size).
\<close>

datatype state_t = INIT | LOCKED | UNLOCKED | SETTING

datatype key_state = KeyRelease | KeyPush | KeyNone

text \<open>The values of \<open>weight_stable\<close> that the program compares with.\<close>

abbreviation (input) determined :: u8 where "determined \<equiv> 3"
abbreviation (input) initial :: u8 where "initial \<equiv> 0xFF"

record weight_t =
  w_stable :: u8
  w_weight :: f32

record keymat_t =
  km_key :: char
  km_state :: key_state

text \<open>What the program does: bytes to an I2C device, text on the serial line, the lines of the OLED display, a HTTP request.\<close>

datatype effect = I2C_write u8 "u8 list" | Serial string | Oled "string list" | Http_get string

record app =
  \<comment> \<open>Password.cpp: the object password\<close>
  pw_target :: string
  pw_guess :: string
  pw_index :: u8
  \<comment> \<open>StateMachine.cpp\<close>
  g_state :: state_t
  old_state :: state_t
  next_state :: state_t
  \<comment> \<open>main.cpp: the global target weight and the static variables of com_main; timeout1 is armed or not\<close>
  target_weight :: f32
  weights_old :: weight_t
  door_open_old :: bool
  target_weight_old :: int
  timeout1 :: bool
  \<comment> \<open>PrintfWrapper.cpp: the static variables of printOLED\<close>
  oled_j :: nat
  oled_str :: "string list"
  \<comment> \<open>the replies of the network: an error code or the body; the number of requests sent, and of request objects alive\<close>
  http_reply :: "nat \<Rightarrow> int + string"
  http_n :: nat
  http_live :: nat
  out :: "effect list"

definition emit :: "effect \<Rightarrow> app \<Rightarrow> app" where
  "emit e s = s\<lparr>out := out s @ [e]\<rparr>"

end
