(* ===== verification/StateMachine.thy ===== *)
theory StateMachine
  imports AppTypes
begin

text \<open>
  \<open>StateMachine.cpp\<close>: a request for a state, and the transition that the main loop makes from it.  The functions of a state are
  arguments, the table that \<open>state_init\<close> copies; a function that is \<open>NULL\<close> is \<open>None\<close>.
\<close>

record state_func_t =
  init_func :: "(app \<Rightarrow> app option) option"
  do_func :: "(app \<Rightarrow> app option) option"
  end_func :: "(app \<Rightarrow> app option) option"

definition call_func :: "(app \<Rightarrow> app option) option \<Rightarrow> app \<Rightarrow> app option" where
  "call_func f s = (case f of None \<Rightarrow> Some s | Some f \<Rightarrow> f s)"

definition set_state :: "state_t \<Rightarrow> app \<Rightarrow> app" where
  "set_state state s = s\<lparr>g_state := state\<rparr>"

definition get_state :: "app \<Rightarrow> state_t" where
  "get_state s = g_state s"

text \<open>The \<open>switch\<close> of \<open>state_trans\<close>.\<close>

definition state_next :: "state_t \<Rightarrow> state_t \<Rightarrow> state_t" where
  "state_next old state =
     (case old of
        INIT \<Rightarrow> if state = LOCKED then LOCKED else if state = UNLOCKED then UNLOCKED else INIT
      | LOCKED \<Rightarrow> if state = UNLOCKED then UNLOCKED else LOCKED
      | UNLOCKED \<Rightarrow> if state = LOCKED then LOCKED else if state = SETTING then SETTING else UNLOCKED
      | SETTING \<Rightarrow> if state = INIT then INIT else SETTING)"

definition state_trans :: "(state_t \<Rightarrow> state_func_t) \<Rightarrow> state_t \<Rightarrow> app \<Rightarrow> app option" where
  "state_trans state_function state s = do {
     s \<leftarrow> (if old_state s \<noteq> state then do {
             let s = s\<lparr>next_state := state_next (old_state s) state\<rparr>;
             s \<leftarrow> call_func (end_func (state_function (old_state s))) s;
             call_func (init_func (state_function (next_state s))) s
           } else Some s);
     let s = s\<lparr>old_state := next_state s\<rparr>;
     call_func (do_func (state_function (next_state s))) s
   }"

definition state_main :: "(state_t \<Rightarrow> state_func_t) \<Rightarrow> app \<Rightarrow> app option" where
  "state_main state_function s = state_trans state_function (g_state s) s"

end
