(* ===== verification/I2C_Comm.thy ===== *)
theory I2C_Comm
  imports AppTypes
begin

text \<open>
  \<open>I2C_Comm.cpp\<close>: the commands to the devices on the bus (the servo of the lock, the rotating lamp, the display) and
  the readings of the scale and of the keypad.  A write is an effect; the bytes of a read are arguments.
\<close>

abbreviation (input) kaiten_addr :: u8 where "kaiten_addr \<equiv> 0x2A"
abbreviation (input) led_addr :: u8 where "led_addr \<equiv> 0x40"
abbreviation (input) servo_addr :: u8 where "servo_addr \<equiv> 0x4A"

definition cmd_servo :: "u8 \<Rightarrow> u8 \<Rightarrow> app \<Rightarrow> app" where
  "cmd_servo angle speed = emit (I2C_write servo_addr [0x01, 0x01, angle, speed])"

definition cmd_kaiten :: "u8 \<Rightarrow> app \<Rightarrow> app" where
  "cmd_kaiten duty = emit (I2C_write kaiten_addr [0x01, duty])"

definition cmd_lamp :: "bool \<Rightarrow> app \<Rightarrow> app" where
  "cmd_lamp lamp = emit (I2C_write kaiten_addr [0x02, if lamp then 1 else 0])"

definition cmd_kaiten_lamp :: "u8 \<Rightarrow> bool \<Rightarrow> app \<Rightarrow> app" where
  "cmd_kaiten_lamp duty lamp s = cmd_lamp lamp (cmd_kaiten duty s)"

text \<open>The eight bytes of a \<open>weight_t\<close>: the state, three bytes of padding, the weight with its low byte first.\<close>

definition le32 :: "u8 list \<Rightarrow> u32" where
  "le32 b = ucast (b ! 0) OR push_bit 8 (ucast (b ! 1)) OR push_bit 16 (ucast (b ! 2)) OR push_bit 24 (ucast (b ! 3))"

definition get_weight :: "u8 list \<Rightarrow> weight_t" where
  "get_weight p = \<lparr>w_stable = p ! 0, w_weight = le32 (drop 4 p)\<rparr>"

definition get_key :: "u8 \<Rightarrow> u8 \<Rightarrow> keymat_t" where
  "get_key buff0 buff1 = \<lparr>km_key = char_of (unat buff0),
     km_state = (if buff1 = 0 then KeyRelease else if buff1 = 1 then KeyPush else KeyNone)\<rparr>"

definition cmd_clear_line :: "u8 \<Rightarrow> app \<Rightarrow> app" where
  "cmd_clear_line line = emit (I2C_write led_addr [0x03, 0, line * 8, 64, 8, 0, 0, 0])"

definition cmd_clear_all :: "app \<Rightarrow> app" where
  "cmd_clear_all = emit (I2C_write led_addr [0x03, 0, 0, 64, 32, 0, 0, 0])"

definition cmd_set_cursor :: "u8 \<Rightarrow> u8 \<Rightarrow> app \<Rightarrow> app" where
  "cmd_set_cursor x y = emit (I2C_write led_addr [0x02, x, y])"

definition cmd_set_line :: "u8 \<Rightarrow> app \<Rightarrow> app" where
  "cmd_set_line line s = emit (I2C_write led_addr [0x02, 0, line * 8]) (cmd_clear_line line s)"

definition cmd_set_text_color :: "u8 \<Rightarrow> u8 \<Rightarrow> u8 \<Rightarrow> app \<Rightarrow> app" where
  "cmd_set_text_color r g b = emit (I2C_write led_addr [0x05, r, g, b])"

text \<open>The text goes into a buffer of 200 bytes behind the command byte; the length is kept in 8 bits.\<close>

definition cmd_print_text :: "string \<Rightarrow> app \<Rightarrow> app option" where
  "cmd_print_text str s =
     (let sz = (of_nat (length str + 1) :: u8) in
      if unat sz < 200
      then Some (emit (I2C_write led_addr (0x01 # map of_char (take (unat sz) (str @ [NUL])))) s)
      else None)"

text \<open>The three calls with which the program shows a line of text.\<close>

definition show_line :: "u8 \<Rightarrow> string \<Rightarrow> app \<Rightarrow> app option" where
  "show_line line text s = do {
     let s = cmd_set_text_color 0 15 0 (cmd_set_line line s);
     str \<leftarrow> c_sprintf 50 text;
     cmd_print_text str s
   }"

end
