(* ===== verification/PrintfWrapper.thy ===== *)
theory PrintfWrapper
  imports AppTypes
begin

text \<open>
  \<open>PrintfWrapper.cpp\<close>: \<open>printf2\<close> formats into a buffer of 300 bytes, sends the text over the serial line, and shows the
  last eight lines on the OLED display.  The argument of \<open>printf2\<close> here is the formatted text.
\<close>

abbreviation (input) MAX_PAGE :: nat where "MAX_PAGE \<equiv> 8"
abbreviation (input) MAXITEM :: nat where "MAXITEM \<equiv> MAX_PAGE"
abbreviation (input) MAX_CHAR :: nat where "MAX_CHAR \<equiv> 300"

definition split_lines :: "string \<Rightarrow> char \<Rightarrow> string list" where
  "split_lines str delim = take MAXITEM (tokens delim str)"

text \<open>The loop over the lines: each goes to the next page, cut after 20 characters.\<close>

fun page_loop :: "string list \<Rightarrow> nat \<times> string list \<Rightarrow> (nat \<times> string list) option" where
  "page_loop [] (j, str) = Some (j, str)"
| "page_loop (t # ts) (j, str) =
     (if j < length str then do {
        p \<leftarrow> c_strcpy (str ! j) t;
        p \<leftarrow> set_at 20 NUL p;
        let str = str[j := p];
        let j = j + 1;
        page_loop ts (if MAX_PAGE \<le> j then 0 else j, str)
      } else None)"

definition printOLED :: "string \<Rightarrow> app \<Rightarrow> app option" where
  "printOLED buff s = do {
     (j, str) \<leftarrow> page_loop (split_lines buff NL) (oled_j s, oled_str s);
     let s = s\<lparr>oled_j := j, oled_str := str\<rparr>;
     lines \<leftarrow> those (map c_str (drop j (take MAX_PAGE str) @ take j str));
     Some (emit (Oled lines) s)
   }"

definition printf2 :: "string \<Rightarrow> app \<Rightarrow> app option" where
  "printf2 text s = do {
     buf \<leftarrow> c_sprintf MAX_CHAR text;
     line \<leftarrow> printf_format buf;
     printOLED buf (emit (Serial line) s)
   }"

end
