(* ===== verification/ThingSpeak.thy ===== *)
theory ThingSpeak
  imports PrintfWrapper
begin

text \<open>
  \<open>ThingSpeak.cpp\<close>: the messages to the web services.  The network is a sequence of replies, an error code (\<open>send\<close> returned
  \<open>NULL\<close>) or the body of the response; the string literals of the source are abbreviations.
\<close>

abbreviation (input) CR :: char where "CR \<equiv> CHR 0x0D"
abbreviation (input) "thingSpeakUrl \<equiv> ''http://api.thingspeak.com/update''"
abbreviation (input) "thingSpeakKey \<equiv> ''DAUNON43Q966D9XS''"
abbreviation (input) "base_url \<equiv> ''http://maker.ifttt.com/trigger/''"
abbreviation (input) "url_key \<equiv> ''/with/key/eR7bp41z1wV8xVngdINFIojxchslWUMUyBbArjE564Z''"

text \<open>The part that all the functions share: the request and its answer, and before it the URL.\<close>

definition http_send :: "string \<Rightarrow> app \<Rightarrow> app option" where
  "http_send url s =
     (let reply = http_reply s (http_n s);
          s = emit (Http_get url) (s\<lparr>http_live := http_live s + 1, http_n := http_n s + 1\<rparr>)
      in case reply of
           Inl error \<Rightarrow> printf2 (''HttpRequest failed (error code '' @ fmt_d error @ '')'' @ [NL]) s
         | Inr body \<Rightarrow> do {
             s \<leftarrow> printf2 (NL # ''----- HTTP GET response -----'' @ [NL]) s;
             s \<leftarrow> printf2 (cstr body @ [NL]) s;
             Some (s\<lparr>http_live := http_live s - 1\<rparr>)
           })"

definition http_get :: "string \<Rightarrow> app \<Rightarrow> app option" where
  "http_get url s = do {
     urlBuffer \<leftarrow> c_sprintf 256 url;
     s \<leftarrow> printf2 (''Request to '' @ urlBuffer @ [CR, NL]) s;
     s \<leftarrow> printf2 (NL # ''----- HTTP GET request -----'' @ [NL]) s;
     http_send urlBuffer s
   }"

definition ChannelUpdate :: "f32 \<Rightarrow> f32 \<Rightarrow> app \<Rightarrow> app option" where
  "ChannelUpdate field1 field2 = http_get
     (thingSpeakUrl @ ''?key='' @ thingSpeakKey @ ''&field1='' @ fmt_f True 5 1 field1 @ ''&field2='' @ fmt_f True 5 1 field2)"

definition NotifyDietAchieved :: "f32 \<Rightarrow> f32 \<Rightarrow> app \<Rightarrow> app option" where
  "NotifyDietAchieved weight target = http_get
     (base_url @ ''NotifyDietAchieved'' @ url_key @ ''?value1='' @ fmt_f False 0 1 target @ ''&value2='' @ fmt_f False 0 1 weight)"

definition NotifyDietNotAchieved :: "f32 \<Rightarrow> f32 \<Rightarrow> f32 \<Rightarrow> app \<Rightarrow> app option" where
  "NotifyDietNotAchieved weight target diff = http_get
     (base_url @ ''NotifyDietNotAchieved'' @ url_key @ ''?value1='' @ fmt_f False 0 1 target @ ''&value2='' @ fmt_f False 0 1 weight
      @ ''&value3='' @ fmt_f False 0 1 diff)"

definition NotifyUnlockFailedInvalidPass :: "app \<Rightarrow> app option" where
  "NotifyUnlockFailedInvalidPass = http_get (base_url @ ''NotifyUnlockFailedInvalidPass'' @ url_key)"

definition NotifyUnlockFailedDoDiet :: "app \<Rightarrow> app option" where
  "NotifyUnlockFailedDoDiet = http_get (base_url @ ''NotifyUnlockFailedDoDiet'' @ url_key)"

definition NotifyChangeTarget :: "int \<Rightarrow> int \<Rightarrow> app \<Rightarrow> app option" where
  "NotifyChangeTarget old_target new_target = http_get
     (base_url @ ''NotifyChangeTarget'' @ url_key @ ''?value1='' @ fmt_d old_target @ ''&value2='' @ fmt_d new_target)"

definition NotifyLocked :: "app \<Rightarrow> app option" where
  "NotifyLocked = http_get (base_url @ ''NotifyLocked'' @ url_key)"

definition NotifyUnlocked :: "app \<Rightarrow> app option" where
  "NotifyUnlocked = http_get (base_url @ ''NotifyUnlocked'' @ url_key)"

text \<open>\<open>wifi_init\<close>: what \<open>connect\<close> returns and the strings of the interface are arguments.\<close>

definition wifi_init :: "int \<Rightarrow> string \<Rightarrow> string \<Rightarrow> string \<Rightarrow> string \<Rightarrow> int \<Rightarrow> app \<Rightarrow> (int \<times> app) option" where
  "wifi_init ret mac ip netmask gateway rssi s = do {
     s \<leftarrow> printf2 (NL # ''Connecting...'' @ [NL]) s;
     if ret \<noteq> 0 then do {
       s \<leftarrow> printf2 (NL # ''Connection error'' @ [NL]) s;
       Some (-1, s)
     } else do {
       s \<leftarrow> printf2 (''Success'' @ [NL, NL]) s;
       s \<leftarrow> printf2 (''MAC: '' @ mac @ [NL]) s;
       s \<leftarrow> printf2 (''IP: '' @ ip @ [NL]) s;
       s \<leftarrow> printf2 (''Netmask: '' @ netmask @ [NL]) s;
       s \<leftarrow> printf2 (''Gateway: '' @ gateway @ [NL]) s;
       s \<leftarrow> printf2 (''RSSI: '' @ fmt_d rssi @ [NL, NL]) s;
       Some (0, s)
     }
   }"

end
