(* ===== verification/Password.thy ===== *)
theory Password
  imports AppTypes
begin

text \<open>
  \<open>Password.cpp\<close>: the password and the guess that is typed, in two buffers of 20 characters.
\<close>

abbreviation (input) MAX_PASSWORD_LENGTH :: nat where "MAX_PASSWORD_LENGTH \<equiv> 20"

definition password_set :: "string \<Rightarrow> app \<Rightarrow> app option" where
  "password_set pass s = do { t \<leftarrow> c_strcpy (pw_target s) pass; Some (s\<lparr>pw_target := t\<rparr>) }"

definition password_reset :: "app \<Rightarrow> app option" where
  "password_reset s = do {
     let s = s\<lparr>pw_index := 0\<rparr>;
     g \<leftarrow> set_at (unat (pw_index s)) NUL (pw_guess s);
     Some (s\<lparr>pw_guess := g\<rparr>)
   }"

definition password_append :: "char \<Rightarrow> app \<Rightarrow> (bool \<times> app) option" where
  "password_append character s =
     (if unat (pw_index s) + 1 = MAX_PASSWORD_LENGTH then Some (False, s)
      else do {
        g \<leftarrow> set_at (unat (pw_index s)) character (pw_guess s);
        let s = s\<lparr>pw_index := pw_index s + 1, pw_guess := g\<rparr>;
        g \<leftarrow> set_at (unat (pw_index s)) NUL (pw_guess s);
        Some (True, s\<lparr>pw_guess := g\<rparr>)
      })"

text \<open>The loop of \<open>evaluate\<close> with the characters it has read.\<close>

function evaluate_loop :: "string \<Rightarrow> string \<Rightarrow> nat \<Rightarrow> char \<Rightarrow> char \<Rightarrow> bool" where
  "evaluate_loop target guess i pass guessed =
     (if i < MAX_PASSWORD_LENGTH then
        (if pass = NUL \<and> guessed = NUL then True
         else if pass \<noteq> guessed \<or> pass = NUL \<or> guessed = NUL then False
         else evaluate_loop target guess (i + 1) (target ! i) (guess ! i))
      else False)"
  by auto
termination by (relation "measure (\<lambda>(t, g, i, _). 20 - i)") auto

declare evaluate_loop.simps [simp del]

definition password_evaluate :: "app \<Rightarrow> bool" where
  "password_evaluate s = evaluate_loop (pw_target s) (pw_guess s) 1 (pw_target s ! 0) (pw_guess s ! 0)"

text \<open>The loop of \<open>is\<close> copies 20 characters of \<open>pass\<close> if it is not empty, as it tests only the first one; the index
  \<open>guess\<close> is not touched.\<close>

function is_loop :: "string \<Rightarrow> nat \<Rightarrow> string \<Rightarrow> string option" where
  "is_loop pass i guess =
     (if pass = [] then None
      else if pass ! 0 \<noteq> NUL \<and> i < MAX_PASSWORD_LENGTH then
        (if i < length pass then do { g \<leftarrow> set_at i (pass ! i) guess; is_loop pass (i + 1) g } else None)
      else Some guess)"
  by auto
termination by (relation "measure (\<lambda>(p, i, _). 20 - i)") auto

declare is_loop.simps [simp del]

definition password_is :: "string \<Rightarrow> app \<Rightarrow> (bool \<times> app) option" where
  "password_is pass s = do {
     g \<leftarrow> is_loop pass 0 (pw_guess s);
     let s = s\<lparr>pw_guess := g\<rparr>;
     Some (password_evaluate s, s)
   }"

text \<open>The constructor: \<open>set\<close> and \<open>reset\<close> on the uninitialised object.\<close>

definition password_new :: "string \<Rightarrow> app \<Rightarrow> app option" where
  "password_new pass s = do { s \<leftarrow> password_set pass s; password_reset s }"

text \<open>The operators \<open>=\<close>, \<open>==\<close>, \<open>!=\<close> and \<open><<\<close>.\<close>

definition password_assign :: "string \<Rightarrow> app \<Rightarrow> app option" where
  "password_assign pass s = password_set pass s"

definition password_equals :: "string \<Rightarrow> app \<Rightarrow> (bool \<times> app) option" where
  "password_equals pass s = password_is pass s"

definition password_differs :: "string \<Rightarrow> app \<Rightarrow> (bool \<times> app) option" where
  "password_differs pass s = do { (r, s) \<leftarrow> password_is pass s; Some (\<not> r, s) }"

definition password_shift :: "char \<Rightarrow> app \<Rightarrow> app option" where
  "password_shift character s = do { (_, s) \<leftarrow> password_append character s; Some s }"

section \<open>The buffers\<close>

text \<open>Both buffers have their size and end within it; no password is longer than 18 characters, as the keypad sets it from a guess
  of 19 without its first.  \<open>pw_inv\<close>: the guess ends where the index is, if no \<open>NUL\<close> is typed.\<close>

definition pw_ok :: "app \<Rightarrow> bool" where
  "pw_ok s \<longleftrightarrow> length (pw_target s) = 20 \<and> length (pw_guess s) = 20 \<and> NUL \<in> set (pw_target s) \<and> length (cstr (pw_target s)) \<le> 18 \<and>
     unat (pw_index s) < 20 \<and> pw_guess s ! unat (pw_index s) = NUL"

definition pw_inv :: "app \<Rightarrow> bool" where
  "pw_inv s \<longleftrightarrow> pw_ok s \<and> NUL \<notin> set (take (unat (pw_index s)) (pw_guess s))"

lemma pw_inv_guess: "pw_inv s \<Longrightarrow> c_str (pw_guess s) = Some (take (unat (pw_index s)) (pw_guess s))"
proof -
  assume i: "pw_inv s"
  let ?n = "unat (pw_index s)"
  have "pw_guess s = take ?n (pw_guess s) @ NUL # drop (Suc ?n) (pw_guess s)"
    using i id_take_nth_drop [of ?n "pw_guess s"] by (simp add: pw_inv_def pw_ok_def)
  then have "cstr (pw_guess s) = take ?n (pw_guess s)" using i cstr_append [of "take ?n (pw_guess s)"] by (metis pw_inv_def)
  moreover have "NUL \<in> set (pw_guess s)" using i nth_mem [of ?n "pw_guess s"] by (simp add: pw_inv_def pw_ok_def)
  ultimately show ?thesis by (simp add: c_str_def)
qed

lemma pw_ok_guess: "pw_ok s \<Longrightarrow> c_str (pw_guess s) = Some (cstr (pw_guess s)) \<and> length (cstr (pw_guess s)) \<le> 19"
proof -
  assume i: "pw_ok s"
  let ?n = "unat (pw_index s)"
  have s: "pw_guess s = take ?n (pw_guess s) @ NUL # drop (Suc ?n) (pw_guess s)"
    using i id_take_nth_drop [of ?n "pw_guess s"] by (simp add: pw_ok_def)
  have "length (cstr (xs @ NUL # ys)) \<le> length xs" for xs ys by (induction xs) auto
  from this [of "take ?n (pw_guess s)"] have "length (cstr (pw_guess s)) \<le> length (take ?n (pw_guess s))"
    using arg_cong [OF s, of cstr] by metis
  then have "length (cstr (pw_guess s)) \<le> ?n" using i by (simp add: pw_ok_def)
  moreover have "NUL \<in> set (pw_guess s)" using i nth_mem [of ?n "pw_guess s"] by (simp add: pw_ok_def)
  ultimately show ?thesis using i by (simp add: c_str_def pw_ok_def)
qed

lemma password_append_ok:
  assumes "pw_ok s"
  shows "\<exists>s'. password_append c s = Some (unat (pw_index s) \<noteq> 19, s') \<and> pw_ok s' \<and> s' = s\<lparr>pw_guess := pw_guess s', pw_index := pw_index s'\<rparr> \<and>
    (if unat (pw_index s) = 19 then s' = s
     else unat (pw_index s') = Suc (unat (pw_index s)) \<and>
       take (Suc (unat (pw_index s))) (pw_guess s') = take (unat (pw_index s)) (pw_guess s) @ [c])"
proof (cases "unat (pw_index s) = 19")
  case True
  then show ?thesis using assms by (intro exI [of _ s]) (simp add: password_append_def)
next
  case False
  let ?n = "unat (pw_index s)"
  have n: "?n < 19" using assms False by (simp add: pw_ok_def)
  have i: "unat (pw_index s + 1) = Suc ?n" using n by (subst unat_add_lt) simp_all
  have l: "length (pw_guess s) = 20" using assms by (simp add: pw_ok_def)
  define s' where "s' = s\<lparr>pw_index := pw_index s + 1, pw_guess := (pw_guess s)[?n := c, Suc ?n := NUL]\<rparr>"
  have e: "password_append c s = Some (?n \<noteq> 19, s')"
    using False n l by (simp add: password_append_def set_at_def s'_def i Let_def)
  have t: "take (Suc ?n) (pw_guess s') = take ?n (pw_guess s) @ [c]"
    using n l by (simp add: s'_def take_Suc_conv_app_nth take_update_cancel)
  have ok: "pw_ok s'" using assms n l unfolding pw_ok_def by (simp add: s'_def i)
  have j: "unat (pw_index s') = Suc ?n" by (simp add: s'_def i)
  have f: "s' = s\<lparr>pw_guess := pw_guess s', pw_index := pw_index s'\<rparr>" by (simp add: s'_def)
  have "if ?n = 19 then s' = s else unat (pw_index s') = Suc ?n \<and> take (Suc ?n) (pw_guess s') = take ?n (pw_guess s) @ [c]"
    using False j t by simp
  then show ?thesis using e ok f by blast
qed

text \<open>Typing a character appends it, up to 19.\<close>

lemma password_append_str:
  assumes "pw_inv s" "c \<noteq> NUL" "password_append c s = Some (b, s')"
  shows "pw_inv s' \<and> cstr (pw_guess s') = take 19 (cstr (pw_guess s) @ [c])"
proof -
  note g = pw_inv_guess [OF assms(1)]
  have ok: "pw_ok s" using assms(1) by (simp add: pw_inv_def)
  then have l: "length (pw_guess s) = 20" "unat (pw_index s) < 20" by (simp_all add: pw_ok_def)
  have gl: "cstr (pw_guess s) = take (unat (pw_index s)) (pw_guess s)" using g by (simp add: c_str_def split: if_splits)
  show ?thesis
  proof (cases "unat (pw_index s) = 19")
    case True
    then have "s' = s" using assms(3) by (simp add: password_append_def)
    then show ?thesis using assms(1) gl True l by simp
  next
    case False
    then have s': "pw_ok s'" "unat (pw_index s') = Suc (unat (pw_index s))"
      "take (Suc (unat (pw_index s))) (pw_guess s') = take (unat (pw_index s)) (pw_guess s) @ [c]"
      using password_append_ok [OF ok, of c] assms(3) by auto
    then have i: "pw_inv s'" using assms(1,2) by (simp add: pw_inv_def)
    have "cstr (pw_guess s') = take (unat (pw_index s')) (pw_guess s')" using pw_inv_guess [OF i] by (simp add: c_str_def split: if_splits)
    then show ?thesis using i s'(2,3) gl l False by simp
  qed
qed

lemma password_reset_ok:
  assumes "pw_ok s"
  shows "\<exists>s'. password_reset s = Some s' \<and> pw_inv s' \<and> cstr (pw_guess s') = [] \<and> s' = s\<lparr>pw_guess := pw_guess s', pw_index := pw_index s'\<rparr>"
proof -
  define s' where "s' = s\<lparr>pw_index := 0, pw_guess := (pw_guess s)[0 := NUL]\<rparr>"
  obtain c g where g: "pw_guess s = c # g" using assms by (cases "pw_guess s") (auto simp: pw_ok_def)
  have e: "password_reset s = Some s'" using g by (simp add: password_reset_def set_at_def s'_def)
  have i: "pw_inv s'" using assms g by (simp add: pw_inv_def pw_ok_def s'_def)
  have c: "cstr (pw_guess s') = []" using g by (simp add: s'_def)
  have f: "s' = s\<lparr>pw_guess := pw_guess s', pw_index := pw_index s'\<rparr>" by (simp add: s'_def)
  show ?thesis by (intro exI conjI) (rule e i c f)+
qed

lemma password_set_ok:
  assumes "pw_ok s" "NUL \<notin> set t" "length t \<le> 18"
  shows "\<exists>s'. password_set t s = Some s' \<and> pw_ok s' \<and> cstr (pw_target s') = t \<and> s' = s\<lparr>pw_target := pw_target s'\<rparr>"
proof -
  obtain b where b: "c_strcpy (pw_target s) t = Some b" using assms by (simp add: c_strcpy_def pw_ok_def)
  note c = c_strcpy_str [OF assms(2) b]
  have "NUL \<in> set b" using b by (auto simp: c_strcpy_def split: if_splits)
  then have "pw_ok (s\<lparr>pw_target := b\<rparr>)" using c assms by (simp add: pw_ok_def)
  then show ?thesis using b c by (simp add: password_set_def)
qed

section \<open>The comparison\<close>

lemma evaluate_loop_eq:
  assumes "length t = 20" "length g = 20" "i \<le> 19"
  shows "evaluate_loop t g (Suc i) (t ! i) (g ! i) \<longleftrightarrow> cstr (drop i t) = cstr (drop i g) \<and> NUL \<in> set (take (19 - i) (drop i t))"
  using assms
proof (induction "19 - i" arbitrary: i)
  case 0
  then show ?case by (simp add: evaluate_loop.simps)
next
  case (Suc k)
  have d: "drop i t = t ! i # drop (Suc i) t" "drop i g = g ! i # drop (Suc i) g"
    using Suc.prems Suc.hyps(2) by (simp_all add: Cons_nth_drop_Suc)
  have ih: "evaluate_loop t g (Suc (Suc i)) (t ! Suc i) (g ! Suc i) \<longleftrightarrow>
      cstr (drop (Suc i) t) = cstr (drop (Suc i) g) \<and> NUL \<in> set (take (19 - Suc i) (drop (Suc i) t))"
    by (rule Suc.hyps(1)) (use Suc.prems Suc.hyps(2) in auto)
  have "19 - i = Suc (19 - Suc i)" using Suc.hyps(2) by simp
  then show ?case
    using Suc.hyps(2) ih unfolding d by (subst evaluate_loop.simps) auto
qed

text \<open>C0: The guess is accepted exactly if it is the password and the password has at most 18 characters: the comparison reads
  the first 19 characters of both buffers and must see the end in them.\<close>

theorem evaluate_correct:
  assumes "length (pw_target s) = 20" "length (pw_guess s) = 20"
  shows "password_evaluate s \<longleftrightarrow> cstr (pw_guess s) = cstr (pw_target s) \<and> length (cstr (pw_target s)) \<le> 18"
proof -
  have l: "NUL \<in> set (take n b) \<longleftrightarrow> length (cstr b) < n" if "n \<le> length b" for n b
    using that by (induction b arbitrary: n) (auto simp: take_Cons' less_Suc_eq_0_disj split: if_splits)
  show ?thesis
    using evaluate_loop_eq [OF assms, of 0] l [of 19 "pw_target s"] assms by (auto simp: password_evaluate_def)
qed

lemma password_evaluate_ok: "pw_ok s \<Longrightarrow> password_evaluate s \<longleftrightarrow> cstr (pw_guess s) = cstr (pw_target s)"
  using evaluate_correct [of s] by (auto simp: pw_ok_def)

text \<open>Characters typed one after the other.\<close>

fun type_keys :: "string \<Rightarrow> app \<Rightarrow> app option" where
  "type_keys [] s = Some s"
| "type_keys (c # cs) s = do { (_, s) \<leftarrow> password_append c s; type_keys cs s }"

text \<open>Typing after a reset: whatever is typed, no buffer is overrun, and the guess is the first 19 characters; it is accepted
  exactly if they are the password.\<close>

lemma password_guess_lemma:
  assumes "pw_ok s" "NUL \<notin> set cs"
  shows "\<exists>s1 s'. password_reset s = Some s1 \<and> type_keys cs s1 = Some s' \<and> pw_ok s' \<and> c_str (pw_guess s') = Some (take 19 cs) \<and>
    password_evaluate s' = (take 19 cs = cstr (pw_target s))"
proof -
  have step: "\<exists>s'. type_keys cs s = Some s' \<and> pw_inv s' \<and> cstr (pw_guess s') = take 19 (cstr (pw_guess s) @ cs) \<and> pw_target s' = pw_target s"
    if "pw_inv s" "NUL \<notin> set cs" for s cs
    using that
  proof (induction cs arbitrary: s)
    case Nil
    then have "length (cstr (pw_guess s)) \<le> 19" using pw_ok_guess [of s] by (simp add: pw_inv_def)
    then show ?case using Nil by simp
  next
    case (Cons c cs)
    have ok: "pw_ok s" using Cons.prems(1) by (simp add: pw_inv_def)
    obtain b s1 where a: "password_append c s = Some (b, s1)" "s1 = s\<lparr>pw_guess := pw_guess s1, pw_index := pw_index s1\<rparr>"
      using password_append_ok [OF ok, of c] by blast
    have p: "pw_inv s1 \<and> cstr (pw_guess s1) = take 19 (cstr (pw_guess s) @ [c])"
      using password_append_str [OF Cons.prems(1) _ a(1)] Cons.prems(2) by auto
    have t: "pw_target s1 = pw_target s" by (subst a(2)) simp
    have nc: "NUL \<notin> set cs" using Cons.prems(2) by simp
    obtain s' where s': "type_keys cs s1 = Some s'" "pw_inv s'" "cstr (pw_guess s') = take 19 (cstr (pw_guess s1) @ cs)" "pw_target s' = pw_target s1"
      using Cons.IH [OF conjunct1 [OF p] nc] by blast
    have "take 19 (take 19 (cstr (pw_guess s) @ [c]) @ cs) = take 19 (cstr (pw_guess s) @ c # cs)"
      by (simp add: min_def) (simp add: take_Cons' Suc_diff_le)
    then show ?case using s' a(1) p t by simp
  qed
  obtain s1 where s1: "password_reset s = Some s1" "pw_inv s1" "cstr (pw_guess s1) = []" "s1 = s\<lparr>pw_guess := pw_guess s1, pw_index := pw_index s1\<rparr>"
    using password_reset_ok [OF assms(1)] by blast
  have t1: "pw_target s1 = pw_target s" by (subst s1(4)) simp
  obtain s' where s': "type_keys cs s1 = Some s'" "pw_inv s'" "cstr (pw_guess s') = take 19 cs" "pw_target s' = pw_target s1"
    using step [OF s1(2) assms(2)] s1(3) by auto
  have ok: "pw_ok s'" using s'(2) by (simp add: pw_inv_def)
  then show ?thesis using s1(1) s' t1 pw_ok_guess [OF ok] password_evaluate_ok [OF ok] by auto
qed

text \<open>\<open>is\<close> reads past a string with fewer than 20 bytes, its terminator included, if it is not empty.\<close>

lemma is_loop_overruns: "length guess = 20 \<Longrightarrow> i \<le> length pass \<Longrightarrow> length pass < 20 \<Longrightarrow> pass \<noteq> [] \<Longrightarrow> pass ! 0 \<noteq> NUL \<Longrightarrow> is_loop pass i guess = None"
proof (induction pass i guess rule: is_loop.induct)
  case (1 pass i guess)
  show ?case
  proof (cases "i < length pass")
    case True
    then have "is_loop pass (i + 1) (guess[i := pass ! i]) = None" using 1 by (simp add: set_at_def)
    then show ?thesis using 1(3-) True by (subst is_loop.simps) (simp add: set_at_def)
  next
    case False
    then show ?thesis using 1(3-) by (subst is_loop.simps) simp
  qed
qed

lemma password_is_overruns: "length (pw_guess s) = 20 \<Longrightarrow> length pass < 20 \<Longrightarrow> pass \<noteq> [] \<Longrightarrow> pass ! 0 \<noteq> NUL \<Longrightarrow> password_is pass s = None"
  using is_loop_overruns [of "pw_guess s" 0 pass] by (simp add: password_is_def)

end
