(* ===== verification/MainApp.thy ===== *)
theory MainApp
  imports StateMachine I2C_Comm ThingSpeak Password
begin

text \<open>
  \<open>main.cpp\<close>: the keypad, the decision to unlock, the actions of the states and the main loop.  One round of the loop is
  a function of what it reads from the world, an \<open>input\<close>.
\<close>

section \<open>The actions of the states\<close>

definition INIT_init :: "app \<Rightarrow> app option" where "INIT_init = printf2 (''INIT_init'' @ [NL])"
definition INIT_do :: "app \<Rightarrow> app option" where "INIT_do s = Some s"
definition INIT_end :: "app \<Rightarrow> app option" where "INIT_end = printf2 (''INIT_end'' @ [NL])"

definition LOCKED_init :: "app \<Rightarrow> app option" where
  "LOCKED_init s = do {
     s \<leftarrow> printf2 (''LOCKED_init'' @ [NL]) s;
     let s = cmd_kaiten_lamp 0 False s;
     let s = cmd_servo 150 10 s;
     s \<leftarrow> show_line 3 (''LOCKED'' @ [NL]) s;
     NotifyLocked s
   }"

definition LOCKED_do :: "app \<Rightarrow> app option" where "LOCKED_do s = Some s"
definition LOCKED_end :: "app \<Rightarrow> app option" where "LOCKED_end = printf2 (''LOCKED_end'' @ [NL])"

definition UNLOCKED_init :: "app \<Rightarrow> app option" where
  "UNLOCKED_init s = do {
     s \<leftarrow> printf2 (''UNLOCKED_init'' @ [NL]) s;
     let s = cmd_servo 70 10 s;
     s \<leftarrow> printf2 (''Target weight achieved'' @ [NL]) s;
     s \<leftarrow> show_line 3 (''UNLOCKED'' @ [NL]) s;
     NotifyUnlocked s
   }"

definition UNLOCKED_do :: "app \<Rightarrow> app option" where "UNLOCKED_do s = Some s"
definition UNLOCKED_end :: "app \<Rightarrow> app option" where "UNLOCKED_end = printf2 (''UNLOCKED_end'' @ [NL])"

definition SETTING_init :: "app \<Rightarrow> app option" where "SETTING_init = printf2 (''SETTING_init'' @ [NL])"
definition SETTING_do :: "app \<Rightarrow> app option" where "SETTING_do s = Some s"
definition SETTING_end :: "app \<Rightarrow> app option" where "SETTING_end = printf2 (''SETTING_end'' @ [NL])"

definition state_function :: "state_t \<Rightarrow> state_func_t" where
  "state_function st =
     (case st of
        INIT \<Rightarrow> \<lparr>init_func = Some INIT_init, do_func = Some INIT_do, end_func = Some INIT_end\<rparr>
      | LOCKED \<Rightarrow> \<lparr>init_func = Some LOCKED_init, do_func = Some LOCKED_do, end_func = Some LOCKED_end\<rparr>
      | UNLOCKED \<Rightarrow> \<lparr>init_func = Some UNLOCKED_init, do_func = Some UNLOCKED_do, end_func = Some UNLOCKED_end\<rparr>
      | SETTING \<Rightarrow> \<lparr>init_func = Some SETTING_init, do_func = Some SETTING_do, end_func = Some SETTING_end\<rparr>)"

section \<open>The keypad\<close>

definition unlock_failed :: "u8 \<Rightarrow> app \<Rightarrow> app option" where
  "unlock_failed pattern s = do {
     let s = cmd_kaiten_lamp 50 True s;
     let s = s\<lparr>timeout1 := True\<rparr>;
     let s = cmd_set_text_color 0 15 0 (cmd_set_line 3 s);
     s \<leftarrow> (if pattern = 0 then do {
             s \<leftarrow> printf2 (''Password is incorrect'' @ [NL]) s;
             str \<leftarrow> c_sprintf 50 (''INCORRECT'' @ [NL]);
             s \<leftarrow> cmd_print_text str s;
             NotifyUnlockFailedInvalidPass s
           } else if pattern = 1 then do {
             s \<leftarrow> printf2 (''Weight is initial'' @ [NL]) s;
             str \<leftarrow> c_sprintf 50 (''INITIAL'' @ [NL]);
             cmd_print_text str s
           } else if pattern = 2 then do {
             s \<leftarrow> printf2 (''Target weight unachieved'' @ [NL]) s;
             str \<leftarrow> c_sprintf 50 (''DO DIET'' @ [NL]);
             s \<leftarrow> cmd_print_text str s;
             NotifyUnlockFailedDoDiet s
           } else Some s);
     printf2 (''Unlock failed'' @ [NL]) s
   }"

text \<open>The handler of the timeout, which the event thread runs.\<close>

definition kaiten_stop :: "app \<Rightarrow> app option" where
  "kaiten_stop s = do {
     s \<leftarrow> printf2 (''kaiten_stop'' @ [NL]) s;
     let s = cmd_kaiten_lamp 0 False s;
     show_line 3 (''LOCKED'' @ [NL]) s
   }"

definition checkPassword :: "weight_t \<Rightarrow> app \<Rightarrow> app option" where
  "checkPassword weights s =
     (if \<not> password_evaluate s then unlock_failed 0 s
      else if w_stable weights = initial then unlock_failed 1 s
      else if f32_lt (w_weight weights) (target_weight s) then Some (set_state UNLOCKED s)
      else unlock_failed 2 s)"

text \<open>The key \<open>*\<close>: set the target, set the password, or try the guess.\<close>

definition key_enter :: "weight_t \<Rightarrow> app \<Rightarrow> app option" where
  "key_enter weights s = do {
     let guess2 = pw_guess s;
     s \<leftarrow> (if guess2 ! 0 = CHR ''0'' \<and> guess2 ! 1 = CHR ''0'' then do {
             t \<leftarrow> c_str (drop 2 guess2);
             i \<leftarrow> c_atoi t;
             let s = s\<lparr>target_weight := f32_of_int i\<rparr>;
             printf2 (''Weight Set: '' @ fmt_f False 3 1 (target_weight s) @ [NL]) s
           } else if guess2 ! 0 = CHR ''0'' then do {
             t \<leftarrow> c_str (drop 1 guess2);
             s \<leftarrow> password_set t s;
             p \<leftarrow> c_str (pw_target s);
             printf2 (''Password Set: '' @ p @ [NL]) s
           } else do {
             g \<leftarrow> c_str (pw_guess s);
             s \<leftarrow> printf2 (''Guess Get: '' @ g @ [NL]) s;
             p \<leftarrow> c_str (pw_target s);
             s \<leftarrow> printf2 (''Password Get: '' @ p @ [NL]) s;
             checkPassword weights s
           });
     password_reset s
   }"

definition keypadEvent :: "keymat_t \<Rightarrow> weight_t \<Rightarrow> app \<Rightarrow> app option" where
  "keypadEvent key_data weights s =
     (if km_state key_data \<noteq> KeyPush then Some s
      else do {
        s \<leftarrow> printf2 ''Pressed: '' s;
        s \<leftarrow> printf2 [km_key key_data, NL] s;
        s \<leftarrow> (if km_key key_data = CHR ''*'' then key_enter weights s
              else if km_key key_data = CHR ''#'' then password_reset s
              else do { (_, s) \<leftarrow> password_append (km_key key_data) s; Some s });
        guess \<leftarrow> c_str (pw_guess s);
        show_line 2 (''PASS:'' @ guess @ [NL]) s
      })"

section \<open>The main loop\<close>

text \<open>What a round reads: the switch of the door, the bytes of the scale and of the keypad.\<close>

record input =
  in_door :: bool
  in_weight :: "u8 list"
  in_key :: "u8 \<times> u8"

text \<open>The message for a new state of the scale.\<close>

definition report_weight :: "weight_t \<Rightarrow> app \<Rightarrow> app option" where
  "report_weight weights s =
     (if w_stable weights \<noteq> w_stable (weights_old s) then do {
        let s = cmd_set_text_color 0 15 0 (cmd_set_line 1 s);
        if w_stable weights = initial then do {
          s \<leftarrow> printf2 (''stable: '' @ fmt_d (uint (w_stable weights)) @ '', weight: ---'' @ [NL]) s;
          str \<leftarrow> c_sprintf 50 (''NOW:---kg'' @ [NL]);
          cmd_print_text str s
        } else do {
          s \<leftarrow> printf2 (''stable: '' @ fmt_d (uint (w_stable weights)) @ '', weight: '' @ fmt_f False 0 6 (w_weight weights) @ [NL]) s;
          str \<leftarrow> c_sprintf 50 (''NOW:'' @ fmt_f False 3 0 (w_weight weights) @ ''kg'' @ [NL]);
          s \<leftarrow> cmd_print_text str s;
          if w_stable weights = determined then do {
            s \<leftarrow> ChannelUpdate (w_weight weights) (target_weight s) s;
            if f32_lt (w_weight weights) (target_weight s)
            then NotifyDietAchieved (w_weight weights) (target_weight s) s
            else NotifyDietNotAchieved (w_weight weights) (target_weight s) (f32_sub (w_weight weights) (target_weight s)) s
          } else Some s
        }
      } else Some s)"

definition report_door :: "bool \<Rightarrow> app \<Rightarrow> app option" where
  "report_door door_open s =
     (if door_open_old s \<noteq> door_open then
        (if \<not> door_open then do {
           s \<leftarrow> printf2 (''door close'' @ [NL]) (cmd_lamp False s);
           Some (set_state LOCKED s)
         } else printf2 (''door open'' @ [NL]) (cmd_lamp True s))
      else Some s)"

definition report_target :: "app \<Rightarrow> app option" where
  "report_target s = do {
     target_weight_int \<leftarrow> f32_trunc (target_weight s);
     s \<leftarrow> (if target_weight_int \<noteq> target_weight_old s then do {
             s \<leftarrow> show_line 0 (''GOAL:'' @ fmt_f False 3 0 (target_weight s) @ ''kg'' @ [NL]) s;
             if target_weight_old s \<noteq> 0 then NotifyChangeTarget (target_weight_old s) target_weight_int s else Some s
           } else Some s);
     Some (s\<lparr>target_weight_old := target_weight_int\<rparr>)
   }"

definition com_main_loop :: "input \<Rightarrow> app \<Rightarrow> app option" where
  "com_main_loop i s = do {
     let door_open = in_door i;
     let weights = get_weight (in_weight i);
     let key_data = get_key (fst (in_key i)) (snd (in_key i));
     s \<leftarrow> report_weight weights s;
     let s = s\<lparr>weights_old := weights\<rparr>;
     s \<leftarrow> report_door door_open s;
     let s = s\<lparr>door_open_old := door_open\<rparr>;
     s \<leftarrow> (if get_state s = LOCKED then keypadEvent key_data weights s else Some s);
     s \<leftarrow> report_target s;
     state_main state_function s
   }"

text \<open>\<open>com_main\<close> up to its loop: \<open>wifi\<close> is \<open>wifi_init\<close> with its arguments.\<close>

definition com_main_start :: "(app \<Rightarrow> (int \<times> app) option) \<Rightarrow> bool \<Rightarrow> app \<Rightarrow> app option" where
  "com_main_start wifi lead_sw s = do {
     (_, s) \<leftarrow> wifi s;
     let door_open = lead_sw;
     let s = (if \<not> door_open then set_state LOCKED s else set_state UNLOCKED s);
     show_line 2 (''PASS:'' @ [NL]) s
   }"

text \<open>The variables at reset: the static ones are zero, the objects are constructed.\<close>

definition app_zero :: "(nat \<Rightarrow> int + string) \<Rightarrow> app" where
  "app_zero reply = \<lparr>pw_target = replicate 20 NUL, pw_guess = replicate 20 NUL, pw_index = 0,
     g_state = INIT, old_state = INIT, next_state = INIT, target_weight = f32_of_int 100,
     weights_old = \<lparr>w_stable = 0, w_weight = 0\<rparr>, door_open_old = False, target_weight_old = 0, timeout1 = False,
     oled_j = 0, oled_str = replicate 8 (replicate 300 NUL), http_reply = reply, http_n = 0, http_live = 0, out = []\<rparr>"

text \<open>\<open>main\<close> prints a line before it starts the threads; the password is \<open>1234\<close>.\<close>

definition app_main :: "(nat \<Rightarrow> int + string) \<Rightarrow> app option" where
  "app_main reply = do {
     s \<leftarrow> password_new ''1234'' (app_zero reply);
     printf2 (''start'' @ [NL]) s
   }"

section \<open>Runs\<close>

text \<open>After the start, rounds of the main loop and, while the timeout is armed, its handler, in any order.\<close>

inductive app_run :: "(nat \<Rightarrow> int + string) \<Rightarrow> app \<Rightarrow> bool" for reply where
  start: "app_main reply = Some s \<Longrightarrow> com_main_start (wifi_init ret mac ip nm gw rssi) lead_sw s = Some s' \<Longrightarrow> app_run reply s'"
| round: "app_run reply s \<Longrightarrow> com_main_loop i s = Some s' \<Longrightarrow> app_run reply s'"
| stop: "app_run reply s \<Longrightarrow> timeout1 s \<Longrightarrow> kaiten_stop (s\<lparr>timeout1 := False\<rparr>) = Some s' \<Longrightarrow> app_run reply s'"

end
