(* ===== verification/LockSpec.thy ===== *)
theory LockSpec
  imports MainApp
begin

text \<open>
  What the lock promises.  The servo of the lock is moved only by two commands; between them everything the program does
  is output that leaves the state of the lock alone (\<open>quiet\<close>).
\<close>

definition is_servo :: "effect \<Rightarrow> bool" where
  "is_servo e = (case e of I2C_write a b \<Rightarrow> a = servo_addr | _ \<Rightarrow> False)"

abbreviation "servo_open \<equiv> I2C_write servo_addr [0x01, 0x01, 70, 10]"
abbreviation "servo_close \<equiv> I2C_write servo_addr [0x01, 0x01, 150, 10]"

definition servo :: "app \<Rightarrow> effect list" where
  "servo s = filter is_servo (out s)"

text \<open>Only output, and none of it to the servo.\<close>

definition quiet :: "app \<Rightarrow> app \<Rightarrow> bool" where
  "quiet s s' \<longleftrightarrow> servo s' = servo s \<and> pw_target s' = pw_target s \<and> pw_guess s' = pw_guess s \<and> pw_index s' = pw_index s \<and>
     g_state s' = g_state s \<and> old_state s' = old_state s \<and> next_state s' = next_state s \<and> target_weight s' = target_weight s \<and>
     door_open_old s' = door_open_old s"

lemma quiet_refl: "quiet s s"
  by (simp add: quiet_def)

lemma quiet_trans: "quiet s s1 \<Longrightarrow> quiet s1 s2 \<Longrightarrow> quiet s s2"
  by (simp add: quiet_def)

lemma quiet_then: "quiet s1 s2 \<Longrightarrow> quiet s s1 \<Longrightarrow> quiet s s2"
  by (rule quiet_trans)

lemma quiet_emit: "\<not> is_servo e \<Longrightarrow> quiet s (emit e s)"
  by (simp add: quiet_def emit_def servo_def)

named_theorems quiet_intros "outputs that leave the lock alone"

lemma printf2_quiet: "printf2 t s = Some s' \<Longrightarrow> quiet s s'"
proof -
  assume p: "printf2 t s = Some s'"
  obtain buf line where b: "printOLED buf (emit (Serial line) s) = Some s'"
    using p by (auto simp: printf2_def split: bind_splits)
  obtain j str lines where o: "s' = emit (Oled lines) ((emit (Serial line) s)\<lparr>oled_j := j, oled_str := str\<rparr>)"
    using b by (auto simp: printOLED_def split: bind_splits prod.splits)
  show ?thesis unfolding o
    by (simp add: quiet_def emit_def servo_def is_servo_def)
qed

declare printf2_quiet [THEN quiet_then, quiet_intros]

lemma cmd_quiet:
  "quiet s (cmd_lamp b s)" "quiet s (cmd_kaiten d s)" "quiet s (cmd_set_line l s)" "quiet s (cmd_set_text_color r g bl s)" "quiet s (cmd_kaiten_lamp d b s)"
proof -
  show l: "quiet s (cmd_lamp b s)" for s by (simp add: cmd_lamp_def quiet_emit is_servo_def)
  show k: "quiet s (cmd_kaiten d s)" by (simp add: cmd_kaiten_def quiet_emit is_servo_def)
  have "quiet s (cmd_clear_line l s)" by (simp add: cmd_clear_line_def quiet_emit is_servo_def)
  moreover have "quiet (cmd_clear_line l s) (cmd_set_line l s)" by (simp add: cmd_set_line_def quiet_emit is_servo_def)
  ultimately show "quiet s (cmd_set_line l s)" by (rule quiet_trans)
  show "quiet s (cmd_set_text_color r g bl s)" by (simp add: cmd_set_text_color_def quiet_emit is_servo_def)
  show "quiet s (cmd_kaiten_lamp d b s)" unfolding cmd_kaiten_lamp_def by (rule quiet_trans [OF k l])
qed

declare cmd_quiet [THEN quiet_then, quiet_intros]

lemma print_text_quiet: "cmd_print_text str s = Some s' \<Longrightarrow> quiet s s'"
  by (auto simp: cmd_print_text_def Let_def is_servo_def intro: quiet_emit split: if_splits)

declare print_text_quiet [THEN quiet_then, quiet_intros]

lemma show_line_quiet: "show_line l t s = Some s' \<Longrightarrow> quiet s s'"
proof -
  assume "show_line l t s = Some s'"
  then obtain str where "cmd_print_text str (cmd_set_text_color 0 15 0 (cmd_set_line l s)) = Some s'"
    by (auto simp: show_line_def split: bind_splits)
  then show ?thesis by (blast intro: quiet_intros quiet_refl)
qed

declare show_line_quiet [THEN quiet_then, quiet_intros]

lemma field_quiet:
  "quiet s (s\<lparr>http_live := n\<rparr>)" "quiet s (emit (Http_get u) (s\<lparr>http_live := n, http_n := k\<rparr>))" "quiet s (s\<lparr>timeout1 := b\<rparr>)"
  "quiet s (s\<lparr>target_weight_old := i\<rparr>)" "quiet s (s\<lparr>weights_old := w\<rparr>)"
  by (simp_all add: quiet_def emit_def servo_def is_servo_def)

declare field_quiet [THEN quiet_then, quiet_intros]

lemma http_send_quiet: "http_send url s = Some s' \<Longrightarrow> quiet s s'"
  unfolding http_send_def Let_def
  by (auto 0 8 elim!: bindE split: sum.splits intro: quiet_intros quiet_refl)

lemma http_get_quiet: "http_get url s = Some s' \<Longrightarrow> quiet s s'"
  unfolding http_get_def
  by (elim bindE) (blast intro: quiet_trans printf2_quiet http_send_quiet)

declare http_get_quiet [THEN quiet_then, quiet_intros]

lemma notify_quiet:
  "ChannelUpdate a b s = Some s' \<Longrightarrow> quiet s s'" "NotifyDietAchieved a b s = Some s' \<Longrightarrow> quiet s s'"
  "NotifyDietNotAchieved a b c s = Some s' \<Longrightarrow> quiet s s'" "NotifyUnlockFailedInvalidPass s = Some s' \<Longrightarrow> quiet s s'"
  "NotifyUnlockFailedDoDiet s = Some s' \<Longrightarrow> quiet s s'" "NotifyChangeTarget i j s = Some s' \<Longrightarrow> quiet s s'"
  "NotifyLocked s = Some s' \<Longrightarrow> quiet s s'" "NotifyUnlocked s = Some s' \<Longrightarrow> quiet s s'"
  unfolding ChannelUpdate_def NotifyDietAchieved_def NotifyDietNotAchieved_def NotifyUnlockFailedInvalidPass_def
    NotifyUnlockFailedDoDiet_def NotifyChangeTarget_def NotifyLocked_def NotifyUnlocked_def
  by (rule http_get_quiet, assumption)+

declare notify_quiet [THEN quiet_then, quiet_intros]

lemma state_funcs_quiet:
  "INIT_init s = Some s' \<Longrightarrow> quiet s s'" "INIT_end s = Some s' \<Longrightarrow> quiet s s'" "LOCKED_end s = Some s' \<Longrightarrow> quiet s s'"
  "UNLOCKED_end s = Some s' \<Longrightarrow> quiet s s'" "SETTING_init s = Some s' \<Longrightarrow> quiet s s'" "SETTING_end s = Some s' \<Longrightarrow> quiet s s'"
  unfolding INIT_init_def INIT_end_def LOCKED_end_def UNLOCKED_end_def SETTING_init_def SETTING_end_def
  by (rule printf2_quiet, assumption)+

declare state_funcs_quiet [THEN quiet_then, quiet_intros]

lemma report_weight_quiet: "report_weight w s = Some s' \<Longrightarrow> quiet s s'"
  unfolding report_weight_def Let_def
  by (auto 0 12 elim!: bindE split: if_splits intro: quiet_refl quiet_intros)

lemma report_weight_door: "report_weight w s = Some s' \<Longrightarrow> door_open_old s' = door_open_old s"
  by (drule report_weight_quiet) (simp add: quiet_def)

lemma report_target_quiet: "report_target s = Some s' \<Longrightarrow> quiet s s'"
  unfolding report_target_def
  by (auto 0 8 elim!: bindE split: if_splits intro: quiet_refl quiet_intros)

lemma unlock_failed_quiet: "unlock_failed p s = Some s' \<Longrightarrow> quiet s s'"
  unfolding unlock_failed_def Let_def
  by (auto 0 12 elim!: bindE split: if_splits intro: quiet_refl quiet_intros)

lemma kaiten_stop_quiet: "kaiten_stop s = Some s' \<Longrightarrow> quiet s s'"
  unfolding kaiten_stop_def Let_def
  by (auto 0 8 elim!: bindE intro: quiet_refl quiet_intros)

declare report_weight_quiet [THEN quiet_then, quiet_intros] report_target_quiet [THEN quiet_then, quiet_intros]
  unlock_failed_quiet [THEN quiet_then, quiet_intros]

lemmas quietD = quiet_def [THEN iffD1]

section \<open>One round\<close>

text \<open>The conditions under which a key press unlocks.\<close>

definition authorised :: "keymat_t \<Rightarrow> weight_t \<Rightarrow> app \<Rightarrow> bool" where
  "authorised k w s \<longleftrightarrow> km_state k = KeyPush \<and> km_key k = CHR ''*'' \<and> pw_guess s ! 0 \<noteq> CHR ''0'' \<and>
     cstr (pw_guess s) = cstr (pw_target s) \<and> w_stable w \<noteq> initial \<and> f32_lt (w_weight w) (target_weight s)"

text \<open>The state of the lock after an operation: what the operation may change.\<close>

definition lock_rel :: "app \<Rightarrow> app \<Rightarrow> state_t \<Rightarrow> bool" where
  "lock_rel s s' g \<longleftrightarrow> pw_ok s' \<and> servo s' = servo s \<and> old_state s' = old_state s \<and> next_state s' = next_state s \<and> g_state s' = g"

lemma quiet_pw_ok: "quiet s s' \<Longrightarrow> pw_ok s' = pw_ok s"
  by (simp add: quiet_def pw_ok_def)

lemma lock_rel_quiet: "quiet s s' \<Longrightarrow> pw_ok s \<Longrightarrow> lock_rel s s' (g_state s)"
  by (simp add: lock_rel_def quiet_def pw_ok_def)

lemma lock_rel_trans: "lock_rel s s1 g \<Longrightarrow> lock_rel s1 s2 g' \<Longrightarrow> lock_rel s s2 g'"
  by (simp add: lock_rel_def)

lemma lock_rel_guess: "s' = s\<lparr>pw_guess := g, pw_index := i\<rparr> \<Longrightarrow> pw_ok s' \<Longrightarrow> lock_rel s s' (g_state s)"
  by (simp add: lock_rel_def servo_def)

lemma lock_rel_reset:
  assumes "password_reset s = Some s'" "pw_ok s"
  shows "lock_rel s s' (g_state s)"
proof -
  have "pw_inv s' \<and> s' = s\<lparr>pw_guess := pw_guess s', pw_index := pw_index s'\<rparr>" using password_reset_ok [OF assms(2)] assms(1) by fastforce
  then show ?thesis by (intro lock_rel_guess) (auto simp: pw_inv_def)
qed

lemma lock_rel_append:
  assumes "password_append c s = Some (b, s')" "pw_ok s"
  shows "lock_rel s s' (g_state s)"
proof -
  have "pw_ok s' \<and> s' = s\<lparr>pw_guess := pw_guess s', pw_index := pw_index s'\<rparr>" using password_append_ok [OF assms(2), of c] assms(1) by fastforce
  then show ?thesis by (intro lock_rel_guess) auto
qed

lemma checkPassword_lock:
  assumes "checkPassword w s = Some s'" "pw_ok s"
  shows "lock_rel s s' (if cstr (pw_guess s) = cstr (pw_target s) \<and> w_stable w \<noteq> initial \<and> f32_lt (w_weight w) (target_weight s)
     then UNLOCKED else g_state s)"
  using assms(1) lock_rel_quiet [OF _ assms(2)] unlock_failed_quiet assms(2)
  by (auto simp: checkPassword_def password_evaluate_ok [OF assms(2)] set_state_def lock_rel_def servo_def pw_ok_def split: if_splits)

lemma key_enter_lock:
  assumes k: "key_enter w s = Some s'" and ok: "pw_ok s"
  shows "lock_rel s s' (if pw_guess s ! 0 \<noteq> CHR ''0'' \<and> cstr (pw_guess s) = cstr (pw_target s) \<and> w_stable w \<noteq> initial \<and>
       f32_lt (w_weight w) (target_weight s) then UNLOCKED else g_state s)"
proof -
  have l: "length (pw_guess s) = 20" using ok by (simp add: pw_ok_def)
  have r: "lock_rel s s' (g_state s1)" if "lock_rel s s1 (g_state s1)" "password_reset s1 = Some s'" for s1
    using that lock_rel_reset [of s1 s'] lock_rel_trans by (auto simp: lock_rel_def)
  consider (weight) "pw_guess s ! 0 = CHR ''0''" "pw_guess s ! 1 = CHR ''0''" | (pass) "pw_guess s ! 0 = CHR ''0''" "pw_guess s ! 1 \<noteq> CHR ''0''"
    | (tried) "pw_guess s ! 0 \<noteq> CHR ''0''" by blast
  then show ?thesis
  proof cases
    case weight
    then obtain i s1 where s1: "printf2 (''Weight Set: '' @ fmt_f False 3 1 (f32_of_int i) @ [NL]) (s\<lparr>target_weight := f32_of_int i\<rparr>) = Some s1"
      "password_reset s1 = Some s'"
      using k by (auto simp: key_enter_def Let_def simp del: append.simps elim!: bindE)
    have "lock_rel s (s\<lparr>target_weight := f32_of_int i\<rparr>) (g_state s)" using ok by (simp add: lock_rel_def servo_def pw_ok_def)
    then have "lock_rel s s1 (g_state s)" using printf2_quiet [OF s1(1)] by (simp add: lock_rel_def quiet_def pw_ok_def)
    then show ?thesis using r [of s1] s1(2) weight by (simp add: lock_rel_def)
  next
    case pass
    then obtain t s1 p s2 where s1: "c_str (drop 1 (pw_guess s)) = Some t" "password_set t s = Some s1"
      "printf2 (''Password Set: '' @ p @ [NL]) s1 = Some s2" "password_reset s2 = Some s'"
      using k by (auto simp: key_enter_def Let_def simp del: append.simps elim!: bindE)
    have t: "t = cstr (drop 1 (pw_guess s))" using s1(1) by (simp add: c_str_def split: if_splits)
    have "cstr (pw_guess s) = CHR ''0'' # t" using l pass unfolding t by (cases "pw_guess s") auto
    then have "length t \<le> 18" using pw_ok_guess [OF ok] by simp
    moreover have "NUL \<notin> set t" unfolding t by simp
    ultimately have "lock_rel s s1 (g_state s)"
      using password_set_ok [OF ok, of t] s1(2) by (auto simp: lock_rel_def servo_def password_set_def split: bind_splits)
    then have "lock_rel s s2 (g_state s)" using printf2_quiet [OF s1(3)] by (simp add: lock_rel_def quiet_def pw_ok_def)
    then show ?thesis using r [of s2] s1(4) pass by (simp add: lock_rel_def)
  next
    case tried
    then obtain g p s1 s2 s3 where s1: "printf2 (''Guess Get: '' @ g @ [NL]) s = Some s1" "printf2 (''Password Get: '' @ p @ [NL]) s1 = Some s2"
      "checkPassword w s2 = Some s3" "password_reset s3 = Some s'"
      using k by (auto simp: key_enter_def Let_def simp del: append.simps elim!: bindE)
    have q: "quiet s s2" by (rule quiet_trans [OF printf2_quiet [OF s1(1)] printf2_quiet [OF s1(2)]])
    have ok2: "pw_ok s2" using quiet_pw_ok [OF q] ok by simp
    note C = checkPassword_lock [OF s1(3) ok2]
    show ?thesis using r [of s3] s1(4) C q ok tried by (simp add: lock_rel_def quiet_def)
  qed
qed

lemma keypadEvent_lock:
  assumes k: "keypadEvent k w s = Some s'" and ok: "pw_ok s"
  shows "lock_rel s s' (if authorised k w s then UNLOCKED else g_state s)"
proof (cases "km_state k = KeyPush")
  case False
  then show ?thesis using assms by (simp add: keypadEvent_def authorised_def lock_rel_def)
next
  case True
  obtain s1 s2 s3 g where s: "printf2 ''Pressed: '' s = Some s1" "printf2 [km_key k, NL] s1 = Some s2"
    "(if km_key k = CHR ''*'' then key_enter w s2 else if km_key k = CHR ''#'' then password_reset s2
      else do { (_, s) \<leftarrow> password_append (km_key k) s2; Some s }) = Some s3" "show_line 2 (''PASS:'' @ g @ [NL]) s3 = Some s'"
    using k True by (auto simp: keypadEvent_def simp del: append.simps elim!: bindE)
  have q: "quiet s s2" by (rule quiet_trans [OF printf2_quiet [OF s(1)] printf2_quiet [OF s(2)]])
  have ok2: "pw_ok s2" using quiet_pw_ok [OF q] ok by simp
  have "lock_rel s2 s3 (if authorised k w s2 then UNLOCKED else g_state s2)"
    using s(3) True key_enter_lock [OF _ ok2, of w s3] lock_rel_reset [OF _ ok2, of s3] lock_rel_append [OF _ ok2, of "km_key k" _ s3]
    by (auto simp: authorised_def split: if_splits bind_splits)
  then show ?thesis using show_line_quiet [OF s(4)] q by (simp add: lock_rel_def quiet_def pw_ok_def authorised_def)
qed

text \<open>The main loop up to its transition, and the transition.\<close>

definition door_state :: "input \<Rightarrow> app \<Rightarrow> state_t" where
  "door_state i s = (if door_open_old s \<and> \<not> in_door i then LOCKED else g_state s)"

definition unlocks :: "input \<Rightarrow> app \<Rightarrow> bool" where
  "unlocks i s \<longleftrightarrow> door_state i s = LOCKED \<and> authorised (get_key (fst (in_key i)) (snd (in_key i))) (get_weight (in_weight i)) s"

lemma report_door_lock:
  "report_door d s = Some s' \<Longrightarrow> pw_ok s \<Longrightarrow> lock_rel s s' (if door_open_old s \<and> \<not> d then LOCKED else g_state s) \<and>
     pw_guess s' = pw_guess s \<and> pw_target s' = pw_target s \<and> target_weight s' = target_weight s"
proof -
  assume r: "report_door d s = Some s'" and ok: "pw_ok s"
  have l: "quiet s (cmd_lamp b s)" for b by (rule cmd_quiet)
  show ?thesis
  proof (cases "door_open_old s = d")
    case True
    then show ?thesis using r ok by (auto simp: report_door_def lock_rel_def)
  next
    case False
    then obtain s1 where s1: "quiet s s1" "s' = (if d then s1 else set_state LOCKED s1)"
      using r l printf2_quiet quiet_trans by (auto simp: report_door_def simp del: append.simps split: if_splits elim!: bindE) blast+
    then show ?thesis using False ok by (auto simp: lock_rel_def quiet_def set_state_def servo_def pw_ok_def)
  qed
qed

lemma state_main_lock:
  assumes m: "state_main state_function s = Some s'" and st: "old_state s = next_state s" "old_state s \<in> {INIT, LOCKED, UNLOCKED}"
    "g_state s \<in> {LOCKED, UNLOCKED}"
  shows "old_state s' = g_state s \<and> next_state s' = g_state s \<and> g_state s' = g_state s \<and>
    servo s' = servo s @ (if old_state s = g_state s then [] else if g_state s = UNLOCKED then [servo_open] else [servo_close]) \<and>
    (pw_ok s \<longrightarrow> pw_ok s')"
proof (cases "old_state s = g_state s")
  case True
  then have "s' = s\<lparr>old_state := next_state s\<rparr>"
    using m st by (auto simp: state_main_def state_trans_def call_func_def state_function_def LOCKED_do_def UNLOCKED_do_def)
  then show ?thesis using True st by (simp add: servo_def pw_ok_def)
next
  case False
  have n: "state_next (old_state s) (g_state s) = g_state s" using st(2,3) by (auto simp: state_next_def)
  define s0 where "s0 = s\<lparr>next_state := g_state s\<rparr>"
  obtain s1 s2 where s1: "call_func (end_func (state_function (old_state s))) s0 = Some s1"
    "call_func (init_func (state_function (next_state s1))) s1 = Some s2"
    "call_func (do_func (state_function (next_state s2))) (s2\<lparr>old_state := next_state s2\<rparr>) = Some s'"
    using m False by (auto simp: state_main_def state_trans_def Let_def n s0_def elim!: bindE)
  have q1: "quiet s0 s1" using s1(1) st(2) state_funcs_quiet by (auto simp: call_func_def state_function_def)
  have g: "next_state s1 = g_state s" using q1 by (simp add: quiet_def s0_def)
  have sv: "servo (cmd_servo a b t) = servo t @ [I2C_write servo_addr [1, 1, a, b]] \<and> quiet (t\<lparr>out := out (cmd_servo a b t)\<rparr>) (cmd_servo a b t)" for a b t
    by (simp add: cmd_servo_def emit_def servo_def is_servo_def quiet_def)
  have i: "servo s2 = servo s1 @ (if g_state s = UNLOCKED then [servo_open] else [servo_close]) \<and> quiet (s1\<lparr>out := out s2\<rparr>) s2"
  proof (cases "g_state s = UNLOCKED")
    case True
    then have "UNLOCKED_init s1 = Some s2" using s1(2) g by (simp add: call_func_def state_function_def)
    then obtain t1 t2 t3 where t: "printf2 (''UNLOCKED_init'' @ [NL]) s1 = Some t1" "printf2 (''Target weight achieved'' @ [NL]) (cmd_servo 70 10 t1) = Some t2"
        "show_line 3 (''UNLOCKED'' @ [NL]) t2 = Some t3" "NotifyUnlocked t3 = Some s2"
      unfolding UNLOCKED_init_def Let_def by (elim bindE)
    have q: "quiet (cmd_servo 70 10 t1) s2"
      by (rule quiet_trans [OF printf2_quiet [OF t(2)] quiet_trans [OF show_line_quiet [OF t(3)] notify_quiet(8) [OF t(4)]]])
    have "quiet s1 t1" by (rule printf2_quiet [OF t(1)])
    then show ?thesis using True q sv [of 70 10 t1] by (simp add: quiet_def servo_def)
  next
    case False
    then have "LOCKED_init s1 = Some s2" using s1(2) g st(3) by (simp add: call_func_def state_function_def)
    then obtain t1 t2 where t: "printf2 (''LOCKED_init'' @ [NL]) s1 = Some t1"
        "show_line 3 (''LOCKED'' @ [NL]) (cmd_servo 150 10 (cmd_kaiten_lamp 0 False t1)) = Some t2" "NotifyLocked t2 = Some s2"
      unfolding LOCKED_init_def Let_def by (elim bindE)
    have q: "quiet (cmd_servo 150 10 (cmd_kaiten_lamp 0 False t1)) s2"
      by (rule quiet_trans [OF show_line_quiet [OF t(2)] notify_quiet(7) [OF t(3)]])
    have "quiet s1 (cmd_kaiten_lamp 0 False t1)" by (rule quiet_trans [OF printf2_quiet [OF t(1)] cmd_quiet(5)])
    then show ?thesis using False q sv [of 150 10 "cmd_kaiten_lamp 0 False t1"] by (simp add: quiet_def servo_def)
  qed
  have e: "s' = s2\<lparr>old_state := next_state s2\<rparr>" using s1(3) st(3) i g
    by (auto simp: call_func_def state_function_def LOCKED_do_def UNLOCKED_do_def quiet_def)
  show ?thesis using q1 i False unfolding e by (auto simp: quiet_def s0_def servo_def pw_ok_def)
qed

lemma round_lock:
  assumes r: "com_main_loop i s = Some s'" and ok: "pw_ok s" and st: "old_state s = next_state s" "old_state s \<in> {INIT, LOCKED, UNLOCKED}"
    "g_state s \<in> {LOCKED, UNLOCKED}"
  shows "pw_ok s' \<and> g_state s' = (if unlocks i s then UNLOCKED else door_state i s) \<and> old_state s' = g_state s' \<and> next_state s' = g_state s' \<and>
    servo s' = servo s @ (if old_state s = g_state s' then [] else if g_state s' = UNLOCKED then [servo_open] else [servo_close])"
proof -
  let ?w = "get_weight (in_weight i)" and ?k = "get_key (fst (in_key i)) (snd (in_key i))"
  obtain s1 s2 s3 s4 where s: "report_weight ?w s = Some s1" "report_door (in_door i) (s1\<lparr>weights_old := ?w\<rparr>) = Some s2"
    "(if get_state (s2\<lparr>door_open_old := in_door i\<rparr>) = LOCKED then keypadEvent ?k ?w (s2\<lparr>door_open_old := in_door i\<rparr>)
      else Some (s2\<lparr>door_open_old := in_door i\<rparr>)) = Some s3"
    "report_target s3 = Some s4" "state_main state_function s4 = Some s'"
    using r by (auto simp: com_main_loop_def Let_def elim!: bindE)
  define t1 where "t1 = s1\<lparr>weights_old := ?w\<rparr>"
  define t2 where "t2 = s2\<lparr>door_open_old := in_door i\<rparr>"
  have q1: "quiet s t1" using report_weight_quiet [OF s(1)] by (simp add: quiet_def t1_def servo_def)
  have d1: "door_open_old t1 = door_open_old s" using report_weight_door [OF s(1)] by (simp add: t1_def)
  have ok1: "pw_ok t1" using quiet_pw_ok [OF q1] ok by simp
  note D = report_door_lock [OF s(2) [folded t1_def] ok1]
  have l2: "lock_rel s t2 (door_state i s)" and f2: "pw_guess t2 = pw_guess s" "pw_target t2 = pw_target s" "target_weight t2 = target_weight s"
    using D q1 d1 by (auto simp: lock_rel_def t2_def quiet_def door_state_def servo_def pw_ok_def)
  have ok2: "pw_ok t2" using l2 by (simp add: lock_rel_def)
  have a: "authorised ?k ?w t2 = authorised ?k ?w s" using f2 by (simp add: authorised_def)
  have l3: "lock_rel s s3 (if unlocks i s then UNLOCKED else door_state i s)"
    using s(3) [folded t2_def] keypadEvent_lock [OF _ ok2, of ?k ?w s3] l2 a lock_rel_trans [OF l2]
    by (auto simp: get_state_def unlocks_def lock_rel_def split: if_splits)
  have "lock_rel s s4 (if unlocks i s then UNLOCKED else door_state i s)"
    using l3 report_target_quiet [OF s(4)] by (simp add: lock_rel_def quiet_def pw_ok_def)
  moreover have "(if unlocks i s then UNLOCKED else door_state i s) \<in> {LOCKED, UNLOCKED}" using st(3) by (simp add: door_state_def)
  ultimately show ?thesis using state_main_lock [OF s(5)] st by (simp add: lock_rel_def)
qed

section \<open>Every run\<close>

text \<open>The invariant: the state machine has settled, and the servo is where the state says, once a round has been made.\<close>

definition lock_inv :: "app \<Rightarrow> bool" where
  "lock_inv s \<longleftrightarrow> pw_ok s \<and> old_state s = next_state s \<and> g_state s \<in> {LOCKED, UNLOCKED} \<and>
     (if old_state s = INIT then servo s = []
      else old_state s = g_state s \<and> servo s \<noteq> [] \<and> last (servo s) = (if g_state s = UNLOCKED then servo_open else servo_close))"

lemma lock_inv_round: "lock_inv s \<Longrightarrow> com_main_loop i s = Some s' \<Longrightarrow> lock_inv s' \<and> old_state s' \<noteq> INIT"
  using round_lock [of i s s'] by (auto simp: lock_inv_def door_state_def split: if_splits)

lemma lock_inv_quiet: "lock_inv s \<Longrightarrow> quiet s s' \<Longrightarrow> lock_inv s'"
  by (simp add: lock_inv_def quiet_def pw_ok_def)

lemma wifi_quiet: "wifi_init ret mac ip nm gw rssi s = Some (r, s') \<Longrightarrow> quiet s s'"
  unfolding wifi_init_def by (auto 0 14 split: if_splits elim!: bindE intro: quiet_refl quiet_intros)

lemma app_run_lock: "app_run reply s \<Longrightarrow> lock_inv s"
proof (induction rule: app_run.induct)
  case (start s ret mac ip nm gw rssi lead_sw s')
  obtain s0 where s0: "password_new ''1234'' (app_zero reply) = Some s0" "printf2 (''start'' @ [NL]) s0 = Some s"
    using start(1) unfolding app_main_def by (elim bindE)
  have c: "replicate 20 NUL = NUL # NUL # NUL # NUL # NUL # replicate 15 NUL" by (simp add: eval_nat_numeral)
  have "s0 = (app_zero reply)\<lparr>pw_target := ''1234'' @ NUL # replicate 15 NUL\<rparr>"
    using s0(1) by (simp add: password_new_def password_set_def c_strcpy_def password_reset_def set_at_def app_zero_def c Let_def)
  then have z: "pw_ok s0" "old_state s0 = INIT" "next_state s0 = INIT" "servo s0 = []"
    by (simp_all add: pw_ok_def app_zero_def servo_def)
  obtain r s1 where s1: "wifi_init ret mac ip nm gw rssi s = Some (r, s1)"
    "show_line 2 (''PASS:'' @ [NL]) (if \<not> lead_sw then set_state LOCKED s1 else set_state UNLOCKED s1) = Some s'"
    using start(2) by (auto simp: com_main_start_def Let_def simp del: append.simps split: if_splits elim!: bindE)
  have "quiet s0 s1" by (rule quiet_trans [OF printf2_quiet [OF s0(2)] wifi_quiet [OF s1(1)]])
  then have "lock_inv (if \<not> lead_sw then set_state LOCKED s1 else set_state UNLOCKED s1)"
    using z by (simp add: lock_inv_def quiet_def pw_ok_def set_state_def servo_def)
  then show ?case by (rule lock_inv_quiet) (rule show_line_quiet [OF s1(2)])
next
  case (round s i s')
  then show ?case using lock_inv_round by blast
next
  case (stop s s')
  have "lock_inv (s\<lparr>timeout1 := False\<rparr>)" by (rule lock_inv_quiet [OF stop(4) field_quiet(3)])
  then show ?case by (rule lock_inv_quiet) (rule kaiten_stop_quiet [OF stop(3)])
qed

text \<open>The lock opens only when it may.  In every run of the application, a round of the main loop that makes the servo open either
  is the first one, with the door open at the start, or the lock was locked (or the door has just been closed) and in this round
  \<open>*\<close> is pressed, the guess is the password, the scale has a reading, and the weight read is below the target.\<close>

lemma lock_opens_lemma:
  assumes "app_run reply s" "com_main_loop i s = Some s'" "servo s' = servo s @ es" "servo_open \<in> set es"
  shows "(old_state s = INIT \<and> door_state i s = UNLOCKED) \<or>
    (door_state i s = LOCKED \<and> snd (in_key i) = 1 \<and> char_of (unat (fst (in_key i))) = CHR ''*'' \<and>
     cstr (pw_guess s) = cstr (pw_target s) \<and> w_stable (get_weight (in_weight i)) \<noteq> initial \<and>
     f32_lt (w_weight (get_weight (in_weight i))) (target_weight s))"
proof -
  have l: "lock_inv s" by (rule app_run_lock [OF assms(1)])
  then have o: "old_state s \<in> {INIT, LOCKED, UNLOCKED}" by (auto simp: lock_inv_def split: if_splits)
  have R: "g_state s' = (if unlocks i s then UNLOCKED else door_state i s)"
    "servo s' = servo s @ (if old_state s = g_state s' then [] else if g_state s' = UNLOCKED then [servo_open] else [servo_close])"
    using round_lock [OF assms(2) _ _ o] l by (auto simp: lock_inv_def)
  then have u: "old_state s \<noteq> UNLOCKED" "g_state s' = UNLOCKED" using assms(3,4) by (auto split: if_splits)
  show ?thesis
  proof (cases "unlocks i s")
    case True
    then show ?thesis by (auto simp: unlocks_def authorised_def get_key_def split: if_splits)
  next
    case False
    then have d: "door_state i s = UNLOCKED" using R(1) u(2) by simp
    then have "old_state s = INIT" using l u(1) by (auto simp: lock_inv_def door_state_def split: if_splits)
    then show ?thesis using d by simp
  qed
qed

text \<open>The servo is where the state says: after any round of any run, the last command to the servo is the one that opens if the
  state is UNLOCKED and the one that closes otherwise, the two variables of the state machine agree with the state, and the
  password fits the comparison.\<close>

lemma lock_position_lemma:
  assumes "app_run reply s" "com_main_loop i s = Some s'"
  shows "servo s' \<noteq> [] \<and> last (servo s') = (if g_state s' = UNLOCKED then servo_open else servo_close) \<and>
    g_state s' \<in> {LOCKED, UNLOCKED} \<and> old_state s' = g_state s' \<and> next_state s' = g_state s' \<and>
    password_evaluate s' = (cstr (pw_guess s') = cstr (pw_target s'))"
proof -
  have l: "lock_inv s'" "old_state s' \<noteq> INIT" using lock_inv_round [OF app_run_lock [OF assms(1)] assms(2)] by simp_all
  then have "pw_ok s'" by (simp add: lock_inv_def)
  then show ?thesis using l password_evaluate_ok by (auto simp: lock_inv_def)
qed

end
