(* ===== verification/FmtSpec.thy ===== *)
theory FmtSpec
  imports PrintfWrapper
begin

text \<open>
  The lengths and the characters of formatted numbers, and what \<open>printf2\<close> does to the display: the program never prints a number
  that is too long for its buffers.
\<close>

section \<open>Formatted numbers\<close>

text \<open>Text without a terminator and without a directive.\<close>

definition plain :: "string \<Rightarrow> bool" where
  "plain t \<longleftrightarrow> NUL \<notin> set t \<and> CHR ''%'' \<notin> set t"

lemma plain_simps [simp]: "plain []" "plain (c # t) = (c \<noteq> NUL \<and> c \<noteq> CHR ''%'' \<and> plain t)" "plain (t @ u) = (plain t \<and> plain u)"
  by (auto simp: plain_def)

lemma plain_replicate [simp]: "c \<noteq> NUL \<Longrightarrow> c \<noteq> CHR ''%'' \<Longrightarrow> plain (replicate n c)"
  by (auto simp: plain_def)

lemma plain_cstr: "plain t \<Longrightarrow> cstr t = t"
  by (simp add: plain_def cstr_id)

lemma plain_dec [simp]: "plain (dec n)"
  using dec_digits [of n] by (auto simp: plain_def is_digit_def)

lemma plain_fmt_d [simp]: "plain (fmt_d i)"
  by (simp add: fmt_d_def)

lemma plain_fmt_f [simp]: "plain (fmt_f z w p x)"
  by (simp add: fmt_f_def fmt_pad_def fmt_fixed_def Let_def)

lemma length_fmt_d: "- (2 ^ 31) \<le> i \<Longrightarrow> i < 2 ^ 32 \<Longrightarrow> length (fmt_d i) \<le> 11"
  using length_dec [of "nat i" 9] length_dec [of "nat (- i)" 9] by (auto simp: fmt_d_def nat_less_iff)

lemma length_fmt_pad: "length (fmt_pad z w sign body) = max w (length sign + length body)"
  by (simp add: fmt_pad_def Let_def max_def)

lemma length_fmt_fixed: "n < 10 ^ (39 + p) \<Longrightarrow> length (fmt_fixed p n) \<le> 39 + (if p = 0 then 0 else Suc p)"
proof -
  assume n: "n < 10 ^ (39 + p)"
  then have "n div 10 ^ p < 10 ^ Suc 38" by (intro less_mult_imp_div_less) (simp add: power_add)
  then have i: "length (dec (n div 10 ^ p)) \<le> 39" using length_dec [of _ 38] by simp
  show ?thesis
  proof (cases p)
    case 0
    then show ?thesis using i by (simp add: fmt_fixed_def)
  next
    case (Suc k)
    have "n mod 10 ^ p < 10 ^ Suc k" unfolding Suc by simp
    then have "length (dec (n mod 10 ^ p)) \<le> p" using length_dec Suc by blast
    then show ?thesis using i Suc by (simp add: fmt_fixed_def Let_def)
  qed
qed

text \<open>No \<open>float\<close> needs more than 39 digits before the point.\<close>

lemma length_fmt_f: "length (fmt_f z w p x) \<le> max w (40 + (if p = 0 then 0 else Suc p))"
proof -
  let ?n = "nat \<bar>f32_val x\<bar> * 10 ^ p"
  have "length (fmt_fixed p (rne ?n (2 ^ 149))) \<le> 39 + (if p = 0 then 0 else Suc p)" if f: "f32_finite x"
  proof (rule length_fmt_fixed)
    have v: "nat \<bar>f32_val x\<bar> < 2 ^ 277" using f32_val_bound [OF f] by (simp add: nat_less_iff)
    have "?n < 2 ^ 277 * 10 ^ p" using v by simp
    also have "(2 :: nat) ^ 277 * 10 ^ p = (2 ^ 128 * 10 ^ p) * 2 ^ 149" by simp
    finally have q: "?n div 2 ^ 149 < 2 ^ 128 * 10 ^ p" by (rule less_mult_imp_div_less)
    have "rne ?n (2 ^ 149) \<le> ?n div 2 ^ 149 + 1" by (simp add: rne_def Let_def)
    then have "rne ?n (2 ^ 149) \<le> 2 ^ 128 * 10 ^ p" using q by simp
    also have "(2 :: nat) ^ 128 * 10 ^ p < 10 ^ 39 * 10 ^ p" by simp
    finally show "rne ?n (2 ^ 149) < 10 ^ (39 + p)" by (simp add: power_add)
  qed
  moreover have "f32_nan x \<or> f32_inf x \<or> f32_finite x" by (auto simp: f32_nan_def f32_inf_def f32_finite_def)
  ultimately show ?thesis by (auto simp: fmt_f_def Let_def length_fmt_pad max_def)
qed

section \<open>The display\<close>

definition oled_ok :: "app \<Rightarrow> bool" where
  "oled_ok s \<longleftrightarrow> oled_j s < 8 \<and> length (oled_str s) = 8 \<and> (\<forall>p\<in>set (oled_str s). length p = 300 \<and> NUL \<in> set p)"

text \<open>The lines on the display, the oldest first.\<close>

definition screen :: "nat \<Rightarrow> string list \<Rightarrow> string list" where
  "screen j str = map cstr (drop j str @ take j str)"

lemma cstr_cut: "NUL \<notin> set t \<Longrightarrow> length t < n \<Longrightarrow> 20 < n \<Longrightarrow> length p = n \<Longrightarrow> cstr ((t @ NUL # drop (Suc (length t)) p)[20 := NUL]) = take 20 t"
proof -
  assume t: "NUL \<notin> set t" "length t < n" "20 < n" "length p = n"
  have cut: "cstr (b[k := NUL]) = take k (cstr b)" if "k < length b" for k b
    using that
  proof (induction b arbitrary: k)
    case (Cons c b)
    then show ?case by (cases k) auto
  qed simp
  show ?thesis using cut [of 20 "t @ NUL # drop (Suc (length t)) p"] t by (simp add: cstr_append)
qed

lemma page_loop_ok:
  assumes "j < 8" "length str = 8" "\<forall>p\<in>set str. length p = 300 \<and> NUL \<in> set p" "\<forall>t\<in>set ts. NUL \<notin> set t \<and> length t < 300"
  shows "\<exists>j' str'. page_loop ts (j, str) = Some (j', str') \<and> j' < 8 \<and> length str' = 8 \<and> (\<forall>p\<in>set str'. length p = 300 \<and> NUL \<in> set p) \<and>
    screen j' str' = drop (length ts) (screen j str @ map (take 20) ts)"
  using assms
proof (induction ts arbitrary: j str)
  case Nil
  then show ?case by (simp add: screen_def)
next
  case (Cons t ts)
  have p: "length (str ! j) = 300" "NUL \<in> set (str ! j)" using Cons.prems(1-3) nth_mem [of j str] by auto
  define q where "q = (t @ NUL # drop (Suc (length t)) (str ! j))[20 := NUL]"
  have t: "NUL \<notin> set t" "length t < 300" using Cons.prems(4) by auto
  have lq: "length q = 300" using t p by (simp add: q_def)
  have "NUL \<in> set q" using lq set_update_memI [of 20 "t @ NUL # drop (Suc (length t)) (str ! j)" NUL] t p by (simp add: q_def)
  moreover have cq: "cstr q = take 20 t" unfolding q_def by (rule cstr_cut [where n = 300]) (use t p in auto)
  ultimately have pages: "\<forall>p\<in>set (str[j := q]). length p = 300 \<and> NUL \<in> set p"
    using Cons.prems(3) lq set_update_subset_insert [of str j q] by blast
  define k where "k = (if 8 \<le> j + 1 then 0 else j + 1)"
  have k8: "k < 8" using Cons.prems(1) by (simp add: k_def)
  have e: "page_loop (t # ts) (j, str) = page_loop ts (k, str[j := q])"
    using Cons.prems(1,2) t p by (simp add: c_strcpy_def set_at_def q_def k_def)
  obtain j' str' where r: "page_loop ts (k, str[j := q]) = Some (j', str')" "j' < 8" "length str' = 8"
    "\<forall>p\<in>set str'. length p = 300 \<and> NUL \<in> set p" "screen j' str' = drop (length ts) (screen k (str[j := q]) @ map (take 20) ts)"
    using Cons.IH [OF k8 _ pages] Cons.prems(2,4) by auto
  have sc: "screen k (str[j := q]) = tl (screen j str) @ [take 20 t]"
  proof (cases "j = 7")
    case True
    then have "k = 0" by (simp add: k_def)
    moreover have "drop 7 str = [str ! 7]" using Cons.prems(2) Cons_nth_drop_Suc [of 7 str] by simp
    moreover have "str[7 := q] = take 7 str @ [q]" using Cons.prems(2) by (simp add: upd_conv_take_nth_drop)
    ultimately show ?thesis using True cq by (simp add: screen_def)
  next
    case False
    then have k: "k = Suc j" "j < 7" using Cons.prems(1) by (simp_all add: k_def)
    have "drop j str = str ! j # drop (Suc j) str" using Cons.prems(1,2) by (simp add: Cons_nth_drop_Suc)
    moreover have "take (Suc j) (str[j := q]) = take j str @ [q]" using Cons.prems(1,2) by (simp add: take_Suc_conv_app_nth)
    ultimately show ?thesis using k cq by (simp add: screen_def)
  qed
  have "screen j str \<noteq> []" using Cons.prems(1,2) by (simp add: screen_def)
  then have "drop (length (t # ts)) (screen j str @ map (take 20) (t # ts)) = drop (length ts) (screen k (str[j := q]) @ map (take 20) ts)"
    unfolding sc by (cases "screen j str") simp_all
  then show ?case using e r by simp
qed

lemma tokens_sub: "x \<in> set (tokens d t) \<Longrightarrow> set x \<subseteq> set t \<and> length x \<le> length t"
proof (induction d t rule: tokens.induct)
  case (2 d c t)
  have w: "set (takeWhile P t) \<subseteq> set t" "set (dropWhile P t) \<subseteq> set t" "length (takeWhile P t) \<le> length t" "length (dropWhile P t) \<le> length t" for P
    by (auto dest: set_takeWhileD set_dropWhileD simp: length_takeWhile_le length_dropWhile_le)
  show ?case using 2 w [of "\<lambda>x. x \<noteq> d"] by (fastforce split: if_splits)
qed simp

lemma printf2_shows_lemma:
  assumes "oled_ok s" "plain t" "length t < 300"
  shows "\<exists>s'. printf2 t s = Some s' \<and> oled_ok s' \<and>
    (let L = map (take 20) (take 8 (tokens NL t));
         shown = drop (length L) (screen (oled_j s) (oled_str s) @ L)
     in out s' = out s @ [Serial t, Oled shown] \<and> screen (oled_j s') (oled_str s') = shown \<and> length shown = 8)"
proof -
  let ?ts = "take 8 (tokens NL t)"
  have c: "c_sprintf 300 t = Some t" using assms(2,3) by (simp add: c_sprintf_def plain_cstr)
  have f: "printf_format t = Some t" using assms(2) by (simp add: plain_def printf_format_plain)
  have ts: "\<forall>x\<in>set ?ts. NUL \<notin> set x \<and> length x < 300"
  proof
    fix x assume "x \<in> set ?ts"
    then have "x \<in> set (tokens NL t)" by (rule in_set_takeD)
    then show "NUL \<notin> set x \<and> length x < 300" using tokens_sub [of x NL t] assms(2,3) by (auto simp: plain_def)
  qed
  note O = assms(1) [unfolded oled_ok_def]
  obtain j str where r: "page_loop ?ts (oled_j s, oled_str s) = Some (j, str)" "j < 8" "length str = 8"
    "\<forall>p\<in>set str. length p = 300 \<and> NUL \<in> set p" "screen j str = drop (length ?ts) (screen (oled_j s) (oled_str s) @ map (take 20) ?ts)"
    using page_loop_ok [OF _ _ _ ts, of "oled_j s" "oled_str s"] O by auto
  have "those (map c_str xs) = Some (map cstr xs)" if "\<forall>p\<in>set xs. NUL \<in> set p" for xs
    using that by (induction xs) (auto simp: c_str_def)
  moreover have "\<forall>p\<in>set (drop j str @ take j str). NUL \<in> set p" using r(4) by (auto dest: in_set_dropD in_set_takeD)
  moreover have "take 8 str = str" using r(3) by simp
  ultimately have th: "those (map c_str (drop j (take 8 str) @ take j str)) = Some (screen j str)"
    by (simp only: screen_def)
  have l: "length (screen j str) = 8" using r(2,3) by (simp add: screen_def)
  define s' where "s' = emit (Oled (screen j str)) ((emit (Serial t) s)\<lparr>oled_j := j, oled_str := str\<rparr>)"
  have e: "printf2 t s = Some s'"
    using r(1) th by (simp add: printf2_def c f printOLED_def split_def s'_def emit_def split_lines_def)
  have "oled_ok s'" using r(2-4) by (simp add: s'_def oled_ok_def emit_def)
  then show ?thesis using e l r(5) by (simp add: s'_def emit_def Let_def)
qed

section \<open>Texts one after the other\<close>

text \<open>The texts on the serial line.\<close>

fun serial :: "effect list \<Rightarrow> string list" where
  "serial [] = []"
| "serial (e # es) = (case e of Serial t \<Rightarrow> t # serial es | _ \<Rightarrow> serial es)"

lemma serial_append: "serial (xs @ ys) = serial xs @ serial ys"
  by (induction xs) (auto split: effect.splits)

fun send_all :: "(string \<Rightarrow> 's \<Rightarrow> 's option) \<Rightarrow> string list \<Rightarrow> 's \<Rightarrow> 's option" where
  "send_all send [] s = Some s"
| "send_all send (t # ts) s = do { s \<leftarrow> send t s; send_all send ts s }"

lemma send_all_fun: "send_all send [] = Some" "send_all send (t # ts) = (\<lambda>s. send t s \<bind> send_all send ts)"
  by (auto intro!: ext)

text \<open>The interface of \<open>printf2\<close> for the components that print: in a good state a text that fits is sent, the state stays good, and only what
  \<open>rel\<close> allows changes.\<close>

locale text_sink =
  fixes send :: "string \<Rightarrow> 's \<Rightarrow> 's option" and ok :: "'s \<Rightarrow> bool" and sent :: "'s \<Rightarrow> string list" and rel :: "'s \<Rightarrow> 's \<Rightarrow> bool"
  assumes send_ok: "ok s \<Longrightarrow> plain t \<Longrightarrow> length t < 300 \<Longrightarrow> \<exists>s'. send t s = Some s' \<and> ok s' \<and> sent s' = sent s @ [t] \<and> rel s s'"
    and rel_refl: "rel s s" and rel_trans: "rel s s1 \<Longrightarrow> rel s1 s2 \<Longrightarrow> rel s s2"
begin

lemma send_all_ok: "ok s \<Longrightarrow> \<forall>t\<in>set ts. plain t \<and> length t < 300 \<Longrightarrow>
    \<exists>s'. send_all send ts s = Some s' \<and> ok s' \<and> sent s' = sent s @ ts \<and> rel s s'"
proof (induction ts arbitrary: s)
  case (Cons t ts)
  obtain s1 where s1: "send t s = Some s1" "ok s1" "sent s1 = sent s @ [t]" "rel s s1"
    using send_ok [OF Cons.prems(1), of t] Cons.prems(2) by auto
  then show ?case using Cons.IH [OF s1(2)] Cons.prems(2) rel_trans by fastforce
qed (simp add: rel_refl)

end

end
