(* ===== verification/RoundSpec.thy ===== *)
theory RoundSpec
  imports LockSpec FmtSpec
begin

text \<open>
  A round of the main loop never goes wrong: no buffer is overrun, no format directive reads an argument that is not there, no conversion is
  undefined, as long as the replies of the network fit the print buffer and the numbers typed are not too big.
\<close>

definition reply_ok :: "int + string \<Rightarrow> bool" where
  "reply_ok r = (case r of Inl e \<Rightarrow> - (2 ^ 31) \<le> e \<and> e < 2 ^ 31 | Inr body \<Rightarrow> plain (cstr body) \<and> length (cstr body) \<le> 298)"

text \<open>What all the operations need and keep.\<close>

definition good :: "app \<Rightarrow> bool" where
  "good s \<longleftrightarrow> oled_ok s \<and> (\<forall>n. reply_ok (http_reply s n)) \<and> - (2 ^ 31) \<le> target_weight_old s \<and> target_weight_old s < 2 ^ 31"

definition okay :: "app option \<Rightarrow> bool" where
  "okay m \<longleftrightarrow> (\<exists>s. m = Some s \<and> good s)"

lemma okay_bind: "okay m \<Longrightarrow> (\<And>s. m = Some s \<Longrightarrow> good s \<Longrightarrow> okay (f s)) \<Longrightarrow> okay (m \<bind> f)"
  by (auto simp: okay_def)

lemma okay_if: "(P \<Longrightarrow> okay a) \<Longrightarrow> (\<not> P \<Longrightarrow> okay b) \<Longrightarrow> okay (if P then a else b)"
  by simp

lemma okay_Some [simp]: "okay (Some s) = good s"
  by (simp add: okay_def)

lemma good_emit [simp]: "good (emit e s) = good s"
  by (simp add: good_def emit_def oled_ok_def)

lemma good_simps [simp]: "good (s\<lparr>http_live := n\<rparr>) = good s" "good (s\<lparr>http_n := n\<rparr>) = good s" "good (s\<lparr>timeout1 := b\<rparr>) = good s"
  "good (s\<lparr>target_weight := w\<rparr>) = good s" "good (s\<lparr>weights_old := v\<rparr>) = good s" "good (s\<lparr>door_open_old := b\<rparr>) = good s"
  "good (set_state g s) = good s" "good (s\<lparr>pw_guess := t, pw_index := i\<rparr>) = good s" "good (s\<lparr>pw_target := t\<rparr>) = good s"
  "good (s\<lparr>next_state := g\<rparr>) = good s" "good (s\<lparr>old_state := g\<rparr>) = good s"
  by (simp_all add: good_def oled_ok_def set_state_def)

lemma good_cmd [simp]: "good (cmd_lamp b s) = good s" "good (cmd_kaiten d s) = good s" "good (cmd_set_line l s) = good s"
  "good (cmd_set_text_color r g bl s) = good s" "good (cmd_kaiten_lamp d b s) = good s" "good (cmd_servo x y s) = good s"
  by (simp_all add: cmd_lamp_def cmd_kaiten_def cmd_set_line_def cmd_clear_line_def cmd_set_text_color_def cmd_kaiten_lamp_def cmd_servo_def)

named_theorems okay_intros "operations that return"

lemma printf2_okay [okay_intros]: "good s \<Longrightarrow> plain t \<Longrightarrow> length t < 300 \<Longrightarrow> okay (printf2 t s)"
proof -
  assume g: "good s" and t: "plain t" "length t < 300"
  obtain s' where s': "printf2 t s = Some s'" "oled_ok s'" using printf2_shows_lemma [OF _ t] g by (auto simp: good_def)
  have "http_reply s' = http_reply s \<and> target_weight_old s' = target_weight_old s"
    using s'(1) by (auto simp: printf2_def printOLED_def emit_def split: bind_splits prod.splits)
  then show ?thesis using g s' by (simp add: okay_def good_def)
qed

interpretation oled: text_sink printf2 good "\<lambda>s. serial (out s)" quiet
proof unfold_locales
  fix s :: app and t assume g: "good s" and t: "plain t" "length t < 300"
  obtain s' where s': "printf2 t s = Some s'" "good s'" using printf2_okay [OF g t] by (auto simp: okay_def)
  have "\<exists>l. out s' = out s @ [Serial t, Oled l]"
    using printf2_shows_lemma [OF _ t, of s] g s'(1) by (auto simp: good_def Let_def)
  then show "\<exists>s'. printf2 t s = Some s' \<and> good s' \<and> serial (out s') = serial (out s) @ [t] \<and> quiet s s'"
    using s' printf2_quiet by (auto simp: serial_append)
qed (auto intro: quiet_refl quiet_trans)

lemma print_text_okay: "good s \<Longrightarrow> length t < 50 \<Longrightarrow> okay (cmd_print_text t s)"
proof -
  assume g: "good s" and t: "length t < 50"
  have "unat (of_nat (length t + 1) :: u8) = length t + 1" unfolding unat_of_nat by (rule mod_less) (use t in simp)
  then show ?thesis using g t by (simp add: cmd_print_text_def)
qed

lemma sprintf_okay: "plain t \<Longrightarrow> length t < n \<Longrightarrow> c_sprintf n t = Some t"
  by (simp add: c_sprintf_def plain_cstr)

lemma show_line_okay [okay_intros]: "good s \<Longrightarrow> plain t \<Longrightarrow> length t < 50 \<Longrightarrow> okay (show_line l t s)"
  by (simp add: show_line_def sprintf_okay print_text_okay)

lemma http_send_okay: "good s \<Longrightarrow> okay (http_send url s)"
proof (cases "http_reply s (http_n s)")
  case (Inl e)
  assume g: "good s"
  then have "reply_ok (Inl e)" using Inl by (metis good_def)
  then have "length (fmt_d e) \<le> 11" by (intro length_fmt_d) (simp_all add: reply_ok_def)
  then show ?thesis using g Inl by (simp add: http_send_def Let_def printf2_okay)
next
  case (Inr body)
  assume g: "good s"
  then have "reply_ok (Inr body)" using Inr by (metis good_def)
  then have b: "plain (cstr body)" "length (cstr body) \<le> 298" by (simp_all add: reply_ok_def)
  show ?thesis unfolding http_send_def Let_def Inr sum.case
    by (intro okay_bind printf2_okay) (use g b in simp_all)
qed

lemma http_get_okay: "good s \<Longrightarrow> plain url \<Longrightarrow> length url < 256 \<Longrightarrow> okay (http_get url s)"
proof -
  assume g: "good s" and u: "plain url" "length url < 256"
  show ?thesis unfolding http_get_def sprintf_okay [OF u] bind.bind_lunit
    by (intro okay_bind printf2_okay http_send_okay) (use g u in simp_all)
qed

text \<open>The longest URL has 255 characters, one less than the buffer holds.\<close>

lemma notify_okay [okay_intros]:
  "good s \<Longrightarrow> okay (ChannelUpdate a b s)" "good s \<Longrightarrow> okay (NotifyDietAchieved a b s)" "good s \<Longrightarrow> okay (NotifyDietNotAchieved a b c s)"
  "good s \<Longrightarrow> okay (NotifyUnlockFailedInvalidPass s)" "good s \<Longrightarrow> okay (NotifyUnlockFailedDoDiet s)"
  "good s \<Longrightarrow> - (2 ^ 31) \<le> i \<Longrightarrow> i < 2 ^ 31 \<Longrightarrow> - (2 ^ 31) \<le> j \<Longrightarrow> j < 2 ^ 31 \<Longrightarrow> okay (NotifyChangeTarget i j s)"
  "good s \<Longrightarrow> okay (NotifyLocked s)" "good s \<Longrightarrow> okay (NotifyUnlocked s)"
proof -
  have f: "length (fmt_f z w 1 x) \<le> max w 42" for z w x using length_fmt_f [of z w 1 x] by simp
  note f5 = f [of True 5] and f0 = f [of False 0]
  show "good s \<Longrightarrow> okay (ChannelUpdate a b s)" unfolding ChannelUpdate_def
    by (rule http_get_okay) (use f5 [of a] f5 [of b] in \<open>simp_all add: max_def\<close>)
  show "good s \<Longrightarrow> okay (NotifyDietAchieved a b s)" unfolding NotifyDietAchieved_def
    by (rule http_get_okay) (use f0 [of a] f0 [of b] in \<open>simp_all add: max_def\<close>)
  show "good s \<Longrightarrow> okay (NotifyDietNotAchieved a b c s)" unfolding NotifyDietNotAchieved_def
    by (rule http_get_okay) (use f0 [of a] f0 [of b] f0 [of c] in \<open>simp_all add: max_def\<close>)
  show "good s \<Longrightarrow> okay (NotifyUnlockFailedInvalidPass s)" "good s \<Longrightarrow> okay (NotifyUnlockFailedDoDiet s)"
    "good s \<Longrightarrow> okay (NotifyLocked s)" "good s \<Longrightarrow> okay (NotifyUnlocked s)"
    unfolding NotifyUnlockFailedInvalidPass_def NotifyUnlockFailedDoDiet_def NotifyLocked_def NotifyUnlocked_def
    by (rule http_get_okay; simp)+
  show "good s \<Longrightarrow> - (2 ^ 31) \<le> i \<Longrightarrow> i < 2 ^ 31 \<Longrightarrow> - (2 ^ 31) \<le> j \<Longrightarrow> j < 2 ^ 31 \<Longrightarrow> okay (NotifyChangeTarget i j s)"
    unfolding NotifyChangeTarget_def
    by (rule http_get_okay) (use length_fmt_d [of i] length_fmt_d [of j] in simp_all)
qed

section \<open>The parts of a round\<close>

lemma unlock_failed_okay [okay_intros]: "good s \<Longrightarrow> okay (unlock_failed n s)"
proof -
  assume g: "good s"
  define t where "t = cmd_set_text_color 0 15 0 (cmd_set_line 3 ((cmd_kaiten_lamp 50 True s)\<lparr>timeout1 := True\<rparr>))"
  have t: "good t" using g by (simp add: t_def)
  have "okay (do { s \<leftarrow> printf2 (''Password is incorrect'' @ [NL]) t; s \<leftarrow> cmd_print_text (''INCORRECT'' @ [NL]) s; NotifyUnlockFailedInvalidPass s })"
    by (intro okay_bind printf2_okay print_text_okay notify_okay) (use t in simp_all)
  moreover have "okay (do { s \<leftarrow> printf2 (''Weight is initial'' @ [NL]) t; cmd_print_text (''INITIAL'' @ [NL]) s })"
    by (intro okay_bind printf2_okay print_text_okay) (use t in simp_all)
  moreover have "okay (do { s \<leftarrow> printf2 (''Target weight unachieved'' @ [NL]) t; s \<leftarrow> cmd_print_text (''DO DIET'' @ [NL]) s; NotifyUnlockFailedDoDiet s })"
    by (intro okay_bind printf2_okay print_text_okay notify_okay) (use t in simp_all)
  ultimately have "okay (if n = 0 then do { s \<leftarrow> printf2 (''Password is incorrect'' @ [NL]) t; s \<leftarrow> cmd_print_text (''INCORRECT'' @ [NL]) s; NotifyUnlockFailedInvalidPass s }
     else if n = 1 then do { s \<leftarrow> printf2 (''Weight is initial'' @ [NL]) t; cmd_print_text (''INITIAL'' @ [NL]) s }
     else if n = 2 then do { s \<leftarrow> printf2 (''Target weight unachieved'' @ [NL]) t; s \<leftarrow> cmd_print_text (''DO DIET'' @ [NL]) s; NotifyUnlockFailedDoDiet s }
     else Some t)" (is "okay ?m") using t by simp
  moreover have "unlock_failed n s = ?m \<bind> printf2 (''Unlock failed'' @ [NL])"
    by (simp add: unlock_failed_def Let_def sprintf_okay t_def [symmetric] del: append.simps)
  ultimately show ?thesis using okay_bind [of ?m] printf2_okay by simp
qed

lemma report_weight_okay: "good s \<Longrightarrow> okay (report_weight w s)"
proof -
  assume g: "good s"
  define t where "t = cmd_set_text_color 0 15 0 (cmd_set_line 1 s)"
  have t: "good t" using g by (simp add: t_def)
  have u: "length (fmt_d (uint (w_stable w))) \<le> 11"
  proof (rule length_fmt_d)
    have "0 \<le> uint (w_stable w)" and this_lt: "uint (w_stable w) < 2 ^ 8" using uint_range_size [of "w_stable w"] by (simp_all add: word_size)
    from this(1) show "- (2 ^ 31) \<le> uint (w_stable w)" by (rule order_trans [rotated]) simp
    from this_lt show "uint (w_stable w) < 2 ^ 32" by simp
  qed
  have f6: "length (fmt_f False 0 6 (w_weight w)) \<le> 47" using length_fmt_f [of False 0 6 "w_weight w"] by simp
  have f0: "length (fmt_f False 3 0 (w_weight w)) \<le> 40" using length_fmt_f [of False 3 0 "w_weight w"] by simp
  have s1: "c_sprintf 50 (''NOW:---kg'' @ [NL]) = Some (''NOW:---kg'' @ [NL])" by (rule sprintf_okay) simp_all
  have s2: "c_sprintf 50 (''NOW:'' @ fmt_f False 3 0 (w_weight w) @ ''kg'' @ [NL]) = Some (''NOW:'' @ fmt_f False 3 0 (w_weight w) @ ''kg'' @ [NL])"
    by (rule sprintf_okay) (use f0 in simp_all)
  have c: "okay (do {
      s \<leftarrow> ChannelUpdate (w_weight w) (target_weight s) s;
      if f32_lt (w_weight w) (target_weight s) then NotifyDietAchieved (w_weight w) (target_weight s) s
      else NotifyDietNotAchieved (w_weight w) (target_weight s) (f32_sub (w_weight w) (target_weight s)) s })" if "good s" for s
    by (rule okay_bind [OF notify_okay(1) [OF that]]) (auto intro: notify_okay)
  have A: "okay (do { s \<leftarrow> printf2 (''stable: '' @ fmt_d (uint (w_stable w)) @ '', weight: ---'' @ [NL]) t; cmd_print_text (''NOW:---kg'' @ [NL]) s })"
    by (intro okay_bind printf2_okay print_text_okay) (use t u in simp_all)
  have B: "okay (do {
      s \<leftarrow> printf2 (''stable: '' @ fmt_d (uint (w_stable w)) @ '', weight: '' @ fmt_f False 0 6 (w_weight w) @ [NL]) t;
      s \<leftarrow> cmd_print_text (''NOW:'' @ fmt_f False 3 0 (w_weight w) @ ''kg'' @ [NL]) s;
      if w_stable w = determined then do {
        s \<leftarrow> ChannelUpdate (w_weight w) (target_weight s) s;
        if f32_lt (w_weight w) (target_weight s) then NotifyDietAchieved (w_weight w) (target_weight s) s
        else NotifyDietNotAchieved (w_weight w) (target_weight s) (f32_sub (w_weight w) (target_weight s)) s
      } else Some s })"
    by (intro okay_bind printf2_okay print_text_okay) (use t u f6 f0 c in simp_all)
  show ?thesis unfolding report_weight_def Let_def t_def [symmetric] s1 s2 bind.bind_lunit
    by (intro okay_if A B) (simp add: g)
qed

lemma report_door_okay: "good s \<Longrightarrow> okay (report_door d s)"
proof -
  assume g: "good s"
  have "okay (printf2 (''door close'' @ [NL]) (cmd_lamp False s) \<bind> (\<lambda>s. Some (set_state LOCKED s)))"
    by (intro okay_bind printf2_okay) (use g in simp_all)
  moreover have "okay (printf2 (''door open'' @ [NL]) (cmd_lamp True s))" by (rule printf2_okay) (use g in simp_all)
  ultimately show ?thesis using g by (simp add: report_door_def del: append.simps)
qed

lemma report_target_okay: "good s \<Longrightarrow> f32_trunc (target_weight s) \<noteq> None \<Longrightarrow> okay (report_target s)"
proof -
  assume g: "good s" and "f32_trunc (target_weight s) \<noteq> None"
  then obtain i where i: "f32_trunc (target_weight s) = Some i" by auto
  have b: "- (2 ^ 31) \<le> i" "i < 2 ^ 31" using i by (auto simp: f32_trunc_def Let_def split: if_splits)
  have f0: "length (fmt_f False 3 0 (target_weight s)) \<le> 40" using length_fmt_f [of False 3 0 "target_weight s"] by simp
  have k: "good (s\<lparr>target_weight_old := i\<rparr>)" if "good s" for s using that b by (simp add: good_def oled_ok_def)
  have "okay (do { s \<leftarrow> show_line 0 (''GOAL:'' @ fmt_f False 3 0 (target_weight s) @ ''kg'' @ [NL]) s;
     if target_weight_old s \<noteq> 0 then NotifyChangeTarget (target_weight_old s) i s else Some s })"
    by (intro okay_bind show_line_okay) (use g f0 b in \<open>auto simp: good_def intro!: notify_okay\<close>)
  then show ?thesis unfolding report_target_def i bind.bind_lunit
    by (intro okay_bind) (use g k in auto)
qed

lemma state_func_okay: "good s \<Longrightarrow> okay (call_func (init_func (state_function st)) s)" "good s \<Longrightarrow> okay (call_func (do_func (state_function st)) s)"
  "good s \<Longrightarrow> okay (call_func (end_func (state_function st)) s)"
proof -
  have l: "okay (LOCKED_init s)" if "good s" for s unfolding LOCKED_init_def Let_def
    by (intro okay_bind printf2_okay show_line_okay notify_okay) (use that in simp_all)
  have u: "okay (UNLOCKED_init s)" if "good s" for s unfolding UNLOCKED_init_def Let_def
    by (intro okay_bind printf2_okay show_line_okay notify_okay) (use that in simp_all)
  show "good s \<Longrightarrow> okay (call_func (init_func (state_function st)) s)"
    by (cases st) (simp_all add: call_func_def state_function_def l u INIT_init_def SETTING_init_def printf2_okay)
  show "good s \<Longrightarrow> okay (call_func (do_func (state_function st)) s)"
    by (cases st) (simp_all add: call_func_def state_function_def INIT_do_def LOCKED_do_def UNLOCKED_do_def SETTING_do_def)
  show "good s \<Longrightarrow> okay (call_func (end_func (state_function st)) s)"
    by (cases st) (simp_all add: call_func_def state_function_def INIT_end_def LOCKED_end_def UNLOCKED_end_def SETTING_end_def printf2_okay)
qed

lemma state_main_okay: "good s \<Longrightarrow> okay (state_main state_function s)"
proof -
  assume g: "good s"
  have 1: "okay (if old_state s \<noteq> g_state s then
      call_func (end_func (state_function (old_state s))) (s\<lparr>next_state := state_next (old_state s) (g_state s)\<rparr>) \<bind>
        (\<lambda>s. call_func (init_func (state_function (next_state s))) s)
      else Some s)"
    using g by (auto intro!: okay_bind state_func_okay)
  show ?thesis unfolding state_main_def state_trans_def Let_def
    by (rule okay_bind) (use 1 in \<open>auto intro: state_func_okay\<close>)
qed

lemma kaiten_stop_okay: "good s \<Longrightarrow> okay (kaiten_stop s)"
  unfolding kaiten_stop_def Let_def
  by (intro okay_bind printf2_okay show_line_okay) simp_all

section \<open>The keypad\<close>

text \<open>The strings of the password are printable, and the target weight is an \<open>int\<close> when it is cut.\<close>

definition typed :: "app \<Rightarrow> bool" where
  "typed s \<longleftrightarrow> pw_inv s \<and> plain (cstr (pw_target s)) \<and> plain (cstr (pw_guess s)) \<and> f32_trunc (target_weight s) \<noteq> None"

text \<open>Keys that are no terminator and no \<open>%\<close>; the number typed as a target is below \<open>2 ^ 24\<close>.\<close>

definition key_ok :: "keymat_t \<Rightarrow> app \<Rightarrow> bool" where
  "key_ok k s \<longleftrightarrow> (km_state k = KeyPush \<longrightarrow> km_key k \<noteq> NUL \<and> km_key k \<noteq> CHR ''%'' \<and>
     (km_key k = CHR ''*'' \<and> take 2 (pw_guess s) = ''00'' \<longrightarrow> (\<exists>n. c_atoi (cstr (drop 2 (pw_guess s))) = Some n \<and> \<bar>n\<bar> < 2 ^ 24)))"

lemma typed_quiet: "quiet s s' \<Longrightarrow> typed s' = typed s"
  by (simp add: quiet_def typed_def pw_inv_def pw_ok_def)

lemma typedD: "typed s \<Longrightarrow> pw_inv s \<and> pw_ok s \<and> plain (cstr (pw_target s)) \<and> plain (cstr (pw_guess s)) \<and> f32_trunc (target_weight s) \<noteq> None"
  by (simp add: typed_def pw_inv_def)

lemma c_str_drop: "c_str (pw_guess s) = Some (cstr (pw_guess s)) \<Longrightarrow> n \<le> length (cstr (pw_guess s)) \<Longrightarrow>
    c_str (drop n (pw_guess s)) = Some (drop n (cstr (pw_guess s)))"
proof -
  have "NUL \<in> set b \<Longrightarrow> n \<le> length (cstr b) \<Longrightarrow> NUL \<in> set (drop n b) \<and> cstr (drop n b) = drop n (cstr b)" for b n
  proof (induction b arbitrary: n)
    case (Cons c b)
    then show ?case by (cases n) auto
  qed simp
  then show "c_str (pw_guess s) = Some (cstr (pw_guess s)) \<Longrightarrow> n \<le> length (cstr (pw_guess s)) \<Longrightarrow>
    c_str (drop n (pw_guess s)) = Some (drop n (cstr (pw_guess s)))"
    by (auto simp: c_str_def split: if_splits)
qed

lemma cstr_nth: "i < length b \<Longrightarrow> (\<forall>j\<le>i. b ! j \<noteq> NUL) \<Longrightarrow> i < length (cstr b)"
proof (induction b arbitrary: i)
  case (Cons c b)
  have c: "c \<noteq> NUL" using Cons.prems(2) by force
  show ?case
  proof (cases i)
    case (Suc k)
    have "\<forall>j\<le>k. b ! j \<noteq> NUL"
    proof (intro allI impI)
      fix j assume "j \<le> k"
      then show "b ! j \<noteq> NUL" using Cons.prems(2) [rule_format, of "Suc j"] Suc by simp
    qed
    then show ?thesis using Cons.IH [of k] Cons.prems(1) Suc c by simp
  qed (use c in simp)
qed simp

text \<open>Operations that return, and keep the strings.\<close>

definition fine :: "app option \<Rightarrow> bool" where
  "fine m \<longleftrightarrow> (\<exists>s. m = Some s \<and> good s \<and> typed s)"

lemma fine_bind: "fine m \<Longrightarrow> (\<And>s. m = Some s \<Longrightarrow> good s \<Longrightarrow> typed s \<Longrightarrow> fine (f s)) \<Longrightarrow> fine (m \<bind> f)"
  by (auto simp: fine_def)

lemma fine_quiet: "okay m \<Longrightarrow> typed s \<Longrightarrow> (\<And>s'. m = Some s' \<Longrightarrow> quiet s s') \<Longrightarrow> fine m"
  using typed_quiet by (auto simp: okay_def fine_def)

lemma fine_reset: "good s \<Longrightarrow> typed s \<Longrightarrow> fine (password_reset s)"
proof -
  assume g: "good s" and t: "typed s"
  obtain s' where s': "password_reset s = Some s'" "pw_inv s'" "cstr (pw_guess s') = []" "s' = s\<lparr>pw_guess := pw_guess s', pw_index := pw_index s'\<rparr>"
    using password_reset_ok typedD [OF t] by blast
  have "good s'" "pw_target s' = pw_target s" "target_weight s' = target_weight s" by (subst s'(4), simp add: g)+
  then show ?thesis using s'(1-3) typedD [OF t] by (simp add: fine_def typed_def)
qed

lemma fine_append: "good s \<Longrightarrow> typed s \<Longrightarrow> c \<noteq> NUL \<Longrightarrow> c \<noteq> CHR ''%'' \<Longrightarrow> fine (do { (_, s) \<leftarrow> password_append c s; Some s })"
proof -
  assume g: "good s" and t: "typed s" and c: "c \<noteq> NUL" "c \<noteq> CHR ''%''"
  obtain b s' where s': "password_append c s = Some (b, s')" "s' = s\<lparr>pw_guess := pw_guess s', pw_index := pw_index s'\<rparr>"
    using password_append_ok typedD [OF t] by blast
  have f: "good s'" "pw_target s' = pw_target s" "target_weight s' = target_weight s" by (subst s'(2), simp add: g)+
  have p: "pw_inv s'" "cstr (pw_guess s') = take 19 (cstr (pw_guess s) @ [c])"
    using password_append_str [OF _ c(1) s'(1)] typedD [OF t] by auto
  have "plain (cstr (pw_guess s) @ [c])" using typedD [OF t] c by simp
  then have "plain (cstr (pw_guess s'))" unfolding p(2) by (auto simp: plain_def dest: in_set_takeD)
  then show ?thesis using s'(1) f p(1) typedD [OF t] by (simp add: fine_def typed_def)
qed

lemma fine_printf2: "good s \<Longrightarrow> typed s \<Longrightarrow> plain t \<Longrightarrow> length t < 300 \<Longrightarrow> fine (printf2 t s)"
  by (rule fine_quiet [OF printf2_okay]) (auto intro: printf2_quiet)

lemma fine_checkPassword: "good s \<Longrightarrow> typed s \<Longrightarrow> fine (checkPassword w s)"
proof -
  assume g: "good s" and t: "typed s"
  have "fine (unlock_failed n s)" for n by (rule fine_quiet [OF unlock_failed_okay]) (use g t unlock_failed_quiet in auto)
  moreover have "fine (Some (set_state UNLOCKED s))" using g t by (simp add: fine_def typed_def set_state_def pw_inv_def pw_ok_def good_def oled_ok_def)
  ultimately show ?thesis by (simp add: checkPassword_def)
qed

lemma fine_key_enter:
  assumes g: "good s" and t: "typed s" and k: "take 2 (pw_guess s) = ''00'' \<longrightarrow> (\<exists>n. c_atoi (cstr (drop 2 (pw_guess s))) = Some n \<and> \<bar>n\<bar> < 2 ^ 24)"
  shows "fine (key_enter w s)"
proof -
  note T = typedD [OF t]
  have G: "c_str (pw_guess s) = Some (cstr (pw_guess s))" "length (cstr (pw_guess s)) \<le> 19" using pw_ok_guess T by auto
  have l: "length (pw_guess s) = 20" using T by (simp add: pw_ok_def)
  have z: "pw_guess s ! 0 \<noteq> NUL \<Longrightarrow> 1 \<le> length (cstr (pw_guess s))" using cstr_nth [of 0 "pw_guess s"] l by (simp add: Suc_le_eq)
  have p: "c_str (pw_target s) = Some (cstr (pw_target s))" using T by (simp add: c_str_def pw_ok_def)
  have pt: "plain (cstr (pw_target s))" "length (cstr (pw_target s)) \<le> 18" "plain (cstr (pw_guess s))" using T by (simp_all add: pw_ok_def)
  consider (weight) "pw_guess s ! 0 = CHR ''0''" "pw_guess s ! 1 = CHR ''0''" | (pass) "pw_guess s ! 0 = CHR ''0''" "pw_guess s ! 1 \<noteq> CHR ''0''"
    | (tried) "pw_guess s ! 0 \<noteq> CHR ''0''" by blast
  then show ?thesis
  proof cases
    case weight
    have "take 2 (pw_guess s) = [pw_guess s ! 0, pw_guess s ! 1]" using l by (simp add: numeral_2_eq_2 take_Suc_conv_app_nth)
    then obtain n where n: "c_atoi (cstr (drop 2 (pw_guess s))) = Some n" "\<bar>n\<bar> < 2 ^ 24" using k weight by auto
    have "\<forall>j\<le>1. pw_guess s ! j \<noteq> NUL" using weight by (auto simp: le_Suc_eq)
    then have "1 < length (cstr (pw_guess s))" using cstr_nth [of 1 "pw_guess s"] l by simp
    then have d: "c_str (drop 2 (pw_guess s)) = Some (cstr (drop 2 (pw_guess s)))"
      using c_str_drop [OF G(1), of 2] by (simp add: c_str_def split: if_splits)
    have f: "length (fmt_f False 3 1 (f32_of_int n)) \<le> 42" using length_fmt_f [of False 3 1 "f32_of_int n"] by simp
    have "fine (printf2 (''Weight Set: '' @ fmt_f False 3 1 (f32_of_int n) @ [NL]) (s\<lparr>target_weight := f32_of_int n\<rparr>))"
      by (rule fine_printf2) (use g T f f32_trunc_of_int [OF n(2)] in \<open>simp_all add: typed_def pw_inv_def pw_ok_def\<close>)
    then show ?thesis using weight d n(1) by (simp add: key_enter_def Let_def fine_bind fine_reset del: append.simps)
  next
    case pass
    then have c: "1 \<le> length (cstr (pw_guess s))" using z by simp
    let ?t = "drop 1 (cstr (pw_guess s))"
    have d: "c_str (drop 1 (pw_guess s)) = Some ?t" by (rule c_str_drop [OF G(1) c])
    have t1: "NUL \<notin> set ?t" "length ?t \<le> 18" "plain ?t" using G(2) pt(3) by (auto simp: plain_def dest: in_set_dropD)
    obtain s1 where s1: "password_set ?t s = Some s1" "pw_ok s1" "cstr (pw_target s1) = ?t" "s1 = s\<lparr>pw_target := pw_target s1\<rparr>"
      using password_set_ok [OF _ t1(1,2)] T by blast
    have f1: "good s1" "pw_guess s1 = pw_guess s" "pw_index s1 = pw_index s" "target_weight s1 = target_weight s" by (subst s1(4), simp add: g)+
    have ty: "typed s1" using T s1(2,3) f1 t1(3) by (simp add: typed_def pw_inv_def)
    have p1: "c_str (pw_target s1) = Some ?t" using s1(2,3) by (simp add: c_str_def pw_ok_def)
    have "fine (printf2 (''Password Set: '' @ ?t @ [NL]) s1)" by (rule fine_printf2) (use f1 ty t1 in simp_all)
    then show ?thesis using pass d s1(1) p1 by (simp add: key_enter_def Let_def fine_bind fine_reset del: append.simps drop_Suc)
  next
    case tried
    have f: "fine (do {
        s \<leftarrow> printf2 (''Guess Get: '' @ cstr (pw_guess s) @ [NL]) s;
        p \<leftarrow> c_str (pw_target s);
        s \<leftarrow> printf2 (''Password Get: '' @ p @ [NL]) s;
        checkPassword w s })"
    proof (rule fine_bind)
      show "fine (printf2 (''Guess Get: '' @ cstr (pw_guess s) @ [NL]) s)" by (rule fine_printf2) (use g t G pt in simp_all)
      fix s1 assume s1: "printf2 (''Guess Get: '' @ cstr (pw_guess s) @ [NL]) s = Some s1" "good s1" "typed s1"
      have "pw_target s1 = pw_target s" using printf2_quiet [OF s1(1)] by (simp add: quiet_def)
      then have p1: "c_str (pw_target s1) = Some (cstr (pw_target s))" using p by simp
      have "fine (printf2 (''Password Get: '' @ cstr (pw_target s) @ [NL]) s1)" by (rule fine_printf2) (use s1 pt in simp_all)
      then show "fine (do { p \<leftarrow> c_str (pw_target s1); s \<leftarrow> printf2 (''Password Get: '' @ p @ [NL]) s1; checkPassword w s })"
        unfolding p1 bind.bind_lunit by (rule fine_bind) (rule fine_checkPassword)
    qed
    have "key_enter w s = (do {
        s \<leftarrow> printf2 (''Guess Get: '' @ cstr (pw_guess s) @ [NL]) s;
        p \<leftarrow> c_str (pw_target s);
        s \<leftarrow> printf2 (''Password Get: '' @ p @ [NL]) s;
        checkPassword w s }) \<bind> password_reset"
      using tried G(1) by (simp add: key_enter_def Let_def del: append.simps)
    then show ?thesis using fine_bind [OF f] fine_reset by simp
  qed
qed

lemma fine_keypadEvent:
  assumes g: "good s" and t: "typed s" and k: "key_ok k s"
  shows "fine (keypadEvent k w s)"
proof (cases "km_state k = KeyPush")
  case False
  then show ?thesis using g t by (simp add: keypadEvent_def fine_def)
next
  case True
  then have c: "km_key k \<noteq> NUL" "km_key k \<noteq> CHR ''%''" using k by (simp_all add: key_ok_def)
  have "fine (do {
      s \<leftarrow> printf2 ''Pressed: '' s;
      s \<leftarrow> printf2 [km_key k, NL] s;
      s \<leftarrow> (if km_key k = CHR ''*'' then key_enter w s
            else if km_key k = CHR ''#'' then password_reset s
            else do { (_, s) \<leftarrow> password_append (km_key k) s; Some s });
      guess \<leftarrow> c_str (pw_guess s);
      show_line 2 (''PASS:'' @ guess @ [NL]) s })"
  proof (rule fine_bind)
    show "fine (printf2 ''Pressed: '' s)" by (rule fine_printf2) (use g t in simp_all)
    fix s1 assume s1: "printf2 ''Pressed: '' s = Some s1" "good s1" "typed s1"
    show "fine (do {
      s \<leftarrow> printf2 [km_key k, NL] s1;
      s \<leftarrow> (if km_key k = CHR ''*'' then key_enter w s
            else if km_key k = CHR ''#'' then password_reset s
            else do { (_, s) \<leftarrow> password_append (km_key k) s; Some s });
      guess \<leftarrow> c_str (pw_guess s);
      show_line 2 (''PASS:'' @ guess @ [NL]) s })"
    proof (rule fine_bind)
      show "fine (printf2 [km_key k, NL] s1)" by (rule fine_printf2) (use s1 c in simp_all)
      fix s2 assume s2: "printf2 [km_key k, NL] s1 = Some s2" "good s2" "typed s2"
      have "pw_guess s2 = pw_guess s" using printf2_quiet [OF s1(1)] printf2_quiet [OF s2(1)] by (simp add: quiet_def)
      then have e: "km_key k = CHR ''*'' \<Longrightarrow> fine (key_enter w s2)"
        by (intro fine_key_enter) (use s2 k True in \<open>simp_all add: key_ok_def\<close>)
      show "fine (do {
        s \<leftarrow> (if km_key k = CHR ''*'' then key_enter w s2
              else if km_key k = CHR ''#'' then password_reset s2
              else do { (_, s) \<leftarrow> password_append (km_key k) s2; Some s });
        guess \<leftarrow> c_str (pw_guess s);
        show_line 2 (''PASS:'' @ guess @ [NL]) s })"
      proof (rule fine_bind)
        show "fine (if km_key k = CHR ''*'' then key_enter w s2
              else if km_key k = CHR ''#'' then password_reset s2
              else do { (_, s) \<leftarrow> password_append (km_key k) s2; Some s })"
          using e fine_reset [OF s2(2,3)] fine_append [OF s2(2,3) c] by simp
        fix s3 assume s3: "good s3" "typed s3"
        have G: "c_str (pw_guess s3) = Some (cstr (pw_guess s3))" "length (cstr (pw_guess s3)) \<le> 19" "plain (cstr (pw_guess s3))"
          using pw_ok_guess typedD [OF s3(2)] by auto
        have "fine (show_line 2 (''PASS:'' @ cstr (pw_guess s3) @ [NL]) s3)"
          by (rule fine_quiet [OF show_line_okay]) (use s3 G in \<open>auto intro: show_line_quiet\<close>)
        then show "fine (do { guess \<leftarrow> c_str (pw_guess s3); show_line 2 (''PASS:'' @ guess @ [NL]) s3 })"
          unfolding G(1) bind.bind_lunit .
      qed
    qed
  qed
  then show ?thesis using True by (simp add: keypadEvent_def)
qed

section \<open>The round\<close>

definition app_ok :: "app \<Rightarrow> bool" where
  "app_ok s \<longleftrightarrow> lock_inv s \<and> good s \<and> typed s"

definition input_ok :: "input \<Rightarrow> app \<Rightarrow> bool" where
  "input_ok i s \<longleftrightarrow> key_ok (get_key (fst (in_key i)) (snd (in_key i))) s"

text \<open>What the transition leaves alone.\<close>

definition kept :: "app \<Rightarrow> app \<Rightarrow> bool" where
  "kept s s' \<longleftrightarrow> pw_target s' = pw_target s \<and> pw_guess s' = pw_guess s \<and> pw_index s' = pw_index s \<and> target_weight s' = target_weight s \<and>
     door_open_old s' = door_open_old s"

lemma kept_quiet: "quiet s s' \<Longrightarrow> kept s s'"
  by (simp add: quiet_def kept_def)

lemma kept_trans: "kept s s1 \<Longrightarrow> kept s1 s2 \<Longrightarrow> kept s s2"
  by (simp add: kept_def)

lemma kept_typed: "kept s s' \<Longrightarrow> typed s' = typed s"
  by (simp add: kept_def typed_def pw_inv_def pw_ok_def)

lemma kept_simps [simp]: "kept s (s\<lparr>old_state := g\<rparr>)" "kept s (s\<lparr>next_state := g\<rparr>)" "kept s (cmd_servo a b s)" "kept s s"
  by (simp_all add: kept_def cmd_servo_def emit_def)

lemma LOCKED_init_kept: "LOCKED_init s = Some s' \<Longrightarrow> kept s s'"
proof -
  assume "LOCKED_init s = Some s'"
  then obtain t1 t2 where t: "printf2 (''LOCKED_init'' @ [NL]) s = Some t1"
      "show_line 3 (''LOCKED'' @ [NL]) (cmd_servo 150 10 (cmd_kaiten_lamp 0 False t1)) = Some t2" "NotifyLocked t2 = Some s'"
    unfolding LOCKED_init_def Let_def by (elim bindE)
  have "kept s (cmd_kaiten_lamp 0 False t1)" by (rule kept_quiet [OF quiet_trans [OF printf2_quiet [OF t(1)] cmd_quiet(5)]])
  moreover have "kept (cmd_servo 150 10 (cmd_kaiten_lamp 0 False t1)) s'"
    by (rule kept_quiet [OF quiet_trans [OF show_line_quiet [OF t(2)] notify_quiet(7) [OF t(3)]]])
  ultimately show ?thesis using kept_trans kept_simps(3) by blast
qed

lemma UNLOCKED_init_kept: "UNLOCKED_init s = Some s' \<Longrightarrow> kept s s'"
proof -
  assume "UNLOCKED_init s = Some s'"
  then obtain t1 t2 t3 where t: "printf2 (''UNLOCKED_init'' @ [NL]) s = Some t1" "printf2 (''Target weight achieved'' @ [NL]) (cmd_servo 70 10 t1) = Some t2"
      "show_line 3 (''UNLOCKED'' @ [NL]) t2 = Some t3" "NotifyUnlocked t3 = Some s'"
    unfolding UNLOCKED_init_def Let_def by (elim bindE)
  have "kept (cmd_servo 70 10 t1) s'"
    by (rule kept_quiet [OF quiet_trans [OF printf2_quiet [OF t(2)] quiet_trans [OF show_line_quiet [OF t(3)] notify_quiet(8) [OF t(4)]]]])
  then show ?thesis using kept_quiet [OF printf2_quiet [OF t(1)]] kept_trans kept_simps(3) by blast
qed

lemma state_func_kept: "call_func (init_func (state_function st)) s = Some s' \<Longrightarrow> kept s s'"
  "call_func (end_func (state_function st)) s = Some s' \<Longrightarrow> kept s s'" "call_func (do_func (state_function st)) s = Some s' \<Longrightarrow> kept s s'"
proof -
  show "call_func (init_func (state_function st)) s = Some s' \<Longrightarrow> kept s s'"
    by (cases st) (auto simp: call_func_def state_function_def intro: LOCKED_init_kept UNLOCKED_init_kept kept_quiet state_funcs_quiet)
  show "call_func (end_func (state_function st)) s = Some s' \<Longrightarrow> kept s s'"
    by (cases st) (auto simp: call_func_def state_function_def intro: kept_quiet state_funcs_quiet)
  show "call_func (do_func (state_function st)) s = Some s' \<Longrightarrow> kept s s'"
    by (cases st) (auto simp: call_func_def state_function_def INIT_do_def LOCKED_do_def UNLOCKED_do_def SETTING_do_def)
qed

lemma state_main_kept: "state_main state_function s = Some s' \<Longrightarrow> kept s s'"
proof -
  assume m: "state_main state_function s = Some s'"
  then obtain s1 where s1: "kept s s1" "call_func (do_func (state_function (next_state s1))) (s1\<lparr>old_state := next_state s1\<rparr>) = Some s'"
  proof (cases "old_state s = g_state s")
    case True
    then show ?thesis using m that [of s] by (simp add: state_main_def state_trans_def Let_def)
  next
    case False
    obtain t1 t2 where t: "call_func (end_func (state_function (old_state s))) (s\<lparr>next_state := state_next (old_state s) (g_state s)\<rparr>) = Some t1"
      "call_func (init_func (state_function (next_state t1))) t1 = Some t2"
      "call_func (do_func (state_function (next_state t2))) (t2\<lparr>old_state := next_state t2\<rparr>) = Some s'"
      using m False by (auto simp: state_main_def state_trans_def Let_def elim!: bindE)
    have "kept s t2" by (rule kept_trans [OF kept_trans [OF kept_simps(2) state_func_kept(2) [OF t(1)]] state_func_kept(1) [OF t(2)]])
    then show ?thesis using that t(3) by blast
  qed
  show ?thesis by (rule kept_trans [OF s1(1) kept_trans [OF kept_simps(1) state_func_kept(3) [OF s1(2)]]])
qed

text \<open>A round, cut at the keypad: what comes before and after leaves the strings and the target alone.\<close>

lemma round_ok:
  assumes a: "app_ok s" and i: "input_ok i s"
  shows "\<exists>t t' s'. com_main_loop i s = Some s' \<and> app_ok s' \<and> good t \<and> typed t \<and> g_state t = door_state i s \<and>
    pw_target t = pw_target s \<and> pw_guess t = pw_guess s \<and> target_weight t = target_weight s \<and> door_open_old t = in_door i \<and>
    (if door_state i s = LOCKED
     then keypadEvent (get_key (fst (in_key i)) (snd (in_key i))) (get_weight (in_weight i)) t else Some t) = Some t' \<and> kept t' s'"
proof -
  let ?w = "get_weight (in_weight i)" and ?k = "get_key (fst (in_key i)) (snd (in_key i))"
  have A: "lock_inv s" "good s" "typed s" using a by (simp_all add: app_ok_def)
  obtain s1 where s1: "report_weight ?w s = Some s1" "good s1" using report_weight_okay [OF A(2)] by (auto simp: okay_def)
  define t1 where "t1 = s1\<lparr>weights_old := ?w\<rparr>"
  have q1: "quiet s t1" using report_weight_quiet [OF s1(1)] by (simp add: quiet_def t1_def servo_def)
  have g1: "good t1" using s1(2) by (simp add: t1_def)
  obtain s2 where s2: "report_door (in_door i) t1 = Some s2" "good s2" using report_door_okay [OF g1] by (auto simp: okay_def)
  define t where "t = s2\<lparr>door_open_old := in_door i\<rparr>"
  have ok1: "pw_ok t1" using quiet_pw_ok [OF q1] typedD [OF A(3)] by simp
  note D = report_door_lock [OF s2(1) ok1]
  have gi: "pw_index s2 = pw_index t1"
    using s2(1) by (auto simp: report_door_def set_state_def simp del: append.simps dest!: printf2_quiet split: if_splits elim!: bindE)
      (auto simp: quiet_def cmd_lamp_def emit_def)
  have f: "pw_target t = pw_target s" "pw_guess t = pw_guess s" "pw_index t = pw_index s" "target_weight t = target_weight s"
    "g_state t = door_state i s" "door_open_old t = in_door i"
    using D q1 gi by (auto simp: t_def quiet_def lock_rel_def door_state_def)
  have g2: "good t" using s2(2) by (simp add: t_def)
  have ty: "typed t" using A(3) f by (simp add: typed_def pw_inv_def pw_ok_def)
  have ko: "key_ok ?k t" using i f by (simp add: input_ok_def key_ok_def)
  have "fine (if door_state i s = LOCKED then keypadEvent ?k ?w t else Some t)"
    using fine_keypadEvent [OF g2 ty ko, of ?w] g2 ty by (simp add: fine_def)
  then obtain t' where t': "(if door_state i s = LOCKED then keypadEvent ?k ?w t else Some t) = Some t'" "good t'" "typed t'"
    unfolding fine_def by blast
  obtain s4 where s4: "report_target t' = Some s4" "good s4" using report_target_okay [OF t'(2)] typedD [OF t'(3)] by (auto simp: okay_def)
  obtain s' where s': "state_main state_function s4 = Some s'" "good s'" using state_main_okay [OF s4(2)] by (auto simp: okay_def)
  have k: "kept t' s'" by (rule kept_trans [OF kept_quiet [OF report_target_quiet [OF s4(1)]] state_main_kept [OF s'(1)]])
  have gs: "get_state t = door_state i s" using f(5) by (simp add: get_state_def)
  have r: "com_main_loop i s = Some s'"
    unfolding com_main_loop_def Let_def s1(1) bind.bind_lunit t1_def [symmetric] s2(1) t_def [symmetric] gs t'(1) s4(1)
    by (rule s'(1))
  have "app_ok s'" using lock_inv_round [OF A(1) r] s'(2) kept_typed [OF k] t'(3) by (simp add: app_ok_def)
  then show ?thesis using r g2 ty f t'(1) k by blast
qed

end
