(* ===== verification/OpenSpec.thy ===== *)
theory OpenSpec
  imports RoundSpec
begin

text \<open>
  The application from its start: it comes up in a good state, keeps it, and the lock can always be opened by typing the password
  when the weight is below the target.
\<close>

section \<open>The start\<close>

lemma oled_zero: "oled_ok (app_zero reply)"
proof -
  have p: "set (replicate 8 (replicate 300 NUL)) = {replicate 300 NUL}" "NUL \<in> set (replicate 300 NUL)" "length (replicate 300 NUL) = 300"
    by simp_all
  show ?thesis unfolding oled_ok_def app_zero_def app.simps p(1) using p(2,3) by simp
qed

lemma start_ok:
  assumes "\<forall>n. reply_ok (reply n)" "plain mac" "plain ip" "plain nm" "plain gw"
    "length mac < 200" "length ip < 200" "length nm < 200" "length gw < 200" "- (2 ^ 31) \<le> rssi" "rssi < 2 ^ 31"
  shows "\<exists>s s'. app_main reply = Some s \<and> com_main_start (wifi_init ret mac ip nm gw rssi) lead_sw s = Some s' \<and> app_ok s' \<and>
    g_state s' = (if lead_sw then UNLOCKED else LOCKED) \<and> cstr (pw_target s') = ''1234'' \<and> target_weight s' = f32_of_int 100 \<and>
    \<not> door_open_old s' \<and> old_state s' = INIT"
proof -
  have c: "replicate 20 NUL = NUL # NUL # NUL # NUL # NUL # replicate 15 NUL" by (simp add: eval_nat_numeral)
  define s0 where "s0 = (app_zero reply)\<lparr>pw_target := ''1234'' @ NUL # replicate 15 NUL\<rparr>"
  have n: "password_new ''1234'' (app_zero reply) = Some s0"
    by (simp add: password_new_def password_set_def c_strcpy_def password_reset_def set_at_def app_zero_def c Let_def s0_def)
  have g0: "good s0" using oled_zero [of reply] assms(1) by (simp add: good_def oled_ok_def s0_def app_zero_def)
  have f: "pw_inv s0" "cstr (pw_target s0) = ''1234''" "cstr (pw_guess s0) = []" "target_weight s0 = f32_of_int 100" "\<not> door_open_old s0"
    "old_state s0 = INIT" "next_state s0 = INIT" "servo s0 = []"
    by (simp_all add: s0_def app_zero_def pw_inv_def pw_ok_def servo_def c)
  have t0: "typed s0" using f(1-4) f32_trunc_of_int [of 100] by (simp add: typed_def)
  obtain s where s: "printf2 (''start'' @ [NL]) s0 = Some s" "good s"
    using printf2_okay [OF g0, of "''start'' @ [NL]"] by (auto simp: okay_def)
  have m: "app_main reply = Some s" using n s(1) by (simp add: app_main_def)
  have "\<exists>r s1. wifi_init ret mac ip nm gw rssi s = Some (r, s1) \<and> good s1"
  proof -
    let ?ts = "[''Success'' @ [NL, NL], ''MAC: '' @ mac @ [NL], ''IP: '' @ ip @ [NL], ''Netmask: '' @ nm @ [NL], ''Gateway: '' @ gw @ [NL],
       ''RSSI: '' @ fmt_d rssi @ [NL, NL]]"
    have d: "length (fmt_d rssi) \<le> 11" using assms by (intro length_fmt_d) simp_all
    obtain u where u: "printf2 (NL # ''Connecting...'' @ [NL]) s = Some u" "good u"
      using printf2_okay [OF s(2), of "NL # ''Connecting...'' @ [NL]"] by (auto simp: okay_def)
    show ?thesis
    proof (cases "ret = 0")
      case True
      obtain v where v: "send_all printf2 ?ts u = Some v" "good v"
        using oled.send_all_ok [OF u(2), of ?ts] assms d by auto
      then have "wifi_init ret mac ip nm gw rssi s = Some (0, v)"
        unfolding wifi_init_def u(1) bind.bind_lunit True send_all.simps by (auto simp del: append.simps elim!: bindE)
      then show ?thesis using v by simp
    next
      case False
      obtain v where v: "printf2 (NL # ''Connection error'' @ [NL]) u = Some v" "good v"
        using printf2_okay [OF u(2), of "NL # ''Connection error'' @ [NL]"] by (auto simp: okay_def)
      then show ?thesis using u(1) False by (simp add: wifi_init_def del: append.simps)
    qed
  qed
  then obtain r s1 where s1: "wifi_init ret mac ip nm gw rssi s = Some (r, s1)" "good s1" by blast
  define s2 where "s2 = (if \<not> lead_sw then set_state LOCKED s1 else set_state UNLOCKED s1)"
  have q: "quiet s0 s1" by (rule quiet_trans [OF printf2_quiet [OF s(1)] wifi_quiet [OF s1(1)]])
  have g2: "good s2" using s1(2) by (simp add: s2_def)
  obtain s' where s': "show_line 2 (''PASS:'' @ [NL]) s2 = Some s'" "good s'"
    using show_line_okay [OF g2, of "''PASS:'' @ [NL]" 2] by (auto simp: okay_def)
  have st: "com_main_start (wifi_init ret mac ip nm gw rssi) lead_sw s = Some s'"
    using s1(1) s'(1) by (simp add: com_main_start_def s2_def del: append.simps)
  have q2: "quiet s2 s'" by (rule show_line_quiet [OF s'(1)])
  have "lock_inv s'" by (rule app_run_lock [OF app_run.start [OF m st]])
  moreover have "typed s2" using typed_quiet [OF q] t0 by (simp add: s2_def set_state_def typed_def pw_inv_def pw_ok_def)
  ultimately have "app_ok s'" using typed_quiet [OF q2] s'(2) by (simp add: app_ok_def)
  moreover have "g_state s' = (if lead_sw then UNLOCKED else LOCKED)" "pw_target s' = pw_target s0" "target_weight s' = f32_of_int 100"
    "\<not> door_open_old s'" "old_state s' = INIT"
    using q q2 f by (auto simp: quiet_def s2_def set_state_def)
  ultimately show ?thesis using m st f(2) by auto
qed

section \<open>Opening the lock\<close>

text \<open>A round with a key pressed, the door closed and the scale at rest, and such rounds one after the other.\<close>

definition press :: "u8 list \<Rightarrow> char \<Rightarrow> input" where
  "press w c = \<lparr>in_door = False, in_weight = w, in_key = (of_char c, 1)\<rparr>"

fun rounds :: "input list \<Rightarrow> app \<Rightarrow> app option" where
  "rounds [] s = Some s"
| "rounds (i # is) s = do { s \<leftarrow> com_main_loop i s; rounds is s }"

lemma rounds_append: "rounds (is @ js) s = rounds is s \<bind> rounds js"
  by (induction "is" arbitrary: s) (auto split: bind_splits)

lemma press_key: "get_key (fst (in_key (press w c))) (snd (in_key (press w c))) = \<lparr>km_key = c, km_state = KeyPush\<rparr>"
proof -
  have "unat (of_char c :: u8) = of_char c"
    unfolding of_nat_of_char [symmetric, where 'a = "8 word"] unat_of_nat by simp
  then show ?thesis by (simp add: press_def get_key_def)
qed

text \<open>A key that is not \<open>*\<close> only changes the guess.\<close>

lemma keypadEvent_guess:
  assumes k: "keypadEvent \<lparr>km_key = c, km_state = KeyPush\<rparr> w s = Some s'" and t: "typed s" and c: "c \<noteq> CHR ''*''" "c \<noteq> NUL"
  shows "cstr (pw_guess s') = (if c = CHR ''#'' then [] else take 19 (cstr (pw_guess s) @ [c])) \<and> pw_target s' = pw_target s \<and>
    target_weight s' = target_weight s \<and> door_open_old s' = door_open_old s"
proof -
  obtain s1 s2 s3 g where s: "printf2 ''Pressed: '' s = Some s1" "printf2 [c, NL] s1 = Some s2"
    "(if c = CHR ''#'' then password_reset s2 else do { (_, s) \<leftarrow> password_append c s2; Some s }) = Some s3"
    "show_line 2 (''PASS:'' @ g @ [NL]) s3 = Some s'"
    using k c(1) unfolding keypadEvent_def keymat_t.simps if_not_P [OF c(1)] by (simp del: append.simps) (elim bindE)
  have q: "quiet s s2" by (rule quiet_trans [OF printf2_quiet [OF s(1)] printf2_quiet [OF s(2)]])
  have t2: "pw_inv s2" "pw_ok s2" using typed_quiet [OF q] t typedD [of s2] by simp_all
  have "cstr (pw_guess s3) = (if c = CHR ''#'' then [] else take 19 (cstr (pw_guess s2) @ [c])) \<and> s3 = s2\<lparr>pw_guess := pw_guess s3, pw_index := pw_index s3\<rparr>"
  proof (cases "c = CHR ''#''")
    case True
    then show ?thesis using s(3) password_reset_ok [OF t2(2)] by auto
  next
    case False
    then obtain b where b: "password_append c s2 = Some (b, s3)" using s(3) by (auto split: bind_splits)
    have "s3 = s2\<lparr>pw_guess := pw_guess s3, pw_index := pw_index s3\<rparr>" using password_append_ok [OF t2(2), of c] b by auto
    then show ?thesis using False password_append_str [OF t2(1) c(2) b] by simp
  qed
  then have g3: "cstr (pw_guess s3) = (if c = CHR ''#'' then [] else take 19 (cstr (pw_guess s2) @ [c]))"
    and e3: "s3 = s2\<lparr>pw_guess := pw_guess s3, pw_index := pw_index s3\<rparr>" by simp_all
  have "pw_target s3 = pw_target s2" "target_weight s3 = target_weight s2" "door_open_old s3 = door_open_old s2" by (subst e3, simp)+
  then show ?thesis using g3 q show_line_quiet [OF s(4)] by (simp add: quiet_def)
qed

text \<open>Locked, with the door closed.\<close>

definition shut :: "app \<Rightarrow> bool" where
  "shut s \<longleftrightarrow> app_ok s \<and> g_state s = LOCKED \<and> \<not> door_open_old s"

lemma shut_round: "shut s \<Longrightarrow> com_main_loop (press w c) s = Some s' \<Longrightarrow>
    g_state s' = (if unlocks (press w c) s then UNLOCKED else LOCKED) \<and>
    (unlocks (press w c) s \<longrightarrow> servo s' = servo s @ [servo_open])"
proof -
  assume s: "shut s" and r: "com_main_loop (press w c) s = Some s'"
  have l: "lock_inv s" "door_state (press w c) s = LOCKED" using s by (simp_all add: shut_def app_ok_def door_state_def)
  then have "old_state s \<in> {INIT, LOCKED, UNLOCKED}" "old_state s \<noteq> UNLOCKED" using s by (auto simp: lock_inv_def shut_def split: if_splits)
  then show ?thesis using round_lock [OF r] l by (auto simp: lock_inv_def)
qed

lemma press_round:
  assumes s: "shut s" and c: "c \<noteq> CHR ''*''" "c \<noteq> NUL" "c \<noteq> CHR ''%''"
  shows "\<exists>s'. com_main_loop (press w c) s = Some s' \<and> shut s' \<and> pw_target s' = pw_target s \<and> target_weight s' = target_weight s \<and>
    cstr (pw_guess s') = (if c = CHR ''#'' then [] else take 19 (cstr (pw_guess s) @ [c]))"
proof -
  have a: "app_ok s" using s by (simp add: shut_def)
  have i: "input_ok (press w c) s" using c by (simp add: input_ok_def press_key key_ok_def)
  obtain t t' s' where r: "com_main_loop (press w c) s = Some s'" "app_ok s'" "good t" "typed t" "g_state t = door_state (press w c) s"
    "pw_target t = pw_target s" "pw_guess t = pw_guess s" "target_weight t = target_weight s" "door_open_old t = in_door (press w c)"
    "(if door_state (press w c) s = LOCKED then keypadEvent \<lparr>km_key = c, km_state = KeyPush\<rparr> (get_weight (in_weight (press w c))) t else Some t) = Some t'"
    "kept t' s'"
    using round_ok [OF a i] unfolding press_key by (elim exE conjE) (rule that)
  have k: "keypadEvent \<lparr>km_key = c, km_state = KeyPush\<rparr> (get_weight w) t = Some t'"
    using r(10) s by (simp add: shut_def door_state_def press_def)
  note G = keypadEvent_guess [OF k r(4) c(1,2)]
  have u: "\<not> unlocks (press w c) s" using c unfolding unlocks_def press_key by (simp add: authorised_def)
  have "shut s'" using r(2,9,11) G shut_round [OF s r(1)] u by (simp add: shut_def kept_def press_def)
  then show ?thesis using r(1,6-8,11) G by (simp add: kept_def)
qed

lemma type_rounds:
  assumes "shut s" "\<forall>c\<in>set cs. c \<noteq> CHR ''*'' \<and> c \<noteq> CHR ''#'' \<and> c \<noteq> NUL \<and> c \<noteq> CHR ''%''" "length (cstr (pw_guess s)) \<le> 19"
  shows "\<exists>s'. rounds (map (press w) cs) s = Some s' \<and> shut s' \<and> pw_target s' = pw_target s \<and> target_weight s' = target_weight s \<and>
    cstr (pw_guess s') = take 19 (cstr (pw_guess s) @ cs)"
  using assms
proof (induction cs arbitrary: s)
  case (Cons c cs)
  have c: "c \<noteq> CHR ''*''" "c \<noteq> CHR ''#''" "c \<noteq> NUL" "c \<noteq> CHR ''%''" using Cons.prems(2) by simp_all
  obtain s1 where s1: "com_main_loop (press w c) s = Some s1" "shut s1" "pw_target s1 = pw_target s" "target_weight s1 = target_weight s"
    "cstr (pw_guess s1) = take 19 (cstr (pw_guess s) @ [c])"
    using press_round [OF Cons.prems(1) c(1,3,4), of w] c(2) by auto
  have cs: "\<forall>c\<in>set cs. c \<noteq> CHR ''*'' \<and> c \<noteq> CHR ''#'' \<and> c \<noteq> NUL \<and> c \<noteq> CHR ''%''" "length (cstr (pw_guess s1)) \<le> 19"
    using Cons.prems(2) s1(5) by simp_all
  obtain s' where s': "rounds (map (press w) cs) s1 = Some s'" "shut s'" "pw_target s' = pw_target s1" "target_weight s' = target_weight s1"
    "cstr (pw_guess s') = take 19 (cstr (pw_guess s1) @ cs)"
    using Cons.IH [OF s1(2) cs] by blast
  have "take 19 (take 19 (cstr (pw_guess s) @ [c]) @ cs) = take 19 (cstr (pw_guess s) @ c # cs)"
    by (simp add: min_def) (simp add: take_Cons' Suc_diff_le)
  then show ?case using s1 s' by simp
qed simp

lemma open_round:
  assumes s: "shut s" and g: "cstr (pw_guess s) = cstr (pw_target s)" "pw_guess s ! 0 \<noteq> CHR ''0''"
    and w: "w_stable (get_weight w) \<noteq> initial" "f32_lt (w_weight (get_weight w)) (target_weight s)"
  shows "\<exists>s'. com_main_loop (press w (CHR ''*'')) s = Some s' \<and> app_ok s' \<and> g_state s' = UNLOCKED \<and> servo s' = servo s @ [servo_open]"
proof -
  have "length (pw_guess s) = 20" using s by (simp add: shut_def app_ok_def lock_inv_def pw_ok_def)
  then have "take 2 (pw_guess s) \<noteq> ''00''" using g(2) by (cases "pw_guess s") auto
  then have "input_ok (press w (CHR ''*'')) s" by (simp add: input_ok_def press_key key_ok_def)
  then obtain s' where s': "com_main_loop (press w (CHR ''*'')) s = Some s'" "app_ok s'"
    using round_ok [of s "press w (CHR ''*'')"] s by (auto simp: shut_def)
  have "unlocks (press w (CHR ''*'')) s" unfolding unlocks_def press_key
    using s g w by (simp add: authorised_def shut_def door_state_def press_def)
  then show ?thesis using s' shut_round [OF s s'(1)] by simp
qed

section \<open>The properties of the application\<close>

lemma rounds_run: "app_run reply s \<Longrightarrow> rounds is s = Some s' \<Longrightarrow> app_run reply s'"
  by (induction "is" arbitrary: s) (auto split: bind_splits intro: app_run.round)

text \<open>Up to the last key.\<close>

lemma typed_rounds:
  assumes s: "shut s" and p: "CHR ''*'' \<notin> set (cstr (pw_target s))" "CHR ''#'' \<notin> set (cstr (pw_target s))"
  shows "\<exists>s'. rounds (map (press w) (CHR ''#'' # cstr (pw_target s))) s = Some s' \<and> shut s' \<and> pw_target s' = pw_target s \<and>
    target_weight s' = target_weight s \<and> cstr (pw_guess s') = cstr (pw_target s)"
proof -
  have t: "plain (cstr (pw_target s))" "length (cstr (pw_target s)) \<le> 18"
    using s by (auto simp: shut_def app_ok_def lock_inv_def pw_ok_def dest: typedD)
  obtain s1 where s1: "com_main_loop (press w (CHR ''#'')) s = Some s1" "shut s1" "pw_target s1 = pw_target s" "target_weight s1 = target_weight s"
    "cstr (pw_guess s1) = []"
    using press_round [OF s, of "CHR ''#''" w] by auto
  have "\<forall>c\<in>set (cstr (pw_target s)). c \<noteq> CHR ''*'' \<and> c \<noteq> CHR ''#'' \<and> c \<noteq> NUL \<and> c \<noteq> CHR ''%''" using p t(1) by (auto simp: plain_def)
  from type_rounds [OF s1(2) this, of w] obtain s2 where "rounds (map (press w) (cstr (pw_target s))) s1 = Some s2" "shut s2"
    "pw_target s2 = pw_target s1" "target_weight s2 = target_weight s1" "cstr (pw_guess s2) = cstr (pw_target s)"
    using s1(5) t(2) by auto
  then show ?thesis using s1 by simp
qed

lemma guess_nonzero: "length (pw_guess s) = 20 \<Longrightarrow> take 1 (cstr (pw_guess s)) \<noteq> ''0'' \<Longrightarrow> pw_guess s ! 0 \<noteq> CHR ''0''"
  by (cases "pw_guess s") auto

lemma open_lemma:
  assumes s: "shut s" and p: "CHR ''*'' \<notin> set (cstr (pw_target s))" "CHR ''#'' \<notin> set (cstr (pw_target s))" "take 1 (cstr (pw_target s)) \<noteq> ''0''"
    and w: "w_stable (get_weight w) \<noteq> initial" "f32_lt (w_weight (get_weight w)) (target_weight s)"
  shows "\<exists>s1 s'. rounds (map (press w) (CHR ''#'' # cstr (pw_target s))) s = Some s1 \<and> com_main_loop (press w (CHR ''*'')) s1 = Some s' \<and>
    app_ok s' \<and> g_state s' = UNLOCKED \<and> servo s' = servo s1 @ [servo_open]"
proof -
  obtain s1 where s1: "rounds (map (press w) (CHR ''#'' # cstr (pw_target s))) s = Some s1" "shut s1" "pw_target s1 = pw_target s"
    "target_weight s1 = target_weight s" "cstr (pw_guess s1) = cstr (pw_target s)"
    using typed_rounds [OF s p(1,2)] by blast
  have "length (pw_guess s1) = 20" using s1(2) by (simp add: shut_def app_ok_def lock_inv_def pw_ok_def)
  then have "pw_guess s1 ! 0 \<noteq> CHR ''0''" using guess_nonzero [of s1] s1(5) p(3) by simp
  then show ?thesis using open_round [OF s1(2), of w] s1 w by auto
qed

text \<open>The concrete run: the program started with the door closed, 60 kg on the scale, \<open>#1234*\<close>.\<close>

definition run_reply :: "nat \<Rightarrow> int + string" where
  "run_reply n = Inr ''OK''"

definition run_scale :: "u8 list" where
  "run_scale = [3, 0, 0, 0, 0, 0, 0x70, 0x42]"

lemma run_scale_ok: "w_stable (get_weight run_scale) \<noteq> initial" "f32_lt (w_weight (get_weight run_scale)) (f32_of_int 100)"
proof -
  show "w_stable (get_weight run_scale) \<noteq> initial" by (simp add: get_weight_def run_scale_def)
  have w: "w_weight (get_weight run_scale) = 0x42700000" by (simp add: get_weight_def run_scale_def le32_def)
  have m: "f32_mag 0x42700000 = 0x42700000" "\<not> f32_neg 0x42700000" by (simp_all add: f32_mag_def f32_neg_def)
  have v: "f32_val (f32_of_int 100) = 100 * 2 ^ 149" "f32_finite (f32_of_int 100)" using f32_of_int_val [of 100] by simp_all
  have "f32_finite 0x42700000" "f32_val 0x42700000 < 100 * 2 ^ 149" using m by (simp_all add: f32_finite_def f32_val_def f32_units_def)
  then show "f32_lt (w_weight (get_weight run_scale)) (f32_of_int 100)" using v f32_lt_val unfolding w by simp
qed

lemma run_start: "\<exists>s. app_run run_reply s \<and> shut s \<and> cstr (pw_target s) = ''1234'' \<and> target_weight s = f32_of_int 100"
proof -
  have r: "\<forall>n. reply_ok (run_reply n)" by (simp add: run_reply_def reply_ok_def)
  obtain s s' where s: "app_main run_reply = Some s" "com_main_start (wifi_init 0 [] [] [] [] 0) False s = Some s'" "app_ok s'"
    "g_state s' = (if False then UNLOCKED else LOCKED)" "cstr (pw_target s') = ''1234''" "target_weight s' = f32_of_int 100" "\<not> door_open_old s'"
    using start_ok [OF r, of "[]" "[]" "[]" "[]" 0 0 False] by auto
  have "app_run run_reply s'" by (rule app_run.start [OF s(1,2)])
  then show ?thesis using s(3-7) by (intro exI [of _ s']) (simp add: shut_def)
qed

lemma run_open:
  "\<exists>s s'. app_run run_reply s \<and> com_main_loop (press run_scale (CHR ''*'')) s = Some s' \<and> servo s' = servo s @ [servo_open] \<and> g_state s' = UNLOCKED"
proof -
  obtain s where s: "app_run run_reply s" "shut s" "cstr (pw_target s) = ''1234''" "target_weight s = f32_of_int 100" using run_start by blast
  obtain s1 s' where s1: "rounds (map (press run_scale) (CHR ''#'' # cstr (pw_target s))) s = Some s1"
    "com_main_loop (press run_scale (CHR ''*'')) s1 = Some s'" "g_state s' = UNLOCKED" "servo s' = servo s1 @ [servo_open]"
    using open_lemma [OF s(2), of run_scale] s(3,4) run_scale_ok by auto
  then show ?thesis using rounds_run [OF s(1) s1(1)] by blast
qed



text \<open>C2: The servo is where the state says: after any round of any run, the last command to the servo is the one that opens if the
  state is UNLOCKED and the one that closes otherwise, the two variables of the state machine agree with the state, and the
  password fits the comparison.\<close>

theorem lock_position:
  assumes "app_run reply s" "com_main_loop i s = Some s'"
  shows "servo s' \<noteq> [] \<and> last (servo s') = (if g_state s' = UNLOCKED then servo_open else servo_close) \<and>
    g_state s' \<in> {LOCKED, UNLOCKED} \<and> old_state s' = g_state s' \<and> next_state s' = g_state s' \<and>
    password_evaluate s' = (cstr (pw_guess s') = cstr (pw_target s'))"
  using assms by (rule lock_position_lemma)

theorem lock_position_witness:
  "\<exists>s s'. app_run run_reply s \<and> com_main_loop (press run_scale (CHR ''*'')) s = Some s' \<and> g_state s' = UNLOCKED \<and> last (servo s') = servo_open"
proof -
  obtain s s' where s: "app_run run_reply s" "com_main_loop (press run_scale (CHR ''*'')) s = Some s'" "g_state s' = UNLOCKED"
    using run_open by blast
  then show ?thesis using lock_position [OF s(1,2)] by (intro exI [of _ s] exI [of _ s']) simp
qed





text \<open>C5: A long answer of the network overruns the buffer of \<open>printf2\<close>: if the body of a reply has 299 characters or more, the
  request does not return.\<close>

theorem long_reply_overruns:
  assumes "http_reply s (http_n s) = Inr body" "299 \<le> length (cstr body)"
  shows "http_get url s = None"
proof -
  have k: "http_reply s' = http_reply s \<and> http_n s' = http_n s" if "printf2 t s = Some s'" for t s s'
    using that by (auto simp: printf2_def printOLED_def emit_def split: bind_splits prod.splits)
  have o: "printf2 (cstr body @ [NL]) s' = None" for s'
    using assms(2) by (simp add: printf2_def c_sprintf_def cstr_append2)
  have h: "http_send u t = None" if "http_reply t = http_reply s" "http_n t = http_n s" for u t
    using assms(1) o that by (auto simp: http_send_def Let_def split: bind_splits)
  show ?thesis unfolding http_get_def
    using k h by (auto split: bind_splits)
qed

theorem long_reply_overruns_witness:
  "http_get ''http://x'' (app_zero (\<lambda>_. Inr (replicate 299 (CHR ''a'')))) = None"
proof (rule long_reply_overruns)
  show "http_reply (app_zero (\<lambda>_. Inr (replicate 299 (CHR ''a'')))) (http_n (app_zero (\<lambda>_. Inr (replicate 299 (CHR ''a''))))) = Inr (replicate 299 (CHR ''a''))"
    by (simp add: app_zero_def)
  have "cstr (replicate 299 (CHR ''a'')) = replicate 299 (CHR ''a'')" by (rule cstr_id) simp
  then show "299 \<le> length (cstr (replicate 299 (CHR ''a'')))" by (simp only: length_replicate)
qed

text \<open>C6: Typing after a reset: whatever is typed, no buffer is overrun, and the guess is the first 19 characters; it is accepted
  exactly if they are the password.\<close>

theorem password_guess:
  assumes "pw_ok s" "NUL \<notin> set cs"
  shows "\<exists>s1 s'. password_reset s = Some s1 \<and> type_keys cs s1 = Some s' \<and> pw_ok s' \<and> c_str (pw_guess s') = Some (take 19 cs) \<and>
    password_evaluate s' = (take 19 cs = cstr (pw_target s))"
  using assms by (rule password_guess_lemma)

theorem password_guess_witness:
  "\<exists>s1 s'. password_reset ((app_zero run_reply)\<lparr>pw_target := ''1234'' @ replicate 16 NUL\<rparr>) = Some s1 \<and> type_keys ''1234'' s1 = Some s' \<and> password_evaluate s'"
proof -
  define s where "s = (app_zero run_reply)\<lparr>pw_target := ''1234'' @ replicate 16 NUL\<rparr>"
  have c: "replicate 16 NUL = NUL # replicate 15 NUL" "replicate 20 NUL = NUL # replicate 19 NUL" by (simp_all add: eval_nat_numeral)
  have t: "cstr (pw_target s) = ''1234''" by (simp add: s_def c)
  have "pw_ok s" by (simp add: pw_ok_def s_def app_zero_def c)
  then have "\<exists>s1 s'. password_reset s = Some s1 \<and> type_keys ''1234'' s1 = Some s' \<and> pw_ok s' \<and> c_str (pw_guess s') = Some (take 19 ''1234'') \<and>
    password_evaluate s' = (take 19 ''1234'' = cstr (pw_target s))"
    by (rule password_guess) simp
  then show ?thesis unfolding t unfolding s_def by auto
qed



end
