(* ===== verification/Weight.thy ===== *)
theory Weight
  imports PrintfWrapper
begin

text \<open>
  \<open>Weight.cpp\<close>: the receiver of the signal of the scale.  The signal is a pulse per bit, short for 1; after a silence of
  30 ms the bits received are a frame if they are 39.  The handlers run as events of a queue: an edge of the pin, or an
  expired timeout, puts the event of its handler into the queue, and the event thread takes them out one by one.
\<close>

datatype sc_event = Ev_rise | Ev_fall | Ev_timeout | Ev_restart

record scale =
  sc_bh :: u32
  sc_bl :: u32
  sc_cnt :: u32
  \<comment> \<open>the handlers of the pin p, the timeouts t2 and t3\<close>
  sc_on_rise :: bool
  sc_on_fall :: bool
  sc_t2 :: bool
  sc_t3 :: bool
  sc_queue :: "sc_event list"
  sc_app :: app

abbreviation TAB :: char where "TAB \<equiv> CHR 0x09"

section \<open>Numbers as text\<close>

fun itob_loop :: "u64 \<Rightarrow> u64 \<Rightarrow> nat \<Rightarrow> string" where
  "itob_loop f v 0 = []"
| "itob_loop f v (Suc n) = (if f AND v \<noteq> 0 then CHR ''1'' else CHR ''0'') # itob_loop (drop_bit 1 f) v n"

text \<open>For a negative \<open>n\<close>: the digits from the last, at most \<open>-n\<close>, and their reversal in place.\<close>

fun itob_digits :: "u64 \<Rightarrow> nat \<Rightarrow> string" where
  "itob_digits v 0 = []"
| "itob_digits v (Suc n) =
     char_of (48 + unat (v mod 2)) # (if drop_bit 1 v \<noteq> 0 then itob_digits (drop_bit 1 v) n else [])"

function swap_loop :: "nat \<Rightarrow> nat \<Rightarrow> string \<Rightarrow> string" where
  "swap_loop b e s = (if b < e then swap_loop (b + 1) (e - 1) (s[b := s ! e, e := s ! b]) else s)"
  by auto
termination by (relation "measure (\<lambda>(b, e, s). e - b)") auto

declare swap_loop.simps [simp del]

text \<open>\<open>itob\<close> into a buffer of \<open>m\<close> bytes; a shift by 64 or more is undefined.\<close>

definition itob :: "nat \<Rightarrow> int \<Rightarrow> u64 \<Rightarrow> string option" where
  "itob m n v = do {
     t \<leftarrow> (if 0 < n then if n \<le> 64 then Some (itob_loop (push_bit (nat (n - 1)) 1) v (nat n)) else None
           else if n \<noteq> 0 then (let s = itob_digits v (nat (- n)) in Some (swap_loop 0 (length s - 1) s))
           else Some []);
     if length t < m then Some t else None
   }"

section \<open>A frame\<close>

definition scale_print :: "string \<Rightarrow> scale \<Rightarrow> scale option" where
  "scale_print t sc = do { a \<leftarrow> printf2 t (sc_app sc); Some (sc\<lparr>sc_app := a\<rparr>) }"

definition eee :: "u32 \<Rightarrow> u32 \<Rightarrow> scale \<Rightarrow> scale option" where
  "eee bh bl sc = do {
     let stable = (ucast (drop_bit 18 bh AND 0x03) :: u8);
     let sc = (if stable = 0x03 then sc\<lparr>sc_on_rise := False, sc_on_fall := False, sc_t3 := True\<rparr> else sc);
     s \<leftarrow> itob 64 2 (ucast stable);
     sc \<leftarrow> scale_print s sc;
     sc \<leftarrow> scale_print '' '' sc;
     s \<leftarrow> itob 64 32 (ucast bh);
     sc \<leftarrow> scale_print s sc;
     sc \<leftarrow> scale_print '' '' sc;
     s \<leftarrow> itob 64 32 (ucast bl);
     sc \<leftarrow> scale_print s sc;
     sc \<leftarrow> scale_print [NL] sc;
     if stable = 0x03 then do {
       let weight = f32_div (f32_of_int (uint (bh AND 0xffff))) (f32_of_int 10);
       scale_print (fmt_f False 5 2 weight @ [TAB, NL]) sc
     } else Some sc
   }"

section \<open>The handlers\<close>

definition scale_restart :: "scale \<Rightarrow> scale" where
  "scale_restart sc = sc\<lparr>sc_on_rise := True\<rparr>"

definition scale_timeout :: "scale \<Rightarrow> scale option" where
  "scale_timeout sc =
     (let sc = sc\<lparr>sc_on_rise := False, sc_on_fall := False\<rparr>;
          bh_disp = sc_bh sc; bl_disp = sc_bl sc; cnt_disp = sc_cnt sc;
          sc = sc\<lparr>sc_bh := 0, sc_bl := 0, sc_cnt := 0\<rparr>;
          sc = sc\<lparr>sc_on_rise := True\<rparr>
      in if cnt_disp = 39 then eee bh_disp bl_disp sc else Some sc)"

definition scale_rise :: "scale \<Rightarrow> scale" where
  "scale_rise sc = sc\<lparr>sc_on_rise := False, sc_on_fall := True\<rparr>"

text \<open>The pulse is the time on the timer, in microseconds.  A 1 shifted into the sign of an \<open>int\<close> is what the compiler
  makes of it, the top bit.\<close>

definition scale_fall :: "nat \<Rightarrow> scale \<Rightarrow> scale" where
  "scale_fall pulse sc =
     (let sc = sc\<lparr>sc_on_fall := False, sc_t2 := True\<rparr>;
          bit = (if pulse < 750 then 1 else 0 :: u32);
          sc = (if sc_cnt sc < 32 then sc\<lparr>sc_bh := sc_bh sc OR push_bit (31 - unat (sc_cnt sc)) bit\<rparr>
                else if sc_cnt sc < 64 then sc\<lparr>sc_bl := sc_bl sc OR push_bit (63 - unat (sc_cnt sc)) bit\<rparr>
                else sc)
      in sc\<lparr>sc_cnt := sc_cnt sc + 1, sc_on_rise := True\<rparr>)"

definition weight_init :: "app \<Rightarrow> scale option" where
  "weight_init a = scale_print (''start'' @ [NL])
     \<lparr>sc_bh = 0, sc_bl = 0, sc_cnt = 0, sc_on_rise = False, sc_on_fall = False, sc_t2 = False, sc_t3 = False, sc_queue = [], sc_app = a\<rparr>
     \<bind> (\<lambda>sc. Some (sc\<lparr>sc_on_rise := True\<rparr>))"

text \<open>What happens to the receiver, and what it does.  \<open>Dispatch\<close> is the event thread; its argument is what the timer shows if the
  event is a falling edge.\<close>

datatype sc_input = Edge_up | Edge_down | T2_expires | T3_expires | Dispatch nat

definition scale_step :: "sc_input \<Rightarrow> scale \<Rightarrow> scale option" where
  "scale_step i sc =
     (case i of
        Edge_up \<Rightarrow> Some (if sc_on_rise sc then sc\<lparr>sc_queue := sc_queue sc @ [Ev_rise]\<rparr> else sc)
      | Edge_down \<Rightarrow> Some (if sc_on_fall sc then sc\<lparr>sc_queue := sc_queue sc @ [Ev_fall]\<rparr> else sc)
      | T2_expires \<Rightarrow> Some (if sc_t2 sc then sc\<lparr>sc_t2 := False, sc_queue := sc_queue sc @ [Ev_timeout]\<rparr> else sc)
      | T3_expires \<Rightarrow> Some (if sc_t3 sc then sc\<lparr>sc_t3 := False, sc_queue := sc_queue sc @ [Ev_restart]\<rparr> else sc)
      | Dispatch pulse \<Rightarrow>
          (case sc_queue sc of
             [] \<Rightarrow> Some sc
           | e # q \<Rightarrow>
               (let sc = sc\<lparr>sc_queue := q\<rparr> in
                case e of
                  Ev_rise \<Rightarrow> Some (scale_rise sc)
                | Ev_fall \<Rightarrow> Some (scale_fall pulse sc)
                | Ev_timeout \<Rightarrow> scale_timeout sc
                | Ev_restart \<Rightarrow> Some (scale_restart sc))))"

fun scale_steps :: "sc_input list \<Rightarrow> scale \<Rightarrow> scale option" where
  "scale_steps [] sc = Some sc"
| "scale_steps (i # is) sc = do { sc \<leftarrow> scale_step i sc; scale_steps is sc }"

end
