(* ===== verification/WeightSpec.thy ===== *)
theory WeightSpec
  imports Weight FmtSpec
begin

text \<open>
  What the receiver of the scale promises: the digits it prints are those of the number, a frame of 39 pulses is taken bit by bit,
  frames of other lengths are dropped, and the weight printed is exact although it has been a \<open>float\<close>.
\<close>

section \<open>Digits\<close>

definition bin_val :: "string \<Rightarrow> nat" where
  "bin_val t = foldl (\<lambda>n c. 2 * n + (if c = CHR ''1'' then 1 else 0)) 0 t"

lemma itob_loop_val: "n \<le> 64 \<Longrightarrow> n = 0 \<or> f = push_bit (n - 1) 1 \<Longrightarrow>
    length (itob_loop f v n) = n \<and> set (itob_loop f v n) \<subseteq> {CHR ''0'', CHR ''1''} \<and> bin_val (itob_loop f v n) = unat v mod 2 ^ n"
proof (induction n arbitrary: f)
  case 0
  then show ?case by (simp add: bin_val_def)
next
  case (Suc n)
  have f: "f = push_bit n 1" using Suc.prems(2) by simp
  have b: "f AND v \<noteq> 0 \<longleftrightarrow> bit v n"
    unfolding f push_bit_of_1 by (simp add: and_exp_eq_0_iff_not_bit and.commute [of _ v])
  have d: "n = 0 \<or> drop_bit 1 f = push_bit (n - 1) 1"
    unfolding f using Suc.prems(1) by (cases n) (auto intro!: bit_eqI simp: bit_simps)
  note ih = Suc.IH [OF _ d]
  have acc: "foldl (\<lambda>n c. 2 * n + (if c = CHR ''1'' then 1 else 0)) a t = a * 2 ^ length t + bin_val t" for a t
  proof (induction t rule: rev_induct)
    case (snoc x t)
    then show ?case by (simp add: bin_val_def)
  qed (simp add: bin_val_def)
  have "bin_val (itob_loop f v (Suc n)) = of_bool (bit v n) * 2 ^ n + bin_val (itob_loop (drop_bit 1 f) v n)"
    using acc [of "of_bool (bit v n)" "itob_loop (drop_bit 1 f) v n"] ih Suc.prems(1) b by (cases "bit v n") (simp_all add: bin_val_def)
  moreover have "unat v mod 2 ^ Suc n = of_bool (bit v n) * 2 ^ n + unat v mod 2 ^ n"
  proof -
    have "take_bit (Suc n) (unat v) = push_bit n (of_bool (bit (unat v) n)) + take_bit n (unat v)"
      by (subst take_bit_Suc_from_most) (simp add: push_bit_eq_mult)
    then show ?thesis by (simp add: take_bit_eq_mod push_bit_eq_mult bit_unsigned_iff)
  qed
  ultimately show ?case using ih Suc.prems(1) by simp
qed

text \<open>Numbers in binary: the characters read as a binary number are the low bits of the value.\<close>

lemma itob_binary:
  assumes "0 < n" "n \<le> 64" "nat n < m"
  shows "\<exists>t. itob m n v = Some t \<and> length t = nat n \<and> set t \<subseteq> {CHR ''0'', CHR ''1''} \<and> bin_val t = unat v mod 2 ^ nat n"
proof -
  have "nat (n - 1) = nat n - 1" using assms(1) by simp
  then show ?thesis using itob_loop_val [of "nat n" "push_bit (nat (n - 1)) 1" v] assms by (simp add: itob_def)
qed

text \<open>The other way: the digits of the number, the first one not \<open>0\<close>, at most \<open>-n\<close> of them.\<close>

lemma swap_loop_rev: "e < length s \<Longrightarrow> swap_loop b e s = (if b \<le> e then take b s @ rev (drop b (take (Suc e) s)) @ drop (Suc e) s else s)"
proof (induction b e s rule: swap_loop.induct)
  case (1 b e s)
  show ?case
  proof (cases "b < e")
    case False
    then have "swap_loop b e s = s" by (simp add: swap_loop.simps)
    moreover have "take b s @ rev (drop b (take (Suc b) s)) @ drop (Suc b) s = s" if "b < length s"
      using that by (simp add: take_Suc_conv_app_nth Cons_nth_drop_Suc)
    ultimately show ?thesis using False 1(2) by auto
  next
    case True
    let ?s = "s[b := s ! e, e := s ! b]"
    define m where "m = drop (Suc b) (take e s)"
    have s: "s = take b s @ s ! b # m @ s ! e # drop (Suc e) s"
    proof -
      have "s = take e s @ s ! e # drop (Suc e) s" using 1(2) by (rule id_take_nth_drop)
      moreover have "take e s = take b s @ s ! b # m"
        using id_take_nth_drop [of b "take e s"] True 1(2) by (simp add: m_def min_def)
      ultimately show ?thesis by simp
    qed
    have lb: "length (take b s) = b" using True 1(2) by simp
    have lm: "length m = e - Suc b" using 1(2) by (simp add: m_def)
    have s2: "?s = take b s @ s ! e # m @ s ! b # drop (Suc e) s"
    proof -
      obtain x y p q where x: "x = s ! b" "y = s ! e" "p = take b s" "q = drop (Suc e) s" by blast
      have "s = p @ x # m @ y # q" using s x by simp
      moreover have "e = length p + Suc (length m)" "b = length p" using lb lm True x by simp_all
      ultimately show ?thesis unfolding x [symmetric] by (simp add: list_update_append)
    qed
    have ih: "swap_loop (b + 1) (e - 1) ?s =
        (if b + 1 \<le> e - 1 then take (b + 1) ?s @ rev (drop (b + 1) (take (Suc (e - 1)) ?s)) @ drop (Suc (e - 1)) ?s else ?s)"
      by (rule 1(1) [OF True]) (use 1(2) in simp)
    have e: "Suc (e - 1) = e" "e = Suc b + length m" using True lm by simp_all
    have t: "take (b + 1) ?s = take b s @ [s ! e]" "drop (b + 1) (take e ?s) = m" "drop e ?s = s ! b # drop (Suc e) s"
      unfolding s2 using lb e(2) by (simp_all add: take_append drop_append)
    have "swap_loop b e s = swap_loop (b + 1) (e - 1) ?s" using True by (subst swap_loop.simps) simp
    also have "\<dots> = take b s @ s ! e # rev m @ s ! b # drop (Suc e) s"
    proof (cases "m = []")
      case m: True
      then have "\<not> b + 1 \<le> e - 1" using e(2) by simp
      then show ?thesis using ih s2 m by simp
    next
      case False
      then have "b + 1 \<le> e - 1" using e(2) by (cases m) simp_all
      then show ?thesis using ih t e(1) by simp
    qed
    also have "\<dots> = take b s @ rev (drop b (take (Suc e) s)) @ drop (Suc e) s"
    proof -
      have "drop b (take (Suc e) s) = s ! b # m @ [s ! e]"
        using arg_cong [OF s, of "\<lambda>x. drop b (take (Suc e) x)"] lb e(2) by simp
      then show ?thesis by simp
    qed
    finally show ?thesis using True by simp
  qed
qed

lemma itob_negative: "n < 0 \<Longrightarrow> length (itob_digits v (nat (- n))) < m \<Longrightarrow> itob m n v = Some (rev (itob_digits v (nat (- n))))"
proof -
  assume n: "n < 0" and m: "length (itob_digits v (nat (- n))) < m"
  let ?s = "itob_digits v (nat (- n))"
  obtain k where "nat (- n) = Suc k" using n by (cases "nat (- n)") auto
  then have l: "length ?s - 1 < length ?s" by simp
  then have "swap_loop 0 (length ?s - 1) ?s = rev ?s" using swap_loop_rev [OF l, of 0] by simp
  then show ?thesis using n m by (simp add: itob_def Let_def)
qed

section \<open>A frame\<close>

text \<open>The receiver at rest.\<close>

definition scale_idle :: "scale \<Rightarrow> bool" where
  "scale_idle sc \<longleftrightarrow> sc_bh sc = 0 \<and> sc_bl sc = 0 \<and> sc_cnt sc = 0 \<and> sc_on_rise sc \<and> \<not> sc_on_fall sc \<and> sc_queue sc = []"

text \<open>The bits of pulses, the first one at the top; and the signal of a frame.\<close>

definition pulse_word :: "nat list \<Rightarrow> u32" where
  "pulse_word ps = fold (\<lambda>(k, p) w. w OR push_bit (31 - k) (if p < 750 then 1 else 0)) (enumerate 0 ps) 0"

definition pulse_inputs :: "nat \<Rightarrow> sc_input list" where
  "pulse_inputs p = [Edge_up, Dispatch 0, Edge_down, Dispatch p]"

definition frame_inputs :: "nat list \<Rightarrow> sc_input list" where
  "frame_inputs ps = concat (map pulse_inputs ps) @ [T2_expires, Dispatch 0]"

lemma scale_steps_append: "scale_steps (is @ js) sc = scale_steps is sc \<bind> scale_steps js"
  by (induction "is" arbitrary: sc) (auto split: bind_splits)

text \<open>After the pulses \<open>ps\<close>.\<close>

definition received :: "nat list \<Rightarrow> scale \<Rightarrow> scale" where
  "received ps sc = sc\<lparr>sc_bh := pulse_word (take 32 ps), sc_bl := pulse_word (take 32 (drop 32 ps)), sc_cnt := of_nat (length ps),
     sc_t2 := sc_t2 sc \<or> ps \<noteq> []\<rparr>"

lemma pulse_word_Nil [simp]: "pulse_word [] = 0"
  by (simp add: pulse_word_def)

lemma pulse_word_snoc: "pulse_word (ps @ [p]) = pulse_word ps OR push_bit (31 - length ps) (if p < 750 then 1 else 0)"
  by (simp add: pulse_word_def enumerate_append_eq)

lemma pulse_word_bit: "length ps \<le> 32 \<Longrightarrow> bit (pulse_word ps) n \<longleftrightarrow> n < 32 \<and> 31 - n < length ps \<and> ps ! (31 - n) < 750"
proof (induction ps rule: rev_induct)
  case (snoc p ps)
  have "bit (push_bit (31 - length ps) (if p < 750 then 1 else 0) :: u32) n \<longleftrightarrow> n = 31 - length ps \<and> p < 750"
    using snoc.prems by (auto simp: bit_simps)
  then have "bit (pulse_word (ps @ [p])) n \<longleftrightarrow> (n < 32 \<and> 31 - n < length ps \<and> ps ! (31 - n) < 750) \<or> (n = 31 - length ps \<and> p < 750)"
    using snoc by (simp add: pulse_word_snoc bit_or_iff)
  then show ?case using snoc.prems by (auto simp: nth_append)
qed simp

lemma received_snoc:
  assumes "length ps < 64" "scale_idle sc"
  shows "scale_steps (pulse_inputs p) (received ps sc) = Some (received (ps @ [p]) sc)"
proof -
  have c: "unat (of_nat (length ps) :: u32) = length ps" using assms(1) by (simp add: unat_of_nat)
  have lt: "(of_nat (length ps) :: u32) < 32 \<longleftrightarrow> length ps < 32" "(of_nat (length ps) :: u32) < 64"
    using assms(1) c by (simp_all add: word_less_nat_alt)
  have r: "scale_rise (received ps sc) = (received ps sc)\<lparr>sc_on_rise := False, sc_on_fall := True\<rparr>" by (simp add: scale_rise_def)
  show ?thesis
  proof (cases "length ps < 32")
    case True
    then show ?thesis using assms(2) lt c
      by (simp add: pulse_inputs_def scale_step_def scale_rise_def scale_fall_def received_def scale_idle_def pulse_word_snoc Let_def)
  next
    case False
    then have "take 32 (drop 32 (ps @ [p])) = take 32 (drop 32 ps) @ [p]" "63 - length ps = 31 - length (take 32 (drop 32 ps))"
      using assms(1) by simp_all
    then show ?thesis using assms lt c False
      by (simp add: pulse_inputs_def scale_step_def scale_rise_def scale_fall_def received_def scale_idle_def pulse_word_snoc Let_def)
  qed
qed

lemma received_all: "length ps \<le> 64 \<Longrightarrow> scale_idle sc \<Longrightarrow> scale_steps (concat (map pulse_inputs ps)) sc = Some (received ps sc)"
proof (induction ps rule: rev_induct)
  case Nil
  then show ?case by (simp add: received_def scale_idle_def)
next
  case (snoc p ps)
  then show ?case using received_snoc [of ps sc p] by (simp add: scale_steps_append)
qed

lemma scale_frame_lemma:
  assumes "scale_idle sc" "ps \<noteq> []" "length ps \<le> 64"
  shows "scale_steps (frame_inputs ps) sc =
    (if length ps = 39 then eee (pulse_word (take 32 ps)) (pulse_word (drop 32 ps)) (sc\<lparr>sc_t2 := False\<rparr>) else Some (sc\<lparr>sc_t2 := False\<rparr>))"
proof -
  have c: "(of_nat (length ps) :: u32) = 39 \<longleftrightarrow> length ps = 39"
    using assms(3) by (simp add: word_unat_eq_iff unat_of_nat)
  have s: "sc\<lparr>sc_t2 := False, sc_queue := [], sc_on_fall := False, sc_bh := 0, sc_bl := 0, sc_cnt := 0, sc_on_rise := True\<rparr> = sc\<lparr>sc_t2 := False\<rparr>"
    using assms(1) by (simp add: scale_idle_def)
  have n: "m \<bind> scale_steps [] = m" for m by (cases m) simp_all
  show ?thesis unfolding frame_inputs_def scale_steps_append received_all [OF assms(3,1)] bind.bind_lunit
    using assms(1,2) c n by (simp add: scale_step_def received_def scale_idle_def scale_timeout_def Let_def) (simp only: s simp_thms)
qed

section \<open>The weight as text\<close>

text \<open>Rounding is off by at most half a unit in the last place.\<close>

lemma f32_scale_near:
  "f32_scale n d k = (D, k') \<Longrightarrow> 0 < d \<Longrightarrow> \<exists>j. k' = k + j \<and> D = d * 2 ^ j \<and> n div D < 2 ^ 24 \<and> (j = 0 \<or> 2 ^ 23 * D \<le> n)"
proof (induction n d k rule: f32_scale.induct)
  case (1 n d k)
  show ?case
  proof (cases "n div d < 2 ^ 24")
    case True
    then show ?thesis using 1(2) by (simp add: f32_scale.simps)
  next
    case False
    then have s: "f32_scale n (2 * d) (Suc k) = (D, k')" using 1(2) by (subst (asm) f32_scale.simps) simp
    obtain j where j: "k' = Suc k + j" "D = 2 * d * 2 ^ j" "n div D < 2 ^ 24" "j = 0 \<or> 2 ^ 23 * D \<le> n"
      using 1(1) [OF False s] 1(3) by auto
    have "2 ^ 24 * d \<le> n" using False 1(3) by (simp add: less_eq_div_iff_mult_less_eq not_less)
    then have "2 ^ 23 * D \<le> n" using j(2,4) by auto
    then show ?thesis using j by (intro exI [of _ "Suc j"]) simp
  qed
qed

lemma rne_near: "0 < d \<Longrightarrow> 2 * \<bar>int (rne n d * d) - int n\<bar> \<le> int d"
proof -
  assume d: "0 < d"
  define q r where "q = n div d" and "r = n mod d"
  have n: "n = q * d + r" "r < d" using d by (simp_all add: q_def r_def)
  show ?thesis
  proof (cases "d < 2 * r \<or> (d = 2 * r \<and> odd q)")
    case True
    then have "rne n d = q + 1" by (simp add: rne_def q_def r_def)
    then have "int (rne n d * d) - int n = int d - int r" using n(1) by (simp add: algebra_simps)
    then show ?thesis using n(2) True by auto
  next
    case False
    then have "rne n d = q" by (auto simp: rne_def q_def r_def)
    then show ?thesis using n(1) False by auto
  qed
qed

lemma rne_unique: "0 < d \<Longrightarrow> 2 * \<bar>int n - int (q * d)\<bar> < int d \<Longrightarrow> rne n d = q"
proof -
  assume d: "0 < d" and h: "2 * \<bar>int n - int (q * d)\<bar> < int d"
  have tri: "2 * \<bar>a - c\<bar> \<le> e \<Longrightarrow> 2 * \<bar>c - b\<bar> < e \<Longrightarrow> 2 * \<bar>a - b\<bar> < 2 * e" for a b c e :: int
    by (auto simp: abs_if split: if_splits)
  have "2 * \<bar>int (rne n d * d) - int (q * d)\<bar> < 2 * int d" by (rule tri [OF rne_near [OF d] h])
  then have "\<bar>(int (rne n d) - int q) * int d\<bar> < 1 * int d" by (simp add: algebra_simps)
  then have "\<bar>int (rne n d) - int q\<bar> < 1" using d unfolding abs_mult by simp
  then show ?thesis by simp
qed

lemma f32_pack_near:
  assumes d: "0 < d" and b: "f32_pack n d < 0x7F800000"
  shows "\<exists>j. 2 * \<bar>int (f32_units (f32_pack n d) * d) - int n\<bar> \<le> int (d * 2 ^ j) \<and> (j = 0 \<or> 2 ^ 23 * (d * 2 ^ j) \<le> n)"
proof -
  obtain D k where s: "f32_scale n d 0 = (D, k)" by fastforce
  have D: "D = d * 2 ^ k" "n div D < 2 ^ 24" "k = 0 \<or> 2 ^ 23 * D \<le> n" using f32_scale_near [OF s d] by auto
  have D0: "0 < D" using d D(1) by simp
  define r where "r = rne n D"
  have p: "f32_pack n d = k * 2 ^ 23 + r" using b s by (simp add: f32_pack_def Let_def r_def split: if_splits)
  have r1: "r \<le> 2 ^ 24" using D(2) by (simp add: r_def rne_def Let_def)
  have r2: "2 ^ 23 \<le> r" if "k \<noteq> 0"
  proof -
    have "2 ^ 23 \<le> n div D" using D(3) that D0 by (simp add: less_eq_div_iff_mult_less_eq)
    then show ?thesis by (simp add: r_def rne_def Let_def)
  qed
  have u: "f32_units (k * 2 ^ 23 + r) = r * 2 ^ k"
  proof (cases "r < 2 ^ 23")
    case True
    then have "k = 0" using r2 by (cases "k = 0") simp_all
    then show ?thesis using True by (simp add: f32_units_def)
  next
    case False
    define e where "e = r - 2 ^ 23"
    have r: "r = 2 ^ 23 + e" "e \<le> 2 ^ 23" using False r1 by (simp_all add: e_def)
    have m: "k * 2 ^ 23 + r = Suc k * 2 ^ 23 + e" using r(1) by simp
    show ?thesis
    proof (cases "e = 2 ^ 23")
      case True
      then have "k * 2 ^ 23 + r = Suc (Suc k) * 2 ^ 23" using m by simp
      moreover have "f32_units (Suc (Suc k) * 2 ^ 23) = 2 ^ 24 * 2 ^ k"
        unfolding f32_units_def by (simp only: nonzero_mult_div_cancel_right mod_mult_self2_is_0) simp
      ultimately show ?thesis using True r(1) by (simp only:) simp
    next
      case False
      then have e: "e < 2 ^ 23" using r(2) by simp
      have "(Suc k * 2 ^ 23 + e) mod 2 ^ 23 = e" by (simp only: mod_mult_self3 mod_less [OF e])
      moreover have "(Suc k * 2 ^ 23 + e) div 2 ^ 23 = Suc k" using e by simp
      ultimately have "f32_units (Suc k * 2 ^ 23 + e) = (2 ^ 23 + e) * 2 ^ k" unfolding f32_units_def by simp
      then show ?thesis using r(1) m by (simp only:)
    qed
  qed
  have e: "f32_units (f32_pack n d) * d = rne n D * D" unfolding p u unfolding r_def by (simp add: D(1))
  have "2 * \<bar>int (f32_units (f32_pack n d) * d) - int n\<bar> \<le> int D" unfolding e by (rule rne_near [OF D0])
  then show ?thesis using D(1,3) by blast
qed

lemma f32_pack_le: "f32_pack n d \<le> 0x7F800000"
  by (simp add: f32_pack_def split_def Let_def)

text \<open>The scale counts tenths of a kilogram; the division is inexact, and printed with two decimals it is exact again.\<close>

lemma weight_text:
  assumes t: "t < 2 ^ 16"
  shows "fmt_f False 5 2 (f32_div (f32_of_int (int t)) (f32_of_int 10)) =
    fmt_pad False 5 [] (dec (t div 10) @ [CHR ''.'', digit (t mod 10), CHR ''0''])"
proof -
  define P where "P = (2 ^ 149 :: nat)"
  have P0: "0 < P" by (simp add: P_def)
  define n d where "n = t * P * P" and "d = 10 * P"
  have d0: "0 < d" using P0 by (simp add: d_def)
  have va: "f32_val (f32_of_int (int t)) = int (t * P)" "f32_finite (f32_of_int (int t))"
    using f32_of_int_val [of "int t"] t by (simp_all add: P_def)
  have vb: "f32_val (f32_of_int 10) = int (10 * P)" "f32_finite (f32_of_int 10)"
    using f32_of_int_val [of 10] by (simp_all add: P_def)
  obtain D k where s: "f32_scale n d 0 = (D, k)" by fastforce
  have D: "D = d * 2 ^ k" "n div D < 2 ^ 24" "k = 0 \<or> 2 ^ 23 * D \<le> n" using f32_scale_near [OF s d0] by auto
  have k: "k < 160"
  proof (rule ccontr)
    assume "\<not> k < 160"
    then have k: "160 \<le> k" by simp
    then have "2 ^ 160 \<le> (2 ^ k :: nat)" by (intro power_increasing) simp_all
    then have "2 ^ 23 * (10 * P * 2 ^ 160) \<le> 2 ^ 23 * D" unfolding D(1) d_def by (intro mult_le_mono) simp_all
    also have "\<dots> \<le> n" using D(3) k by simp
    also have "\<dots> \<le> 2 ^ 16 * P * P" unfolding n_def using t by (intro mult_le_mono) simp_all
    finally show False by (simp add: P_def)
  qed
  define b where "b = f32_pack n d"
  have b: "b < 0x7F800000"
  proof -
    have "rne n D \<le> 2 ^ 24" using D(2) by (simp add: rne_def Let_def)
    then have "k * 2 ^ 23 + rne n D < 0x7F800000" using k by simp
    then show ?thesis using s by (simp add: b_def f32_pack_def)
  qed
  define x where "x = f32_div (f32_of_int (int t)) (f32_of_int 10)"
  have sg: "\<not> f32_neg (f32_of_int (int i))" for i
  proof -
    have "f32_of_int (int i) = f32_signed False (f32_pack (nat \<bar>int i * 2 ^ 149\<bar>) 1)"
    proof -
      have "\<not> int i * 2 ^ 149 < 0" by (simp add: not_less)
      then show ?thesis unfolding f32_of_int_def f32_round_def by (simp only: if_False if_cancel)
    qed
    moreover have "f32_pack (nat \<bar>int i * 2 ^ 149\<bar>) 1 < 2 ^ 31" by (rule le_less_trans [OF f32_pack_le]) simp
    ultimately show ?thesis using f32_signed_fields(1) by metis
  qed
  have fin: "\<not> f32_nan y" "\<not> f32_inf y" if "f32_finite y" for y using that by (simp_all add: f32_nan_def f32_inf_def f32_finite_def)
  have i: "int t * int P * 2 ^ 149 = int n" by (simp add: n_def P_def)
  have "x = f32_round False (int n) d"
    unfolding x_def f32_div_def Let_def using fin [OF va(2)] fin [OF vb(2)] sg [of t] sg [of 10] va(1) vb(1) P0 i by (simp add: d_def nat_mult_distrib)
  then have x: "x = f32_signed False b" by (simp add: f32_round_def b_def)
  have xf: "\<not> f32_neg x" "f32_mag x = b" unfolding x using f32_signed_fields [of b False] b by simp_all
  then have xv: "f32_val x = int (f32_units b)" "\<not> f32_nan x" "\<not> f32_inf x" using b by (simp_all add: f32_val_def f32_nan_def f32_inf_def)
  define u where "u = f32_units b"
  obtain j where j: "2 * \<bar>int (u * d) - int n\<bar> \<le> int (d * 2 ^ j)" "j = 0 \<or> 2 ^ 23 * (d * 2 ^ j) \<le> n"
    using f32_pack_near [OF d0, of n] b unfolding u_def b_def by blast
  have dj: "d * 2 ^ j \<le> 2 ^ 142 * P"
  proof (cases "j = 0")
    case True
    then show ?thesis by (simp add: d_def)
  next
    case False
    then have "2 ^ 23 * (d * 2 ^ j) \<le> n" using j(2) by blast
    also have "n \<le> 2 ^ 16 * P * P" unfolding n_def using t by (intro mult_le_mono) simp_all
    also have "\<dots> = 2 ^ 23 * (2 ^ 142 * P)" by (simp add: P_def)
    finally show ?thesis by simp
  qed
  have e: "int (u * d) - int n = int P * (int (u * 10) - int (t * P))" by (simp add: d_def n_def algebra_simps)
  have "2 * (int P * \<bar>int (u * 10) - int (t * P)\<bar>) \<le> int (2 ^ 142 * P)"
    using j(1) dj unfolding e abs_mult by (simp only: abs_of_nat of_nat_le_iff [symmetric, where 'a = int])
  then have "int P * (2 * \<bar>int (u * 10) - int (t * P)\<bar>) \<le> int P * 2 ^ 142" by (simp add: algebra_simps)
  then have c: "2 * \<bar>int (u * 10) - int (t * P)\<bar> \<le> 2 ^ 142" using P0 by simp
  have "2 * \<bar>int (u * 100) - int (t * 10 * P)\<bar> < int P"
  proof -
    have f: "int (u * 100) - int (t * 10 * P) = 10 * (int (u * 10) - int (t * P))" by simp
    show ?thesis unfolding f abs_mult using c by (simp add: P_def)
  qed
  then have r: "rne (u * 100) P = t * 10" by (rule rne_unique [OF P0])
  have "fmt_f False 5 2 x = fmt_pad False 5 [] (fmt_fixed 2 (t * 10))"
    using r xf(1) xv by (simp add: fmt_f_def u_def P_def)
  moreover have "fmt_fixed 2 (t * 10) = dec (t div 10) @ [CHR ''.'', digit (t mod 10), CHR ''0'']"
  proof -
    have q: "t * 10 div 10 ^ 2 = t div 10" "t * 10 mod 10 ^ 2 = t mod 10 * 10"
      by simp (simp only: power2_eq_square mod_mult_mult2)
    have z: "digit 0 = CHR ''0''" by (simp add: digit_def char_of_eq_iff take_bit_eq_mod)
    have one: "dec m = [digit m]" if "m < 10" for m by (subst dec.simps) (simp add: that)
    have "replicate (2 - length (dec (m * 10))) CHR ''0'' @ dec (m * 10) = [digit m, CHR ''0'']" if m: "m < 10" for m
    proof (cases "m = 0")
      case True
      then show ?thesis using one [of 0] z by simp
    next
      case False
      then have "dec (m * 10) = dec m @ [digit 0]" by (subst dec.simps) simp
      then show ?thesis using one [OF m] z by simp
    qed
    then show ?thesis using q by (simp add: fmt_fixed_def Let_def)
  qed
  ultimately show ?thesis by (simp add: x_def)
qed

lemma weight_init_idle: "oled_ok a \<Longrightarrow> \<exists>sc. weight_init a = Some sc \<and> scale_idle sc \<and> oled_ok (sc_app sc)"
proof -
  assume a: "oled_ok a"
  obtain b where b: "printf2 (''start'' @ [NL]) a = Some b" "oled_ok b"
    using printf2_shows_lemma [OF a, of "''start'' @ [NL]"] by auto
  then show ?thesis by (simp add: weight_init_def scale_print_def scale_idle_def)
qed

section \<open>What a frame prints\<close>

definition printed :: "scale \<Rightarrow> string list" where
  "printed sc = serial (out (sc_app sc))"

text \<open>Only the application's state changes, and the text is sent.\<close>

definition same_receiver :: "scale \<Rightarrow> scale \<Rightarrow> bool" where
  "same_receiver sc sc' \<longleftrightarrow> sc' = sc\<lparr>sc_app := sc_app sc'\<rparr>"

interpretation scale_out: text_sink scale_print "\<lambda>sc. oled_ok (sc_app sc)" printed same_receiver
proof unfold_locales
  fix sc :: scale and t assume "oled_ok (sc_app sc)" "plain t" "length t < 300"
  then obtain a where a: "printf2 t (sc_app sc) = Some a" "oled_ok a" "\<exists>l. out a = out (sc_app sc) @ [Serial t, Oled l]"
    using printf2_shows_lemma [of "sc_app sc" t] by (auto simp: Let_def)
  then show "\<exists>sc'. scale_print t sc = Some sc' \<and> oled_ok (sc_app sc') \<and> printed sc' = printed sc @ [t] \<and> same_receiver sc sc'"
    by (auto simp: scale_print_def printed_def serial_append same_receiver_def)
next
  show "same_receiver sc sc" for sc by (simp add: same_receiver_def)
  show "same_receiver sc s2" if "same_receiver sc s1" "same_receiver s1 s2" for sc s1 s2
  proof -
    have 1: "s2 = s1\<lparr>sc_app := sc_app s2\<rparr>" and 2: "s1 = sc\<lparr>sc_app := sc_app s1\<rparr>" using that unfolding same_receiver_def by simp_all
    have "s1\<lparr>sc_app := sc_app s2\<rparr> = sc\<lparr>sc_app := sc_app s2\<rparr>" by (subst 2) simp
    then show ?thesis using 1 unfolding same_receiver_def by simp
  qed
qed

definition bits_text :: "nat \<Rightarrow> u64 \<Rightarrow> string" where
  "bits_text n v = itob_loop (push_bit (n - 1) 1) v n"

lemma bits_text_ok: "0 < n \<Longrightarrow> n \<le> 63 \<Longrightarrow> itob 64 (int n) v = Some (bits_text n v) \<and> plain (bits_text n v) \<and> length (bits_text n v) = n"
proof -
  assume n: "0 < n" "n \<le> 63"
  have e: "itob 64 (int n) v = Some (bits_text n v)"
    using n itob_loop_val [of n "push_bit (n - 1) 1" v] by (simp add: itob_def bits_text_def nat_diff_distrib)
  then show ?thesis using itob_binary [of "int n" 64 v] n by (auto simp: plain_def)
qed

definition weight_line :: "nat \<Rightarrow> string" where
  "weight_line t = fmt_pad False 5 [] (dec (t div 10) @ [CHR ''.'', digit (t mod 10), CHR ''0'']) @ [TAB, NL]"

lemma eee_lemma:
  assumes "oled_ok (sc_app sc)" and st: "st = drop_bit 18 bh AND (3 :: u32)"
  shows "\<exists>a. eee bh bl sc = Some ((if st = 3 then sc\<lparr>sc_on_rise := False, sc_on_fall := False, sc_t3 := True\<rparr> else sc)\<lparr>sc_app := a\<rparr>) \<and> oled_ok a \<and>
    serial (out a) = printed sc @ [bits_text 2 (ucast st), '' '', bits_text 32 (ucast bh), '' '', bits_text 32 (ucast bl), [NL]] @
      (if st = 3 then [weight_line (unat (bh AND 0xffff))] else [])"
proof -
  define u where "u = (if st = 3 then sc\<lparr>sc_on_rise := False, sc_on_fall := False, sc_t3 := True\<rparr> else sc)"
  have s8: "ucast (ucast st :: u8) = (ucast st :: u64)" "(ucast st :: u8) = 3 \<longleftrightarrow> st = 3"
  proof -
    have b: "bit st n \<longleftrightarrow> n < 2 \<and> bit bh (n + 18)" for n
    proof -
      have "(3 :: u32) = mask 2" by (simp add: mask_eq_exp_minus_1)
      then have s: "st = take_bit 2 (drop_bit 18 bh)" unfolding st by (simp only: take_bit_eq_mask)
      show ?thesis unfolding s by (auto simp: bit_simps add.commute)
    qed
    show "ucast (ucast st :: u8) = (ucast st :: u64)"
      by (rule bit_eqI) (auto simp: bit_simps b)
    have r: "ucast (ucast st :: u8) = st" by (rule bit_eqI) (auto simp: bit_simps b)
    show "(ucast st :: u8) = 3 \<longleftrightarrow> st = 3"
    proof
      assume "(ucast st :: u8) = 3"
      then have "ucast (ucast st :: u8) = (3 :: u32)" by simp
      then show "st = 3" using r by simp
    qed simp
  qed
  let ?ts = "[bits_text 2 (ucast st), '' '', bits_text 32 (ucast bh), '' '', bits_text 32 (ucast bl), [NL]] @
      (if st = 3 then [weight_line (unat (bh AND 0xffff))] else [])"
  note b2 = bits_text_ok [of 2 "ucast st", simplified] and bh = bits_text_ok [of 32 "ucast bh", simplified] and bl = bits_text_ok [of 32 "ucast bl", simplified]
  have t16: "unat (bh AND 0xffff) < 2 ^ 16"
    using word_and_le1 [of bh "0xffff"] by (simp add: word_le_nat_alt)
  have w: "fmt_f False 5 2 (f32_div (f32_of_int (uint (bh AND 0xffff))) (f32_of_int 10)) @ [TAB, NL] = weight_line (unat (bh AND 0xffff))"
    using weight_text [OF t16] by (simp add: weight_line_def)
  have i1: "itob 64 2 (ucast (ucast st :: u8)) = Some (bits_text 2 (ucast st))" using b2 s8(1) by simp
  have i2: "itob 64 32 (ucast bh) = Some (bits_text 32 (ucast bh))" "itob 64 32 (ucast bl) = Some (bits_text 32 (ucast bl))" using bh bl by simp_all
  have e: "eee bh bl sc = send_all scale_print ?ts u"
    unfolding eee_def Let_def st [symmetric] i1 i2 s8(2) w bind.bind_lunit u_def [symmetric]
    by (cases "st = 3") (simp_all add: send_all_fun Option.bind_runit del: send_all.simps)
  have pw: "plain (weight_line (unat (bh AND 0xffff)))" "length (weight_line (unat (bh AND 0xffff))) < 300"
    unfolding w [symmetric]
    using length_fmt_f [of False 5 2 "f32_div (f32_of_int (uint (bh AND 0xffff))) (f32_of_int 10)"] by simp_all
  have "\<exists>s'. send_all scale_print ?ts u = Some s' \<and> oled_ok (sc_app s') \<and> printed s' = printed u @ ?ts \<and> same_receiver u s'"
    by (rule scale_out.send_all_ok) (use assms(1) b2 bh bl pw in \<open>simp_all add: u_def\<close>)
  then obtain s' where s': "send_all scale_print ?ts u = Some s'" "oled_ok (sc_app s')" "printed s' = printed u @ ?ts" "s' = u\<lparr>sc_app := sc_app s'\<rparr>"
    unfolding same_receiver_def by blast
  have "\<exists>a. send_all scale_print ?ts u = Some (u\<lparr>sc_app := a\<rparr>) \<and> oled_ok a \<and> serial (out a) = printed u @ ?ts"
    using s'(1-3) s'(4) unfolding printed_def by (intro exI [of _ "sc_app s'"]) simp
  moreover have "printed u = printed sc" by (simp add: u_def printed_def)
  ultimately show ?thesis unfolding e u_def [symmetric] by (simp only:)
qed

section \<open>The properties\<close>


definition scale_rest :: scale where
  "scale_rest = \<lparr>sc_bh = 0, sc_bl = 0, sc_cnt = 0, sc_on_rise = True, sc_on_fall = False, sc_t2 = False, sc_t3 = False, sc_queue = [],
     sc_app = \<lparr>pw_target = [], pw_guess = [], pw_index = 0, g_state = INIT, old_state = INIT, next_state = INIT, target_weight = 0,
       weights_old = \<lparr>w_stable = 0, w_weight = 0\<rparr>, door_open_old = False, target_weight_old = 0, timeout1 = False,
       oled_j = 0, oled_str = replicate 8 (replicate 300 NUL), http_reply = \<lambda>_. Inl 0, http_n = 0, http_live = 0, out = []\<rparr>\<rparr>"

lemma scale_rest_ok: "scale_idle scale_rest" "oled_ok (sc_app scale_rest)"
proof -
  show "scale_idle scale_rest" by (simp add: scale_idle_def scale_rest_def)
  have p: "set (replicate 8 (replicate 300 NUL)) = {replicate 300 NUL}" "NUL \<in> set (replicate 300 NUL)" "length (replicate 300 NUL) = 300"
    by simp_all
  show "oled_ok (sc_app scale_rest)" unfolding oled_ok_def scale_rest_def scale.simps app.simps p(1) using p(2,3) by simp
qed




end
