(* ===== verification/PsPad.thy ===== *)
theory PsPad
  imports Prelude
begin

text \<open>
  \<open>PS_PAD.cpp\<close>: a PlayStation controller on the SPI bus.  The bus is a parameter: \<open>spi d w\<close> is the state of the device after the
  word \<open>w\<close> is written and the word read meanwhile.  The pads sends and expects the low bit first, the bus the high one.
\<close>

type_synonym 'd spi = "'d \<Rightarrow> u32 \<Rightarrow> 'd \<times> u32"

datatype pad_type =
    PAD_LEFT | PAD_BOTTOM | PAD_RIGHT | PAD_TOP | PAD_START | ANALOG_LEFT | ANALOG_RIGHT | PAD_SELECT
  | PAD_SQUARE | PAD_X | PAD_CIRCLE | PAD_TRIANGLE | PAD_R1 | PAD_L1 | PAD_R2 | PAD_L2
  | BUTTONS | ANALOG_RX | ANALOG_RY | ANALOG_LX | ANALOG_LY

record 'd pad =
  pd_pad :: "u8 list"
  pd_vib1 :: int
  pd_vib2 :: int
  pd_connected :: bool
  pd_cs :: bool
  pd_spi :: 'd

text \<open>The first line shifts an \<open>int\<close>, the others are unsigned because of the constants.\<close>

definition rbit :: "u32 \<Rightarrow> u32" where
  "rbit v =
     (let v = signed_drop_bit 16 v OR push_bit 16 v;
          v = drop_bit 8 (v AND 0xff00ff00) OR push_bit 8 (v AND 0x00ff00ff);
          v = drop_bit 4 (v AND 0xf0f0f0f0) OR push_bit 4 (v AND 0x0f0f0f0f);
          v = drop_bit 2 (v AND 0xcccccccc) OR push_bit 2 (v AND 0x33333333);
          v = drop_bit 1 (v AND 0xaaaaaaaa) OR push_bit 1 (v AND 0x55555555)
      in v)"

text \<open>The loop of \<open>send\<close>: command, place in the answer, answer.\<close>

fun send_loop :: "'d spi \<Rightarrow> u8 list \<Rightarrow> nat \<Rightarrow> u8 list \<Rightarrow> 'd \<Rightarrow> (u8 list \<times> 'd) option" where
  "send_loop spi [] i dat d = Some (dat, d)"
| "send_loop spi (c # cmd) i dat d =
     (let (d, r) = spi d (rbit (push_bit 24 (ucast c))) in
      if i < length dat then send_loop spi cmd (Suc i) (dat[i := ucast (rbit (push_bit 24 r))]) d else None)"

definition pad_send :: "'d spi \<Rightarrow> u8 list \<Rightarrow> nat \<Rightarrow> u8 list \<Rightarrow> 'd pad \<Rightarrow> (nat \<times> u8 list \<times> 'd pad) option" where
  "pad_send spi cmd len dat s = do {
     let s = s\<lparr>pd_cs := False\<rparr>;
     _ \<leftarrow> (if len \<le> length cmd then Some () else None);
     (dat, d) \<leftarrow> send_loop spi (take len cmd) 0 dat (pd_spi s);
     Some (len, dat, s\<lparr>pd_spi := d, pd_cs := True\<rparr>)
   }"

text \<open>The constructors; the six bytes are not initialised.\<close>

definition pad_new :: "u8 list \<Rightarrow> 'd \<Rightarrow> 'd pad" where
  "pad_new pad0 d = \<lparr>pd_pad = pad0, pd_vib1 = 0, pd_vib2 = 0, pd_connected = False, pd_cs = True, pd_spi = d\<rparr>"

text \<open>The buffers \<open>buf0\<close> are those on the stack.\<close>

definition pad_init :: "'d spi \<Rightarrow> u8 list \<Rightarrow> 'd pad \<Rightarrow> (int \<times> 'd pad) option" where
  "pad_init spi buf0 s = do {
     (_, buf, s) \<leftarrow> pad_send spi [0x01, 0x43, 0x00, 0x01, 0x00] 5 buf0 s;
     if buf ! 2 = 0xff then Some (-1, s)
     else do {
       (_, buf, s) \<leftarrow> pad_send spi [0x01, 0x44, 0x00, 0x01, 0x03, 0x00, 0x00, 0x00, 0x00] 9 buf s;
       (_, buf, s) \<leftarrow> pad_send spi [0x01, 0x4d, 0x00, 0x00, 0x01, 0xff, 0xff, 0xff, 0xff] 9 buf s;
       (_, buf, s) \<leftarrow> pad_send spi [0x01, 0x43, 0x00, 0x00, 0x5A, 0x5A, 0x5A, 0x5A, 0x5A] 9 buf s;
       Some (0, s)
     }
   }"

definition pad_poll :: "'d spi \<Rightarrow> u8 list \<Rightarrow> 'd pad \<Rightarrow> (int \<times> 'd pad) option" where
  "pad_poll spi buf0 s = do {
     let cmd = [0x01, 0x42, 0x00, 0x00, 0x00, 0x00, 0x00, 0x00, 0x00];
     let cmd = cmd[3 := of_int (pd_vib1 s)];
     let cmd = cmd[4 := of_int (pd_vib2 s)];
     (_, buf, s) \<leftarrow> pad_send spi cmd 9 buf0 s;
     if buf ! 2 \<noteq> 0x5a then Some (-1, s)
     else Some (0, s\<lparr>pd_pad := take 6 (drop 3 buf), pd_connected := True\<rparr>)
   }"

definition pad_type_index :: "pad_type \<Rightarrow> nat" where
  "pad_type_index t =
     (case t of PAD_LEFT \<Rightarrow> 0 | PAD_BOTTOM \<Rightarrow> 1 | PAD_RIGHT \<Rightarrow> 2 | PAD_TOP \<Rightarrow> 3 | PAD_START \<Rightarrow> 4 | ANALOG_LEFT \<Rightarrow> 5
      | ANALOG_RIGHT \<Rightarrow> 6 | PAD_SELECT \<Rightarrow> 7 | PAD_SQUARE \<Rightarrow> 8 | PAD_X \<Rightarrow> 9 | PAD_CIRCLE \<Rightarrow> 10 | PAD_TRIANGLE \<Rightarrow> 11 | PAD_R1 \<Rightarrow> 12
      | PAD_L1 \<Rightarrow> 13 | PAD_R2 \<Rightarrow> 14 | PAD_L2 \<Rightarrow> 15 | BUTTONS \<Rightarrow> 16 | ANALOG_RX \<Rightarrow> 17 | ANALOG_RY \<Rightarrow> 18 | ANALOG_LX \<Rightarrow> 19 | ANALOG_LY \<Rightarrow> 20)"

definition pad_read :: "pad_type \<Rightarrow> 'd pad \<Rightarrow> int" where
  "pad_read t s =
     (if \<not> pd_connected s then (if pad_type_index t \<le> pad_type_index BUTTONS then 0 else 0x80)
      else let p = pd_pad s; low = (\<lambda>(b :: u8) m. if b AND m \<noteq> 0 then 0 else 1) in
        case t of
          PAD_LEFT \<Rightarrow> low (p ! 0) 0x80 | PAD_BOTTOM \<Rightarrow> low (p ! 0) 0x40 | PAD_RIGHT \<Rightarrow> low (p ! 0) 0x20 | PAD_TOP \<Rightarrow> low (p ! 0) 0x10
        | PAD_START \<Rightarrow> low (p ! 0) 0x08 | ANALOG_LEFT \<Rightarrow> low (p ! 0) 0x04 | ANALOG_RIGHT \<Rightarrow> low (p ! 0) 0x02 | PAD_SELECT \<Rightarrow> low (p ! 0) 0x01
        | PAD_SQUARE \<Rightarrow> low (p ! 1) 0x80 | PAD_X \<Rightarrow> low (p ! 1) 0x40 | PAD_CIRCLE \<Rightarrow> low (p ! 1) 0x20 | PAD_TRIANGLE \<Rightarrow> low (p ! 1) 0x10
        | PAD_R1 \<Rightarrow> low (p ! 1) 0x08 | PAD_L1 \<Rightarrow> low (p ! 1) 0x04 | PAD_R2 \<Rightarrow> low (p ! 1) 0x02 | PAD_L2 \<Rightarrow> low (p ! 1) 0x01
        | BUTTONS \<Rightarrow> uint (NOT (push_bit 8 (ucast (p ! 1)) OR ucast (p ! 0)) AND (0xffff :: u32))
        | ANALOG_RX \<Rightarrow> uint (p ! 2) - 0x80 | ANALOG_RY \<Rightarrow> uint (p ! 3) - 0x80 | ANALOG_LX \<Rightarrow> uint (p ! 4) - 0x80 | ANALOG_LY \<Rightarrow> uint (p ! 5) - 0x80)"

definition pad_vibration :: "'d spi \<Rightarrow> u8 list \<Rightarrow> int \<Rightarrow> int \<Rightarrow> 'd pad \<Rightarrow> (int \<times> 'd pad) option" where
  "pad_vibration spi buf0 v1 v2 s = do {
     let s = s\<lparr>pd_vib1 := if v1 \<noteq> 0 then 1 else 0\<rparr>;
     let v2 = (if v2 < 0 then 0 else v2);
     let v2 = (if 0xff < v2 then 0 else v2);
     let s = s\<lparr>pd_vib2 := v2\<rparr>;
     (_, s) \<leftarrow> pad_poll spi buf0 s;
     Some (0, s)
   }"

section \<open>The order of the bits\<close>

text \<open>A byte with its bits the other way round.\<close>

definition rev8 :: "u8 \<Rightarrow> u8" where
  "rev8 b = horner_sum of_bool 2 (map (bit b) (rev [0..<8]))"

lemma bit_rev8: "n < 8 \<Longrightarrow> bit (rev8 b) n = bit b (7 - n)"
  unfolding rev8_def by (simp add: bit_horner_sum_bit_word_iff rev_nth del: upt_Suc)

text \<open>\<open>__rbit\<close> is not the reversal of a word, as the first shift copies the sign; the low byte is right.\<close>

lemma rbit_bits: "n < 8 \<Longrightarrow> bit (rbit (push_bit 24 w)) n = bit w (7 - n)"
proof -
  assume "n < 8"
  then have "n = 0 \<or> n = 1 \<or> n = 2 \<or> n = 3 \<or> n = 4 \<or> n = 5 \<or> n = 6 \<or> n = 7" by auto
  then show ?thesis
    unfolding rbit_def Let_def bit_or_iff bit_and_iff bit_drop_bit_eq bit_push_bit_iff bit_signed_drop_bit_iff comp_apply
    by (elim disjE) simp_all
qed

lemma rbit_byte: "ucast (rbit (push_bit 24 w)) = rev8 (ucast w)"
proof (rule bit_eqI)
  fix n assume "possible_bit TYPE(8 word) n"
  then have n: "n < 8" by simp
  then show "bit (ucast (rbit (push_bit 24 w)) :: u8) n = bit (rev8 (ucast w)) n"
    using n unfolding bit_rev8 [OF n] by (auto simp: bit_ucast_iff rbit_bits)
qed

lemma rbit_not_reverse: "rbit 0x80000000 = 0xFFFF0001"
  by (simp add: rbit_def)

section \<open>The bus\<close>

text \<open>A bus of eight bits: only the low byte of what is written counts.\<close>

definition spi8 :: "'d spi \<Rightarrow> bool" where
  "spi8 spi \<longleftrightarrow> (\<forall>d w. spi d w = spi d (ucast (ucast w :: u8)))"

text \<open>The exchange of bytes as the controller sees it.\<close>

fun exchange :: "'d spi \<Rightarrow> u8 list \<Rightarrow> 'd \<Rightarrow> u8 list \<times> 'd" where
  "exchange spi [] d = ([], d)"
| "exchange spi (c # cmd) d =
     (let (d, r) = spi d (ucast (rev8 c)); (bs, d) = exchange spi cmd d in (rev8 (ucast r) # bs, d))"

lemma exchange_length: "length (fst (exchange spi cmd d)) = length cmd"
  by (induction cmd arbitrary: d) (auto simp: split_def Let_def)

lemma send_loop_exchange:
  assumes "spi8 spi" "i + length cmd \<le> length dat"
  shows "send_loop spi cmd i dat d =
    Some (take i dat @ fst (exchange spi cmd d) @ drop (i + length cmd) dat, snd (exchange spi cmd d))"
  using assms(2)
proof (induction cmd arbitrary: i dat d)
  case (Cons c cmd)
  obtain d1 r where s: "spi d (ucast (rev8 c)) = (d1, r)" by fastforce
  have "ucast (rbit (push_bit 24 (ucast c))) = rev8 c"
    unfolding rbit_byte by (rule arg_cong [of _ _ rev8]) (rule bit_eqI, simp add: bit_ucast_iff)
  then have w: "spi d (rbit (push_bit 24 (ucast c))) = (d1, r)" using assms(1) s unfolding spi8_def by metis
  obtain bs d2 where e: "exchange spi cmd d1 = (bs, d2)" by fastforce
  have l: "i < length dat" using Cons.prems by simp
  have "take (Suc i) (dat[i := x]) = take i dat @ [x]" for x using l by (simp add: take_Suc_conv_app_nth)
  then show ?case using Cons.IH [of "Suc i" "dat[i := rev8 (ucast r)]" d1] Cons.prems l w e s
    by (simp add: rbit_byte Let_def)
qed simp

lemma pad_send_exchange:
  assumes "spi8 spi" "length cmd \<le> length dat"
  shows "pad_send spi cmd (length cmd) dat s =
    Some (length cmd, fst (exchange spi cmd (pd_spi s)) @ drop (length cmd) dat, s\<lparr>pd_spi := snd (exchange spi cmd (pd_spi s)), pd_cs := True\<rparr>)"
  using send_loop_exchange [OF assms(1), of 0 cmd dat "pd_spi s"] assms(2) by (simp add: pad_send_def)

section \<open>The buttons\<close>

definition button_bit :: "pad_type \<Rightarrow> nat" where
  "button_bit t = (let k = pad_type_index t in if k < 8 then 7 - k else 23 - k)"

lemma pad_read_button:
  assumes "pd_connected s" "pad_type_index t < 16"
  shows "pad_read t s = (if bit (of_int (pad_read BUTTONS s) :: u32) (button_bit t) then 1 else 0)"
proof -
  define p0 p1 where "p0 = pd_pad s ! 0" and "p1 = pd_pad s ! 1"
  have B: "(of_int (pad_read BUTTONS s) :: u32) = NOT (push_bit 8 (ucast p1) OR ucast p0) AND 0xffff"
    using assms(1) unfolding pad_read_def Let_def p0_def p1_def by (simp only: not_not if_False not_True_eq_False pad_type.case word_of_int_uint)
  have m: "(0xffff :: u32) = mask 16" by (simp add: mask_eq_exp_minus_1)
  have b: "bit (of_int (pad_read BUTTONS s) :: u32) n \<longleftrightarrow> \<not> (if n < 8 then bit p0 n else bit p1 (n - 8))" if "n < 16" for n
    unfolding B m using that bit_imp_le_length [of p0 n] by (auto simp: bit_simps)
  have a: "(b :: u8) AND 2 ^ n \<noteq> 0 \<longleftrightarrow> bit b n" for b n
    by (simp add: and_exp_eq_0_iff_not_bit)
  note a7 = a [of _ 7, simplified] and a6 = a [of _ 6, simplified] and a5 = a [of _ 5, simplified] and a4 = a [of _ 4, simplified]
    and a3 = a [of _ 3, simplified] and a2 = a [of _ 2, simplified] and a1 = a [of _ 1, simplified] and a0 = a [of _ 0, simplified]
  have n: "button_bit t < 16" using assms(2) by (auto simp: button_bit_def Let_def)
  show ?thesis unfolding b [OF n]
    using assms by (cases t) (simp_all add: pad_read_def Let_def pad_type_index_def button_bit_def a7 a6 a5 a4 a3 a2 a1 a0 p0_def p1_def)
qed

section \<open>The properties\<close>

text \<open>C10: A poll of the controller: over a bus of eight bits the command, with the two values of the vibration in it, and the answer are
  exchanged byte by byte with the order of the bits turned; an answer without the mark \<open>0x5a\<close> is an error that keeps the buttons
  of before, otherwise the six bytes behind the mark are the state of the pad, and what \<open>read\<close> gives for a button is its bit in
  what it gives for all of them.\<close>

theorem pad_polled:
  assumes "spi8 spi" "length buf0 = 10"
  shows "\<exists>bs d. exchange spi [0x01, 0x42, 0, of_int (pd_vib1 s), of_int (pd_vib2 s), 0, 0, 0, 0] (pd_spi s) = (bs, d) \<and> length bs = 9 \<and>
    (if bs ! 2 \<noteq> 0x5a then pad_poll spi buf0 s = Some (-1, s\<lparr>pd_spi := d, pd_cs := True\<rparr>)
     else \<exists>s'. pad_poll spi buf0 s = Some (0, s') \<and> s' = s\<lparr>pd_spi := d, pd_cs := True, pd_pad := drop 3 bs, pd_connected := True\<rparr> \<and>
       (\<forall>t. pad_type_index t < 16 \<longrightarrow> pad_read t s' = (if bit (of_int (pad_read BUTTONS s') :: u32) (button_bit t) then 1 else 0)))"
proof -
  define cmd :: "u8 list" where "cmd = [0x01, 0x42, 0, of_int (pd_vib1 s), of_int (pd_vib2 s), 0, 0, 0, 0]"
  obtain bs d where e: "exchange spi cmd (pd_spi s) = (bs, d)" by fastforce
  have l: "length bs = 9" using exchange_length [of spi cmd "pd_spi s"] e by (simp add: cmd_def)
  have lc: "length cmd = 9" by (simp add: cmd_def)
  have s: "pad_send spi cmd 9 buf0 s = Some (9, bs @ drop 9 buf0, s\<lparr>pd_spi := d, pd_cs := True\<rparr>)"
    using pad_send_exchange [OF assms(1), of cmd buf0 s] assms(2) unfolding lc e by simp
  have c: "([0x01, 0x42, 0, 0, 0, 0, 0, 0, 0] :: u8 list)[3 := of_int (pd_vib1 s), 4 := of_int (pd_vib2 s)] = cmd" by (simp add: cmd_def)
  have p: "pad_poll spi buf0 s = (if bs ! 2 \<noteq> 0x5a then Some (-1, s\<lparr>pd_spi := d, pd_cs := True\<rparr>)
      else Some (0, s\<lparr>pd_spi := d, pd_cs := True, pd_pad := drop 3 bs, pd_connected := True\<rparr>))"
    using l unfolding pad_poll_def Let_def c s bind.bind_lunit by (simp add: nth_append)
  show ?thesis
  proof (intro exI conjI)
    show "exchange spi [0x01, 0x42, 0, of_int (pd_vib1 s), of_int (pd_vib2 s), 0, 0, 0, 0] (pd_spi s) = (bs, d)" using e by (simp only: cmd_def)
    show "length bs = 9" by (rule l)
    show "if bs ! 2 \<noteq> 0x5a then pad_poll spi buf0 s = Some (-1, s\<lparr>pd_spi := d, pd_cs := True\<rparr>)
     else \<exists>s'. pad_poll spi buf0 s = Some (0, s') \<and> s' = s\<lparr>pd_spi := d, pd_cs := True, pd_pad := drop 3 bs, pd_connected := True\<rparr> \<and>
       (\<forall>t. pad_type_index t < 16 \<longrightarrow> pad_read t s' = (if bit (of_int (pad_read BUTTONS s') :: u32) (button_bit t) then 1 else 0))"
      using p pad_read_button [of "s\<lparr>pd_spi := d, pd_cs := True, pd_pad := drop 3 bs, pd_connected := True\<rparr>"] by simp
  qed
qed

text \<open>A controller that answers with the mark and the left button pressed, in its own order of the bits.\<close>

definition demo_spi :: "nat spi" where
  "demo_spi n w = (Suc n, ucast (rev8 ([0xff, 0x41, 0x5a, 0x7f, 0xff, 0x80, 0x80, 0x80, 0x80] ! (n mod 9))))"

theorem pad_polled_witness:
  "\<exists>s'. pad_poll demo_spi (replicate 10 0) (pad_new (replicate 6 0) 0) = Some (0, s') \<and> pad_read PAD_LEFT s' = 1 \<and> pad_read PAD_X s' = 0"
proof -
  have s: "spi8 demo_spi" by (simp add: spi8_def demo_spi_def)
  have r: "rev8 (ucast (ucast (rev8 b) :: u32)) = b" for b
  proof (rule bit_eqI)
    fix n assume "possible_bit TYPE(8 word) n"
    then have n: "n < 8" by simp
    then show "bit (rev8 (ucast (ucast (rev8 b) :: u32))) n = bit b n" unfolding bit_rev8 [OF n] using n by (auto simp: bit_ucast_iff bit_rev8)
  qed
  have e: "exchange demo_spi [0x01, 0x42, 0, of_int (pd_vib1 (pad_new (replicate 6 0) (0 :: nat))), of_int (pd_vib2 (pad_new (replicate 6 0) (0 :: nat))), 0, 0, 0, 0]
      (pd_spi (pad_new (replicate 6 0) (0 :: nat))) = ([0xff, 0x41, 0x5a, 0x7f, 0xff, 0x80, 0x80, 0x80, 0x80], 9)"
    by (simp add: pad_new_def demo_spi_def r)
  obtain s' where s': "pad_poll demo_spi (replicate 10 0) (pad_new (replicate 6 0) 0) = Some (0, s')"
    "pd_connected s'" "pd_pad s' = [0x7f, 0xff, 0x80, 0x80, 0x80, 0x80]"
    using pad_polled [OF s, of "replicate 10 0" "pad_new (replicate 6 0) 0"] unfolding e by auto
  then show ?thesis by (simp add: pad_read_def)
qed

end
