(* ===== verification/Ticker.thy ===== *)
theory Ticker
  imports Prelude
begin

text \<open>
  \<open>hal/mbed_ticker_api.c\<close>: the clock in microseconds and the queue of timed events behind the application's \<open>Timeout\<close> and \<open>Timer\<close>
  objects.  The hardware is a counter of \<open>hw_bits\<close> bits that runs at \<open>hw_freq\<close>; \<open>hw_read s n\<close> is what its \<open>n\<close>-th reading gives,
  and \<open>tk_out\<close> is what the code has told it and which handlers it has called, in order.  Every function here runs with
  interrupts off.  A failed assertion does not return.
\<close>

datatype tk_effect = Set_interrupt u32 | Fire_interrupt | Clear_interrupt | Handler u32

record ticker =
  \<comment> \<open>ticker_event_queue_t; the handler is set or NULL\<close>
  tq_event_handler :: bool
  tk_head :: addr
  tq_frequency :: u32
  tq_bitmask :: u32
  tq_max_delta :: u32
  tq_max_delta_us :: u64
  tq_tick_last_read :: u32
  tq_tick_remainder :: u64
  tq_present_time :: u64
  tq_initialized :: bool
  tq_dispatching :: bool
  tq_suspended :: bool
  tq_frequency_shifts :: u8
  \<comment> \<open>ticker_event_t\<close>
  ev_timestamp :: "addr \<Rightarrow> u64"
  ev_id :: "addr \<Rightarrow> u32"
  ev_next :: "addr \<Rightarrow> addr"
  \<comment> \<open>the hardware\<close>
  hw_read :: "nat \<Rightarrow> u32"
  hw_n :: nat
  hw_freq :: u32
  hw_bits :: u32
  tk_out :: "tk_effect list"

definition tk_read :: "ticker \<Rightarrow> u32 \<times> ticker" where
  "tk_read s = (hw_read s (hw_n s), s\<lparr>hw_n := hw_n s + 1\<rparr>)"

definition tk_emit :: "tk_effect \<Rightarrow> ticker \<Rightarrow> ticker" where
  "tk_emit e s = s\<lparr>tk_out := tk_out s @ [e]\<rparr>"

section \<open>Time\<close>

definition convert_timestamp :: "u64 \<Rightarrow> u32 \<Rightarrow> u64" where
  "convert_timestamp ref timestamp =
     (let overflow = timestamp < ucast ref;
          result = (ref AND NOT 0xFFFFFFFF) OR ucast timestamp
      in if overflow then result + push_bit 32 1 else result)"

definition elapsed :: "u64 \<Rightarrow> ticker \<Rightarrow> u64 \<times> ticker" where
  "elapsed elapsed_ticks s =
     (if tq_frequency s = 1000000 then (elapsed_ticks, s)
      else
        let us_x_ticks = elapsed_ticks * 1000000;
            (elapsed_us, used) =
              (if tq_frequency_shifts s \<noteq> 0
               then (let e = drop_bit (unat (tq_frequency_shifts s)) us_x_ticks in (e, push_bit (unat (tq_frequency_shifts s)) e))
               else (let e = us_x_ticks div ucast (tq_frequency s) in (e, e * ucast (tq_frequency s))));
            s = s\<lparr>tq_tick_remainder := tq_tick_remainder s + (us_x_ticks - used)\<rparr>
        in if ucast (tq_frequency s) \<le> tq_tick_remainder s
           then (elapsed_us + 1, s\<lparr>tq_tick_remainder := tq_tick_remainder s - ucast (tq_frequency s)\<rparr>)
           else (elapsed_us, s))"

definition update_present_time :: "ticker \<Rightarrow> ticker" where
  "update_present_time s =
     (if tq_suspended s then s
      else
        let (ticker_time, s) = tk_read s in
        if ticker_time = tq_tick_last_read s then s
        else
          let elapsed_ticks = ucast ((ticker_time - tq_tick_last_read s) AND tq_bitmask s);
              s = s\<lparr>tq_tick_last_read := ticker_time\<rparr>;
              (elapsed_us, s) = elapsed elapsed_ticks s
          in s\<lparr>tq_present_time := tq_present_time s + elapsed_us\<rparr>)"

section \<open>The interrupt\<close>

definition compute_tick_round_up :: "u64 \<Rightarrow> ticker \<Rightarrow> u32" where
  "compute_tick_round_up timestamp s =
     (let delta_us = timestamp - tq_present_time s;
          delta =
            (if delta_us \<le> tq_max_delta_us s then
               (let delta =
                  (if tq_frequency s = 1000000 then ucast delta_us
                   else if tq_frequency_shifts s \<noteq> 0 then ucast ((push_bit (unat (tq_frequency_shifts s)) delta_us + 1000000 - 1) div 1000000)
                   else ucast ((delta_us * ucast (tq_frequency s) + 1000000 - 1) div 1000000) :: u32)
                in if tq_max_delta s < delta then tq_max_delta s else delta)
             else tq_max_delta s)
      in (tq_tick_last_read s + delta) AND tq_bitmask s)"

definition ticker_match_interval_passed :: "u32 \<Rightarrow> u32 \<Rightarrow> u32 \<Rightarrow> bool" where
  "ticker_match_interval_passed prev_tick cur_tick match_tick =
     (if prev_tick < match_tick then match_tick \<le> cur_tick \<or> cur_tick < prev_tick
      else cur_tick < prev_tick \<and> match_tick \<le> cur_tick)"

definition schedule_interrupt :: "ticker \<Rightarrow> ticker option" where
  "schedule_interrupt s =
     (if tq_suspended s \<or> tq_dispatching s then Some s
      else
        let s = update_present_time s in
        if tk_head s \<noteq> NULL then
          let present = tq_present_time s;
              match_time = ev_timestamp s (tk_head s)
          in
            if match_time \<le> present then Some (tk_emit Fire_interrupt s)
            else
              let match_tick = compute_tick_round_up match_time s in
              if match_tick \<noteq> tq_tick_last_read s then
                let s = tk_emit (Set_interrupt match_tick) s;
                    (cur_tick, s) = tk_read s
                in Some (if ticker_match_interval_passed (tq_tick_last_read s) cur_tick match_tick then tk_emit Fire_interrupt s else s)
              else None
        else Some (tk_emit (Set_interrupt ((tq_tick_last_read s + tq_max_delta s) AND tq_bitmask s)) s))"

text \<open>\<open>initialize\<close>, with the loop that looks for the power of two.\<close>

fun shifts_loop :: "nat \<Rightarrow> u32 \<Rightarrow> u8" where
  "shifts_loop 0 frequency = 0"
| "shifts_loop (Suc i) frequency = (if push_bit (Suc i) 1 = frequency then of_nat (Suc i) else shifts_loop i frequency)"

definition ticker_initialize :: "ticker \<Rightarrow> ticker option" where
  "ticker_initialize s =
     (if tq_initialized s then Some s
      else if tq_suspended s then Some s
      else if hw_freq s = 0 then None
      else if 32 < hw_bits s \<or> hw_bits s < 4 then None
      else
        let frequency = hw_freq s;
            bits = unat (hw_bits s);
            max_delta = push_bit (bits - 4) 7;
            max_delta_us = (ucast max_delta * 1000000 + ucast frequency - 1) div ucast frequency;
            s = s\<lparr>tq_event_handler := False, tk_head := NULL\<rparr>;
            (t, s) = tk_read s;
            s = s\<lparr>tq_tick_last_read := t, tq_tick_remainder := 0, tq_frequency := frequency, tq_frequency_shifts := shifts_loop 31 frequency,
                  tq_bitmask := ucast (push_bit bits 1 - 1 :: u64), tq_max_delta := max_delta, tq_max_delta_us := max_delta_us, tq_present_time := 0,
                  tq_dispatching := False, tq_suspended := False, tq_initialized := True\<rparr>;
            s = update_present_time s
        in schedule_interrupt s)"

section \<open>The queue of events\<close>

text \<open>The loop of the insertion: the last event that comes before and the first one behind.\<close>

partial_function (option) ticker_search :: "(addr \<Rightarrow> addr) \<Rightarrow> (addr \<Rightarrow> u64) \<Rightarrow> u64 \<Rightarrow> addr \<Rightarrow> addr \<Rightarrow> (addr \<times> addr) option" where
  "ticker_search nx ts timestamp prev p =
     (if p \<noteq> NULL then
        if timestamp < ts p then Some (prev, p) else ticker_search nx ts timestamp p (nx p)
      else Some (prev, p))"

definition ticker_insert_event_us :: "addr \<Rightarrow> u64 \<Rightarrow> u32 \<Rightarrow> ticker \<Rightarrow> ticker option" where
  "ticker_insert_event_us obj timestamp ident s = do {
     let s = update_present_time s;
     _ \<leftarrow> deref obj;
     let s = s\<lparr>ev_timestamp := (ev_timestamp s)(obj := timestamp), ev_id := (ev_id s)(obj := ident)\<rparr>;
     (prev, p) \<leftarrow> ticker_search (ev_next s) (ev_timestamp s) timestamp NULL (tk_head s);
     let s = s\<lparr>ev_next := (ev_next s)(obj := p)\<rparr>;
     if prev = NULL then schedule_interrupt (s\<lparr>tk_head := obj\<rparr>)
     else Some (s\<lparr>ev_next := (ev_next s)(prev := obj)\<rparr>)
   }"

definition ticker_insert_event :: "addr \<Rightarrow> u32 \<Rightarrow> u32 \<Rightarrow> ticker \<Rightarrow> ticker option" where
  "ticker_insert_event obj timestamp ident s =
     (let s = update_present_time s in
      ticker_insert_event_us obj (convert_timestamp (tq_present_time s) timestamp) ident s)"

partial_function (option) ticker_unlink :: "addr \<Rightarrow> addr \<Rightarrow> (addr \<Rightarrow> addr) \<Rightarrow> (addr \<Rightarrow> addr) option" where
  "ticker_unlink obj p nx =
     (if p \<noteq> NULL then
        if nx p = obj then Some (nx(p := nx obj)) else ticker_unlink obj (nx p) nx
      else Some nx)"

definition ticker_remove_event :: "addr \<Rightarrow> ticker \<Rightarrow> ticker option" where
  "ticker_remove_event obj s =
     (if tk_head s = obj then do {
        _ \<leftarrow> deref obj;
        schedule_interrupt (s\<lparr>tk_head := ev_next s obj\<rparr>)
      } else do {
        nx \<leftarrow> ticker_unlink obj (tk_head s) (ev_next s);
        Some (s\<lparr>ev_next := nx\<rparr>)
      })"

text \<open>The interrupt: \<open>handler\<close> is the handler of the queue.\<close>

partial_function (option) ticker_dispatch_loop :: "(u32 \<Rightarrow> ticker \<Rightarrow> ticker option) \<Rightarrow> ticker \<Rightarrow> ticker option" where
  "ticker_dispatch_loop handler s =
     (if tk_head s = NULL then Some s
      else
        let s = update_present_time s in
        if ev_timestamp s (tk_head s) \<le> tq_present_time s then do {
          let p = tk_head s;
          let s = s\<lparr>tk_head := ev_next s p\<rparr>;
          s \<leftarrow> (if tq_event_handler s then handler (ev_id s p) s else Some s);
          ticker_dispatch_loop handler s
        } else Some s)"

definition ticker_irq_handler :: "(u32 \<Rightarrow> ticker \<Rightarrow> ticker option) \<Rightarrow> ticker \<Rightarrow> ticker option" where
  "ticker_irq_handler handler s = do {
     let s = tk_emit Clear_interrupt s;
     if tq_suspended s then Some s
     else do {
       s \<leftarrow> ticker_dispatch_loop handler (s\<lparr>tq_dispatching := True\<rparr>);
       schedule_interrupt (s\<lparr>tq_dispatching := False\<rparr>)
     }
   }"

section \<open>The other functions\<close>

definition ticker_set_handler :: "bool \<Rightarrow> ticker \<Rightarrow> ticker option" where
  "ticker_set_handler handler s = do { s \<leftarrow> ticker_initialize s; Some (s\<lparr>tq_event_handler := handler\<rparr>) }"

definition ticker_read_us :: "ticker \<Rightarrow> (u64 \<times> ticker) option" where
  "ticker_read_us s = do {
     s \<leftarrow> ticker_initialize s;
     let s = update_present_time s;
     Some (tq_present_time s, s)
   }"

definition ticker_read :: "ticker \<Rightarrow> (u32 \<times> ticker) option" where
  "ticker_read s = do { (t, s) \<leftarrow> ticker_read_us s; Some (ucast t, s) }"

definition ticker_get_next_timestamp :: "ticker \<Rightarrow> u32 option" where
  "ticker_get_next_timestamp s = (if tk_head s \<noteq> NULL then Some (ucast (ev_timestamp s (tk_head s))) else None)"

definition ticker_suspend :: "ticker \<Rightarrow> ticker" where
  "ticker_suspend s = s\<lparr>tq_suspended := True\<rparr>"

definition ticker_resume :: "ticker \<Rightarrow> ticker option" where
  "ticker_resume s = do {
     let s = s\<lparr>tq_suspended := False\<rparr>;
     if tq_initialized s then do {
       let (t, s) = tk_read s;
       let s = s\<lparr>tq_tick_last_read := t\<rparr>;
       let s = update_present_time s;
       schedule_interrupt s
     } else ticker_initialize s
   }"

end
