(* ===== verification/TickerSpec.thy ===== *)
theory TickerSpec
  imports Ticker
begin

text \<open>
  What the clock and the queue of timed events promise.  \<open>T k\<close> is the number of ticks since power-on, without wrap-around, at the
  \<open>k\<close>-th reading of the hardware; the code only sees it modulo the width of the counter.
\<close>

abbreviation (input) tk_width :: "ticker \<Rightarrow> nat" where "tk_width s \<equiv> 2 ^ unat (hw_bits s)"
abbreviation (input) tk_freq :: "ticker \<Rightarrow> nat" where "tk_freq s \<equiv> unat (tq_frequency s)"

text \<open>The contract of the hardware: the counter does not go back, and does not go round within two readings, which is what the
  interrupt after 7/16 of its range is for.\<close>

definition clock_ok :: "(nat \<Rightarrow> nat) \<Rightarrow> ticker \<Rightarrow> bool" where
  "clock_ok T s \<longleftrightarrow> (\<forall>k. hw_read s k = of_nat (T k mod tk_width s)) \<and> (\<forall>k. T k \<le> T (Suc k)) \<and> (\<forall>k. T (k + 2) < T k + tk_width s)"

definition tk_conf :: "ticker \<Rightarrow> bool" where
  "tk_conf s \<longleftrightarrow> 4 \<le> unat (hw_bits s) \<and> unat (hw_bits s) \<le> 32 \<and> 0 < tk_freq s \<and>
     (tq_frequency_shifts s \<noteq> 0 \<longrightarrow> unat (tq_frequency_shifts s) < 32 \<and> tk_freq s = 2 ^ unat (tq_frequency_shifts s)) \<and>
     tq_bitmask s = mask (unat (hw_bits s)) \<and> tq_max_delta s = of_nat (7 * 2 ^ (unat (hw_bits s) - 4)) \<and>
     tq_max_delta_us s = of_nat ((7 * 2 ^ (unat (hw_bits s) - 4) * 10 ^ 6 + tk_freq s - 1) div tk_freq s)"

text \<open>\<open>C\<close> ticks have been counted, the last at reading \<open>j\<close>: the time is exactly what they amount to.\<close>

definition tk_time :: "(nat \<Rightarrow> nat) \<Rightarrow> nat \<Rightarrow> nat \<Rightarrow> ticker \<Rightarrow> bool" where
  "tk_time T j C s \<longleftrightarrow> clock_ok T s \<and> tk_conf s \<and> \<not> tq_suspended s \<and> j < hw_n s \<and> hw_n s \<le> j + 2 \<and>
     tq_tick_last_read s = of_nat (T j mod tk_width s) \<and>
     tq_present_time s = of_nat (10 ^ 6 * C div tk_freq s) \<and> tq_tick_remainder s = of_nat (10 ^ 6 * C mod tk_freq s)"

lemma clock_mono: "clock_ok T s \<Longrightarrow> j \<le> k \<Longrightarrow> T j \<le> T k"
  by (rule lift_Suc_mono_le [of T]) (auto simp: clock_ok_def)

lemma clock_gap: "clock_ok T s \<Longrightarrow> j \<le> k \<Longrightarrow> k \<le> j + 2 \<Longrightarrow> T k - T j < tk_width s"
proof -
  assume c: "clock_ok T s" and k: "j \<le> k" "k \<le> j + 2"
  have "T k \<le> T (j + 2)" using clock_mono [OF c k(2)] .
  also have "\<dots> < T j + tk_width s" using c by (simp add: clock_ok_def)
  finally show ?thesis using clock_mono [OF c k(1)] by simp
qed

text \<open>The difference of two readings.\<close>

lemma take_bit_word_diff: "take_bit n (take_bit n x - take_bit n y) = take_bit n (x - y :: u32)"
  by transfer (simp add: take_bit_diff)

lemma tick_diff:
  assumes "a \<le> b" "b - a < 2 ^ n" "n \<le> 32"
  shows "(of_nat (b mod 2 ^ n) - of_nat (a mod 2 ^ n) :: u32) AND mask n = of_nat (b - a)"
    and "(of_nat (b mod 2 ^ n) :: u32) = of_nat (a mod 2 ^ n) \<longleftrightarrow> b = a"
proof -
  have w: "(of_nat (x mod 2 ^ n) :: u32) = take_bit n (of_nat x)" for x :: nat
    unfolding take_bit_of_nat by (simp add: take_bit_eq_mod)
  have "(of_nat (b mod 2 ^ n) - of_nat (a mod 2 ^ n) :: u32) AND mask n = take_bit n (take_bit n (of_nat b) - take_bit n (of_nat a))"
    unfolding w by (simp add: take_bit_eq_mask)
  also have "\<dots> = take_bit n (of_nat b - of_nat a :: u32)" by (rule take_bit_word_diff)
  also have "\<dots> = take_bit n (of_nat (b - a))" using assms(1) by (simp add: of_nat_diff)
  also have "\<dots> = of_nat (take_bit n (b - a))" by (simp add: take_bit_of_nat)
  also have "take_bit n (b - a) = b - a" using assms(2) by (simp add: take_bit_eq_mod)
  finally show "(of_nat (b mod 2 ^ n) - of_nat (a mod 2 ^ n) :: u32) AND mask n = of_nat (b - a)" .
  have "2 ^ n \<le> (2 ^ 32 :: nat)" using assms(3) by (rule power_increasing) simp
  then have lt: "x mod 2 ^ n < (2 :: nat) ^ 32" for x by (rule less_le_trans [rotated]) simp
  have "(of_nat (b mod 2 ^ n) :: u32) = of_nat (a mod 2 ^ n) \<longleftrightarrow> b mod 2 ^ n = a mod 2 ^ n"
  proof
    assume "(of_nat (b mod 2 ^ n) :: u32) = of_nat (a mod 2 ^ n)"
    then have "unat (of_nat (b mod 2 ^ n) :: u32) = unat (of_nat (a mod 2 ^ n) :: u32)" by simp
    then show "b mod 2 ^ n = a mod 2 ^ n" unfolding unat_of_nat using lt by simp
  qed simp
  also have "\<dots> \<longleftrightarrow> b = a"
  proof
    assume "b mod 2 ^ n = a mod 2 ^ n"
    then have "2 ^ n dvd b - a" using assms(1) by (simp add: mod_eq_dvd_iff_nat)
    then show "b = a" using assms(1,2) by (auto dest: dvd_imp_le)
  qed simp
  finally show "(of_nat (b mod 2 ^ n) :: u32) = of_nat (a mod 2 ^ n) \<longleftrightarrow> b = a" .
qed

lemma tick_add: "(of_nat (a mod 2 ^ n) + of_nat w :: u32) AND mask n = of_nat ((a + w) mod 2 ^ n)"
proof -
  have "take_bit n (take_bit n x + y) = take_bit n (x + y)" for x y :: u32
    by transfer (simp add: take_bit_eq_mod mod_add_left_eq)
  moreover have m: "(of_nat (x mod 2 ^ n) :: u32) = take_bit n (of_nat x)" for x :: nat
    unfolding take_bit_of_nat by (simp add: take_bit_eq_mod)
  ultimately have "take_bit n (of_nat (a mod 2 ^ n) + of_nat w :: u32) = take_bit n (of_nat (a + w))" by (simp only: of_nat_add)
  then show ?thesis by (simp only: m take_bit_eq_mask)
qed

text \<open>The microseconds of \<open>d\<close> more ticks, with the remainder carried on.\<close>

lemma ticks_add:
  fixes C d f :: nat
  assumes "0 < f"
  defines "R \<equiv> 10 ^ 6 * C mod f" and "r \<equiv> 10 ^ 6 * d mod f"
  shows "10 ^ 6 * (C + d) div f = 10 ^ 6 * C div f + 10 ^ 6 * d div f + (if f \<le> R + r then 1 else 0)"
    and "10 ^ 6 * (C + d) mod f = (if f \<le> R + r then R + r - f else R + r)"
proof -
  have lt: "R < f" "r < f" using assms by simp_all
  have e: "10 ^ 6 * (C + d) = (10 ^ 6 * C div f + 10 ^ 6 * d div f) * f + (R + r)"
    unfolding R_def r_def by (simp add: algebra_simps div_mult_mod_eq)
  show "10 ^ 6 * (C + d) div f = 10 ^ 6 * C div f + 10 ^ 6 * d div f + (if f \<le> R + r then 1 else 0)"
  proof (cases "f \<le> R + r")
    case True
    then have "(R + r) div f = 1" using lt assms(1) by (simp add: div_nat_eqI)
    then show ?thesis using True assms(1) unfolding e by simp
  next
    case False
    then show ?thesis using assms(1) unfolding e by simp
  qed
  show "10 ^ 6 * (C + d) mod f = (if f \<le> R + r then R + r - f else R + r)"
  proof (cases "f \<le> R + r")
    case True
    then have "(R + r) mod f = R + r - f" using lt by (simp add: mod_if)
    then show ?thesis using True unfolding e by simp
  next
    case False
    then show ?thesis unfolding e by simp
  qed
qed

lemma elapsed_ok:
  assumes f: "tk_conf s" and r: "tq_tick_remainder s = of_nat (10 ^ 6 * C mod tk_freq s)" and d: "d < 2 ^ 32"
  shows "\<exists>e r'. elapsed (of_nat d) s = (e, s\<lparr>tq_tick_remainder := r'\<rparr>) \<and> r' = of_nat (10 ^ 6 * (C + d) mod tk_freq s) \<and>
    of_nat (10 ^ 6 * C div tk_freq s) + e = (of_nat (10 ^ 6 * (C + d) div tk_freq s) :: u64)"
proof -
  define f where "f = tk_freq s"
  have f0: "0 < f" using assms(1) by (simp add: tk_conf_def f_def)
  have f32: "f < 2 ^ 32" unfolding f_def using unsigned_less [of "tq_frequency s", where 'a = nat] by simp
  note A = ticks_add [OF f0, of C d]
  define R q x where "R = 10 ^ 6 * C mod f" and "q = 10 ^ 6 * d div f" and "x = 10 ^ 6 * d mod f"
  have lt: "R < f" "x < f" using f0 by (simp_all add: R_def x_def)
  have nt: "unat (of_nat n :: u64) = n" if "n < 2 ^ 64" for n unfolding unat_of_nat by (rule mod_less) (use that in simp)
  define X :: u64 where "X = of_nat (10 ^ 6 * d)"
  have ux: "of_nat d * 1000000 = X" by (simp add: X_def)
  have uX: "unat X = 10 ^ 6 * d" unfolding X_def using d by (intro nt) simp
  have fq: "ucast (tq_frequency s) = (of_nat f :: u64)" unfolding f_def by simp
  have fn: "unat (of_nat f :: u64) = f" using f32 by (intro nt) simp
  show ?thesis
  proof (cases "tq_frequency s = 1000000")
    case True
    then have "f = 10 ^ 6" by (simp add: f_def)
    then have "elapsed (of_nat d) s = (of_nat d, s\<lparr>tq_tick_remainder := 0\<rparr>)" "tq_tick_remainder s = 0"
      using True r by (simp_all add: elapsed_def f_def [symmetric])
    then show ?thesis unfolding f_def [symmetric] using \<open>f = 10 ^ 6\<close> by (intro exI [of _ "of_nat d"] exI [of _ 0]) simp
  next
    case False
    define e where "e = (if tq_frequency_shifts s \<noteq> 0 then drop_bit (unat (tq_frequency_shifts s)) X else X div of_nat f)"
    have e: "e = of_nat q"
    proof (cases "tq_frequency_shifts s = 0")
      case True
      have "unat e = q" using True uX fn by (simp add: e_def q_def unat_div)
      then have "of_nat (unat e) = (of_nat q :: u64)" by (simp only:)
      then show ?thesis by simp
    next
      case False
      then have "f = 2 ^ unat (tq_frequency_shifts s)" using f by (simp add: tk_conf_def f_def)
      moreover have "unat e = drop_bit (unat (tq_frequency_shifts s)) (unat X)" using False by (simp add: e_def unat_drop_bit_eq)
      ultimately have "unat e = q" unfolding uX q_def drop_bit_eq_div by simp
      then have "of_nat (unat e) = (of_nat q :: u64)" by (simp only:)
      then show ?thesis by simp
    qed
    define u where "u = (if tq_frequency_shifts s \<noteq> 0 then push_bit (unat (tq_frequency_shifts s)) e else e * of_nat f)"
    have u: "u = of_nat (q * f)"
    proof (cases "tq_frequency_shifts s = 0")
      case False
      then have "f = 2 ^ unat (tq_frequency_shifts s)" using f by (simp add: tk_conf_def f_def)
      then show ?thesis using False by (simp add: u_def e push_bit_eq_mult)
    qed (simp add: u_def e)
    have x: "X - u = of_nat x"
      unfolding u X_def x_def q_def by (simp add: minus_div_mult_eq_mod [symmetric] of_nat_diff div_times_less_eq_dividend del: of_nat_mult)
    have Rx: "tq_tick_remainder s + (X - u) = of_nat (R + x)" unfolding x r R_def f_def by simp
    have le: "of_nat f \<le> (of_nat (R + x) :: u64) \<longleftrightarrow> f \<le> R + x"
      unfolding word_le_nat_alt fn using lt f32 by (subst nt) simp_all
    have E: "elapsed (of_nat d) s = (if f \<le> R + x then (e + 1, s\<lparr>tq_tick_remainder := of_nat (R + x) - of_nat f\<rparr>) else (e, s\<lparr>tq_tick_remainder := of_nat (R + x)\<rparr>))"
      using False le Rx unfolding elapsed_def ux by (simp add: fq Let_def e_def u_def split: if_splits)
    have C: "10 ^ 6 * C div f + q + (if f \<le> R + x then 1 else 0) = 10 ^ 6 * (C + d) div f"
      "10 ^ 6 * (C + d) mod f = (if f \<le> R + x then R + x - f else R + x)"
      using A by (simp_all add: R_def q_def x_def)
    show ?thesis
    proof (cases "f \<le> R + x")
      case True
      have "of_nat (10 ^ 6 * C div f) + (e + 1) = (of_nat (10 ^ 6 * (C + d) div f) :: u64)"
        unfolding C(1) [symmetric] e using True by simp
      moreover have "of_nat (R + x) - of_nat f = (of_nat (10 ^ 6 * (C + d) mod f) :: u64)"
        unfolding C(2) using True by (simp add: of_nat_diff)
      moreover have "elapsed (of_nat d) s = (e + 1, s\<lparr>tq_tick_remainder := of_nat (R + x) - of_nat f\<rparr>)" using E True by (simp only: if_True)
      ultimately show ?thesis unfolding f_def [symmetric] by blast
    next
      case False
      have "of_nat (10 ^ 6 * C div f) + e = (of_nat (10 ^ 6 * (C + d) div f) :: u64)"
        unfolding C(1) [symmetric] e using False by simp
      moreover have "(of_nat (R + x) :: u64) = of_nat (10 ^ 6 * (C + d) mod f)"
        unfolding C(2) using False by simp
      moreover have "elapsed (of_nat d) s = (e, s\<lparr>tq_tick_remainder := of_nat (R + x)\<rparr>)" using E False by (simp only: if_False)
      ultimately show ?thesis unfolding f_def [symmetric] by blast
    qed
  qed
qed

section \<open>The clock\<close>

text \<open>Everything but the clock itself.\<close>

definition tk_same :: "ticker \<Rightarrow> ticker \<Rightarrow> bool" where
  "tk_same s s' \<longleftrightarrow> tq_event_handler s' = tq_event_handler s \<and> tk_head s' = tk_head s \<and> tq_initialized s' = tq_initialized s \<and>
     tq_dispatching s' = tq_dispatching s \<and> ev_timestamp s' = ev_timestamp s \<and> ev_id s' = ev_id s \<and> ev_next s' = ev_next s \<and>
     tk_out s' = tk_out s \<and> hw_read s' = hw_read s \<and> hw_bits s' = hw_bits s \<and> tq_frequency s' = tq_frequency s \<and> tq_max_delta s' = tq_max_delta s \<and>
     tq_bitmask s' = tq_bitmask s"

lemma update_time:
  assumes "tk_time T j C s"
  shows "tk_time T (hw_n s) (C + (T (hw_n s) - T j)) (update_present_time s) \<and> hw_n (update_present_time s) = Suc (hw_n s) \<and>
    tk_same s (update_present_time s)"
proof -
  note I = assms [unfolded tk_time_def]
  have c: "clock_ok T s" and cf: "tk_conf s" using I by simp_all
  define n where "n = hw_n s"
  have T: "T j \<le> T n" "T n - T j < tk_width s" using clock_mono [OF c] clock_gap [OF c] I by (simp_all add: n_def)
  have b: "unat (hw_bits s) \<le> 32" "tq_bitmask s = mask (unat (hw_bits s))" using cf by (simp_all add: tk_conf_def)
  note D = tick_diff [OF T b(1)]
  have rd: "hw_read s n = of_nat (T n mod tk_width s)" using c by (simp add: clock_ok_def)
  have r: "tk_read s = (of_nat (T n mod tk_width s), s\<lparr>hw_n := Suc n\<rparr>)" by (simp add: tk_read_def rd n_def [symmetric])
  have ns: "\<not> tq_suspended s" using I by simp
  show ?thesis
  proof (cases "T n = T j")
    case True
    then have u: "update_present_time s = s\<lparr>hw_n := Suc n\<rparr>" using ns r I D(2) by (simp add: update_present_time_def)
    show ?thesis unfolding u n_def [symmetric] using I True by (simp add: tk_time_def clock_ok_def tk_conf_def tk_same_def)
  next
    case False
    define s1 where "s1 = s\<lparr>hw_n := Suc n, tq_tick_last_read := of_nat (T n mod tk_width s)\<rparr>"
    have cf1: "tk_conf s1" "tq_tick_remainder s1 = of_nat (10 ^ 6 * C mod tk_freq s1)" using cf I by (simp_all add: s1_def tk_conf_def)
    have "(2 :: nat) ^ unat (hw_bits s) \<le> 2 ^ 32" using b(1) by (rule power_increasing) simp
    then have d: "T n - T j < 2 ^ 32" using T(2) by simp
    obtain e r' where e: "elapsed (of_nat (T n - T j)) s1 = (e, s1\<lparr>tq_tick_remainder := r'\<rparr>)" "r' = of_nat (10 ^ 6 * (C + (T n - T j)) mod tk_freq s1)"
      "of_nat (10 ^ 6 * C div tk_freq s1) + e = (of_nat (10 ^ 6 * (C + (T n - T j)) div tk_freq s1) :: u64)"
      using elapsed_ok [OF cf1 d] by blast
    have uc: "ucast (of_nat (T n - T j) :: u32) = (of_nat (T n - T j) :: u64)"
      using d by (simp add: unsigned_of_nat take_bit_nat_eq_self)
    have u: "update_present_time s = s1\<lparr>tq_tick_remainder := r', tq_present_time := tq_present_time s + e\<rparr>"
      using ns r I D b(2) False e(1) uc by (simp add: update_present_time_def Let_def s1_def)
    show ?thesis unfolding u n_def [symmetric] using I e(2,3)
      by (simp add: tk_time_def clock_ok_def tk_conf_def tk_same_def s1_def)
  qed
qed

section \<open>The interrupt\<close>

lemma match_passed:
  assumes "a \<le> b" "b - a < 2 ^ n" "0 < D" "D < 2 ^ n" "n \<le> 32"
  shows "ticker_match_interval_passed (of_nat (a mod 2 ^ n)) (of_nat (b mod 2 ^ n)) (of_nat ((a + D) mod 2 ^ n)) \<longleftrightarrow> D \<le> b - a"
proof -
  define W where "W = (2 ^ n :: nat)"
  have W: "0 < W" "W \<le> 2 ^ 32" using power_increasing [OF assms(5), of "2::nat"] by (simp_all add: W_def)
  define A where "A = a mod W"
  define d where "d = b - a"
  have A: "A < W" and d: "d < W" "b = a + d" using W(1) assms(1,2) by (simp_all add: A_def d_def W_def)
  have m: "(a + x) mod W = (if A + x < W then A + x else A + x - W)" if "x < W" for x
  proof -
    have "(a + x) mod W = (A + x) mod W" by (simp add: A_def mod_add_left_eq)
    then show ?thesis using that A by (simp add: mod_if)
  qed
  have lt: "(of_nat x :: u32) < of_nat y \<longleftrightarrow> x < y" "(of_nat x :: u32) \<le> of_nat y \<longleftrightarrow> x \<le> y" if "x < W" "y < W" for x y
    using that W(2) by (simp_all add: word_less_nat_alt word_le_nat_alt unat_of_nat)
  define Dm dm where "Dm = (a + D) mod W" and "dm = (a + d) mod W"
  have in_W: "Dm < W" "dm < W" using W(1) by (simp_all add: Dm_def dm_def)
  have Dm: "Dm = (if A + D < W then A + D else A + D - W)" "dm = (if A + d < W then A + d else A + d - W)"
    unfolding Dm_def dm_def using m [of D] m [OF d(1)] assms(4) by (simp_all add: W_def)
  have "ticker_match_interval_passed (of_nat A) (of_nat dm) (of_nat Dm) \<longleftrightarrow>
      (if A < Dm then Dm \<le> dm \<or> dm < A else dm < A \<and> Dm \<le> dm)"
    unfolding ticker_match_interval_passed_def lt(1) [OF A in_W(1)] lt(2) [OF in_W] lt(1) [OF in_W(2) A] ..
  also have "\<dots> \<longleftrightarrow> D \<le> d"
    using A d(1) assms(3,4) unfolding Dm W_def [symmetric] by (cases "A + D < W"; cases "A + d < W"; simp; linarith)
  finally show ?thesis using assms(1) by (simp add: A_def Dm_def dm_def W_def d_def)
qed

text \<open>The ticks to wait for \<open>u\<close> microseconds.\<close>

definition wait_ticks :: "ticker \<Rightarrow> nat \<Rightarrow> nat" where
  "wait_ticks s u = min (7 * 2 ^ (unat (hw_bits s) - 4)) ((u * tk_freq s + 10 ^ 6 - 1) div 10 ^ 6)"

lemma wait_ticks_bounds: "tk_conf s \<Longrightarrow> 0 < u \<Longrightarrow> 0 < wait_ticks s u \<and> wait_ticks s u < tk_width s"
proof -
  assume c: "tk_conf s" and u: "0 < u"
  obtain b where b: "unat (hw_bits s) = b + 4" using c by (auto simp: tk_conf_def dest: le_Suc_ex)
  have "1 \<le> u * tk_freq s" using c u by (simp add: tk_conf_def Suc_le_eq)
  then have "10 ^ 6 \<le> u * tk_freq s + 10 ^ 6 - 1" by linarith
  then have "0 < (u * tk_freq s + 10 ^ 6 - 1) div 10 ^ 6" by (simp add: div_greater_zero_iff)
  moreover have "7 * 2 ^ b < (2 :: nat) ^ (b + 4)" by (simp add: power_add)
  ultimately show ?thesis by (simp add: wait_ticks_def b min_def)
qed

lemma compute_ok:
  assumes cf: "tk_conf s" and r: "tq_tick_last_read s = of_nat (a mod tk_width s)"
  shows "compute_tick_round_up t s = of_nat ((a + wait_ticks s (unat (t - tq_present_time s))) mod tk_width s)"
proof -
  define f where "f = tk_freq s"
  define b where "b = unat (hw_bits s)"
  define M where "M = (7 * 2 ^ (b - 4) :: nat)"
  define u where "u = unat (t - tq_present_time s)"
  have f: "0 < f" "f < 2 ^ 32" using cf unsigned_less [of "tq_frequency s", where 'a = nat] by (simp_all add: f_def tk_conf_def)
  have b: "4 \<le> b" "b \<le> 32" using cf by (simp_all add: tk_conf_def b_def)
  have "(2 :: nat) ^ (b - 4) \<le> 2 ^ 28" using b by (intro power_increasing) simp_all
  then have M: "M < 2 ^ 31" by (simp add: M_def)
  define U where "U = (M * 10 ^ 6 + f - 1) div f"
  have U: "U * f \<le> M * 10 ^ 6 + f - 1" "M * 10 ^ 6 \<le> U * f"
  proof -
    show "U * f \<le> M * 10 ^ 6 + f - 1" unfolding U_def by (rule div_times_less_eq_dividend)
    have "M * 10 ^ 6 + f - 1 < U * f + f" unfolding U_def using f(1) dividend_less_div_times [of f "M * 10 ^ 6 + f - 1"] by simp
    then show "M * 10 ^ 6 \<le> U * f" using f(1) by linarith
  qed
  have nt: "unat (of_nat n :: u64) = n" if "n < 2 ^ 64" for n unfolding unat_of_nat by (rule mod_less) (use that in simp)
  have U64: "U < 2 ^ 64"
  proof -
    have "U \<le> U * f" using f(1) by simp
    also have "\<dots> \<le> M * 10 ^ 6 + f - 1" by (rule U(1))
    also have "\<dots> < 2 ^ 64" using M f by simp
    finally show ?thesis .
  qed
  have mdu: "unat (tq_max_delta_us s) = U" using cf nt [OF U64] by (simp add: tk_conf_def U_def M_def f_def b_def)
  have md: "tq_max_delta s = of_nat M" using cf by (simp add: tk_conf_def M_def b_def)
  have mdn: "unat (tq_max_delta s) = M" unfolding md unat_of_nat by (rule mod_less) (use M in simp)
  define D where "D = (u * f + 10 ^ 6 - 1) div 10 ^ 6"
  have small: "D < 2 ^ 32 \<and> u * f + 10 ^ 6 < 2 ^ 64" if "u \<le> U"
  proof -
    have "u * f \<le> M * 10 ^ 6 + f - 1" using that U(1) mult_le_mono1 [OF that, of f] by linarith
    moreover have "M * 10 ^ 6 + f - 1 + 10 ^ 6 < 2 ^ 32 * 10 ^ 6" using M f by simp
    ultimately have "u * f + 10 ^ 6 - 1 < 2 ^ 32 * 10 ^ 6" "u * f + 10 ^ 6 < 2 ^ 64" by simp_all
    then show ?thesis unfolding D_def by (simp add: less_mult_imp_div_less)
  qed
  have big: "M \<le> D" if "\<not> u \<le> U"
  proof -
    have "U + 1 \<le> u" using that by simp
    then have "(U + 1) * f \<le> u * f" by (rule mult_le_mono1)
    then have "M * 10 ^ 6 \<le> u * f" using U(2) by simp
    then have "M * 10 ^ 6 \<le> u * f + 10 ^ 6 - 1" by simp
    then show ?thesis unfolding D_def by (simp add: less_eq_div_iff_mult_less_eq)
  qed
  define v where "v = t - tq_present_time s"
  have uv: "unat v = u" by (simp add: u_def v_def)
  have le: "v \<le> tq_max_delta_us s \<longleftrightarrow> u \<le> U" by (simp add: word_le_nat_alt uv mdu)
  define w where "w = min M D"
  have wt: "wait_ticks s u = w" by (simp add: wait_ticks_def w_def M_def D_def f_def b_def)
  have delta: "(if v \<le> tq_max_delta_us s then
               (let delta =
                  (if tq_frequency s = 1000000 then ucast v
                   else if tq_frequency_shifts s \<noteq> 0 then ucast ((push_bit (unat (tq_frequency_shifts s)) v + 1000000 - 1) div 1000000)
                   else ucast ((v * ucast (tq_frequency s) + 1000000 - 1) div 1000000) :: u32)
                in if tq_max_delta s < delta then tq_max_delta s else delta)
             else tq_max_delta s) = of_nat w"
  proof (cases "u \<le> U")
    case False
    then show ?thesis using le big md by (simp add: w_def min_absorb1)
  next
    case True
    note S = small [OF True]
    have q: "ucast ((x + 1000000 - 1) div 1000000) = (of_nat D :: u32)" if "x = (of_nat (u * f) :: u64)" for x
    proof -
      have "x + 1000000 - 1 = of_nat (u * f + 999999)" using that by simp
      moreover have "u * f + 999999 < 2 ^ 64" using S by simp
      ultimately have "unat (x + 1000000 - 1) = u * f + 999999" using nt by (simp only:)
      then have "unat ((x + 1000000 - 1) div 1000000) = D" by (simp add: unat_div D_def)
      then have "(x + 1000000 - 1) div 1000000 = of_nat D" by (metis of_nat_unat ucast_id)
      then show ?thesis using S by (simp add: unsigned_of_nat take_bit_nat_eq_self)
    qed
    have v: "v = of_nat u" by (simp add: u_def v_def)
    have fq: "ucast (tq_frequency s) = (of_nat f :: u64)" by (simp add: f_def)
    define d0 :: u32 where "d0 = (if tq_frequency s = 1000000 then ucast v
                   else if tq_frequency_shifts s \<noteq> 0 then ucast ((push_bit (unat (tq_frequency_shifts s)) v + 1000000 - 1) div 1000000)
                   else ucast ((v * ucast (tq_frequency s) + 1000000 - 1) div 1000000))"
    have d0: "d0 = of_nat D"
    proof (cases "tq_frequency s = 1000000")
      case True
      then have "D = u" by (simp add: D_def f_def)
      then show ?thesis using True S v by (simp add: d0_def unsigned_of_nat take_bit_nat_eq_self)
    next
      case nf: False
      show ?thesis
      proof (cases "tq_frequency_shifts s = 0")
        case True
        then show ?thesis using nf q [of "v * ucast (tq_frequency s)"] v fq by (simp add: d0_def)
      next
        case False
        then have "f = 2 ^ unat (tq_frequency_shifts s)" using cf by (simp add: tk_conf_def f_def)
        then have "push_bit (unat (tq_frequency_shifts s)) v = of_nat (u * f)" using v by (simp add: push_bit_eq_mult)
        then show ?thesis using nf False q by (simp add: d0_def)
      qed
    qed
    have "unat d0 = D" unfolding d0 unat_of_nat by (rule mod_less) (use S in simp)
    then have "tq_max_delta s < d0 \<longleftrightarrow> M < D" by (simp add: word_less_nat_alt mdn)
    then show ?thesis using le True d0 md unfolding d0_def [symmetric] Let_def by (simp add: w_def min_def)
  qed
  have "compute_tick_round_up t s = (tq_tick_last_read s + of_nat w) AND tq_bitmask s"
    using delta unfolding compute_tick_round_up_def Let_def v_def by (simp only:)
  also have "\<dots> = of_nat ((a + w) mod 2 ^ b)" using cf r tick_add [of a b w] by (simp add: tk_conf_def b_def)
  finally show ?thesis using wt by (simp add: b_def u_def)
qed

text \<open>Scheduling: what the hardware is told.  \<open>k\<close> is the reading made for it and \<open>now\<close> the time then.\<close>

definition tk_now :: "nat \<Rightarrow> ticker \<Rightarrow> u64" where
  "tk_now C s = of_nat (10 ^ 6 * C div tk_freq s)"

definition schedule_out :: "(nat \<Rightarrow> nat) \<Rightarrow> nat \<Rightarrow> nat \<Rightarrow> ticker \<Rightarrow> tk_effect list" where
  "schedule_out T k C s =
     (if tk_head s = NULL then [Set_interrupt (of_nat ((T k + 7 * 2 ^ (unat (hw_bits s) - 4)) mod tk_width s))]
      else if ev_timestamp s (tk_head s) \<le> tk_now C s then [Fire_interrupt]
      else let D = wait_ticks s (unat (ev_timestamp s (tk_head s) - tk_now C s)) in
        Set_interrupt (of_nat ((T k + D) mod tk_width s)) # (if D \<le> T (Suc k) - T k then [Fire_interrupt] else []))"

lemma tk_time_emit: "tk_time T j C (tk_emit e s) = tk_time T j C s"
  by (simp add: tk_time_def clock_ok_def tk_conf_def tk_emit_def)

lemma tk_same_trans: "tk_same s s1 \<Longrightarrow> tk_same s1 s2 \<Longrightarrow> tk_same s s2"
  by (simp add: tk_same_def)

lemma schedule_ok:
  assumes t: "tk_time T j C s" and nd: "\<not> tq_dispatching s"
  defines "k \<equiv> hw_n s" and "C' \<equiv> C + (T (hw_n s) - T j)"
  shows "\<exists>s'. schedule_interrupt s = Some s' \<and> tk_time T k C' s' \<and> tk_out s' = tk_out s @ schedule_out T k C' s \<and> tk_same s (s'\<lparr>tk_out := tk_out s\<rparr>)"
proof -
  define u where "u = update_present_time s"
  have U: "tk_time T k C' u" "hw_n u = Suc k" "tk_same s u" using update_time [OF t] by (simp_all add: u_def k_def C'_def)
  have ns: "\<not> tq_suspended s" using t by (simp add: tk_time_def)
  have f: "tk_head u = tk_head s" "ev_timestamp u = ev_timestamp s" "hw_bits u = hw_bits s" "tq_frequency u = tq_frequency s" "tk_out u = tk_out s"
    using U(3) by (simp_all add: tk_same_def)
  have cf: "tk_conf u" "clock_ok T u" and lr: "tq_tick_last_read u = of_nat (T k mod tk_width u)" and pt: "tq_present_time u = tk_now C' s"
    using U(1) f by (simp_all add: tk_time_def tk_now_def)
  have b: "unat (hw_bits u) \<le> 32" using cf by (simp add: tk_conf_def)
  consider (none) "tk_head s = NULL" | (due) "tk_head s \<noteq> NULL" "ev_timestamp s (tk_head s) \<le> tk_now C' s"
    | (later) "tk_head s \<noteq> NULL" "tk_now C' s < ev_timestamp s (tk_head s)" by fastforce
  then show ?thesis
  proof cases
    case none
    define x where "x = 7 * (2 :: nat) ^ (unat (hw_bits u) - 4)"
    have "(tq_tick_last_read u + tq_max_delta u) AND tq_bitmask u = of_nat ((T k + x) mod tk_width u)"
      using cf lr tick_add [of "T k" "unat (hw_bits u)" x] by (simp add: tk_conf_def x_def)
    then have e: "schedule_interrupt s = Some (tk_emit (Set_interrupt (of_nat ((T k + x) mod tk_width u))) u)"
      using ns nd none f(1) by (simp add: schedule_interrupt_def u_def [symmetric])
    show ?thesis using U(1,3) f none unfolding e by (simp add: tk_time_emit schedule_out_def x_def tk_emit_def [of _ u] tk_same_def) (simp add: tk_time_def clock_ok_def tk_conf_def)
  next
    case due
    then have e: "schedule_interrupt s = Some (tk_emit Fire_interrupt u)"
      using ns nd f pt by (simp add: schedule_interrupt_def u_def [symmetric])
    show ?thesis using U(1,3) f due unfolding e by (simp add: schedule_out_def tk_emit_def [of _ u] tk_same_def) (simp add: tk_time_def clock_ok_def tk_conf_def)
  next
    case later
    define D where "D = wait_ticks u (unat (ev_timestamp s (tk_head s) - tk_now C' s))"
    have "ev_timestamp s (tk_head s) - tk_now C' s \<noteq> 0" using later(2) by auto
    then have D: "0 < D" "D < tk_width u" using wait_ticks_bounds [OF cf(1), of "unat (ev_timestamp s (tk_head s) - tk_now C' s)"] by (simp_all add: D_def unat_gt_0)
    have m: "compute_tick_round_up (ev_timestamp s (tk_head s)) u = of_nat ((T k + D) mod tk_width u)"
      using compute_ok [OF cf(1) lr] pt by (simp add: D_def)
    have ne: "(of_nat ((T k + D) mod tk_width u) :: u32) \<noteq> of_nat (T k mod tk_width u)"
      using tick_diff(2) [of "T k" "T k + D" "unat (hw_bits u)"] D b by simp
    have T: "T k \<le> T (Suc k)" "T (Suc k) - T k < tk_width u"
      using clock_mono [OF cf(2)] clock_gap [OF cf(2), of k "Suc k"] by simp_all
    have rd: "hw_read u (Suc k) = of_nat (T (Suc k) mod tk_width u)" using cf(2) by (simp add: clock_ok_def)
    have p: "ticker_match_interval_passed (tq_tick_last_read u) (hw_read u (Suc k)) (of_nat ((T k + D) mod tk_width u)) \<longleftrightarrow> D \<le> T (Suc k) - T k"
      unfolding lr rd by (rule match_passed [OF T D b])
    define s1 where "s1 = u\<lparr>tk_out := tk_out u @ [Set_interrupt (of_nat ((T k + D) mod tk_width u))], hw_n := Suc (Suc k)\<rparr>"
    have e: "schedule_interrupt s = Some (if D \<le> T (Suc k) - T k then tk_emit Fire_interrupt s1 else s1)"
      using ns nd f later pt m ne lr p U(2) by (simp add: schedule_interrupt_def u_def [symmetric] tk_read_def tk_emit_def s1_def Let_def)
    have t1: "tk_time T k C' s1" using U(1,2) by (simp add: tk_time_def clock_ok_def tk_conf_def s1_def)
    have De: "wait_ticks s (unat (ev_timestamp s (tk_head s) - tk_now C' s)) = D" using f by (simp add: D_def wait_ticks_def)
    have "schedule_out T k C' s = Set_interrupt (of_nat ((T k + D) mod tk_width u)) # (if D \<le> T (Suc k) - T k then [Fire_interrupt] else [])"
      using later f(3) by (simp add: schedule_out_def De Let_def not_le)
    then have o: "tk_out (if D \<le> T (Suc k) - T k then tk_emit Fire_interrupt s1 else s1) = tk_out s @ schedule_out T k C' s"
      using f(5) by (simp add: tk_emit_def s1_def)
    have t2: "tk_time T k C' (if D \<le> T (Suc k) - T k then tk_emit Fire_interrupt s1 else s1)" using t1 by (simp add: tk_time_emit)
    have "tk_same s (x\<lparr>tk_out := tk_out s\<rparr>)" if "x = s1 \<or> x = tk_emit Fire_interrupt s1" for x
      using that U(3) unfolding tk_same_def tk_emit_def s1_def by (elim disjE) simp_all
    then have "tk_same s ((if D \<le> T (Suc k) - T k then tk_emit Fire_interrupt s1 else s1)\<lparr>tk_out := tk_out s\<rparr>)" by simp
    then show ?thesis using e t2 o by blast
  qed
qed

text \<open>The tick to wait for is the one at which the time is reached, unless it is too far.\<close>

lemma wait_not_early:
  assumes c: "tk_conf s" and D: "wait_ticks s u < 7 * 2 ^ (unat (hw_bits s) - 4)" and u: "0 < u"
  shows "10 ^ 6 * C div tk_freq s + u \<le> 10 ^ 6 * (C + wait_ticks s u) div tk_freq s \<and>
    10 ^ 6 * (C + (wait_ticks s u - 1)) div tk_freq s \<le> 10 ^ 6 * C div tk_freq s + u"
proof -
  define f where "f = tk_freq s"
  have f: "0 < f" using c by (simp add: f_def tk_conf_def)
  define D where "D = wait_ticks s u"
  have De: "D = (u * f + 10 ^ 6 - 1) div 10 ^ 6" using assms(2) by (simp add: D_def wait_ticks_def f_def min_def split: if_splits)
  have D1: "u * f \<le> D * 10 ^ 6" "(D - 1) * 10 ^ 6 < u * f"
  proof -
    have l: "D * 10 ^ 6 \<le> u * f + 10 ^ 6 - 1" unfolding De by (rule div_times_less_eq_dividend)
    have "u * f + 10 ^ 6 - 1 < D * 10 ^ 6 + 10 ^ 6" unfolding De using dividend_less_div_times [of "10 ^ 6" "u * f + 10 ^ 6 - 1"] by simp
    then show "u * f \<le> D * 10 ^ 6" by simp
    have "0 < u * f" using u f by simp
    then show "(D - 1) * 10 ^ 6 < u * f" using l by (cases D) simp_all
  qed
  define q r where "q = 10 ^ 6 * C div f" and "r = 10 ^ 6 * C mod f"
  have C: "10 ^ 6 * C = q * f + r" "r < f" using f by (simp_all add: q_def r_def)
  have "(q + u) * f \<le> 10 ^ 6 * (C + D)" using C(1) D1(1) by (simp add: algebra_simps)
  then have 1: "q + u \<le> 10 ^ 6 * (C + D) div f" using f by (simp add: less_eq_div_iff_mult_less_eq)
  have "10 ^ 6 * (C + (D - 1)) = 10 ^ 6 * C + (D - 1) * 10 ^ 6" by (rule trans [OF distrib_left]) (simp add: mult.commute)
  then have "10 ^ 6 * (C + (D - 1)) = q * f + r + (D - 1) * 10 ^ 6" by (simp only: C(1))
  also have "\<dots> < q * f + f + u * f" using C(2) D1(2) by linarith
  finally have "10 ^ 6 * (C + (D - 1)) < (q + u + 1) * f" by (simp add: algebra_simps)
  then have "10 ^ 6 * (C + (D - 1)) div f < q + u + 1" by (simp add: less_mult_imp_div_less)
  then show ?thesis using 1 by (simp add: D_def q_def f_def)
qed

section \<open>Initialisation\<close>

lemma unat_two_power: "n < 32 \<Longrightarrow> unat (2 ^ n :: u32) = 2 ^ n"
proof -
  assume n: "n < 32"
  have "unat (2 ^ n :: u32) = unat (of_nat (2 ^ n) :: u32)" by simp
  also have "\<dots> = 2 ^ n mod 2 ^ 32" unfolding unat_of_nat by simp
  also have "\<dots> = 2 ^ n" by (rule mod_less) (rule power_strict_increasing, use n in simp_all)
  finally show ?thesis .
qed

lemma shifts_loop_ok: "i < 32 \<Longrightarrow> shifts_loop i f \<noteq> 0 \<Longrightarrow> unat (shifts_loop i f) < 32 \<and> unat f = 2 ^ unat (shifts_loop i f)"
proof (induction i)
  case (Suc i)
  show ?case
  proof (cases "push_bit (Suc i) 1 = f")
    case True
    then have s: "shifts_loop (Suc i) f = of_nat (Suc i)" by simp
    have n: "unat (of_nat (Suc i) :: u8) = Suc i" unfolding unat_of_nat by (rule mod_less) (use Suc.prems in simp)
    have "f = 2 ^ Suc i" using True by (simp add: push_bit_eq_mult)
    then have "unat f = 2 ^ Suc i" using unat_two_power [OF Suc.prems(1)] by (simp only:)
    then show ?thesis unfolding s n using Suc.prems by simp
  next
    case False
    then show ?thesis using Suc by simp
  qed
qed simp

lemma init_conf:
  assumes f: "f \<noteq> 0" and b: "4 \<le> unat b" "unat b \<le> 32"
    and s: "tq_frequency s = f" "hw_bits s = b" "tq_frequency_shifts s = shifts_loop 31 f" "tq_bitmask s = ucast (push_bit (unat b) 1 - 1 :: u64)"
      "tq_max_delta s = push_bit (unat b - 4) 7" "tq_max_delta_us s = (ucast (push_bit (unat b - 4) 7 :: u32) * 1000000 + ucast f - 1) div ucast f"
  shows "tk_conf s"
proof -
  define M where "M = 7 * (2 :: nat) ^ (unat b - 4)"
  have "(2 :: nat) ^ (unat b - 4) \<le> 2 ^ 28" using b by (intro power_increasing) simp_all
  then have M: "M < 2 ^ 31" by (simp add: M_def)
  have m: "(push_bit (unat b - 4) 7 :: u32) = of_nat M" by (simp add: push_bit_eq_mult M_def mult.commute)
  have um: "(ucast (of_nat M :: u32) :: u64) = of_nat M" using M by (simp add: unsigned_of_nat take_bit_nat_eq_self)
  have nt: "unat (of_nat n :: u64) = n" if "n < 2 ^ 64" for n unfolding unat_of_nat by (rule mod_less) (use that in simp)
  have f32: "unat f < 2 ^ 32" "0 < unat f" using unsigned_less [of f, where 'a = nat] f by (simp_all add: unat_gt_0)
  have "(of_nat M * 1000000 + ucast f - 1 :: u64) = of_nat (M * 10 ^ 6 + unat f - 1)" using f32 by (simp add: of_nat_diff)
  moreover have "(ucast f :: u64) = of_nat (unat f)" by simp
  moreover have "M * 10 ^ 6 + unat f - 1 < 2 ^ 64" "unat f < 2 ^ 64" using M f32 by simp_all
  ultimately have "unat ((of_nat M * 1000000 + ucast f - 1 :: u64) div ucast f) = (M * 10 ^ 6 + unat f - 1) div unat f" using nt by (simp only: unat_div)
  then have d: "(of_nat M * 1000000 + ucast f - 1 :: u64) div ucast f = of_nat ((M * 10 ^ 6 + unat f - 1) div unat f)" by (metis of_nat_unat ucast_id)
  have k: "(ucast (push_bit (unat b) 1 - 1 :: u64) :: u32) = mask (unat b)"
  proof -
    have "(push_bit (unat b) 1 - 1 :: u64) = mask (unat b)" by (simp add: mask_eq_exp_minus_1 push_bit_eq_mult)
    then show ?thesis using b by (intro bit_eqI) (simp add: bit_simps)
  qed
  show ?thesis unfolding tk_conf_def s(3) using b f32 s(1,2,4-6) m um d k shifts_loop_ok [of 31 f] by (simp add: M_def)
qed

lemma init_ok:
  assumes c: "clock_ok T s" and i: "\<not> tq_initialized s" "\<not> tq_suspended s" and f: "hw_freq s \<noteq> 0" and b: "4 \<le> unat (hw_bits s)" "unat (hw_bits s) \<le> 32"
  defines "n \<equiv> hw_n s"
  shows "\<exists>s'. ticker_initialize s = Some s' \<and> tk_time T (n + 2) (T (n + 2) - T n) s' \<and>
    tq_initialized s' \<and> \<not> tq_dispatching s' \<and> \<not> tq_event_handler s' \<and> tk_head s' = NULL \<and> tq_frequency s' = hw_freq s \<and> hw_bits s' = hw_bits s"
proof -
  have bw: "\<not> (32 < hw_bits s \<or> hw_bits s < 4)" using b by (simp add: word_less_nat_alt not_less)
  define s1 where "s1 = s\<lparr>tq_event_handler := False, tk_head := NULL, hw_n := Suc n,
                  tq_tick_last_read := hw_read s n, tq_tick_remainder := 0, tq_frequency := hw_freq s, tq_frequency_shifts := shifts_loop 31 (hw_freq s),
                  tq_bitmask := ucast (push_bit (unat (hw_bits s)) 1 - 1 :: u64), tq_max_delta := push_bit (unat (hw_bits s) - 4) 7,
                  tq_max_delta_us := (ucast (push_bit (unat (hw_bits s) - 4) 7 :: u32) * 1000000 + ucast (hw_freq s) - 1) div ucast (hw_freq s), tq_present_time := 0,
                  tq_dispatching := False, tq_suspended := False, tq_initialized := True\<rparr>"
  have e: "ticker_initialize s = schedule_interrupt (update_present_time s1)"
    using i f bw by (simp add: ticker_initialize_def tk_read_def Let_def s1_def n_def)
  have "tk_conf s1" by (rule init_conf [OF f b]) (simp_all add: s1_def)
  then have t1: "tk_time T n 0 s1" using c by (simp add: tk_time_def clock_ok_def s1_def)
  note U = update_time [OF t1]
  define u where "u = update_present_time s1"
  have h1: "hw_n s1 = Suc n" by (simp add: s1_def)
  have t2: "tk_time T (Suc n) (T (Suc n) - T n) u" and hu: "hw_n u = n + 2" and su: "tk_same s1 u" using U by (simp_all add: u_def h1)
  have nd: "\<not> tq_dispatching u" using su by (simp add: tk_same_def s1_def)
  obtain s' where S: "schedule_interrupt u = Some s'" "tk_time T (n + 2) (T (Suc n) - T n + (T (n + 2) - T (Suc n))) s'" "tk_same u (s'\<lparr>tk_out := tk_out u\<rparr>)"
    using schedule_ok [OF t2 nd] hu by auto
  have "T n \<le> T (Suc n)" "T (Suc n) \<le> T (n + 2)" using clock_mono [OF c] by simp_all
  then have "T (Suc n) - T n + (T (n + 2) - T (Suc n)) = T (n + 2) - T n" by simp
  moreover have "tk_same s1 (s'\<lparr>tk_out := tk_out u\<rparr>)" by (rule tk_same_trans [OF su S(3)])
  ultimately show ?thesis using S(1,2) e unfolding u_def [symmetric]
    by (intro exI [of _ s']) (simp add: tk_same_def s1_def)
qed

end
