(* ===== verification/TickerQueue.thy ===== *)
theory TickerQueue
  imports TickerSpec
begin

text \<open>
  The queue of timed events: it stays a linked list in the order of the timestamps, events of one time in the order of their
  insertion, and the interrupt takes the events that are due off its front.
\<close>

fun ev_list :: "(addr \<Rightarrow> addr) \<Rightarrow> addr \<Rightarrow> addr list \<Rightarrow> bool" where
  "ev_list nx p [] = (p = NULL)"
| "ev_list nx p (x # xs) = (p = x \<and> x \<noteq> NULL \<and> ev_list nx (nx x) xs)"

definition ev_first :: "addr list \<Rightarrow> addr" where
  "ev_first L = (case L of [] \<Rightarrow> NULL | x # _ \<Rightarrow> x)"

lemma ev_first_simps [simp]: "ev_first [] = NULL" "ev_first (x # L) = x"
  by (simp_all add: ev_first_def)

lemma ev_list_first: "ev_list nx p L \<Longrightarrow> p = ev_first L"
  by (cases L) auto

lemma ev_list_null: "ev_list nx p L \<Longrightarrow> NULL \<notin> set L"
  by (induction L arbitrary: p) auto

lemma ev_list_upd [simp]: "x \<notin> set L \<Longrightarrow> ev_list (nx(x := q)) p L = ev_list nx p L"
  by (induction L arbitrary: p) auto

lemma ev_list_append: "ev_list nx p (A @ B) \<Longrightarrow> B \<noteq> [] \<Longrightarrow> ev_list nx (ev_first B) B"
  by (induction A arbitrary: p) (auto dest: ev_list_first)

definition ev_le :: "(addr \<Rightarrow> u64) \<Rightarrow> addr list \<Rightarrow> bool" where
  "ev_le ts L = sorted_wrt (\<lambda>x y. ts x \<le> ts y) L"

lemma ev_le_upd [simp]: "x \<notin> set L \<Longrightarrow> ev_le (ts(x := t)) L = ev_le ts L"
  by (induction L) (auto simp: ev_le_def)

section \<open>Insertion\<close>

text \<open>The place of an event: behind everything that is not later.\<close>

abbreviation ins_event :: "(addr \<Rightarrow> u64) \<Rightarrow> addr \<Rightarrow> addr list \<Rightarrow> addr list" where
  "ins_event ts obj \<equiv> ins_after (\<lambda>x. ts x \<le> ts obj) obj"

lemma search_ok:
  "ev_list nx p L \<Longrightarrow> ticker_search nx ts t prev p = Some (last (prev # takeWhile (\<lambda>x. ts x \<le> t) L), ev_first (dropWhile (\<lambda>x. ts x \<le> t) L))"
proof (induction L arbitrary: p prev)
  case Nil
  then show ?case by (simp add: ticker_search.simps)
next
  case (Cons x L)
  then have p: "p = x" "x \<noteq> NULL" and l: "ev_list nx (nx x) L" by simp_all
  show ?case
  proof (cases "ts x \<le> t")
    case True
    then have "\<not> t < ts x" by (simp add: not_less)
    then show ?thesis using True p Cons.IH [OF l, of x] by (subst ticker_search.simps) simp
  next
    case False
    then have "t < ts x" by (simp add: not_le)
    then show ?thesis using False p by (subst ticker_search.simps) simp
  qed
qed

lemma ev_list_insert:
  assumes "ev_list nx p (A @ B)" "distinct (A @ B)" "obj \<notin> set (A @ B)" "obj \<noteq> NULL"
  shows "ev_list (if A = [] then nx(obj := ev_first B) else nx(obj := ev_first B, last A := obj)) (if A = [] then obj else p) (A @ obj # B)"
  using assms
proof (induction A arbitrary: p)
  case Nil
  then have "ev_list nx (ev_first B) B" by (cases B) auto
  then have "ev_list (nx(obj := ev_first B)) (ev_first B) B" using Nil.prems(3) by (subst ev_list_upd) simp_all
  then show ?case using Nil.prems(4) by (simp add: fun_upd_def)
next
  case (Cons x A)
  then have l: "ev_list nx (nx x) (A @ B)" and x: "x \<noteq> NULL" "x \<noteq> obj" "x \<notin> set A" "x \<notin> set B" and p: "p = x" by auto
  have IH: "ev_list (if A = [] then nx(obj := ev_first B) else nx(obj := ev_first B, last A := obj)) (if A = [] then obj else nx x) (A @ obj # B)"
    by (rule Cons.IH [OF l]) (use Cons.prems in simp_all)
  show ?case
  proof (cases "A = []")
    case True
    then have n: "ev_list (nx(obj := ev_first B)) obj (obj # B)" using IH by simp
    have "ev_list (nx(obj := ev_first B, x := obj)) obj (obj # B)" by (subst ev_list_upd) (use n x in simp_all)
    then show ?thesis using True x p unfolding ev_list.simps append_Nil append_Cons by (simp add: fun_upd_def)
  next
    case False
    then have "last A \<noteq> x" using x(3) last_in_set by metis
    then show ?thesis using False IH x p by (simp add: fun_upd_def)
  qed
qed

lemma ins_event_sorted: "ev_le ts L \<Longrightarrow> ev_le ts (ins_event ts obj L)"
proof (induction L)
  case Nil
  then show ?case by (simp add: ev_le_def ins_after_def)
next
  case (Cons x L)
  then have IH: "ev_le ts (ins_event ts obj L)" by (simp add: ev_le_def)
  show ?case
  proof (cases "ts x \<le> ts obj")
    case True
    then have "ins_event ts obj (x # L) = x # ins_event ts obj L" by (simp add: ins_after_def)
    then show ?thesis using IH True Cons.prems by (simp add: ev_le_def)
  next
    case False
    then have i: "ins_event ts obj (x # L) = obj # x # L" and lt: "ts obj \<le> ts x" by (simp_all add: ins_after_def)
    have "ts obj \<le> ts y" if "y \<in> set L" for y
    proof -
      have "ts x \<le> ts y" using Cons.prems that by (simp add: ev_le_def)
      then show ?thesis using lt by (rule order_trans [rotated])
    qed
    then show ?thesis using Cons.prems lt by (simp add: i ev_le_def)
  qed
qed

section \<open>Removal\<close>

lemma unlink_ok:
  assumes "ev_list nx p L" "distinct L" "p \<noteq> obj" "obj \<noteq> NULL"
  shows "\<exists>nx'. ticker_unlink obj p nx = Some nx' \<and> ev_list nx' p (remove1 obj L) \<and> (obj \<notin> set L \<longrightarrow> nx' = nx) \<and> (\<forall>x. x \<notin> set L \<longrightarrow> nx' x = nx x)"
  using assms
proof (induction L arbitrary: p)
  case Nil
  then show ?case by (simp add: ticker_unlink.simps)
next
  case (Cons x L)
  then have l: "ev_list nx (nx x) L" and p: "p = x" "x \<noteq> NULL" "x \<noteq> obj" and x: "x \<notin> set L" and d: "distinct L" by auto
  show ?case
  proof (cases "nx x = obj")
    case True
    then obtain L' where L: "L = obj # L'" using l Cons.prems(4) by (cases L) auto
    then have "ev_list (nx(x := nx obj)) (nx obj) L'" using l x d by simp
    then show ?thesis using True L p by (subst ticker_unlink.simps) simp
  next
    case False
    obtain nx' where u: "ticker_unlink obj (nx x) nx = Some nx'" "ev_list nx' (nx x) (remove1 obj L)" "obj \<notin> set L \<longrightarrow> nx' = nx" "\<forall>x. x \<notin> set L \<longrightarrow> nx' x = nx x"
      using Cons.IH [OF l d False Cons.prems(4)] by blast
    have "ticker_unlink obj p nx = Some nx'" using False p u(1) by (subst ticker_unlink.simps) simp
    then show ?thesis using p u x by (intro exI [of _ nx']) simp
  qed
qed

lemma ev_le_remove1: "ev_le ts L \<Longrightarrow> ev_le ts (remove1 x L)"
  by (induction L) (auto simp: ev_le_def dest: set_remove1_subset [THEN subsetD])

section \<open>The queue of a ticker\<close>

definition tk_queue :: "addr list \<Rightarrow> ticker \<Rightarrow> bool" where
  "tk_queue L s \<longleftrightarrow> ev_list (ev_next s) (tk_head s) L \<and> distinct L \<and> ev_le (ev_timestamp s) L"

text \<open>A running ticker that counts since reading \<open>n0\<close>.\<close>

definition tk_ok :: "(nat \<Rightarrow> nat) \<Rightarrow> nat \<Rightarrow> addr list \<Rightarrow> ticker \<Rightarrow> bool" where
  "tk_ok T n0 L s \<longleftrightarrow> (\<exists>j\<ge>n0. tk_time T j (T j - T n0) s) \<and> tk_queue L s \<and> tq_initialized s \<and> \<not> tq_dispatching s"

text \<open>The time at reading \<open>k\<close>.\<close>

definition us_at :: "(nat \<Rightarrow> nat) \<Rightarrow> nat \<Rightarrow> nat \<Rightarrow> ticker \<Rightarrow> u64" where
  "us_at T n0 k s = tk_now (T k - T n0) s"

lemma tk_same_queue: "tk_same s s' \<Longrightarrow> tk_queue L s' = tk_queue L s"
  by (simp add: tk_same_def tk_queue_def)

lemma tk_same_now: "tk_same s s' \<Longrightarrow> us_at T n0 k s' = us_at T n0 k s"
  by (simp add: tk_same_def us_at_def tk_now_def)

lemma queue_first: "tk_queue L s \<Longrightarrow> tk_head s = ev_first L"
  unfolding tk_queue_def by (elim conjE) (rule ev_list_first)

lemma update_since:
  assumes "tk_time T j (T j - T n0) s" "n0 \<le> j"
  shows "tk_time T (hw_n s) (T (hw_n s) - T n0) (update_present_time s) \<and> n0 \<le> hw_n s \<and> hw_n (update_present_time s) = Suc (hw_n s) \<and>
    tk_same s (update_present_time s) \<and> tq_present_time (update_present_time s) = us_at T n0 (hw_n s) s"
proof -
  have c: "clock_ok T s" and j: "j < hw_n s" using assms(1) by (simp_all add: tk_time_def)
  have "T n0 \<le> T j" "T j \<le> T (hw_n s)" using clock_mono [OF c] assms(2) j by simp_all
  then have "T j - T n0 + (T (hw_n s) - T j) = T (hw_n s) - T n0" by simp
  then have U: "tk_time T (hw_n s) (T (hw_n s) - T n0) (update_present_time s) \<and> hw_n (update_present_time s) = Suc (hw_n s) \<and> tk_same s (update_present_time s)"
    using update_time [OF assms(1)] by simp
  then have "tq_present_time (update_present_time s) = us_at T n0 (hw_n s) s" by (simp add: tk_time_def us_at_def tk_now_def tk_same_def)
  then show ?thesis using U assms(2) j by simp
qed

lemma schedule_since:
  assumes "tk_time T j (T j - T n0) s" "n0 \<le> j" "\<not> tq_dispatching s"
  defines "k \<equiv> hw_n s"
  shows "\<exists>s'. schedule_interrupt s = Some s' \<and> tk_time T k (T k - T n0) s' \<and> n0 \<le> k \<and> tk_out s' = tk_out s @ schedule_out T k (T k - T n0) s \<and> tk_same s (s'\<lparr>tk_out := tk_out s\<rparr>)"
proof -
  have c: "clock_ok T s" and j: "j < k" using assms(1) by (simp_all add: tk_time_def k_def)
  have "T n0 \<le> T j" "T j \<le> T k" using clock_mono [OF c] assms(2) j by simp_all
  then have "T j - T n0 + (T k - T j) = T k - T n0" by simp
  then show ?thesis using schedule_ok [OF assms(1,3)] assms(2) j unfolding k_def by simp
qed

lemma same_out: "tk_same s (s'\<lparr>tk_out := x\<rparr>) \<Longrightarrow> tk_queue L s' = tk_queue L s \<and> tq_initialized s' = tq_initialized s \<and> tq_dispatching s' = tq_dispatching s \<and>
    tq_frequency s' = tq_frequency s"
  by (simp add: tk_same_def tk_queue_def)

lemma same_schedule_out: "tk_same s (s'\<lparr>tk_out := x\<rparr>) \<Longrightarrow> schedule_out T k C s' = schedule_out T k C s"
  by (simp add: tk_same_def schedule_out_def tk_now_def wait_ticks_def)

section \<open>The operations\<close>

lemma insert_ok:
  fixes t :: u64
  assumes ok: "tk_ok T n0 L s" and obj: "obj \<noteq> NULL" "obj \<notin> set L"
    and ts: "ts = (ev_timestamp s)(obj := t)"
  shows "\<exists>s'. ticker_insert_event_us obj t i s = Some s' \<and> tk_ok T n0 (ins_event ts obj L) s' \<and>
    ev_timestamp s' = ts \<and> ev_id s' = (ev_id s)(obj := i) \<and> tq_event_handler s' = tq_event_handler s \<and> tq_frequency s' = tq_frequency s \<and>
    tk_out s' = tk_out s @ (if ev_first (ins_event ts obj L) = obj then schedule_out T (hw_n s + 1) (T (hw_n s + 1) - T n0) s' else [])"
proof -
  obtain j where j: "n0 \<le> j" "tk_time T j (T j - T n0) s" and q: "tk_queue L s" and nd: "\<not> tq_dispatching s" and qi: "tq_initialized s"
    using ok by (auto simp: tk_ok_def)
  define u where "u = update_present_time s"
  have U: "tk_time T (hw_n s) (T (hw_n s) - T n0) u" "n0 \<le> hw_n s" "hw_n u = Suc (hw_n s)" "tk_same s u" using update_since [OF j(2,1)] by (simp_all add: u_def)
  define A B where "A = takeWhile (\<lambda>x. ts x \<le> t) L" and "B = dropWhile (\<lambda>x. ts x \<le> t) L"
  have AB: "L = A @ B" by (simp add: A_def B_def)
  have ins: "ins_event ts obj L = A @ obj # B" by (simp add: ins_after_def A_def B_def ts)
  have l: "ev_list (ev_next u) (tk_head u) (A @ B)" "distinct (A @ B)" "ev_le (ev_timestamp s) L" using q U(4) by (simp_all add: tk_queue_def tk_same_def AB)
  have le: "ev_le ts L" using l(3) obj(2) unfolding ts by (simp add: ev_le_upd)
  have uf: "ev_timestamp u = ev_timestamp s" "ev_id u = ev_id s" "tk_out u = tk_out s" "tq_dispatching u = tq_dispatching s" "tq_initialized u = tq_initialized s"
    "tq_event_handler u = tq_event_handler s" "tq_frequency u = tq_frequency s" using U(4) by (simp_all add: tk_same_def)
  define nx where "nx = (if A = [] then (ev_next u)(obj := ev_first B) else (ev_next u)(obj := ev_first B, last A := obj))"
  define s1 where "s1 = u\<lparr>ev_timestamp := ts, ev_id := (ev_id s)(obj := i), ev_next := nx, tk_head := (if A = [] then obj else tk_head u)\<rparr>"
  have S: "ticker_search (ev_next u) ts t NULL (tk_head u) = Some (last (NULL # A), ev_first B)"
    using search_ok [of "ev_next u" "tk_head u" L ts t NULL] l(1) by (simp only: AB [symmetric] A_def [symmetric] B_def [symmetric])
  have nn: "last A \<noteq> NULL" if "A \<noteq> []"
    using ev_list_null [OF l(1)] last_in_set [OF that] by auto
  have e: "ticker_insert_event_us obj t i s = (if A = [] then schedule_interrupt s1 else Some s1)"
    using S obj(1) nn uf by (simp add: ticker_insert_event_us_def u_def [symmetric] deref_def Let_def ts s1_def nx_def)
  have "ev_list nx (tk_head s1) (A @ obj # B)" using ev_list_insert [OF l(1,2)] obj unfolding nx_def s1_def by (simp add: AB)
  moreover have "distinct (A @ obj # B)" "ev_le ts (A @ obj # B)"
    using distinct_ins_after [of L obj "\<lambda>x. ts x \<le> ts obj"] ins_event_sorted [OF le, of obj] l(2) obj(2) unfolding ins AB [symmetric] by simp_all
  ultimately have q1: "tk_queue (A @ obj # B) s1" by (simp add: tk_queue_def s1_def)
  have t1: "tk_time T (hw_n s) (T (hw_n s) - T n0) s1" using U(1) by (simp add: tk_time_def clock_ok_def tk_conf_def s1_def)
  have f1: "tq_dispatching s1 = False" "tq_initialized s1 = True" "ev_timestamp s1 = ts" "ev_id s1 = (ev_id s)(obj := i)" "tk_out s1 = tk_out s"
    "hw_n s1 = hw_n s + 1" "tq_event_handler s1 = tq_event_handler s" "tq_frequency s1 = tq_frequency s" using uf nd qi U(3) by (simp_all add: s1_def)
  show ?thesis
  proof (cases "A = []")
    case True
    obtain s' where s': "schedule_interrupt s1 = Some s'" "tk_time T (hw_n s + 1) (T (hw_n s + 1) - T n0) s'" "n0 \<le> hw_n s + 1"
      "tk_out s' = tk_out s @ schedule_out T (hw_n s + 1) (T (hw_n s + 1) - T n0) s1" "tk_same s1 (s'\<lparr>tk_out := tk_out s1\<rparr>)"
      using schedule_since [OF t1 U(2)] f1 by auto
    have "ev_timestamp s' = ts" "ev_id s' = (ev_id s)(obj := i)" "tq_event_handler s' = tq_event_handler s" using s'(5) f1 by (simp_all add: tk_same_def)
    then show ?thesis using True e s' q1 f1 same_out [OF s'(5)] same_schedule_out [OF s'(5)] unfolding ins
      by (intro exI [of _ s']) (auto simp: tk_ok_def)
  next
    case False
    then have "ev_first (A @ obj # B) \<noteq> obj" using obj(2) by (cases A) (auto simp: AB)
    then show ?thesis using False e q1 t1 f1 U(2) unfolding ins by (intro exI [of _ s1]) (auto simp: tk_ok_def)
  qed
qed

lemma remove_ok:
  assumes ok: "tk_ok T n0 L s" and obj: "obj \<noteq> NULL"
  shows "\<exists>s'. ticker_remove_event obj s = Some s' \<and> tk_ok T n0 (remove1 obj L) s' \<and> ev_timestamp s' = ev_timestamp s \<and> ev_id s' = ev_id s \<and> tq_frequency s' = tq_frequency s \<and>
    tk_out s' = tk_out s @ (if ev_first L = obj then schedule_out T (hw_n s) (T (hw_n s) - T n0) s' else [])"
proof -
  obtain j where j: "n0 \<le> j" "tk_time T j (T j - T n0) s" and q: "tk_queue L s" and nd: "\<not> tq_dispatching s" and qi: "tq_initialized s"
    using ok by (auto simp: tk_ok_def)
  have h: "tk_head s = ev_first L" by (rule queue_first [OF q])
  show ?thesis
  proof (cases "ev_first L = obj")
    case True
    then obtain L' where L: "L = obj # L'" using obj by (cases L) auto
    define s1 where "s1 = s\<lparr>tk_head := ev_next s obj\<rparr>"
    have q1: "tk_queue L' s1" using q by (simp add: tk_queue_def L s1_def ev_le_def)
    have t1: "tk_time T j (T j - T n0) s1" using j(2) by (simp add: tk_time_def clock_ok_def tk_conf_def s1_def)
    have f1: "\<not> tq_dispatching s1" "tq_initialized s1" "hw_n s1 = hw_n s" "tk_out s1 = tk_out s" "ev_timestamp s1 = ev_timestamp s" "ev_id s1 = ev_id s" "tq_frequency s1 = tq_frequency s"
      using nd qi by (simp_all add: s1_def)
    obtain s' where s': "schedule_interrupt s1 = Some s'" "tk_time T (hw_n s) (T (hw_n s) - T n0) s'" "n0 \<le> hw_n s"
      "tk_out s' = tk_out s @ schedule_out T (hw_n s) (T (hw_n s) - T n0) s1" "tk_same s1 (s'\<lparr>tk_out := tk_out s1\<rparr>)"
      using schedule_since [OF t1 j(1) f1(1)] unfolding f1(3,4) by blast
    have "ev_timestamp s' = ev_timestamp s" "ev_id s' = ev_id s" using s'(5) f1 by (simp_all add: tk_same_def)
    moreover have "ticker_remove_event obj s = Some s'" using s'(1) True obj by (simp add: ticker_remove_event_def h deref_def s1_def)
    ultimately show ?thesis using True s' q1 f1 same_out [OF s'(5)] same_schedule_out [OF s'(5)] unfolding L
      by (intro exI [of _ s']) (auto simp: tk_ok_def)
  next
    case False
    have l: "ev_list (ev_next s) (tk_head s) L" "distinct L" "ev_le (ev_timestamp s) L" using q by (simp_all add: tk_queue_def)
    obtain nx' where n: "ticker_unlink obj (tk_head s) (ev_next s) = Some nx'" "ev_list nx' (tk_head s) (remove1 obj L)"
      using unlink_ok [OF l(1,2) _ obj] False h by auto
    define s1 where "s1 = s\<lparr>ev_next := nx'\<rparr>"
    have q1: "tk_queue (remove1 obj L) s1" using n(2) l by (simp add: tk_queue_def s1_def ev_le_remove1)
    have t1: "tk_time T j (T j - T n0) s1" using j(2) by (simp add: tk_time_def clock_ok_def tk_conf_def s1_def)
    have "ticker_remove_event obj s = Some s1" using n(1) False by (simp add: ticker_remove_event_def h s1_def)
    then show ?thesis using False q1 t1 j(1) nd qi by (intro exI [of _ s1]) (auto simp: tk_ok_def s1_def)
  qed
qed

section \<open>The interrupt\<close>

text \<open>A handler that only records that it was called.\<close>

definition tk_log :: "u32 \<Rightarrow> ticker \<Rightarrow> ticker option" where
  "tk_log i s = Some (tk_emit (Handler i) s)"

text \<open>\<open>n\<close> events are taken: the \<open>i\<close>-th is due at the reading made for it, and the one behind them is not.\<close>

definition due_prefix :: "(nat \<Rightarrow> nat) \<Rightarrow> nat \<Rightarrow> nat \<Rightarrow> nat \<Rightarrow> addr list \<Rightarrow> ticker \<Rightarrow> bool" where
  "due_prefix T n0 k n L s \<longleftrightarrow> n \<le> length L \<and> (\<forall>i<n. ev_timestamp s (L ! i) \<le> us_at T n0 (k + i) s) \<and>
     (n < length L \<longrightarrow> us_at T n0 (k + n) s < ev_timestamp s (L ! n))"

definition tk_rest :: "ticker \<Rightarrow> ticker \<Rightarrow> bool" where
  "tk_rest s s' \<longleftrightarrow> tk_same s (s'\<lparr>tk_out := tk_out s, tk_head := tk_head s\<rparr>)"

lemma dispatch_ok:
  assumes "tk_time T j (T j - T n0) s" "n0 \<le> j" "tk_queue L s" "tq_event_handler s"
  shows "\<exists>n s'. ticker_dispatch_loop tk_log s = Some s' \<and> due_prefix T n0 (hw_n s) n L s \<and> (\<exists>j'\<ge>n0. tk_time T j' (T j' - T n0) s') \<and> tk_queue (drop n L) s' \<and>
    tk_out s' = tk_out s @ map (\<lambda>x. Handler (ev_id s x)) (take n L) \<and> tk_rest s s' \<and> hw_n s' = hw_n s + n + (if n < length L then 1 else 0)"
  using assms
proof (induction L arbitrary: s j)
  case Nil
  then have "tk_head s = NULL" by (simp add: tk_queue_def)
  then have "ticker_dispatch_loop tk_log s = Some s" by (simp add: ticker_dispatch_loop.simps)
  then show ?case using Nil by (intro exI [of _ 0] exI [of _ s]) (auto simp: due_prefix_def tk_rest_def tk_same_def)
next
  case (Cons x L)
  define u where "u = update_present_time s"
  have U: "tk_time T (hw_n s) (T (hw_n s) - T n0) u" "n0 \<le> hw_n s" "hw_n u = Suc (hw_n s)" "tk_same s u" "tq_present_time u = us_at T n0 (hw_n s) s"
    using update_since [OF Cons.prems(1,2)] by (simp_all add: u_def)
  have h: "tk_head s = x" "x \<noteq> NULL" and q: "tk_queue L (s\<lparr>tk_head := ev_next s x\<rparr>)" using Cons.prems(3) by (simp_all add: tk_queue_def ev_le_def)
  have uf: "tk_head u = x" "ev_timestamp u = ev_timestamp s" "ev_next u = ev_next s" "ev_id u = ev_id s" "tk_out u = tk_out s" "tq_event_handler u"
    using U(4) h Cons.prems(4) by (simp_all add: tk_same_def)
  show ?case
  proof (cases "ev_timestamp s x \<le> us_at T n0 (hw_n s) s")
    case False
    then have "ticker_dispatch_loop tk_log s = Some u" using h uf U(5) by (subst ticker_dispatch_loop.simps) (simp add: u_def [symmetric])
    moreover have "tk_queue (x # L) u" using Cons.prems(3) tk_same_queue [OF U(4)] by simp
    moreover have "tk_rest s u" using U(4) by (simp add: tk_rest_def tk_same_def)
    ultimately show ?thesis using False U uf by (intro exI [of _ 0] exI [of _ u]) (auto simp: due_prefix_def)
  next
    case True
    define s1 where "s1 = tk_emit (Handler (ev_id s x)) (u\<lparr>tk_head := ev_next s x\<rparr>)"
    have e: "ticker_dispatch_loop tk_log s = ticker_dispatch_loop tk_log s1"
      using True h uf U(5) by (subst ticker_dispatch_loop.simps) (simp add: u_def [symmetric] tk_log_def s1_def)
    have t1: "tk_time T (hw_n s) (T (hw_n s) - T n0) s1" using U(1) by (simp add: s1_def tk_time_emit) (simp add: tk_time_def clock_ok_def tk_conf_def)
    have q1: "tk_queue L s1" using q uf by (simp add: tk_queue_def s1_def tk_emit_def)
    have f1: "tq_event_handler s1" "hw_n s1 = Suc (hw_n s)" "tk_out s1 = tk_out s @ [Handler (ev_id s x)]" "ev_id s1 = ev_id s" "ev_timestamp s1 = ev_timestamp s"
      using uf U(3) by (simp_all add: s1_def tk_emit_def)
    have r1: "tk_rest s s1" using U(4) by (simp add: tk_rest_def tk_same_def s1_def tk_emit_def)
    have n1: "us_at T n0 k s1 = us_at T n0 k s" for k using r1 by (simp add: tk_rest_def tk_same_def us_at_def tk_now_def)
    obtain n s' where IH: "ticker_dispatch_loop tk_log s1 = Some s'" "due_prefix T n0 (hw_n s1) n L s1" "\<exists>j'\<ge>n0. tk_time T j' (T j' - T n0) s'" "tk_queue (drop n L) s'"
      "tk_out s' = tk_out s1 @ map (\<lambda>x. Handler (ev_id s1 x)) (take n L)" "tk_rest s1 s'" "hw_n s' = hw_n s1 + n + (if n < length L then 1 else 0)"
      using Cons.IH [OF t1 U(2) q1 f1(1)] by blast
    have "due_prefix T n0 (hw_n s) (Suc n) (x # L) s" using IH(2) True unfolding due_prefix_def f1 n1
      by (auto simp: nth_Cons split: nat.splits)
    moreover have "tk_rest s s'" using r1 IH(6) by (simp add: tk_rest_def tk_same_def)
    ultimately show ?thesis using IH f1 e by (intro exI [of _ "Suc n"] exI [of _ s']) simp
  qed
qed

lemma irq_ok:
  assumes ok: "tk_ok T n0 L s" and h: "tq_event_handler s"
  shows "\<exists>n s'. ticker_irq_handler tk_log s = Some s' \<and> due_prefix T n0 (hw_n s) n L s \<and> tk_ok T n0 (drop n L) s' \<and> tq_frequency s' = tq_frequency s \<and>
    tk_out s' = tk_out s @ Clear_interrupt # map (\<lambda>x. Handler (ev_id s x)) (take n L) @
      (let k = hw_n s + n + (if n < length L then 1 else 0) in schedule_out T k (T k - T n0) s')"
proof -
  obtain j where j: "n0 \<le> j" "tk_time T j (T j - T n0) s" and q: "tk_queue L s" and nd: "\<not> tq_dispatching s" and qi: "tq_initialized s"
    using ok by (auto simp: tk_ok_def)
  have ns: "\<not> tq_suspended s" using j by (simp add: tk_time_def)
  define s1 where "s1 = (tk_emit Clear_interrupt s)\<lparr>tq_dispatching := True\<rparr>"
  have t1: "tk_time T j (T j - T n0) s1" using j(2) by (simp add: tk_time_def clock_ok_def tk_conf_def s1_def tk_emit_def)
  have q1: "tk_queue L s1" "tq_event_handler s1" using q h by (simp_all add: tk_queue_def s1_def tk_emit_def)
  have f1: "hw_n s1 = hw_n s" "ev_id s1 = ev_id s" "tk_out s1 = tk_out s @ [Clear_interrupt]" "due_prefix T n0 k n L s1 = due_prefix T n0 k n L s" for k n
    by (simp_all add: s1_def tk_emit_def due_prefix_def us_at_def tk_now_def)
  obtain n s2 j2 where D: "ticker_dispatch_loop tk_log s1 = Some s2" "due_prefix T n0 (hw_n s) n L s" "n0 \<le> j2" "tk_time T j2 (T j2 - T n0) s2" "tk_queue (drop n L) s2"
    "tk_out s2 = tk_out s @ Clear_interrupt # map (\<lambda>x. Handler (ev_id s x)) (take n L)" "tk_rest s1 s2" "hw_n s2 = hw_n s + n + (if n < length L then 1 else 0)"
    using dispatch_ok [OF t1 j(1) q1] unfolding f1 by auto
  define s3 where "s3 = s2\<lparr>tq_dispatching := False\<rparr>"
  have t3: "tk_time T j2 (T j2 - T n0) s3" "\<not> tq_dispatching s3" using D(4) by (simp_all add: tk_time_def clock_ok_def tk_conf_def s3_def)
  obtain s' where S: "schedule_interrupt s3 = Some s'" "tk_time T (hw_n s3) (T (hw_n s3) - T n0) s'" "n0 \<le> hw_n s3"
    "tk_out s' = tk_out s3 @ schedule_out T (hw_n s3) (T (hw_n s3) - T n0) s3" "tk_same s3 (s'\<lparr>tk_out := tk_out s3\<rparr>)"
    using schedule_since [OF t3(1) D(3) t3(2)] by blast
  have e: "ticker_irq_handler tk_log s = Some s'" using D(1) S(1) ns by (simp add: ticker_irq_handler_def s1_def s3_def tk_emit_def)
  have "tq_initialized s3" using D(7) qi by (simp add: s3_def tk_rest_def tk_same_def s1_def tk_emit_def)
  moreover have "tk_queue (drop n L) s3" using D(5) by (simp add: tk_queue_def s3_def)
  ultimately have "tk_ok T n0 (drop n L) s'" using S(2,3) t3(2) same_out [OF S(5)] by (auto simp: tk_ok_def)
  moreover have "tk_out s3 = tk_out s2" "hw_n s3 = hw_n s2" by (simp_all add: s3_def)
  moreover have "tq_frequency s3 = tq_frequency s" using D(7) by (simp add: s3_def tk_rest_def tk_same_def s1_def tk_emit_def)
  ultimately show ?thesis using e D(2,6,8) S(4) same_schedule_out [OF S(5)] same_out [OF S(5)] by (intro exI [of _ n] exI [of _ s']) (simp add: Let_def)
qed

end
