(* ===== verification/TickerProps.thy ===== *)
theory TickerProps
  imports TickerQueue
begin

text \<open>
  The properties of the ticker: the time it gives does not drift, whatever is done with it, and the events come out in their order, each
  at the right tick.
\<close>

text \<open>What drivers do with a ticker that has been initialised.  An event that is queued is not inserted again.\<close>

inductive tk_reach :: "ticker \<Rightarrow> ticker \<Rightarrow> bool" for s0 where
  tk_init: "ticker_initialize s0 = Some s \<Longrightarrow> tk_reach s0 s"
| tk_set_handler: "tk_reach s0 s \<Longrightarrow> ticker_set_handler h s = Some s' \<Longrightarrow> tk_reach s0 s'"
| tk_read: "tk_reach s0 s \<Longrightarrow> ticker_read_us s = Some (t, s') \<Longrightarrow> tk_reach s0 s'"
| tk_insert_us: "tk_reach s0 s \<Longrightarrow> tk_queue L s \<Longrightarrow> obj \<noteq> NULL \<Longrightarrow> obj \<notin> set L \<Longrightarrow> ticker_insert_event_us obj t i s = Some s' \<Longrightarrow> tk_reach s0 s'"
| tk_insert: "tk_reach s0 s \<Longrightarrow> tk_queue L s \<Longrightarrow> obj \<noteq> NULL \<Longrightarrow> obj \<notin> set L \<Longrightarrow> ticker_insert_event obj t32 i s = Some s' \<Longrightarrow> tk_reach s0 s'"
| tk_remove: "tk_reach s0 s \<Longrightarrow> obj \<noteq> NULL \<Longrightarrow> ticker_remove_event obj s = Some s' \<Longrightarrow> tk_reach s0 s'"
| tk_irq: "tk_reach s0 s \<Longrightarrow> tq_event_handler s \<Longrightarrow> ticker_irq_handler tk_log s = Some s' \<Longrightarrow> tk_reach s0 s'"

lemma ev_list_unique: "ev_list nx p L \<Longrightarrow> ev_list nx p L' \<Longrightarrow> L' = L"
proof (induction L arbitrary: p L')
  case Nil
  then show ?case by (cases L') auto
next
  case (Cons x L)
  then show ?case by (cases L') auto
qed

lemma queue_unique: "tk_queue L s \<Longrightarrow> tk_queue L' s \<Longrightarrow> L' = L"
  unfolding tk_queue_def by (elim conjE) (rule ev_list_unique)

lemma read_us_ok:
  assumes "tk_ok T n0 L s"
  shows "\<exists>s'. ticker_read_us s = Some (us_at T n0 (hw_n s) s, s') \<and> tk_ok T n0 L s' \<and> tq_frequency s' = tq_frequency s"
proof -
  obtain j where j: "n0 \<le> j" "tk_time T j (T j - T n0) s" and qi: "tq_initialized s" "tk_queue L s" "\<not> tq_dispatching s" using assms by (auto simp: tk_ok_def)
  have i: "ticker_initialize s = Some s" using qi by (simp add: ticker_initialize_def)
  note U = update_since [OF j(2,1)]
  define u where "u = update_present_time s"
  have u: "tk_time T (hw_n s) (T (hw_n s) - T n0) u" "n0 \<le> hw_n s" "tk_same s u" "tq_present_time u = us_at T n0 (hw_n s) s" using U by (simp_all add: u_def)
  have "ticker_read_us s = Some (us_at T n0 (hw_n s) s, u)" using i u(4) by (simp add: ticker_read_us_def u_def [symmetric])
  moreover have "tk_ok T n0 L u" using u qi tk_same_queue [OF u(3)] by (auto simp: tk_ok_def tk_same_def)
  ultimately show ?thesis using u(3) by (auto simp: tk_same_def)
qed

lemma update_tk_ok:
  assumes "tk_ok T n0 L s"
  shows "tk_ok T n0 L (update_present_time s) \<and> tq_frequency (update_present_time s) = tq_frequency s"
proof -
  have "tq_initialized s" using assms by (simp add: tk_ok_def)
  then have "ticker_read_us s = Some (tq_present_time (update_present_time s), update_present_time s)" by (simp add: ticker_read_us_def ticker_initialize_def Let_def)
  then show ?thesis using read_us_ok [OF assms] by auto
qed

lemma insert_event_ok:
  assumes ok: "tk_ok T n0 L s" and obj: "obj \<noteq> NULL" "obj \<notin> set L"
  shows "\<exists>s' L'. ticker_insert_event obj t i s = Some s' \<and> tk_ok T n0 L' s' \<and> tq_frequency s' = tq_frequency s"
proof -
  define u where "u = update_present_time s"
  have u: "tk_ok T n0 L u" "tq_frequency u = tq_frequency s" using update_tk_ok [OF ok] by (simp_all add: u_def)
  have e: "ticker_insert_event obj t i s = ticker_insert_event_us obj (convert_timestamp (tq_present_time u) t) i u"
    by (simp add: ticker_insert_event_def u_def Let_def)
  show ?thesis unfolding e using insert_ok [OF u(1) obj refl, of "convert_timestamp (tq_present_time u) t" i] u(2) by auto
qed

lemma reach_ok:
  assumes c: "clock_ok T s0" and i: "\<not> tq_initialized s0" "\<not> tq_suspended s0" and f: "hw_freq s0 \<noteq> 0" and b: "4 \<le> unat (hw_bits s0)" "unat (hw_bits s0) \<le> 32"
    and r: "tk_reach s0 s"
  shows "(\<exists>L. tk_ok T (hw_n s0) L s) \<and> tq_frequency s = hw_freq s0"
  using r
proof (induction rule: tk_reach.induct)
  case (tk_init s)
  obtain s' where s': "ticker_initialize s0 = Some s'" "tk_time T (hw_n s0 + 2) (T (hw_n s0 + 2) - T (hw_n s0)) s'" "tq_initialized s'" "\<not> tq_dispatching s'"
    "tk_head s' = NULL" "tq_frequency s' = hw_freq s0" using init_ok [OF c i f b] by blast
  have "tk_queue [] s'" using s'(5) by (simp add: tk_queue_def ev_le_def)
  then have "tk_ok T (hw_n s0) [] s'" using s' unfolding tk_ok_def by (intro conjI exI [of _ "hw_n s0 + 2"]) simp_all
  then show ?case using s' tk_init by auto
next
  case (tk_set_handler s h s')
  then obtain L where L: "tk_ok T (hw_n s0) L s" by blast
  then have "s' = s\<lparr>tq_event_handler := h\<rparr>" using tk_set_handler(2) by (simp add: ticker_set_handler_def ticker_initialize_def tk_ok_def)
  moreover have "tk_ok T (hw_n s0) L (s\<lparr>tq_event_handler := h\<rparr>)" using L by (simp add: tk_ok_def tk_queue_def tk_time_def clock_ok_def tk_conf_def)
  ultimately show ?case using tk_set_handler(3) by auto
next
  case (tk_read s t s')
  then obtain L where L: "tk_ok T (hw_n s0) L s" by blast
  show ?case using read_us_ok [OF L] tk_read by auto
next
  case (tk_insert_us s L obj t i s')
  then obtain L' where L': "tk_ok T (hw_n s0) L' s" by blast
  then have "L' = L" using queue_unique [OF tk_insert_us(2)] by (simp add: tk_ok_def)
  then show ?case using insert_ok [OF L' tk_insert_us(3) _ refl, of t i] tk_insert_us by auto
next
  case (tk_insert s L obj t i s')
  then obtain L' where L': "tk_ok T (hw_n s0) L' s" by blast
  then have "L' = L" using queue_unique [OF tk_insert(2)] by (simp add: tk_ok_def)
  then show ?case using insert_event_ok [OF L' tk_insert(3), of t i] tk_insert by auto
next
  case (tk_remove s obj s')
  then obtain L where L: "tk_ok T (hw_n s0) L s" by blast
  show ?case using remove_ok [OF L tk_remove(2)] tk_remove by auto
next
  case (tk_irq s s')
  then obtain L where L: "tk_ok T (hw_n s0) L s" by blast
  show ?case using irq_ok [OF L tk_irq(2)] tk_irq by auto
qed

text \<open>The ticks of a suspension are not counted: after it the time goes on from the reading at which the ticker resumes.\<close>

lemma suspend_resume:
  assumes t: "tk_time T j C s" and qi: "tq_initialized s" "\<not> tq_dispatching s"
  defines "n \<equiv> hw_n s"
  shows "\<exists>s'. ticker_resume (ticker_suspend s) = Some s' \<and> tk_time T (n + 2) (C + (T (n + 2) - T n)) s' \<and> tk_head s' = tk_head s"
proof -
  have c: "clock_ok T s" using t by (simp add: tk_time_def)
  define s1 where "s1 = s\<lparr>tq_suspended := False, hw_n := Suc n, tq_tick_last_read := hw_read s n\<rparr>"
  have t1: "tk_time T n C s1" using t by (simp add: tk_time_def clock_ok_def tk_conf_def s1_def)
  have h1: "hw_n s1 = Suc n" "tk_head s1 = tk_head s" by (simp_all add: s1_def)
  define u where "u = update_present_time s1"
  have u: "tk_time T (Suc n) (C + (T (Suc n) - T n)) u" "hw_n u = n + 2" "tk_same s1 u" using update_time [OF t1] by (simp_all add: u_def h1)
  have nd: "\<not> tq_dispatching u" using u(3) qi by (simp add: tk_same_def s1_def)
  obtain s' where s': "schedule_interrupt u = Some s'" "tk_time T (n + 2) (C + (T (Suc n) - T n) + (T (n + 2) - T (Suc n))) s'" "tk_same u (s'\<lparr>tk_out := tk_out u\<rparr>)"
    using schedule_ok [OF u(1) nd] unfolding u(2) by blast
  have "T n \<le> T (Suc n)" "T (Suc n) \<le> T (n + 2)" using clock_mono [OF c] by simp_all
  then have "C + (T (Suc n) - T n) + (T (n + 2) - T (Suc n)) = C + (T (n + 2) - T n)" by simp
  moreover have "tk_head s' = tk_head s" using s'(3) u(3) h1 by (simp add: tk_same_def)
  moreover have "ticker_resume (ticker_suspend s) = Some s'"
    using s'(1) qi by (simp add: ticker_resume_def ticker_suspend_def tk_read_def Let_def u_def s1_def n_def)
  ultimately show ?thesis using s'(2) by (simp only:) auto
qed

section \<open>Properties\<close>


text \<open>C17: inserting an event puts it behind everything that is not later, keeps the others, and programs the hardware if it is the first.\<close>

theorem ticker_insert:
  assumes "tk_ok T n0 L s" "obj \<noteq> NULL" "obj \<notin> set L"
  shows "\<exists>s' A B. ticker_insert_event_us obj t i s = Some s' \<and> L = A @ B \<and> tk_ok T n0 (A @ obj # B) s' \<and>
    (\<forall>x\<in>set A. ev_timestamp s x \<le> t) \<and> (\<forall>x\<in>set B. t < ev_timestamp s x) \<and>
    ev_timestamp s' = (ev_timestamp s)(obj := t) \<and> ev_id s' = (ev_id s)(obj := i) \<and>
    tk_out s' = tk_out s @ (if A = [] then schedule_out T (hw_n s + 1) (T (hw_n s + 1) - T n0) s' else [])"
proof -
  define ts where "ts = (ev_timestamp s)(obj := t)"
  define A B where "A = takeWhile (\<lambda>x. ev_timestamp s x \<le> t) L" and "B = dropWhile (\<lambda>x. ev_timestamp s x \<le> t) L"
  have L: "L = A @ B" by (simp add: A_def B_def)
  have o: "obj \<notin> set A" using assms(3) L by simp
  have "ins_event ts obj L = takeWhile (\<lambda>x. ts x \<le> t) L @ obj # dropWhile (\<lambda>x. ts x \<le> t) L" by (simp add: ins_after_def ts_def)
  also have "takeWhile (\<lambda>x. ts x \<le> t) L = A" unfolding A_def by (rule takeWhile_cong) (use assms(3) in \<open>auto simp: ts_def\<close>)
  also have "dropWhile (\<lambda>x. ts x \<le> t) L = B" unfolding B_def by (rule dropWhile_cong) (use assms(3) in \<open>auto simp: ts_def\<close>)
  finally have ins: "ins_event ts obj L = A @ obj # B" .
  have first: "ev_first (A @ obj # B) = obj \<longleftrightarrow> A = []" using o by (cases A) auto
  have a: "\<forall>x\<in>set A. ev_timestamp s x \<le> t" unfolding A_def by (auto dest: set_takeWhileD)
  have b: "\<forall>x\<in>set B. t < ev_timestamp s x"
  proof (cases B)
    case (Cons y B')
    have "\<not> ev_timestamp s (hd B) \<le> t" unfolding B_def by (rule hd_dropWhile) (use Cons in \<open>simp add: B_def\<close>)
    then have y: "t < ev_timestamp s y" using Cons by simp
    have "ev_le (ev_timestamp s) L" using assms(1) by (simp add: tk_ok_def tk_queue_def)
    then have "\<forall>x\<in>set B'. ev_timestamp s y \<le> ev_timestamp s x" by (simp add: L Cons ev_le_def sorted_wrt_append)
    then show ?thesis using y Cons by (auto intro: less_le_trans)
  qed simp
  obtain s' where s': "ticker_insert_event_us obj t i s = Some s'" "tk_ok T n0 (ins_event ts obj L) s'" "ev_timestamp s' = ts" "ev_id s' = (ev_id s)(obj := i)"
    "tk_out s' = tk_out s @ (if ev_first (ins_event ts obj L) = obj then schedule_out T (hw_n s + 1) (T (hw_n s + 1) - T n0) s' else [])"
    using insert_ok [OF assms ts_def] by blast
  show ?thesis
    by (rule exI [of _ s'], rule exI [of _ A], rule exI [of _ B]) (use s' [unfolded ins first] L a b in \<open>simp add: ts_def\<close>)
qed



section \<open>Witnesses\<close>

text \<open>A counter of 32 bits at 33.333 MHz that is read every 100 ticks, before and after its initialisation.\<close>

definition tick0 :: ticker where
  "tick0 = \<lparr>tq_event_handler = False, tk_head = 0, tq_frequency = 0, tq_bitmask = 0, tq_max_delta = 0, tq_max_delta_us = 0, tq_tick_last_read = 0,
     tq_tick_remainder = 0, tq_present_time = 0, tq_initialized = False, tq_dispatching = False, tq_suspended = False, tq_frequency_shifts = 0,
     ev_timestamp = (\<lambda>_. 0), ev_id = (\<lambda>_. 0), ev_next = (\<lambda>_. 0), hw_read = (\<lambda>k. of_nat (100 * k mod 2 ^ 32)), hw_n = 0, hw_freq = 33333333,
     hw_bits = 32, tk_out = []\<rparr>"

definition tick1 :: "addr \<Rightarrow> u64 \<Rightarrow> ticker" where
  "tick1 p t = tick0\<lparr>tq_event_handler := True, tk_head := p, tq_frequency := 33333333, tq_bitmask := 0xFFFFFFFF, tq_max_delta := 0x70000000,
     tq_max_delta_us := of_nat ((7 * 2 ^ 28 * 10 ^ 6 + 33333332) div 33333333), tq_initialized := True, ev_timestamp := (\<lambda>_. t), hw_n := 1\<rparr>"

lemma tick0_clock: "clock_ok (\<lambda>k. 100 * k) tick0"
  by (simp add: clock_ok_def tick0_def)

lemma tick1_time: "tk_time (\<lambda>k. 100 * k) 0 0 (tick1 p t)"
  by (simp add: tk_time_def clock_ok_def tk_conf_def tick1_def tick0_def mask_eq_exp_minus_1)

lemma tick1_ok: "p \<noteq> 0 \<Longrightarrow> tk_ok (\<lambda>k. 100 * k) 0 [p] (tick1 p t)" "tk_ok (\<lambda>k. 100 * k) 0 [] (tick1 0 t)"
  unfolding tk_ok_def using tick1_time by (auto simp: tk_queue_def ev_le_def tick1_def tick0_def intro!: exI [of _ 0])


theorem ticker_insert_witness: "\<exists>s'. ticker_insert_event_us 8 7 1 (tick1 4 7) = Some s' \<and> tk_ok (\<lambda>k. 100 * k) 0 [4, 8] s'"
proof -
  obtain s' A B where s': "ticker_insert_event_us 8 7 1 (tick1 4 7) = Some s'" "[4] = A @ B" "tk_ok (\<lambda>k. 100 * k) 0 (A @ 8 # B) s'"
    "\<forall>x\<in>set B. 7 < ev_timestamp (tick1 4 7) x" using ticker_insert [OF tick1_ok(1), of 4 8 7 1 7] by auto
  then have "B = []" by (cases B) (auto simp: append_eq_Cons_conv Cons_eq_append_conv tick1_def tick0_def)
  then show ?thesis using s' by auto
qed



end
